(* ===== verification/Bridge_Prelude.thy ===== *)
theory Bridge_Prelude
  imports Complex_Main "HOL-Library.AList" "HOL-Library.Sublist"
begin

text \<open>
  The vocabulary every component shares: Go maps that the code iterates over, as association
  lists with distinct keys; sums over the entries of such a map; the two shapes of a fallible
  result; and the collections of rewrite rules the component theories extend.

  A Go map has no iteration order. An association list has one, and every theorem about a loop
  over a map is stated for all lists, so it covers every order the runtime may pick.
\<close>

named_theorems map_simps \<open>lookup, update, delete and sums over association lists\<close>
named_theorems step_defs \<open>definitions of the operations of a component\<close>

type_synonym ('k, 'v) gomap = "('k \<times> 'v) list"
type_synonym gotime = int \<comment> \<open>nanoseconds since the Unix epoch\<close>

abbreviation wf_map :: "('k, 'v) gomap \<Rightarrow> bool" where
  "wf_map m \<equiv> distinct (map fst m)"

abbreviation lookup :: "('k, 'v) gomap \<Rightarrow> 'k \<Rightarrow> 'v option" where
  "lookup m k \<equiv> map_of m k"

abbreviation keys :: "('k, 'v) gomap \<Rightarrow> 'k set" where
  "keys m \<equiv> fst ` set m"

section \<open>Lookup after update and delete\<close>

lemma lookup_update [map_simps]:
  "lookup (AList.update k v m) k' = (if k' = k then Some v else lookup m k')"
  by (simp add: update_conv')

lemma lookup_delete [map_simps]:
  "lookup (AList.delete k m) k' = (if k' = k then None else lookup m k')"
  by (simp add: delete_conv')

lemma wf_map_update [simp, intro]: "wf_map m \<Longrightarrow> wf_map (AList.update k v m)"
  by (rule distinct_update)

lemma wf_map_delete [simp, intro]: "wf_map m \<Longrightarrow> wf_map (AList.delete k m)"
  by (rule distinct_delete)

lemma wf_map_filter [simp, intro]: "wf_map m \<Longrightarrow> wf_map (filter P m)"
  by (induction m) auto

lemma keys_update [map_simps]: "keys (AList.update k v m) = insert k (keys m)"
  by (induction m) auto

lemma keys_delete [map_simps]: "keys (AList.delete k m) = keys m - {k}"
  by (induction m) auto

lemma lookup_mem: "lookup m k = Some v \<Longrightarrow> (k, v) \<in> set m"
  by (rule map_of_SomeD)

lemma lookup_iff: "wf_map m \<Longrightarrow> lookup m k = Some v \<longleftrightarrow> (k, v) \<in> set m"
  by (metis map_of_SomeD map_of_eq_Some_iff)

lemma lookup_None_iff: "lookup m k = None \<longleftrightarrow> k \<notin> keys m"
  by (simp add: map_of_eq_None_iff)

lemma lookup_filter: "wf_map m \<Longrightarrow>
    lookup (filter (\<lambda>(k, v). P k v) m) k =
      (case lookup m k of None \<Rightarrow> None | Some v \<Rightarrow> if P k v then Some v else None)"
proof (induction m)
  case Nil
  then show ?case by simp
next
  case (Cons a m)
  obtain k' v' where a: "a = (k', v')" by (cases a)
  show ?case
  proof (cases "k = k'")
    case True
    with Cons.prems a have "k \<notin> fst ` set m" by auto
    then have "lookup m k = None" and "lookup (filter (\<lambda>(k, v). P k v) m) k = None"
      by (auto simp: map_of_eq_None_iff)
    with True a show ?thesis by simp
  next
    case False
    with Cons a show ?thesis by simp
  qed
qed

lemma set_update_subset: "set (AList.update k v m) \<subseteq> insert (k, v) (set m)"
  by (induction m) auto

lemma set_delete_subset: "set (AList.delete k m) \<subseteq> set m"
  by (induction m) auto

lemma length_update_new: "k \<notin> keys m \<Longrightarrow> length (AList.update k v m) = Suc (length m)"
  by (induction m) auto

lemma length_update_old: "k \<in> keys m \<Longrightarrow> length (AList.update k v m) = length m"
  by (induction m) auto

lemma length_delete_old: "wf_map m \<Longrightarrow> k \<in> keys m \<Longrightarrow> Suc (length (AList.delete k m)) = length m"
proof (induction m)
  case Nil
  then show ?case by simp
next
  case (Cons a m)
  show ?case
  proof (cases "fst a = k")
    case True
    with Cons.prems have "AList.delete k m = m"
      by (metis delete_id distinct.simps(2) list.simps(9) list.set_map)
    with True show ?thesis by (cases a) simp
  next
    case False
    with Cons show ?thesis by (cases a) auto
  qed
qed

section \<open>Sums over a map\<close>

definition total :: "('v \<Rightarrow> int) \<Rightarrow> ('k, 'v) gomap \<Rightarrow> int" where
  "total f m = sum_list (map (\<lambda>(k, v). f v) m)"

definition at_key :: "('v \<Rightarrow> int) \<Rightarrow> ('k, 'v) gomap \<Rightarrow> 'k \<Rightarrow> int" where
  "at_key f m k = (case lookup m k of None \<Rightarrow> 0 | Some v \<Rightarrow> f v)"

lemma total_Nil [simp]: "total f [] = 0"
  by (simp add: total_def)

lemma total_Cons [simp]: "total f ((k, v) # m) = f v + total f m"
  by (simp add: total_def)

lemma total_delete [map_simps]:
  "wf_map m \<Longrightarrow> total f (AList.delete k m) = total f m - at_key f m k"
proof (induction m)
  case Nil
  then show ?case by (simp add: at_key_def)
next
  case (Cons a m)
  obtain k' v' where a: "a = (k', v')" by (cases a)
  show ?case
  proof (cases "k = k'")
    case True
    with Cons.prems a have "k \<notin> fst ` set m" by auto
    then have "AList.delete k m = m" by (rule delete_id)
    with True a show ?thesis by (simp add: at_key_def)
  next
    case False
    with Cons a show ?thesis by (simp add: at_key_def)
  qed
qed

lemma total_update [map_simps]:
  "wf_map m \<Longrightarrow> total f (AList.update k v m) = total f m - at_key f m k + f v"
proof (induction m)
  case Nil
  then show ?case by (simp add: at_key_def)
next
  case (Cons a m)
  then show ?case by (cases a) (auto simp: at_key_def)
qed

lemma total_nonneg: "(\<And>k v. (k, v) \<in> set m \<Longrightarrow> 0 \<le> f v) \<Longrightarrow> 0 \<le> total f m"
  by (auto simp: total_def intro!: sum_list_nonneg)

lemma total_mono:
  "(\<And>k v. (k, v) \<in> set m \<Longrightarrow> f v \<le> g v) \<Longrightarrow> total f m \<le> total g m"
  unfolding total_def by (rule sum_list_mono) auto

lemma total_cong: "(\<And>k v. (k, v) \<in> set m \<Longrightarrow> f v = g v) \<Longrightarrow> total f m = total g m"
  unfolding total_def by (rule arg_cong [where f = sum_list]) auto

lemma total_zero: "(\<And>k v. (k, v) \<in> set m \<Longrightarrow> f v = 0) \<Longrightarrow> total f m = 0"
proof -
  assume z: "\<And>k v. (k, v) \<in> set m \<Longrightarrow> f v = 0"
  have "total f m = total (\<lambda>_. 0) m" by (rule total_cong) (rule z)
  also have "\<dots> = 0" by (induction m) auto
  finally show ?thesis .
qed

lemma at_key_None [simp]: "lookup m k = None \<Longrightarrow> at_key f m k = 0"
  by (simp add: at_key_def)

lemma at_key_Some [simp]: "lookup m k = Some v \<Longrightarrow> at_key f m k = f v"
  by (simp add: at_key_def)

section \<open>Results\<close>

text \<open>
  A Go function returning \<open>(T, error)\<close> is modelled by \<open>'e + 'a\<close>: \<open>Inl\<close> the error,
  \<open>Inr\<close> the value.
\<close>

definition is_ok :: "'e + 'a \<Rightarrow> bool" where
  "is_ok r = (case r of Inl _ \<Rightarrow> False | Inr _ \<Rightarrow> True)"

lemma is_ok_simps [simp]: "is_ok (Inr a)" "\<not> is_ok (Inl e)"
  by (simp_all add: is_ok_def)

lemma is_ok_iff: "is_ok r \<longleftrightarrow> (\<exists>a. r = Inr a)"
  by (cases r) simp_all

section \<open>Folding an invariant through a list\<close>

lemma fold_invariant: "I s \<Longrightarrow> (\<And>x s. x \<in> set xs \<Longrightarrow> I s \<Longrightarrow> I (f x s)) \<Longrightarrow> I (fold f xs s)"
  by (induction xs arbitrary: s) auto

lemma foldl_invariant: "I s \<Longrightarrow> (\<And>x s. x \<in> set xs \<Longrightarrow> I s \<Longrightarrow> I (f s x)) \<Longrightarrow> I (foldl f s xs)"
  by (induction xs arbitrary: s) auto

lemma sorted_wrt_sort_key: "sorted (map f (sort_key f xs))"
  by (rule sorted_sort_key)

end
