(* ===== verification/Go_Strings.thy ===== *)
theory Go_Strings
  imports Bridge_Prelude "HOL-Library.Char_ord"
begin

text \<open>
  The part of Go's \<open>strings\<close>, \<open>unicode/utf8\<close> and \<open>path\<close> packages the bridge uses. A Go string is
  a sequence of bytes and so is an Isabelle \<open>string\<close> (a list of 8-bit characters), so a code point
  beyond ASCII is several characters, as it is several bytes in Go.
\<close>

section \<open>Splitting and joining\<close>

fun split_on :: "char \<Rightarrow> string \<Rightarrow> string list" where
  "split_on d [] = [[]]"
| "split_on d (c # cs) =
     (if c = d then [] # split_on d cs
      else (case split_on d cs of [] \<Rightarrow> [[c]] | w # ws \<Rightarrow> (c # w) # ws))"

fun join_with :: "char \<Rightarrow> string list \<Rightarrow> string" where
  "join_with d [] = []"
| "join_with d [w] = w"
| "join_with d (w # v # ws) = w @ d # join_with d (v # ws)"

lemma split_on_nonempty [simp]: "split_on d s \<noteq> []"
  by (cases s) (auto split: list.splits)

lemma split_on_no_sep: "w \<in> set (split_on d s) \<Longrightarrow> d \<notin> set w"
proof (induction s arbitrary: w)
  case Nil
  then show ?case by simp
next
  case (Cons c cs)
  obtain v vs where s: "split_on d cs = v # vs"
    by (cases "split_on d cs") auto
  with Cons.IH [of v] have "d \<notin> set v" by simp
  with Cons.prems s Cons.IH show ?case by (auto split: if_splits)
qed

lemma join_with_Cons: "ws \<noteq> [] \<Longrightarrow> join_with d (w # ws) = w @ d # join_with d ws"
  by (cases ws) auto

lemma join_split [simp]: "join_with d (split_on d s) = s"
proof (induction s)
  case Nil
  then show ?case by simp
next
  case (Cons c cs)
  obtain w ws where s: "split_on d cs = w # ws"
    by (cases "split_on d cs") auto
  show ?case
  proof (cases "c = d")
    case True
    with Cons s show ?thesis by simp
  next
    case False
    with Cons s show ?thesis by (cases ws) auto
  qed
qed

lemma split_on_single: "d \<notin> set w \<Longrightarrow> split_on d w = [w]"
  by (induction w) auto

lemma split_on_append_sep: "d \<notin> set w \<Longrightarrow> split_on d (w @ d # s) = w # split_on d s"
  by (induction w) auto

lemma split_join:
  assumes "ws \<noteq> []" and "\<And>w. w \<in> set ws \<Longrightarrow> d \<notin> set w"
  shows "split_on d (join_with d ws) = ws"
  using assms
proof (induction ws)
  case Nil
  then show ?case by simp
next
  case (Cons w ws)
  then show ?case
    by (cases ws) (auto simp: split_on_single split_on_append_sep)
qed

lemma split_on_append: "split_on d (s @ d # t) = split_on d s @ split_on d t"
proof (induction s)
  case Nil
  then show ?case by simp
next
  case (Cons c cs)
  obtain w ws where "split_on d cs = w # ws" by (cases "split_on d cs") auto
  with Cons show ?case by auto
qed

section \<open>Searching and replacing\<close>

abbreviation has_prefix :: "string \<Rightarrow> string \<Rightarrow> bool" where
  "has_prefix s p \<equiv> prefix p s"

abbreviation has_suffix :: "string \<Rightarrow> string \<Rightarrow> bool" where
  "has_suffix s p \<equiv> suffix p s"

definition trim_prefix :: "string \<Rightarrow> string \<Rightarrow> string" where
  "trim_prefix s p = (if has_prefix s p then drop (length p) s else s)"

definition trim_suffix :: "string \<Rightarrow> string \<Rightarrow> string" where
  "trim_suffix s p = (if has_suffix s p then take (length s - length p) s else s)"

fun contains :: "string \<Rightarrow> string \<Rightarrow> bool" where
  "contains [] n \<longleftrightarrow> n = []"
| "contains (c # cs) n \<longleftrightarrow> prefix n (c # cs) \<or> contains cs n"

definition contains_any :: "string \<Rightarrow> string list \<Rightarrow> bool" where
  "contains_any h ns = list_ex (contains h) ns"

lemma contains_iff: "contains s n \<longleftrightarrow> sublist n s"
  by (induction s) (auto simp: sublist_Cons_right)

function replace_all :: "string \<Rightarrow> string \<Rightarrow> string \<Rightarrow> string" where
  "replace_all old new s =
     (case s of [] \<Rightarrow> []
      | c # cs \<Rightarrow> if old \<noteq> [] \<and> prefix old s then new @ replace_all old new (drop (length old) s)
                 else c # replace_all old new cs)"
  by pat_completeness auto
termination
  by (relation "measure (\<lambda>(_, _, s). length s)") auto

declare replace_all.simps [simp del]

lemma replace_all_Nil [simp]: "replace_all old new [] = []"
  by (simp add: replace_all.simps)

lemma replace_all_hit:
  "old \<noteq> [] \<Longrightarrow> replace_all old new (old @ s) = new @ replace_all old new s"
proof -
  assume old: "old \<noteq> []"
  then obtain c cs where s: "old @ s = c # cs" by (cases "old @ s") auto
  have "prefix old (c # cs)" and "drop (length old) (c # cs) = s"
    by (simp_all add: s [symmetric])
  with old show ?thesis unfolding s by (subst replace_all.simps) simp
qed

lemma replace_all_miss:
  "\<not> prefix old (c # cs) \<Longrightarrow> replace_all old new (c # cs) = c # replace_all old new cs"
  by (subst replace_all.simps) auto

lemma replace_all_length_le:
  "length new \<le> length old \<Longrightarrow> length (replace_all old new s) \<le> length s"
proof (induction old new s rule: replace_all.induct)
  case (1 old new s)
  show ?case
  proof (cases s)
    case Nil
    then show ?thesis by simp
  next
    case (Cons c cs)
    show ?thesis
    proof (cases "old \<noteq> [] \<and> prefix old s")
      case True
      then obtain t where t: "s = old @ t" by (auto simp: prefix_def)
      with True have "length (replace_all old new (drop (length old) s)) \<le> length (drop (length old) s)"
        using "1.IH"(1) [OF Cons] "1.prems" Cons by simp
      with True t "1.prems" show ?thesis by (simp add: replace_all_hit)
    next
      case False
      then have "length (replace_all old new cs) \<le> length cs"
        using "1.IH"(2) [OF Cons] "1.prems" Cons by simp
      with False Cons show ?thesis by (subst replace_all.simps) auto
    qed
  qed
qed

lemma replace_all_length_less:
  "length new < length old \<Longrightarrow> contains s old \<Longrightarrow> length (replace_all old new s) < length s"
proof (induction s)
  case Nil
  then show ?case by simp
next
  case (Cons c cs)
  show ?case
  proof (cases "prefix old (c # cs)")
    case True
    then obtain t where t: "c # cs = old @ t" by (auto simp: prefix_def)
    from Cons.prems(1) have "old \<noteq> []" by auto
    with Cons.prems(1) show ?thesis
      unfolding t by (simp add: replace_all_hit add_less_le_mono replace_all_length_le)
  next
    case False
    with Cons show ?thesis by (simp add: replace_all_miss)
  qed
qed

text \<open>The index of the first occurrence of a byte, and what lies before and after the last one.\<close>

fun index_of :: "char \<Rightarrow> string \<Rightarrow> nat option" where
  "index_of d [] = None"
| "index_of d (c # cs) = (if c = d then Some 0 else map_option Suc (index_of d cs))"

definition last_index :: "char \<Rightarrow> string \<Rightarrow> nat option" where
  "last_index d s = map_option (\<lambda>i. length s - Suc i) (index_of d (rev s))"

text \<open>\<open>strings.Cut\<close>.\<close>

definition cut_at :: "char \<Rightarrow> string \<Rightarrow> (string \<times> string) option" where
  "cut_at d s = map_option (\<lambda>i. (take i s, drop (Suc i) s)) (index_of d s)"

lemma index_of_None: "index_of d s = None \<longleftrightarrow> d \<notin> set s"
  by (induction s) auto

lemma index_of_append: "d \<notin> set w \<Longrightarrow> index_of d (w @ d # s) = Some (length w)"
  by (induction w) auto

lemma cut_at_append: "d \<notin> set w \<Longrightarrow> cut_at d (w @ d # s) = Some (w, s)"
  by (simp add: cut_at_def index_of_append)

lemma last_index_append: "d \<notin> set w \<Longrightarrow> last_index d (s @ d # w) = Some (length s)"
  using index_of_append [of d "rev w" "rev s"] by (simp add: last_index_def)

section \<open>Letter case\<close>

definition lower_char :: "char \<Rightarrow> char" where
  "lower_char c = (if CHR ''A'' \<le> c \<and> c \<le> CHR ''Z'' then char_of (of_char c + 32 :: nat) else c)"

text \<open>
  \<open>strings.ToLower\<close>, exact on the ASCII part of the result: ASCII capitals, and the two code points
  outside ASCII whose lower case is an ASCII letter (U+212A KELVIN SIGN and U+0130). Every other
  code point maps to code points outside ASCII, which the bridge only ever compares with ASCII
  phrases, so it is left as it is.
\<close>

function to_lower :: "string \<Rightarrow> string" where
  "to_lower s =
     (case s of [] \<Rightarrow> []
      | c # cs \<Rightarrow>
          if prefix [CHR 0xE2, CHR 0x84, CHR 0xAA] s then CHR ''k'' # to_lower (drop 3 s)
          else if prefix [CHR 0xC4, CHR 0xB0] s then CHR ''i'' # to_lower (drop 2 s)
          else lower_char c # to_lower cs)"
  by pat_completeness auto
termination
  by (relation "measure length") auto

declare to_lower.simps [simp del]

text \<open>
  \<open>equalFold\<close> of \<open>store.go\<close>: ASCII letter case only, byte by byte. On ASCII strings, such as the hexadecimal
  hashes it is given, \<open>strings.EqualFold\<close> is the same relation.
\<close>

definition equal_fold :: "string \<Rightarrow> string \<Rightarrow> bool" where
  "equal_fold a b \<longleftrightarrow> length a = length b \<and> map lower_char a = map lower_char b"

lemma equal_fold_refl [simp]: "equal_fold a a"
  by (simp add: equal_fold_def)

section \<open>Trimming\<close>

text \<open>
  The code points for which \<open>unicode.IsSpace\<close> holds, as their UTF-8 bytes. \<open>strings.TrimSpace\<close>
  removes them from both ends.
\<close>

definition space_seqs :: "string list" where
  "space_seqs =
    [[CHR 0x09], [CHR 0x0A], [CHR 0x0B], [CHR 0x0C], [CHR 0x0D], [CHR 0x20],
     [CHR 0xC2, CHR 0x85], [CHR 0xC2, CHR 0xA0], [CHR 0xE1, CHR 0x9A, CHR 0x80],
     [CHR 0xE2, CHR 0x80, CHR 0x80], [CHR 0xE2, CHR 0x80, CHR 0x81], [CHR 0xE2, CHR 0x80, CHR 0x82],
     [CHR 0xE2, CHR 0x80, CHR 0x83], [CHR 0xE2, CHR 0x80, CHR 0x84], [CHR 0xE2, CHR 0x80, CHR 0x85],
     [CHR 0xE2, CHR 0x80, CHR 0x86], [CHR 0xE2, CHR 0x80, CHR 0x87], [CHR 0xE2, CHR 0x80, CHR 0x88],
     [CHR 0xE2, CHR 0x80, CHR 0x89], [CHR 0xE2, CHR 0x80, CHR 0x8A], [CHR 0xE2, CHR 0x80, CHR 0xA8],
     [CHR 0xE2, CHR 0x80, CHR 0xA9], [CHR 0xE2, CHR 0x80, CHR 0xAF], [CHR 0xE2, CHR 0x81, CHR 0x9F],
     [CHR 0xE3, CHR 0x80, CHR 0x80]]"

definition strip_one :: "string list \<Rightarrow> string \<Rightarrow> string option" where
  "strip_one sp s = map_option (\<lambda>w. drop (length w) s) (find (\<lambda>w. prefix w s) sp)"

lemma strip_one_shorter:
  "[] \<notin> set sp \<Longrightarrow> strip_one sp s = Some t \<Longrightarrow> length t < length s"
  by (auto simp: strip_one_def find_Some_iff prefix_def)
     (metis drop_append length_append append.right_neutral append_eq_append_conv2 length_greater_0_conv
        less_add_same_cancel2 nth_mem drop0 diff_self_eq_0 drop_all order_refl self_append_conv2)

lemma space_seqs_nonempty: "[] \<notin> set space_seqs"
  by (simp add: space_seqs_def)

function trim_left :: "string \<Rightarrow> string" where
  "trim_left s = (case strip_one space_seqs s of None \<Rightarrow> s | Some t \<Rightarrow> trim_left t)"
  by pat_completeness auto
termination
  by (relation "measure length") (auto dest: strip_one_shorter [OF space_seqs_nonempty])

function trim_rev :: "string \<Rightarrow> string" where
  "trim_rev s = (case strip_one (map rev space_seqs) s of None \<Rightarrow> s | Some t \<Rightarrow> trim_rev t)"
  by pat_completeness auto
termination
  by (relation "measure length")
     (auto intro!: strip_one_shorter [of "map rev space_seqs"] simp: space_seqs_def)

declare trim_left.simps [simp del] trim_rev.simps [simp del]

definition trim_right :: "string \<Rightarrow> string" where
  "trim_right s = rev (trim_rev (rev s))"

definition trim_space :: "string \<Rightarrow> string" where
  "trim_space s = trim_right (trim_left s)"


definition trimmed :: "string \<Rightarrow> bool" where
  "trimmed s \<longleftrightarrow>
     strip_one space_seqs s = None \<and> strip_one (map rev space_seqs) (rev s) = None"

lemma strip_one_None: "strip_one sp s = None \<longleftrightarrow> (\<forall>w \<in> set sp. \<not> prefix w s)"
  by (auto simp: strip_one_def find_None_iff)

lemma strip_one_suffix: "strip_one sp s = Some t \<Longrightarrow> suffix t s"
  by (auto simp: strip_one_def suffix_drop)

lemma trim_left_clean: "strip_one space_seqs (trim_left s) = None"
proof (induction s rule: trim_left.induct)
  case (1 s)
  then show ?case by (subst trim_left.simps) (auto split: option.splits)
qed

lemma trim_rev_clean: "strip_one (map rev space_seqs) (trim_rev s) = None"
proof (induction s rule: trim_rev.induct)
  case (1 s)
  then show ?case by (subst trim_rev.simps) (auto split: option.splits)
qed

lemma trim_left_suffix: "suffix (trim_left s) s"
proof (induction s rule: trim_left.induct)
  case (1 s)
  then show ?case
    by (subst trim_left.simps)
       (auto split: option.splits dest: strip_one_suffix intro: suffix_order.trans)
qed

lemma trim_rev_suffix: "suffix (trim_rev s) s"
proof (induction s rule: trim_rev.induct)
  case (1 s)
  then show ?case
    by (subst trim_rev.simps)
       (auto split: option.splits dest: strip_one_suffix intro: suffix_order.trans)
qed

lemma trim_right_prefix: "prefix (trim_right s) s"
  using trim_rev_suffix [of "rev s"] by (simp add: trim_right_def suffix_to_prefix)

lemma strip_one_prefix_None: "prefix t s \<Longrightarrow> strip_one sp s = None \<Longrightarrow> strip_one sp t = None"
  by (auto simp: strip_one_None dest: prefix_order.trans)

lemma trimmed_trim_space [simp, intro]: "trimmed (trim_space s)"
  using strip_one_prefix_None [OF trim_right_prefix trim_left_clean] trim_rev_clean
  by (simp add: trimmed_def trim_space_def trim_right_def)

lemma trim_space_id: "trimmed s \<Longrightarrow> trim_space s = s"
  by (simp add: trimmed_def trim_space_def trim_right_def trim_left.simps trim_rev.simps)

lemma trim_space_idem [simp]: "trim_space (trim_space s) = trim_space s"
  by (rule trim_space_id) simp

lemma trim_space_iff: "trim_space s = s \<longleftrightarrow> trimmed s"
  by (metis trim_space_id trimmed_trim_space)

lemma trim_space_sublist: "sublist (trim_space s) s"
  unfolding trim_space_def
  by (meson trim_right_prefix trim_left_suffix prefix_imp_sublist suffix_imp_sublist sublist_order.order_trans)

lemma set_trim_space: "set (trim_space s) \<subseteq> set s"
  by (meson set_mono_sublist trim_space_sublist)

lemma strip_one_keeps:
  assumes "strip_one sp s = Some t" and "c \<in> set s" and "\<forall>w \<in> set sp. c \<notin> set w"
  shows "c \<in> set t"
proof -
  from assms(1) obtain w where f: "find (\<lambda>w. prefix w s) sp = Some w" and t: "t = drop (length w) s"
    by (auto simp: strip_one_def)
  then have w: "w \<in> set sp" "prefix w s"
    by (auto simp: find_Some_iff)
  with t have "s = w @ t" by (auto simp: prefix_def)
  with assms w show ?thesis by (metis Un_iff set_append)
qed

lemma trim_left_keeps:
  "c \<in> set s \<Longrightarrow> \<forall>w \<in> set space_seqs. c \<notin> set w \<Longrightarrow> c \<in> set (trim_left s)"
proof (induction s rule: trim_left.induct)
  case (1 s)
  then show ?case
    by (subst trim_left.simps) (auto split: option.splits dest: strip_one_keeps)
qed

lemma trim_rev_keeps:
  "c \<in> set s \<Longrightarrow> \<forall>w \<in> set space_seqs. c \<notin> set w \<Longrightarrow> c \<in> set (trim_rev s)"
proof (induction s rule: trim_rev.induct)
  case (1 s)
  show ?case
  proof (cases "strip_one (map rev space_seqs) s")
    case None
    with "1.prems" show ?thesis by (subst trim_rev.simps) simp
  next
    case (Some t)
    then have "c \<in> set t" by (rule strip_one_keeps) (use "1.prems" in auto)
    with Some "1.IH" "1.prems" show ?thesis by (subst trim_rev.simps) simp
  qed
qed

lemma trim_space_keeps:
  "c \<in> set s \<Longrightarrow> \<forall>w \<in> set space_seqs. c \<notin> set w \<Longrightarrow> c \<in> set (trim_space s)"
  by (simp add: trim_space_def trim_right_def trim_rev_keeps trim_left_keeps)

lemma slash_not_space: "\<forall>w \<in> set space_seqs. CHR ''/'' \<notin> set w"
  by (simp add: space_seqs_def)

lemma trimmed_Nil [simp]: "trimmed []"
  by (auto simp: trimmed_def strip_one_None space_seqs_def)

text \<open>A string of ASCII bytes with no space at either end is left alone.\<close>

lemma trimmed_ends:
  assumes "\<forall>w \<in> set space_seqs. hd w \<noteq> hd s" and "\<forall>w \<in> set space_seqs. last w \<noteq> last s" and "s \<noteq> []"
  shows "trimmed s"
proof -
  have ne: "w \<noteq> []" if "w \<in> set space_seqs" for w
    using that space_seqs_nonempty by auto
  have "\<not> prefix w s" if w: "w \<in> set space_seqs" for w
    using assms(1,3) ne [OF w] w by (auto simp: prefix_def hd_append)
  moreover have "\<not> prefix (rev w) (rev s)" if w: "w \<in> set space_seqs" for w
    using assms(2,3) ne [OF w] w by (auto simp: suffix_to_prefix [symmetric] suffix_def last_append)
  ultimately show ?thesis by (auto simp: trimmed_def strip_one_None)
qed

lemma trim_space_Nil [simp]: "trim_space [] = []"
  by (rule trim_space_id) simp

section \<open>UTF-8\<close>

abbreviation byte :: "char \<Rightarrow> nat" where
  "byte c \<equiv> of_char c"

definition cont_byte :: "char \<Rightarrow> bool" where
  "cont_byte c \<longleftrightarrow> 0x80 \<le> byte c \<and> byte c \<le> 0xBF"

definition in_range :: "char \<Rightarrow> nat \<Rightarrow> nat \<Rightarrow> bool" where
  "in_range c lo hi \<longleftrightarrow> lo \<le> byte c \<and> byte c \<le> hi"

text \<open>\<open>utf8.ValidString\<close>: the table of well-formed byte sequences of the Unicode standard.\<close>

function utf8_valid :: "string \<Rightarrow> bool" where
  "utf8_valid s =
     (case s of [] \<Rightarrow> True
      | c # cs \<Rightarrow>
          if byte c < 0x80 then utf8_valid cs
          else if in_range c 0xC2 0xDF then
            (case cs of c1 # r \<Rightarrow> cont_byte c1 \<and> utf8_valid r | _ \<Rightarrow> False)
          else if in_range c 0xE0 0xEF then
            (case cs of c1 # c2 # r \<Rightarrow>
               in_range c1 (if byte c = 0xE0 then 0xA0 else 0x80) (if byte c = 0xED then 0x9F else 0xBF)
               \<and> cont_byte c2 \<and> utf8_valid r | _ \<Rightarrow> False)
          else if in_range c 0xF0 0xF4 then
            (case cs of c1 # c2 # c3 # r \<Rightarrow>
               in_range c1 (if byte c = 0xF0 then 0x90 else 0x80) (if byte c = 0xF4 then 0x8F else 0xBF)
               \<and> cont_byte c2 \<and> cont_byte c3 \<and> utf8_valid r | _ \<Rightarrow> False)
          else False)"
  by pat_completeness auto
termination
  by (relation "measure length") auto

declare utf8_valid.simps [simp del]

section \<open>The path package\<close>

fun clean_segs :: "bool \<Rightarrow> string list \<Rightarrow> string list \<Rightarrow> string list" where
  "clean_segs rooted st [] = rev st"
| "clean_segs rooted st (w # ws) =
     (if w = [] \<or> w = ''.'' then clean_segs rooted st ws
      else if w = ''..'' then
        (case st of
           [] \<Rightarrow> clean_segs rooted (if rooted then [] else [''..'']) ws
         | t # ts \<Rightarrow> if t = ''..'' then clean_segs rooted (''..'' # st) ws
                    else clean_segs rooted ts ws)
      else clean_segs rooted (w # st) ws)"

text \<open>\<open>path.Clean\<close>, on the segments between the slashes.\<close>

definition path_clean :: "string \<Rightarrow> string" where
  "path_clean p =
     (if p = [] then ''.''
      else if has_prefix p ''/'' then
        CHR ''/'' # join_with CHR ''/'' (clean_segs True [] (split_on CHR ''/'' (tl p)))
      else (let r = join_with CHR ''/'' (clean_segs False [] (split_on CHR ''/'' p))
            in if r = [] then ''.'' else r))"

definition path_dir :: "string \<Rightarrow> string" where
  "path_dir p =
     (case last_index CHR ''/'' p of
        None \<Rightarrow> path_clean []
      | Some i \<Rightarrow> path_clean (take (Suc i) p))"

definition path_base :: "string \<Rightarrow> string" where
  "path_base p =
     (if p = [] then ''.''
      else
        let q = rev (dropWhile (\<lambda>c. c = CHR ''/'') (rev p));
            r = (case last_index CHR ''/'' q of None \<Rightarrow> q | Some i \<Rightarrow> drop (Suc i) q)
        in if r = [] then ''/'' else r)"

lemma clean_segs_no_dotdot:
  "''..'' \<notin> set ws \<Longrightarrow>
    clean_segs rooted st ws = rev st @ filter (\<lambda>w. w \<noteq> [] \<and> w \<noteq> ''.'') ws"
  by (induction ws arbitrary: st) auto

lemma join_with_eq_Nil: "(\<And>w. w \<in> set ws \<Longrightarrow> w \<noteq> []) \<Longrightarrow> join_with d ws = [] \<longleftrightarrow> ws = []"
  by (induction d ws rule: join_with.induct) auto

end
