(* ===== verification/Api_Errors.thy ===== *)
theory Api_Errors
  imports Go_Strings
begin

text \<open>
  \<open>pkg/opendrive/errors.go\<close>: the error kinds, the error record the SDK returns for every upstream
  failure, and the predicates the rest of the bridge asks of it. The prose of an error message is
  not modelled where the bridge writes it itself; the message upstream sent is, because the
  classifier reads it.
\<close>

section \<open>Kinds\<close>

datatype kind =
    KindKeystoreUnavailable | KindReauthRequired | KindTokenExpired | KindCaptchaRequired
  | KindUnauthorized | KindEdgeRejected | KindNotFound | KindConflict | KindQuotaExceeded
  | KindBandwidthExceeded | KindInvalidName | KindUpstreamError | KindRateLimited | KindNetwork
  | KindInvalidResponse | KindInvalidRequest | KindRefreshTokenFailed

fun kind_name :: "kind \<Rightarrow> string" where
  "kind_name KindKeystoreUnavailable = ''keystore_unavailable''"
| "kind_name KindReauthRequired = ''reauth_required''"
| "kind_name KindTokenExpired = ''token_expired''"
| "kind_name KindCaptchaRequired = ''captcha_required''"
| "kind_name KindUnauthorized = ''unauthorized''"
| "kind_name KindEdgeRejected = ''edge_rejected''"
| "kind_name KindNotFound = ''not_found''"
| "kind_name KindConflict = ''conflict''"
| "kind_name KindQuotaExceeded = ''quota_exceeded''"
| "kind_name KindBandwidthExceeded = ''bandwidth_exceeded''"
| "kind_name KindInvalidName = ''invalid_name''"
| "kind_name KindUpstreamError = ''upstream_error''"
| "kind_name KindRateLimited = ''rate_limited''"
| "kind_name KindNetwork = ''network''"
| "kind_name KindInvalidResponse = ''invalid_response''"
| "kind_name KindInvalidRequest = ''invalid_request''"
| "kind_name KindRefreshTokenFailed = ''refresh_token_failed''"

datatype body_shape = ShapeUnset | ShapeEmpty | ShapeJSON | ShapeHTML | ShapeText

datatype retry_state = RetryDefault | RetryYes | RetryNo

section \<open>The error record\<close>

text \<open>Sentinel errors of the standard library that the bridge tests for with \<open>errors.Is\<close>.\<close>

datatype sentinel = CtxCanceled | CtxDeadline | OtherCause

record api_error =
  kind :: kind
  http_code :: int
  upstream_code :: int
  upstream_msg :: string
  oauth_error :: string
  err_op :: string
  err_url :: string
  retry_after :: int \<comment> \<open>nanoseconds, as \<open>time.Duration\<close>\<close>
  shape :: body_shape
  err_scope :: string
  ambiguous :: bool
  resolved :: bool
  retry :: retry_state
  retry_budget :: int
  diagnosis :: string
  cause :: "sentinel option"

text \<open>A composite literal \<open>&APIError{Kind: k}\<close>: every other field at its zero value.\<close>

definition blank_error :: "kind \<Rightarrow> api_error" where
  "blank_error k =
     \<lparr>kind = k, http_code = 0, upstream_code = 0, upstream_msg = [], oauth_error = [],
      err_op = [], err_url = [], retry_after = 0, shape = ShapeUnset, err_scope = [],
      ambiguous = False, resolved = False, retry = RetryDefault, retry_budget = 0,
      diagnosis = [], cause = None\<rparr>"

text \<open>Any Go error value: an API error, another error, or one wrapped with \<open>%w\<close>.\<close>

datatype go_error = Api api_error | Plain string | Sentinel sentinel | Wrapped go_error

fun as_api :: "go_error \<Rightarrow> api_error option" where
  "as_api (Api e) = Some e"
| "as_api (Wrapped g) = as_api g"
| "as_api (Plain _) = None"
| "as_api (Sentinel _) = None"

fun is_sentinel :: "sentinel \<Rightarrow> go_error \<Rightarrow> bool" where
  "is_sentinel s (Api e) \<longleftrightarrow> cause e = Some s"
| "is_sentinel s (Wrapped g) \<longleftrightarrow> is_sentinel s g"
| "is_sentinel s (Sentinel t) \<longleftrightarrow> t = s"
| "is_sentinel s (Plain _) \<longleftrightarrow> False"

section \<open>Predicates on an error\<close>

definition decisive :: "api_error \<Rightarrow> bool" where
  "decisive e \<longleftrightarrow> (shape e = ShapeUnset \<or> shape e = ShapeJSON) \<and> (\<not> ambiguous e \<or> resolved e)"

definition drives_auth :: "api_error option \<Rightarrow> bool" where
  "drives_auth eo =
     (case eo of
        None \<Rightarrow> False
      | Some e \<Rightarrow> if ambiguous e \<and> \<not> resolved e then False
                 else shape e = ShapeUnset \<or> shape e = ShapeJSON)"

definition temporary :: "api_error \<Rightarrow> bool" where
  "temporary e =
     (if retry e \<noteq> RetryDefault then retry e = RetryYes
      else
        case kind e of
          KindRateLimited \<Rightarrow> True
        | KindNetwork \<Rightarrow> True
        | KindUpstreamError \<Rightarrow> http_code e = 0 \<or> http_code e \<ge> 500
        | KindEdgeRejected \<Rightarrow> http_code e = 0 \<or> http_code e \<ge> 500
        | _ \<Rightarrow> False)"

definition replay_safe :: "api_error \<Rightarrow> bool" where
  "replay_safe e \<longleftrightarrow> http_code e = 403 \<or> http_code e = 429"

definition matches_kind :: "api_error \<Rightarrow> api_error \<Rightarrow> bool" where
  "matches_kind e t \<longleftrightarrow> kind t = kind e"

definition is_temporary :: "go_error \<Rightarrow> bool" where
  "is_temporary g = (case as_api g of Some e \<Rightarrow> temporary e | None \<Rightarrow> False)"

definition retry_after_of :: "go_error \<Rightarrow> int" where
  "retry_after_of g = (case as_api g of Some e \<Rightarrow> retry_after e | None \<Rightarrow> 0)"

definition error_kind :: "go_error \<Rightarrow> kind option" where
  "error_kind g = map_option kind (as_api g)"

section \<open>Building errors\<close>

definition network_error :: "string \<Rightarrow> string \<Rightarrow> sentinel \<Rightarrow> api_error" where
  "network_error op url c =
     (blank_error KindNetwork)\<lparr>err_op := op, err_url := url, cause := Some c\<rparr>"

definition invalid_response :: "string \<Rightarrow> string \<Rightarrow> sentinel \<Rightarrow> api_error" where
  "invalid_response op url c =
     (blank_error KindInvalidResponse)\<lparr>err_op := op, err_url := url, cause := Some c\<rparr>"

definition invalid_request :: "string \<Rightarrow> api_error" where
  "invalid_request msg = (blank_error KindInvalidRequest)\<lparr>upstream_msg := msg\<rparr>"

definition invalid_name :: "string \<Rightarrow> api_error" where
  "invalid_name msg = (blank_error KindInvalidName)\<lparr>upstream_msg := msg\<rparr>"

fun first_non_empty :: "string list \<Rightarrow> string" where
  "first_non_empty [] = []"
| "first_non_empty (v # vs) = (if v \<noteq> [] then v else first_non_empty vs)"

definition is_json :: "string \<Rightarrow> bool" where
  "is_json b = (case trim_space b of [] \<Rightarrow> False | c # _ \<Rightarrow> c = CHR 0x7B \<or> c = CHR 0x5B)"

definition truncate_msg :: "string \<Rightarrow> nat \<Rightarrow> string" where
  "truncate_msg s n = (if length s \<le> n then s else take n s @ ''...'')"

definition endpoint_of :: "string \<Rightarrow> string" where
  "endpoint_of op = (case index_of CHR '' '' op of Some i \<Rightarrow> drop (Suc i) op | None \<Rightarrow> op)"

section \<open>Retry-After\<close>

text \<open>
  \<open>strconv.Atoi\<close> on a 64-bit machine: an optional sign, at least one decimal digit, nothing else,
  and a value that fits.
\<close>

definition is_digit :: "char \<Rightarrow> bool" where
  "is_digit c \<longleftrightarrow> CHR ''0'' \<le> c \<and> c \<le> CHR ''9''"

definition digits_value :: "string \<Rightarrow> int" where
  "digits_value ds = foldl (\<lambda>n c. 10 * n + int (of_char c - of_char CHR ''0'')) 0 ds"

definition in_int64 :: "int \<Rightarrow> bool" where
  "in_int64 n \<longleftrightarrow> - (2 ^ 63) \<le> n \<and> n < 2 ^ 63"

definition wrap64 :: "int \<Rightarrow> int" where
  "wrap64 n = (n + 2 ^ 63) mod 2 ^ 64 - 2 ^ 63"

definition atoi :: "string \<Rightarrow> int option" where
  "atoi s =
     (let neg = has_prefix s ''-'';
          ds = (if neg \<or> has_prefix s ''+'' then tl s else s);
          v = (if neg then - digits_value ds else digits_value ds)
      in if ds \<noteq> [] \<and> list_all is_digit ds \<and> in_int64 v then Some v else None)"

text \<open>
  \<open>parseRetryAfter\<close>. The header value is empty when the header is absent. The second argument is
  what \<open>http.ParseTime\<close> followed by \<open>time.Until\<close> makes of a date.
\<close>

definition parse_retry_after :: "string \<Rightarrow> int option \<Rightarrow> int" where
  "parse_retry_after v until =
     (if v = [] then 0
      else
        case atoi v of
          Some secs \<Rightarrow>
            if secs \<ge> 0 then wrap64 (secs * 1000000000)
            else (case until of Some d \<Rightarrow> if d > 0 then d else 0 | None \<Rightarrow> 0)
        | None \<Rightarrow> (case until of Some d \<Rightarrow> if d > 0 then d else 0 | None \<Rightarrow> 0))"

lemma wrap64_id: "in_int64 n \<Longrightarrow> wrap64 n = n"
  by (simp add: wrap64_def in_int64_def)

lemma wrap64_range: "in_int64 (wrap64 n)"
  by (simp add: wrap64_def in_int64_def)

lemma blank_error_simps [simp]:
  "kind (blank_error k) = k" "http_code (blank_error k) = 0" "shape (blank_error k) = ShapeUnset"
  "ambiguous (blank_error k) = False" "resolved (blank_error k) = False"
  "retry (blank_error k) = RetryDefault" "retry_budget (blank_error k) = 0"
  "diagnosis (blank_error k) = []" "cause (blank_error k) = None" "retry_after (blank_error k) = 0"
  "upstream_msg (blank_error k) = []" "oauth_error (blank_error k) = []"
  "upstream_code (blank_error k) = 0" "err_op (blank_error k) = []" "err_url (blank_error k) = []"
  "err_scope (blank_error k) = []"
  by (simp_all add: blank_error_def)

lemma kind_name_inj: "kind_name a = kind_name b \<Longrightarrow> a = b"
  by (cases a; cases b; simp)

lemma kind_name_nonempty [simp]: "kind_name k \<noteq> []"
  by (cases k) simp_all

end
