(* ===== verification/Paths.thy ===== *)
theory Paths
  imports Api_Errors
begin

text \<open>
  Paths, as the four layers of the bridge treat them: \<open>ValidateName\<close> (\<open>pkg/opendrive/types.go\<close>),
  \<open>NormalizeFolderPath\<close> and \<open>ParentPath\<close> (\<open>pkg/opendrive/path.go\<close>), \<open>normalisePath\<close>, \<open>splitPath\<close>
  and \<open>joinPath\<close> (\<open>internal/server/paths.go\<close>), \<open>checkRemotePath\<close> (\<open>internal/cli/remotepath.go\<close>)
  and the thin \<open>normalisePath\<close> the data cache keys by (\<open>internal/datacache/object.go\<close>).
\<close>

abbreviation slash :: char where "slash \<equiv> CHR ''/''"

section \<open>Names\<close>

definition max_name_length :: nat where
  "max_name_length = 255"

definition illegal_name_chars :: string where
  "illegal_name_chars = [CHR 0x5C, CHR ''/'', CHR '':'', CHR ''*'', CHR ''?'', CHR 0x22, CHR ''<'', CHR ''>'', CHR ''|'']"

text \<open>
  The last test ranges over runes in the source. It comes after the UTF-8 test, and in valid UTF-8
  the bytes of a code point beyond ASCII are all above 0x7F, so it is a test on bytes.
\<close>

definition validate_name :: "string \<Rightarrow> api_error option" where
  "validate_name name =
     (if name = [] then Some (invalid_name ''name must not be empty'')
      else if trim_space name = ''.'' \<or> trim_space name = ''..'' then
        Some (invalid_name ''not a usable name'')
      else if length name > max_name_length then Some (invalid_name ''name is too long'')
      else if \<not> utf8_valid name then Some (invalid_name ''name is not valid UTF-8'')
      else if list_ex (\<lambda>c. c \<in> set illegal_name_chars) name then
        Some (invalid_name ''name must not contain reserved characters'')
      else if trim_space name = [] then Some (invalid_name ''name must not be only whitespace'')
      else if list_ex (\<lambda>c. byte c < 0x20 \<or> byte c = 0x7f) name then
        Some (invalid_name ''name must not contain control characters'')
      else None)"

section \<open>The SDK's folder paths\<close>

fun first_invalid :: "string list \<Rightarrow> api_error option" where
  "first_invalid [] = None"
| "first_invalid (seg # segs) =
     (if seg = [] then Some (invalid_request ''a path must not contain an empty segment'')
      else case validate_name seg of Some e \<Rightarrow> Some e | None \<Rightarrow> first_invalid segs)"

definition trim_segments :: "string \<Rightarrow> string" where
  "trim_segments p = join_with slash (map trim_space (split_on slash p))"

definition normalize_folder_path :: "string \<Rightarrow> api_error + string" where
  "normalize_folder_path p =
     (if CHR 0x00 \<in> set p then Inl (invalid_request ''a path must not contain a null byte'')
      else if trim_space p = [] \<or> p = ''/'' \<or> p = ''.'' then Inr ''/''
      else
        let trimmed = trim_segments (if has_prefix p ''/'' then p else slash # p)
        in if ''..'' \<in> set (split_on slash trimmed) then
             Inl (invalid_request ''a path must not contain dot-dot'')
           else
             let cleaned = path_clean trimmed
             in if cleaned = ''/'' then Inr ''/''
                else case first_invalid (split_on slash (trim_prefix cleaned ''/'')) of
                       Some e \<Rightarrow> Inl e
                     | None \<Rightarrow> Inr cleaned)"

definition parent_path :: "string \<Rightarrow> string \<times> string" where
  "parent_path p =
     (if p = ''/'' \<or> p = [] then (''/'', [])
      else case last_index slash p of
             Some i \<Rightarrow> if i \<le> 0 then (''/'', trim_prefix p ''/'') else (take i p, drop (Suc i) p)
           | None \<Rightarrow> (''/'', trim_prefix p ''/''))"

section \<open>The server's paths\<close>

text \<open>\<open>RequestError\<close>: its code, status and message.\<close>

datatype request_error = RequestError string nat string

definition bad_request :: "string \<Rightarrow> request_error" where
  "bad_request msg = RequestError (kind_name KindInvalidRequest) 400 msg"

definition server_normalise_path :: "string \<Rightarrow> request_error + string" where
  "server_normalise_path p =
     (if p = [] then Inl (bad_request ''A 'path' is required, for example /Documents/report.pdf.'')
      else if \<not> has_prefix p ''/'' then Inl (bad_request ''Paths must start with a slash, for example /Documents/report.pdf.'')
      else
        let q = trim_segments p
        in if ''..'' \<in> set (split_on slash q)
           then Inl (bad_request ''Paths cannot contain '..'. Give the full path from the top, for example /Documents/report.pdf.'')
           else let cleaned = path_clean q
                in Inr (if cleaned = ''.'' then ''/'' else cleaned))"

definition split_path :: "string \<Rightarrow> string \<times> string" where
  "split_path p = (if p = ''/'' then (''/'', []) else (path_dir p, path_base p))"

definition join_path :: "string \<Rightarrow> string \<Rightarrow> string" where
  "join_path dir name =
     (let n = trim_space name
      in if dir = ''/'' then ''/'' @ n else dir @ ''/'' @ n)"

section \<open>The command line's check\<close>

datatype usage_error = PathNeeded | NotTilde string | NoLeadingSlash string

definition check_remote_path :: "string \<Rightarrow> usage_error option" where
  "check_remote_path p =
     (if p = [] then Some PathNeeded
      else if has_prefix p ''~'' then Some (NotTilde p)
      else if \<not> has_prefix p ''/'' then Some (NoLeadingSlash p)
      else None)"

text \<open>\<open>remoteArgs\<close>: an inner validator, then the named positions that exist.\<close>

fun check_positions :: "string list \<Rightarrow> int list \<Rightarrow> usage_error option" where
  "check_positions args [] = None"
| "check_positions args (i # is) =
     (if i < 0 \<or> i \<ge> int (length args) then check_positions args is
      else case check_remote_path (args ! nat i) of
             Some e \<Rightarrow> Some e
           | None \<Rightarrow> check_positions args is)"

definition remote_args ::
  "(string list \<Rightarrow> usage_error option) option \<Rightarrow> int list \<Rightarrow> string list \<Rightarrow> usage_error option" where
  "remote_args inner positions args =
     (case inner of
        Some f \<Rightarrow> (case f args of Some e \<Rightarrow> Some e | None \<Rightarrow> check_positions args positions)
      | None \<Rightarrow> check_positions args positions)"

section \<open>The data cache's key\<close>

text \<open>
  The loop that replaces two slashes by one until none is left. Every round shortens the string, so
  it ends.
\<close>

function collapse_slashes :: "string \<Rightarrow> string" where
  "collapse_slashes p =
     (if contains p ''//'' then collapse_slashes (replace_all ''//'' ''/'' p) else p)"
  by pat_completeness auto
termination
  by (relation "measure length") (auto intro: replace_all_length_less)

declare collapse_slashes.simps [simp del]

definition cache_normalise_path :: "string \<Rightarrow> string" where
  "cache_normalise_path p0 =
     (let p1 = collapse_slashes (trim_space p0);
          p2 = (if length p1 > 1 then trim_suffix p1 ''/'' else p1)
      in if p2 = [] then ''/''
         else if \<not> has_prefix p2 ''/'' then slash # p2
         else p2)"


section \<open>What the operations guarantee\<close>

text \<open>A path segment upstream can have, and the canonical form of a path.\<close>

definition good_segment :: "string \<Rightarrow> bool" where
  "good_segment w \<longleftrightarrow> w \<noteq> [] \<and> w \<noteq> ''.'' \<and> w \<noteq> ''..'' \<and> trimmed w \<and> slash \<notin> set w"

definition canonical :: "string \<Rightarrow> bool" where
  "canonical p \<longleftrightarrow>
     p = ''/'' \<or> (has_prefix p ''/'' \<and> list_all good_segment (split_on slash (tl p)))"

text \<open>The segments of a rooted path as both normalisers see them, and the ones that survive.\<close>

definition trimmed_segments :: "string \<Rightarrow> string list" where
  "trimmed_segments s = map trim_space (split_on slash s)"

definition kept_segments :: "string \<Rightarrow> string list" where
  "kept_segments s = filter (\<lambda>w. w \<noteq> [] \<and> w \<noteq> ''.'') (trimmed_segments s)"

lemma trimmed_segments_no_slash: "w \<in> set (trimmed_segments s) \<Longrightarrow> slash \<notin> set w"
  using set_trim_space split_on_no_sep unfolding trimmed_segments_def by fastforce

lemma trimmed_segments_trimmed: "w \<in> set (trimmed_segments s) \<Longrightarrow> trimmed w"
  by (auto simp: trimmed_segments_def)

lemma trimmed_segments_nonempty [simp]: "trimmed_segments s \<noteq> []"
  by (simp add: trimmed_segments_def)

lemma kept_segments_good:
  "''..'' \<notin> set (trimmed_segments s) \<Longrightarrow> w \<in> set (kept_segments s) \<Longrightarrow> good_segment w"
  unfolding kept_segments_def good_segment_def
  by (auto dest: trimmed_segments_no_slash trimmed_segments_trimmed)

lemma trim_segments_rooted: "trim_segments (slash # s) = slash # join_with slash (trimmed_segments s)"
proof -
  have "trim_space [] = []" by (rule trim_space_id) simp
  then show ?thesis
    by (simp add: trim_segments_def trimmed_segments_def join_with_Cons)
qed

lemma split_trim_segments:
  "split_on slash (trim_segments (slash # s)) = [] # trimmed_segments s"
  by (simp add: trim_segments_rooted split_join trimmed_segments_no_slash)

lemma clean_trim_segments:
  "''..'' \<notin> set (trimmed_segments s) \<Longrightarrow>
    path_clean (trim_segments (slash # s)) = slash # join_with slash (kept_segments s)"
  by (simp add: path_clean_def trim_segments_rooted split_join trimmed_segments_no_slash
      clean_segs_no_dotdot kept_segments_def)

lemma kept_segments_join_Nil:
  "join_with slash (kept_segments s) = [] \<longleftrightarrow> kept_segments s = []"
  by (rule join_with_eq_Nil) (auto simp: kept_segments_def)

lemma kept_segments_no_slash: "w \<in> set (kept_segments s) \<Longrightarrow> slash \<notin> set w"
  by (auto simp: kept_segments_def dest: trimmed_segments_no_slash)

lemma kept_segments_nonempty: "w \<in> set (kept_segments s) \<Longrightarrow> w \<noteq> []"
  by (simp add: kept_segments_def)

lemma trim_space_rooted: "trim_space (slash # s) \<noteq> []"
  using trim_space_keeps [of slash "slash # s", OF _ slash_not_space] by auto

lemma trim_space_Nil_segments: "trim_space s = [] \<Longrightarrow> trimmed_segments s = [[]]"
proof -
  assume nil: "trim_space s = []"
  then have "slash \<notin> set s"
    using trim_space_keeps [of slash s, OF _ slash_not_space] by auto
  with nil show ?thesis by (simp add: trimmed_segments_def split_on_single)
qed

text \<open>
  Every input takes one road: root it, trim its segments, refuse dot-dot, drop the empty and dot
  segments, validate what is left.
\<close>

definition rooted_tail :: "string \<Rightarrow> string" where
  "rooted_tail p = (if has_prefix p ''/'' then tl p else p)"

lemma normalize_rooted:
  assumes "CHR 0x00 \<notin> set p"
  shows "normalize_folder_path p =
    (let s = rooted_tail p
     in if ''..'' \<in> set (trimmed_segments s) then Inl (invalid_request ''a path must not contain dot-dot'')
        else case first_invalid (kept_segments s) of
               Some e \<Rightarrow> Inl e
             | None \<Rightarrow> Inr (slash # join_with slash (kept_segments s)))"
proof -
  let ?s = "rooted_tail p"
  have rooted: "(if has_prefix p ''/'' then p else slash # p) = slash # ?s"
    by (auto simp: rooted_tail_def prefix_def)
  show ?thesis
  proof (cases "trim_space p = [] \<or> p = ''/'' \<or> p = ''.''")
    case True
    have dot: "trim_space ''.'' = ''.''"
      by (rule trim_space_id, rule trimmed_ends) (simp_all add: space_seqs_def)
    have "trim_space p = [] \<Longrightarrow> ?s = p"
      using trim_space_rooted by (auto simp: rooted_tail_def prefix_def)
    with True have "trimmed_segments ?s = [[]] \<or> trimmed_segments ?s = [''.'']"
      by (auto simp: rooted_tail_def trim_space_Nil_segments) (auto simp: trimmed_segments_def dot)
    moreover from this have "kept_segments ?s = []"
      by (auto simp: kept_segments_def)
    ultimately show ?thesis
      using True assms by (auto simp: normalize_folder_path_def Let_def)
  next
    case False
    have tail: "split_on slash (trim_prefix (slash # join_with slash (kept_segments ?s)) ''/'') = kept_segments ?s"
      if "kept_segments ?s \<noteq> []"
      using that by (simp add: trim_prefix_def split_join kept_segments_no_slash)
    show ?thesis
      using False assms
      by (auto simp: normalize_folder_path_def Let_def rooted split_trim_segments clean_trim_segments
          kept_segments_join_Nil tail split: option.splits)
  qed
qed

lemma first_invalid_None:
  "first_invalid ws = None \<longleftrightarrow> (\<forall>w \<in> set ws. w \<noteq> [] \<and> validate_name w = None)"
  by (induction ws) (auto split: option.splits)

lemma normalize_folder_path_Inr:
  assumes "normalize_folder_path p = Inr q"
  obtains ws where "q = slash # join_with slash ws"
    and "\<And>w. w \<in> set ws \<Longrightarrow> good_segment w \<and> validate_name w = None"
    and "CHR 0x00 \<notin> set p" and "ws = kept_segments (rooted_tail p)"
    and "''..'' \<notin> set (trimmed_segments (rooted_tail p))"
proof -
  have nz: "CHR 0x00 \<notin> set p"
    using assms by (auto simp: normalize_folder_path_def split: if_splits)
  show thesis
    using assms unfolding normalize_rooted [OF nz]
    by (intro that [OF _ _ nz refl])
       (auto simp: Let_def first_invalid_None dest: kept_segments_good split: if_splits option.splits)
qed

lemma canonical_iff:
  "canonical p \<longleftrightarrow> (\<exists>ws. p = slash # join_with slash ws \<and> (\<forall>w \<in> set ws. good_segment w))"
proof
  assume "canonical p"
  then consider "p = ''/''" | "has_prefix p ''/''" "list_all good_segment (split_on slash (tl p))"
    by (auto simp: canonical_def)
  then show "\<exists>ws. p = slash # join_with slash ws \<and> (\<forall>w \<in> set ws. good_segment w)"
  proof cases
    case 1
    then have "p = slash # join_with slash []" by simp
    then show ?thesis by (metis empty_iff list.set(1))
  next
    case 2
    then have "p = slash # join_with slash (split_on slash (tl p))" by (auto simp: prefix_def)
    with 2 show ?thesis by (metis list_all_iff)
  qed
next
  assume "\<exists>ws. p = slash # join_with slash ws \<and> (\<forall>w \<in> set ws. good_segment w)"
  then obtain ws where ws: "p = slash # join_with slash ws" "\<forall>w \<in> set ws. good_segment w" by blast
  then have "split_on slash (join_with slash ws) = ws" if "ws \<noteq> []"
    using that by (intro split_join) (auto simp: good_segment_def)
  with ws show "canonical p"
    by (cases "ws = []") (auto simp: canonical_def list_all_iff)
qed

lemma canonical_segments:
  assumes "\<forall>w \<in> set ws. good_segment w"
  shows "kept_segments (join_with slash ws) = ws"
    and "''..'' \<notin> set (trimmed_segments (join_with slash ws))"
proof -
  have nil: "trimmed_segments [] = [[]]"
    by (rule trim_space_Nil_segments) (rule trim_space_id, simp)
  have seg: "trimmed_segments (join_with slash ws) = ws" if "ws \<noteq> []"
  proof -
    have "split_on slash (join_with slash ws) = ws"
      using that assms by (intro split_join) (auto simp: good_segment_def)
    moreover have "map trim_space ws = ws"
      using assms by (intro map_idI) (simp add: trim_space_id good_segment_def)
    ultimately show ?thesis by (simp add: trimmed_segments_def)
  qed
  have "filter (\<lambda>w. w \<noteq> [] \<and> w \<noteq> ''.'') ws = ws"
    using assms by (simp add: filter_id_conv good_segment_def)
  with seg nil show "kept_segments (join_with slash ws) = ws"
    by (cases "ws = []") (auto simp: kept_segments_def)
  show "''..'' \<notin> set (trimmed_segments (join_with slash ws))"
    using seg nil assms by (cases "ws = []") (auto simp: good_segment_def)
qed

lemma validate_name_no_nul: "validate_name w = None \<Longrightarrow> CHR 0x00 \<notin> set w"
  by (auto simp: validate_name_def list_ex_iff split: if_splits)

lemma set_join_with: "set (join_with d ws) \<subseteq> insert d (\<Union>w \<in> set ws. set w)"
  by (induction d ws rule: join_with.induct) auto


section \<open>The two path splitters\<close>

lemma join_with_snoc: "ws \<noteq> [] \<Longrightarrow> join_with d (ws @ [w]) = join_with d ws @ d # w"
proof (induction ws)
  case Nil
  then show ?case by simp
next
  case (Cons a ws)
  then show ?case by (cases "ws = []") (simp_all add: join_with_Cons)
qed

lemma canonical_cases:
  assumes "canonical p"
  obtains "p = ''/''"
  | ws w where "p = slash # join_with slash (ws @ [w])" and "\<forall>v \<in> set (ws @ [w]). good_segment v"
proof -
  from assms obtain vs where vs: "p = slash # join_with slash vs" "\<forall>v \<in> set vs. good_segment v"
    by (auto simp: canonical_iff)
  show thesis
  proof (cases vs rule: rev_cases)
    case Nil
    with vs show ?thesis by (intro that(1)) simp
  next
    case (snoc ws w)
    with vs show ?thesis by (intro that(2) [of ws w]) auto
  qed
qed

text \<open>A canonical path below the root: its parent, a slash unless the parent is the root, its name.\<close>

lemma canonical_snoc:
  "slash # join_with slash (ws @ [w]) =
     (if ws = [] then slash # w else (slash # join_with slash ws) @ slash # w)"
  by (simp add: join_with_snoc)

lemma good_segment_no_slash: "good_segment w \<Longrightarrow> slash \<notin> set w"
  by (simp add: good_segment_def)

lemma good_segment_nonempty: "good_segment w \<Longrightarrow> w \<noteq> []"
  by (simp add: good_segment_def)

lemma last_index_child:
  assumes "good_segment w"
  shows "last_index slash (slash # w) = Some 0"
    and "last_index slash ((slash # s) @ slash # w) = Some (Suc (length s))"
  using last_index_append [OF good_segment_no_slash [OF assms], of "[]"]
    last_index_append [OF good_segment_no_slash [OF assms], of "slash # s"] by simp_all

lemma parent_path_child:
  assumes "good_segment w"
  shows "parent_path (slash # join_with slash (ws @ [w])) = (slash # join_with slash ws, w)"
  using good_segment_nonempty [OF assms] last_index_child [OF assms]
  by (cases "ws = []") (auto simp: parent_path_def canonical_snoc trim_prefix_def)

lemma path_clean_canonical:
  assumes "\<forall>w \<in> set ws. good_segment w"
  shows "path_clean (slash # join_with slash ws) = slash # join_with slash ws"
    and "ws \<noteq> [] \<Longrightarrow> path_clean ((slash # join_with slash ws) @ ''/'') = slash # join_with slash ws"
proof -
  have filt: "filter (\<lambda>w. w \<noteq> [] \<and> w \<noteq> ''.'') ws = ws"
    using assms by (simp add: filter_id_conv good_segment_def)
  have dd: "''..'' \<notin> set ws" using assms by (auto simp: good_segment_def)
  have sp: "split_on slash (join_with slash ws) = ws" if "ws \<noteq> []"
    using that assms by (intro split_join) (auto simp: good_segment_def)
  show "path_clean (slash # join_with slash ws) = slash # join_with slash ws"
    using filt dd sp by (cases "ws = []") (simp_all add: path_clean_def clean_segs_no_dotdot)
  show "path_clean ((slash # join_with slash ws) @ ''/'') = slash # join_with slash ws" if "ws \<noteq> []"
    using filt dd sp that split_on_append [of slash "join_with slash ws" "[]"]
    by (simp add: path_clean_def clean_segs_no_dotdot)
qed

lemma dropWhile_slash_rev:
  assumes "good_segment w"
  shows "dropWhile (\<lambda>c. c = slash) (rev (s @ w)) = rev (s @ w)"
proof -
  obtain c v where "rev w = c # v"
    using good_segment_nonempty [OF assms] by (cases "rev w") auto
  moreover from this have "c \<noteq> slash"
    using good_segment_no_slash [OF assms] by (metis list.set_intros(1) set_rev)
  ultimately show ?thesis by simp
qed

lemma path_base_child:
  assumes "good_segment w"
  shows "path_base (s @ slash # w) = w"
  using dropWhile_slash_rev [OF assms, of "s @ [slash]"] good_segment_nonempty [OF assms]
    last_index_append [OF good_segment_no_slash [OF assms], of s]
  by (simp add: path_base_def)

lemma path_dir_child:
  assumes "\<forall>v \<in> set (ws @ [w]). good_segment v"
  shows "path_dir (slash # join_with slash (ws @ [w])) = slash # join_with slash ws"
proof -
  have w: "good_segment w" and ws: "\<forall>v \<in> set ws. good_segment v" using assms by auto
  have root: "path_clean ''/'' = ''/''" by (simp add: path_clean_def)
  show ?thesis
    using path_clean_canonical(2) [OF ws] last_index_child [OF w] root
    by (cases "ws = []") (simp_all add: path_dir_def canonical_snoc)
qed

lemma split_path_child:
  assumes "\<forall>v \<in> set (ws @ [w]). good_segment v"
  shows "split_path (slash # join_with slash (ws @ [w])) = (slash # join_with slash ws, w)"
proof -
  have w: "good_segment w" using assms by simp
  have "path_base (slash # join_with slash (ws @ [w])) = w"
    using path_base_child [OF w, of "[]"] path_base_child [OF w, of "slash # join_with slash ws"]
    by (simp add: canonical_snoc)
  moreover have "slash # join_with slash (ws @ [w]) \<noteq> ''/''"
    using good_segment_nonempty [OF w] by (simp add: canonical_snoc)
  ultimately show ?thesis using path_dir_child [OF assms] by (simp add: split_path_def)
qed

lemma join_path_child:
  assumes "\<forall>v \<in> set ws. good_segment v" and "good_segment w"
  shows "join_path (slash # join_with slash ws) w = slash # join_with slash (ws @ [w])"
proof -
  have "trim_space w = w" using assms(2) by (simp add: good_segment_def trim_space_id)
  moreover have "slash # join_with slash ws = ''/'' \<longleftrightarrow> ws = []"
    using join_with_eq_Nil [of ws slash] assms(1) by (auto simp: good_segment_def)
  ultimately show ?thesis by (auto simp: join_path_def canonical_snoc)
qed

section \<open>The data cache's key on canonical paths\<close>

lemma contains_double:
  assumes "[] \<notin> set (split_on slash s)"
  shows "\<not> contains (slash # s) ''//''"
proof
  assume "contains (slash # s) ''//''"
  then consider "prefix ''/'' s" | "sublist ''//'' s"
    by (auto simp: contains_iff sublist_Cons_right)
  then show False
  proof cases
    case 1
    then show ?thesis using assms by (auto simp: prefix_def)
  next
    case 2
    then obtain a b where "s = a @ slash # slash # b" by (auto simp: sublist_def)
    then show ?thesis using assms by (simp add: split_on_append)
  qed
qed

lemma trimmed_canonical:
  assumes "\<forall>v \<in> set (ws @ [w]). good_segment v"
  shows "trimmed (slash # join_with slash (ws @ [w]))"
proof -
  let ?p = "slash # join_with slash (ws @ [w])"
  have w: "good_segment w" using assms by simp
  obtain x where x: "?p = x @ slash # w" by (cases "ws = []") (auto simp: canonical_snoc)
  have "\<not> prefix u ?p" if u: "u \<in> set space_seqs" for u
  proof
    assume "prefix u ?p"
    moreover have "u \<noteq> []" using u space_seqs_nonempty by auto
    ultimately have "slash \<in> set u" by (cases u) auto
    then show False using slash_not_space u by auto
  qed
  moreover have "\<not> suffix u ?p" if u: "u \<in> set space_seqs" for u
  proof
    assume "suffix u ?p"
    then have "suffix u (x @ slash # w)" by (simp only: x)
    then consider "suffix u w" | y where "u = y @ slash # w"
      by (auto simp: suffix_def append_eq_append_conv2 Cons_eq_append_conv)
    then show False
    proof cases
      case 1
      then have "prefix (rev u) (rev w)" by (simp add: suffix_to_prefix)
      then show ?thesis using w u by (auto simp: good_segment_def trimmed_def strip_one_None)
    next
      case 2
      then show ?thesis using slash_not_space u by auto
    qed
  qed
  ultimately show ?thesis by (auto simp: trimmed_def strip_one_None suffix_to_prefix)
qed

lemma cache_key_child:
  assumes "\<forall>v \<in> set (ws @ [w]). good_segment v"
  shows "cache_normalise_path (slash # join_with slash (ws @ [w])) = slash # join_with slash (ws @ [w])"
proof -
  let ?p = "slash # join_with slash (ws @ [w])"
  have w: "good_segment w" using assms by simp
  have "split_on slash (join_with slash (ws @ [w])) = ws @ [w]"
    using assms by (intro split_join) (auto simp: good_segment_def)
  then have nd: "\<not> contains ?p ''//''"
    using assms by (intro contains_double) (auto simp: good_segment_def)
  have "last w \<noteq> slash"
    using good_segment_no_slash [OF w] last_in_set [OF good_segment_nonempty [OF w]] by auto
  moreover have "last ?p = last w"
    using good_segment_nonempty [OF w] by (cases "ws = []") (simp_all add: canonical_snoc)
  ultimately have "\<not> suffix ''/'' ?p"
    by (metis append_is_Nil_conv last_snoc suffix_def)
  then show ?thesis
    using trim_space_id [OF trimmed_canonical [OF assms]] nd
    by (simp add: cache_normalise_path_def collapse_slashes.simps [of ?p] trim_suffix_def Let_def)
qed


section \<open>Properties\<close>

text \<open>Every path the SDK accepts comes out canonical: rooted, no trailing slash, and every
  segment non-empty, without surrounding white space, neither dot nor dot-dot, and a legal
  upstream name.\<close>
theorem normalize_canonical:
  assumes "normalize_folder_path p = Inr q"
  shows "canonical q \<and> (q \<noteq> ''/'' \<longrightarrow> list_all (\<lambda>w. validate_name w = None) (split_on slash (tl q)))"
proof -
  from assms obtain ws where ws: "q = slash # join_with slash ws"
    "\<And>w. w \<in> set ws \<Longrightarrow> good_segment w \<and> validate_name w = None"
    by (rule normalize_folder_path_Inr) blast
  then have "canonical q" by (auto simp: canonical_iff)
  moreover have "split_on slash (tl q) = ws" if "q \<noteq> ''/''"
    using that ws by (cases "ws = []") (auto intro!: split_join simp: good_segment_def)
  ultimately show ?thesis using ws(2) by (auto simp: list_all_iff)
qed

text \<open>Normalising is idempotent: a canonical form asked for again is the same folder, so two
  spellings of one path never name two folders.\<close>
lemma normalize_idempotent:
  assumes "normalize_folder_path p = Inr q"
  shows "normalize_folder_path q = Inr q"
proof -
  from assms obtain ws where q: "q = slash # join_with slash ws"
    and ws: "\<And>w. w \<in> set ws \<Longrightarrow> good_segment w \<and> validate_name w = None"
    by (rule normalize_folder_path_Inr) blast
  have "CHR 0x00 \<notin> set q"
    using set_join_with [of slash ws] ws by (auto simp: q dest!: validate_name_no_nul)
  moreover have "\<forall>w \<in> set ws. good_segment w" using ws by blast
  moreover have "first_invalid ws = None" using ws by (auto simp: first_invalid_None good_segment_def)
  ultimately show ?thesis
    by (simp add: normalize_rooted q rooted_tail_def canonical_segments)
qed

text \<open>No spelling of dot-dot gets through: a segment that is dot-dot once the white space
  around it is removed makes both the SDK and the server refuse the path.\<close>
theorem dotdot_refused:
  assumes "w \<in> set (split_on slash p)" and "trim_space w = ''..''"
  shows "\<not> is_ok (normalize_folder_path p) \<and> \<not> is_ok (server_normalise_path p)"
proof -
  have tail: "''..'' \<in> set (trimmed_segments (rooted_tail p))"
    using assms by (cases "has_prefix p ''/''") (auto simp: rooted_tail_def trimmed_segments_def prefix_def
        image_iff intro!: bexI [of _ w])
  have "\<not> is_ok (normalize_folder_path p)"
  proof
    assume "is_ok (normalize_folder_path p)"
    then obtain q where "normalize_folder_path p = Inr q" by (auto simp: is_ok_iff)
    then show False by (rule normalize_folder_path_Inr) (use tail in simp)
  qed
  moreover have "\<not> is_ok (server_normalise_path p)"
    using tail by (cases "has_prefix p ''/''")
      (auto simp: server_normalise_path_def rooted_tail_def split_trim_segments prefix_def)
  ultimately show ?thesis by simp
qed

text \<open>C40: The server's normaliser and the SDK's, written separately, agree: whenever both accept a
  path they produce the same one, so a path-cache key computed on one side is found on the other.\<close>
theorem server_agrees_with_sdk:
  assumes "server_normalise_path p = Inr q" and "normalize_folder_path p = Inr r"
  shows "q = r"
proof -
  from assms(1) obtain s where p: "p = slash # s"
    by (auto simp: server_normalise_path_def prefix_def split: if_splits)
  from assms(2) obtain "''..'' \<notin> set (trimmed_segments s)" "r = slash # join_with slash (kept_segments s)"
    by (rule normalize_folder_path_Inr) (auto simp: p rooted_tail_def)
  with assms(1) show ?thesis
    by (auto simp: p server_normalise_path_def split_trim_segments clean_trim_segments Let_def)
qed

text \<open>Taking a path apart and putting it together are inverse on canonical paths, in both
  implementations: joining a folder and a name gives a canonical path whose parent and last segment,
  by the SDK's \<open>ParentPath\<close> and by the server's \<open>splitPath\<close>, are that folder and that name.\<close>
theorem join_then_split:
  assumes "canonical d" and "good_segment n"
  shows "canonical (join_path d n) \<and> parent_path (join_path d n) = (d, n)
    \<and> split_path (join_path d n) = (d, n)"
proof -
  from assms(1) obtain ws where d: "d = slash # join_with slash ws" and ws: "\<forall>w \<in> set ws. good_segment w"
    by (auto simp: canonical_iff)
  have all: "\<forall>w \<in> set (ws @ [n]). good_segment w" using ws assms(2) by simp
  have j: "join_path d n = slash # join_with slash (ws @ [n])"
    unfolding d by (rule join_path_child [OF ws assms(2)])
  have "canonical (join_path d n)" using all unfolding j canonical_iff by blast
  moreover have "parent_path (join_path d n) = (d, n)"
    unfolding j by (simp only: d parent_path_child [OF assms(2)])
  moreover have "split_path (join_path d n) = (d, n)"
    unfolding j by (simp only: d split_path_child [OF all])
  ultimately show ?thesis by simp
qed

text \<open>The data cache's own key normaliser changes nothing that the path layer has normalised, so
  an object is stored under exactly the path a listing or a lookup computes.\<close>
theorem cache_key_of_normalized:
  assumes "normalize_folder_path p = Inr q"
  shows "cache_normalise_path q = q"
proof -
  from assms obtain ws where q: "q = slash # join_with slash ws"
    and ws: "\<And>w. w \<in> set ws \<Longrightarrow> good_segment w \<and> validate_name w = None"
    by (rule normalize_folder_path_Inr) blast
  show ?thesis
  proof (cases ws rule: rev_cases)
    case Nil
    have "trim_space ''/'' = ''/''"
      by (rule trim_space_id, rule trimmed_ends) (simp_all add: space_seqs_def)
    with Nil q show ?thesis
      by (simp add: cache_normalise_path_def collapse_slashes.simps)
  next
    case (snoc vs w)
    then show ?thesis unfolding q snoc by (intro cache_key_child ballI) (metis ws snoc)
  qed
qed

text \<open>On a path that was not normalised first the data cache's key is not stable: normalising
  the key once more gives another one, so a caller that normalises twice looks under a key nothing
  is stored at.\<close>
lemma cache_key_not_idempotent:
  "cache_normalise_path ''/a /'' = ''/a '' \<and> cache_normalise_path (cache_normalise_path ''/a /'') = ''/a''"
  by code_simp

section \<open>Witnesses\<close>

lemma normalize_example: "normalize_folder_path '' Docs //2026/ '' = Inr ''/Docs/2026''"
  by code_simp

theorem normalize_canonical_witness:
  "canonical ''/Docs/2026'' \<and> list_all (\<lambda>w. validate_name w = None) (split_on slash (tl ''/Docs/2026''))"
  using normalize_canonical [OF normalize_example] by simp

theorem normalize_idempotent_witness: "normalize_folder_path ''/Docs/2026'' = Inr ''/Docs/2026''"
  by (rule normalize_idempotent [OF normalize_example])

theorem dotdot_refused_witness:
  "\<not> is_ok (normalize_folder_path ''/a/ .. /b'') \<and> \<not> is_ok (server_normalise_path ''/a/ .. /b'')"
proof -
  have "trim_space '' .. '' = ''..''" by code_simp
  then show ?thesis using dotdot_refused [of "'' .. ''" "''/a/ .. /b''"] by simp
qed

theorem server_agrees_with_sdk_witness:
  "server_normalise_path ''/Docs / x'' = Inr ''/Docs/x'' \<and> normalize_folder_path ''/Docs / x'' = Inr ''/Docs/x''"
proof -
  have a: "server_normalise_path ''/Docs / x'' = Inr ''/Docs/x''" by code_simp
  have b: "is_ok (normalize_folder_path ''/Docs / x'')" by code_simp
  then obtain r where r: "normalize_folder_path ''/Docs / x'' = Inr r" by (auto simp: is_ok_iff)
  show ?thesis using server_agrees_with_sdk [OF a r] a r by simp
qed

theorem join_then_split_witness:
  "parent_path (join_path ''/Docs'' ''a.txt'') = (''/Docs'', ''a.txt'')"
proof -
  have "canonical ''/Docs''" and "good_segment ''a.txt''" by code_simp+
  then show ?thesis using join_then_split by blast
qed

theorem cache_key_of_normalized_witness: "cache_normalise_path ''/Docs/2026'' = ''/Docs/2026''"
  by (rule cache_key_of_normalized [OF normalize_example])

end
