(* ===== verification/Path_Cache.thy ===== *)
theory Path_Cache
  imports Paths
begin

text \<open>
  \<open>internal/cache/pathcache.go\<close>: the metadata cache from normalised folder paths to upstream folder
  ids. The clock is an argument of the operations that read it. The mutex makes every operation
  atomic, so a concurrent run is a sequence of them.
\<close>

section \<open>State and operations\<close>

record path_entry =
  pe_id :: string
  pe_expires :: gotime
  pe_last_used :: gotime

record path_cache =
  pc_ttl :: int
  pc_max_entries :: int
  by_path :: "(string, path_entry) gomap"
  by_id :: "(string, string) gomap"
  updated :: "(string, int) gomap"
  pc_hits :: int
  pc_misses :: int
  pc_evictions :: int

definition default_ttl :: int where "default_ttl = 60 * 10 ^ 9"
definition default_max_entries :: int where "default_max_entries = 4096"

definition with_ttl :: "int \<Rightarrow> path_cache \<Rightarrow> path_cache" where
  "with_ttl d c = (if d > 0 then c\<lparr>pc_ttl := d\<rparr> else c)"

definition with_max_entries :: "int \<Rightarrow> path_cache \<Rightarrow> path_cache" where
  "with_max_entries n c = (if n > 0 then c\<lparr>pc_max_entries := n\<rparr> else c)"

definition new_path_cache :: "(path_cache \<Rightarrow> path_cache) list \<Rightarrow> path_cache" where
  "new_path_cache opts = fold (\<lambda>o_fn c. o_fn c) opts
     \<lparr>pc_ttl = default_ttl, pc_max_entries = default_max_entries, by_path = [], by_id = [],
      updated = [], pc_hits = 0, pc_misses = 0, pc_evictions = 0\<rparr>"

definition drop_path :: "string \<Rightarrow> path_cache \<Rightarrow> path_cache" where
  "drop_path p c =
     (case lookup (by_path c) p of
        None \<Rightarrow> c
      | Some e \<Rightarrow>
          c\<lparr>by_path := AList.delete p (by_path c),
            by_id := (if lookup (by_id c) (pe_id e) = Some p then AList.delete (pe_id e) (by_id c)
                      else by_id c),
            updated := AList.delete (pe_id e) (updated c)\<rparr>)"

definition subtree_prefix :: "string \<Rightarrow> string" where
  "subtree_prefix p = (if p \<noteq> ''/'' then p @ ''/'' else p)"

definition drops :: "string \<Rightarrow> bool \<Rightarrow> string \<Rightarrow> bool" where
  "drops path include_self p \<longleftrightarrow>
     (if p = path then include_self else has_prefix p (subtree_prefix path))"

definition drop_subtree :: "string \<Rightarrow> bool \<Rightarrow> path_cache \<Rightarrow> path_cache" where
  "drop_subtree path include_self c =
     (if path = [] then c
      else fold (\<lambda>p c. if drops path include_self p then drop_path p c else c)
             (map fst (by_path c)) c)"

definition oldest_entry :: "(string, path_entry) gomap \<Rightarrow> string \<times> gotime" where
  "oldest_entry m =
     foldl (\<lambda>(op, ot) (p, e). if op = [] \<or> pe_last_used e < ot then (p, pe_last_used e) else (op, ot))
       ([], 0) m"

lemma oldest_entry_mem: "fst (oldest_entry m) = [] \<or> fst (oldest_entry m) \<in> keys m"
proof -
  have "fst (foldl (\<lambda>(op, ot) (p, e). if op = [] \<or> pe_last_used e < ot then (p, pe_last_used e) else (op, ot)) a m)
      \<in> insert (fst a) (keys m)" for a
  proof (induction m arbitrary: a)
    case Nil
    then show ?case by simp
  next
    case (Cons x m)
    show ?case
      using Cons [of "(\<lambda>(op, ot) (p, e). if op = [] \<or> pe_last_used e < ot then (p, pe_last_used e) else (op, ot)) a x"]
      by (cases a; cases x) (auto split: if_splits)
  qed
  from this [of "([], 0)"] show ?thesis by (simp add: oldest_entry_def)
qed

lemma length_delete_less: "k \<in> keys m \<Longrightarrow> length (AList.delete k m) < length m"
proof (induction m)
  case Nil
  then show ?case by simp
next
  case (Cons a m)
  have "length (AList.delete k m) \<le> length m" by (rule length_delete_le)
  with Cons show ?case by (cases a) auto
qed

lemma drop_path_shrinks:
  "p \<in> keys (by_path c) \<Longrightarrow> length (by_path (drop_path p c)) < length (by_path c)"
  by (auto simp: drop_path_def length_delete_less map_of_eq_None_iff split: option.splits)

text \<open>The eviction loop. Each round drops an entry of the map, so it ends.\<close>

function evict :: "path_cache \<Rightarrow> path_cache" where
  "evict c =
     (if int (length (by_path c)) > pc_max_entries c then
        (let p = fst (oldest_entry (by_path c))
         in if p = [] then c
            else evict ((drop_path p c)\<lparr>pc_evictions := pc_evictions c + 1\<rparr>))
      else c)"
  by pat_completeness auto
termination
proof (relation "measure (\<lambda>c. length (by_path c))", goal_cases)
  case (2 c p)
  then have "p \<in> keys (by_path c)"
    using oldest_entry_mem [of "by_path c"] by auto
  then show ?case by (simp add: drop_path_shrinks)
qed simp

declare evict.simps [simp del]

definition pc_lookup :: "gotime \<Rightarrow> string \<Rightarrow> path_cache \<Rightarrow> string option \<times> path_cache" where
  "pc_lookup now path c =
     (case lookup (by_path c) path of
        None \<Rightarrow> (None, c\<lparr>pc_misses := pc_misses c + 1\<rparr>)
      | Some e \<Rightarrow>
          if now > pe_expires e then
            (None, (drop_path path c)\<lparr>pc_misses := pc_misses c + 1\<rparr>)
          else
            (Some (pe_id e),
             c\<lparr>by_path := AList.update path (e\<lparr>pe_last_used := now\<rparr>) (by_path c),
               pc_hits := pc_hits c + 1\<rparr>))"

definition pc_store :: "gotime \<Rightarrow> string \<Rightarrow> string \<Rightarrow> path_cache \<Rightarrow> path_cache" where
  "pc_store now path fid c =
     (if path = [] \<or> fid = [] then c
      else evict
        (c\<lparr>by_path := AList.update path
              \<lparr>pe_id = fid, pe_expires = now + pc_ttl c, pe_last_used = now\<rparr> (by_path c),
           by_id := AList.update fid path (by_id c)\<rparr>))"

definition pc_observe :: "string \<Rightarrow> int \<Rightarrow> path_cache \<Rightarrow> path_cache" where
  "pc_observe fid dir_time c =
     (if fid = [] \<or> dir_time = 0 then c
      else
        let previous = lookup (updated c) fid;
            c' = c\<lparr>updated := AList.update fid dir_time (updated c)\<rparr>
        in if previous \<noteq> None \<and> previous \<noteq> Some dir_time then
             (case lookup (by_id c') fid of
                Some path \<Rightarrow> drop_subtree path False c'
              | None \<Rightarrow> c')
           else c')"

definition pc_invalidate_path :: "string \<Rightarrow> path_cache \<Rightarrow> path_cache" where
  "pc_invalidate_path path c = drop_subtree path True c"

definition pc_invalidate_id :: "string \<Rightarrow> path_cache \<Rightarrow> path_cache" where
  "pc_invalidate_id fid c =
     (let c1 = c\<lparr>updated := AList.delete fid (updated c)\<rparr>
      in case lookup (by_id c1) fid of
           None \<Rightarrow> c1
         | Some path \<Rightarrow>
             let c2 = drop_subtree path True c1
             in case last_index slash path of
                  Some i \<Rightarrow>
                    if i > 0 then
                      (case lookup (by_path c2) (take i path) of
                         Some e \<Rightarrow> c2\<lparr>updated := AList.delete (pe_id e) (updated c2)\<rparr>
                       | None \<Rightarrow> c2)
                    else c2
                | None \<Rightarrow> c2)"

definition pc_reset :: "path_cache \<Rightarrow> path_cache" where
  "pc_reset c = c\<lparr>by_path := [], by_id := [], updated := []\<rparr>"

definition pc_len :: "path_cache \<Rightarrow> nat" where
  "pc_len c = length (by_path c)"

definition pc_stats :: "path_cache \<Rightarrow> int \<times> int \<times> int" where
  "pc_stats c = (pc_hits c, pc_misses c, pc_evictions c)"

section \<open>Invariant\<close>

definition pc_inv :: "path_cache \<Rightarrow> bool" where
  "pc_inv c \<longleftrightarrow>
     wf_map (by_path c) \<and> [] \<notin> keys (by_path c) \<and> 0 < pc_max_entries c
     \<and> int (length (by_path c)) \<le> pc_max_entries c"

lemma lookup_drop_path [map_simps]:
  "lookup (by_path (drop_path p c)) q = (if q = p then None else lookup (by_path c) q)"
  by (auto simp: drop_path_def map_simps split: option.splits)

lemma drop_path_frame [simp]:
  "pc_max_entries (drop_path p c) = pc_max_entries c" "pc_ttl (drop_path p c) = pc_ttl c"
  "pc_hits (drop_path p c) = pc_hits c" "pc_evictions (drop_path p c) = pc_evictions c"
  "pc_misses (drop_path p c) = pc_misses c"
  by (simp_all add: drop_path_def split: option.splits)

lemma by_path_drop_path: "by_path (drop_path p c) = AList.delete p (by_path c)"
  by (auto simp: drop_path_def delete_id map_of_eq_None_iff split: option.splits)

lemma fold_drop_frame:
  "by_path (fold (\<lambda>p c. if P p then drop_path p c else c) ps c) = filter (\<lambda>(q, _). \<not> (P q \<and> q \<in> set ps)) (by_path c)
   \<and> pc_max_entries (fold (\<lambda>p c. if P p then drop_path p c else c) ps c) = pc_max_entries c
   \<and> pc_ttl (fold (\<lambda>p c. if P p then drop_path p c else c) ps c) = pc_ttl c"
proof (induction ps arbitrary: c)
  case Nil
  then show ?case by (simp add: case_prod_unfold)
next
  case (Cons p ps)
  have "filter (\<lambda>(q, _). \<not> (P q \<and> q \<in> set ps)) (AList.delete p (by_path c))
      = filter (\<lambda>(q, _). \<not> (P q \<and> q \<in> set (p # ps))) (by_path c)" if "P p"
    using that by (auto simp: AList.delete_eq intro!: filter_cong)
  moreover have "filter (\<lambda>(q, _). \<not> (P q \<and> q \<in> set ps)) (by_path c)
      = filter (\<lambda>(q, _). \<not> (P q \<and> q \<in> set (p # ps))) (by_path c)" if "\<not> P p"
    using that by (auto intro!: filter_cong)
  ultimately show ?case
    using Cons by (simp add: by_path_drop_path)
qed

lemma by_path_drop_subtree:
  "path \<noteq> [] \<Longrightarrow> by_path (drop_subtree path b c) = filter (\<lambda>(q, _). \<not> drops path b q) (by_path c)"
  by (auto simp: drop_subtree_def fold_drop_frame image_iff intro!: filter_cong)

lemma drop_subtree_frame [simp]:
  "pc_max_entries (drop_subtree path b c) = pc_max_entries c"
  "pc_ttl (drop_subtree path b c) = pc_ttl c"
  by (simp_all add: drop_subtree_def fold_drop_frame)

lemma drop_subtree_sub: "set (by_path (drop_subtree path b c)) \<subseteq> set (by_path c)"
proof (cases "path = []")
  case True
  then show ?thesis by (simp add: drop_subtree_def)
next
  case False
  then show ?thesis by (auto simp: by_path_drop_subtree)
qed

lemma pc_inv_shrink:
  assumes "pc_inv c" and "by_path c' = filter P (by_path c)" and "pc_max_entries c' = pc_max_entries c"
  shows "pc_inv c'"
proof -
  have "int (length (filter P (by_path c))) \<le> int (length (by_path c))" by simp
  moreover have "keys (filter P (by_path c)) \<subseteq> keys (by_path c)" by auto
  ultimately show ?thesis using assms unfolding pc_inv_def by (auto simp del: length_filter_le)
qed

lemma pc_inv_drop_path: "pc_inv c \<Longrightarrow> pc_inv (drop_path p c)"
  by (erule pc_inv_shrink [where P = "\<lambda>(q, _). p \<noteq> q"]) (simp_all add: by_path_drop_path AList.delete_eq)

lemma pc_inv_drop_subtree: "pc_inv c \<Longrightarrow> pc_inv (drop_subtree path b c)"
proof (cases "path = []")
  case False
  assume "pc_inv c"
  then show ?thesis by (rule pc_inv_shrink) (simp_all add: by_path_drop_subtree False)
qed (simp add: drop_subtree_def)

text \<open>Eviction removes least recently used entries, and only as many as the bound asks.\<close>

lemma evict_frame:
  "pc_max_entries (evict c) = pc_max_entries c \<and> pc_ttl (evict c) = pc_ttl c
   \<and> set (by_path (evict c)) \<subseteq> set (by_path c)"
proof (induction c rule: evict.induct)
  case (1 c)
  have sub: "set (by_path (drop_path p c)) \<subseteq> set (by_path c)" for p
    by (simp add: by_path_drop_path set_delete_subset)
  show ?case
    using "1" sub by (subst (1 2 3) evict.simps) (auto simp: Let_def)
qed

lemma evict_wf: "wf_map (by_path c) \<Longrightarrow> wf_map (by_path (evict c))"
proof (induction c rule: evict.induct)
  case (1 c)
  then show ?case by (subst evict.simps) (auto simp: Let_def by_path_drop_path)
qed

lemma oldest_entry_nonempty:
  assumes "m \<noteq> []" and "[] \<notin> keys m"
  shows "fst (oldest_entry m) \<noteq> []"
proof -
  have "fst (foldl (\<lambda>(op, ot) (p, e). if op = [] \<or> pe_last_used e < ot then (p, pe_last_used e) else (op, ot)) a m)
      \<noteq> []" if "[] \<notin> keys m" "fst a \<noteq> []" for a and m :: "(string, path_entry) gomap"
    using that
  proof (induction m arbitrary: a)
    case Nil
    then show ?case by simp
  next
    case (Cons x m)
    then show ?case by (cases a; cases x) auto
  qed
  with assms show ?thesis by (cases m) (auto simp: oldest_entry_def)
qed

lemma evict_bound:
  "[] \<notin> keys (by_path c) \<Longrightarrow> 0 < pc_max_entries c \<Longrightarrow> int (length (by_path (evict c))) \<le> pc_max_entries c"
proof (induction c rule: evict.induct)
  case (1 c)
  show ?case
  proof (cases "int (length (by_path c)) > pc_max_entries c")
    case False
    then show ?thesis by (subst evict.simps) simp
  next
    case True
    then have ne: "fst (oldest_entry (by_path c)) \<noteq> []"
      using "1.prems" by (intro oldest_entry_nonempty) auto
    moreover have "[] \<notin> keys (AList.delete p (by_path c))" for p
      using "1.prems" by (simp add: keys_delete)
    ultimately show ?thesis
      using "1.IH" [OF True refl] "1.prems" True
      by (subst evict.simps) (simp add: Let_def by_path_drop_path)
  qed
qed

lemma pc_inv_store:
  assumes "pc_inv c"
  shows "pc_inv (pc_store now path fid c)"
proof (cases "path = [] \<or> fid = []")
  case True
  with assms show ?thesis by (auto simp: pc_store_def)
next
  case False
  let ?c = "c\<lparr>by_path := AList.update path \<lparr>pe_id = fid, pe_expires = now + pc_ttl c, pe_last_used = now\<rparr> (by_path c),
    by_id := AList.update fid path (by_id c)\<rparr>"
  have ne: "[] \<notin> keys (by_path ?c)" and wf: "wf_map (by_path ?c)" and mx: "0 < pc_max_entries ?c"
    using assms False by (auto simp: pc_inv_def keys_update)
  have "[] \<notin> keys (by_path (evict ?c))" using evict_frame [of ?c] ne by (auto simp: image_iff)
  with evict_wf [OF wf] evict_bound [OF ne mx] evict_frame [of ?c] mx False show ?thesis
    by (simp add: pc_inv_def pc_store_def)
qed

lemma pc_inv_lookup:
  assumes "pc_inv c"
  shows "pc_inv (snd (pc_lookup now path c))"
proof (cases "lookup (by_path c) path")
  case None
  with assms show ?thesis by (simp add: pc_lookup_def pc_inv_def)
next
  case (Some e)
  then have mem: "path \<in> keys (by_path c)" by (metis lookup_None_iff option.distinct(1))
  show ?thesis
  proof (cases "now > pe_expires e")
    case True
    with Some pc_inv_drop_path [OF assms] show ?thesis by (simp add: pc_lookup_def pc_inv_def)
  next
    case False
    with Some assms mem show ?thesis
      by (simp add: pc_lookup_def pc_inv_def keys_update length_update_old insert_absorb)
  qed
qed

lemma pc_inv_observe: "pc_inv c \<Longrightarrow> pc_inv (pc_observe fid n c)"
proof -
  assume inv: "pc_inv c"
  then have "pc_inv (c\<lparr>updated := u\<rparr>)" for u by (simp add: pc_inv_def)
  with inv show ?thesis
    by (auto simp: pc_observe_def Let_def intro!: pc_inv_drop_subtree split: option.splits)
qed

lemma pc_inv_invalidate_path: "pc_inv c \<Longrightarrow> pc_inv (pc_invalidate_path p c)"
  by (simp add: pc_invalidate_path_def pc_inv_drop_subtree)

lemma pc_inv_updated: "pc_inv (c\<lparr>updated := u\<rparr>) = pc_inv c"
  by (simp add: pc_inv_def)

lemma pc_inv_invalidate_id: "pc_inv c \<Longrightarrow> pc_inv (pc_invalidate_id fid c)"
  by (auto simp: pc_invalidate_id_def Let_def pc_inv_updated pc_inv_drop_subtree split: option.splits)

lemma pc_inv_reset: "pc_inv c \<Longrightarrow> pc_inv (pc_reset c)"
  by (simp add: pc_inv_def pc_reset_def)

lemmas pc_inv_ops = pc_inv_store pc_inv_lookup pc_inv_observe pc_inv_invalidate_path
  pc_inv_invalidate_id pc_inv_reset


section \<open>Runs of the cache against a specification\<close>

datatype pc_event =
    PcStore string string | PcLookup string | PcObserve string int
  | PcInvalidatePath string | PcInvalidateID string | PcReset

fun pc_apply :: "gotime \<times> pc_event \<Rightarrow> path_cache \<Rightarrow> path_cache" where
  "pc_apply (t, PcStore p i) c = pc_store t p i c"
| "pc_apply (t, PcLookup p) c = snd (pc_lookup t p c)"
| "pc_apply (t, PcObserve i n) c = pc_observe i n c"
| "pc_apply (t, PcInvalidatePath p) c = pc_invalidate_path p c"
| "pc_apply (t, PcInvalidateID i) c = pc_invalidate_id i c"
| "pc_apply (t, PcReset) c = pc_reset c"

definition pc_run :: "(gotime \<times> pc_event) list \<Rightarrow> path_cache \<Rightarrow> path_cache" where
  "pc_run evs c = fold pc_apply evs c"

text \<open>
  What the cache is allowed to know: the last resolution stored for a path and when, forgotten when
  the path is invalidated by name or the cache is reset.
\<close>

fun pc_spec_step :: "gotime \<times> pc_event \<Rightarrow> (string \<rightharpoonup> string \<times> gotime) \<Rightarrow> (string \<rightharpoonup> string \<times> gotime)" where
  "pc_spec_step (t, PcStore p i) m = (if p = [] \<or> i = [] then m else m(p \<mapsto> (i, t)))"
| "pc_spec_step (t, PcInvalidatePath q) m =
     (if q = [] then m else (\<lambda>p. if drops q True p then None else m p))"
| "pc_spec_step (t, PcReset) m = Map.empty"
| "pc_spec_step (t, PcLookup p) m = m"
| "pc_spec_step (t, PcObserve i n) m = m"
| "pc_spec_step (t, PcInvalidateID i) m = m"

definition pc_spec :: "(gotime \<times> pc_event) list \<Rightarrow> (string \<rightharpoonup> string \<times> gotime)" where
  "pc_spec evs = fold pc_spec_step evs Map.empty"

definition pc_sim :: "path_cache \<Rightarrow> (string \<rightharpoonup> string \<times> gotime) \<Rightarrow> bool" where
  "pc_sim c m \<longleftrightarrow>
     (\<forall>(p, e) \<in> set (by_path c). \<exists>t. m p = Some (pe_id e, t) \<and> pe_expires e = t + pc_ttl c)"

lemma pc_sim_subset:
  "pc_sim c m \<Longrightarrow> set (by_path c') \<subseteq> set (by_path c) \<Longrightarrow> pc_ttl c' = pc_ttl c \<Longrightarrow> pc_sim c' m"
  unfolding pc_sim_def by fastforce

lemma set_update_iff:
  "wf_map m \<Longrightarrow> (p, e) \<in> set (AList.update k v m) \<longleftrightarrow> (p = k \<and> e = v) \<or> (p \<noteq> k \<and> (p, e) \<in> set m)"
proof -
  assume wf: "wf_map m"
  have "(p, e) \<in> set (AList.update k v m) \<longleftrightarrow> lookup (AList.update k v m) p = Some e"
    by (rule lookup_iff [symmetric]) (use wf in simp)
  also have "\<dots> \<longleftrightarrow> (if p = k then v = e else lookup m p = Some e)"
    by (simp add: lookup_update)
  also have "\<dots> \<longleftrightarrow> (if p = k then v = e else (p, e) \<in> set m)"
    by (simp add: lookup_iff [OF wf])
  finally show ?thesis by auto
qed

lemma pc_observe_frame:
  "set (by_path (pc_observe i n c)) \<subseteq> set (by_path c)" "pc_ttl (pc_observe i n c) = pc_ttl c"
  using drop_subtree_sub [of _ _ "c\<lparr>updated := AList.update i n (updated c)\<rparr>"]
  by (auto simp: pc_observe_def Let_def split: option.splits)

lemma pc_invalidate_id_frame:
  "set (by_path (pc_invalidate_id i c)) \<subseteq> set (by_path c)"
  "pc_ttl (pc_invalidate_id i c) = pc_ttl c"
  using drop_subtree_sub [of _ _ "c\<lparr>updated := AList.delete i (updated c)\<rparr>"]
  by (auto simp: pc_invalidate_id_def Let_def split: option.splits)

lemma pc_sim_store:
  assumes "pc_inv c" and "pc_sim c m" and "p \<noteq> []" and "i \<noteq> []"
  shows "pc_sim (pc_store t p i c) (m(p \<mapsto> (i, t)))"
proof -
  let ?c = "c\<lparr>by_path := AList.update p \<lparr>pe_id = i, pe_expires = t + pc_ttl c, pe_last_used = t\<rparr> (by_path c),
    by_id := AList.update i p (by_id c)\<rparr>"
  have "pc_sim ?c (m(p \<mapsto> (i, t)))"
    using assms(1,2) by (auto simp: pc_sim_def pc_inv_def set_update_iff)
  then show ?thesis
    using pc_sim_subset [of ?c _ "evict ?c"] evict_frame [of ?c] assms(3,4) by (simp add: pc_store_def)
qed

lemma pc_sim_lookup:
  assumes "pc_inv c" and "pc_sim c m"
  shows "pc_sim (snd (pc_lookup t p c)) m"
proof (cases "lookup (by_path c) p")
  case None
  with assms show ?thesis by (simp add: pc_lookup_def pc_sim_def)
next
  case (Some e)
  then have mem: "(p, e) \<in> set (by_path c)" by (rule lookup_mem)
  have "pc_sim (drop_path p c) m"
    by (rule pc_sim_subset [OF assms(2)]) (simp_all add: by_path_drop_path set_delete_subset)
  moreover have "pc_sim (c\<lparr>by_path := AList.update p (e\<lparr>pe_last_used := t\<rparr>) (by_path c)\<rparr>) m"
    using assms mem by (fastforce simp: pc_sim_def pc_inv_def set_update_iff)
  ultimately show ?thesis using Some by (simp add: pc_lookup_def pc_sim_def)
qed

lemma pc_sim_invalidate_path:
  assumes "pc_sim c m"
  shows "pc_sim (pc_invalidate_path q c) (pc_spec_step (t, PcInvalidatePath q) m)"
proof (cases "q = []")
  case True
  with assms show ?thesis by (simp add: pc_invalidate_path_def drop_subtree_def)
next
  case False
  with assms show ?thesis
    by (auto simp: pc_sim_def pc_invalidate_path_def by_path_drop_subtree)
qed

lemma pc_sim_apply:
  assumes "pc_inv c" and "pc_sim c m"
  shows "pc_sim (pc_apply ev c) (pc_spec_step ev m) \<and> pc_inv (pc_apply ev c)"
proof -
  obtain t e where ev: "ev = (t, e)" by (cases ev)
  show ?thesis
  proof (cases e)
    case (PcStore p i)
    with ev assms pc_sim_store [OF assms] pc_inv_store [OF assms(1)] show ?thesis
      by (auto simp: pc_store_def)
  next
    case (PcLookup p)
    with ev assms show ?thesis by (simp add: pc_sim_lookup pc_inv_ops)
  next
    case (PcObserve i n)
    with ev assms show ?thesis
      using pc_sim_subset [OF assms(2) pc_observe_frame] by (simp add: pc_inv_ops)
  next
    case (PcInvalidatePath q)
    with ev assms pc_sim_invalidate_path [OF assms(2)] show ?thesis by (simp add: pc_inv_ops)
  next
    case (PcInvalidateID i)
    with ev assms show ?thesis
      using pc_sim_subset [OF assms(2) pc_invalidate_id_frame] by (simp add: pc_inv_ops)
  next
    case PcReset
    with ev assms show ?thesis by (simp add: pc_sim_def pc_reset_def pc_inv_ops [unfolded pc_reset_def])
  qed
qed

lemma pc_sim_run:
  "pc_inv c \<Longrightarrow> pc_sim c m \<Longrightarrow>
    pc_sim (pc_run evs c) (fold pc_spec_step evs m) \<and> pc_inv (pc_run evs c)"
proof (induction evs arbitrary: c m)
  case Nil
  then show ?case by (simp add: pc_run_def)
next
  case (Cons ev evs)
  from pc_sim_apply [OF Cons.prems, of ev]
  have "pc_sim (pc_apply ev c) (pc_spec_step ev m)" and "pc_inv (pc_apply ev c)" by simp_all
  from Cons.IH [OF this(2,1)] show ?case by (simp add: pc_run_def)
qed

lemma pc_apply_ttl: "pc_ttl (pc_apply ev c) = pc_ttl c"
proof -
  obtain t e where ev: "ev = (t, e)" by (cases ev)
  show ?thesis
    using ev evict_frame by (cases e)
      (auto simp: pc_store_def pc_lookup_def pc_observe_frame pc_invalidate_path_def pc_invalidate_id_frame
        pc_reset_def split: option.splits)
qed

lemma pc_run_ttl: "pc_ttl (pc_run evs c) = pc_ttl c"
  by (induction evs arbitrary: c) (simp_all add: pc_run_def pc_apply_ttl)

text \<open>A cache as the daemon makes it: any values for the two options.\<close>

definition fresh_cache :: "int \<Rightarrow> int \<Rightarrow> path_cache" where
  "fresh_cache d n = new_path_cache [with_ttl d, with_max_entries n]"

lemma fresh_cache_simps [simp]:
  "by_path (fresh_cache d n) = []" "by_id (fresh_cache d n) = []" "updated (fresh_cache d n) = []"
  "pc_max_entries (fresh_cache d n) = (if n > 0 then n else default_max_entries)"
  "pc_ttl (fresh_cache d n) = (if d > 0 then d else default_ttl)"
  by (simp_all add: fresh_cache_def new_path_cache_def with_ttl_def with_max_entries_def)

lemma fresh_cache_inv: "pc_inv (fresh_cache d n)"
  by (simp add: pc_inv_def default_max_entries_def)

lemma fresh_cache_sim: "pc_sim (fresh_cache d n) Map.empty"
  by (simp add: pc_sim_def)

section \<open>Least recently used\<close>

lemma oldest_entry_min:
  assumes "[] \<notin> keys m" and "m \<noteq> []"
  shows "\<exists>e. (fst (oldest_entry m), e) \<in> set m \<and> snd (oldest_entry m) = pe_last_used e
    \<and> (\<forall>(p, f) \<in> set m. pe_last_used e \<le> pe_last_used f)"
proof -
  let ?f = "\<lambda>(op, ot) (p, e). if op = [] \<or> pe_last_used e < ot then (p, pe_last_used e) else (op, ot)"
  have gen: "\<exists>e. (fst (foldl ?f (p0, pe_last_used e0) m), e) \<in> insert (p0, e0) (set m)
      \<and> snd (foldl ?f (p0, pe_last_used e0) m) = pe_last_used e
      \<and> (\<forall>(p, f) \<in> insert (p0, e0) (set m). pe_last_used e \<le> pe_last_used f)"
    if "[] \<notin> keys m" "p0 \<noteq> []" for p0 e0 and m :: "(string, path_entry) gomap"
    using that
  proof (induction m arbitrary: p0 e0)
    case Nil
    then show ?case by simp
  next
    case (Cons x m)
    obtain p1 e1 where x: "x = (p1, e1)" by (cases x)
    show ?case
    proof (cases "pe_last_used e1 < pe_last_used e0")
      case True
      have "[] \<notin> keys m" and "p1 \<noteq> []" using Cons.prems x by auto
      from Cons.IH [OF this, of e1] obtain e
        where e: "(fst (foldl ?f (p1, pe_last_used e1) m), e) \<in> insert (p1, e1) (set m)"
          "snd (foldl ?f (p1, pe_last_used e1) m) = pe_last_used e"
          "\<forall>(p, f) \<in> insert (p1, e1) (set m). pe_last_used e \<le> pe_last_used f" by blast
      have "foldl ?f (p0, pe_last_used e0) (x # m) = foldl ?f (p1, pe_last_used e1) m"
        using True x by simp
      with e True x show ?thesis by (intro exI [of _ e]) auto
    next
      case False
      have "[] \<notin> keys m" using Cons.prems by auto
      from Cons.IH [OF this Cons.prems(2), of e0] obtain e
        where e: "(fst (foldl ?f (p0, pe_last_used e0) m), e) \<in> insert (p0, e0) (set m)"
          "snd (foldl ?f (p0, pe_last_used e0) m) = pe_last_used e"
          "\<forall>(p, f) \<in> insert (p0, e0) (set m). pe_last_used e \<le> pe_last_used f" by blast
      have "foldl ?f (p0, pe_last_used e0) (x # m) = foldl ?f (p0, pe_last_used e0) m"
        using False x Cons.prems(2) by simp
      with e False x show ?thesis by (intro exI [of _ e]) auto
    qed
  qed
  obtain p0 e0 m' where m: "m = (p0, e0) # m'" using assms(2) by (cases m) auto
  with gen [of m' p0 e0] assms(1) show ?thesis by (auto simp: oldest_entry_def)
qed

lemma evict_lru:
  "pc_inv c \<or> ([] \<notin> keys (by_path c) \<and> wf_map (by_path c)) \<Longrightarrow> (p, e) \<in> set (by_path c) \<Longrightarrow>
    (p, e) \<notin> set (by_path (evict c)) \<Longrightarrow> (q, f) \<in> set (by_path (evict c)) \<Longrightarrow> pe_last_used e \<le> pe_last_used f"
proof (induction c rule: evict.induct)
  case (1 c)
  have ne: "[] \<notin> keys (by_path c)" and wf: "wf_map (by_path c)"
    using "1.prems"(1) by (auto simp: pc_inv_def)
  show ?case
  proof (cases "int (length (by_path c)) > pc_max_entries c")
    case False
    with "1.prems" show ?thesis by (subst (asm) (1 2) evict.simps) auto
  next
    case True
    let ?o = "fst (oldest_entry (by_path c))"
    let ?c = "(drop_path ?o c)\<lparr>pc_evictions := pc_evictions c + 1\<rparr>"
    have m: "by_path c \<noteq> []" using "1.prems"(2) by auto
    from oldest_entry_min [OF ne m] obtain e0 where e0: "(?o, e0) \<in> set (by_path c)"
      and least: "\<And>q f. (q, f) \<in> set (by_path c) \<Longrightarrow> pe_last_used e0 \<le> pe_last_used f" by auto
    have o: "?o \<noteq> []" by (rule oldest_entry_nonempty [OF m ne])
    with True have ev: "evict c = evict ?c" by (subst evict.simps) (simp add: Let_def)
    have qf: "(q, f) \<in> set (by_path c)" using "1.prems"(4) evict_frame [of c] by auto
    show ?thesis
    proof (cases "p = ?o")
      case True
      then have "e = e0" using e0 "1.prems"(2) wf by (metis lookup_iff option.inject)
      with least [OF qf] show ?thesis by simp
    next
      case False
      have "(p, e) \<in> set (by_path ?c)" using "1.prems"(2) False
        by (auto simp: by_path_drop_path AList.delete_eq)
      moreover have "[] \<notin> keys (by_path ?c) \<and> wf_map (by_path ?c)"
        using ne wf by (auto simp: by_path_drop_path keys_delete)
      ultimately show ?thesis
        using "1.IH" [OF True refl o] "1.prems"(3,4) by (simp add: ev)
    qed
  qed
qed

section \<open>Properties\<close>


text \<open>The cache never holds more resolutions than its bound, whatever the operations; the
  bound is the configured one, or the default when the configured one is not positive.\<close>
theorem cache_size_bounded:
  "int (pc_len (pc_run evs (fresh_cache d n))) \<le> (if n > 0 then n else default_max_entries)"
proof -
  have max: "pc_max_entries (pc_apply ev c) = pc_max_entries c" for ev c
  proof -
    obtain t e where ev: "ev = (t, e)" by (cases ev)
    show ?thesis
      using ev evict_frame by (cases e)
        (auto simp: pc_store_def pc_lookup_def pc_observe_def pc_invalidate_path_def pc_invalidate_id_def
          Let_def pc_reset_def split: option.splits)
  qed
  have "pc_max_entries (pc_run evs c) = pc_max_entries c" for c
    by (induction evs arbitrary: c) (simp_all add: pc_run_def max)
  moreover have "pc_inv (pc_run evs (fresh_cache d n))"
    using pc_sim_run [OF fresh_cache_inv fresh_cache_sim] by blast
  ultimately show ?thesis by (simp add: pc_inv_def pc_len_def split: if_splits)
qed

text \<open>Eviction takes the least recently used: after a store, an entry that was dropped to make
  room had been used no later than any entry that was kept.\<close>
theorem store_evicts_lru:
  assumes "pc_inv c" and "path \<noteq> []" and "i \<noteq> []"
    and "lookup (by_path c) p = Some e" and "p \<noteq> path"
    and "lookup (by_path (pc_store now path i c)) p = None"
    and "lookup (by_path (pc_store now path i c)) q = Some f"
  shows "pe_last_used e \<le> pe_last_used f"
proof -
  let ?c = "c\<lparr>by_path := AList.update path \<lparr>pe_id = i, pe_expires = now + pc_ttl c, pe_last_used = now\<rparr> (by_path c),
    by_id := AList.update i path (by_id c)\<rparr>"
  have wf: "wf_map (by_path c)" and "[] \<notin> keys (by_path c)"
    using assms(1) by (simp_all add: pc_inv_def)
  with assms(2) have ne: "[] \<notin> keys (by_path ?c)" by (simp add: keys_update)
  have wfe: "wf_map (by_path (evict ?c))" by (rule evict_wf) (use wf in simp)
  have "(p, e) \<in> set (by_path ?c)" using assms(5) lookup_mem [OF assms(4)] by (simp add: set_update_iff [OF wf])
  moreover have "(p, e) \<notin> set (by_path (evict ?c))"
    using assms(2,3,6) lookup_iff [OF wfe, of p e] by (simp add: pc_store_def)
  moreover have "(q, f) \<in> set (by_path (evict ?c))"
    using assms(2,3,7) lookup_mem [of "by_path (evict ?c)" q f] by (simp add: pc_store_def)
  moreover have "wf_map (by_path ?c)" using wf by simp
  ultimately show ?thesis using evict_lru [of ?c p e q f] ne by blast
qed

text \<open>A changed DirUpdateTime drops exactly what lies below the folder: every path strictly
  under it is forgotten, the folder itself and every path elsewhere stay.\<close>
theorem observe_change_drops_below:
  assumes "lookup (updated c) i = Some old" and "old \<noteq> n" and "n \<noteq> 0" and "i \<noteq> []"
    and "lookup (by_id c) i = Some path" and "path \<noteq> []" and "wf_map (by_path c)"
  shows "lookup (by_path (pc_observe i n c)) p =
    (if p \<noteq> path \<and> has_prefix p (subtree_prefix path) then None else lookup (by_path c) p)"
proof -
  let ?c = "c\<lparr>updated := AList.update i n (updated c)\<rparr>"
  have "pc_observe i n c = drop_subtree path False ?c"
    using assms by (simp add: pc_observe_def Let_def)
  moreover have "lookup (by_path (drop_subtree path False ?c)) p =
      (case lookup (by_path c) p of None \<Rightarrow> None | Some e \<Rightarrow> if \<not> drops path False p then Some e else None)"
    using lookup_filter [OF assms(7), of "\<lambda>q _. \<not> drops path False q" p] by (simp add: by_path_drop_subtree assms(6))
  ultimately show ?thesis by (auto simp: drops_def split: option.splits)
qed

text \<open>Invalidating by id misses an alias: when one folder id was stored under two paths, only
  the path stored last is dropped and the other keeps answering the id.\<close>
lemma invalidate_id_misses_alias:
  "fst (pc_lookup 5 ''/old'' (pc_run [(1, PcStore ''/old'' ''7''), (2, PcStore ''/new'' ''7''), (3, PcInvalidateID ''7'')]
      (fresh_cache 60 10))) = Some ''7''"
  by code_simp

text \<open>The entry bound covers the resolutions only: the table of observed DirUpdateTimes grows by
  one for every new folder id observed, whatever the bound is.\<close>
lemma observed_times_unbounded:
  assumes "distinct ids" and "[] \<notin> set ids"
  shows "length (updated (pc_run (map (\<lambda>i. (0, PcObserve i 1)) ids) (fresh_cache d n))) = length ids"
proof -
  have gen: "length (updated (pc_run (map (\<lambda>i. (0, PcObserve i 1)) ids) c)) = length (updated c) + length ids"
    if "distinct ids" "[] \<notin> set ids" "set ids \<inter> keys (updated c) = {}" for ids c
    using that
  proof (induction ids arbitrary: c)
    case Nil
    then show ?case by (simp add: pc_run_def)
  next
    case (Cons i ids)
    let ?c = "c\<lparr>updated := AList.update i 1 (updated c)\<rparr>"
    have new: "i \<notin> keys (updated c)" using Cons.prems by auto
    moreover have "i \<noteq> []" using Cons.prems by auto
    ultimately have step: "pc_observe i 1 c = ?c"
      using Cons.prems by (simp add: pc_observe_def Let_def lookup_None_iff [symmetric])
    have "length (updated (pc_run (map (\<lambda>i. (0, PcObserve i 1)) ids) ?c)) = length (updated ?c) + length ids"
      using Cons.prems by (intro Cons.IH) (auto simp: keys_update)
    with new step show ?case by (simp add: pc_run_def length_update_new)
  qed
  from gen [OF assms, of "fresh_cache d n"] show ?thesis by simp
qed

section \<open>Witnesses\<close>


theorem store_evicts_lru_witness:
  "\<exists>c. pc_inv c \<and> lookup (by_path c) ''/a'' = Some \<lparr>pe_id = ''1'', pe_expires = 61, pe_last_used = 1\<rparr>
    \<and> lookup (by_path (pc_store 9 ''/c'' ''3'' c)) ''/a'' = None
    \<and> lookup (by_path (pc_store 9 ''/c'' ''3'' c)) ''/b'' = Some \<lparr>pe_id = ''2'', pe_expires = 62, pe_last_used = 2\<rparr>
    \<and> (1::int) \<le> 2"
proof -
  let ?c = "pc_run [(1, PcStore ''/a'' ''1''), (2, PcStore ''/b'' ''2'')] (fresh_cache 60 2)"
  let ?a = "\<lparr>pe_id = ''1'', pe_expires = 61, pe_last_used = 1\<rparr>"
  let ?b = "\<lparr>pe_id = ''2'', pe_expires = 62, pe_last_used = 2\<rparr>"
  have inv: "pc_inv ?c" using pc_sim_run [OF fresh_cache_inv fresh_cache_sim] by blast
  have a: "lookup (by_path ?c) ''/a'' = Some ?a" by code_simp
  have na: "lookup (by_path (pc_store 9 ''/c'' ''3'' ?c)) ''/a'' = None" by code_simp
  have b: "lookup (by_path (pc_store 9 ''/c'' ''3'' ?c)) ''/b'' = Some ?b" by code_simp
  have "pe_last_used ?a \<le> pe_last_used ?b"
    by (rule store_evicts_lru [OF inv _ _ a _ na b]) simp_all
  with inv a na b show ?thesis by auto
qed

theorem observe_change_drops_below_witness:
  "lookup (by_path (pc_observe ''1'' 8 (pc_run [(1, PcStore ''/a'' ''1''), (2, PcStore ''/a/b'' ''2''), (3, PcObserve ''1'' 7)]
      (fresh_cache 60 10)))) ''/a/b'' = None"
proof -
  let ?c = "pc_run [(1, PcStore ''/a'' ''1''), (2, PcStore ''/a/b'' ''2''), (3, PcObserve ''1'' 7)] (fresh_cache 60 10)"
  have "lookup (updated ?c) ''1'' = Some 7" and "lookup (by_id ?c) ''1'' = Some ''/a''" by code_simp+
  moreover have "wf_map (by_path ?c)"
    using pc_sim_run [OF fresh_cache_inv fresh_cache_sim] by (auto simp: pc_inv_def)
  ultimately show ?thesis
    using observe_change_drops_below [of ?c "''1''" 7 8 "''/a''" "''/a/b''"] by (simp add: subtree_prefix_def)
qed

theorem observed_times_unbounded_witness:
  "length (updated (pc_run (map (\<lambda>i. (0, PcObserve i 1)) [''1'', ''2'', ''3'']) (fresh_cache 0 1))) = 3"
  using observed_times_unbounded [of "[''1'', ''2'', ''3'']"] by simp

end
