(* ===== verification/Cache_Object.thy ===== *)
theory Cache_Object
  imports Paths
begin

text \<open>
  The data cache's vocabulary: \<open>internal/datacache/object.go\<close> (lifecycle states and objects) and the
  configuration of \<open>internal/datacache/datacache.go\<close>.

  Times are nanoseconds since the Unix epoch, which is what \<open>UnixNano\<close> reports; Go's zero time, year
  one, is the constant \<open>zero_time\<close>. Byte counts are unbounded integers: they are sums of file sizes
  on one disk. The two digests are parameters wherever they occur: \<open>md5\<close> maps a content to its hex
  digest, and \<open>cname\<close> maps a path to the name of its content file (the hex SHA-256 of the path and
  the suffix \<open>.bin\<close>).
\<close>

section \<open>Lifecycle\<close>

datatype obj_state = StateDirty | StateUploading | StateClean

definition unsent :: "obj_state \<Rightarrow> bool" where
  "unsent s \<longleftrightarrow> s = StateDirty \<or> s = StateUploading"

lemma unsent_simps [simp]: "unsent StateDirty" "unsent StateUploading" "\<not> unsent StateClean"
  by (simp_all add: unsent_def)

lemma not_unsent_iff: "\<not> unsent s \<longleftrightarrow> s = StateClean"
  by (cases s) simp_all

lemma unsent_iff: "unsent s \<longleftrightarrow> s \<noteq> StateClean"
  by (cases s) simp_all

record object =
  remote_path :: string
  obj_size :: int
  obj_hash :: string
  ostate :: obj_state
  folder_id :: string
  obj_name :: string
  upstream_file_id :: string
  stored_at :: gotime
  last_access :: gotime
  flush_attempts :: int
  last_error :: string

definition zero_time :: gotime where
  "zero_time = - 62135596800 * 10 ^ 9"

definition unix_nano :: "int \<Rightarrow> gotime" where
  "unix_nano n = (if n = 0 then zero_time else n)"

text \<open>The last element of a path, as \<open>upstream.go\<close> computes it byte by byte.\<close>

definition base_name :: "string \<Rightarrow> string" where
  "base_name p = (case last_index slash p of Some i \<Rightarrow> drop (Suc i) p | None \<Rightarrow> p)"

section \<open>Configuration\<close>

record config =
  cfg_dir :: string
  max_bytes :: int
  max_dirty_bytes :: int
  high_watermark :: rat
  low_watermark :: rat
  write_back :: bool
  flush_workers :: int
  drain_timeout :: int
  has_upstream :: bool

definition default_max_bytes :: int where "default_max_bytes = 20 * 2 ^ 30"
definition default_max_dirty_bytes :: int where "default_max_dirty_bytes = 5 * 2 ^ 30"
definition default_high_watermark :: rat where "default_high_watermark = 90 / 100"
definition default_low_watermark :: rat where "default_low_watermark = 70 / 100"
definition default_flush_workers :: int where "default_flush_workers = 2"
definition default_drain_timeout :: int where "default_drain_timeout = 2 * 60 * 10 ^ 9"

datatype config_error = NoDirectory | DirtyAboveMax int int | NoUpstream | BadDirectory

text \<open>
  \<open>withDefaults\<close>. The argument \<open>abs_path\<close> is \<open>filepath.Abs\<close>, which depends on the working directory of
  the process and may fail. The logger is not modelled.
\<close>

definition fill_defaults :: "config \<Rightarrow> config" where
  "fill_defaults c =
     (let c1 = (if max_bytes c \<le> 0 then c\<lparr>max_bytes := default_max_bytes\<rparr> else c);
          c2 = (if max_dirty_bytes c1 \<le> 0 then c1\<lparr>max_dirty_bytes := default_max_dirty_bytes\<rparr> else c1);
          c3 = (if high_watermark c2 \<le> 0 \<or> high_watermark c2 > 1
                then c2\<lparr>high_watermark := default_high_watermark\<rparr> else c2);
          c4 = (if low_watermark c3 \<le> 0 \<or> low_watermark c3 \<ge> high_watermark c3
                then c3\<lparr>low_watermark := default_low_watermark\<rparr> else c3);
          c5 = (if flush_workers c4 \<le> 0 then c4\<lparr>flush_workers := default_flush_workers\<rparr> else c4)
      in if drain_timeout c5 \<le> 0 then c5\<lparr>drain_timeout := default_drain_timeout\<rparr> else c5)"

definition with_defaults :: "(string \<Rightarrow> string option) \<Rightarrow> config \<Rightarrow> config_error + config" where
  "with_defaults abs_path c =
     (if cfg_dir c = [] then Inl NoDirectory
      else
        let d = fill_defaults c
        in if max_dirty_bytes d > max_bytes d then Inl (DirtyAboveMax (max_dirty_bytes d) (max_bytes d))
           else if write_back d \<and> \<not> has_upstream d then Inl NoUpstream
           else case abs_path (cfg_dir d) of
                  None \<Rightarrow> Inl BadDirectory
                | Some a \<Rightarrow> Inr (d\<lparr>cfg_dir := a\<rparr>))"

lemma fill_defaults_fields:
  "0 < max_bytes (fill_defaults c)" "0 < max_dirty_bytes (fill_defaults c)"
  "0 < high_watermark (fill_defaults c)" "high_watermark (fill_defaults c) \<le> 1"
  "0 < low_watermark (fill_defaults c)" "0 < flush_workers (fill_defaults c)"
  "0 < drain_timeout (fill_defaults c)"
  by (simp_all add: fill_defaults_def Let_def default_max_bytes_def default_max_dirty_bytes_def
      default_high_watermark_def default_low_watermark_def default_flush_workers_def
      default_drain_timeout_def)

lemma with_defaults_Inr:
  assumes "with_defaults abs_path c = Inr d"
  shows "0 < max_dirty_bytes d" "max_dirty_bytes d \<le> max_bytes d" "0 < high_watermark d"
    "high_watermark d \<le> 1" "0 < low_watermark d" "0 < flush_workers d" "0 < drain_timeout d"
    "write_back d \<longrightarrow> has_upstream d"
proof -
  obtain a where d: "d = (fill_defaults c)\<lparr>cfg_dir := a\<rparr>"
    and ok: "\<not> max_dirty_bytes (fill_defaults c) > max_bytes (fill_defaults c)"
      "\<not> (write_back (fill_defaults c) \<and> \<not> has_upstream (fill_defaults c))"
    using assms by (auto simp: with_defaults_def Let_def split: if_splits option.splits)
  show "0 < max_dirty_bytes d" "max_dirty_bytes d \<le> max_bytes d" "0 < high_watermark d"
    "high_watermark d \<le> 1" "0 < low_watermark d" "0 < flush_workers d" "0 < drain_timeout d"
    "write_back d \<longrightarrow> has_upstream d"
    using ok fill_defaults_fields [of c] by (simp_all add: d)
qed

section \<open>The errors the REST layer maps\<close>

datatype cache_error =
    ErrCacheFull | ErrDirty | ErrDirtyCount nat | ErrNotCached | ErrClosed
  | ErrWriteBackOff | ErrHashMismatch | ErrIO | ErrWriterClosed | ErrCtx

text \<open>The marker the job engine asks an error for, instead of importing this package.\<close>

definition cache_full :: "cache_error \<Rightarrow> bool" where
  "cache_full e \<longleftrightarrow> e = ErrCacheFull"

end
