(* ===== verification/Cache_Journal.thy ===== *)
theory Cache_Journal
  imports Cache_Object
begin

text \<open>
  \<open>internal/datacache/journal.go\<close> over a model of the one directory the gateway writes to.

  The directory has two views: what the running process sees, and what a power cut is sure to leave.
  Creating, writing, renaming and removing change the first; \<open>Sync\<close> on the directory copies it to
  the second. A file carries whether its own content has been flushed since it was last written; of
  a file that was not, a power cut may leave any content at all. The journal is its list of lines and the number of them known to be flushed. A line is
  a record (the JSON encoding of a record is one line and decodes to it) or garbage, and the file may
  end in a partial line. What is appended after a partial line joins it, and the joined line is no
  longer JSON.
\<close>

section \<open>Records\<close>

datatype journal_op = OpPut | OpState | OpDrop | OpTouch

record journal_record =
  jop :: journal_op
  jobj :: "object option"
  jpath :: string
  jstate :: "obj_state option"
  jat :: int
  jfile_id :: string
  jhash :: string
  jerr :: string
  jattempts :: int
  jof :: int

definition put_record :: "object \<Rightarrow> journal_record" where
  "put_record o1 =
     \<lparr>jop = OpPut, jobj = Some o1, jpath = [], jstate = None, jat = stored_at o1, jfile_id = [],
      jhash = [], jerr = [], jattempts = 0, jof = 0\<rparr>"

definition drop_record :: "string \<Rightarrow> gotime \<Rightarrow> journal_record" where
  "drop_record p now =
     \<lparr>jop = OpDrop, jobj = None, jpath = p, jstate = None, jat = now, jfile_id = [],
      jhash = [], jerr = [], jattempts = 0, jof = 0\<rparr>"

definition touch_record :: "string \<Rightarrow> gotime \<Rightarrow> journal_record" where
  "touch_record p now =
     \<lparr>jop = OpTouch, jobj = None, jpath = p, jstate = None, jat = now, jfile_id = [],
      jhash = [], jerr = [], jattempts = 0, jof = 0\<rparr>"

definition state_record ::
  "string \<Rightarrow> gotime \<Rightarrow> obj_state \<Rightarrow> string \<Rightarrow> string \<Rightarrow> int \<Rightarrow> gotime \<Rightarrow> journal_record" where
  "state_record p vers st fid err att now =
     \<lparr>jop = OpState, jobj = None, jpath = p, jstate = Some st, jat = now, jfile_id = fid,
      jhash = [], jerr = err, jattempts = att, jof = vers\<rparr>"

text \<open>\<open>applyRecord\<close>, branch by branch.\<close>

definition apply_state :: "journal_record \<Rightarrow> object \<Rightarrow> object" where
  "apply_state r o0 =
     (let o1 = (case jstate r of Some s \<Rightarrow> o0\<lparr>ostate := s\<rparr> | None \<Rightarrow> o0);
          o2 = (if jfile_id r \<noteq> [] then o1\<lparr>upstream_file_id := jfile_id r\<rparr> else o1);
          o3 = (if jhash r \<noteq> [] then o2\<lparr>obj_hash := jhash r\<rparr> else o2);
          o4 = o3\<lparr>last_error := jerr r\<rparr>
      in if jattempts r > 0 then o4\<lparr>flush_attempts := jattempts r\<rparr> else o4)"

definition apply_record :: "journal_record \<Rightarrow> (string, object) gomap \<Rightarrow> (string, object) gomap" where
  "apply_record r m =
     (case jop r of
        OpPut \<Rightarrow>
          (case jobj r of
             None \<Rightarrow> m
           | Some ob \<Rightarrow> if remote_path ob = [] then m else AList.update (remote_path ob) ob m)
      | OpState \<Rightarrow>
          (case lookup m (jpath r) of
             None \<Rightarrow> m
           | Some ob \<Rightarrow>
               if jof r \<noteq> 0 \<and> stored_at ob \<noteq> jof r then m
               else AList.update (jpath r) (apply_state r ob) m)
      | OpDrop \<Rightarrow> AList.delete (jpath r) m
      | OpTouch \<Rightarrow>
          (case lookup m (jpath r) of
             Some ob \<Rightarrow>
               if jat r > 0 then AList.update (jpath r) (ob\<lparr>last_access := unix_nano (jat r)\<rparr>) m else m
           | None \<Rightarrow> m))"

section \<open>The directory\<close>

datatype jline = JRec journal_record | JGarbage

record content_file =
  fcontent :: string
  fsynced :: bool

record disk =
  live :: "(string, content_file) gomap"
  durable :: "(string, content_file) gomap"
  jlines :: "jline list"
  jtail :: bool
  jflushed :: nat
  jsyncs :: nat

text \<open>What the journal file looks like to \<open>append\<close>: the outcome of the write and of the sync.\<close>

datatype jio = JOk | JNoSpace | JShortWrite | JSyncFails

definition join_line :: "disk \<Rightarrow> journal_record \<Rightarrow> jline" where
  "join_line d r = (if jtail d then JGarbage else JRec r)"

definition jnl_append :: "jio \<Rightarrow> journal_record \<Rightarrow> bool \<Rightarrow> disk \<Rightarrow> bool \<times> disk" where
  "jnl_append io r sync d =
     (case io of
        JNoSpace \<Rightarrow> (False, d)
      | JShortWrite \<Rightarrow> (False, d\<lparr>jtail := True\<rparr>)
      | _ \<Rightarrow>
          let d' = d\<lparr>jlines := jlines d @ [join_line d r], jtail := False\<rparr>
          in if \<not> sync then (True, d')
             else if io = JSyncFails then (False, d')
             else (True, d'\<lparr>jflushed := length (jlines d'), jsyncs := Suc (jsyncs d')\<rparr>))"

text \<open>
  \<open>replayJournal\<close>: whole lines are applied until the first that is not a record; it, or a partial
  line at the end, makes the journal torn, and what follows it is not read.
\<close>

fun replay_lines :: "jline list \<Rightarrow> bool \<Rightarrow> (string, object) gomap \<Rightarrow> nat \<Rightarrow>
    (string, object) gomap \<times> nat \<times> bool" where
  "replay_lines [] tail m n = (m, n, tail)"
| "replay_lines (JRec r # ls) tail m n = replay_lines ls tail (apply_record r m) (Suc n)"
| "replay_lines (JGarbage # ls) tail m n = (m, n, True)"

definition replay_journal :: "disk \<Rightarrow> (string, object) gomap \<times> nat \<times> bool" where
  "replay_journal d = replay_lines (jlines d) (jtail d) [] 0"

definition compact_after :: int where "compact_after = 20000"

text \<open>\<open>compactJournal\<close>, when every step succeeds: one put record per object, in the order given.\<close>

definition compact_journal :: "object list \<Rightarrow> disk \<Rightarrow> disk" where
  "compact_journal objs d =
     d\<lparr>jlines := map (\<lambda>ob. JRec (put_record ob)) objs, jtail := False, jflushed := length objs\<rparr>"

definition sync_dir :: "disk \<Rightarrow> disk" where
  "sync_dir d = d\<lparr>durable := live d\<rparr>"

text \<open>The operations on content files: create and write, flush, rename, remove.\<close>

definition write_file :: "string \<Rightarrow> string \<Rightarrow> disk \<Rightarrow> disk" where
  "write_file n s d = d\<lparr>live := AList.update n \<lparr>fcontent = s, fsynced = False\<rparr> (live d)\<rparr>"

definition sync_file :: "string \<Rightarrow> disk \<Rightarrow> disk" where
  "sync_file n d =
     (case lookup (live d) n of
        None \<Rightarrow> d
      | Some f \<Rightarrow> d\<lparr>live := AList.update n (f\<lparr>fsynced := True\<rparr>) (live d)\<rparr>)"

definition remove_file :: "string \<Rightarrow> disk \<Rightarrow> disk" where
  "remove_file n d = d\<lparr>live := AList.delete n (live d)\<rparr>"

definition rename_file :: "string \<Rightarrow> string \<Rightarrow> disk \<Rightarrow> disk" where
  "rename_file a b d =
     (case lookup (live d) a of
        None \<Rightarrow> d
      | Some f \<Rightarrow> d\<lparr>live := AList.update b f (AList.delete a (live d))\<rparr>)"

definition file_after_crash :: "content_file option \<Rightarrow> content_file option \<Rightarrow> bool" where
  "file_after_crash before after =
     (case before of
        None \<Rightarrow> after = None
      | Some f \<Rightarrow> (\<exists>s. after = Some \<lparr>fcontent = s, fsynced = True\<rparr> \<and> (fsynced f \<longrightarrow> s = fcontent f)))"

text \<open>
  What a power cut may leave: for every name, the entry as last flushed or as last seen; of the
  journal, any prefix of the lines that holds the flushed ones, with or without a partial line after
  it (always without one when nothing was lost and none was there).
\<close>

definition crash :: "disk \<Rightarrow> disk \<Rightarrow> bool" where
  "crash d d' \<longleftrightarrow>
     wf_map (live d') \<and> durable d' = live d'
     \<and> (\<forall>n. file_after_crash (lookup (live d) n) (lookup (live d') n)
            \<or> file_after_crash (lookup (durable d) n) (lookup (live d') n))
     \<and> (\<exists>k. min (jflushed d) (length (jlines d)) \<le> k \<and> k \<le> length (jlines d) \<and> jlines d' = take k (jlines d)
          \<and> (jtail d' \<longrightarrow> k < length (jlines d) \<or> jtail d))
     \<and> jflushed d' = length (jlines d')"

section \<open>Replay\<close>

definition records :: "jline list \<Rightarrow> journal_record list" where
  "records ls = [r. JRec r \<leftarrow> ls]"

definition intact :: "disk \<Rightarrow> bool" where
  "intact d \<longleftrightarrow> \<not> jtail d \<and> JGarbage \<notin> set (jlines d)"

abbreviation replay_records :: "journal_record list \<Rightarrow> (string, object) gomap" where
  "replay_records rs \<equiv> fold apply_record rs []"

lemma replay_lines_intact:
  "JGarbage \<notin> set ls \<Longrightarrow>
    replay_lines ls tail m n = (fold apply_record (records ls) m, n + length (records ls), tail)"
proof (induction ls arbitrary: m n)
  case Nil
  then show ?case by (simp add: records_def)
next
  case (Cons l ls)
  then show ?case by (cases l) (auto simp: records_def)
qed

lemma replay_lines_append:
  "JGarbage \<notin> set ls \<Longrightarrow>
    replay_lines (ls @ ls') tail m n = replay_lines ls' tail (fold apply_record (records ls) m) (n + length (records ls))"
proof (induction ls arbitrary: m n)
  case Nil
  then show ?case by (simp add: records_def)
next
  case (Cons l ls)
  then show ?case by (cases l) (auto simp: records_def)
qed

lemma records_append [simp]: "records (ls @ ls') = records ls @ records ls'"
  by (simp add: records_def)

lemma records_simps [simp]:
  "records [] = []" "records (JRec r # ls) = r # records ls" "records (JGarbage # ls) = records ls"
  by (simp_all add: records_def)

lemma wf_apply_record [simp]: "wf_map m \<Longrightarrow> wf_map (apply_record r m)"
  by (auto simp: apply_record_def split: journal_op.splits option.splits)

lemma wf_replay: "wf_map m \<Longrightarrow> wf_map (fold apply_record rs m)"
  by (induction rs arbitrary: m) auto

lemma apply_record_put [map_simps]:
  "apply_record (put_record ob) m =
     (if remote_path ob = [] then m else AList.update (remote_path ob) ob m)"
  by (simp add: apply_record_def put_record_def)

lemma apply_record_drop [map_simps]:
  "apply_record (drop_record p now) m = AList.delete p m"
  by (simp add: apply_record_def drop_record_def)

lemma apply_record_touch [map_simps]:
  "apply_record (touch_record p now) m =
     (case lookup m p of
        Some ob \<Rightarrow> if now > 0 then AList.update p (ob\<lparr>last_access := unix_nano now\<rparr>) m else m
      | None \<Rightarrow> m)"
  by (simp add: apply_record_def touch_record_def split: option.splits)

lemma apply_record_state [map_simps]:
  "apply_record (state_record p vers st fid err att now) m =
     (case lookup m p of
        None \<Rightarrow> m
      | Some ob \<Rightarrow>
          if vers \<noteq> 0 \<and> stored_at ob \<noteq> vers then m
          else AList.update p (apply_state (state_record p vers st fid err att now) ob) m)"
  by (auto simp: apply_record_def state_record_def split: option.splits)

lemma apply_state_fields [simp]:
  "remote_path (apply_state r ob) = remote_path ob"
  "obj_size (apply_state r ob) = obj_size ob"
  "stored_at (apply_state r ob) = stored_at ob"
  "ostate (apply_state (state_record p vers st fid err att now) ob) = st"
  "obj_hash (apply_state (state_record p vers st fid err att now) ob) = obj_hash ob"
  by (auto simp: apply_state_def state_record_def Let_def split: option.splits)

text \<open>An append that worked, on a journal without a partial line, adds exactly its record.\<close>

lemma jnl_append_ok:
  assumes "\<not> jtail d"
  shows "jnl_append JOk r sync d =
    (True, d\<lparr>jlines := jlines d @ [JRec r], jtail := False,
       jflushed := (if sync then Suc (length (jlines d)) else jflushed d),
       jsyncs := (if sync then Suc (jsyncs d) else jsyncs d)\<rparr>)"
  using assms by (simp add: jnl_append_def join_line_def)

lemma jnl_append_frame [simp]:
  "live (snd (jnl_append io r sync d)) = live d" "durable (snd (jnl_append io r sync d)) = durable d"
  by (auto simp: jnl_append_def Let_def split: jio.splits)

lemma jnl_append_intact:
  "intact d \<Longrightarrow> io \<noteq> JShortWrite \<Longrightarrow> intact (snd (jnl_append io r sync d))"
  by (auto simp: intact_def jnl_append_def join_line_def Let_def split: jio.splits)

text \<open>Compaction: replaying the rewritten journal gives back the index it was written from.\<close>

lemma replay_puts:
  "wf_map m \<Longrightarrow> distinct (map remote_path obs) \<Longrightarrow> [] \<notin> set (map remote_path obs) \<Longrightarrow>
    lookup (fold apply_record (map put_record obs) m) p =
      (case find (\<lambda>ob. remote_path ob = p) obs of Some ob \<Rightarrow> Some ob | None \<Rightarrow> lookup m p)"
proof (induction obs arbitrary: m)
  case Nil
  then show ?case by simp
next
  case (Cons ob obs)
  have "find (\<lambda>ob'. remote_path ob' = remote_path ob) obs = None"
    using Cons.prems unfolding find_None_iff by (metis distinct.simps(2) imageI list.simps(9) list.set_map)
  with Cons show ?case by (auto simp: map_simps split: option.splits)
qed

lemma records_put_lines: "records (map (\<lambda>ob. JRec (put_record ob)) obs) = map put_record obs"
  by (induction obs) auto

lemma compact_journal_intact: "intact (compact_journal obs d)"
  by (auto simp: intact_def compact_journal_def)

lemma replay_compacted:
  assumes "distinct (map remote_path obs)" and "[] \<notin> set (map remote_path obs)"
  shows "lookup (fst (replay_journal (compact_journal obs d))) p = find (\<lambda>ob. remote_path ob = p) obs"
    and "\<not> snd (snd (replay_journal (compact_journal obs d)))"
proof -
  have "replay_journal (compact_journal obs d) =
      (replay_records (map put_record obs), length obs, False)"
    using compact_journal_intact [of obs d]
    by (simp add: replay_journal_def replay_lines_intact intact_def records_put_lines)
       (simp add: compact_journal_def records_put_lines replay_lines_intact)
  then show "lookup (fst (replay_journal (compact_journal obs d))) p = find (\<lambda>ob. remote_path ob = p) obs"
    and "\<not> snd (snd (replay_journal (compact_journal obs d)))"
    using replay_puts [OF _ assms, of "[]" p] by (auto split: option.splits)
qed

end
