(* ===== verification/Data_Cache.thy ===== *)
theory Data_Cache
  imports Cache_Journal Api_Errors "HOL-Library.Char_ord" "HOL-Library.List_Lexorder"
begin

text \<open>
  The gateway of \<open>internal/datacache\<close>: \<open>store.go\<close> (reading, the durable write sequence, eviction,
  reporting), \<open>writeback.go\<close> (write-back, the flusher, refresh, remove, clear, drain) and the
  adapter of \<open>jobs.go\<close>.

  A method that takes the lock once is one function on the state. A method that releases the lock in
  the middle is split at the points where it does, each part is a definition of its own, and the
  method is their composition. What the outside decides is an argument: the clock readings, whether
  each system call worked, what the uploader answered. Logging is not modelled.
\<close>

section \<open>State\<close>

record datacache =
  dc_cfg :: config
  objs :: "(string, object) gomap"
  dc_bytes :: int
  dirty :: int
  draining :: bool
  closed :: bool
  dc_hits :: int
  dc_misses :: int
  flush_queue :: "string list"
  in_flight :: "(string, bool) gomap" \<comment> \<open>path to: its upload has been cancelled\<close>
  waiters :: "nat list"
  woken :: "nat list" \<comment> \<open>the channels that have been closed\<close>
  next_chan :: nat
  flush_ctx_done :: bool
  dc_disk :: disk

text \<open>The gateway \<open>Open\<close> builds over an empty directory.\<close>

definition empty_disk :: disk where
  "empty_disk = \<lparr>live = [], durable = [], jlines = [], jtail = False, jflushed = 0, jsyncs = 0\<rparr>"

definition empty_cache :: "config \<Rightarrow> datacache" where
  "empty_cache g =
     \<lparr>dc_cfg = g, objs = [], dc_bytes = 0, dirty = 0, draining = False, closed = False, dc_hits = 0,
      dc_misses = 0, flush_queue = [], in_flight = [], waiters = [], woken = [], next_chan = 0,
      flush_ctx_done = False, dc_disk = empty_disk\<rparr>"

definition unsent_size :: "object \<Rightarrow> int" where
  "unsent_size ob = (if unsent (ostate ob) then obj_size ob else 0)"

definition on_disk :: "(disk \<Rightarrow> disk) \<Rightarrow> datacache \<Rightarrow> datacache" where
  "on_disk f c = c\<lparr>dc_disk := f (dc_disk c)\<rparr>"

lemma on_disk_simps [simp]:
  "dc_cfg (on_disk f c) = dc_cfg c" "objs (on_disk f c) = objs c" "dc_bytes (on_disk f c) = dc_bytes c"
  "dirty (on_disk f c) = dirty c" "draining (on_disk f c) = draining c" "closed (on_disk f c) = closed c"
  "flush_queue (on_disk f c) = flush_queue c" "in_flight (on_disk f c) = in_flight c"
  "waiters (on_disk f c) = waiters c" "woken (on_disk f c) = woken c"
  "next_chan (on_disk f c) = next_chan c" "flush_ctx_done (on_disk f c) = flush_ctx_done c"
  "dc_hits (on_disk f c) = dc_hits c" "dc_misses (on_disk f c) = dc_misses c"
  "dc_disk (on_disk f c) = f (dc_disk c)"
  by (simp_all add: on_disk_def)

definition snapshot :: "datacache \<Rightarrow> object list" where
  "snapshot c = sort_key remote_path (map snd (objs c))"

definition unsent_count :: "datacache \<Rightarrow> nat" where
  "unsent_count c = length (filter (\<lambda>(p, ob). unsent (ostate ob)) (objs c))"

text \<open>An append on the gateway's journal: did it work, and the new state.\<close>

definition dc_append :: "jio \<Rightarrow> journal_record \<Rightarrow> bool \<Rightarrow> datacache \<Rightarrow> bool \<times> datacache" where
  "dc_append io r sync c =
     (let (ok, d) = jnl_append io r sync (dc_disk c) in (ok, c\<lparr>dc_disk := d\<rparr>))"

section \<open>Dropping an object\<close>

text \<open>\<open>forget\<close>: out of the index under the lock, then the content file, then the journal.\<close>

record drop_env =
  rm_ok :: bool
  drop_io :: jio
  drop_now :: gotime

definition forget_index :: "string \<Rightarrow> datacache \<Rightarrow> datacache" where
  "forget_index p c =
     (case lookup (objs c) p of
        None \<Rightarrow> c
      | Some ob \<Rightarrow>
          c\<lparr>objs := AList.delete p (objs c), dc_bytes := dc_bytes c - obj_size ob,
            dirty := (if unsent (ostate ob) then dirty c - obj_size ob else dirty c)\<rparr>)"

definition forget :: "(string \<Rightarrow> string) \<Rightarrow> drop_env \<Rightarrow> string \<Rightarrow> datacache \<Rightarrow> datacache" where
  "forget cname e p c =
     (case lookup (objs c) p of
        None \<Rightarrow> c
      | Some _ \<Rightarrow>
          let c1 = forget_index p c;
              c2 = (if rm_ok e then on_disk (remove_file (cname p)) c1 else c1)
          in snd (dc_append (drop_io e) (drop_record p (drop_now e)) True c2))"

section \<open>Reading\<close>

text \<open>
  \<open>Get\<close>. Opening the content file fails when it is missing, and also when \<open>open_ok\<close> is false, which
  stands for every other reason a system refuses to open a file. The result holds the metadata as it
  stood and the content.
\<close>

definition get_index :: "gotime \<Rightarrow> string \<Rightarrow> datacache \<Rightarrow> object option \<times> datacache" where
  "get_index now p c =
     (case lookup (objs c) p of
        None \<Rightarrow> (None, c\<lparr>dc_misses := dc_misses c + 1\<rparr>)
      | Some ob \<Rightarrow>
          let ob' = ob\<lparr>last_access := now\<rparr>
          in (Some ob', c\<lparr>objs := AList.update p ob' (objs c), dc_hits := dc_hits c + 1\<rparr>))"

definition dc_get ::
  "(string \<Rightarrow> string) \<Rightarrow> gotime \<Rightarrow> bool \<Rightarrow> drop_env \<Rightarrow> jio \<Rightarrow> string \<Rightarrow> datacache
    \<Rightarrow> (cache_error + object \<times> string) \<times> datacache" where
  "dc_get cname now open_ok e tio remote c =
     (let p = cache_normalise_path remote
      in case get_index now p c of
           (None, c1) \<Rightarrow> (Inl ErrNotCached, c1)
         | (Some ob, c1) \<Rightarrow>
             case (if open_ok then lookup (live (dc_disk c1)) (cname p) else None) of
               None \<Rightarrow>
                 let c2 = forget cname e p c1
                 in (Inl ErrNotCached, c2\<lparr>dc_hits := dc_hits c2 - 1, dc_misses := dc_misses c2 + 1\<rparr>)
             | Some f \<Rightarrow>
                 (Inr (ob, fcontent f), snd (dc_append tio (touch_record p (last_access ob)) False c1)))"

definition dc_has :: "string \<Rightarrow> datacache \<Rightarrow> bool" where
  "dc_has remote c \<longleftrightarrow> lookup (objs c) (cache_normalise_path remote) \<noteq> None"

definition state_of :: "string \<Rightarrow> datacache \<Rightarrow> obj_state option" where
  "state_of remote c = map_option ostate (lookup (objs c) (cache_normalise_path remote))"

section \<open>Writing\<close>

record dc_writer =
  w_path :: string
  w_tmp :: string
  w_buf :: string \<comment> \<open>what the temporary file holds and the hash has seen\<close>
  w_n :: int
  w_limit :: int
  w_closed :: bool

definition write_room :: "string \<Rightarrow> datacache \<Rightarrow> int" where
  "write_room p c =
     max_dirty_bytes (dc_cfg c) - dirty c
       + (case lookup (objs c) p of
            Some old \<Rightarrow> if unsent (ostate old) then obj_size old else 0
          | None \<Rightarrow> 0)"

text \<open>\<open>tmp\<close> is the name \<open>os.CreateTemp\<close> chose, or \<open>None\<close> when it failed.\<close>

definition start_writer :: "string \<Rightarrow> string option \<Rightarrow> int \<Rightarrow> datacache
    \<Rightarrow> (cache_error + dc_writer) \<times> datacache" where
  "start_writer p tmp limit c =
     (case tmp of
        None \<Rightarrow> (Inl ErrIO, c)
      | Some t \<Rightarrow>
          (Inr \<lparr>w_path = p, w_tmp = t, w_buf = [], w_n = 0, w_limit = limit, w_closed = False\<rparr>,
           on_disk (write_file t []) c))"

definition new_writer :: "string \<Rightarrow> int \<Rightarrow> bool \<Rightarrow> string option \<Rightarrow> datacache
    \<Rightarrow> (cache_error + dc_writer) \<times> datacache" where
  "new_writer p expected is_dirty tmp c =
     (if closed c \<or> (is_dirty \<and> draining c) then (Inl ErrClosed, c)
      else if is_dirty then
        let room = write_room p c
        in if room \<le> 0 \<or> (expected > 0 \<and> expected > room) then (Inl ErrCacheFull, c)
           else start_writer p tmp room c
      else start_writer p tmp 0 c)"

definition writer_abort :: "dc_writer \<Rightarrow> datacache \<Rightarrow> dc_writer \<times> datacache" where
  "writer_abort w c =
     (if w_closed w then (w, c)
      else (w\<lparr>w_closed := True\<rparr>, on_disk (remove_file (w_tmp w)) c))"

text \<open>
  \<open>Write\<close>: \<open>accepted\<close> is how many bytes the temporary file took; fewer than were offered is a failed
  write. The result is the count and the error.
\<close>

definition writer_write :: "string \<Rightarrow> nat \<Rightarrow> dc_writer \<Rightarrow> datacache
    \<Rightarrow> (nat \<times> cache_error option) \<times> dc_writer \<times> datacache" where
  "writer_write bs accepted w c =
     (if w_closed w then ((0, Some ErrWriterClosed), w, c)
      else if w_limit w > 0 \<and> w_n w + int (length bs) > w_limit w then
        let (w', c') = writer_abort w c in ((0, Some ErrCacheFull), w', c')
      else
        let taken = take accepted bs;
            n = length taken;
            w' = w\<lparr>w_buf := w_buf w @ taken, w_n := w_n w + int n\<rparr>;
            c' = on_disk (write_file (w_tmp w) (w_buf w')) c
        in ((n, if n < length bs then Some ErrIO else None), w', c'))"

text \<open>
  \<open>commit\<close>. Each step of the sequence may fail; \<open>dirsync_ok\<close> is the flush of the directory, which
  makes every entry of it durable when it works.
\<close>

record commit_env =
  tmpsync_ok :: bool
  tmpclose_ok :: bool
  rename_ok :: bool
  dirsync_ok :: bool
  put_io :: jio

definition all_ok :: commit_env where
  "all_ok = \<lparr>tmpsync_ok = True, tmpclose_ok = True, rename_ok = True, dirsync_ok = True, put_io = JOk\<rparr>"

definition index_put :: "object \<Rightarrow> datacache \<Rightarrow> datacache" where
  "index_put ob c =
     (let c1 = (case lookup (objs c) (remote_path ob) of
                  None \<Rightarrow> c
                | Some old \<Rightarrow>
                    c\<lparr>dc_bytes := dc_bytes c - obj_size old,
                      dirty := (if unsent (ostate old) then dirty c - obj_size old else dirty c)\<rparr>)
      in c1\<lparr>objs := AList.update (remote_path ob) ob (objs c1), dc_bytes := dc_bytes c1 + obj_size ob,
            dirty := (if unsent (ostate ob) then dirty c1 + obj_size ob else dirty c1)\<rparr>)"

definition commit :: "(string \<Rightarrow> string) \<Rightarrow> commit_env \<Rightarrow> object \<Rightarrow> dc_writer \<Rightarrow> datacache
    \<Rightarrow> (cache_error + object) \<times> dc_writer \<times> datacache" where
  "commit cname e ob w c0 =
     (if w_closed w then (Inl ErrWriterClosed, w, c0)
      else
        let w' = w\<lparr>w_closed := True\<rparr>;
            final = cname (remote_path ob);
            fail = (\<lambda>c. (Inl ErrIO, w', on_disk (remove_file (w_tmp w)) c))
        in if \<not> tmpsync_ok e then fail c0
           else let c1 = on_disk (sync_file (w_tmp w)) c0 in
           if \<not> tmpclose_ok e then fail c1
           else if \<not> rename_ok e then fail c1
           else let c2 = on_disk (rename_file (w_tmp w) final) c1 in
           if \<not> dirsync_ok e then (Inl ErrIO, w', on_disk (remove_file final) c2)
           else let c3 = on_disk sync_dir c2 in
           case dc_append (put_io e) (put_record ob) True c3 of
             (False, c4) \<Rightarrow> (Inl ErrIO, w', on_disk (remove_file final) c4)
           | (True, c4) \<Rightarrow> (Inr ob, w', index_put ob c4))"

section \<open>Read-through: Fill\<close>

definition fill :: "string \<Rightarrow> string option \<Rightarrow> datacache \<Rightarrow> (cache_error + dc_writer) \<times> datacache" where
  "fill remote tmp c = new_writer (cache_normalise_path remote) 0 False tmp c"

definition clean_object :: "(string \<Rightarrow> string) \<Rightarrow> gotime \<Rightarrow> dc_writer \<Rightarrow> object" where
  "clean_object md5 now w =
     \<lparr>remote_path = w_path w, obj_size = w_n w, obj_hash = md5 (w_buf w), ostate = StateClean,
      folder_id = [], obj_name = [], upstream_file_id = [], stored_at = now, last_access = now,
      flush_attempts = 0, last_error = []\<rparr>"

section \<open>Eviction\<close>

definition high_mark :: "config \<Rightarrow> int" where
  "high_mark g = \<lfloor>of_int (max_bytes g) * high_watermark g\<rfloor>"

definition low_mark :: "config \<Rightarrow> int" where
  "low_mark g = \<lfloor>of_int (max_bytes g) * low_watermark g\<rfloor>"

definition eviction_candidates :: "datacache \<Rightarrow> object list" where
  "eviction_candidates c =
     sort_key last_access (filter (\<lambda>ob. ostate ob = StateClean) (map snd (objs c)))"

fun take_doomed :: "int \<Rightarrow> int \<Rightarrow> object list \<Rightarrow> string list" where
  "take_doomed low freed [] = []"
| "take_doomed low freed (ob # obs) =
     (if freed \<le> low then [] else remote_path ob # take_doomed low (freed - obj_size ob) obs)"

text \<open>The part of \<open>evictIfNeeded\<close> under the lock: which paths to drop.\<close>

definition evict_plan :: "datacache \<Rightarrow> string list" where
  "evict_plan c =
     (if dc_bytes c \<le> high_mark (dc_cfg c) then []
      else take_doomed (low_mark (dc_cfg c)) (dc_bytes c) (eviction_candidates c))"

definition forget_all :: "(string \<Rightarrow> string) \<Rightarrow> (string \<Rightarrow> drop_env) \<Rightarrow> string list \<Rightarrow> datacache \<Rightarrow> datacache" where
  "forget_all cname env ps c = fold (\<lambda>p. forget cname (env p) p) ps c"

definition evict_if_needed :: "(string \<Rightarrow> string) \<Rightarrow> (string \<Rightarrow> drop_env) \<Rightarrow> datacache \<Rightarrow> datacache" where
  "evict_if_needed cname env c = forget_all cname env (evict_plan c) c"

definition commit_clean ::
  "(string \<Rightarrow> string) \<Rightarrow> (string \<Rightarrow> string) \<Rightarrow> gotime \<Rightarrow> commit_env \<Rightarrow> (string \<Rightarrow> drop_env) \<Rightarrow> string
    \<Rightarrow> dc_writer \<Rightarrow> datacache \<Rightarrow> (cache_error + object) \<times> dc_writer \<times> datacache" where
  "commit_clean md5 cname now e env want w c =
     (if want \<noteq> [] \<and> \<not> equal_fold (md5 (w_buf w)) want then
        let (w', c') = writer_abort w c in (Inl ErrHashMismatch, w', c')
      else
        case commit cname e (clean_object md5 now w) w c of
          (Inl err, w', c') \<Rightarrow> (Inl err, w', c')
        | (Inr ob, w', c') \<Rightarrow> (Inr ob, w', evict_if_needed cname env c'))"

section \<open>Write-back: Put and Commit\<close>

record put_request =
  pr_path :: string
  pr_folder :: string
  pr_name :: string
  pr_size :: int

definition queue_cap :: int where "queue_cap = 4096"

definition enqueue :: "string \<Rightarrow> datacache \<Rightarrow> datacache" where
  "enqueue p c =
     (if write_back (dc_cfg c) \<and> int (length (flush_queue c)) < queue_cap
      then c\<lparr>flush_queue := flush_queue c @ [p]\<rparr> else c)"

definition put :: "put_request \<Rightarrow> string option \<Rightarrow> datacache
    \<Rightarrow> (cache_error + dc_writer \<times> put_request) \<times> datacache" where
  "put req tmp c =
     (if \<not> write_back (dc_cfg c) then (Inl ErrWriteBackOff, c)
      else
        let p = cache_normalise_path (pr_path req);
            req' = req\<lparr>pr_path := p, pr_name := (if pr_name req = [] then path_base p else pr_name req)\<rparr>
        in case new_writer p (pr_size req) True tmp c of
             (Inl e, c') \<Rightarrow> (Inl e, c')
           | (Inr w, c') \<Rightarrow> (Inr (w, req'), c'))"

definition dirty_object :: "(string \<Rightarrow> string) \<Rightarrow> gotime \<Rightarrow> put_request \<Rightarrow> dc_writer \<Rightarrow> object" where
  "dirty_object md5 now req w =
     \<lparr>remote_path = pr_path req, obj_size = w_n w, obj_hash = md5 (w_buf w), ostate = StateDirty,
      folder_id = pr_folder req, obj_name = pr_name req, upstream_file_id = [], stored_at = now,
      last_access = now, flush_attempts = 0, last_error = []\<rparr>"

definition put_commit ::
  "(string \<Rightarrow> string) \<Rightarrow> (string \<Rightarrow> string) \<Rightarrow> gotime \<Rightarrow> commit_env \<Rightarrow> (string \<Rightarrow> drop_env)
    \<Rightarrow> put_request \<Rightarrow> dc_writer \<Rightarrow> datacache \<Rightarrow> (cache_error + object) \<times> dc_writer \<times> datacache" where
  "put_commit md5 cname now e env req w c =
     (case commit cname e (dirty_object md5 now req w) w c of
        (Inl err, w', c') \<Rightarrow> (Inl err, w', c')
      | (Inr ob, w', c') \<Rightarrow> (Inr ob, w', evict_if_needed cname env (enqueue (remote_path ob) c')))"

end
