(* ===== verification/Cache_Flush.thy ===== *)
theory Cache_Flush
  imports Data_Cache
begin

text \<open>
  The flusher and the user's operations of \<open>writeback.go\<close>: re-queueing, one flush in its locked
  parts, the durable state transition, waiting, refresh, remove, clear and drain; and the adapter of
  \<open>jobs.go\<close>.
\<close>

section \<open>State transitions\<close>

text \<open>
  \<open>setState\<close>. The version check is made before and after the journal append; \<open>state_index\<close> is the
  part after it, \<open>of_version\<close> the check both make.
\<close>

definition of_version :: "string \<Rightarrow> gotime \<Rightarrow> datacache \<Rightarrow> object option" where
  "of_version p vers c =
     (case lookup (objs c) p of
        None \<Rightarrow> None
      | Some ob \<Rightarrow> if stored_at ob = vers then Some ob else None)"

definition state_index ::
  "string \<Rightarrow> gotime \<Rightarrow> obj_state \<Rightarrow> string \<Rightarrow> string \<Rightarrow> int \<Rightarrow> datacache \<Rightarrow> bool \<times> datacache" where
  "state_index p vers st fid err att c =
     (case of_version p vers c of
        None \<Rightarrow> (False, c)
      | Some ob \<Rightarrow>
          let ob1 = ob\<lparr>ostate := st, last_error := err, flush_attempts := att\<rparr>;
              ob2 = (if fid \<noteq> [] then ob1\<lparr>upstream_file_id := fid\<rparr> else ob1);
              d = (if unsent (ostate ob) \<and> \<not> unsent st then dirty c - obj_size ob
                   else if \<not> unsent (ostate ob) \<and> unsent st then dirty c + obj_size ob
                   else dirty c)
          in (True, c\<lparr>objs := AList.update p ob2 (objs c), dirty := d\<rparr>))"

definition set_state ::
  "jio \<Rightarrow> gotime \<Rightarrow> string \<Rightarrow> gotime \<Rightarrow> obj_state \<Rightarrow> string \<Rightarrow> string \<Rightarrow> int \<Rightarrow> datacache
    \<Rightarrow> bool \<times> datacache" where
  "set_state io now p vers st fid err att c =
     (case of_version p vers c of
        None \<Rightarrow> (False, c)
      | Some _ \<Rightarrow>
          case dc_append io (state_record p vers st fid err att now) True c of
            (False, c1) \<Rightarrow> (False, c1)
          | (True, c1) \<Rightarrow> state_index p vers st fid err att c1)"

section \<open>Waking waiters\<close>

definition waiter_locked :: "datacache \<Rightarrow> nat \<times> datacache" where
  "waiter_locked c = (next_chan c, c\<lparr>waiters := waiters c @ [next_chan c], next_chan := Suc (next_chan c)\<rparr>)"

definition notify_waiters :: "datacache \<Rightarrow> datacache" where
  "notify_waiters c = c\<lparr>waiters := [], woken := woken c @ waiters c\<rparr>"

section \<open>The queue\<close>

definition oldest_first :: "object list \<Rightarrow> object list" where
  "oldest_first = sort_key stored_at"

definition requeue_unsent :: "datacache \<Rightarrow> datacache" where
  "requeue_unsent c =
     fold enqueue (map remote_path (oldest_first (filter (\<lambda>ob. unsent (ostate ob)) (map snd (objs c))))) c"

definition oldest_unsent :: "nat \<Rightarrow> datacache \<Rightarrow> string list" where
  "oldest_unsent n c =
     take n (map remote_path (oldest_first
       (filter (\<lambda>ob. unsent (ostate ob) \<and> lookup (in_flight c) (remote_path ob) = None) (map snd (objs c)))))"

definition unsent_objects :: "datacache \<Rightarrow> object list" where
  "unsent_objects c = oldest_first (filter (\<lambda>ob. unsent (ostate ob)) (map snd (objs c)))"

section \<open>One flush\<close>

text \<open>
  \<open>flushOne\<close> in three parts, between which other goroutines run: claiming the object and opening its
  content; the upload, which the uploader does; and recording what it answered. \<open>flush_end\<close> is the
  deferred function.
\<close>

definition flush_claim :: "string \<Rightarrow> datacache \<Rightarrow> (object \<times> datacache) option" where
  "flush_claim p c =
     (case lookup (objs c) p of
        None \<Rightarrow> None
      | Some ob \<Rightarrow>
          if \<not> unsent (ostate ob) \<or> lookup (in_flight c) p \<noteq> None \<or> closed c then None
          else Some (ob, c\<lparr>in_flight := AList.update p False (in_flight c)\<rparr>))"

definition flush_end :: "string \<Rightarrow> bool \<Rightarrow> datacache \<Rightarrow> datacache" where
  "flush_end p superseded c =
     (let c1 = c\<lparr>in_flight := AList.delete p (in_flight c)\<rparr>;
          c2 = (if superseded then enqueue p c1 else c1)
      in notify_waiters c2)"

record flush_env =
  fe_uploading :: "jio \<times> gotime"
  fe_open_ok :: bool
  fe_drop :: drop_env
  fe_result :: "jio \<times> gotime"
  fe_evict :: "string \<Rightarrow> drop_env"

text \<open>The task a worker holds while it uploads: the object as it was claimed, and its content.\<close>

definition flush_start :: "(string \<Rightarrow> string) \<Rightarrow> flush_env \<Rightarrow> string \<Rightarrow> datacache
    \<Rightarrow> (object \<times> string) option \<times> datacache" where
  "flush_start cname e p c =
     (case flush_claim p c of
        None \<Rightarrow> (None, c)
      | Some (ob, c1) \<Rightarrow>
          let c2 = snd (set_state (fst (fe_uploading e)) (snd (fe_uploading e)) p (stored_at ob)
                          StateUploading [] [] (flush_attempts ob) c1)
          in case (if fe_open_ok e then lookup (live (dc_disk c2)) (cname p) else None) of
               None \<Rightarrow> (None, flush_end p False (forget cname (fe_drop e) p c2))
             | Some f \<Rightarrow> (Some (ob, fcontent f), c2))"

datatype upload_reply =
    Uploaded string          \<comment> \<open>the hash upstream reports\<close>
  | UploadFailed go_error string \<comment> \<open>the error and its text\<close>

text \<open>What the user is told: the classifier's diagnosis, else upstream's words, else the error's text.\<close>

definition flush_reason :: "go_error \<Rightarrow> string \<Rightarrow> string" where
  "flush_reason err txt =
     (case as_api err of
        None \<Rightarrow> txt
      | Some ae \<Rightarrow>
          if diagnosis ae \<noteq> [] then diagnosis ae
          else if upstream_msg ae \<noteq> [] then upstream_msg ae else txt)"

definition mismatch_reason :: "string \<Rightarrow> string \<Rightarrow> string" where
  "mismatch_reason got want =
     ''OpenDrive stored something that hashes to '' @ got @ '' where this file hashes to '' @ want
       @ '', so it has not been accepted as uploaded''"

definition flush_finish :: "(string \<Rightarrow> string) \<Rightarrow> flush_env \<Rightarrow> object \<Rightarrow> upload_reply \<Rightarrow> datacache \<Rightarrow> datacache" where
  "flush_finish cname e ob reply c =
     (let p = remote_path ob; vers = stored_at ob;
          set = (\<lambda>st err att c. set_state (fst (fe_result e)) (snd (fe_result e)) p vers st [] err att c)
      in case reply of
           UploadFailed err txt \<Rightarrow>
             if (lookup (in_flight c) p = Some True \<or> flush_ctx_done c) \<and> \<not> flush_ctx_done c
             then flush_end p False c
             else flush_end p False (snd (set StateDirty (flush_reason err txt) (flush_attempts ob + 1) c))
         | Uploaded h \<Rightarrow>
             if h \<noteq> [] \<and> \<not> equal_fold h (obj_hash ob)
             then flush_end p False (snd (set StateDirty (mismatch_reason h (obj_hash ob)) (flush_attempts ob + 1) c))
             else case set StateClean [] (flush_attempts ob) c of
                    (False, c1) \<Rightarrow> flush_end p True c1
                  | (True, c1) \<Rightarrow> flush_end p False (evict_if_needed cname (fe_evict e) c1))"

definition flush_one ::
  "(string \<Rightarrow> string) \<Rightarrow> flush_env \<Rightarrow> (object \<Rightarrow> string \<Rightarrow> upload_reply) \<Rightarrow> string \<Rightarrow> datacache \<Rightarrow> datacache" where
  "flush_one cname e upload p c =
     (case flush_start cname e p c of
        (None, c1) \<Rightarrow> c1
      | (Some (ob, content), c1) \<Rightarrow> flush_finish cname e ob (upload ob content) c1)"

section \<open>Waiting for the flusher\<close>

definition settled :: "string \<Rightarrow> datacache \<Rightarrow> bool" where
  "settled path c =
     (if path \<noteq> [] then
        (case lookup (objs c) (cache_normalise_path path) of
           None \<Rightarrow> True
         | Some ob \<Rightarrow> \<not> unsent (ostate ob))
      else list_all (\<lambda>(p, ob). \<not> unsent (ostate ob)) (objs c))"

text \<open>
  \<open>waitUntilSent\<close>. \<open>world\<close> is what the other goroutines do until a notification or the one-second
  poll, or \<open>None\<close> when the context ends first; the loop has no bound of its own, so it is run with
  fuel, and running out of it is the outcome \<open>None\<close>.
\<close>

fun wait_until_sent_loop :: "nat \<Rightarrow> (datacache \<Rightarrow> datacache option) \<Rightarrow> string \<Rightarrow> datacache
    \<Rightarrow> (cache_error option \<times> datacache) option" where
  "wait_until_sent_loop 0 world path c = None"
| "wait_until_sent_loop (Suc n) world path c =
     (if settled path c then Some (None, c)
      else
        let c1 = snd (waiter_locked c)
        in case world c1 of
             None \<Rightarrow> Some (Some ErrCtx, c1)
           | Some c2 \<Rightarrow> wait_until_sent_loop n world path c2)"

definition all_paths :: nat where "all_paths = 2 ^ 20"

definition flush_request :: "string \<Rightarrow> datacache \<Rightarrow> cache_error option \<times> datacache" where
  "flush_request path c =
     (if \<not> write_back (dc_cfg c) then (None, c)
      else if path \<noteq> [] then
        let p = cache_normalise_path path
        in case lookup (objs c) p of
             None \<Rightarrow> (Some ErrNotCached, c)
           | Some _ \<Rightarrow> (None, enqueue p c)
      else (None, fold enqueue (oldest_unsent all_paths c) c))"

definition flush_wait :: "nat \<Rightarrow> (datacache \<Rightarrow> datacache option) \<Rightarrow> string \<Rightarrow> bool \<Rightarrow> datacache
    \<Rightarrow> (cache_error option \<times> datacache) option" where
  "flush_wait n world path wait c =
     (case flush_request path c of
        (Some e, c1) \<Rightarrow> Some (Some e, c1)
      | (None, c1) \<Rightarrow>
          if \<not> wait \<or> \<not> write_back (dc_cfg c) then Some (None, c1)
          else wait_until_sent_loop n world path c1)"

definition wait_until_sent :: "nat \<Rightarrow> (datacache \<Rightarrow> datacache option) \<Rightarrow> string \<Rightarrow> datacache
    \<Rightarrow> (cache_error option \<times> datacache) option" where
  "wait_until_sent n world remote c =
     (if \<not> write_back (dc_cfg c) then Some (None, c)
      else
        let p = cache_normalise_path remote
        in case lookup (objs c) p of
             None \<Rightarrow> Some (Some ErrNotCached, c)
           | Some _ \<Rightarrow> wait_until_sent_loop n world p (enqueue p c))"

section \<open>Refresh, Remove, Clear\<close>

definition refresh_check :: "string \<Rightarrow> datacache \<Rightarrow> cache_error option" where
  "refresh_check p c =
     (case lookup (objs c) p of
        None \<Rightarrow> Some ErrNotCached
      | Some ob \<Rightarrow> if unsent (ostate ob) then Some ErrDirty else None)"

definition refresh :: "(string \<Rightarrow> string) \<Rightarrow> drop_env \<Rightarrow> string \<Rightarrow> datacache \<Rightarrow> cache_error option \<times> datacache" where
  "refresh cname e path c =
     (let p = cache_normalise_path path
      in case refresh_check p c of
           Some err \<Rightarrow> (Some err, c)
         | None \<Rightarrow> (None, forget cname e p c))"

text \<open>One turn of the loop in \<open>Remove\<close>, up to the point where it may wait for an upload to stop.\<close>

datatype remove_turn = RemoveAbsent | RemoveDropped bool | RemoveWaits nat

definition remove_attempt :: "(string \<Rightarrow> string) \<Rightarrow> drop_env \<Rightarrow> string \<Rightarrow> datacache \<Rightarrow> remove_turn \<times> datacache" where
  "remove_attempt cname e p c =
     (case lookup (objs c) p of
        None \<Rightarrow> (RemoveAbsent, c)
      | Some ob \<Rightarrow>
          case lookup (in_flight c) p of
            None \<Rightarrow> (RemoveDropped (unsent (ostate ob)), forget cname e p c)
          | Some _ \<Rightarrow>
              let (ch, c1) = waiter_locked c
              in (RemoveWaits ch, c1\<lparr>in_flight := AList.update p True (in_flight c1)\<rparr>))"

type_synonym remove_result = "bool \<times> bool \<times> cache_error option"

fun remove_loop :: "nat \<Rightarrow> (nat \<Rightarrow> datacache \<Rightarrow> datacache option) \<Rightarrow> (string \<Rightarrow> string) \<Rightarrow> drop_env \<Rightarrow> string
    \<Rightarrow> datacache \<Rightarrow> (remove_result \<times> datacache) option" where
  "remove_loop 0 world cname e p c = None"
| "remove_loop (Suc n) world cname e p c =
     (case remove_attempt cname e p c of
        (RemoveAbsent, c1) \<Rightarrow> Some ((False, False, None), c1)
      | (RemoveDropped u, c1) \<Rightarrow> Some ((True, u, None), c1)
      | (RemoveWaits ch, c1) \<Rightarrow>
          case world ch c1 of
            None \<Rightarrow> Some ((True, True, Some ErrCtx), c1)
          | Some c2 \<Rightarrow> remove_loop n world cname e p c2)"

definition remove_object :: "nat \<Rightarrow> (nat \<Rightarrow> datacache \<Rightarrow> datacache option) \<Rightarrow> (string \<Rightarrow> string) \<Rightarrow> drop_env \<Rightarrow> string
    \<Rightarrow> datacache \<Rightarrow> (remove_result \<times> datacache) option" where
  "remove_object n world cname e remote c = remove_loop n world cname e (cache_normalise_path remote) c"

definition tree_prefix :: "string \<Rightarrow> string" where
  "tree_prefix d = (if d = [slash] then [slash] else d @ [slash])"

definition tree_paths :: "string \<Rightarrow> datacache \<Rightarrow> string list" where
  "tree_paths d c = filter (\<lambda>p. p = d \<or> prefix (tree_prefix d) p) (map fst (objs c))"

fun remove_each :: "nat \<Rightarrow> (nat \<Rightarrow> datacache \<Rightarrow> datacache option) \<Rightarrow> (string \<Rightarrow> string) \<Rightarrow> (string \<Rightarrow> drop_env)
    \<Rightarrow> string list \<Rightarrow> nat \<Rightarrow> datacache \<Rightarrow> ((nat \<times> cache_error option) \<times> datacache) option" where
  "remove_each n world cname env [] k c = Some ((k, None), c)"
| "remove_each n world cname env (p # ps) k c =
     (case remove_object n world cname (env p) p c of
        None \<Rightarrow> None
      | Some ((found, _, Some err), c1) \<Rightarrow> Some ((k, Some err), c1)
      | Some ((found, _, None), c1) \<Rightarrow> remove_each n world cname env ps (if found then Suc k else k) c1)"

definition remove_tree :: "nat \<Rightarrow> (nat \<Rightarrow> datacache \<Rightarrow> datacache option) \<Rightarrow> (string \<Rightarrow> string) \<Rightarrow> (string \<Rightarrow> drop_env)
    \<Rightarrow> string \<Rightarrow> datacache \<Rightarrow> ((nat \<times> cache_error option) \<times> datacache) option" where
  "remove_tree n world cname env dir c =
     remove_each n world cname env (tree_paths (cache_normalise_path dir) c) 0 c"

definition clear_plan :: "datacache \<Rightarrow> nat \<times> string list" where
  "clear_plan c =
     (unsent_count c, map remote_path (filter (\<lambda>ob. \<not> unsent (ostate ob)) (map snd (objs c))))"

definition clear :: "(string \<Rightarrow> string) \<Rightarrow> (string \<Rightarrow> drop_env) \<Rightarrow> datacache \<Rightarrow> cache_error option \<times> datacache" where
  "clear cname env c =
     (let (n, clean) = clear_plan c
      in if n > 0 then (Some (ErrDirtyCount n), c) else (None, forget_all cname env clean c))"

section \<open>Drain and Close\<close>

text \<open>\<open>Drain\<close>: \<open>Inl\<close> the objects it had to leave, in the order they are named in the log.\<close>

definition drain :: "nat \<Rightarrow> (datacache \<Rightarrow> datacache option) \<Rightarrow> datacache
    \<Rightarrow> ((object list + unit) \<times> datacache) option" where
  "drain n world c =
     (if \<not> write_back (dc_cfg c) then Some (Inr (), c)
      else
        let c1 = c\<lparr>draining := True\<rparr>
        in if oldest_unsent all_paths c1 = [] then Some (Inr (), c1)
           else case wait_until_sent_loop n world [] (fold enqueue (oldest_unsent all_paths c1) c1) of
                  None \<Rightarrow> None
                | Some (None, c2) \<Rightarrow> Some (Inr (), c2)
                | Some (Some _, c2) \<Rightarrow> Some (Inl (unsent_objects c2), c2))"

definition close_cache :: "datacache \<Rightarrow> datacache" where
  "close_cache c = c\<lparr>closed := True, flush_ctx_done := True\<rparr>"

section \<open>Reporting\<close>

record cache_status =
  st_write_back :: bool
  st_bytes :: int
  st_max_bytes :: int
  st_objects :: nat
  st_dirty_bytes :: int
  st_dirty_objects :: nat
  st_max_dirty_bytes :: int
  st_oldest_age :: "gotime option" \<comment> \<open>nanoseconds; \<open>None\<close> is the zero age\<close>
  st_safe :: bool
  st_hits :: int
  st_misses :: int

definition oldest_stored :: "datacache \<Rightarrow> gotime" where
  "oldest_stored c =
     fold (\<lambda>ob oldest. if unsent (ostate ob) \<and> (oldest = zero_time \<or> stored_at ob < oldest)
                       then stored_at ob else oldest) (map snd (objs c)) zero_time"

definition status :: "gotime \<Rightarrow> datacache \<Rightarrow> cache_status" where
  "status now c =
     \<lparr>st_write_back = write_back (dc_cfg c), st_bytes = dc_bytes c, st_max_bytes = max_bytes (dc_cfg c),
      st_objects = length (objs c), st_dirty_bytes = dirty c, st_dirty_objects = unsent_count c,
      st_max_dirty_bytes = max_dirty_bytes (dc_cfg c),
      st_oldest_age = (if oldest_stored c = zero_time then None else Some (now - oldest_stored c)),
      st_safe = (unsent_count c = 0), st_hits = dc_hits c, st_misses = dc_misses c\<rparr>"

definition unsent_list :: "datacache \<Rightarrow> object list" where
  "unsent_list c = sort_key remote_path (filter (\<lambda>ob. ostate ob \<noteq> StateClean) (snapshot c))"

definition objects_list :: "datacache \<Rightarrow> object list" where
  "objects_list c = rev (sort_key last_access (rev (snapshot c)))"

text \<open>\<open>ChildrenOf\<close>: what lies directly in a folder, and the names of the sub-folders of the rest.\<close>

definition under :: "string \<Rightarrow> object \<Rightarrow> string option" where
  "under pre ob = (if prefix pre (remote_path ob) then Some (drop (length pre) (remote_path ob)) else None)"

fun children_loop :: "string \<Rightarrow> object list \<Rightarrow> object list \<Rightarrow> string list \<Rightarrow> object list \<times> string list" where
  "children_loop pre [] files folders = (files, folders)"
| "children_loop pre (ob # obs) files folders =
     (case under pre ob of
        None \<Rightarrow> children_loop pre obs files folders
      | Some rest \<Rightarrow>
          case index_of slash rest of
            Some i \<Rightarrow>
              children_loop pre obs files
                (if take i rest \<in> set folders then folders else folders @ [take i rest])
          | None \<Rightarrow> children_loop pre obs (files @ [ob]) folders)"

definition children_of :: "object list \<Rightarrow> string \<Rightarrow> object list \<times> string list" where
  "children_of obs dir = children_loop (tree_prefix dir) obs [] []"

end
