(* ===== verification/Cache_Rules.thy ===== *)
theory Cache_Rules
  imports Cache_Flush
begin

text \<open>
  The accounting invariant of the gateway and the rules the package states about unsent data: what
  each operation does to the index, the two byte counters, the queue and the content files.
\<close>

named_theorems frame \<open>what an operation leaves alone\<close>

section \<open>Frame and effect of the building blocks\<close>

lemma dc_append_snd: "snd (dc_append io r sync c) = c\<lparr>dc_disk := snd (jnl_append io r sync (dc_disk c))\<rparr>"
  and dc_append_fst: "fst (dc_append io r sync c) = fst (jnl_append io r sync (dc_disk c))"
  by (simp_all add: dc_append_def split: prod.splits)

lemma dc_append_eq: "dc_append io r sync c = (ok, c') \<Longrightarrow>
    c' = c\<lparr>dc_disk := snd (jnl_append io r sync (dc_disk c))\<rparr> \<and> ok = fst (jnl_append io r sync (dc_disk c))"
  by (auto simp: dc_append_def split: prod.splits)

lemma on_disk_eq: "on_disk f c = c\<lparr>dc_disk := f (dc_disk c)\<rparr>"
  by (simp add: on_disk_def)

lemma forget_eq:
  "forget cname e p c =
     (case lookup (objs c) p of
        None \<Rightarrow> c
      | Some ob \<Rightarrow>
          c\<lparr>objs := AList.delete p (objs c), dc_bytes := dc_bytes c - obj_size ob,
            dirty := dirty c - unsent_size ob,
            dc_disk := snd (jnl_append (drop_io e) (drop_record p (drop_now e)) True
               (if rm_ok e then remove_file (cname p) (dc_disk c) else dc_disk c))\<rparr>)"
  by (auto simp: forget_def forget_index_def unsent_size_def Let_def dc_append_snd on_disk_eq
      split: option.splits)

lemma forget_frame [frame, simp]:
  "dc_cfg (forget cname e p c) = dc_cfg c" "draining (forget cname e p c) = draining c"
  "closed (forget cname e p c) = closed c" "flush_queue (forget cname e p c) = flush_queue c"
  "in_flight (forget cname e p c) = in_flight c" "waiters (forget cname e p c) = waiters c"
  "woken (forget cname e p c) = woken c" "next_chan (forget cname e p c) = next_chan c"
  "flush_ctx_done (forget cname e p c) = flush_ctx_done c"
  "dc_hits (forget cname e p c) = dc_hits c" "dc_misses (forget cname e p c) = dc_misses c"
  by (auto simp: forget_eq split: option.splits)

lemma forget_effect:
  "objs (forget cname e p c) = AList.delete p (objs c)"
  "dc_bytes (forget cname e p c) = dc_bytes c - at_key obj_size (objs c) p"
  "dirty (forget cname e p c) = dirty c - at_key unsent_size (objs c) p"
proof -
  have "lookup (objs c) p = None \<Longrightarrow> AList.delete p (objs c) = objs c"
    by (simp add: delete_id lookup_None_iff)
  then show "objs (forget cname e p c) = AList.delete p (objs c)"
    by (simp add: forget_eq split: option.splits)
qed (simp_all add: forget_eq split: option.splits)

lemma index_put_eq:
  "index_put ob c =
     c\<lparr>objs := AList.update (remote_path ob) ob (objs c),
       dc_bytes := dc_bytes c - at_key obj_size (objs c) (remote_path ob) + obj_size ob,
       dirty := dirty c - at_key unsent_size (objs c) (remote_path ob) + unsent_size ob\<rparr>"
  by (auto simp: index_put_def unsent_size_def Let_def split: option.splits)

lemma enqueue_frame [frame, simp]:
  "objs (enqueue p c) = objs c" "dc_bytes (enqueue p c) = dc_bytes c" "dirty (enqueue p c) = dirty c"
  "dc_cfg (enqueue p c) = dc_cfg c" "dc_disk (enqueue p c) = dc_disk c" "in_flight (enqueue p c) = in_flight c"
  "closed (enqueue p c) = closed c" "draining (enqueue p c) = draining c" "waiters (enqueue p c) = waiters c"
  "woken (enqueue p c) = woken c" "flush_ctx_done (enqueue p c) = flush_ctx_done c"
  by (simp_all add: enqueue_def)

lemma fold_enqueue_frame [frame, simp]:
  "objs (fold enqueue ps c) = objs c" "dc_bytes (fold enqueue ps c) = dc_bytes c"
  "dirty (fold enqueue ps c) = dirty c" "dc_cfg (fold enqueue ps c) = dc_cfg c"
  "dc_disk (fold enqueue ps c) = dc_disk c" "in_flight (fold enqueue ps c) = in_flight c"
  by (induction ps arbitrary: c) simp_all

lemma forget_all_effect:
  "lookup (objs (forget_all cname env ps c)) q = (if q \<in> set ps then None else lookup (objs c) q)"
proof (induction ps arbitrary: c)
  case Nil
  then show ?case by (simp add: forget_all_def)
next
  case (Cons p ps)
  have "lookup (objs (forget_all cname env (p # ps) c)) q =
      lookup (objs (forget_all cname env ps (forget cname (env p) p c))) q"
    by (simp add: forget_all_def)
  also have "\<dots> = (if q \<in> set (p # ps) then None else lookup (objs c) q)"
    unfolding Cons.IH by (simp add: forget_effect map_simps)
  finally show ?case .
qed

lemma forget_all_frame [frame, simp]:
  "dc_cfg (forget_all cname env ps c) = dc_cfg c" "in_flight (forget_all cname env ps c) = in_flight c"
  "closed (forget_all cname env ps c) = closed c" "draining (forget_all cname env ps c) = draining c"
  "flush_queue (forget_all cname env ps c) = flush_queue c"
  "waiters (forget_all cname env ps c) = waiters c" "woken (forget_all cname env ps c) = woken c"
  by (induction ps arbitrary: c) (simp_all add: forget_all_def)

section \<open>The accounting invariant\<close>

definition acct :: "datacache \<Rightarrow> bool" where
  "acct c \<longleftrightarrow>
     wf_map (objs c)
     \<and> (\<forall>p ob. lookup (objs c) p = Some ob \<longrightarrow> remote_path ob = p \<and> p \<noteq> [] \<and> 0 \<le> obj_size ob)
     \<and> dc_bytes c = total obj_size (objs c) \<and> dirty c = total unsent_size (objs c)"

lemma acctD:
  assumes "acct c"
  shows acct_wf: "wf_map (objs c)"
    and acct_key: "lookup (objs c) p = Some ob \<Longrightarrow> remote_path ob = p"
    and acct_path: "lookup (objs c) p = Some ob \<Longrightarrow> p \<noteq> []"
    and acct_size: "lookup (objs c) p = Some ob \<Longrightarrow> 0 \<le> obj_size ob"
    and acct_bytes: "dc_bytes c = total obj_size (objs c)"
    and acct_dirty: "dirty c = total unsent_size (objs c)"
  using assms by (auto simp: acct_def)

lemma acct_cong:
  "objs c' = objs c \<Longrightarrow> dc_bytes c' = dc_bytes c \<Longrightarrow> dirty c' = dirty c \<Longrightarrow> acct c' = acct c"
  by (simp add: acct_def)

lemma acct_disk [simp]: "acct (c\<lparr>dc_disk := d\<rparr>) = acct c" "acct (on_disk f c) = acct c"
  by (simp_all add: acct_def on_disk_eq)

lemma acct_mem:
  assumes "acct c"
  shows "(p, ob) \<in> set (objs c) \<longleftrightarrow> lookup (objs c) p = Some ob"
  using lookup_iff [OF acct_wf [OF assms]] by blast

lemma acct_snd:
  assumes "acct c"
  shows "ob \<in> set (map snd (objs c)) \<longleftrightarrow> lookup (objs c) (remote_path ob) = Some ob"
proof
  assume "ob \<in> set (map snd (objs c))"
  then obtain p where "(p, ob) \<in> set (objs c)" by auto
  then have "lookup (objs c) p = Some ob" by (simp add: acct_mem [OF assms])
  with acct_key [OF assms this] show "lookup (objs c) (remote_path ob) = Some ob" by simp
next
  assume "lookup (objs c) (remote_path ob) = Some ob"
  then have "(remote_path ob, ob) \<in> set (objs c)" by (rule lookup_mem)
  then show "ob \<in> set (map snd (objs c))" by force
qed

lemma unsent_size_bounds: "0 \<le> obj_size ob \<Longrightarrow> 0 \<le> unsent_size ob \<and> unsent_size ob \<le> obj_size ob"
  by (simp add: unsent_size_def)

lemma acct_dirty_bounds:
  assumes "acct c"
  shows "0 \<le> dirty c" and "dirty c \<le> dc_bytes c"
proof -
  have "\<And>p ob. (p, ob) \<in> set (objs c) \<Longrightarrow> 0 \<le> unsent_size ob \<and> unsent_size ob \<le> obj_size ob"
    using acct_mem [OF assms] acct_size [OF assms] unsent_size_bounds by blast
  then show "0 \<le> dirty c" and "dirty c \<le> dc_bytes c"
    unfolding acct_dirty [OF assms] acct_bytes [OF assms]
    by (auto intro: total_nonneg total_mono)
qed

lemma acct_forget: "acct c \<Longrightarrow> acct (forget cname e p c)"
  by (auto simp: acct_def forget_effect map_simps split: if_splits)

lemma acct_forget_all: "acct c \<Longrightarrow> acct (forget_all cname env ps c)"
  unfolding forget_all_def by (rule fold_invariant) (auto intro: acct_forget)

lemma acct_evict: "acct c \<Longrightarrow> acct (evict_if_needed cname env c)"
  unfolding evict_if_needed_def by (rule acct_forget_all)

lemma acct_enqueue [simp]: "acct (enqueue p c) = acct c" "acct (fold enqueue ps c) = acct c"
  by (simp_all add: acct_def)

lemma acct_index_put:
  "acct c \<Longrightarrow> remote_path ob \<noteq> [] \<Longrightarrow> 0 \<le> obj_size ob \<Longrightarrow> acct (index_put ob c)"
  by (auto simp: acct_def index_put_eq map_simps split: if_splits)

text \<open>Replacing an object by one with the same path and size moves only the unsent bytes.\<close>

lemma acct_replace:
  assumes "acct c" and "lookup (objs c) p = Some ob" and "remote_path ob' = p" and "obj_size ob' = obj_size ob"
  shows "acct (c\<lparr>objs := AList.update p ob' (objs c), dirty := dirty c - unsent_size ob + unsent_size ob'\<rparr>)"
  using assms by (auto simp: acct_def map_simps split: if_splits)

lemma acct_get: "acct c \<Longrightarrow> acct (snd (dc_get cname now open_ok e tio remote c))"
proof -
  assume a: "acct c"
  let ?p = "cache_normalise_path remote"
  show ?thesis
  proof (cases "lookup (objs c) ?p")
    case None
    with a show ?thesis by (simp add: dc_get_def get_index_def Let_def acct_def)
  next
    case (Some ob)
    let ?ob = "ob\<lparr>last_access := now\<rparr>"
    let ?c = "c\<lparr>objs := AList.update ?p ?ob (objs c), dc_hits := dc_hits c + 1\<rparr>"
    have "acct (c\<lparr>objs := AList.update ?p ?ob (objs c), dirty := dirty c - unsent_size ob + unsent_size ?ob\<rparr>)"
      using a Some acct_key [OF a Some] by (intro acct_replace) simp_all
    moreover have "unsent_size ?ob = unsent_size ob" by (simp add: unsent_size_def)
    ultimately have i: "acct ?c" by (simp add: acct_def)
    have f: "acct (c'\<lparr>dc_hits := h, dc_misses := m\<rparr>) = acct c'" for c' h m
      by (simp add: acct_def)
    show ?thesis
      using Some i acct_forget [OF i, of cname e ?p]
      by (auto simp: dc_get_def get_index_def Let_def dc_append_snd f split: option.splits)
  qed
qed

lemma state_index_eq:
  "state_index p vers st fid err att c =
     (case of_version p vers c of
        None \<Rightarrow> (False, c)
      | Some ob \<Rightarrow>
          let ob' = ob\<lparr>ostate := st, last_error := err, flush_attempts := att,
                       upstream_file_id := (if fid \<noteq> [] then fid else upstream_file_id ob)\<rparr>
          in (True, c\<lparr>objs := AList.update p ob' (objs c), dirty := dirty c - unsent_size ob + unsent_size ob'\<rparr>))"
  by (auto simp: state_index_def Let_def unsent_size_def split: option.splits)

lemma of_version_Some: "of_version p vers c = Some ob \<longleftrightarrow> lookup (objs c) p = Some ob \<and> stored_at ob = vers"
  by (auto simp: of_version_def split: option.splits)

lemma of_version_cong: "objs c' = objs c \<Longrightarrow> of_version p vers c' = of_version p vers c"
  by (simp add: of_version_def)

lemma acct_state_index:
  assumes "acct c"
  shows "acct (snd (state_index p vers st fid err att c))"
proof (cases "of_version p vers c")
  case None
  with assms show ?thesis by (simp add: state_index_eq)
next
  case (Some ob)
  then have ob: "lookup (objs c) p = Some ob" by (simp add: of_version_Some)
  show ?thesis
    using Some acct_replace [OF assms ob] acct_key [OF assms ob] by (simp add: state_index_eq Let_def)
qed

lemma acct_set_state: "acct c \<Longrightarrow> acct (snd (set_state io now p vers st fid err att c))"
  using acct_state_index
  by (fastforce simp: set_state_def dest!: dc_append_eq split: option.splits prod.splits bool.splits)

section \<open>Commit\<close>

definition commit_disk :: "(string \<Rightarrow> string) \<Rightarrow> object \<Rightarrow> dc_writer \<Rightarrow> disk \<Rightarrow> disk" where
  "commit_disk cname ob w d =
     sync_dir (rename_file (w_tmp w) (cname (remote_path ob)) (sync_file (w_tmp w) d))"

lemma commit_cases:
  assumes "commit cname e ob w c = (r, w', c')"
  obtains (closed) "w_closed w" "r = Inl ErrWriterClosed" "w' = w" "c' = c"
    | (failed) d where "\<not> w_closed w" "r = Inl ErrIO" "w' = w\<lparr>w_closed := True\<rparr>" "c' = c\<lparr>dc_disk := d\<rparr>"
    | (stored) "\<not> w_closed w" "r = Inr ob" "w' = w\<lparr>w_closed := True\<rparr>" "tmpsync_ok e" "tmpclose_ok e"
        "rename_ok e" "dirsync_ok e"
        "fst (jnl_append (put_io e) (put_record ob) True (commit_disk cname ob w (dc_disk c)))"
        "c' = index_put ob (c\<lparr>dc_disk :=
           snd (jnl_append (put_io e) (put_record ob) True (commit_disk cname ob w (dc_disk c)))\<rparr>)"
proof (cases "w_closed w")
  case True
  with assms show thesis by (auto simp: commit_def intro: closed)
next
  case False
  show thesis
  proof (cases "tmpsync_ok e \<and> tmpclose_ok e \<and> rename_ok e \<and> dirsync_ok e
        \<and> fst (jnl_append (put_io e) (put_record ob) True (commit_disk cname ob w (dc_disk c)))")
    case True
    with False assms show thesis
      by (intro stored)
         (auto simp: commit_def Let_def on_disk_eq commit_disk_def dc_append_def split: prod.splits bool.splits)
  next
    case no: False
    with False assms have "r = Inl ErrIO \<and> w' = w\<lparr>w_closed := True\<rparr> \<and> (\<exists>d. c' = c\<lparr>dc_disk := d\<rparr>)"
      by (auto simp: commit_def Let_def on_disk_eq commit_disk_def dc_append_def
          split: prod.splits bool.splits if_splits)
    with False show thesis by (auto intro: failed)
  qed
qed

lemma commit_error_keeps_index:
  "commit cname e ob w c = (Inl err, w', c') \<Longrightarrow>
    objs c' = objs c \<and> dc_bytes c' = dc_bytes c \<and> dirty c' = dirty c"
  by (erule commit_cases) auto

lemma acct_commit:
  assumes "acct c" and "remote_path ob \<noteq> []" and "0 \<le> obj_size ob"
    and "commit cname e ob w c = (r, w', c')"
  shows "acct c'"
  using assms(4)
proof (cases rule: commit_cases)
  case stored
  then show ?thesis using assms(1-3) by (auto intro: acct_index_put)
qed (use assms in auto)

definition writer_ok :: "dc_writer \<Rightarrow> bool" where
  "writer_ok w \<longleftrightarrow> w_n w = int (length (w_buf w)) \<and> (w_limit w > 0 \<longrightarrow> w_n w \<le> w_limit w) \<and> w_path w \<noteq> []"

lemma cache_normalise_nonempty: "cache_normalise_path p \<noteq> []"
  by (auto simp: cache_normalise_path_def Let_def)

lemma new_writer_ok:
  "new_writer p expected is_dirty tmp c = (Inr w, c') \<Longrightarrow> p \<noteq> [] \<Longrightarrow> writer_ok w"
  by (auto simp: new_writer_def start_writer_def writer_ok_def Let_def split: if_splits option.splits)

lemma writer_write_ok:
  "writer_ok w \<Longrightarrow> writer_write bs k w c = (res, w', c') \<Longrightarrow> writer_ok w'"
  by (auto simp: writer_ok_def writer_write_def writer_abort_def Let_def split: if_splits)

lemma writer_abort_ok: "writer_ok w \<Longrightarrow> writer_ok (fst (writer_abort w c))"
  by (auto simp: writer_ok_def writer_abort_def)

lemma acct_new_writer: "acct c \<Longrightarrow> acct (snd (new_writer p expected is_dirty tmp c))"
  by (simp add: new_writer_def start_writer_def Let_def split: option.splits)

lemma acct_writer_write: "acct c \<Longrightarrow> acct (snd (snd (writer_write bs k w c)))"
  by (simp add: writer_write_def writer_abort_def Let_def)

lemma acct_writer_abort: "acct c \<Longrightarrow> acct (snd (writer_abort w c))"
  by (simp add: writer_abort_def)

lemma clean_object_fields [simp]:
  "remote_path (clean_object md5 now w) = w_path w" "obj_size (clean_object md5 now w) = w_n w"
  "ostate (clean_object md5 now w) = StateClean" "stored_at (clean_object md5 now w) = now"
  "obj_hash (clean_object md5 now w) = md5 (w_buf w)" "unsent_size (clean_object md5 now w) = 0"
  by (simp_all add: clean_object_def unsent_size_def)

lemma dirty_object_fields [simp]:
  "remote_path (dirty_object md5 now req w) = pr_path req" "obj_size (dirty_object md5 now req w) = w_n w"
  "ostate (dirty_object md5 now req w) = StateDirty" "stored_at (dirty_object md5 now req w) = now"
  "obj_hash (dirty_object md5 now req w) = md5 (w_buf w)" "unsent_size (dirty_object md5 now req w) = w_n w"
  by (simp_all add: dirty_object_def unsent_size_def)

lemma acct_commit_clean:
  assumes "acct c" and "writer_ok w"
  shows "acct (snd (snd (commit_clean md5 cname now e env want w c)))"
proof (cases "want \<noteq> [] \<and> \<not> equal_fold (md5 (w_buf w)) want")
  case True
  then show ?thesis using acct_writer_abort [OF assms(1), of w] by (simp add: commit_clean_def split: prod.splits)
next
  case False
  obtain r w' c' where r: "commit cname e (clean_object md5 now w) w c = (r, w', c')" by (metis prod_cases3)
  have "acct c'"
    by (rule acct_commit [OF assms(1) _ _ r]) (use assms(2) in \<open>auto simp: writer_ok_def\<close>)
  with False r show ?thesis by (auto simp: commit_clean_def acct_evict split: sum.splits)
qed

lemma acct_put_commit:
  assumes "acct c" and "writer_ok w" and "pr_path req \<noteq> []"
  shows "acct (snd (snd (put_commit md5 cname now e env req w c)))"
proof -
  obtain r w' c' where r: "commit cname e (dirty_object md5 now req w) w c = (r, w', c')" by (metis prod_cases3)
  have "acct c'"
    by (rule acct_commit [OF assms(1) _ _ r]) (use assms in \<open>auto simp: writer_ok_def\<close>)
  with r show ?thesis by (auto simp: put_commit_def acct_evict split: sum.splits)
qed

end
