(* ===== verification/Cache_Eviction.thy ===== *)
theory Cache_Eviction
  imports Cache_Rules
begin

text \<open>
  Eviction (\<open>evictIfNeeded\<close>), refresh and clear: rule 1, that unsent data is never dropped to make room,
  and what eviction achieves. The last section is what the gap between choosing what to drop and
  dropping it allows.
\<close>

section \<open>Which objects are chosen\<close>

lemma sum_list_map_zero: "(\<And>x. x \<in> set xs \<Longrightarrow> f x = (0 :: int)) \<Longrightarrow> sum_list (map f xs) = 0"
  by (induction xs) simp_all

definition size_of :: "object list \<Rightarrow> int" where
  "size_of obs = sum_list (map obj_size obs)"

lemma size_of_simps [simp]: "size_of [] = 0" "size_of (ob # obs) = obj_size ob + size_of obs"
  by (simp_all add: size_of_def)

lemma take_doomed_prefix:
  "\<exists>k \<le> length obs. take_doomed low freed obs = map remote_path (take k obs)
     \<and> (k = length obs \<or> freed - size_of (take k obs) \<le> low)
     \<and> (\<forall>j < k. low < freed - size_of (take j obs))"
proof (induction obs arbitrary: freed)
  case Nil
  then show ?case by simp
next
  case (Cons ob obs)
  show ?case
  proof (cases "freed \<le> low")
    case True
    then show ?thesis by (intro exI [of _ 0]) simp
  next
    case False
    from Cons.IH [of "freed - obj_size ob"] obtain k where k: "k \<le> length obs"
      "take_doomed low (freed - obj_size ob) obs = map remote_path (take k obs)"
      "k = length obs \<or> freed - obj_size ob - size_of (take k obs) \<le> low"
      "\<forall>j < k. low < freed - obj_size ob - size_of (take j obs)"
      by blast
    have "low < freed - size_of (take j (ob # obs))" if "j < Suc k" for j
      using k(4) that False by (cases j) (auto simp: algebra_simps)
    with k False show ?thesis by (intro exI [of _ "Suc k"]) (auto simp: algebra_simps)
  qed
qed

lemma candidates_mem:
  assumes "acct c"
  shows "ob \<in> set (eviction_candidates c) \<longleftrightarrow>
     lookup (objs c) (remote_path ob) = Some ob \<and> ostate ob = StateClean"
  using acct_snd [OF assms, of ob] by (auto simp: eviction_candidates_def)

lemma distinct_paths:
  assumes "acct c"
  shows "distinct (map remote_path (map snd (objs c)))"
proof -
  have "remote_path v = k" if "(k, v) \<in> set (objs c)" for k v
    using that acct_mem [OF assms] acct_key [OF assms] by blast
  then have "map (remote_path \<circ> snd) (objs c) = map fst (objs c)"
    by (intro map_cong) auto
  then show ?thesis using acct_wf [OF assms] by (simp only: map_map)
qed

lemma distinct_candidates:
  assumes "acct c"
  shows "distinct (map remote_path (eviction_candidates c))"
proof -
  have "distinct (map remote_path (filter P (map snd (objs c))))" for P
    using distinct_paths [OF assms] by (rule distinct_map_filter)
  then show ?thesis
    unfolding eviction_candidates_def distinct_map by simp
qed

lemma doomed_clean:
  assumes "acct c" and "p \<in> set (evict_plan c)"
  obtains ob where "lookup (objs c) p = Some ob" and "ostate ob = StateClean"
proof -
  obtain k where "take_doomed (low_mark (dc_cfg c)) (dc_bytes c) (eviction_candidates c)
      = map remote_path (take k (eviction_candidates c))"
    using take_doomed_prefix by blast
  with assms(2) have "p \<in> remote_path ` set (take k (eviction_candidates c))"
    by (simp add: evict_plan_def split: if_splits)
  then obtain ob where "ob \<in> set (eviction_candidates c)" "remote_path ob = p"
    by (metis imageE in_set_takeD)
  with candidates_mem [OF assms(1)] that show thesis by blast
qed

lemma forget_all_bytes:
  assumes "acct c" and "distinct ps"
  shows "dc_bytes (forget_all cname env ps c) = dc_bytes c - sum_list (map (at_key obj_size (objs c)) ps)"
    and "dirty (forget_all cname env ps c) = dirty c - sum_list (map (at_key unsent_size (objs c)) ps)"
proof -
  have "dc_bytes (forget_all cname env ps c) = dc_bytes c - sum_list (map (at_key obj_size (objs c)) ps)
    \<and> dirty (forget_all cname env ps c) = dirty c - sum_list (map (at_key unsent_size (objs c)) ps)"
    using assms
  proof (induction ps arbitrary: c)
    case Nil
    then show ?case by (simp add: forget_all_def)
  next
    case (Cons p ps)
    let ?c = "forget cname (env p) p c"
    have "at_key f (objs ?c) q = at_key f (objs c) q" if "q \<in> set ps" for f :: "object \<Rightarrow> int" and q
      using that Cons.prems(2) by (auto simp: forget_effect at_key_def map_simps)
    then have "map (at_key obj_size (objs ?c)) ps = map (at_key obj_size (objs c)) ps"
      "map (at_key unsent_size (objs ?c)) ps = map (at_key unsent_size (objs c)) ps"
      by auto
    moreover have "forget_all cname env (p # ps) c = forget_all cname env ps ?c"
      by (simp add: forget_all_def)
    moreover have "acct ?c" using Cons.prems(1) by (rule acct_forget)
    ultimately show ?case
      using Cons.IH [of ?c] Cons.prems(2) forget_effect(2,3) [of cname "env p" p c]
      by (simp only: list.map sum_list.Cons distinct.simps) linarith
  qed
  then show "dc_bytes (forget_all cname env ps c) = dc_bytes c - sum_list (map (at_key obj_size (objs c)) ps)"
    and "dirty (forget_all cname env ps c) = dirty c - sum_list (map (at_key unsent_size (objs c)) ps)"
    by simp_all
qed

lemma live_forget:
  "lookup (live (dc_disk (forget cname e p c))) n =
     (if lookup (objs c) p \<noteq> None \<and> rm_ok e \<and> n = cname p then None else lookup (live (dc_disk c)) n)"
  by (auto simp: forget_eq remove_file_def map_simps split: option.splits)

lemma live_forget_all:
  "n \<notin> cname ` set ps \<Longrightarrow>
    lookup (live (dc_disk (forget_all cname env ps c))) n = lookup (live (dc_disk c)) n"
  by (induction ps arbitrary: c) (auto simp: forget_all_def live_forget)

section \<open>What eviction does\<close>

lemma evict_plan_take:
  assumes "dc_bytes c > high_mark (dc_cfg c)"
  obtains k where "k \<le> length (eviction_candidates c)"
    "evict_plan c = map remote_path (take k (eviction_candidates c))"
    "k = length (eviction_candidates c) \<or> dc_bytes c - size_of (take k (eviction_candidates c)) \<le> low_mark (dc_cfg c)"
    "\<forall>j < k. low_mark (dc_cfg c) < dc_bytes c - size_of (take j (eviction_candidates c))"
  using take_doomed_prefix [of "eviction_candidates c" "low_mark (dc_cfg c)" "dc_bytes c"] assms that
  by (auto simp: evict_plan_def)

lemma size_of_take:
  assumes "acct c"
  shows "sum_list (map (at_key obj_size (objs c)) (map remote_path (take k (eviction_candidates c))))
    = size_of (take k (eviction_candidates c))"
proof -
  have "at_key obj_size (objs c) (remote_path ob) = obj_size ob" if "ob \<in> set (take k (eviction_candidates c))" for ob
    using candidates_mem [OF assms, of ob] in_set_takeD [OF that] by simp
  then show ?thesis
    unfolding size_of_def map_map by (intro arg_cong [where f = sum_list] map_cong) auto
qed

lemma distinct_plan:
  assumes "acct c"
  shows "distinct (evict_plan c)"
proof (cases "dc_bytes c > high_mark (dc_cfg c)")
  case True
  then obtain k where "evict_plan c = map remote_path (take k (eviction_candidates c))"
    by (rule evict_plan_take)
  then show ?thesis using distinct_candidates [OF assms] by (metis distinct_take take_map)
qed (simp add: evict_plan_def)

lemma evict_keeps:
  assumes "acct c" and "lookup (objs c) p = Some ob" and "ostate ob \<noteq> StateClean"
  shows "p \<notin> set (evict_plan c)"
  using doomed_clean [OF assms(1)] assms(2,3) by (metis option.inject)

lemma evict_dirty:
  assumes "acct c"
  shows "dirty (evict_if_needed cname env c) = dirty c"
proof -
  have "at_key unsent_size (objs c) p = 0" if p: "p \<in> set (evict_plan c)" for p
  proof -
    obtain ob where "lookup (objs c) p = Some ob" "ostate ob = StateClean"
      using doomed_clean [OF assms p] .
    then show ?thesis by (simp add: unsent_size_def)
  qed
  then have "sum_list (map (at_key unsent_size (objs c)) (evict_plan c)) = 0"
    by (simp add: sum_list_map_zero)
  then show ?thesis
    unfolding evict_if_needed_def
    using forget_all_bytes(2) [OF assms distinct_plan [OF assms]] by simp
qed

definition keep_cname :: "string \<Rightarrow> string" where
  "keep_cname p = p @ ''.bin''"

lemma inj_keep_cname: "inj keep_cname"
  by (auto simp: inj_def keep_cname_def)

text \<open>Rule 1: eviction never drops an object OpenDrive does not have. Whatever is unsent when
  \<open>evictIfNeeded\<close> runs is in the index afterwards, with the same metadata, the same content file and the
  same count of unsent bytes, however far over its target the cache is.\<close>
theorem evict_spares_unsent:
  assumes "acct c" and "inj cname" and "lookup (objs c) p = Some ob" and "unsent (ostate ob)"
  shows "lookup (objs (evict_if_needed cname env c)) p = Some ob
    \<and> dirty (evict_if_needed cname env c) = dirty c
    \<and> lookup (live (dc_disk (evict_if_needed cname env c))) (cname p) = lookup (live (dc_disk c)) (cname p)"
proof -
  have p: "p \<notin> set (evict_plan c)"
    using evict_keeps [OF assms(1,3)] assms(4) unsent_iff by blast
  then have "cname p \<notin> cname ` set (evict_plan c)"
    using assms(2) by (auto simp: inj_def)
  with p show ?thesis
    using evict_dirty [OF assms(1)] assms(3)
    by (simp add: evict_if_needed_def forget_all_effect live_forget_all)
qed

text \<open>What eviction achieves. When the cache is over its high watermark, afterwards it is at or below
  the low one or holds nothing but unsent objects; what was dropped was accessed no later than any clean
  object that was kept; and not more was dropped than needed: giving back the last one dropped would put
  the cache over the low watermark again.\<close>
theorem evict_meets_target:
  assumes "acct c" and "high_mark (dc_cfg c) < dc_bytes c" and "c' = evict_if_needed cname env c"
  shows "(dc_bytes c' \<le> low_mark (dc_cfg c) \<or> (\<forall>(p, ob) \<in> set (objs c'). unsent (ostate ob)))
    \<and> (\<forall>(p, ob) \<in> set (objs c). \<forall>(q, kept) \<in> set (objs c').
         lookup (objs c') p = None \<longrightarrow> ostate kept = StateClean \<longrightarrow> last_access ob \<le> last_access kept)
    \<and> (evict_plan c \<noteq> [] \<longrightarrow>
         (\<exists>ob. lookup (objs c) (last (evict_plan c)) = Some ob \<and> low_mark (dc_cfg c) < dc_bytes c' + obj_size ob))"
proof -
  let ?cs = "eviction_candidates c"
  obtain k where k: "k \<le> length ?cs" "evict_plan c = map remote_path (take k ?cs)"
    "k = length ?cs \<or> dc_bytes c - size_of (take k ?cs) \<le> low_mark (dc_cfg c)"
    "\<forall>j < k. low_mark (dc_cfg c) < dc_bytes c - size_of (take j ?cs)"
    using evict_plan_take [OF assms(2)] .
  have bytes: "dc_bytes c' = dc_bytes c - size_of (take k ?cs)"
    unfolding assms(3) evict_if_needed_def forget_all_bytes(1) [OF assms(1) distinct_plan [OF assms(1)]]
    using size_of_take [OF assms(1)] by (simp add: k(2))
  have acct': "acct c'" unfolding assms(3) by (rule acct_evict [OF assms(1)])
  have left: "lookup (objs c') q = (if q \<in> remote_path ` set (take k ?cs) then None else lookup (objs c) q)" for q
    by (simp add: assms(3) evict_if_needed_def forget_all_effect k(2))
  have clean_left: "ob \<in> set (drop k ?cs)" if m: "(q, ob) \<in> set (objs c')" "ostate ob = StateClean" for q ob
  proof -
    have l: "lookup (objs c') q = Some ob" using m acct_mem [OF acct'] by blast
    then have "lookup (objs c) q = Some ob" and nin: "q \<notin> remote_path ` set (take k ?cs)"
      by (auto simp: left split: if_splits)
    moreover from this have "remote_path ob = q" using acct_key [OF assms(1)] by blast
    ultimately have "ob \<in> set ?cs" and "ob \<notin> set (take k ?cs)"
      using candidates_mem [OF assms(1), of ob] m(2) by auto
    then show ?thesis by (metis UnE append_take_drop_id set_append)
  qed
  have sorted: "last_access a \<le> last_access b" if "a \<in> set (take k ?cs)" "b \<in> set (drop k ?cs)" for a b
  proof -
    have "sorted (map last_access (take k ?cs @ drop k ?cs))"
      by (simp add: eviction_candidates_def)
    with that show ?thesis unfolding map_append sorted_append by auto
  qed
  have first: "dc_bytes c' \<le> low_mark (dc_cfg c) \<or> (\<forall>(p, ob) \<in> set (objs c'). unsent (ostate ob))"
  proof (cases "k = length ?cs")
    case True
    then have "ostate ob \<noteq> StateClean" if "(q, ob) \<in> set (objs c')" for q ob
      using clean_left [OF that] by auto
    then show ?thesis by (auto simp: unsent_iff)
  next
    case False
    with k(3) bytes show ?thesis by simp
  qed
  have second: "last_access ob \<le> last_access kept"
    if "(p, ob) \<in> set (objs c)" "(q, kept) \<in> set (objs c')" "lookup (objs c') p = None" "ostate kept = StateClean"
    for p ob q kept
  proof -
    have l: "lookup (objs c) p = Some ob" using that(1) acct_mem [OF assms(1)] by blast
    with that(3) have "p \<in> remote_path ` set (take k ?cs)"
      unfolding left by (metis option.distinct(1))
    then obtain a where a: "a \<in> set (take k ?cs)" "remote_path a = p" by blast
    then have "lookup (objs c) p = Some a"
      using candidates_mem [OF assms(1), of a] in_set_takeD [OF a(1)] by simp
    with l a(1) have "ob \<in> set (take k ?cs)" by simp
    then show ?thesis using sorted clean_left [OF that(2,4)] by blast
  qed
  have third: "\<exists>ob. lookup (objs c) (last (evict_plan c)) = Some ob \<and> low_mark (dc_cfg c) < dc_bytes c' + obj_size ob"
    if ne: "evict_plan c \<noteq> []"
  proof -
    from ne k(1,2) obtain j where j: "k = Suc j" "j < length ?cs" by (cases k) auto
    have t: "take k ?cs = take j ?cs @ [?cs ! j]" using j by (simp add: take_Suc_conv_app_nth)
    have "?cs ! j \<in> set ?cs" using j(2) by simp
    then have "lookup (objs c) (last (evict_plan c)) = Some (?cs ! j)"
      using candidates_mem [OF assms(1)] by (simp add: k(2) t)
    moreover have "low_mark (dc_cfg c) < dc_bytes c' + obj_size (?cs ! j)"
    proof -
      have "size_of (take k ?cs) = size_of (take j ?cs) + obj_size (?cs ! j)"
        unfolding t by (simp add: size_of_def)
      then show ?thesis using k(4) j(1) by (simp add: bytes)
    qed
    ultimately show ?thesis by blast
  qed
  show ?thesis using first second third by (auto simp del: split_paired_All split_paired_Ex)
qed

section \<open>A full cache\<close>

text \<open>A cache of ten bytes holding one unsent and two clean objects, one byte over its target.\<close>

definition small_config :: config where
  "small_config =
     \<lparr>cfg_dir = ''/c'', max_bytes = 10, max_dirty_bytes = 5, high_watermark = 9 / 10, low_watermark = 7 / 10,
      write_back = True, flush_workers = 2, drain_timeout = 1, has_upstream = True\<rparr>"

definition small_object :: "string \<Rightarrow> int \<Rightarrow> obj_state \<Rightarrow> gotime \<Rightarrow> object" where
  "small_object p n st t =
     \<lparr>remote_path = p, obj_size = n, obj_hash = ''h'', ostate = st, folder_id = [], obj_name = [],
      upstream_file_id = [], stored_at = t, last_access = t, flush_attempts = 0, last_error = []\<rparr>"

definition full_cache :: datacache where
  "full_cache =
     (empty_cache small_config)\<lparr>objs := [(''/a'', small_object ''/a'' 4 StateDirty 1),
        (''/b'', small_object ''/b'' 4 StateClean 2), (''/c'', small_object ''/c'' 3 StateClean 3)],
      dc_bytes := 11, dirty := 4\<rparr>"

definition drop_ok :: "string \<Rightarrow> drop_env" where
  "drop_ok p = \<lparr>rm_ok = True, drop_io = JOk, drop_now = 9\<rparr>"

lemma acct_full_cache: "acct full_cache"
  by (auto simp: acct_def full_cache_def empty_cache_def small_object_def unsent_size_def split: if_splits)

lemma evict_spares_unsent_witness:
  "lookup (objs (evict_if_needed keep_cname drop_ok full_cache)) ''/a'' = Some (small_object ''/a'' 4 StateDirty 1)"
proof -
  have "lookup (objs full_cache) ''/a'' = Some (small_object ''/a'' 4 StateDirty 1)"
    and "unsent (ostate (small_object ''/a'' 4 StateDirty 1))"
    by (simp_all add: full_cache_def small_object_def)
  from evict_spares_unsent [OF acct_full_cache inj_keep_cname this] show ?thesis by blast
qed

lemma evict_meets_target_witness:
  "evict_plan full_cache = [''/b'']
    \<and> (dc_bytes (evict_if_needed keep_cname drop_ok full_cache) \<le> low_mark small_config
       \<or> (\<forall>(p, ob) \<in> set (objs (evict_if_needed keep_cname drop_ok full_cache)). unsent (ostate ob)))"
proof -
  have "high_mark (dc_cfg full_cache) < dc_bytes full_cache"
    by (simp add: full_cache_def empty_cache_def small_config_def high_mark_def)
  moreover have "evict_plan full_cache = [''/b'']"
    by code_simp
  moreover have "dc_cfg full_cache = small_config" by (simp add: full_cache_def empty_cache_def)
  ultimately show ?thesis
    using evict_meets_target [OF acct_full_cache _ refl, of keep_cname drop_ok] by metis
qed

section \<open>Refresh and Clear\<close>

lemma unsent_count_zero:
  assumes "acct c"
  shows "unsent_count c = 0 \<longleftrightarrow> (\<forall>p ob. lookup (objs c) p = Some ob \<longrightarrow> \<not> unsent (ostate ob))"
proof -
  have "unsent_count c = 0 \<longleftrightarrow> (\<forall>p ob. (p, ob) \<in> set (objs c) \<longrightarrow> \<not> unsent (ostate ob))"
    by (auto simp: unsent_count_def filter_empty_conv)
  then show ?thesis unfolding acct_mem [OF assms] .
qed

text \<open>Refresh and Clear refuse to throw away unsent data: Refresh of an unsent object and Clear of a
  cache that holds one are refused and change nothing; Clear of a cache that holds none empties it, with
  both byte counts at zero.\<close>
theorem refresh_and_clear_refuse_unsent:
  assumes "acct c"
  shows "(case lookup (objs c) (cache_normalise_path path) of
            None \<Rightarrow> refresh cname e path c = (Some ErrNotCached, c)
          | Some ob \<Rightarrow>
              if unsent (ostate ob) then refresh cname e path c = (Some ErrDirty, c)
              else fst (refresh cname e path c) = None
                \<and> lookup (objs (snd (refresh cname e path c))) (cache_normalise_path path) = None)
    \<and> (if unsent_count c > 0 then clear cname env c = (Some (ErrDirtyCount (unsent_count c)), c)
       else fst (clear cname env c) = None \<and> objs (snd (clear cname env c)) = []
         \<and> dc_bytes (snd (clear cname env c)) = 0 \<and> dirty (snd (clear cname env c)) = 0)"
proof (intro conjI)
  show "case lookup (objs c) (cache_normalise_path path) of
            None \<Rightarrow> refresh cname e path c = (Some ErrNotCached, c)
          | Some ob \<Rightarrow>
              if unsent (ostate ob) then refresh cname e path c = (Some ErrDirty, c)
              else fst (refresh cname e path c) = None
                \<and> lookup (objs (snd (refresh cname e path c))) (cache_normalise_path path) = None"
    by (simp add: refresh_def refresh_check_def Let_def forget_effect map_simps split: option.splits)
  show "if unsent_count c > 0 then clear cname env c = (Some (ErrDirtyCount (unsent_count c)), c)
       else fst (clear cname env c) = None \<and> objs (snd (clear cname env c)) = []
         \<and> dc_bytes (snd (clear cname env c)) = 0 \<and> dirty (snd (clear cname env c)) = 0"
  proof (cases "unsent_count c = 0")
    case False
    then show ?thesis by (simp add: clear_def clear_plan_def)
  next
    case True
    let ?ps = "map remote_path (filter (\<lambda>ob. \<not> unsent (ostate ob)) (map snd (objs c)))"
    let ?c = "forget_all cname env ?ps c"
    have "lookup (objs ?c) p = None" for p
    proof (cases "lookup (objs c) p")
      case (Some ob)
      then have k: "remote_path ob = p" and "\<not> unsent (ostate ob)"
        using acct_key [OF assms] unsent_count_zero [OF assms] True by auto
      moreover have "ob \<in> set (map snd (objs c))"
        using acct_snd [OF assms, of ob] Some k by simp
      ultimately have "p \<in> set ?ps" by auto
      then show ?thesis by (simp only: forget_all_effect) simp
    qed (simp add: forget_all_effect)
    then have e: "objs ?c = []" by (metis map_of_eq_empty_iff ext)
    have "acct ?c" by (rule acct_forget_all [OF assms])
    with e have "dc_bytes ?c = 0" "dirty ?c = 0" by (simp_all add: acct_def)
    with e True show ?thesis by (simp add: clear_def clear_plan_def)
  qed
qed

lemma refresh_and_clear_refuse_unsent_witness:
  "clear keep_cname drop_ok full_cache = (Some (ErrDirtyCount 1), full_cache)"
proof -
  have "unsent_count full_cache = 1" by code_simp
  then show ?thesis
    using refresh_and_clear_refuse_unsent [OF acct_full_cache, where cname = keep_cname and env = drop_ok] by simp
qed

text \<open>The status report is true: the cache is reported safe to shut down exactly when no object is
  unsent, the unsent bytes are the sum of the sizes of the unsent objects and are zero when it is safe, and
  they never exceed the total.\<close>
theorem status_is_truthful:
  assumes "acct c"
  shows "(st_safe (status now c) \<longleftrightarrow> (\<forall>(p, ob) \<in> set (objs c). ostate ob = StateClean))
    \<and> st_dirty_bytes (status now c) = sum_list [obj_size ob. (p, ob) \<leftarrow> objs c, unsent (ostate ob)]
    \<and> (st_safe (status now c) \<longrightarrow> st_dirty_bytes (status now c) = 0)
    \<and> 0 \<le> st_dirty_bytes (status now c) \<and> st_dirty_bytes (status now c) \<le> st_bytes (status now c)"
proof -
  have safe: "st_safe (status now c) \<longleftrightarrow> (\<forall>(p, ob) \<in> set (objs c). ostate ob = StateClean)"
    by (auto simp: status_def unsent_count_def filter_empty_conv unsent_iff split: prod.splits)
  have sum: "total unsent_size m = sum_list [obj_size ob. (p, ob) \<leftarrow> m, unsent (ostate ob)]"
    for m :: "(string, object) gomap"
    by (induction m) (auto simp: unsent_size_def)
  have zero: "total unsent_size (objs c) = 0" if "st_safe (status now c)"
    using that safe by (intro total_zero) (auto simp: unsent_size_def)
  show ?thesis
    using safe sum [of "objs c"] zero acct_dirty_bounds [OF assms] acct_dirty [OF assms]
    by (simp add: status_def)
qed

lemma status_is_truthful_witness:
  "st_dirty_bytes (status 5 full_cache) = 4 \<and> \<not> st_safe (status 5 full_cache)"
proof -
  have "\<not> (\<forall>(p, ob) \<in> set (objs full_cache). ostate ob = StateClean)"
    by (simp add: full_cache_def small_object_def)
  moreover have "sum_list [obj_size ob. (p, ob) \<leftarrow> objs full_cache, unsent (ostate ob)] = 4"
    by (simp add: full_cache_def small_object_def)
  ultimately show ?thesis using status_is_truthful [OF acct_full_cache, of 5] by metis
qed

section \<open>Between choosing and dropping\<close>

definition rewrite_writer :: "string \<Rightarrow> dc_writer" where
  "rewrite_writer p =
     \<lparr>w_path = p, w_tmp = ''t'', w_buf = ''x'', w_n = 1, w_limit = 1, w_closed = False\<rparr>"

text \<open>The gap in eviction: the paths to drop are chosen under the lock and dropped after it is
  released, without looking again. A rewrite committed in between is acknowledged, unsent, and then dropped.\<close>
lemma eviction_gap_drops_rewrite:
  "(case commit keep_cname all_ok (small_object ''/b'' 1 StateDirty 7) (rewrite_writer ''/b'') full_cache of
      (r, _, c) \<Rightarrow>
        is_ok r \<and> state_of ''/b'' c = Some StateDirty
        \<and> state_of ''/b'' (forget_all keep_cname drop_ok (evict_plan full_cache) c) = None)"
  by code_simp

text \<open>A configuration with a high watermark of one half and no low watermark is accepted and gets a
  low watermark above the high one; a cache between the two evicts nothing although it is over the high
  watermark and every object is clean.\<close>
lemma default_low_mark_above_high:
  "(case with_defaults Some (small_config\<lparr>high_watermark := 1 / 2, low_watermark := 0\<rparr>) of
      Inl _ \<Rightarrow> False
    | Inr g \<Rightarrow>
        let c = (empty_cache g)\<lparr>objs := [(''/b'', small_object ''/b'' 6 StateClean 2)], dc_bytes := 6\<rparr>
        in low_mark g > high_mark g \<and> dc_bytes c > high_mark g \<and> evict_plan c = [])"
  by code_simp

end
