(* ===== verification/Cache_Jobs.thy ===== *)
theory Cache_Jobs
  imports Cache_Eviction
begin

text \<open>
  \<open>internal/datacache/jobs.go\<close>: copying a local file into the cache, out of it, and keeping a copy of a
  download. Reading and writing files elsewhere is an argument: what \<open>os.Stat\<close> said, the chunks
  \<open>io.Copy\<close> moved, which call failed.
\<close>

section \<open>Operations\<close>

text \<open>
  \<open>io.Copy\<close> into a writer of the cache: it stops at the first error. Every chunk comes with the
  number of bytes the temporary file takes of it.
\<close>

fun copy_chunks :: "(string \<times> nat) list \<Rightarrow> dc_writer \<Rightarrow> datacache \<Rightarrow> cache_error option \<times> dc_writer \<times> datacache" where
  "copy_chunks [] w c = (None, w, c)"
| "copy_chunks ((bs, k) # rest) w c =
     (case writer_write bs k w c of
        ((_, Some e), w', c') \<Rightarrow> (Some e, w', c')
      | ((_, None), w', c') \<Rightarrow> copy_chunks rest w' c')"

datatype local_stat = StatFails | StatDir | StatFile int

record put_env =
  pe_stat :: local_stat
  pe_tmp :: "string option"
  pe_open_ok :: bool
  pe_chunks :: "(string \<times> nat) list"
  pe_read_ok :: bool
  pe_ctx_done :: bool
  pe_now :: gotime
  pe_commit :: commit_env
  pe_evict :: "string \<Rightarrow> drop_env"

definition put_local_file ::
  "(string \<Rightarrow> string) \<Rightarrow> (string \<Rightarrow> string) \<Rightarrow> put_env \<Rightarrow> put_request \<Rightarrow> datacache
    \<Rightarrow> (cache_error + object) \<times> datacache" where
  "put_local_file md5 cname e req c =
     (if \<not> write_back (dc_cfg c) then (Inl ErrWriteBackOff, c)
      else case pe_stat e of
        StatFails \<Rightarrow> (Inl ErrIO, c)
      | StatDir \<Rightarrow> (Inl ErrIO, c)
      | StatFile n \<Rightarrow>
          case put (req\<lparr>pr_size := n\<rparr>) (pe_tmp e) c of
            (Inl err, c1) \<Rightarrow> (Inl err, c1)
          | (Inr (w, req'), c1) \<Rightarrow>
              if \<not> pe_open_ok e then (Inl ErrIO, snd (writer_abort w c1))
              else case copy_chunks (pe_chunks e) w c1 of
                (Some err, w2, c2) \<Rightarrow> (Inl err, snd (writer_abort w2 c2))
              | (None, w2, c2) \<Rightarrow>
                  if \<not> pe_read_ok e then (Inl ErrIO, snd (writer_abort w2 c2))
                  else if pe_ctx_done e then (Inl ErrCtx, snd (writer_abort w2 c2))
                  else case put_commit md5 cname (pe_now e) (pe_commit e) (pe_evict e) req' w2 c2 of
                    (r, _, c3) \<Rightarrow> (r, c3))"

text \<open>
  \<open>CopyTo\<close>: whether it was served, and what the local path holds afterwards (\<open>before\<close> is what it held).
\<close>

record copy_env =
  ce_mkdir_ok :: bool
  ce_create_ok :: bool
  ce_copy_ok :: bool
  ce_ctx_done :: bool
  ce_close_ok :: bool
  ce_rename_ok :: bool

definition copy_out :: "copy_env \<Rightarrow> string \<Rightarrow> string option \<Rightarrow> (cache_error + bool) \<times> string option" where
  "copy_out e content before =
     (if \<not> ce_mkdir_ok e then (Inl ErrIO, before)
      else if \<not> ce_create_ok e then (Inl ErrIO, before)
      else if \<not> ce_copy_ok e then (Inl ErrIO, before)
      else if ce_ctx_done e then (Inl ErrCtx, before)
      else if \<not> ce_close_ok e then (Inl ErrIO, before)
      else if \<not> ce_rename_ok e then (Inl ErrIO, before)
      else (Inr True, Some content))"

definition copy_to ::
  "(string \<Rightarrow> string) \<Rightarrow> gotime \<Rightarrow> bool \<Rightarrow> drop_env \<Rightarrow> jio \<Rightarrow> copy_env \<Rightarrow> string \<Rightarrow> string option \<Rightarrow> datacache
    \<Rightarrow> ((cache_error + bool) \<times> string option) \<times> datacache" where
  "copy_to cname now open_ok d tio e remote before c =
     (case dc_get cname now open_ok d tio remote c of
        (Inl err, c1) \<Rightarrow>
          ((if err = ErrNotCached then Inr False else Inl err, before), c1)
      | (Inr (ob, content), c1) \<Rightarrow> (copy_out e content before, c1))"

text \<open>The writer \<open>tolerant\<close>: after the first failed write it only counts.\<close>

definition tolerant_write :: "string \<Rightarrow> nat \<Rightarrow> bool \<Rightarrow> dc_writer \<Rightarrow> datacache \<Rightarrow> bool \<times> dc_writer \<times> datacache" where
  "tolerant_write bs k broken w c =
     (if broken then (True, w, c)
      else case writer_write bs k w c of
        ((_, Some _), w', c') \<Rightarrow> (True, w', c')
      | ((_, None), w', c') \<Rightarrow> (False, w', c'))"

fun tolerant_copy :: "(string \<times> nat) list \<Rightarrow> bool \<Rightarrow> dc_writer \<Rightarrow> datacache \<Rightarrow> bool \<times> dc_writer \<times> datacache" where
  "tolerant_copy [] broken w c = (broken, w, c)"
| "tolerant_copy ((bs, k) # rest) broken w c =
     (case tolerant_write bs k broken w c of (broken', w', c') \<Rightarrow> tolerant_copy rest broken' w' c')"

text \<open>
  \<open>FillFrom\<close>: \<open>chunks\<close> is what was read and written to the destination, \<open>copy_ok\<close> whether the copy
  ended without an error. The result is what the destination received, and whether that was all.
\<close>

definition fill_from ::
  "(string \<Rightarrow> string) \<Rightarrow> (string \<Rightarrow> string) \<Rightarrow> gotime \<Rightarrow> commit_env \<Rightarrow> (string \<Rightarrow> drop_env) \<Rightarrow> string option
    \<Rightarrow> (string \<times> nat) list \<Rightarrow> bool \<Rightarrow> string \<Rightarrow> datacache \<Rightarrow> (string \<times> bool) \<times> datacache" where
  "fill_from md5 cname now e env tmp chunks copy_ok remote c =
     (let got = concat (map fst chunks)
      in case fill remote tmp c of
           (Inl _, c1) \<Rightarrow> ((got, copy_ok), c1)
         | (Inr w, c1) \<Rightarrow>
             case tolerant_copy chunks False w c1 of
               (_, w2, c2) \<Rightarrow>
                 if \<not> copy_ok then ((got, False), snd (writer_abort w2 c2))
                 else case commit_clean md5 cname now e env [] w2 c2 of
                        (_, _, c3) \<Rightarrow> ((got, True), c3))"

section \<open>Accounting\<close>

lemma copy_chunks_acct:
  "acct c \<Longrightarrow> writer_ok w \<Longrightarrow> copy_chunks chunks w c = (r, w', c') \<Longrightarrow> acct c' \<and> writer_ok w'"
proof (induction chunks arbitrary: w c)
  case Nil
  then show ?case by simp
next
  case (Cons ch chunks)
  obtain bs k where ch: "ch = (bs, k)" by (cases ch)
  obtain n err w1 c1 where wr: "writer_write bs k w c = ((n, err), w1, c1)" by (metis prod.collapse)
  have "acct c1" using acct_writer_write [OF Cons.prems(1), of bs k w] wr by simp
  moreover have "writer_ok w1" using writer_write_ok [OF Cons.prems(2) wr] .
  ultimately show ?case using Cons.IH [of c1 w1] Cons.prems(3) wr ch by (cases err) auto
qed

lemma put_Inr:
  assumes "put req tmp c = (Inr (w, req'), c1)"
  shows "write_back (dc_cfg c)" "pr_path req' = cache_normalise_path (pr_path req)"
    "new_writer (cache_normalise_path (pr_path req)) (pr_size req) True tmp c = (Inr w, c1)"
    "writer_ok w"
proof -
  show "write_back (dc_cfg c)" "pr_path req' = cache_normalise_path (pr_path req)"
    and n: "new_writer (cache_normalise_path (pr_path req)) (pr_size req) True tmp c = (Inr w, c1)"
    using assms by (auto simp: put_def Let_def split: if_splits sum.splits prod.splits)
  show "writer_ok w" by (rule new_writer_ok [OF n cache_normalise_nonempty])
qed

lemma new_writer_frame:
  "objs (snd (new_writer p n is_dirty tmp c)) = objs c" "dirty (snd (new_writer p n is_dirty tmp c)) = dirty c"
  "dc_bytes (snd (new_writer p n is_dirty tmp c)) = dc_bytes c" "dc_cfg (snd (new_writer p n is_dirty tmp c)) = dc_cfg c"
  by (auto simp: new_writer_def start_writer_def Let_def split: option.splits)

lemma writer_write_frame:
  "objs (snd (snd (writer_write bs k w c))) = objs c" "dirty (snd (snd (writer_write bs k w c))) = dirty c"
  "dc_bytes (snd (snd (writer_write bs k w c))) = dc_bytes c" "dc_cfg (snd (snd (writer_write bs k w c))) = dc_cfg c"
  "w_limit (fst (snd (writer_write bs k w c))) = w_limit w" "w_path (fst (snd (writer_write bs k w c))) = w_path w"
  "w_tmp (fst (snd (writer_write bs k w c))) = w_tmp w"
  by (auto simp: writer_write_def writer_abort_def Let_def)

lemma copy_chunks_frame:
  "objs (snd (snd (copy_chunks chunks w c))) = objs c \<and> dirty (snd (snd (copy_chunks chunks w c))) = dirty c
    \<and> dc_bytes (snd (snd (copy_chunks chunks w c))) = dc_bytes c
    \<and> dc_cfg (snd (snd (copy_chunks chunks w c))) = dc_cfg c
    \<and> w_limit (fst (snd (copy_chunks chunks w c))) = w_limit w"
proof (induction chunks arbitrary: w c)
  case Nil
  then show ?case by simp
next
  case (Cons ch chunks)
  obtain bs k where ch: "ch = (bs, k)" by (cases ch)
  obtain n err w1 c1 where wr: "writer_write bs k w c = ((n, err), w1, c1)" by (metis prod.collapse)
  show ?case
    using Cons.IH [of w1 c1] writer_write_frame [where bs = bs and k = k and w = w and c = c] wr ch
    by (cases err) auto
qed

lemma copy_chunks_content:
  "copy_chunks chunks w c = (None, w', c') \<Longrightarrow> w_buf w' = w_buf w @ concat (map fst chunks)"
proof (induction chunks arbitrary: w c)
  case Nil
  then show ?case by simp
next
  case (Cons ch chunks)
  obtain bs k where ch: "ch = (bs, k)" by (cases ch)
  obtain n err w1 c1 where wr: "writer_write bs k w c = ((n, err), w1, c1)" by (metis prod.collapse)
  then have "err = None" and "copy_chunks chunks w1 c1 = (None, w', c')"
    using Cons.prems ch by (auto split: option.splits)
  moreover from wr this(1) have "w_buf w1 = w_buf w @ bs"
    by (auto simp: writer_write_def writer_abort_def Let_def split: if_splits)
  ultimately show ?case using Cons.IH [of w1 c1] ch by simp
qed

section \<open>The content file of a committed object\<close>

definition holds :: "dc_writer \<Rightarrow> datacache \<Rightarrow> bool" where
  "holds w c \<longleftrightarrow> (\<exists>f. lookup (live (dc_disk c)) (w_tmp w) = Some f \<and> fcontent f = w_buf w)"

lemma new_writer_holds: "new_writer p n is_dirty tmp c = (Inr w, c') \<Longrightarrow> holds w c' \<and> tmp = Some (w_tmp w) \<and> w_buf w = []"
  by (auto simp: new_writer_def start_writer_def holds_def write_file_def map_simps Let_def
      split: if_splits option.splits)

lemma writer_write_holds: "writer_write bs k w c = ((n, None), w', c') \<Longrightarrow> holds w' c'"
  by (auto simp: writer_write_def writer_abort_def holds_def write_file_def map_simps Let_def split: if_splits)

lemma copy_chunks_holds: "holds w c \<Longrightarrow> copy_chunks chunks w c = (None, w', c') \<Longrightarrow> holds w' c'"
proof (induction chunks arbitrary: w c)
  case Nil
  then show ?case by simp
next
  case (Cons ch chunks)
  obtain bs k where ch: "ch = (bs, k)" by (cases ch)
  obtain n err w1 c1 where wr: "writer_write bs k w c = ((n, err), w1, c1)" by (metis prod.collapse)
  then have "err = None" and "copy_chunks chunks w1 c1 = (None, w', c')"
    using Cons.prems(2) ch by (auto split: option.splits)
  with Cons.IH [of w1 c1] writer_write_holds wr show ?case by metis
qed

lemma writer_live:
  "n \<noteq> w_tmp w \<Longrightarrow> lookup (live (dc_disk (snd (snd (writer_write bs k w c))))) n = lookup (live (dc_disk c)) n"
  "n \<noteq> w_tmp w \<Longrightarrow> lookup (live (dc_disk (snd (writer_abort w c)))) n = lookup (live (dc_disk c)) n"
  by (auto simp: writer_write_def writer_abort_def write_file_def remove_file_def map_simps Let_def)

lemma copy_chunks_live:
  "n \<noteq> w_tmp w \<Longrightarrow> lookup (live (dc_disk (snd (snd (copy_chunks chunks w c))))) n = lookup (live (dc_disk c)) n
     \<and> w_tmp (fst (snd (copy_chunks chunks w c))) = w_tmp w"
proof (induction chunks arbitrary: w c)
  case Nil
  then show ?case by simp
next
  case (Cons ch chunks)
  obtain bs k where ch: "ch = (bs, k)" by (cases ch)
  obtain m err w1 c1 where wr: "writer_write bs k w c = ((m, err), w1, c1)" by (metis prod.collapse)
  have "w_tmp w1 = w_tmp w" and "lookup (live (dc_disk c1)) n = lookup (live (dc_disk c)) n"
    using writer_write_frame(7) [of bs k w c] writer_live(1) [OF Cons.prems, of bs k c] wr by simp_all
  with Cons.IH [of w1 c1] Cons.prems wr ch show ?case by (cases err) auto
qed

lemma commit_stored_file:
  assumes "commit cname e ob w c = (Inr ob', w', c')" and "holds w c"
  shows "lookup (live (dc_disk c')) (cname (remote_path ob)) = Some \<lparr>fcontent = w_buf w, fsynced = True\<rparr>
    \<and> lookup (durable (dc_disk c')) (cname (remote_path ob)) = Some \<lparr>fcontent = w_buf w, fsynced = True\<rparr>
    \<and> ob' = ob \<and> objs c' = AList.update (remote_path ob) ob (objs c)
    \<and> dirty c' = dirty c - at_key unsent_size (objs c) (remote_path ob) + unsent_size ob
    \<and> dc_cfg c' = dc_cfg c \<and> flush_queue c' = flush_queue c"
  using assms(1)
proof (cases rule: commit_cases)
  case stored
  obtain f where f: "lookup (live (dc_disk c)) (w_tmp w) = Some f" "fcontent f = w_buf w"
    using assms(2) by (auto simp: holds_def)
  then have "f\<lparr>fsynced := True\<rparr> = \<lparr>fcontent = w_buf w, fsynced = True\<rparr>" by (cases f) simp
  with stored f show ?thesis
    by (simp add: index_put_eq commit_disk_def sync_dir_def rename_file_def sync_file_def map_simps)
qed auto

lemma commit_all_ok:
  "\<not> w_closed w \<Longrightarrow>
    \<exists>d. commit cname all_ok ob w c = (Inr ob, w\<lparr>w_closed := True\<rparr>, index_put ob (c\<lparr>dc_disk := d\<rparr>))"
  by (auto simp: commit_def all_ok_def dc_append_def jnl_append_def on_disk_eq Let_def)

lemma evict_keeps_file:
  assumes "acct c" and "inj cname" and "lookup (objs c) p = Some ob" and "ostate ob \<noteq> StateClean"
  shows "lookup (live (dc_disk (evict_if_needed cname env c))) (cname p) = lookup (live (dc_disk c)) (cname p)
    \<and> lookup (objs (evict_if_needed cname env c)) p = Some ob"
proof -
  have "p \<notin> set (evict_plan c)" using evict_keeps [OF assms(1,3,4)] .
  moreover from this have "cname p \<notin> cname ` set (evict_plan c)"
    using assms(2) by (auto simp: inj_def)
  ultimately show ?thesis using assms(3)
    by (simp add: evict_if_needed_def forget_all_effect live_forget_all)
qed

lemma jnl_append_durable: "durable (snd (jnl_append io r b d)) = durable d"
  by simp

lemma durable_forget_all: "durable (dc_disk (forget_all cname env ps c)) = durable (dc_disk c)"
proof (induction ps arbitrary: c)
  case Nil
  then show ?case by (simp add: forget_all_def)
next
  case (Cons p ps)
  have "durable (dc_disk (forget cname (env p) p c)) = durable (dc_disk c)"
    by (simp add: forget_eq remove_file_def split: option.splits)
  with Cons [of "forget cname (env p) p c"] show ?case by (simp add: forget_all_def)
qed

section \<open>PutLocalFile\<close>

lemma put_local_file_Inr:
  assumes "put_local_file md5 cname e req c = (Inr ob, c')"
  obtains n w req' c1 w2 c2 w3 where
    "put (req\<lparr>pr_size := n\<rparr>) (pe_tmp e) c = (Inr (w, req'), c1)"
    "copy_chunks (pe_chunks e) w c1 = (None, w2, c2)"
    "put_commit md5 cname (pe_now e) (pe_commit e) (pe_evict e) req' w2 c2 = (Inr ob, w3, c')"
  using assms that
  by (auto simp: put_local_file_def split: if_splits local_stat.splits sum.splits prod.splits option.splits)

lemma new_writer_limit:
  "new_writer p n True tmp c = (Inr w, c') \<Longrightarrow> w_limit w = write_room p c \<and> 0 < write_room p c"
  by (auto simp: new_writer_def start_writer_def Let_def split: if_splits option.splits)

lemma write_room_eq: "write_room p c = max_dirty_bytes (dc_cfg c) - (dirty c - at_key unsent_size (objs c) p)"
  by (auto simp: write_room_def unsent_size_def split: option.splits)

text \<open>What an accepted local file is: the object is in the index as dirty, under the normalised path,
  with the size and the hash of exactly the bytes that were read; its content file holds those bytes,
  flushed, in the directory as seen and as a power cut would leave it; it is in the flush queue unless that
  is full; and the unsent bytes are within the allowance.\<close>
theorem put_local_file_stores:
  assumes "acct c" and "inj cname" and "put_local_file md5 cname e req c = (Inr ob, c')"
  shows "remote_path ob = cache_normalise_path (pr_path req) \<and> ostate ob = StateDirty
    \<and> obj_size ob = int (length (concat (map fst (pe_chunks e))))
    \<and> obj_hash ob = md5 (concat (map fst (pe_chunks e)))
    \<and> lookup (objs c') (remote_path ob) = Some ob
    \<and> lookup (live (dc_disk c')) (cname (remote_path ob))
        = Some \<lparr>fcontent = concat (map fst (pe_chunks e)), fsynced = True\<rparr>
    \<and> lookup (durable (dc_disk c')) (cname (remote_path ob))
        = Some \<lparr>fcontent = concat (map fst (pe_chunks e)), fsynced = True\<rparr>
    \<and> (remote_path ob \<in> set (flush_queue c') \<or> queue_cap \<le> int (length (flush_queue c')))
    \<and> dirty c' \<le> max_dirty_bytes (dc_cfg c)"
proof -
  let ?p = "cache_normalise_path (pr_path req)" and ?b = "concat (map fst (pe_chunks e))"
  obtain n w req' c1 w2 c2 w3 where
    p: "put (req\<lparr>pr_size := n\<rparr>) (pe_tmp e) c = (Inr (w, req'), c1)" and
    cp: "copy_chunks (pe_chunks e) w c1 = (None, w2, c2)" and
    cm: "put_commit md5 cname (pe_now e) (pe_commit e) (pe_evict e) req' w2 c2 = (Inr ob, w3, c')"
    using assms(3) by (rule put_local_file_Inr)
  note pi = put_Inr [OF p, simplified]
  have nw: "new_writer ?p n True (pe_tmp e) c = (Inr w, c1)" using pi(3) by simp
  have acct1: "acct c1" using acct_new_writer [OF assms(1), of ?p n True "pe_tmp e"] nw by simp
  have ok2: "acct c2" "writer_ok w2" using copy_chunks_acct [OF acct1 pi(4) cp] by simp_all
  have buf: "w_buf w2 = ?b" using copy_chunks_content [OF cp] new_writer_holds [OF nw] by simp
  have h2: "holds w2 c2" using copy_chunks_holds [OF _ cp] new_writer_holds [OF nw] by blast
  have n2: "w_n w2 = int (length ?b)" using ok2(2) buf by (simp add: writer_ok_def)
  have frame: "objs c2 = objs c" "dirty c2 = dirty c" "dc_cfg c2 = dc_cfg c" "w_limit w2 = w_limit w"
    using copy_chunks_frame [of "pe_chunks e" w c1] cp new_writer_frame [where p = ?p and n = n and is_dirty = True and tmp = "pe_tmp e" and c = c] nw
    by simp_all
  let ?o = "dirty_object md5 (pe_now e) req' w2"
  obtain r w' c3 where cc: "commit cname (pe_commit e) ?o w2 c2 = (r, w', c3)" by (metis prod_cases3)
  with cm have r: "r = Inr ob" and c': "c' = evict_if_needed cname (pe_evict e) (enqueue (remote_path ob) c3)"
    by (auto simp: put_commit_def split: sum.splits)
  note st = commit_stored_file [OF cc [unfolded r] h2]
  have ob: "ob = ?o" and path: "remote_path ob = ?p" using st pi(2) by simp_all
  have acct3: "acct c3"
    by (rule acct_commit [OF ok2(1) _ _ cc]) (use ok2(2) path ob cache_normalise_nonempty in \<open>auto simp: writer_ok_def\<close>)
  let ?c4 = "enqueue (remote_path ob) c3"
  have acct4: "acct ?c4" using acct3 by simp
  have l4: "lookup (objs ?c4) (remote_path ob) = Some ob" using st by (simp add: map_simps ob)
  note keep = evict_keeps_file [OF acct4 assms(2) l4, of "pe_evict e", folded c']
  have dirty4: "dirty c' = dirty c - at_key unsent_size (objs c) ?p + int (length ?b)"
    using evict_dirty [OF acct4, of cname "pe_evict e", folded c'] st frame(1,2) n2 path ob by simp
  have lim: "int (length ?b) \<le> write_room ?p c"
    using ok2(2) new_writer_limit [OF nw] frame(4) n2 by (simp add: writer_ok_def)
  have q: "remote_path ob \<in> set (flush_queue ?c4) \<or> queue_cap \<le> int (length (flush_queue ?c4))"
    using pi(1) st frame(3) by (auto simp: enqueue_def)
  have dur: "durable (dc_disk c') = durable (dc_disk c3)"
    by (simp add: c' evict_if_needed_def durable_forget_all)
  have fq: "flush_queue c' = flush_queue ?c4" by (simp add: c' evict_if_needed_def)
  show ?thesis
    using path ob n2 buf keep st dirty4 lim q dur fq write_room_eq [of ?p c] by simp
qed

definition sample_put_env :: put_env where
  "sample_put_env =
     \<lparr>pe_stat = StatFile 3, pe_tmp = Some ''writing-1.tmp'', pe_open_ok = True,
      pe_chunks = [(''ab'', 2), (''c'', 1)], pe_read_ok = True, pe_ctx_done = False, pe_now = 20,
      pe_commit = all_ok, pe_evict = drop_ok\<rparr>"

definition sample_request :: put_request where
  "sample_request = \<lparr>pr_path = ''/d//x'', pr_folder = ''7'', pr_name = [], pr_size = 0\<rparr>"

definition sample_object :: object where
  "sample_object =
     \<lparr>remote_path = ''/d/x'', obj_size = 3, obj_hash = ''cba'', ostate = StateDirty, folder_id = ''7'',
      obj_name = ''x'', upstream_file_id = [], stored_at = 20, last_access = 20, flush_attempts = 0,
      last_error = []\<rparr>"

lemma acct_empty_cache: "acct (empty_cache g)"
  by (simp add: acct_def empty_cache_def)

lemma sample_path: "cache_normalise_path ''/d//x'' = ''/d/x''"
  and sample_base: "path_base ''/d/x'' = ''x''"
  by code_simp+

lemma put_local_file_stores_witness:
  "(let (r, c) = put_local_file rev keep_cname sample_put_env sample_request (empty_cache small_config)
    in r = Inr sample_object \<and> dirty c \<le> 5 \<and> lookup (objs c) ''/d/x'' = Some sample_object
       \<and> lookup (durable (dc_disk c)) (keep_cname ''/d/x'') = Some \<lparr>fcontent = ''abc'', fsynced = True\<rparr>)"
proof -
  obtain r c where rc: "put_local_file rev keep_cname sample_put_env sample_request (empty_cache small_config) = (r, c)"
    by (metis surj_pair)
  have "fst (put_local_file rev keep_cname sample_put_env sample_request (empty_cache small_config)) = Inr sample_object"
    by (simp add: put_local_file_def sample_put_env_def sample_request_def empty_cache_def
        small_config_def put_def sample_path sample_base new_writer_def write_room_def start_writer_def
        on_disk_def writer_write_def put_commit_def commit_def all_ok_def dc_append_def jnl_append_def
        sample_object_def dirty_object_def Let_def)
  with rc have r: "r = Inr sample_object" by simp
  have "remote_path sample_object = ''/d/x''" "concat (map fst (pe_chunks sample_put_env)) = ''abc''"
    "max_dirty_bytes (dc_cfg (empty_cache small_config)) = 5"
    by (simp_all add: sample_object_def sample_put_env_def empty_cache_def small_config_def)
  with put_local_file_stores [OF acct_empty_cache inj_keep_cname rc [unfolded r]] rc r
  show ?thesis by (simp add: sample_request_def sample_path)
qed

text \<open>A write that is refused for lack of room harms nothing: the index, both byte counts and every
  file but the write's own temporary one are as they were.\<close>
theorem refused_put_harms_nothing:
  assumes "put_local_file md5 cname e req c = (Inl ErrCacheFull, c')" and "Some n \<noteq> pe_tmp e"
  shows "objs c' = objs c \<and> dc_bytes c' = dc_bytes c \<and> dirty c' = dirty c
    \<and> lookup (live (dc_disk c')) n = lookup (live (dc_disk c)) n
    \<and> durable (dc_disk c') = durable (dc_disk c) \<and> jlines (dc_disk c') = jlines (dc_disk c)"
proof (cases "put (req\<lparr>pr_size := (case pe_stat e of StatFile n \<Rightarrow> n | _ \<Rightarrow> 0)\<rparr>) (pe_tmp e) c")
  case (Pair r c1)
  show ?thesis
  proof (cases r)
    case (Inl err)
    have "c1 = c" if "put rq tm c = (Inl x, c1)" for rq tm x
      using that by (auto simp: put_def new_writer_def start_writer_def Let_def split: if_splits option.splits)
    with Pair Inl have "c1 = c" by blast
    with Pair Inl assms(1) show ?thesis
      by (auto simp: put_local_file_def split: if_splits local_stat.splits)
  next
    case (Inr wr)
    obtain w req' where wr: "wr = (w, req')" by (cases wr)
    note p = Pair [unfolded Inr wr]
    obtain n0 where nw: "new_writer (cache_normalise_path (pr_path req)) n0 True (pe_tmp e) c = (Inr w, c1)"
      using put_Inr(3) [OF p] by auto
    have t: "pe_tmp e = Some (w_tmp w)" using new_writer_holds [OF nw] by simp
    with assms(2) have n: "n \<noteq> w_tmp w" by auto
    have c1: "c1 = on_disk (write_file (w_tmp w) []) c"
      using nw t by (auto simp: new_writer_def start_writer_def Let_def split: if_splits)
    obtain oe w2 c2 where cp: "copy_chunks (pe_chunks e) w c1 = (oe, w2, c2)" by (metis prod_cases3)
    have disk: "durable (dc_disk (snd (snd (copy_chunks chs v d)))) = durable (dc_disk d)
        \<and> jlines (dc_disk (snd (snd (copy_chunks chs v d)))) = jlines (dc_disk d)" for chs v d
      by (induction chs v d rule: copy_chunks.induct)
         (auto simp: writer_write_def writer_abort_def write_file_def remove_file_def Let_def split: prod.splits option.splits)
    have commit_err: "fst (put_commit md5 cname now ce env rq v d) \<noteq> Inl ErrCacheFull" for now ce env rq v d
      by (auto simp: put_commit_def commit_def Let_def split: sum.splits prod.splits if_splits bool.splits)
    from assms(1) p cp have c': "c' = snd (writer_abort w2 c2)"
      using commit_err by (auto simp: put_local_file_def split: if_splits local_stat.splits option.splits prod.splits)
          (metis fst_conv)+
    show ?thesis
      using disk [of "pe_chunks e" w c1] copy_chunks_live [OF n, of "pe_chunks e" c1]
        copy_chunks_frame [of "pe_chunks e" w c1] cp c1 n writer_live(2) [of n w2 c2]
      by (simp add: c' writer_abort_def write_file_def remove_file_def map_simps)
  qed
qed

lemma refused_put_harms_nothing_witness:
  "(let (r, c) = put_local_file rev keep_cname (sample_put_env\<lparr>pe_stat := StatFile 9\<rparr>) sample_request full_cache
    in r = Inl ErrCacheFull \<and> objs c = objs full_cache \<and> dirty c = 4)"
proof -
  obtain r c where rc: "put_local_file rev keep_cname (sample_put_env\<lparr>pe_stat := StatFile 9\<rparr>) sample_request full_cache = (r, c)"
    by (metis surj_pair)
  have "fst (put_local_file rev keep_cname (sample_put_env\<lparr>pe_stat := StatFile 9\<rparr>) sample_request full_cache)
      = Inl ErrCacheFull"
    by (simp add: put_local_file_def sample_put_env_def sample_request_def full_cache_def empty_cache_def
        small_config_def put_def sample_path sample_base new_writer_def write_room_def Let_def)
  with rc have r: "r = Inl ErrCacheFull" by simp
  have "Some ''other'' \<noteq> pe_tmp (sample_put_env\<lparr>pe_stat := StatFile 9\<rparr>)" by (simp add: sample_put_env_def)
  from refused_put_harms_nothing [OF rc [unfolded r] this] rc r show ?thesis by (simp add: full_cache_def)
qed

section \<open>What the code allows besides\<close>

definition fill_cache :: datacache where
  "fill_cache =
     (empty_cache small_config)\<lparr>objs := [(''/b'', small_object ''/b'' 1 StateDirty 2)], dc_bytes := 1, dirty := 1,
       dc_disk := empty_disk\<lparr>live := [(keep_cname ''/b'', \<lparr>fcontent = ''n'', fsynced = True\<rparr>)]\<rparr>\<rparr>"

definition fill_writer :: dc_writer where
  "fill_writer = \<lparr>w_path = ''/b'', w_tmp = ''t'', w_buf = ''o'', w_n = 1, w_limit = 0, w_closed = False\<rparr>"

text \<open>A download that finishes after a write to the same path replaces the write: the clean copy of the
  older content takes the place of the unsent object in the index and on disk, and nothing is reported.\<close>
theorem fill_replaces_unsent:
  "state_of ''/b'' fill_cache = Some StateDirty
    \<and> (let c = on_disk (write_file ''t'' ''o'') fill_cache;
           (r, _, c') = commit_clean rev keep_cname 9 all_ok drop_ok [] fill_writer c
       in is_ok r \<and> state_of ''/b'' c' = Some StateClean \<and> dirty c' = 0
          \<and> map_option fcontent (lookup (live (dc_disk c')) (keep_cname ''/b'')) = Some ''o'')"
  by code_simp

text \<open>FillFrom stores a truncated copy: when the cache's own disk takes only a part of a chunk, the
  destination still receives everything, and the part is committed as the clean content of the file.\<close>
lemma fill_from_stores_truncated:
  "(let ((got, ok), c) = fill_from rev keep_cname 9 all_ok drop_ok (Some ''t'') [(''abc'', 1)] True ''/x''
          (empty_cache small_config)
    in got = ''abc'' \<and> ok \<and> state_of ''/x'' c = Some StateClean
       \<and> map_option fcontent (lookup (live (dc_disk c)) (keep_cname ''/x'')) = Some ''a'')"
  by code_simp

text \<open>A commit over an existing object that fails at the flush of the directory reports an error and
  leaves the index as it was, but the content file of the earlier, acknowledged version is gone.\<close>
lemma failed_commit_loses_previous:
  "(let c = on_disk (write_file ''t'' ''o'') fill_cache;
        (r, _, c') = commit keep_cname (all_ok\<lparr>dirsync_ok := False\<rparr>) (small_object ''/b'' 1 StateDirty 9) fill_writer c
    in \<not> is_ok r \<and> state_of ''/b'' c' = Some StateDirty \<and> lookup (live (dc_disk c')) (keep_cname ''/b'') = None)"
  by code_simp

text \<open>Opening the content file may fail for a reason that has nothing to do with the file, such as too
  many open files; Get then drops the object, unsent or not, and removes its content.\<close>
lemma failed_open_drops_unsent:
  "(let (r, c) = dc_get keep_cname 9 False (drop_ok []) JOk ''/b'' fill_cache
    in r = Inl ErrNotCached \<and> state_of ''/b'' c = None \<and> lookup (live (dc_disk c)) (keep_cname ''/b'') = None)"
  by code_simp

text \<open>The allowance is checked when a write starts. Two writes that start before either commits are
  both accepted and together exceed it.\<close>
lemma concurrent_puts_exceed_allowance:
  "(case new_writer ''/x'' 5 True (Some ''t1'') (empty_cache small_config) of
      (Inl _, _) \<Rightarrow> False
    | (Inr w1, c1) \<Rightarrow>
        case new_writer ''/y'' 5 True (Some ''t2'') c1 of
          (Inl _, _) \<Rightarrow> False
        | (Inr w2, c2) \<Rightarrow>
            case writer_write ''aaaaa'' 5 w1 c2 of (_, v1, c3) \<Rightarrow>
            case writer_write ''bbbbb'' 5 w2 c3 of (_, v2, c4) \<Rightarrow>
            case commit keep_cname all_ok (small_object ''/x'' 5 StateDirty 1) v1 c4 of (s1, _, c5) \<Rightarrow>
            case commit keep_cname all_ok (small_object ''/y'' 5 StateDirty 2) v2 c5 of (s2, _, c6) \<Rightarrow>
              is_ok s1 \<and> is_ok s2 \<and> dirty c6 = 10 \<and> max_dirty_bytes (dc_cfg c6) = 5)"
proof -
  let ?x = "small_object ''/x'' 5 StateDirty 1" and ?y = "small_object ''/y'' 5 StateDirty 2"
  let ?c0 = "empty_cache small_config"
  let ?w1 = "\<lparr>w_path = ''/x'', w_tmp = ''t1'', w_buf = [], w_n = 0, w_limit = 5, w_closed = False\<rparr>"
  let ?w2 = "\<lparr>w_path = ''/y'', w_tmp = ''t2'', w_buf = [], w_n = 0, w_limit = 5, w_closed = False\<rparr>"
  define c1 where "c1 = on_disk (write_file ''t1'' []) ?c0"
  define c2 where "c2 = on_disk (write_file ''t2'' []) c1"
  define c3 where "c3 = on_disk (write_file ''t1'' ''aaaaa'') c2"
  define c4 where "c4 = on_disk (write_file ''t2'' ''bbbbb'') c3"
  have frame: "objs c4 = []" "dirty c4 = 0" "dc_cfg c4 = small_config"
    by (simp_all add: c4_def c3_def c2_def c1_def empty_cache_def)
  have n1: "new_writer ''/x'' 5 True (Some ''t1'') ?c0 = (Inr ?w1, c1)"
    by (simp add: new_writer_def write_room_def start_writer_def c1_def empty_cache_def small_config_def)
  have n2: "new_writer ''/y'' 5 True (Some ''t2'') c1 = (Inr ?w2, c2)"
    by (simp add: new_writer_def write_room_def start_writer_def c2_def c1_def empty_cache_def small_config_def)
  let ?v1 = "?w1\<lparr>w_buf := ''aaaaa'', w_n := 5\<rparr>" and ?v2 = "?w2\<lparr>w_buf := ''bbbbb'', w_n := 5\<rparr>"
  have wr: "writer_write ''aaaaa'' 5 ?w1 c2 = ((5, None), ?v1, c3)"
    "writer_write ''bbbbb'' 5 ?w2 c3 = ((5, None), ?v2, c4)"
    by (simp_all add: writer_write_def Let_def c3_def c4_def)
  obtain d1 where d1: "commit keep_cname all_ok ?x ?v1 c4 =
      (Inr ?x, ?v1\<lparr>w_closed := True\<rparr>, index_put ?x (c4\<lparr>dc_disk := d1\<rparr>))"
    using commit_all_ok [of ?v1 keep_cname ?x c4] by auto
  obtain d2 where d2: "commit keep_cname all_ok ?y ?v2 (index_put ?x (c4\<lparr>dc_disk := d1\<rparr>)) =
      (Inr ?y, ?v2\<lparr>w_closed := True\<rparr>, index_put ?y ((index_put ?x (c4\<lparr>dc_disk := d1\<rparr>))\<lparr>dc_disk := d2\<rparr>))"
    using commit_all_ok [of ?v2 keep_cname ?y "index_put ?x (c4\<lparr>dc_disk := d1\<rparr>)"] by auto
  have "dirty (index_put ?y ((index_put ?x (c4\<lparr>dc_disk := d1\<rparr>))\<lparr>dc_disk := d2\<rparr>)) = 10"
    "max_dirty_bytes (dc_cfg (index_put ?y ((index_put ?x (c4\<lparr>dc_disk := d1\<rparr>))\<lparr>dc_disk := d2\<rparr>))) = 5"
    using frame by (simp_all add: index_put_eq small_object_def unsent_size_def small_config_def at_key_def)
  then show ?thesis by (simp only: n1 n2 wr d1 d2 prod.case sum.case is_ok_simps simp_thms)
qed

end
