(* ===== verification/Gateway.thy ===== *)
theory Gateway
  imports Cache_Jobs
begin

text \<open>
  The gateway as a state machine: the cache, the writers that clients hold open, and the uploads the
  flush workers have under way. A step is one call of a client or one half of a flush; calls from
  different goroutines interleave between steps, and writes and uploads stay open across any number of
  them. Inside one call nothing else happens here; what may happen in the gap inside an eviction is the
  subject of the last section of \<open>Cache_Eviction\<close>.

  Two logs that the program does not keep record what the invariants speak of: the uploads that were
  accepted, and the fills.
\<close>

section \<open>Steps\<close>

record gateway =
  gw_cache :: datacache
  gw_puts :: "(dc_writer \<times> put_request) list"
  gw_fills :: "dc_writer list"
  gw_tasks :: "(object \<times> string) list"
  gw_accepted :: "(object \<times> string) list" \<comment> \<open>the object as claimed, and the hash upstream reported\<close>
  gw_filled :: "(string \<times> gotime) list"

text \<open>What a step did to one path, when it did something that matters to its unsent object.\<close>

datatype gw_event = EvStored string | EvFilled string | EvLost string | EvRemoved string | EvSent string | EvOther

definition reply_accepted :: "object \<Rightarrow> upload_reply \<Rightarrow> bool" where
  "reply_accepted ob reply =
     (case reply of UploadFailed _ _ \<Rightarrow> False | Uploaded h \<Rightarrow> h = [] \<or> equal_fold h (obj_hash ob))"

definition reported_hash :: "upload_reply \<Rightarrow> string" where
  "reported_hash reply = (case reply of UploadFailed _ _ \<Rightarrow> [] | Uploaded h \<Rightarrow> h)"

inductive gw_step :: "(string \<Rightarrow> string) \<Rightarrow> (string \<Rightarrow> string) \<Rightarrow> gateway \<Rightarrow> gw_event \<Rightarrow> gateway \<Rightarrow> bool"
  for md5 :: "string \<Rightarrow> string" and cname :: "string \<Rightarrow> string" where
  put_start: "put req tmp (gw_cache s) = (Inr (w, req'), c) \<Longrightarrow>
    gw_step md5 cname s EvOther (s\<lparr>gw_cache := c, gw_puts := (w, req') # gw_puts s\<rparr>)"
| put_write: "gw_puts s = a @ (w, req) # b \<Longrightarrow> writer_write bs k w (gw_cache s) = (res, w', c) \<Longrightarrow>
    gw_step md5 cname s EvOther (s\<lparr>gw_cache := c, gw_puts := a @ (w', req) # b\<rparr>)"
| put_abort: "gw_puts s = a @ (w, req) # b \<Longrightarrow> writer_abort w (gw_cache s) = (w', c) \<Longrightarrow>
    gw_step md5 cname s EvOther (s\<lparr>gw_cache := c, gw_puts := a @ b\<rparr>)"
| put_commit: "gw_puts s = a @ (w, req) # b \<Longrightarrow>
    put_commit md5 cname now e env req w (gw_cache s) = (r, w', c) \<Longrightarrow>
    gw_step md5 cname s (if is_ok r then EvStored (pr_path req) else EvOther)
      (s\<lparr>gw_cache := c, gw_puts := a @ b\<rparr>)"
| fill_start: "fill remote tmp (gw_cache s) = (Inr w, c) \<Longrightarrow>
    gw_step md5 cname s EvOther (s\<lparr>gw_cache := c, gw_fills := w # gw_fills s\<rparr>)"
| fill_write: "gw_fills s = a @ w # b \<Longrightarrow> writer_write bs k w (gw_cache s) = (res, w', c) \<Longrightarrow>
    gw_step md5 cname s EvOther (s\<lparr>gw_cache := c, gw_fills := a @ w' # b\<rparr>)"
| fill_abort: "gw_fills s = a @ w # b \<Longrightarrow> writer_abort w (gw_cache s) = (w', c) \<Longrightarrow>
    gw_step md5 cname s EvOther (s\<lparr>gw_cache := c, gw_fills := a @ b\<rparr>)"
| fill_commit: "gw_fills s = a @ w # b \<Longrightarrow>
    commit_clean md5 cname now e env want w (gw_cache s) = (r, w', c) \<Longrightarrow>
    gw_step md5 cname s (if is_ok r then EvFilled (w_path w) else EvOther)
      (s\<lparr>gw_cache := c, gw_fills := a @ b, gw_filled := (w_path w, now) # gw_filled s\<rparr>)"
| get: "dc_get cname now open_ok d tio remote (gw_cache s) = (r, c) \<Longrightarrow>
    gw_step md5 cname s (if is_ok r then EvOther else EvLost (cache_normalise_path remote)) (s\<lparr>gw_cache := c\<rparr>)"
| flush_begin: "flush_start cname fe p (gw_cache s) = (Some t, c) \<Longrightarrow>
    gw_step md5 cname s EvOther (s\<lparr>gw_cache := c, gw_tasks := t # gw_tasks s\<rparr>)"
| flush_none: "flush_start cname fe p (gw_cache s) = (None, c) \<Longrightarrow>
    gw_step md5 cname s (if flush_claim p (gw_cache s) = None then EvOther else EvLost p) (s\<lparr>gw_cache := c\<rparr>)"
| flush_done: "gw_tasks s = a @ (ob, content) # b \<Longrightarrow> flush_finish cname fe ob reply (gw_cache s) = c \<Longrightarrow>
    gw_step md5 cname s
      (if reply_accepted ob reply \<and> of_version (remote_path ob) (stored_at ob) (gw_cache s) \<noteq> None
       then EvSent (remote_path ob) else EvOther)
      (s\<lparr>gw_cache := c, gw_tasks := a @ b,
         gw_accepted := (if reply_accepted ob reply then (ob, reported_hash reply) # gw_accepted s else gw_accepted s)\<rparr>)"
| refresh: "refresh cname d path (gw_cache s) = (r, c) \<Longrightarrow> gw_step md5 cname s EvOther (s\<lparr>gw_cache := c\<rparr>)"
| remove: "remove_attempt cname d p (gw_cache s) = (r, c) \<Longrightarrow>
    gw_step md5 cname s (case r of RemoveDropped _ \<Rightarrow> EvRemoved p | _ \<Rightarrow> EvOther) (s\<lparr>gw_cache := c\<rparr>)"
| clear: "clear cname env (gw_cache s) = (r, c) \<Longrightarrow> gw_step md5 cname s EvOther (s\<lparr>gw_cache := c\<rparr>)"
| request: "flush_request path (gw_cache s) = (r, c) \<Longrightarrow> gw_step md5 cname s EvOther (s\<lparr>gw_cache := c\<rparr>)"
| take_queued: "flush_queue (gw_cache s) = p # q \<Longrightarrow>
    gw_step md5 cname s EvOther (s\<lparr>gw_cache := (gw_cache s)\<lparr>flush_queue := q\<rparr>\<rparr>)"
| wait: "gw_step md5 cname s EvOther (s\<lparr>gw_cache := snd (waiter_locked (gw_cache s))\<rparr>)"
| drain: "gw_step md5 cname s EvOther (s\<lparr>gw_cache := (gw_cache s)\<lparr>draining := True\<rparr>\<rparr>)"
| close: "gw_step md5 cname s EvOther (s\<lparr>gw_cache := close_cache (gw_cache s)\<rparr>)"

inductive gw_run :: "(string \<Rightarrow> string) \<Rightarrow> (string \<Rightarrow> string) \<Rightarrow> gateway \<Rightarrow> gw_event list \<Rightarrow> gateway \<Rightarrow> bool"
  for md5 :: "string \<Rightarrow> string" and cname :: "string \<Rightarrow> string" where
  run_stop: "gw_run md5 cname s [] s"
| run_step: "gw_run md5 cname s evs s' \<Longrightarrow> gw_step md5 cname s' ev s'' \<Longrightarrow> gw_run md5 cname s (evs @ [ev]) s''"

text \<open>A gateway that has just opened; the clean objects recovery found count as filled.\<close>

definition gw_start :: "datacache \<Rightarrow> gateway" where
  "gw_start c =
     \<lparr>gw_cache = c, gw_puts = [], gw_fills = [], gw_tasks = [], gw_accepted = [],
      gw_filled = [(p, stored_at ob). (p, ob) \<leftarrow> objs c, ostate ob = StateClean]\<rparr>"

section \<open>The invariant\<close>

definition clean_justified :: "gateway \<Rightarrow> object \<Rightarrow> bool" where
  "clean_justified s ob \<longleftrightarrow>
     (remote_path ob, stored_at ob) \<in> set (gw_filled s)
     \<or> (\<exists>(sent, h) \<in> set (gw_accepted s).
          remote_path sent = remote_path ob \<and> stored_at sent = stored_at ob
          \<and> (h = [] \<or> equal_fold h (obj_hash sent)))"

definition gw_inv :: "gateway \<Rightarrow> bool" where
  "gw_inv s \<longleftrightarrow>
     acct (gw_cache s)
     \<and> (\<forall>(w, req) \<in> set (gw_puts s). writer_ok w \<and> pr_path req \<noteq> [])
     \<and> (\<forall>w \<in> set (gw_fills s). writer_ok w)
     \<and> wf_map (in_flight (gw_cache s))
     \<and> keys (in_flight (gw_cache s)) = (remote_path \<circ> fst) ` set (gw_tasks s)
     \<and> distinct (map (remote_path \<circ> fst) (gw_tasks s))
     \<and> (\<forall>p ob. lookup (objs (gw_cache s)) p = Some ob \<longrightarrow> ostate ob = StateClean \<longrightarrow> clean_justified s ob)"

section \<open>What one operation does to versions\<close>

definition same_version :: "object \<Rightarrow> object \<Rightarrow> bool" where
  "same_version ob ob' \<longleftrightarrow>
     remote_path ob' = remote_path ob \<and> stored_at ob' = stored_at ob \<and> obj_hash ob' = obj_hash ob
     \<and> obj_size ob' = obj_size ob"

definition no_new_clean :: "datacache \<Rightarrow> datacache \<Rightarrow> bool" where
  "no_new_clean c c' \<longleftrightarrow>
     (\<forall>p ob'. lookup (objs c') p = Some ob' \<longrightarrow> ostate ob' = StateClean \<longrightarrow>
        (\<exists>ob. lookup (objs c) p = Some ob \<and> ostate ob = StateClean \<and> same_version ob ob'))"

definition keeps :: "string \<Rightarrow> datacache \<Rightarrow> datacache \<Rightarrow> bool" where
  "keeps p c c' \<longleftrightarrow>
     (\<forall>ob. lookup (objs c) p = Some ob \<longrightarrow> unsent (ostate ob) \<longrightarrow>
        (\<exists>ob'. lookup (objs c') p = Some ob' \<and> unsent (ostate ob') \<and> same_version ob ob'))"

lemma same_version_refl [simp]: "same_version ob ob"
  by (simp add: same_version_def)

lemma same_version_trans: "same_version a b \<Longrightarrow> same_version b d \<Longrightarrow> same_version a d"
  by (simp add: same_version_def)

lemma no_new_clean_refl: "objs c' = objs c \<Longrightarrow> no_new_clean c c'"
  by (auto simp: no_new_clean_def)

lemma keeps_refl: "objs c' = objs c \<Longrightarrow> keeps p c c'"
  by (auto simp: keeps_def)

lemma no_new_clean_trans: "no_new_clean a b \<Longrightarrow> no_new_clean b d \<Longrightarrow> no_new_clean a d"
  unfolding no_new_clean_def by (meson same_version_trans)

lemma keeps_trans: "keeps p a b \<Longrightarrow> keeps p b d \<Longrightarrow> keeps p a d"
  unfolding keeps_def by (meson same_version_trans)

lemma versions_cong:
  "objs c2 = objs c1 \<Longrightarrow> no_new_clean c c2 = no_new_clean c c1"
  "objs c2 = objs c1 \<Longrightarrow> keeps p c c2 = keeps p c c1"
  by (simp_all add: no_new_clean_def keeps_def)

lemma forget_versions:
  "no_new_clean c (forget cname e q c)" "p \<noteq> q \<Longrightarrow> keeps p c (forget cname e q c)"
  by (auto simp: no_new_clean_def keeps_def forget_effect map_simps split: if_splits)

lemma forget_all_versions:
  "no_new_clean c (forget_all cname env ps c)" "p \<notin> set ps \<Longrightarrow> keeps p c (forget_all cname env ps c)"
  by (auto simp: no_new_clean_def keeps_def forget_all_effect split: if_splits)

lemma evict_versions:
  assumes "acct c"
  shows "no_new_clean c (evict_if_needed cname env c)" "keeps p c (evict_if_needed cname env c)"
proof -
  show "no_new_clean c (evict_if_needed cname env c)"
    unfolding evict_if_needed_def by (rule forget_all_versions)
  show "keeps p c (evict_if_needed cname env c)"
    unfolding keeps_def evict_if_needed_def forget_all_effect
    using evict_keeps [OF assms] unsent_iff by force
qed

lemma get_index_versions:
  "no_new_clean c (snd (get_index now q c))" "keeps p c (snd (get_index now q c))"
  by (auto simp: get_index_def no_new_clean_def keeps_def same_version_def Let_def map_simps
      split: option.splits if_splits)

lemma state_index_versions:
  shows "unsent st \<Longrightarrow> no_new_clean c (snd (state_index q vers st fid err att c))"
    "unsent st \<or> p \<noteq> q \<or> of_version q vers c = None \<Longrightarrow> keeps p c (snd (state_index q vers st fid err att c))"
  by (auto simp: state_index_eq no_new_clean_def keeps_def same_version_def Let_def map_simps of_version_def
      not_unsent_iff split: option.splits if_splits)

lemma set_state_cases:
  obtains (unchanged) "objs (snd (set_state io now q vers st fid err att c)) = objs c"
      "\<not> fst (set_state io now q vers st fid err att c)"
    | (applied) d where "fst (set_state io now q vers st fid err att c)"
      "snd (set_state io now q vers st fid err att c) = snd (state_index q vers st fid err att (c\<lparr>dc_disk := d\<rparr>))"
      "of_version q vers c \<noteq> None"
proof (cases "of_version q vers c")
  case None
  then show thesis by (intro unchanged) (simp_all add: set_state_def)
next
  case (Some ob)
  obtain ok c1 where a: "dc_append io (state_record q vers st fid err att now) True c = (ok, c1)" by (metis surj_pair)
  note c1 = dc_append_eq [OF a]
  show thesis
  proof (cases ok)
    case False
    with a c1 Some show thesis by (intro unchanged) (simp_all add: set_state_def)
  next
    case True
    let ?d = "snd (jnl_append io (state_record q vers st fid err att now) True (dc_disk c))"
    have "of_version q vers (c\<lparr>dc_disk := ?d\<rparr>) = Some ob" using Some by (simp add: of_version_def)
    with a c1 Some True show thesis
      by (intro applied [of ?d]) (simp_all add: set_state_def state_index_eq Let_def)
  qed
qed

lemma set_state_versions:
  "unsent st \<Longrightarrow> no_new_clean c (snd (set_state io now q vers st fid err att c))"
  "unsent st \<or> p \<noteq> q \<or> of_version q vers c = None \<Longrightarrow> keeps p c (snd (set_state io now q vers st fid err att c))"
proof -
  show "no_new_clean c (snd (set_state io now q vers st fid err att c))" if "unsent st"
  proof (cases rule: set_state_cases [of io now q vers st fid err att c])
    case unchanged
    show ?thesis by (rule no_new_clean_refl [OF unchanged(1)])
  next
    case (applied d)
    have "no_new_clean (c\<lparr>dc_disk := d\<rparr>) (snd (state_index q vers st fid err att (c\<lparr>dc_disk := d\<rparr>)))"
      by (rule state_index_versions(1) [OF that])
    then show ?thesis by (simp add: applied(2) no_new_clean_def)
  qed
  show "keeps p c (snd (set_state io now q vers st fid err att c))"
    if h: "unsent st \<or> p \<noteq> q \<or> of_version q vers c = None"
  proof (cases rule: set_state_cases [of io now q vers st fid err att c])
    case unchanged
    show ?thesis by (rule keeps_refl [OF unchanged(1)])
  next
    case (applied d)
    have "keeps p (c\<lparr>dc_disk := d\<rparr>) (snd (state_index q vers st fid err att (c\<lparr>dc_disk := d\<rparr>)))"
      by (rule state_index_versions(2)) (use h in \<open>auto simp: of_version_def\<close>)
    then show ?thesis by (simp add: applied(2) keeps_def)
  qed
qed

section \<open>Frames of the operations\<close>

lemma dc_append_frame [simp]:
  "objs (snd (dc_append io r b c)) = objs c" "in_flight (snd (dc_append io r b c)) = in_flight c"
  by (simp_all add: dc_append_snd)

lemma set_state_frame [simp]:
  "in_flight (snd (set_state io now p vers st fid err att c)) = in_flight c"
  by (cases rule: set_state_cases [of io now p vers st fid err att c])
     (auto simp: set_state_def state_index_eq Let_def dest!: dc_append_eq
       split: option.splits prod.splits bool.splits)

lemma cache_evict_frame [simp]:
  "in_flight (evict_if_needed cname env c) = in_flight c" "dc_cfg (evict_if_needed cname env c) = dc_cfg c"
  by (simp_all add: evict_if_needed_def)

lemma flush_end_effect [simp]:
  "objs (flush_end p b c) = objs c" "in_flight (flush_end p b c) = AList.delete p (in_flight c)"
  "acct (flush_end p b c) = acct c"
  by (simp_all add: flush_end_def notify_waiters_def Let_def acct_def)

lemma get_frame [simp]: "in_flight (snd (dc_get cname now open_ok e tio remote c)) = in_flight c"
  by (auto simp: dc_get_def get_index_def Let_def split: option.splits)

lemma commit_frame:
  assumes "commit cname e ob w c = (r, w', c')"
  shows "in_flight c' = in_flight c"
  using assms by (cases rule: commit_cases) (simp_all add: index_put_eq)

lemma put_commit_frame: "in_flight (snd (snd (put_commit md5 cname now e env req w c))) = in_flight c"
  using commit_frame [of cname e "dirty_object md5 now req w" w c]
  by (auto simp: put_commit_def split: prod.splits sum.splits)

lemma commit_clean_frame: "in_flight (snd (snd (commit_clean md5 cname now e env want w c))) = in_flight c"
  using commit_frame [of cname e "clean_object md5 now w" w c]
  by (auto simp: commit_clean_def writer_abort_def split: prod.splits sum.splits)

lemma commit_versions:
  assumes "commit cname e ob w c = (r, w', c')"
  shows "unsent (ostate ob) \<Longrightarrow> no_new_clean c c'" "\<not> is_ok r \<or> p \<noteq> remote_path ob \<Longrightarrow> keeps p c c'"
    "\<not> is_ok r \<Longrightarrow> no_new_clean c c'"
  using assms
  by (cases rule: commit_cases;
      auto simp: index_put_eq no_new_clean_def keeps_def map_simps split: if_splits)+

lemma put_commit_versions:
  assumes "acct c" and "writer_ok w" and "pr_path req \<noteq> []"
    and "put_commit md5 cname now e env req w c = (r, w', c')"
  shows "no_new_clean c c'" "\<not> is_ok r \<or> p \<noteq> pr_path req \<Longrightarrow> keeps p c c'"
proof -
  let ?o = "dirty_object md5 now req w"
  obtain r1 w1 c1 where k: "commit cname e ?o w c = (r1, w1, c1)" by (metis prod_cases3)
  have acct1: "acct c1" by (rule acct_commit [OF assms(1) _ _ k]) (use assms in \<open>auto simp: writer_ok_def\<close>)
  have nn: "no_new_clean c c1" using commit_versions(1) [OF k] by simp
  show "no_new_clean c c'"
  proof (cases r1)
    case (Inl x)
    with assms(4) k nn show ?thesis by (simp add: put_commit_def)
  next
    case (Inr x)
    have "no_new_clean (enqueue (remote_path x) c1) c'"
      using evict_versions(1) [of "enqueue (remote_path x) c1"] acct1 assms(4) k Inr
      by (auto simp: put_commit_def)
    moreover have "no_new_clean c (enqueue (remote_path x) c1)"
      using nn versions_cong(1) [of "enqueue (remote_path x) c1" c1 c] by simp
    ultimately show ?thesis by (rule no_new_clean_trans [rotated])
  qed
  assume h: "\<not> is_ok r \<or> p \<noteq> pr_path req"
  show "keeps p c c'"
  proof (cases r1)
    case (Inl x)
    with assms(4) k commit_versions(2) [OF k] h show ?thesis by (simp add: put_commit_def)
  next
    case (Inr x)
    have r: "is_ok r" using assms(4) k Inr by (auto simp: put_commit_def)
    have "keeps p (enqueue (remote_path x) c1) c'"
      using evict_versions(2) [of "enqueue (remote_path x) c1"] acct1 assms(4) k Inr
      by (auto simp: put_commit_def)
    moreover have "keeps p c c1" using commit_versions(2) [OF k] h r by simp
    then have "keeps p c (enqueue (remote_path x) c1)"
      using versions_cong(2) [of "enqueue (remote_path x) c1" c1 p c] by simp
    ultimately show ?thesis by (rule keeps_trans [rotated])
  qed
qed

lemma commit_clean_versions:
  assumes "acct c" and "writer_ok w" and "commit_clean md5 cname now e env want w c = (r, w', c')"
  shows "\<not> is_ok r \<or> p \<noteq> w_path w \<Longrightarrow> keeps p c c'"
    "lookup (objs c') p = Some ob \<Longrightarrow> ostate ob = StateClean \<Longrightarrow>
       (remote_path ob = w_path w \<and> stored_at ob = now)
       \<or> (\<exists>ob0. lookup (objs c) p = Some ob0 \<and> ostate ob0 = StateClean \<and> same_version ob0 ob)"
proof -
  let ?o = "clean_object md5 now w"
  obtain r1 w1 c1 where k: "commit cname e ?o w c = (r1, w1, c1)" by (metis prod_cases3)
  have acct1: "acct c1" by (rule acct_commit [OF assms(1) _ _ k]) (use assms in \<open>auto simp: writer_ok_def\<close>)
  have c': "objs c' = objs c \<and> \<not> is_ok r \<or> (\<exists>x. r1 = Inl x \<and> c' = c1 \<and> \<not> is_ok r)
      \<or> (\<exists>x. r1 = Inr x \<and> c' = evict_if_needed cname env c1 \<and> is_ok r)"
    using assms(3) k
    by (cases r1) (auto simp: commit_clean_def writer_abort_def split: if_splits)
  have c1: "objs c1 = objs c \<or> objs c1 = AList.update (w_path w) ?o (objs c)"
    using k by (cases rule: commit_cases) (auto simp: index_put_eq)
  show "keeps p c c'" if "\<not> is_ok r \<or> p \<noteq> w_path w"
    using c' that commit_versions(2) [OF k, of p] evict_versions(2) [OF acct1] keeps_refl keeps_trans
    by (metis clean_object_fields(1) is_ok_simps(2))
  assume ob: "lookup (objs c') p = Some ob" "ostate ob = StateClean"
  have "objs c' = objs c \<or> no_new_clean c1 c'"
    using c' evict_versions(1) [OF acct1] no_new_clean_refl by metis
  then show "(remote_path ob = w_path w \<and> stored_at ob = now)
       \<or> (\<exists>ob0. lookup (objs c) p = Some ob0 \<and> ostate ob0 = StateClean \<and> same_version ob0 ob)"
  proof
    assume "objs c' = objs c"
    with ob show ?thesis by force
  next
    assume "no_new_clean c1 c'"
    with ob obtain ob1 where ob1: "lookup (objs c1) p = Some ob1" "ostate ob1 = StateClean" "same_version ob1 ob"
      unfolding no_new_clean_def by blast
    from c1 show ?thesis
    proof
      assume "objs c1 = objs c"
      with ob1 show ?thesis by auto
    next
      assume "objs c1 = AList.update (w_path w) ?o (objs c)"
      with ob1 show ?thesis by (cases "p = w_path w") (auto simp: map_simps same_version_def)
    qed
  qed
qed

lemma dc_get_versions:
  assumes "dc_get cname now open_ok d tio remote c = (r, c')"
  shows "no_new_clean c c'" "is_ok r \<or> p \<noteq> cache_normalise_path remote \<Longrightarrow> keeps p c c'"
proof -
  let ?q = "cache_normalise_path remote"
  obtain o1 c1 where g: "get_index now ?q c = (o1, c1)" by (metis surj_pair)
  note v = get_index_versions [where c = c and now = now and q = ?q, unfolded g]
  have c': "(r = Inl ErrNotCached \<and> objs c' = objs c1) \<or> (is_ok r \<and> objs c' = objs c1)
      \<or> (\<not> is_ok r \<and> objs c' = objs (forget cname d ?q c1))"
    using assms g by (auto simp: dc_get_def Let_def split: option.splits)
  moreover have "objs c1 = objs c" if "r = Inl ErrNotCached" "objs c' = objs c1" "o1 = None"
    using g that by (auto simp: get_index_def Let_def split: option.splits)
  moreover have "no_new_clean c c1" "keeps p c c1" for p using v by simp_all
  ultimately show "no_new_clean c c'" "is_ok r \<or> p \<noteq> ?q \<Longrightarrow> keeps p c c'"
    using forget_versions(1) [of c1 cname d ?q] forget_versions(2) [of p ?q c1 cname d]
      no_new_clean_trans keeps_trans versions_cong
    by (metis is_ok_simps(2))+
qed

lemma flush_claim_Some:
  assumes "flush_claim p c = Some (ob, c1)"
  shows "lookup (objs c) p = Some ob" "unsent (ostate ob)" "lookup (in_flight c) p = None" "\<not> closed c"
    "c1 = c\<lparr>in_flight := AList.update p False (in_flight c)\<rparr>"
  using assms by (auto simp: flush_claim_def split: option.splits if_splits)

lemma flush_start_Some:
  assumes "flush_start cname fe p c = (Some t, c')"
  obtains ob content where "t = (ob, content)" "lookup (objs c) p = Some ob" "unsent (ostate ob)"
    "lookup (in_flight c) p = None" "in_flight c' = AList.update p False (in_flight c)"
    "no_new_clean c c'" "\<And>q. keeps q c c'" "acct c \<Longrightarrow> acct c'"
    "lookup (live (dc_disk c')) (cname p) \<noteq> None"
    "map_option fcontent (lookup (live (dc_disk c')) (cname p)) = Some content"
proof -
  obtain ob c1 where cl: "flush_claim p c = Some (ob, c1)"
    using assms by (cases "flush_claim p c") (auto simp: flush_start_def)
  note cs = flush_claim_Some [OF cl]
  let ?c2 = "snd (set_state (fst (fe_uploading fe)) (snd (fe_uploading fe)) p (stored_at ob)
                          StateUploading [] [] (flush_attempts ob) c1)"
  obtain content where t: "t = (ob, content)" "c' = ?c2"
    "map_option fcontent (lookup (live (dc_disk c')) (cname p)) = Some content"
    using assms cl by (auto simp: flush_start_def Let_def split: option.splits if_splits)
  have "objs c1 = objs c" by (simp add: cs(5))
  then have "no_new_clean c c'" "keeps q c c'" for q
    using set_state_versions(1) [where st = StateUploading and c = c1] set_state_versions(2) [where st = StateUploading and c = c1] t(2)
    by (simp_all add: no_new_clean_def keeps_def)
  moreover have "acct c'" if "acct c"
    using that t(2) acct_set_state [of c1] by (simp add: cs(5) acct_def)
  moreover have "in_flight c' = AList.update p False (in_flight c)" by (simp add: t(2) cs(5))
  ultimately show thesis using that t cs by blast
qed

lemma flush_start_None:
  assumes "flush_start cname fe p c = (None, c')"
  shows "in_flight c' = in_flight c \<or> in_flight c' = AList.delete p (AList.update p False (in_flight c)) \<and> p \<notin> keys (in_flight c)"
    "no_new_clean c c'" "flush_claim p c = None \<or> q \<noteq> p \<Longrightarrow> keeps q c c'" "acct c \<Longrightarrow> acct c'"
proof -
  have main: "(in_flight c' = in_flight c \<or> in_flight c' = AList.delete p (AList.update p False (in_flight c)) \<and> p \<notin> keys (in_flight c))
    \<and> no_new_clean c c' \<and> (flush_claim p c = None \<or> q \<noteq> p \<longrightarrow> keeps q c c') \<and> (acct c \<longrightarrow> acct c')"
  proof (cases "flush_claim p c")
    case None
    with assms have "c' = c" by (simp add: flush_start_def)
    then show ?thesis by (simp add: no_new_clean_refl keeps_refl)
  next
    case (Some oc)
    obtain ob c1 where cl: "flush_claim p c = Some (ob, c1)" using Some by (cases oc) auto
    note cs = flush_claim_Some [OF cl]
    let ?c2 = "snd (set_state (fst (fe_uploading fe)) (snd (fe_uploading fe)) p (stored_at ob)
                          StateUploading [] [] (flush_attempts ob) c1)"
    have c': "c' = flush_end p False (forget cname (fe_drop fe) p ?c2)"
      using assms cl by (auto simp: flush_start_def Let_def split: option.splits if_splits)
    have "objs c1 = objs c" by (simp add: cs(5))
    then have v: "no_new_clean c ?c2" "keeps q c ?c2"
      using set_state_versions(1) [where st = StateUploading and c = c1] set_state_versions(2) [where st = StateUploading and c = c1]
      by (simp_all add: no_new_clean_def keeps_def)
    have "no_new_clean c c'" "q \<noteq> p \<longrightarrow> keeps q c c'"
      using v forget_versions(1) [of ?c2 cname "fe_drop fe" p] forget_versions(2) [of q p ?c2 cname "fe_drop fe"]
        no_new_clean_trans keeps_trans
      unfolding c' versions_cong [OF flush_end_effect(1)] by blast+
    moreover have "acct c'" if "acct c"
    proof -
      have "acct c1" using that by (simp add: cs(5) acct_def)
      then show ?thesis unfolding c' flush_end_effect(3) by (intro acct_forget acct_set_state)
    qed
    moreover have "in_flight c' = AList.delete p (AList.update p False (in_flight c))"
      by (simp add: c' cs(5))
    ultimately show ?thesis using cl cs(3) by (simp add: lookup_None_iff)
  qed
  then show "in_flight c' = in_flight c \<or> in_flight c' = AList.delete p (AList.update p False (in_flight c)) \<and> p \<notin> keys (in_flight c)"
    "no_new_clean c c'" "flush_claim p c = None \<or> q \<noteq> p \<Longrightarrow> keeps q c c'" "acct c \<Longrightarrow> acct c'"
    by blast+
qed

lemma flush_finish_effect:
  assumes "acct c" and "flush_finish cname fe ob reply c = c'"
  shows "acct c'" "in_flight c' = AList.delete (remote_path ob) (in_flight c)"
    "\<not> reply_accepted ob reply \<Longrightarrow> no_new_clean c c'"
    "\<not> (reply_accepted ob reply \<and> of_version (remote_path ob) (stored_at ob) c \<noteq> None) \<or> q \<noteq> remote_path ob
       \<Longrightarrow> keeps q c c'"
    "lookup (objs c') q = Some ob' \<Longrightarrow> ostate ob' = StateClean \<Longrightarrow>
       (reply_accepted ob reply \<and> remote_path ob' = remote_path ob \<and> stored_at ob' = stored_at ob)
       \<or> (\<exists>ob0. lookup (objs c) q = Some ob0 \<and> ostate ob0 = StateClean \<and> same_version ob0 ob')"
proof -
  let ?p = "remote_path ob" and ?set = "\<lambda>st err att. set_state (fst (fe_result fe)) (snd (fe_result fe))
      (remote_path ob) (stored_at ob) st [] err att c"
  consider (stopped) "\<not> reply_accepted ob reply" "objs c' = objs c" "acct c'" "in_flight c' = AList.delete ?p (in_flight c)"
    | (dirty) err att where "\<not> reply_accepted ob reply" "c' = flush_end ?p False (snd (?set StateDirty err att))"
    | (stale) "reply_accepted ob reply" "\<not> fst (?set StateClean [] (flush_attempts ob))"
        "c' = flush_end ?p True (snd (?set StateClean [] (flush_attempts ob)))"
    | (sent) "reply_accepted ob reply" "fst (?set StateClean [] (flush_attempts ob))"
        "c' = flush_end ?p False (evict_if_needed cname (fe_evict fe) (snd (?set StateClean [] (flush_attempts ob))))"
  proof (cases reply)
    case (UploadFailed err msg)
    show thesis
    proof (cases "(lookup (in_flight c) ?p = Some True \<or> flush_ctx_done c) \<and> \<not> flush_ctx_done c")
      case True
      with UploadFailed assms(2) have c': "c' = flush_end ?p False c"
        by (auto simp: flush_finish_def Let_def)
      show thesis by (rule stopped) (simp_all add: c' assms(1) reply_accepted_def UploadFailed)
    next
      case False
      with UploadFailed assms(2) show thesis
        by (intro dirty) (auto simp: flush_finish_def Let_def reply_accepted_def)
    qed
  next
    case (Uploaded h)
    show thesis
    proof (cases "h \<noteq> [] \<and> \<not> equal_fold h (obj_hash ob)")
      case True
      with Uploaded assms(2) show thesis
        by (intro dirty) (auto simp: flush_finish_def Let_def reply_accepted_def)
    next
      case False
      then have acc: "reply_accepted ob reply" by (auto simp: reply_accepted_def Uploaded)
      obtain ok c1 where sc: "?set StateClean [] (flush_attempts ob) = (ok, c1)" by (metis surj_pair)
      have c': "c' = (if ok then flush_end ?p False (evict_if_needed cname (fe_evict fe) c1) else flush_end ?p True c1)"
        using False Uploaded assms(2) sc by (auto simp: flush_finish_def Let_def)
      show thesis using stale sent acc sc c' by (cases ok) auto
    qed
  qed
  note cases = this
  have acct2: "acct (snd (?set st err att))" for st err att using assms(1) by (rule acct_set_state)
  show "acct c'"
    by (cases rule: cases) (simp_all add: acct2 acct_evict)
  show "in_flight c' = AList.delete (remote_path ob) (in_flight c)"
    by (cases rule: cases) simp_all
  show "no_new_clean c c'" if "\<not> reply_accepted ob reply"
    using that by (cases rule: cases)
      (auto intro: no_new_clean_refl simp: versions_cong [OF flush_end_effect(1)] set_state_versions)
  show "keeps q c c'"
    if h: "\<not> (reply_accepted ob reply \<and> of_version (remote_path ob) (stored_at ob) c \<noteq> None) \<or> q \<noteq> remote_path ob"
  proof (cases rule: cases)
    case stopped
    then show ?thesis by (simp add: keeps_refl)
  next
    case (dirty err att)
    then show ?thesis by (simp add: versions_cong [OF flush_end_effect(1)] set_state_versions)
  next
    case stale
    with h show ?thesis by (auto simp: versions_cong [OF flush_end_effect(1)] set_state_versions)
  next
    case sent
    have "keeps q c (snd (?set StateClean [] (flush_attempts ob)))"
      using h sent by (intro set_state_versions) auto
    then show ?thesis
      unfolding sent(3) versions_cong [OF flush_end_effect(1)]
      using keeps_trans evict_versions(2) [OF acct2] by blast
  qed
  have idx: "(remote_path ob' = remote_path ob \<and> stored_at ob' = stored_at ob)
       \<or> (\<exists>ob0. lookup (objs c) q = Some ob0 \<and> ostate ob0 = StateClean \<and> same_version ob0 ob')"
    if "lookup (objs (snd (?set StateClean [] (flush_attempts ob)))) q = Some ob'" "ostate ob' = StateClean" for ob'
  proof (cases rule: set_state_cases [of "fst (fe_result fe)" "snd (fe_result fe)" ?p "stored_at ob" StateClean "[]" "[]" "flush_attempts ob" c])
    case unchanged
    with that show ?thesis by auto
  next
    case (applied d)
    then obtain o1 where o1: "lookup (objs c) ?p = Some o1" "stored_at o1 = stored_at ob"
      by (auto simp: of_version_Some)
    then have "of_version ?p (stored_at ob) (c\<lparr>dc_disk := d\<rparr>) = Some o1" by (simp add: of_version_def)
    with applied(2) that o1 acct_key [OF assms(1) o1(1)] show ?thesis
      by (cases "q = ?p") (auto simp: state_index_eq Let_def map_simps)
  qed
  assume ob': "lookup (objs c') q = Some ob'" "ostate ob' = StateClean"
  show "(reply_accepted ob reply \<and> remote_path ob' = remote_path ob \<and> stored_at ob' = stored_at ob)
       \<or> (\<exists>ob0. lookup (objs c) q = Some ob0 \<and> ostate ob0 = StateClean \<and> same_version ob0 ob')"
  proof (cases rule: cases)
    case stopped
    with ob' show ?thesis by force
  next
    case (dirty err att)
    then have "no_new_clean c c'"
      by (simp add: versions_cong [OF flush_end_effect(1)] set_state_versions)
    with ob' show ?thesis unfolding no_new_clean_def by blast
  next
    case stale
    with ob' idx [of ob'] show ?thesis by auto
  next
    case sent
    let ?c1 = "snd (?set StateClean [] (flush_attempts ob))"
    have "no_new_clean ?c1 c'"
      using sent(3) evict_versions(1) [OF acct2] by (simp add: versions_cong [OF flush_end_effect(1)])
    with ob' obtain o1 where o1: "lookup (objs ?c1) q = Some o1" "ostate o1 = StateClean" "same_version o1 ob'"
      unfolding no_new_clean_def by blast
    have v: "remote_path ob' = remote_path o1" "stored_at ob' = stored_at o1"
      using o1(3) by (simp_all add: same_version_def)
    from idx [OF o1(1,2)] show ?thesis
    proof
      assume "remote_path o1 = remote_path ob \<and> stored_at o1 = stored_at ob"
      with v sent(1) show ?thesis by simp
    next
      assume "\<exists>ob0. lookup (objs c) q = Some ob0 \<and> ostate ob0 = StateClean \<and> same_version ob0 o1"
      then show ?thesis using same_version_trans [OF _ o1(3)] by blast
    qed
  qed
qed

section \<open>The invariant is preserved\<close>

lemma remove_attempt_effect:
  assumes "remove_attempt cname d p c = (r, c')"
  shows "acct c \<Longrightarrow> acct c'" "no_new_clean c c'" "(\<forall>u. r \<noteq> RemoveDropped u) \<or> q \<noteq> p \<Longrightarrow> keeps q c c'"
    "wf_map (in_flight c) \<Longrightarrow> wf_map (in_flight c') \<and> keys (in_flight c') = keys (in_flight c)"
proof -
  have "(objs c' = objs c \<and> dc_bytes c' = dc_bytes c \<and> dirty c' = dirty c
      \<and> (in_flight c' = in_flight c \<or> lookup (in_flight c) p \<noteq> None \<and> in_flight c' = AList.update p True (in_flight c)))
    \<or> (c' = forget cname d p c \<and> (\<exists>u. r = RemoveDropped u))"
    using assms by (auto simp: remove_attempt_def waiter_locked_def Let_def split: option.splits)
  then have cases: "(objs c' = objs c \<and> dc_bytes c' = dc_bytes c \<and> dirty c' = dirty c
      \<and> (in_flight c' = in_flight c \<or> p \<in> keys (in_flight c) \<and> in_flight c' = AList.update p True (in_flight c)))
    \<or> (c' = forget cname d p c \<and> (\<exists>u. r = RemoveDropped u))"
    by (simp only: lookup_None_iff) blast
  show "acct c \<Longrightarrow> acct c'" using cases acct_cong acct_forget by metis
  show "no_new_clean c c'" using cases no_new_clean_refl forget_versions(1) by metis
  show "keeps q c c'" if "(\<forall>u. r \<noteq> RemoveDropped u) \<or> q \<noteq> p"
    using cases that keeps_refl forget_versions(2) by metis
  assume wf: "wf_map (in_flight c)"
  show "wf_map (in_flight c') \<and> keys (in_flight c') = keys (in_flight c)"
    using cases
  proof (elim disjE conjE)
    assume "p \<in> keys (in_flight c)" "in_flight c' = AList.update p True (in_flight c)"
    with wf show ?thesis by (simp add: keys_update insert_absorb)
  qed (use wf in simp_all)
qed

lemma plain_effects:
  shows "acct c \<Longrightarrow> acct (snd (refresh cname d path c))" "no_new_clean c (snd (refresh cname d path c))"
    "keeps q c (snd (refresh cname d path c))" "in_flight (snd (refresh cname d path c)) = in_flight c"
    "acct c \<Longrightarrow> acct (snd (clear cname env c))" "no_new_clean c (snd (clear cname env c))"
    "in_flight (snd (clear cname env c)) = in_flight c"
    "acct (snd (flush_request path c)) = acct c" "objs (snd (flush_request path c)) = objs c"
    "in_flight (snd (flush_request path c)) = in_flight c"
proof -
  show "keeps q c (snd (refresh cname d path c))"
  proof (cases "refresh_check (cache_normalise_path path) c")
    case None
    then have "\<exists>ob. lookup (objs c) (cache_normalise_path path) = Some ob \<and> \<not> unsent (ostate ob)"
      by (auto simp: refresh_check_def split: option.splits if_splits)
    then show ?thesis
      by (auto simp: refresh_def Let_def None keeps_def forget_effect map_simps)
  qed (simp add: refresh_def Let_def keeps_refl)
qed (auto simp: refresh_def clear_def clear_plan_def flush_request_def Let_def acct_forget acct_forget_all
    forget_versions forget_all_versions no_new_clean_refl split: option.splits)

lemma clear_keeps:
  assumes "acct c"
  shows "keeps q c (snd (clear cname env c))"
proof (cases "unsent_count c = 0")
  case True
  then show ?thesis using unsent_count_zero [OF assms] by (auto simp: keeps_def)
qed (simp add: clear_def clear_plan_def keeps_refl)

lemma clean_justified_mono:
  assumes "\<forall>p ob. lookup (objs (gw_cache s)) p = Some ob \<longrightarrow> ostate ob = StateClean \<longrightarrow> clean_justified s ob"
    and "no_new_clean (gw_cache s) (gw_cache s')"
    and "set (gw_filled s) \<subseteq> set (gw_filled s')" and "set (gw_accepted s) \<subseteq> set (gw_accepted s')"
    and "lookup (objs (gw_cache s')) p = Some ob" and "ostate ob = StateClean"
  shows "clean_justified s' ob"
proof -
  obtain ob0 where "lookup (objs (gw_cache s)) p = Some ob0" "ostate ob0 = StateClean" "same_version ob0 ob"
    using assms(2,5,6) unfolding no_new_clean_def by blast
  then have "clean_justified s ob0" "remote_path ob = remote_path ob0" "stored_at ob = stored_at ob0"
    using assms(1) by (auto simp: same_version_def)
  with assms(3,4) show ?thesis unfolding clean_justified_def by fastforce
qed

lemma gw_inv_cache:
  assumes "gw_inv s" and "acct c" and "no_new_clean (gw_cache s) c"
    and "wf_map (in_flight c) \<and> keys (in_flight c) = keys (in_flight (gw_cache s))"
    and "gw_cache s' = c \<and> gw_tasks s' = gw_tasks s \<and> gw_accepted s' = gw_accepted s \<and> gw_filled s' = gw_filled s"
    and "\<forall>(w, req) \<in> set (gw_puts s'). writer_ok w \<and> pr_path req \<noteq> []" and "\<forall>w \<in> set (gw_fills s'). writer_ok w"
  shows "gw_inv s'"
proof -
  have "clean_justified s' ob" if "lookup (objs (gw_cache s')) p = Some ob" "ostate ob = StateClean" for p ob
    by (rule clean_justified_mono [of s s' p]) (use assms that in \<open>auto simp: gw_inv_def\<close>)
  with assms show ?thesis by (simp add: gw_inv_def)
qed

lemma gw_inv_parts:
  assumes "gw_inv s"
  shows "acct (gw_cache s)" "wf_map (in_flight (gw_cache s))"
    "gw_puts s = a @ (w, req) # b \<Longrightarrow> writer_ok w \<and> pr_path req \<noteq> []"
    "gw_fills s = a' @ v # b' \<Longrightarrow> writer_ok v"
    "\<forall>(w, req) \<in> set (gw_puts s). writer_ok w \<and> pr_path req \<noteq> []" "\<forall>w \<in> set (gw_fills s). writer_ok w"
    "keys (in_flight (gw_cache s)) = (remote_path \<circ> fst) ` set (gw_tasks s)"
    "distinct (map (remote_path \<circ> fst) (gw_tasks s))"
    "\<forall>p ob. lookup (objs (gw_cache s)) p = Some ob \<longrightarrow> ostate ob = StateClean \<longrightarrow> clean_justified s ob"
  using assms by (auto simp: gw_inv_def)

lemma put_frame:
  "put req tmp c = (Inr (w, req'), c') \<Longrightarrow> objs c' = objs c \<and> in_flight c' = in_flight c \<and> (acct c \<longrightarrow> acct c')"
  by (auto simp: put_def new_writer_def start_writer_def Let_def split: if_splits option.splits sum.splits prod.splits)

lemma fill_frame:
  "fill remote tmp c = (Inr w, c') \<Longrightarrow>
     objs c' = objs c \<and> in_flight c' = in_flight c \<and> (acct c \<longrightarrow> acct c') \<and> writer_ok w"
  using cache_normalise_nonempty [of remote]
  by (auto simp: fill_def new_writer_def start_writer_def writer_ok_def Let_def split: if_splits option.splits)

lemma write_frame:
  "writer_write bs k w c = (res, w', c') \<Longrightarrow> objs c' = objs c \<and> in_flight c' = in_flight c \<and> (acct c \<longrightarrow> acct c')"
  "writer_abort w c = (w', c') \<Longrightarrow> objs c' = objs c \<and> in_flight c' = in_flight c \<and> (acct c \<longrightarrow> acct c')"
  by (auto simp: writer_write_def writer_abort_def Let_def split: if_splits)

lemma fill_commit_inv:
  assumes "gw_inv s" and "gw_fills s = a @ w # b"
    and "commit_clean md5 cname now e env want w (gw_cache s) = (r, w', c)"
  shows "gw_inv (s\<lparr>gw_cache := c, gw_fills := a @ b, gw_filled := (w_path w, now) # gw_filled s\<rparr>)" (is "gw_inv ?s")
proof -
  note i = gw_inv_parts [OF assms(1)]
  have wok: "writer_ok w" using i(4) [OF assms(2)] .
  have "acct c" using acct_commit_clean [OF i(1) wok] assms(3) by (metis snd_conv)
  moreover have "in_flight c = in_flight (gw_cache s)"
    using commit_clean_frame [of md5 cname now e env want w "gw_cache s"] assms(3) by simp
  moreover have "clean_justified ?s ob" if "lookup (objs c) p = Some ob" "ostate ob = StateClean" for p ob
    using commit_clean_versions(2) [OF i(1) wok assms(3) that]
  proof
    assume "remote_path ob = w_path w \<and> stored_at ob = now"
    then show ?thesis by (simp add: clean_justified_def)
  next
    assume "\<exists>ob0. lookup (objs (gw_cache s)) p = Some ob0 \<and> ostate ob0 = StateClean \<and> same_version ob0 ob"
    then obtain ob0 where "lookup (objs (gw_cache s)) p = Some ob0" "ostate ob0 = StateClean" "same_version ob0 ob"
      by blast
    with i(9) show ?thesis by (fastforce simp: clean_justified_def same_version_def)
  qed
  ultimately show ?thesis using assms(1,2) by (simp add: gw_inv_def)
qed

lemma flush_begin_inv:
  assumes "gw_inv s" and "flush_start cname fe p (gw_cache s) = (Some t, c)"
  shows "gw_inv (s\<lparr>gw_cache := c, gw_tasks := t # gw_tasks s\<rparr>)" (is "gw_inv ?s")
proof -
  note i = gw_inv_parts [OF assms(1)]
  obtain ob content where f: "t = (ob, content)" "lookup (objs (gw_cache s)) p = Some ob"
    "lookup (in_flight (gw_cache s)) p = None" "in_flight c = AList.update p False (in_flight (gw_cache s))"
    "no_new_clean (gw_cache s) c" "acct (gw_cache s) \<Longrightarrow> acct c"
    using flush_start_Some [OF assms(2)] by metis
  have p: "remote_path ob = p" using acct_key [OF i(1) f(2)] .
  have "p \<notin> keys (in_flight (gw_cache s))" using f(3) by (simp add: lookup_None_iff)
  then have "p \<notin> (remote_path \<circ> fst) ` set (gw_tasks s)" using i(7) by simp
  moreover have "clean_justified ?s ob'" if "lookup (objs c) q = Some ob'" "ostate ob' = StateClean" for q ob'
    by (rule clean_justified_mono [of s ?s q]) (use i(9) f(5) that in auto)
  ultimately show ?thesis
    using assms(1) f(1,4,6) i p by (auto simp: gw_inv_def keys_update)
qed

lemma keys_without_task:
  assumes "distinct (map g (a @ t # b))"
  shows "g ` set (a @ t # b) - {g t} = g ` set (a @ b)"
proof -
  have "g t \<notin> g ` set a" "g t \<notin> g ` set b" using assms by auto
  then show ?thesis by (simp add: insert_Diff_if image_Un Un_Diff)
qed

lemma flush_done_inv:
  assumes "gw_inv s" and "gw_tasks s = a @ (ob, content) # b"
    and "flush_finish cname fe ob reply (gw_cache s) = c"
  shows "gw_inv (s\<lparr>gw_cache := c, gw_tasks := a @ b,
         gw_accepted := (if reply_accepted ob reply then (ob, reported_hash reply) # gw_accepted s else gw_accepted s)\<rparr>)"
    (is "gw_inv ?s")
proof -
  note i = gw_inv_parts [OF assms(1)]
  note f = flush_finish_effect [OF i(1) assms(3)]
  have "keys (in_flight c) = (remote_path \<circ> fst) ` set (a @ b)"
    unfolding f(2) keys_delete i(7) assms(2)
    using keys_without_task [of "remote_path \<circ> fst" a "(ob, content)" b] i(8) assms(2) by simp
  moreover have "wf_map (in_flight c)" unfolding f(2) using i(2) by simp
  moreover have "distinct (map (remote_path \<circ> fst) (a @ b))" using i(8) assms(2) by simp
  moreover have "clean_justified ?s ob'" if "lookup (objs c) q = Some ob'" "ostate ob' = StateClean" for q ob'
    using f(5) [OF that]
  proof
    assume "reply_accepted ob reply \<and> remote_path ob' = remote_path ob \<and> stored_at ob' = stored_at ob"
    then show ?thesis
      by (auto simp: clean_justified_def reply_accepted_def reported_hash_def split: upload_reply.splits)
  next
    assume "\<exists>ob0. lookup (objs (gw_cache s)) q = Some ob0 \<and> ostate ob0 = StateClean \<and> same_version ob0 ob'"
    then obtain ob0 where o: "lookup (objs (gw_cache s)) q = Some ob0" "ostate ob0 = StateClean" "same_version ob0 ob'"
      by blast
    then have "clean_justified s ob0" using i(9) by blast
    with o(3) show ?thesis by (auto simp: clean_justified_def same_version_def)
  qed
  ultimately show ?thesis using assms(1,2) f(1) by (simp add: gw_inv_def)
qed

lemma gw_inv_step:
  assumes "gw_step md5 cname s ev s'" and "gw_inv s"
  shows "gw_inv s'"
  using assms(1)
proof cases
  case (put_start req tmp w req' c)
  show ?thesis
    by (rule gw_inv_cache [OF assms(2), where c = "gw_cache s'"])
       (use put_start(2) put_frame [OF put_start(3)] put_Inr [OF put_start(3)] gw_inv_parts [OF assms(2)]
          cache_normalise_nonempty in \<open>auto simp: no_new_clean_refl\<close>)
next
  case (put_write a w req b bs k res w' c)
  show ?thesis
    by (rule gw_inv_cache [OF assms(2), where c = "gw_cache s'"])
       (use put_write(2) write_frame(1) [OF put_write(4)] writer_write_ok [OF _ put_write(4)] gw_inv_parts [OF assms(2)]
          put_write(3) in \<open>auto simp: no_new_clean_refl\<close>)
next
  case (put_abort a w req b w' c)
  show ?thesis
    by (rule gw_inv_cache [OF assms(2), where c = "gw_cache s'"])
       (use put_abort(2) write_frame(2) [OF put_abort(4)] gw_inv_parts [OF assms(2)] put_abort(3) in \<open>auto simp: no_new_clean_refl\<close>)
next
  case (put_commit a w req b now e env r w' c)
  note i = gw_inv_parts [OF assms(2)]
  note wr = i(3) [OF put_commit(3)]
  show ?thesis
    by (rule gw_inv_cache [OF assms(2), where c = "gw_cache s'"])
       (use put_commit(2) acct_put_commit [OF i(1), of w req md5 cname now e env] wr put_commit(3,4) i
          put_commit_frame [of md5 cname now e env req w "gw_cache s"]
          put_commit_versions(1) [OF i(1) _ _ put_commit(4)] in auto)
next
  case (fill_start remote tmp w c)
  show ?thesis
    by (rule gw_inv_cache [OF assms(2), where c = "gw_cache s'"])
       (use fill_start(2) fill_frame [OF fill_start(3)] gw_inv_parts [OF assms(2)] in \<open>auto simp: no_new_clean_refl\<close>)
next
  case (fill_write a w b bs k res w' c)
  show ?thesis
    by (rule gw_inv_cache [OF assms(2), where c = "gw_cache s'"])
       (use fill_write(2) write_frame(1) [OF fill_write(4)] writer_write_ok [OF _ fill_write(4)] gw_inv_parts [OF assms(2)]
          fill_write(3) in \<open>auto simp: no_new_clean_refl\<close>)
next
  case (fill_abort a w b w' c)
  show ?thesis
    by (rule gw_inv_cache [OF assms(2), where c = "gw_cache s'"])
       (use fill_abort(2) write_frame(2) [OF fill_abort(4)] gw_inv_parts [OF assms(2)] fill_abort(3) in \<open>auto simp: no_new_clean_refl\<close>)
next
  case (fill_commit a w b now e env want r w' c)
  then show ?thesis using fill_commit_inv [OF assms(2)] by blast
next
  case (get now open_ok d tio remote r c)
  show ?thesis
    by (rule gw_inv_cache [OF assms(2), where c = "gw_cache s'"])
       (use get(2) acct_get [of "gw_cache s" cname now open_ok d tio remote] get_frame [of cname now open_ok d tio remote "gw_cache s"]
          dc_get_versions(1) [OF get(3)] get(3) gw_inv_parts [OF assms(2)] in auto)
next
  case (flush_begin fe p t c)
  then show ?thesis using flush_begin_inv [OF assms(2)] by blast
next
  case (flush_none fe p c)
  note i = gw_inv_parts [OF assms(2)]
  have "wf_map (in_flight c) \<and> keys (in_flight c) = keys (in_flight (gw_cache s))"
    using flush_start_None(1) [OF flush_none(3)]
  proof
    assume "in_flight c = in_flight (gw_cache s)"
    with i(2) show ?thesis by simp
  next
    assume h: "in_flight c = AList.delete p (AList.update p False (in_flight (gw_cache s)))
        \<and> p \<notin> keys (in_flight (gw_cache s))"
    then have "keys (in_flight c) = keys (in_flight (gw_cache s))"
      by (metis Diff_insert_absorb keys_delete keys_update)
    with h i(2) show ?thesis by simp
  qed
  then show ?thesis
    by (intro gw_inv_cache [OF assms(2), where c = "gw_cache s'"])
       (use flush_none(2) flush_start_None(2,4) [OF flush_none(3)] i in auto)
next
  case (flush_done a ob content b fe reply c)
  then show ?thesis using flush_done_inv [OF assms(2)] by blast
next
  case (refresh d path r c)
  have c: "c = snd (refresh cname d path (gw_cache s))" using refresh(3) by simp
  note i = gw_inv_parts [OF assms(2)]
  show ?thesis
    by (rule gw_inv_cache [OF assms(2), where c = c])
       (use i(5,6) in \<open>simp_all add: c refresh(2) plain_effects i(1,2)\<close>)
next
  case (remove d p r c)
  note i = gw_inv_parts [OF assms(2)]
  show ?thesis
    by (rule gw_inv_cache [OF assms(2), where c = c])
       (use i(5,6) remove_attempt_effect [OF remove(3)] in \<open>simp_all add: remove(2) i(1,2)\<close>)
next
  case (clear env r c)
  have c: "c = snd (clear cname env (gw_cache s))" using clear(3) by simp
  note i = gw_inv_parts [OF assms(2)]
  show ?thesis
    by (rule gw_inv_cache [OF assms(2), where c = c])
       (use i(5,6) in \<open>simp_all add: c clear(2) plain_effects i(1,2)\<close>)
next
  case (request path r c)
  have c: "c = snd (flush_request path (gw_cache s))" using request(3) by simp
  note i = gw_inv_parts [OF assms(2)]
  show ?thesis
    by (rule gw_inv_cache [OF assms(2), where c = c])
       (use i(5,6) in \<open>simp_all add: c request(2) plain_effects i(1,2) no_new_clean_refl\<close>)
next
  case (take_queued p q)
  show ?thesis
    by (rule gw_inv_cache [OF assms(2), where c = "gw_cache s'"])
       (use take_queued(2) gw_inv_parts [OF assms(2)] in \<open>auto simp: no_new_clean_refl acct_def\<close>)
next
  case wait
  show ?thesis
    by (rule gw_inv_cache [OF assms(2), where c = "gw_cache s'"])
       (use wait(2) gw_inv_parts [OF assms(2)] in \<open>auto simp: no_new_clean_refl acct_def waiter_locked_def\<close>)
next
  case drain
  show ?thesis
    by (rule gw_inv_cache [OF assms(2), where c = "gw_cache s'"])
       (use drain(2) gw_inv_parts [OF assms(2)] in \<open>auto simp: no_new_clean_refl acct_def\<close>)
next
  case close
  show ?thesis
    by (rule gw_inv_cache [OF assms(2), where c = "gw_cache s'"])
       (use close(2) gw_inv_parts [OF assms(2)] in \<open>auto simp: no_new_clean_refl acct_def close_cache_def\<close>)
qed

section \<open>Unsent objects from step to step\<close>

definition about :: "string \<Rightarrow> gw_event set" where
  "about p = {EvStored p, EvFilled p, EvLost p, EvRemoved p, EvSent p}"

lemma gw_keeps_step:
  assumes "gw_step md5 cname s ev s'" and "gw_inv s" and "ev \<notin> about p"
  shows "keeps p (gw_cache s) (gw_cache s')"
  using assms(1)
proof cases
  case (put_start req tmp w req' c)
  then show ?thesis using put_frame [OF put_start(3)] by (simp add: keeps_refl)
next
  case (put_write a w req b bs k res w' c)
  then show ?thesis using write_frame(1) [OF put_write(4)] by (simp add: keeps_refl)
next
  case (put_abort a w req b w' c)
  then show ?thesis using write_frame(2) [OF put_abort(4)] by (simp add: keeps_refl)
next
  case (put_commit a w req b now e env r w' c)
  note i = gw_inv_parts [OF assms(2)]
  have "\<not> is_ok r \<or> p \<noteq> pr_path req" using assms(3) put_commit(1) by (auto simp: about_def split: if_splits)
  with put_commit_versions(2) [OF i(1) _ _ put_commit(4)] i(3) [OF put_commit(3)] put_commit(2)
  show ?thesis by simp
next
  case (fill_start remote tmp w c)
  then show ?thesis using fill_frame [OF fill_start(3)] by (simp add: keeps_refl)
next
  case (fill_write a w b bs k res w' c)
  then show ?thesis using write_frame(1) [OF fill_write(4)] by (simp add: keeps_refl)
next
  case (fill_abort a w b w' c)
  then show ?thesis using write_frame(2) [OF fill_abort(4)] by (simp add: keeps_refl)
next
  case (fill_commit a w b now e env want r w' c)
  note i = gw_inv_parts [OF assms(2)]
  have "\<not> is_ok r \<or> p \<noteq> w_path w" using assms(3) fill_commit(1) by (auto simp: about_def split: if_splits)
  with commit_clean_versions(1) [OF i(1) i(4) [OF fill_commit(3)] fill_commit(4)] fill_commit(2)
  show ?thesis by simp
next
  case (get now open_ok d tio remote r c)
  have "is_ok r \<or> p \<noteq> cache_normalise_path remote" using assms(3) get(1) by (auto simp: about_def split: if_splits)
  with dc_get_versions(2) [OF get(3)] get(2) show ?thesis by simp
next
  case (flush_begin fe q t c)
  then show ?thesis using flush_start_Some [OF flush_begin(3)] by (metis gateway.select_convs(1) gateway.surjective gateway.update_convs(1) gateway.update_convs(4))
next
  case (flush_none fe q c)
  have "flush_claim q (gw_cache s) = None \<or> p \<noteq> q"
    using assms(3) flush_none(1) by (auto simp: about_def split: if_splits)
  with flush_start_None(3) [OF flush_none(3)] flush_none(2) show ?thesis by simp
next
  case (flush_done a ob content b fe reply c)
  note i = gw_inv_parts [OF assms(2)]
  have "\<not> (reply_accepted ob reply \<and> of_version (remote_path ob) (stored_at ob) (gw_cache s) \<noteq> None) \<or> p \<noteq> remote_path ob"
    using assms(3) flush_done(1) by (auto simp: about_def split: if_splits)
  with flush_finish_effect(4) [OF i(1) flush_done(4)] flush_done(2) show ?thesis by simp
next
  case (refresh d path r c)
  then have "c = snd (refresh cname d path (gw_cache s))" by simp
  then show ?thesis by (simp add: refresh(2) plain_effects)
next
  case (remove d q r c)
  have "(\<forall>u. r \<noteq> RemoveDropped u) \<or> p \<noteq> q"
    using assms(3) remove(1) by (auto simp: about_def)
  with remove_attempt_effect(3) [OF remove(3)] remove(2) show ?thesis by simp
next
  case (clear env r c)
  then have "c = snd (clear cname env (gw_cache s))" by simp
  then show ?thesis using clear_keeps gw_inv_parts(1) [OF assms(2)] by (simp add: clear(2))
next
  case (request path r c)
  then have "c = snd (flush_request path (gw_cache s))" by simp
  then show ?thesis by (simp add: request(2) keeps_refl plain_effects)
qed (simp_all add: keeps_refl waiter_locked_def close_cache_def)

lemma gw_run_inv: "gw_run md5 cname s evs s' \<Longrightarrow> gw_inv s \<Longrightarrow> gw_inv s'"
  by (induction rule: gw_run.induct) (auto intro: gw_inv_step)

lemma gw_run_keeps:
  "gw_run md5 cname s evs s' \<Longrightarrow> gw_inv s \<Longrightarrow> set evs \<inter> about p = {} \<Longrightarrow> keeps p (gw_cache s) (gw_cache s')"
proof (induction rule: gw_run.induct)
  case (run_stop s)
  show ?case by (rule keeps_refl) (rule refl)
next
  case (run_step s evs s' ev s'')
  then show ?case
    using gw_keeps_step [OF run_step.hyps(2), of p] gw_run_inv [OF run_step.hyps(1)] keeps_trans by auto
qed

lemma gw_start_inv: "acct c \<Longrightarrow> in_flight c = [] \<Longrightarrow> gw_inv (gw_start c)"
  using acct_mem [of c] acct_key [of c] by (force simp: gw_inv_def gw_start_def clean_justified_def)

section \<open>Properties of every run\<close>

text \<open>C5: In every run of the gateway, whatever clients, workers and disk do, the two byte counters are the
  sums over the index they are meant to be, every object is filed under its own path, the cache is never
  reported to hold more unsent than total bytes, and no path is being uploaded twice: the uploads under way
  are exactly those the in-flight table names.\<close>
theorem gateway_invariant:
  assumes "gw_run md5 cname (gw_start c0) evs s" and "acct c0" and "in_flight c0 = []"
  shows "dc_bytes (gw_cache s) = total obj_size (objs (gw_cache s))
    \<and> dirty (gw_cache s) = total unsent_size (objs (gw_cache s))
    \<and> dirty (gw_cache s) \<le> dc_bytes (gw_cache s)
    \<and> (\<forall>p ob. lookup (objs (gw_cache s)) p = Some ob \<longrightarrow> remote_path ob = p)
    \<and> distinct (map (remote_path \<circ> fst) (gw_tasks s))
    \<and> keys (in_flight (gw_cache s)) = (remote_path \<circ> fst) ` set (gw_tasks s)"
proof -
  have "gw_inv s" by (rule gw_run_inv [OF assms(1) gw_start_inv [OF assms(2,3)]])
  note i = gw_inv_parts [OF this]
  show ?thesis
    using acct_bytes [OF i(1)] acct_dirty [OF i(1)] acct_dirty_bounds [OF i(1)] acct_key [OF i(1)] i(7,8) by blast
qed

text \<open>C4: An object is clean only on evidence about its own version: in every run, each clean object was
  stored by a fill (or was clean at start), or an upload of that version of it, the one stored at that
  path at that time, was answered by upstream without an error and with the hash computed when it was
  written, or with no hash at all.\<close>
theorem clean_means_confirmed:
  assumes "gw_run md5 cname (gw_start c0) evs s" and "acct c0" and "in_flight c0 = []"
    and "lookup (objs (gw_cache s)) p = Some ob" and "ostate ob = StateClean"
  shows "(p, stored_at ob) \<in> set (gw_filled s)
    \<or> (\<exists>(sent, h) \<in> set (gw_accepted s).
         remote_path sent = p \<and> stored_at sent = stored_at ob \<and> (h = [] \<or> equal_fold h (obj_hash sent)))"
proof -
  have "gw_inv s" by (rule gw_run_inv [OF assms(1) gw_start_inv [OF assms(2,3)]])
  note i = gw_inv_parts [OF this]
  have "clean_justified s ob" using i(9) assms(4,5) by blast
  with acct_key [OF i(1) assms(4)] show ?thesis by (simp add: clean_justified_def)
qed


section \<open>A run\<close>

text \<open>One unsent object, its content on disk, and a flush of it that fails once and then succeeds.\<close>

definition run_cache :: datacache where
  "run_cache =
     (empty_cache small_config)\<lparr>objs := [(''/a'', small_object ''/a'' 1 StateDirty 5)], dc_bytes := 1, dirty := 1,
       dc_disk := empty_disk\<lparr>live := [(keep_cname ''/a'', \<lparr>fcontent = ''x'', fsynced = True\<rparr>)]\<rparr>\<rparr>"

definition run_env :: flush_env where
  "run_env =
     \<lparr>fe_uploading = (JOk, 10), fe_open_ok = True, fe_drop = drop_ok [], fe_result = (JOk, 11), fe_evict = drop_ok\<rparr>"

definition claimed :: "int \<Rightarrow> object" where
  "claimed n = (small_object ''/a'' 1 StateDirty 5)\<lparr>flush_attempts := n\<rparr>"

lemma acct_run_cache: "acct run_cache"
  by (simp add: acct_def run_cache_def empty_cache_def small_object_def unsent_size_def)

lemma run_cache_idle: "in_flight run_cache = []"
  by (simp add: run_cache_def empty_cache_def)

definition after_claim :: datacache where
  "after_claim = snd (flush_start keep_cname run_env ''/a'' run_cache)"

lemma claim_step:
  "gw_step md5 keep_cname (gw_start run_cache) EvOther
     ((gw_start run_cache)\<lparr>gw_cache := after_claim, gw_tasks := [(small_object ''/a'' 1 StateDirty 5, ''x'')]\<rparr>)"
proof -
  have "fst (flush_start keep_cname run_env ''/a'' run_cache) = Some (small_object ''/a'' 1 StateDirty 5, ''x'')"
    by code_simp
  then have "flush_start keep_cname run_env ''/a'' (gw_cache (gw_start run_cache)) =
      (Some (small_object ''/a'' 1 StateDirty 5, ''x''), after_claim)"
    by (simp add: gw_start_def after_claim_def prod_eq_iff)
  from gw_step.flush_begin [OF this] show ?thesis by (simp add: gw_start_def)
qed

lemma reply_step:
  fixes reply :: upload_reply
  defines "s1 \<equiv> (gw_start run_cache)\<lparr>gw_cache := after_claim, gw_tasks := [(small_object ''/a'' 1 StateDirty 5, ''x'')]\<rparr>"
  shows "\<exists>s2. gw_step md5 keep_cname s1
       (if reply_accepted (small_object ''/a'' 1 StateDirty 5) reply
          \<and> of_version ''/a'' 5 after_claim \<noteq> None then EvSent ''/a'' else EvOther) s2
     \<and> gw_cache s2 = flush_finish keep_cname run_env (small_object ''/a'' 1 StateDirty 5) reply after_claim"
proof -
  have e: "remote_path (small_object ''/a'' 1 StateDirty 5) = ''/a''"
    "stored_at (small_object ''/a'' 1 StateDirty 5) = 5" "gw_cache s1 = after_claim"
    by (simp_all add: small_object_def s1_def)
  have t: "gw_tasks s1 = [] @ (small_object ''/a'' 1 StateDirty 5, ''x'') # []" by (simp add: s1_def)
  note st = gw_step.flush_done [OF t refl, where cname = keep_cname and fe = run_env and reply = reply, unfolded e]
  show ?thesis by (intro exI conjI, rule st) simp
qed

lemma sent_run:
  obtains s ob where "gw_run md5 keep_cname (gw_start run_cache) [EvOther, EvSent ''/a''] s"
    "lookup (objs (gw_cache s)) ''/a'' = Some ob" "ostate ob = StateClean" "stored_at ob = 5"
proof -
  obtain s2 where s2: "gw_step md5 keep_cname
      ((gw_start run_cache)\<lparr>gw_cache := after_claim, gw_tasks := [(small_object ''/a'' 1 StateDirty 5, ''x'')]\<rparr>)
      (if reply_accepted (small_object ''/a'' 1 StateDirty 5) (Uploaded ''H'')
          \<and> of_version ''/a'' 5 after_claim \<noteq> None then EvSent ''/a'' else EvOther) s2"
    "gw_cache s2 = flush_finish keep_cname run_env (small_object ''/a'' 1 StateDirty 5) (Uploaded ''H'') after_claim"
    using reply_step [of md5 "Uploaded ''H''"] by blast
  have "reply_accepted (small_object ''/a'' 1 StateDirty 5) (Uploaded ''H'') \<and> of_version ''/a'' 5 after_claim \<noteq> None"
    by code_simp
  with s2(1) have "gw_run md5 keep_cname (gw_start run_cache) ([EvOther] @ [EvSent ''/a'']) s2"
    using run_step [OF run_step [OF run_stop claim_step]] by auto
  moreover have "case lookup (objs (flush_finish keep_cname run_env (small_object ''/a'' 1 StateDirty 5) (Uploaded ''H'') after_claim)) ''/a'' of
      None \<Rightarrow> False | Some ob \<Rightarrow> ostate ob = StateClean \<and> stored_at ob = 5"
    by code_simp
  ultimately show thesis using that s2(2) by (auto split: option.splits)
qed

lemma gateway_invariant_witness:
  "\<exists>s. gw_run rev keep_cname (gw_start run_cache) [EvOther, EvSent ''/a''] s
     \<and> dirty (gw_cache s) = total unsent_size (objs (gw_cache s)) \<and> dirty (gw_cache s) \<le> dc_bytes (gw_cache s)"
proof -
  obtain s where r: "gw_run rev keep_cname (gw_start run_cache) [EvOther, EvSent ''/a''] s"
    using sent_run by metis
  from gateway_invariant [OF r acct_run_cache run_cache_idle] r show ?thesis by blast
qed

lemma clean_means_confirmed_witness:
  "\<exists>s ob. lookup (objs (gw_cache s)) ''/a'' = Some ob \<and> ostate ob = StateClean
     \<and> gw_run rev keep_cname (gw_start run_cache) [EvOther, EvSent ''/a''] s
     \<and> ((''/a'', stored_at ob) \<in> set (gw_filled s)
        \<or> (\<exists>(sent, h) \<in> set (gw_accepted s).
             remote_path sent = ''/a'' \<and> stored_at sent = stored_at ob \<and> (h = [] \<or> equal_fold h (obj_hash sent))))"
proof -
  obtain s ob where r: "gw_run rev keep_cname (gw_start run_cache) [EvOther, EvSent ''/a''] s"
    "lookup (objs (gw_cache s)) ''/a'' = Some ob" "ostate ob = StateClean"
    using sent_run by metis
  from clean_means_confirmed [OF r(1) acct_run_cache run_cache_idle r(2,3)] r show ?thesis by blast
qed


section \<open>What counts as evidence\<close>

text \<open>An upload that is answered without a hash is taken as verified: nothing is compared and the object
  becomes clean.\<close>
lemma empty_hash_marks_clean:
  "state_of ''/a'' (flush_one keep_cname run_env (\<lambda>_ _. Uploaded []) ''/a'' run_cache) = Some StateClean"
  by code_simp

text \<open>A version is its path and its time. A rewrite committed within the same clock reading as the
  version under upload is taken for that version: when the upload of the old bytes ends, the new ones, which
  were never sent, are marked clean.\<close>
lemma same_tick_rewrite_marked_clean:
  "(let c1 = snd (flush_start keep_cname run_env ''/a'' run_cache);
        c2 = index_put ((small_object ''/a'' 2 StateDirty 5)\<lparr>obj_hash := ''other''\<rparr>) c1;
        c3 = flush_finish keep_cname run_env (small_object ''/a'' 1 StateDirty 5) (Uploaded ''h'') c2
    in state_of ''/a'' c3 = Some StateClean \<and> dirty c3 = 0
       \<and> map_option obj_hash (lookup (objs c3) ''/a'') = Some ''other'')"
  by code_simp

end
