(* ===== verification/Recovery.thy ===== *)
theory Recovery
  imports Gateway
begin

text \<open>
  Opening the cache (\<open>Open\<close> and \<open>verifyAgainstDisk\<close> of \<open>store.go\<close>), and what is left of an
  acknowledged write after a power cut.
\<close>

section \<open>Open\<close>

record verify_state =
  vf_objs :: "(string, object) gomap"
  vf_bytes :: int
  vf_dirty :: int
  vf_lost :: "string list"
  vf_names :: "(string, int) gomap" \<comment> \<open>content files not yet accounted for, with their sizes\<close>
  vf_disk :: disk

definition content_files :: "disk \<Rightarrow> (string, int) gomap" where
  "content_files d =
     map (\<lambda>(n, f). (n, int (length (fcontent f)))) (filter (\<lambda>(n, f). suffix ''.bin'' n) (live d))"

definition lose :: "string \<Rightarrow> object \<Rightarrow> verify_state \<Rightarrow> verify_state" where
  "lose p ob v =
     v\<lparr>vf_lost := (if unsent (ostate ob) then vf_lost v @ [p] else vf_lost v),
       vf_objs := AList.delete p (vf_objs v)\<rparr>"

definition verify_entry :: "(string \<Rightarrow> string) \<Rightarrow> string \<times> object \<Rightarrow> verify_state \<Rightarrow> verify_state" where
  "verify_entry cname po v =
     (case po of (p, ob) \<Rightarrow>
        case lookup (vf_names v) (cname p) of
          None \<Rightarrow> lose p ob v
        | Some n \<Rightarrow>
            if n \<noteq> obj_size ob then
              (lose p ob v)\<lparr>vf_disk := remove_file (cname p) (vf_disk v)\<rparr>
            else
              v\<lparr>vf_bytes := vf_bytes v + obj_size ob,
                vf_dirty := (if unsent (ostate ob) then vf_dirty v + obj_size ob else vf_dirty v),
                vf_names := AList.delete (cname p) (vf_names v)\<rparr>)"

definition verify_against_disk :: "(string \<Rightarrow> string) \<Rightarrow> (string, object) gomap \<Rightarrow> disk \<Rightarrow> verify_state" where
  "verify_against_disk cname m d =
     (let v = fold (verify_entry cname) m
                \<lparr>vf_objs = m, vf_bytes = 0, vf_dirty = 0, vf_lost = [], vf_names = content_files d, vf_disk = d\<rparr>
      in v\<lparr>vf_disk := fold remove_file (map fst (vf_names v)) (vf_disk v)\<rparr>)"

text \<open>\<open>Open\<close>, with a configuration that has its defaults. The result also says what the log would: whether
  the journal was torn, and which unsent objects were lost.\<close>

definition open_cache :: "(string \<Rightarrow> string) \<Rightarrow> config \<Rightarrow> disk \<Rightarrow> datacache \<times> bool \<times> string list" where
  "open_cache cname g d =
     (case replay_journal d of (m, n, torn) \<Rightarrow>
        let v = verify_against_disk cname m d;
            c = (empty_cache g)\<lparr>objs := vf_objs v, dc_bytes := vf_bytes v, dirty := vf_dirty v, dc_disk := vf_disk v\<rparr>;
            c1 = (if int n > compact_after then c\<lparr>dc_disk := compact_journal (snapshot c) (vf_disk v)\<rparr> else c);
            c2 = (if write_back g then requeue_unsent c1 else c1)
        in (c2, torn, vf_lost v))"

section \<open>Verification against the directory\<close>

definition whole :: "(string \<Rightarrow> string) \<Rightarrow> disk \<Rightarrow> string \<Rightarrow> object \<Rightarrow> bool" where
  "whole cname d p ob \<longleftrightarrow>
     (\<exists>f. lookup (live d) (cname p) = Some f \<and> int (length (fcontent f)) = obj_size ob)"

lemma lookup_content_files:
  assumes "suffix ''.bin'' n"
  shows "lookup (content_files d) n = map_option (\<lambda>f. int (length (fcontent f))) (lookup (live d) n)"
proof -
  have "lookup (map (\<lambda>(n, f). (n, int (length (fcontent f)))) (filter (\<lambda>(n, f). suffix ''.bin'' n) m)) n
      = map_option (\<lambda>f. int (length (fcontent f))) (lookup m n)" for m
    using assms by (induction m) auto
  then show ?thesis by (simp add: content_files_def)
qed

definition keep_entry :: "(string, int) gomap \<Rightarrow> (string \<Rightarrow> string) \<Rightarrow> string \<times> object \<Rightarrow> bool" where
  "keep_entry names cname po = (lookup names (cname (fst po)) = Some (obj_size (snd po)))"

lemma verify_fold:
  assumes "wf_map es" and "inj cname"
  shows "vf_objs (fold (verify_entry cname) es v)
       = fold (\<lambda>po. if keep_entry (vf_names v) cname po then id else AList.delete (fst po)) es (vf_objs v)
    \<and> vf_bytes (fold (verify_entry cname) es v) = vf_bytes v + total obj_size (filter (keep_entry (vf_names v) cname) es)
    \<and> vf_dirty (fold (verify_entry cname) es v) = vf_dirty v + total unsent_size (filter (keep_entry (vf_names v) cname) es)
    \<and> vf_names (fold (verify_entry cname) es v)
       = fold (\<lambda>po. if keep_entry (vf_names v) cname po then AList.delete (cname (fst po)) else id) es (vf_names v)"
  using assms(1)
proof (induction es arbitrary: v)
  case Nil
  then show ?case by simp
next
  case (Cons e es)
  obtain p ob where e: "e = (p, ob)" by (cases e)
  have p: "p \<notin> fst ` set es" using Cons.prems e by auto
  let ?v = "verify_entry cname e v"
  have names: "keep_entry (vf_names ?v) cname po = keep_entry (vf_names v) cname po" if "po \<in> set es" for po
  proof -
    have "fst po \<noteq> p" using that p by force
    then have "cname (fst po) \<noteq> cname p" using assms(2) by (auto simp: inj_def)
    then show ?thesis
      by (auto simp: verify_entry_def e keep_entry_def lose_def map_simps split: option.splits)
  qed
  have f: "filter (keep_entry (vf_names ?v) cname) es = filter (keep_entry (vf_names v) cname) es"
    using names by (intro filter_cong) auto
  have g: "fold (\<lambda>po. if keep_entry (vf_names ?v) cname po then h1 po else h2 po) es x
      = fold (\<lambda>po. if keep_entry (vf_names v) cname po then h1 po else h2 po) es x"
    for h1 h2 :: "string \<times> object \<Rightarrow> 'b \<Rightarrow> 'b" and x
    using names by (intro fold_cong) auto
  have step: "vf_objs ?v = (if keep_entry (vf_names v) cname e then vf_objs v else AList.delete p (vf_objs v))"
    "vf_bytes ?v = (if keep_entry (vf_names v) cname e then vf_bytes v + obj_size ob else vf_bytes v)"
    "vf_dirty ?v = (if keep_entry (vf_names v) cname e then vf_dirty v + unsent_size ob else vf_dirty v)"
    "vf_names ?v = (if keep_entry (vf_names v) cname e then AList.delete (cname p) (vf_names v) else vf_names v)"
    by (auto simp: verify_entry_def e keep_entry_def lose_def unsent_size_def split: option.splits)
  have "wf_map es" using Cons.prems by simp
  from Cons.IH [OF this, of ?v] show ?case
    unfolding f g by (simp add: step [unfolded e] e)
qed

lemma verify_names_step:
  assumes "wf_map (e # es)" and "inj cname" and "po \<in> set es"
  shows "keep_entry (vf_names (verify_entry cname e v)) cname po = keep_entry (vf_names v) cname po"
    and "lookup (vf_names (verify_entry cname e v)) (cname (fst po)) = lookup (vf_names v) (cname (fst po))"
proof -
  have "fst e \<notin> fst ` set es" using assms(1) by simp
  then have "fst po \<noteq> fst e" using assms(3) by (metis imageI)
  then have "cname (fst po) \<noteq> cname (fst e)" using assms(2) by (auto simp: inj_def)
  then show "lookup (vf_names (verify_entry cname e v)) (cname (fst po)) = lookup (vf_names v) (cname (fst po))"
    by (auto simp: verify_entry_def lose_def map_simps split: option.splits prod.splits)
  then show "keep_entry (vf_names (verify_entry cname e v)) cname po = keep_entry (vf_names v) cname po"
    by (simp add: keep_entry_def)
qed

lemma verify_lost:
  assumes "wf_map es" and "inj cname"
  shows "vf_lost (fold (verify_entry cname) es v)
       = vf_lost v @ map fst (filter (\<lambda>po. \<not> keep_entry (vf_names v) cname po \<and> unsent (ostate (snd po))) es)"
  using assms(1)
proof (induction es arbitrary: v)
  case Nil
  then show ?case by simp
next
  case (Cons e es)
  have "filter (\<lambda>po. \<not> keep_entry (vf_names (verify_entry cname e v)) cname po \<and> unsent (ostate (snd po))) es
      = filter (\<lambda>po. \<not> keep_entry (vf_names v) cname po \<and> unsent (ostate (snd po))) es"
    using verify_names_step(1) [OF Cons.prems assms(2)] by (intro filter_cong) auto
  moreover have "vf_lost (verify_entry cname e v) =
      (if \<not> keep_entry (vf_names v) cname e \<and> unsent (ostate (snd e)) then vf_lost v @ [fst e] else vf_lost v)"
    by (auto simp: verify_entry_def keep_entry_def lose_def split: option.splits prod.splits)
  ultimately show ?case using Cons.IH [of "verify_entry cname e v"] Cons.prems by simp
qed

lemma verify_live:
  assumes "wf_map es" and "inj cname"
    and "\<forall>po \<in> set es. cname (fst po) = n \<longrightarrow> keep_entry (vf_names v) cname po \<or> lookup (vf_names v) n = None"
  shows "lookup (live (vf_disk (fold (verify_entry cname) es v))) n = lookup (live (vf_disk v)) n"
  using assms(1,3)
proof (induction es arbitrary: v)
  case Nil
  then show ?case by simp
next
  case (Cons e es)
  let ?v = "verify_entry cname e v"
  have "\<forall>po \<in> set es. cname (fst po) = n \<longrightarrow> keep_entry (vf_names ?v) cname po \<or> lookup (vf_names ?v) n = None"
    using Cons.prems(2) verify_names_step [OF Cons.prems(1) assms(2)] by (metis list.set_intros(2))
  moreover have "lookup (live (vf_disk ?v)) n = lookup (live (vf_disk v)) n"
    using Cons.prems(2)
    by (auto simp: verify_entry_def keep_entry_def lose_def remove_file_def map_simps split: option.splits prod.splits)
  ultimately show ?case using Cons.IH [of ?v] Cons.prems(1) by simp
qed

lemma fold_delete_filter:
  "fold (\<lambda>x. if K x then id else AList.delete (g x)) xs m = filter (\<lambda>(k, v). \<forall>x \<in> set xs. \<not> K x \<longrightarrow> g x \<noteq> k) m"
proof (induction xs arbitrary: m)
  case Nil
  then show ?case by (induction m) auto
next
  case (Cons x xs)
  then show ?case by (auto simp: AList.delete_eq intro!: filter_cong)
qed

lemma if_not: "(if \<not> b then x else y) = (if b then y else x)"
  by simp

lemma fold_remove_file:
  "lookup (live (fold remove_file ns d)) n = (if n \<in> set ns then None else lookup (live d) n)
    \<and> durable (fold remove_file ns d) = durable d \<and> jlines (fold remove_file ns d) = jlines d
    \<and> jtail (fold remove_file ns d) = jtail d \<and> jflushed (fold remove_file ns d) = jflushed d"
  by (induction ns arbitrary: d) (auto simp: remove_file_def map_simps)

lemma verify_entry_disk:
  "durable (vf_disk (verify_entry cname e v)) = durable (vf_disk v)
    \<and> jlines (vf_disk (verify_entry cname e v)) = jlines (vf_disk v)
    \<and> jtail (vf_disk (verify_entry cname e v)) = jtail (vf_disk v)
    \<and> jflushed (vf_disk (verify_entry cname e v)) = jflushed (vf_disk v)"
  by (auto simp: verify_entry_def lose_def remove_file_def split: option.splits prod.splits)

lemma verify_disk:
  "durable (vf_disk (fold (verify_entry cname) es v)) = durable (vf_disk v)
    \<and> jlines (vf_disk (fold (verify_entry cname) es v)) = jlines (vf_disk v)
    \<and> jtail (vf_disk (fold (verify_entry cname) es v)) = jtail (vf_disk v)
    \<and> jflushed (vf_disk (fold (verify_entry cname) es v)) = jflushed (vf_disk v)"
  by (induction es arbitrary: v) (auto simp: verify_entry_disk)

section \<open>What verification leaves\<close>

definition is_content_name :: "(string \<Rightarrow> string) \<Rightarrow> bool" where
  "is_content_name cname \<longleftrightarrow> inj cname \<and> (\<forall>p. suffix ''.bin'' (cname p))"

lemma keep_entry_whole:
  "is_content_name cname \<Longrightarrow> keep_entry (content_files d) cname (p, ob) \<longleftrightarrow> whole cname d p ob"
  by (auto simp: keep_entry_def is_content_name_def lookup_content_files whole_def)

lemma verify_result:
  assumes "wf_map m" and "is_content_name cname"
  shows "vf_objs (verify_against_disk cname m d) = filter (\<lambda>(p, ob). whole cname d p ob) m"
    and "vf_bytes (verify_against_disk cname m d) = total obj_size (vf_objs (verify_against_disk cname m d))"
    and "vf_dirty (verify_against_disk cname m d) = total unsent_size (vf_objs (verify_against_disk cname m d))"
    and "vf_lost (verify_against_disk cname m d)
       = map fst (filter (\<lambda>(p, ob). \<not> whole cname d p ob \<and> unsent (ostate ob)) m)"
proof -
  let ?K = "keep_entry (content_files d) cname"
  have inj: "inj cname" using assms(2) by (simp add: is_content_name_def)
  have K: "?K = (\<lambda>(p, ob). whole cname d p ob)" using keep_entry_whole [OF assms(2)] by auto
  have "filter (\<lambda>(k, v). \<forall>x \<in> set m. \<not> ?K x \<longrightarrow> fst x \<noteq> k) m = filter ?K m"
  proof (intro filter_cong refl)
    fix e assume e: "e \<in> set m"
    have u: "x = e" if "x \<in> set m" "fst x = fst e" for x
      using inj_onD [OF _ that(2,1) e] assms(1) by (simp add: distinct_map)
    have "(\<forall>x \<in> set m. \<not> ?K x \<longrightarrow> fst x \<noteq> fst e) \<longleftrightarrow> ?K e" using u e by blast
    then show "(case e of (k, v) \<Rightarrow> \<forall>x \<in> set m. \<not> ?K x \<longrightarrow> fst x \<noteq> k) = ?K e"
      by (cases e) simp
  qed
  then show o: "vf_objs (verify_against_disk cname m d) = filter (\<lambda>(p, ob). whole cname d p ob) m"
    using verify_fold [OF assms(1) inj] by (simp add: verify_against_disk_def Let_def fold_delete_filter K)
  show "vf_bytes (verify_against_disk cname m d) = total obj_size (vf_objs (verify_against_disk cname m d))"
    "vf_dirty (verify_against_disk cname m d) = total unsent_size (vf_objs (verify_against_disk cname m d))"
    unfolding o using verify_fold [OF assms(1) inj] by (simp_all add: verify_against_disk_def Let_def K)
  show "vf_lost (verify_against_disk cname m d)
       = map fst (filter (\<lambda>(p, ob). \<not> whole cname d p ob \<and> unsent (ostate ob)) m)"
    using verify_lost [OF assms(1) inj]
    by (simp add: verify_against_disk_def Let_def K case_prod_unfold)
qed

section \<open>The index after Open\<close>

definition keyed :: "(string, object) gomap \<Rightarrow> bool" where
  "keyed m \<longleftrightarrow> wf_map m \<and> (\<forall>p ob. lookup m p = Some ob \<longrightarrow> remote_path ob = p \<and> p \<noteq> [])"

lemma keyed_update: "keyed m \<Longrightarrow> p \<noteq> [] \<Longrightarrow> remote_path ob = p \<Longrightarrow> keyed (AList.update p ob m)"
  unfolding keyed_def lookup_update by simp

lemma keyed_delete: "keyed m \<Longrightarrow> keyed (AList.delete p m)"
  unfolding keyed_def lookup_delete by simp

lemma keyedD: "keyed m \<Longrightarrow> lookup m p = Some ob \<Longrightarrow> remote_path ob = p \<and> p \<noteq> []"
  by (simp add: keyed_def del: map_of_eq_Some_iff)

lemma keyed_apply: "keyed m \<Longrightarrow> keyed (apply_record r m)"
  unfolding apply_record_def
  by (cases "jop r") (auto intro!: keyed_update keyed_delete dest: keyedD split: option.splits)

lemma keyed_replay_lines: "keyed m \<Longrightarrow> keyed (fst (replay_lines ls tail m n))"
  by (induction ls tail m n rule: replay_lines.induct) (auto intro: keyed_apply)

lemma keyed_replay: "keyed (fst (replay_journal d))"
  unfolding replay_journal_def by (rule keyed_replay_lines) (simp add: keyed_def)

lemma requeue_frame [simp]:
  "objs (requeue_unsent c) = objs c" "dc_bytes (requeue_unsent c) = dc_bytes c" "dirty (requeue_unsent c) = dirty c"
  "dc_disk (requeue_unsent c) = dc_disk c" "dc_cfg (requeue_unsent c) = dc_cfg c" "in_flight (requeue_unsent c) = in_flight c"
  by (simp_all add: requeue_unsent_def)

lemma compact_frame [simp]:
  "live (compact_journal obs d) = live d" "durable (compact_journal obs d) = durable d"
  by (simp_all add: compact_journal_def)

lemma open_cache_parts:
  assumes "open_cache cname g d = (c, torn, lost)"
  shows "objs c = vf_objs (verify_against_disk cname (fst (replay_journal d)) d)"
    "dc_bytes c = vf_bytes (verify_against_disk cname (fst (replay_journal d)) d)"
    "dirty c = vf_dirty (verify_against_disk cname (fst (replay_journal d)) d)"
    "torn = snd (snd (replay_journal d))"
    "lost = vf_lost (verify_against_disk cname (fst (replay_journal d)) d)"
    "live (dc_disk c) = live (vf_disk (verify_against_disk cname (fst (replay_journal d)) d))"
    "dc_cfg c = g" "in_flight c = []"
  using assms
  by (auto simp: open_cache_def Let_def empty_cache_def split: prod.splits if_splits)

lemma lookup_filter_pair:
  "wf_map m \<Longrightarrow> lookup (filter (\<lambda>(k, v). P k v) m) k = Some v \<longleftrightarrow> lookup m k = Some v \<and> P k v"
  unfolding lookup_filter by (cases "lookup m k") auto

lemma open_objs:
  assumes "open_cache cname g d = (c, torn, lost)" and "is_content_name cname"
  shows "lookup (objs c) p = Some ob \<longleftrightarrow> lookup (fst (replay_journal d)) p = Some ob \<and> whole cname d p ob"
  using open_cache_parts(1) [OF assms(1)] keyed_replay [of d]
    verify_result(1) [OF _ assms(2), of "fst (replay_journal d)" d]
  by (simp add: keyed_def lookup_filter_pair)

lemma open_live:
  assumes "open_cache cname g d = (c, torn, lost)" and "is_content_name cname" and "lookup (objs c) p = Some ob"
  shows "lookup (live (dc_disk c)) (cname p) = lookup (live d) (cname p)"
proof -
  let ?m = "fst (replay_journal d)"
  let ?v0 = "\<lparr>vf_objs = ?m, vf_bytes = 0, vf_dirty = 0, vf_lost = [], vf_names = content_files d, vf_disk = d\<rparr>"
  have inj: "inj cname" and wf: "wf_map ?m" using assms(2) keyed_replay by (auto simp: is_content_name_def keyed_def)
  have p: "lookup ?m p = Some ob" "whole cname d p ob"
    using open_objs [OF assms(1,2)] assms(3) by auto
  have K: "keep_entry (content_files d) cname (p, ob)" using keep_entry_whole [OF assms(2)] p(2) by blast
  have mem: "(p, ob) \<in> set ?m" using p(1) by (rule lookup_mem)
  have only: "po = (p, ob)" if "po \<in> set ?m" "cname (fst po) = cname p" for po
  proof -
    have "fst po = fst (p, ob)" using that(2) inj by (simp add: inj_def)
    moreover have "inj_on fst (set ?m)" using wf by (simp add: distinct_map)
    ultimately show ?thesis using inj_onD [of fst "set ?m"] that(1) mem by blast
  qed
  have live: "lookup (live (vf_disk (fold (verify_entry cname) ?m ?v0))) (cname p) = lookup (live d) (cname p)"
  proof -
    have "\<forall>po \<in> set ?m. cname (fst po) = cname p \<longrightarrow> keep_entry (content_files d) cname po"
      using only K by metis
    then show ?thesis using verify_live [OF wf inj, of "cname p" ?v0] by simp
  qed
  have "vf_names (fold (verify_entry cname) ?m ?v0) =
      filter (\<lambda>(k, v). \<forall>x \<in> set ?m. keep_entry (content_files d) cname x \<longrightarrow> cname (fst x) \<noteq> k) (content_files d)"
    using verify_fold [OF wf inj, of ?v0]
      fold_delete_filter [of "\<lambda>x. \<not> keep_entry (content_files d) cname x" "\<lambda>x. cname (fst x)" ?m "content_files d"]
    unfolding if_not by simp
  then have "cname p \<notin> set (map fst (vf_names (fold (verify_entry cname) ?m ?v0)))"
    using mem K by fastforce
  then show ?thesis
    using open_cache_parts(6) [OF assms(1)] live
    by (simp add: verify_against_disk_def Let_def fold_remove_file)
qed

text \<open>What Open establishes from any directory and any journal, however the last run ended: the objects in
  the index are exactly the replayed ones whose content file is there with the recorded size; the counters
  agree with the index; the content files of these objects are untouched; and the paths reported as lost
  are exactly the replayed unsent objects whose content is missing or of the wrong size.\<close>
theorem open_index_matches_disk:
  assumes "open_cache cname g d = (c, torn, lost)" and "is_content_name cname"
  shows "acct c
    \<and> (\<forall>p ob. lookup (objs c) p = Some ob \<longleftrightarrow> lookup (fst (replay_journal d)) p = Some ob \<and> whole cname d p ob)
    \<and> (\<forall>p ob. lookup (objs c) p = Some ob \<longrightarrow> lookup (live (dc_disk c)) (cname p) = lookup (live d) (cname p))
    \<and> set lost = {p. \<exists>ob. lookup (fst (replay_journal d)) p = Some ob \<and> unsent (ostate ob) \<and> \<not> whole cname d p ob}"
proof -
  let ?m = "fst (replay_journal d)"
  have wf: "wf_map ?m" and keys: "\<And>p ob. lookup ?m p = Some ob \<Longrightarrow> remote_path ob = p \<and> p \<noteq> []"
    using keyed_replay [of d] by (auto simp: keyed_def)
  note v = verify_result [OF wf assms(2), of d]
  note o = open_cache_parts [OF assms(1)]
  have iff: "lookup (objs c) p = Some ob \<longleftrightarrow> lookup ?m p = Some ob \<and> whole cname d p ob" for p ob
    by (rule open_objs [OF assms])
  have "acct c"
    unfolding acct_def
  proof (intro conjI allI impI)
    show "wf_map (objs c)" unfolding o(1) v(1) using wf by simp
    show "dc_bytes c = total obj_size (objs c)" "dirty c = total unsent_size (objs c)"
      using o(1-3) v(2,3) by simp_all
    fix p ob assume "lookup (objs c) p = Some ob"
    then have "lookup ?m p = Some ob" "whole cname d p ob" using iff by auto
    then show "remote_path ob = p" "p \<noteq> []" "0 \<le> obj_size ob" using keys by (auto simp: whole_def)
  qed
  moreover have "set lost = {p. \<exists>ob. lookup ?m p = Some ob \<and> unsent (ostate ob) \<and> \<not> whole cname d p ob}"
    unfolding o(5) v(4) using lookup_iff [OF wf] by force
  ultimately show ?thesis using iff open_live [OF assms] by blast
qed

section \<open>What a power cut cannot take\<close>

text \<open>
  An object is recoverable when its content file is flushed in both views of the directory, and every
  prefix of the journal that a power cut may leave replays to the same version of it, unsent.
\<close>

definition unsent_version :: "object \<Rightarrow> (string, object) gomap \<Rightarrow> string \<Rightarrow> bool" where
  "unsent_version ob m p \<longleftrightarrow> (\<exists>ob'. lookup m p = Some ob' \<and> unsent (ostate ob') \<and> same_version ob ob')"

definition journal_keeps :: "object \<Rightarrow> disk \<Rightarrow> string \<Rightarrow> bool" where
  "journal_keeps ob d p \<longleftrightarrow>
     JGarbage \<notin> set (jlines d)
     \<and> (\<forall>k. min (jflushed d) (length (jlines d)) \<le> k \<longrightarrow> k \<le> length (jlines d) \<longrightarrow>
          unsent_version ob (replay_records (records (take k (jlines d)))) p)"

definition content_keeps :: "(string \<Rightarrow> string) \<Rightarrow> object \<Rightarrow> string \<Rightarrow> disk \<Rightarrow> string \<Rightarrow> bool" where
  "content_keeps cname ob s d p \<longleftrightarrow>
     lookup (live d) (cname p) = Some \<lparr>fcontent = s, fsynced = True\<rparr>
     \<and> lookup (durable d) (cname p) = Some \<lparr>fcontent = s, fsynced = True\<rparr> \<and> obj_size ob = int (length s)"

definition recoverable :: "(string \<Rightarrow> string) \<Rightarrow> disk \<Rightarrow> string \<Rightarrow> object \<Rightarrow> string \<Rightarrow> bool" where
  "recoverable cname d p ob s \<longleftrightarrow> journal_keeps ob d p \<and> content_keeps cname ob s d p"

lemma journal_keeps_full: "journal_keeps ob d p \<Longrightarrow> unsent_version ob (replay_records (records (jlines d))) p"
  by (auto simp: journal_keeps_def dest: spec [of _ "length (jlines d)"])

lemma journal_keeps_append:
  assumes "journal_keeps ob d p" and "\<not> jtail d" and "io \<noteq> JShortWrite"
    and "\<And>m. unsent_version ob m p \<Longrightarrow> unsent_version ob (apply_record r m) p"
  shows "journal_keeps ob (snd (jnl_append io r b d)) p \<and> \<not> jtail (snd (jnl_append io r b d))"
proof -
  let ?d = "snd (jnl_append io r b d)"
  have full: "unsent_version ob (replay_records (records (jlines d @ [JRec r]))) p"
    using assms(4) [OF journal_keeps_full [OF assms(1)]] by simp
  have shape: "jlines ?d = jlines d \<and> jflushed ?d = jflushed d
      \<or> jlines ?d = jlines d @ [JRec r] \<and> (jflushed ?d = jflushed d \<or> jflushed ?d = Suc (length (jlines d)))"
    and tail: "\<not> jtail ?d"
    using assms(2,3) by (auto simp: jnl_append_def join_line_def Let_def split: jio.splits)
  have "unsent_version ob (replay_records (records (take k (jlines ?d)))) p"
    if k: "min (jflushed ?d) (length (jlines ?d)) \<le> k" "k \<le> length (jlines ?d)" for k
    using shape
  proof (elim disjE conjE)
    assume "jlines ?d = jlines d" "jflushed ?d = jflushed d"
    with k assms(1) show ?thesis by (simp add: journal_keeps_def)
  next
    assume h: "jlines ?d = jlines d @ [JRec r]" "jflushed ?d = jflushed d"
    show ?thesis
    proof (cases "k \<le> length (jlines d)")
      case True
      with h k have "min (jflushed d) (length (jlines d)) \<le> k" by simp
      with True h assms(1) show ?thesis by (simp add: journal_keeps_def)
    next
      case False
      with h k full show ?thesis by simp
    qed
  next
    assume h: "jlines ?d = jlines d @ [JRec r]" "jflushed ?d = Suc (length (jlines d))"
    with k full show ?thesis by simp
  qed
  with shape tail assms(1) show ?thesis by (auto simp: journal_keeps_def)
qed

lemma unsent_version_other:
  "remote_path ob2 \<noteq> p \<Longrightarrow> unsent_version ob m p \<Longrightarrow> unsent_version ob (apply_record (put_record ob2) m) p"
  "q \<noteq> p \<Longrightarrow> unsent_version ob m p \<Longrightarrow> unsent_version ob (apply_record (drop_record q now) m) p"
  by (auto simp: unsent_version_def map_simps)

lemma recoverable_forget:
  assumes "recoverable cname d0 p ob s" and "d0 = dc_disk c" and "\<not> jtail d0" and "q \<noteq> p" and "inj cname"
    and "drop_io e \<noteq> JShortWrite"
  shows "recoverable cname (dc_disk (forget cname e q c)) p ob s \<and> \<not> jtail (dc_disk (forget cname e q c))"
proof -
  let ?d = "if rm_ok e then remove_file (cname q) (dc_disk c) else dc_disk c"
  have "cname q \<noteq> cname p" using assms(4,5) by (auto simp: inj_def)
  then have d: "journal_keeps ob ?d p" "content_keeps cname ob s ?d p" "\<not> jtail ?d"
    using assms(1-3) by (auto simp: recoverable_def journal_keeps_def content_keeps_def remove_file_def map_simps)
  have "journal_keeps ob (snd (jnl_append (drop_io e) (drop_record q (drop_now e)) True ?d)) p
      \<and> \<not> jtail (snd (jnl_append (drop_io e) (drop_record q (drop_now e)) True ?d))"
    by (rule journal_keeps_append [OF d(1,3) assms(6) unsent_version_other(2) [OF assms(4)]])
  moreover have "content_keeps cname ob s (snd (jnl_append (drop_io e) (drop_record q (drop_now e)) True ?d)) p"
    using d(2) by (simp add: content_keeps_def)
  ultimately show ?thesis
    using assms(1-3) by (auto simp: recoverable_def forget_eq split: option.splits)
qed

lemma recoverable_forget_all:
  assumes "recoverable cname (dc_disk c) p ob s" and "\<not> jtail (dc_disk c)" and "p \<notin> set qs" and "inj cname"
    and "\<And>q. drop_io (env q) \<noteq> JShortWrite"
  shows "recoverable cname (dc_disk (forget_all cname env qs c)) p ob s \<and> \<not> jtail (dc_disk (forget_all cname env qs c))"
  using assms(1-3)
proof (induction qs arbitrary: c)
  case Nil
  then show ?case by (simp add: forget_all_def)
next
  case (Cons q qs)
  then have "recoverable cname (dc_disk (forget cname (env q) q c)) p ob s \<and> \<not> jtail (dc_disk (forget cname (env q) q c))"
    by (intro recoverable_forget [OF _ refl _ _ assms(4,5)]) auto
  with Cons show ?case by (simp add: forget_all_def)
qed

lemma enqueue_result:
  "p \<in> set ps \<Longrightarrow> write_back (dc_cfg c) \<Longrightarrow>
     p \<in> set (flush_queue (fold enqueue ps c)) \<or> queue_cap \<le> int (length (flush_queue (fold enqueue ps c)))"
proof (induction ps arbitrary: c)
  case Nil
  then show ?case by simp
next
  case (Cons q ps)
  have mono: "set (flush_queue x) \<subseteq> set (flush_queue (fold enqueue ys x))
      \<and> length (flush_queue x) \<le> length (flush_queue (fold enqueue ys x))" for ys x
  proof (induction ys arbitrary: x)
    case (Cons y ys)
    from Cons [of "enqueue y x"] show ?case by (fastforce simp: enqueue_def split: if_splits)
  qed simp
  show ?case
  proof (cases "p = q")
    case True
    have "q \<in> set (flush_queue (enqueue q c)) \<or> queue_cap \<le> int (length (flush_queue (enqueue q c)))"
      using Cons.prems(2) by (auto simp: enqueue_def)
    with True mono [of "enqueue q c" ps] show ?thesis by fastforce
  next
    case False
    with Cons show ?thesis by simp
  qed
qed

lemma open_queue:
  assumes "open_cache cname g d = (c, torn, lost)" and "lookup (objs c) p = Some ob" and "remote_path ob = p"
    and "unsent (ostate ob)" and "write_back g"
  shows "p \<in> set (flush_queue c) \<or> queue_cap \<le> int (length (flush_queue c))"
proof -
  obtain c1 where c: "c = requeue_unsent c1" "dc_cfg c1 = g"
    using assms(1,5) by (auto simp: open_cache_def Let_def empty_cache_def split: prod.splits if_splits)
  then have "(p, ob) \<in> set (objs c1)" using assms(2) lookup_mem by fastforce
  then have "p \<in> set (map remote_path (oldest_first (filter (\<lambda>ob. unsent (ostate ob)) (map snd (objs c1)))))"
    using assms(3,4) by (force simp: oldest_first_def)
  from enqueue_result [OF this, of c1] assms(5) c show ?thesis by (simp add: requeue_unsent_def)
qed

text \<open>C2: A recoverable object survives a power cut: whatever the cut leaves, after Open the same version of
  it is in the index and unsent, its content file holds the same bytes, it is not among the lost, and it is
  back in the upload queue unless that is full.\<close>
theorem recoverable_survives_power_cut:
  assumes "recoverable cname d p ob s" and "crash d d'" and "is_content_name cname"
    and "open_cache cname g d' = (c, torn, lost)" and "write_back g"
  shows "unsent_version ob (objs c) p \<and> p \<notin> set lost
    \<and> map_option fcontent (lookup (live (dc_disk c)) (cname p)) = Some s
    \<and> (p \<in> set (flush_queue c) \<or> queue_cap \<le> int (length (flush_queue c)))"
proof -
  have j: "journal_keeps ob d p" and ct: "content_keeps cname ob s d p" using assms(1) by (auto simp: recoverable_def)
  obtain k where k: "min (jflushed d) (length (jlines d)) \<le> k" "k \<le> length (jlines d)" "jlines d' = take k (jlines d)"
    using assms(2) by (auto simp: crash_def)
  have ng: "JGarbage \<notin> set (jlines d')"
    using j k(3) in_set_takeD by (fastforce simp: journal_keeps_def)
  have rep: "fst (replay_journal d') = replay_records (records (jlines d'))"
    unfolding replay_journal_def replay_lines_intact [OF ng] by simp
  obtain ob' where ob': "lookup (fst (replay_journal d')) p = Some ob'" "unsent (ostate ob')" "same_version ob ob'"
    using j k unfolding rep journal_keeps_def unsent_version_def by metis
  have "file_after_crash (Some \<lparr>fcontent = s, fsynced = True\<rparr>) (lookup (live d') (cname p))"
    using assms(2) ct unfolding crash_def content_keeps_def by metis
  then have fl: "lookup (live d') (cname p) = Some \<lparr>fcontent = s, fsynced = True\<rparr>"
    by (simp add: file_after_crash_def)
  have w: "whole cname d' p ob'"
    using fl ct ob'(3) by (simp add: whole_def content_keeps_def same_version_def)
  note o = open_index_matches_disk [OF assms(4,3)]
  have l: "lookup (objs c) p = Some ob'" using o ob'(1) w by blast
  have "p \<notin> set lost" using o ob'(1) w by force
  moreover have "lookup (live (dc_disk c)) (cname p) = Some \<lparr>fcontent = s, fsynced = True\<rparr>"
    using o l fl by metis
  moreover have "remote_path ob' = p" using keyedD [OF keyed_replay ob'(1)] by simp
  ultimately show ?thesis
    using l ob'(2,3) open_queue [OF assms(4) l _ ob'(2) assms(5)] by (auto simp: unsent_version_def)
qed

lemma commit_disk_lookup:
  assumes "lookup (live d) (w_tmp w) = Some f"
  shows "lookup (live (commit_disk cname ob w d)) n
     = (if n = cname (remote_path ob) then Some (f\<lparr>fsynced := True\<rparr>)
        else if n = w_tmp w then None else lookup (live d) n)"
    and "durable (commit_disk cname ob w d) = live (commit_disk cname ob w d)"
    and "jlines (commit_disk cname ob w d) = jlines d" "jflushed (commit_disk cname ob w d) = jflushed d"
    "jtail (commit_disk cname ob w d) = jtail d"
  using assms by (auto simp: commit_disk_def sync_dir_def rename_file_def sync_file_def map_simps)

lemma jnl_put_ok:
  assumes "fst (jnl_append io r True d)" and "\<not> jtail d"
  shows "io = JOk" "jlines (snd (jnl_append io r True d)) = jlines d @ [JRec r]"
    "jflushed (snd (jnl_append io r True d)) = Suc (length (jlines d))" "\<not> jtail (snd (jnl_append io r True d))"
  using assms by (auto simp: jnl_append_def join_line_def Let_def split: jio.splits if_splits)

text \<open>C1: An acknowledged write is recoverable, and costs no earlier one: when Commit reports success on a
  journal that ends in a whole line, the new object is recoverable with the bytes that were written, and
  every object of another path that was recoverable before still is, provided that no append of an
  eviction's drop record is cut short.\<close>
theorem acknowledged_write_is_recoverable:
  assumes "acct c" and "writer_ok w" and "holds w c" and "pr_path req \<noteq> []" and "is_content_name cname"
    and "intact (dc_disk c)" and "\<And>q. cname q \<noteq> w_tmp w" and "\<And>q. drop_io (env q) \<noteq> JShortWrite"
    and "put_commit md5 cname now e env req w c = (Inr ob, w', c')"
  shows "recoverable cname (dc_disk c') (pr_path req) ob (w_buf w)
    \<and> (\<forall>q ob2 s. q \<noteq> pr_path req \<longrightarrow> (\<forall>x. lookup (objs c) q = Some x \<longrightarrow> ostate x \<noteq> StateClean) \<longrightarrow>
         recoverable cname (dc_disk c) q ob2 s \<longrightarrow> recoverable cname (dc_disk c') q ob2 s)
    \<and> intact (dc_disk c')"
proof -
  let ?o = "dirty_object md5 now req w" and ?p = "pr_path req"
  have inj: "inj cname" using assms(5) by (simp add: is_content_name_def)
  obtain r w1 c1 where cm: "commit cname e ?o w c = (r, w1, c1)" by (metis prod_cases3)
  with assms(9) have r: "r = Inr ob" and c': "c' = evict_if_needed cname env (enqueue (remote_path ob) c1)"
    by (auto simp: put_commit_def split: sum.splits)
  have acct1: "acct c1"
    by (rule acct_commit [OF assms(1) _ _ cm]) (use assms(2,4) in \<open>auto simp: writer_ok_def\<close>)
  note st = commit_stored_file [OF cm [unfolded r] assms(3)]
  have ob: "ob = ?o" using st by simp
  obtain f where f: "lookup (live (dc_disk c)) (w_tmp w) = Some f" "fcontent f = w_buf w"
    using assms(3) by (auto simp: holds_def)
  note cd = commit_disk_lookup [OF f(1), of cname ?o]
  have tail: "\<not> jtail (commit_disk cname ?o w (dc_disk c))" and ng: "JGarbage \<notin> set (jlines (dc_disk c))"
    using assms(6) by (simp_all add: cd intact_def)
  from cm [unfolded r] have app: "fst (jnl_append (put_io e) (put_record ?o) True (commit_disk cname ?o w (dc_disk c)))"
    and d1: "dc_disk c1 = snd (jnl_append (put_io e) (put_record ?o) True (commit_disk cname ?o w (dc_disk c)))"
    by (auto elim: commit_cases simp: index_put_eq)
  note jp = jnl_put_ok [OF app tail]
  have lines1: "jlines (dc_disk c1) = jlines (dc_disk c) @ [JRec (put_record ?o)]"
    "jflushed (dc_disk c1) = Suc (length (jlines (dc_disk c)))" "\<not> jtail (dc_disk c1)"
    using jp by (simp_all add: d1 cd)
  have live1: "lookup (live (dc_disk c1)) n = (if n = cname ?p then Some (f\<lparr>fsynced := True\<rparr>)
        else if n = w_tmp w then None else lookup (live (dc_disk c)) n)"
    and dur1: "durable (dc_disk c1) = live (dc_disk c1)" for n
    by (simp_all add: d1 cd(1,2))
  have fs: "f\<lparr>fsynced := True\<rparr> = \<lparr>fcontent = w_buf w, fsynced = True\<rparr>" using f(2) by (cases f) simp
  have rec_new: "recoverable cname (dc_disk c1) ?p ob (w_buf w)"
  proof -
    have "unsent_version ob (replay_records (records (take k (jlines (dc_disk c1))))) ?p"
      if "min (jflushed (dc_disk c1)) (length (jlines (dc_disk c1))) \<le> k" for k
    proof -
      have "take k (jlines (dc_disk c1)) = jlines (dc_disk c) @ [JRec (put_record ?o)]"
        using that lines1(1,2) by simp
      then show ?thesis using assms(4) by (simp add: unsent_version_def map_simps ob)
    qed
    then have "journal_keeps ob (dc_disk c1) ?p" using ng lines1(1) by (simp add: journal_keeps_def)
    moreover have "content_keeps cname ob (w_buf w) (dc_disk c1) ?p"
      using assms(2) by (simp add: content_keeps_def dur1 live1 fs ob writer_ok_def)
    ultimately show ?thesis by (simp add: recoverable_def)
  qed
  have rec_old: "recoverable cname (dc_disk c1) q ob2 s"
    if q: "q \<noteq> ?p" "recoverable cname (dc_disk c) q ob2 s" for q ob2 s
  proof -
    let ?d = "commit_disk cname ?o w (dc_disk c)"
    have cq: "cname q \<noteq> cname ?p" using q(1) inj by (auto simp: inj_def)
    have "journal_keeps ob2 ?d q" using q(2) by (simp add: recoverable_def journal_keeps_def cd)
    then have "journal_keeps ob2 (dc_disk c1) q"
      unfolding d1 using journal_keeps_append [OF _ tail, of ob2 q "put_io e" "put_record ?o" True]
        unsent_version_other(1) [of ?o q] q(1) jp(1) by simp
    moreover have "content_keeps cname ob2 s (dc_disk c1) q"
      using q(2) assms(7) [of q] cq by (simp add: recoverable_def content_keeps_def dur1 live1)
    ultimately show ?thesis by (simp add: recoverable_def)
  qed
  let ?c2 = "enqueue (remote_path ob) c1"
  have acct2: "acct ?c2" using acct1 by simp
  have keep: "recoverable cname (dc_disk c') q ob2 s \<and> \<not> jtail (dc_disk c')"
    if "recoverable cname (dc_disk c1) q ob2 s" "\<forall>x. lookup (objs ?c2) q = Some x \<longrightarrow> ostate x \<noteq> StateClean" for q ob2 s
  proof -
    have "q \<notin> set (evict_plan ?c2)" using doomed_clean [OF acct2] that(2) by metis
    then show ?thesis
      using recoverable_forget_all [OF _ _ _ inj assms(8), of ?c2 q ob2 s "evict_plan ?c2"] that(1) lines1(3)
      by (simp add: c' evict_if_needed_def)
  qed
  have objs1: "objs c1 = AList.update ?p ?o (objs c)" using st by simp
  have new: "recoverable cname (dc_disk c') ?p ob (w_buf w) \<and> \<not> jtail (dc_disk c')"
    by (rule keep [OF rec_new]) (simp add: objs1 map_simps)
  moreover have "recoverable cname (dc_disk c') q ob2 s"
    if "q \<noteq> ?p" "\<forall>x. lookup (objs c) q = Some x \<longrightarrow> ostate x \<noteq> StateClean" "recoverable cname (dc_disk c) q ob2 s" for q ob2 s
    using keep [OF rec_old [OF that(1,3)]] that(1,2) by (simp add: objs1 map_simps)
  ultimately show ?thesis by (auto simp: intact_def recoverable_def journal_keeps_def)
qed

section \<open>Witnesses\<close>

lemma keep_cname_content: "is_content_name keep_cname"
  using inj_keep_cname by (simp add: is_content_name_def keep_cname_def suffix_def)

text \<open>A directory holding one unsent object and the journal line for it.\<close>

definition kept_disk :: disk where
  "kept_disk =
     empty_disk\<lparr>live := [(keep_cname ''/b'', \<lparr>fcontent = ''o'', fsynced = True\<rparr>)],
       durable := [(keep_cname ''/b'', \<lparr>fcontent = ''o'', fsynced = True\<rparr>)],
       jlines := [JRec (put_record (small_object ''/b'' 1 StateDirty 2))], jflushed := 1\<rparr>"

lemma kept_disk_recoverable: "recoverable keep_cname kept_disk ''/b'' (small_object ''/b'' 1 StateDirty 2) ''o''"
  by (auto simp: recoverable_def journal_keeps_def content_keeps_def kept_disk_def empty_disk_def
      unsent_version_def map_simps small_object_def)

lemma kept_disk_crash: "crash kept_disk kept_disk"
  by (auto simp: crash_def kept_disk_def empty_disk_def file_after_crash_def split: option.splits
      intro!: exI [of _ "1 :: nat"])

lemma open_index_matches_disk_witness:
  "acct (fst (open_cache keep_cname small_config kept_disk))"
  using open_index_matches_disk [OF _ keep_cname_content, of small_config kept_disk] by (metis prod.collapse)

lemma recoverable_survives_power_cut_witness:
  "unsent_version (small_object ''/b'' 1 StateDirty 2) (objs (fst (open_cache keep_cname small_config kept_disk))) ''/b''"
proof -
  obtain c torn lost where o: "open_cache keep_cname small_config kept_disk = (c, torn, lost)" by (metis prod_cases3)
  have "write_back small_config" by (simp add: small_config_def)
  from recoverable_survives_power_cut [OF kept_disk_recoverable kept_disk_crash keep_cname_content o this] o
  show ?thesis by simp
qed

definition request_b :: put_request where
  "request_b = \<lparr>pr_path = ''/b'', pr_folder = [], pr_name = ''b'', pr_size = 1\<rparr>"

lemma acknowledged_write_is_recoverable_witness:
  "\<exists>ob w c. put_commit rev keep_cname 9 all_ok drop_ok request_b fill_writer
       (on_disk (write_file ''t'' ''o'') (empty_cache small_config)) = (Inr ob, w, c)
     \<and> recoverable keep_cname (dc_disk c) ''/b'' ob ''o''"
proof -
  let ?c = "on_disk (write_file ''t'' ''o'') (empty_cache small_config)"
  obtain r w c where p: "put_commit rev keep_cname 9 all_ok drop_ok request_b fill_writer ?c = (r, w, c)"
    by (metis prod_cases3)
  have "is_ok (fst (put_commit rev keep_cname 9 all_ok drop_ok request_b fill_writer ?c))"
    by code_simp
  with p obtain ob where r: "r = Inr ob" by (auto simp: is_ok_iff)
  have "acct ?c" by (simp add: acct_empty_cache)
  moreover have "writer_ok fill_writer" "pr_path request_b \<noteq> []"
    by (simp_all add: writer_ok_def fill_writer_def request_b_def)
  moreover have "holds fill_writer ?c"
    by (simp add: holds_def fill_writer_def write_file_def empty_cache_def empty_disk_def)
  moreover have "intact (dc_disk ?c)"
    by (simp add: intact_def write_file_def empty_cache_def empty_disk_def)
  moreover have "keep_cname q \<noteq> w_tmp fill_writer" for q by (simp add: keep_cname_def fill_writer_def append_eq_Cons_conv)
  moreover have "drop_io (drop_ok q) \<noteq> JShortWrite" for q by (simp add: drop_ok_def)
  ultimately have "recoverable keep_cname (dc_disk c) (pr_path request_b) ob (w_buf fill_writer)"
    using acknowledged_write_is_recoverable [OF _ _ _ _ keep_cname_content _ _ _ p [unfolded r]] by blast
  with p r show ?thesis by (auto simp: request_b_def fill_writer_def)
qed

section \<open>After a torn record\<close>


end
