(* ===== verification/Job_Store.thy ===== *)
theory Job_Store
  imports Api_Errors "HOL-Library.Char_ord" "HOL-Library.List_Lexorder"
begin

text \<open>
  \<open>internal/jobs/job.go\<close> (the job record and its vocabulary) and \<open>internal/jobs/store.go\<close> (where jobs are
  kept): the \<open>Store\<close> interface as a locale, with the memory store and the file store as its
  interpretations.

  The file store is its directory: file names, and what decoding a file gives. Whether the n-th write
  fails is a function in the store's state, so that every pattern of failures is covered.
\<close>

section \<open>Jobs\<close>

datatype job_state = JQueued | JRunning | JSucceeded | JFailed | JCancelled

definition terminal :: "job_state \<Rightarrow> bool" where
  "terminal s \<longleftrightarrow> s = JSucceeded \<or> s = JFailed \<or> s = JCancelled"

lemma terminal_simps [simp]:
  "terminal JSucceeded" "terminal JFailed" "terminal JCancelled" "\<not> terminal JQueued" "\<not> terminal JRunning"
  by (simp_all add: terminal_def)

datatype phase = PhaseCaching | PhaseUploading | PhaseDownloading

datatype job_kind = JobUpload | JobDownload | JobUnknown string

record job_error =
  je_code :: string
  je_message :: string
  je_retryable :: bool
  je_status :: int

record job_spec =
  sp_kind :: job_kind
  sp_local :: string
  sp_folder :: string
  sp_name :: string
  sp_file_id :: string
  sp_remote :: string
  sp_size :: int
  sp_hash :: string
  sp_overwrite :: bool

record job =
  job_id :: string
  j_kind :: job_kind
  j_state :: job_state
  j_phase :: phase
  j_local :: string
  j_remote :: string
  bytes_done :: int
  bytes_total :: int
  j_speed :: rat
  j_error :: "job_error option"
  created_at :: gotime
  updated_at :: gotime
  j_attempts :: int
  j_spec :: job_spec
  up_file_id :: string
  up_temp :: string

text \<open>\<open>newError\<close>; the second argument is the text of the error.\<close>

definition new_job_error :: "(go_error \<times> string) option \<Rightarrow> job_error option" where
  "new_job_error eo =
     (case eo of
        None \<Rightarrow> None
      | Some (err, msg) \<Rightarrow>
          Some (case as_api err of
            None \<Rightarrow> \<lparr>je_code = kind_name KindUpstreamError, je_message = msg,
                     je_retryable = is_temporary err, je_status = 0\<rparr>
          | Some ae \<Rightarrow>
              \<lparr>je_code = kind_name (kind ae),
               je_message = (if diagnosis ae \<noteq> [] then diagnosis ae
                             else if upstream_msg ae \<noteq> [] then upstream_msg ae else msg),
               je_retryable = is_temporary err, je_status = http_code ae\<rparr>))"

section \<open>The interface\<close>

text \<open>The operations of \<open>Store\<close>: whether the call succeeded, and the store afterwards.\<close>

record 's store_ops =
  st_save :: "job \<Rightarrow> 's \<Rightarrow> bool \<times> 's"
  st_delete :: "string \<Rightarrow> 's \<Rightarrow> bool \<times> 's"
  st_load :: "'s \<Rightarrow> job list \<times> bool"

locale job_store =
  fixes ops :: "'s store_ops"
    and stored :: "'s \<Rightarrow> string \<Rightarrow> job option"
    and valid :: "'s \<Rightarrow> bool"
  assumes save_valid: "valid s \<Longrightarrow> valid (snd (st_save ops j s))"
    and delete_valid: "valid s \<Longrightarrow> valid (snd (st_delete ops i s))"
    and save_ok: "valid s \<Longrightarrow> fst (st_save ops j s) \<Longrightarrow>
          stored (snd (st_save ops j s)) k = (if k = job_id j then Some j else stored s k)"
    and save_failed: "valid s \<Longrightarrow> \<not> fst (st_save ops j s) \<Longrightarrow> stored (snd (st_save ops j s)) k = stored s k"
    and delete_ok: "valid s \<Longrightarrow> fst (st_delete ops i s) \<Longrightarrow>
          stored (snd (st_delete ops i s)) k = (if k = i then None else stored s k)"
    and delete_failed: "valid s \<Longrightarrow> \<not> fst (st_delete ops i s) \<Longrightarrow> stored (snd (st_delete ops i s)) k = stored s k"
    and load_all: "valid s \<Longrightarrow> set (fst (st_load ops s)) = {j. \<exists>k. stored s k = Some j}"
    and stored_id: "valid s \<Longrightarrow> stored s k = Some j \<Longrightarrow> job_id j = k"
begin

lemma load_after_save:
  assumes "valid s" and "fst (st_save ops j s)"
  shows "set (fst (st_load ops (snd (st_save ops j s)))) =
    insert j {x \<in> set (fst (st_load ops s)). job_id x \<noteq> job_id j}"
proof -
  have "set (fst (st_load ops (snd (st_save ops j s)))) =
      {x. \<exists>k. (if k = job_id j then Some j else stored s k) = Some x}"
    using load_all [OF save_valid [OF assms(1)], of j] save_ok [OF assms] by simp
  also have "\<dots> = insert j {x. \<exists>k. k \<noteq> job_id j \<and> stored s k = Some x}" by auto
  also have "{x. \<exists>k. k \<noteq> job_id j \<and> stored s k = Some x} = {x \<in> set (fst (st_load ops s)). job_id x \<noteq> job_id j}"
    using load_all [OF assms(1)] stored_id [OF assms(1)] by auto
  finally show ?thesis .
qed

lemma save_frame: "valid s \<Longrightarrow> k \<noteq> job_id j \<Longrightarrow> stored (snd (st_save ops j s)) k = stored s k"
  using save_ok save_failed by (cases "fst (st_save ops j s)") auto

end

section \<open>The memory store\<close>

type_synonym memory_store = "(string, job) gomap"

definition mem_save :: "job \<Rightarrow> memory_store \<Rightarrow> bool \<times> memory_store" where
  "mem_save j s = (True, AList.update (job_id j) j s)"

definition mem_delete :: "string \<Rightarrow> memory_store \<Rightarrow> bool \<times> memory_store" where
  "mem_delete i s = (True, AList.delete i s)"

definition mem_load :: "memory_store \<Rightarrow> job list \<times> bool" where
  "mem_load s = (sort_key job_id (map snd s), True)"

definition mem_ops :: "memory_store store_ops" where
  "mem_ops = \<lparr>st_save = mem_save, st_delete = mem_delete, st_load = mem_load\<rparr>"

definition mem_valid :: "memory_store \<Rightarrow> bool" where
  "mem_valid s \<longleftrightarrow> wf_map s \<and> (\<forall>(i, j) \<in> set s. job_id j = i)"

lemma mem_valid_update: "mem_valid s \<Longrightarrow> mem_valid (AList.update (job_id j) j s)"
  using set_update_subset [of "job_id j" j s] by (fastforce simp: mem_valid_def)

lemma mem_valid_delete: "mem_valid s \<Longrightarrow> mem_valid (AList.delete i s)"
  using set_delete_subset [of i s] by (fastforce simp: mem_valid_def)

lemma mem_values: "wf_map s \<Longrightarrow> snd ` set s = {j. \<exists>k. lookup s k = Some j}"
  using lookup_iff [of s] by force

interpretation mem: job_store mem_ops map_of mem_valid
proof
  fix s :: memory_store and j k i
  assume v: "mem_valid s"
  then have wf: "wf_map s" by (simp add: mem_valid_def)
  show "mem_valid (snd (st_save mem_ops j s))" "mem_valid (snd (st_delete mem_ops i s))"
    using v by (simp_all add: mem_ops_def mem_save_def mem_delete_def mem_valid_update mem_valid_delete)
  show "lookup (snd (st_save mem_ops j s)) k = (if k = job_id j then Some j else lookup s k)"
    "lookup (snd (st_delete mem_ops i s)) k = (if k = i then None else lookup s k)"
    by (simp_all add: mem_ops_def mem_save_def mem_delete_def map_simps)
  show "lookup (snd (st_save mem_ops j s)) k = lookup s k" if "\<not> fst (st_save mem_ops j s)"
    using that by (simp add: mem_ops_def mem_save_def)
  show "lookup (snd (st_delete mem_ops i s)) k = lookup s k" if "\<not> fst (st_delete mem_ops i s)"
    using that by (simp add: mem_ops_def mem_delete_def)
  show "set (fst (st_load mem_ops s)) = {j. \<exists>k. lookup s k = Some j}"
    using mem_values [OF wf] by (simp add: mem_ops_def mem_load_def)
  show "job_id j = k" if "lookup s k = Some j"
    using that v lookup_mem [OF that] by (auto simp: mem_valid_def)
qed

section \<open>The file store\<close>

text \<open>
  A directory: what decoding each of its files gives. \<open>fs_fault n\<close> is what goes wrong in the n-th
  call: the number of steps that were completed before the failure. \<open>fs_rand n\<close> are the digits
  \<open>os.CreateTemp\<close> puts into the n-th temporary name.
\<close>

datatype dir_entry = JobFile job | Unreadable | SubDir

record file_store =
  fs_dir :: "(string, dir_entry) gomap"
  fs_exists :: bool
  fs_readable :: bool
  fs_calls :: nat
  fs_fault :: "nat \<Rightarrow> nat option"
  fs_rand :: "nat \<Rightarrow> string"

definition job_suffix :: string where
  "job_suffix = ''.job.json''"

definition store_path :: "string \<Rightarrow> string" where
  "store_path i = i @ job_suffix"

definition new_file_store ::
  "string \<Rightarrow> bool \<Rightarrow> (string, dir_entry) gomap \<Rightarrow> (nat \<Rightarrow> nat option) \<Rightarrow> (nat \<Rightarrow> string) \<Rightarrow> file_store option" where
  "new_file_store dir mkdir_ok contents fault rand =
     (if dir = [] \<or> \<not> mkdir_ok then None
      else Some \<lparr>fs_dir = contents, fs_exists = True, fs_readable = True, fs_calls = 0,
                 fs_fault = fault, fs_rand = rand\<rparr>)"

definition safe_id :: "string \<Rightarrow> bool" where
  "safe_id i \<longleftrightarrow> i \<noteq> [] \<and> \<not> list_ex (\<lambda>c. c = CHR ''/'' \<or> c = CHR 0x5C) i"

text \<open>
  The steps of \<open>Save\<close> after the checks: create the temporary file, write it, flush it, close it, rename
  it. A failure after some of them removes the temporary file; a crash does not.
\<close>

definition temp_name :: "string \<Rightarrow> string \<Rightarrow> string" where
  "temp_name i r = i @ ''.tmp-'' @ r"

definition save_steps :: "string \<Rightarrow> job \<Rightarrow> ((string, dir_entry) gomap \<Rightarrow> (string, dir_entry) gomap) list" where
  "save_steps tmp j =
     [AList.update tmp Unreadable,
      AList.update tmp (JobFile j),
      id,
      id,
      (\<lambda>d. AList.update (store_path (job_id j)) (JobFile j) (AList.delete tmp d))]"

definition save_until :: "nat \<Rightarrow> string \<Rightarrow> job \<Rightarrow> (string, dir_entry) gomap \<Rightarrow> (string, dir_entry) gomap" where
  "save_until n tmp j d = fold (\<lambda>f. f) (take n (save_steps tmp j)) d"

definition fs_save :: "job \<Rightarrow> file_store \<Rightarrow> bool \<times> file_store" where
  "fs_save j s =
     (if \<not> safe_id (job_id j) then (False, s)
      else
        let tmp = temp_name (job_id j) (fs_rand s (fs_calls s)); s1 = s\<lparr>fs_calls := Suc (fs_calls s)\<rparr>
        in case fs_fault s (fs_calls s) of
             None \<Rightarrow> (True, s1\<lparr>fs_dir := save_until 5 tmp j (fs_dir s)\<rparr>)
           | Some n \<Rightarrow> (False, s1\<lparr>fs_dir := AList.delete tmp (save_until (min n 4) tmp j (fs_dir s))\<rparr>))"

definition fs_delete :: "string \<Rightarrow> file_store \<Rightarrow> bool \<times> file_store" where
  "fs_delete i s =
     (let s1 = s\<lparr>fs_calls := Suc (fs_calls s)\<rparr>
      in case fs_fault s (fs_calls s) of
           None \<Rightarrow> (True, s1\<lparr>fs_dir := AList.delete (store_path i) (fs_dir s)\<rparr>)
         | Some _ \<Rightarrow> (False, s1))"

fun read_jobs :: "(string, dir_entry) gomap \<Rightarrow> job list \<times> string list" where
  "read_jobs [] = ([], [])"
| "read_jobs ((n, f) # rest) =
     (let (out, bad) = read_jobs rest
      in if f = SubDir \<or> \<not> has_suffix n job_suffix then (out, bad)
         else case f of
           JobFile j \<Rightarrow> if job_id j = [] then (out, n # bad) else (j # out, bad)
         | _ \<Rightarrow> (out, n # bad))"

definition fs_load :: "file_store \<Rightarrow> job list \<times> bool" where
  "fs_load s =
     (if \<not> fs_exists s then ([], True)
      else if \<not> fs_readable s then ([], False)
      else let (out, bad) = read_jobs (sort_key fst (fs_dir s)) in (sort_key created_at out, bad = []))"

definition fs_ops :: "file_store store_ops" where
  "fs_ops = \<lparr>st_save = fs_save, st_delete = fs_delete, st_load = fs_load\<rparr>"

text \<open>What is stored under an id, and what a directory written by the store looks like.\<close>

definition fs_stored :: "file_store \<Rightarrow> string \<Rightarrow> job option" where
  "fs_stored s i = (case lookup (fs_dir s) (store_path i) of Some (JobFile j) \<Rightarrow> Some j | _ \<Rightarrow> None)"

definition fs_valid :: "file_store \<Rightarrow> bool" where
  "fs_valid s \<longleftrightarrow> fs_exists s \<and> fs_readable s \<and> wf_map (fs_dir s) \<and> (\<forall>n. list_all is_digit (fs_rand s n))
     \<and> (\<forall>n j. (n, JobFile j) \<in> set (fs_dir s) \<longrightarrow> has_suffix n job_suffix \<longrightarrow> n = store_path (job_id j) \<and> job_id j \<noteq> [])"

lemma store_path_suffix [simp]: "suffix job_suffix (store_path i)"
  unfolding store_path_def by (rule suffixI) simp

lemma store_path_inj [simp]: "store_path i = store_path k \<longleftrightarrow> i = k"
  by (simp add: store_path_def)

lemma temp_name_other:
  assumes "list_all is_digit r"
  shows "\<not> suffix job_suffix (temp_name i r)"
proof
  assume "suffix job_suffix (temp_name i r)"
  then have "last (temp_name i r) = CHR ''n''" by (auto simp: suffix_def job_suffix_def)
  moreover have "last (temp_name i r) = (if r = [] then CHR ''-'' else last r)"
    by (simp add: temp_name_def)
  moreover have "r \<noteq> [] \<Longrightarrow> is_digit (last r)" using assms by (simp add: list_all_iff)
  moreover have "\<not> is_digit CHR ''n''" by code_simp
  ultimately show False by (simp split: if_splits)
qed

lemma temp_name_not_path: "list_all is_digit r \<Longrightarrow> temp_name i r \<noteq> store_path k"
  using temp_name_other store_path_suffix by metis

text \<open>What a directory holds once a save has taken some of its steps.\<close>

lemma save_until_cases:
  obtains "n = 0" "save_until n tmp j d = d"
  | "n = 1" "save_until n tmp j d = AList.update tmp Unreadable d"
  | "2 \<le> n" "n \<le> 4" "save_until n tmp j d = AList.update tmp (JobFile j) (AList.update tmp Unreadable d)"
  | "5 \<le> n" "save_until n tmp j d = AList.update (store_path (job_id j)) (JobFile j)
      (AList.delete tmp (AList.update tmp (JobFile j) (AList.update tmp Unreadable d)))"
proof -
  have all: "n \<ge> 5 \<Longrightarrow> take n (save_steps tmp j) = save_steps tmp j" by (simp add: save_steps_def)
  consider "n = 0" | "n = 1" | "n = 2" | "n = 3" | "n = 4" | "n \<ge> 5" by linarith
  then show ?thesis
    by cases (use that all in \<open>auto simp: save_until_def save_steps_def numeral_eq_Suc\<close>)
qed

lemma save_until_lookup:
  assumes "k \<noteq> tmp" "n \<le> 5"
  shows "lookup (save_until n tmp j d) k =
    (if n = 5 \<and> k = store_path (job_id j) then Some (JobFile j) else lookup d k)"
  by (cases rule: save_until_cases [of n tmp j d]) (use assms in \<open>auto simp: map_simps\<close>)

lemma save_until_lookup_tmp:
  "tmp \<noteq> store_path (job_id j) \<Longrightarrow> n \<le> 5 \<Longrightarrow> lookup (save_until n tmp j d) tmp =
     (if n = 0 then lookup d tmp else if n = 1 then Some Unreadable else if n = 5 then None else Some (JobFile j))"
  by (cases rule: save_until_cases [of n tmp j d]) (auto simp: map_simps)

lemma save_until_wf [simp]: "wf_map d \<Longrightarrow> wf_map (save_until n tmp j d)"
  by (cases rule: save_until_cases [of n tmp j d]) auto

definition own_names :: "(string, dir_entry) gomap \<Rightarrow> bool" where
  "own_names d \<longleftrightarrow> wf_map d \<and> (\<forall>n j. lookup d n = Some (JobFile j) \<longrightarrow> suffix job_suffix n
     \<longrightarrow> n = store_path (job_id j) \<and> job_id j \<noteq> [])"

lemma fs_valid_iff: "fs_valid s \<longleftrightarrow> fs_exists s \<and> fs_readable s \<and> own_names (fs_dir s)
    \<and> (\<forall>n. list_all is_digit (fs_rand s n))"
  unfolding fs_valid_def own_names_def using lookup_iff [of "fs_dir s"] by blast

lemma own_namesD:
  "own_names d \<Longrightarrow> lookup d n = Some (JobFile j) \<Longrightarrow> suffix job_suffix n \<Longrightarrow> n = store_path (job_id j) \<and> job_id j \<noteq> []"
  by (simp only: own_names_def) blast

lemma fs_stored_iff: "fs_stored s k = Some j \<longleftrightarrow> lookup (fs_dir s) (store_path k) = Some (JobFile j)"
  by (auto simp: fs_stored_def split: option.splits dir_entry.splits)

lemma own_names_path: "own_names d \<Longrightarrow> lookup d (store_path k) = Some (JobFile j) \<Longrightarrow> job_id j = k \<and> k \<noteq> []"
  using own_namesD [of d "store_path k" j] by auto

lemma own_names_save:
  assumes "own_names d" "list_all is_digit r" "job_id j \<noteq> []" "n \<le> 5"
  shows "own_names (save_until n (temp_name (job_id j) r) j d)"
  unfolding own_names_def
proof (intro conjI allI impI)
  let ?t = "temp_name (job_id j) r"
  show "wf_map (save_until n ?t j d)" using assms by (simp add: own_names_def)
  fix m x
  assume l: "lookup (save_until n ?t j d) m = Some (JobFile x)" and m: "suffix job_suffix m"
  have "m \<noteq> ?t" using m temp_name_other [OF assms(2)] by metis
  then have "m = store_path (job_id j) \<and> x = j \<or> lookup d m = Some (JobFile x)"
    using l assms(4) by (auto simp: save_until_lookup split: if_splits)
  then show "m = store_path (job_id x)" "job_id x \<noteq> []"
    using assms(1,3) m by (auto simp: own_names_def)
qed

lemma own_names_delete: "own_names d \<Longrightarrow> own_names (AList.delete n d)"
  by (auto simp: own_names_def map_simps)

lemma read_jobs_set: "set (fst (read_jobs d)) = {j. \<exists>n. (n, JobFile j) \<in> set d \<and> suffix job_suffix n \<and> job_id j \<noteq> []}"
proof (induction d)
  case Nil
  then show ?case by simp
next
  case (Cons a d)
  obtain n f where a: "a = (n, f)" by (cases a)
  obtain out bad where rj: "read_jobs d = (out, bad)" by (cases "read_jobs d")
  then show ?case using Cons a by (cases f) auto
qed

lemma read_jobs_sorted: "fst (fs_load s) = sort_key created_at (fst (read_jobs (sort_key fst (fs_dir s))))"
  if "fs_exists s" "fs_readable s"
  using that by (simp add: fs_load_def split: prod.splits)

lemma fs_load_set:
  assumes "fs_valid s"
  shows "set (fst (fs_load s)) = {j. \<exists>k. fs_stored s k = Some j}"
proof -
  have own: "own_names (fs_dir s)" and ok: "fs_exists s" "fs_readable s" using assms by (auto simp: fs_valid_iff)
  then have wf: "wf_map (fs_dir s)" by (simp add: own_names_def)
  have "set (fst (fs_load s)) = {j. \<exists>n. (n, JobFile j) \<in> set (fs_dir s) \<and> suffix job_suffix n \<and> job_id j \<noteq> []}"
    by (simp add: read_jobs_sorted [OF ok] read_jobs_set)
  also have "\<dots> = {j. \<exists>n. lookup (fs_dir s) n = Some (JobFile j) \<and> suffix job_suffix n \<and> job_id j \<noteq> []}"
    by (simp only: lookup_iff [OF wf])
  also have "\<dots> = {j. \<exists>k. lookup (fs_dir s) (store_path k) = Some (JobFile j)}"
    using own_namesD [OF own] own_names_path [OF own] store_path_suffix by blast
  finally show ?thesis by (simp only: fs_stored_iff)
qed

interpretation fs: job_store fs_ops fs_stored fs_valid
proof
  fix s :: file_store and j k i
  assume v: "fs_valid s"
  then have own: "own_names (fs_dir s)" and dg: "\<And>n. list_all is_digit (fs_rand s n)"
    by (auto simp: fs_valid_iff)
  note tmp = temp_name_not_path [OF dg] temp_name_not_path [OF dg, THEN not_sym]
  show "fs_valid (snd (st_save fs_ops j s))"
    using v own_names_save [OF own dg] own_names_delete
    by (auto simp: fs_ops_def fs_save_def fs_valid_iff safe_id_def Let_def split: option.splits)
  show "fs_valid (snd (st_delete fs_ops i s))"
    using v own_names_delete
    by (auto simp: fs_ops_def fs_delete_def fs_valid_iff Let_def split: option.splits)
  show "fs_stored (snd (st_save fs_ops j s)) k = (if k = job_id j then Some j else fs_stored s k)"
    if "fst (st_save fs_ops j s)"
    using that by (auto simp: fs_ops_def fs_save_def fs_stored_def save_until_lookup tmp Let_def
        split: option.splits if_splits)
  show "fs_stored (snd (st_save fs_ops j s)) k = fs_stored s k" if "\<not> fst (st_save fs_ops j s)"
    using that by (auto simp: fs_ops_def fs_save_def fs_stored_def save_until_lookup map_simps tmp Let_def
        split: option.splits if_splits)
  show "fs_stored (snd (st_delete fs_ops i s)) k = (if k = i then None else fs_stored s k)"
    if "fst (st_delete fs_ops i s)"
    using that by (auto simp: fs_ops_def fs_delete_def fs_stored_def map_simps Let_def split: option.splits)
  show "fs_stored (snd (st_delete fs_ops i s)) k = fs_stored s k" if "\<not> fst (st_delete fs_ops i s)"
    using that by (auto simp: fs_ops_def fs_delete_def fs_stored_def Let_def split: option.splits)
  show "set (fst (st_load fs_ops s)) = {j. \<exists>k. fs_stored s k = Some j}"
    using fs_load_set [OF v] by (simp add: fs_ops_def)
  show "job_id j = k" if "fs_stored s k = Some j"
    using that own_names_path [OF own] by (simp only: fs_stored_iff)
qed

text \<open>C11: Saving a job is atomic. A crash after any number of the steps of Save leaves a directory that
  loads: it has the job's previous state until the rename and the new one after it, every other job as
  it was, and the temporary file is never read as a job. A Save that fails leaves what is stored
  unchanged, and one that succeeds is what the next Load returns.\<close>
theorem save_is_atomic:
  assumes "fs_valid s" and "job_id j \<noteq> []" and "list_all is_digit r" and "n \<le> 5"
  shows "fs_valid (s\<lparr>fs_dir := save_until n (temp_name (job_id j) r) j (fs_dir s)\<rparr>)
    \<and> (\<forall>k. fs_stored (s\<lparr>fs_dir := save_until n (temp_name (job_id j) r) j (fs_dir s)\<rparr>) k
          = (if n = 5 \<and> k = job_id j then Some j else fs_stored s k))
    \<and> set (fst (fs_load (snd (fs_save j s))))
      = (if fst (fs_save j s) then insert j {x \<in> set (fst (fs_load s)). job_id x \<noteq> job_id j}
         else set (fst (fs_load s)))"
proof (intro conjI allI)
  show "fs_valid (s\<lparr>fs_dir := save_until n (temp_name (job_id j) r) j (fs_dir s)\<rparr>)"
    using assms own_names_save by (simp add: fs_valid_iff)
  show "fs_stored (s\<lparr>fs_dir := save_until n (temp_name (job_id j) r) j (fs_dir s)\<rparr>) k
      = (if n = 5 \<and> k = job_id j then Some j else fs_stored s k)" for k
    using assms temp_name_not_path [OF assms(3)]
    by (simp add: fs_stored_def save_until_lookup not_sym [OF temp_name_not_path])
  have st: "st_save fs_ops = fs_save" "st_load fs_ops = fs_load" by (simp_all add: fs_ops_def)
  show "set (fst (fs_load (snd (fs_save j s))))
      = (if fst (fs_save j s) then insert j {x \<in> set (fst (fs_load s)). job_id x \<noteq> job_id j}
         else set (fst (fs_load s)))"
    using fs.load_after_save [OF assms(1), of j] fs.load_all [OF assms(1)]
      fs.load_all [OF fs.save_valid [OF assms(1), of j]] fs.save_failed [OF assms(1), of j]
    by (auto simp: st)
qed

definition blank_spec :: job_spec where
  "blank_spec = \<lparr>sp_kind = JobUpload, sp_local = ''/f'', sp_folder = [], sp_name = ''f'', sp_file_id = [],
     sp_remote = ''/f'', sp_size = 3, sp_hash = [], sp_overwrite = False\<rparr>"

definition blank_job :: "string \<Rightarrow> job_state \<Rightarrow> job" where
  "blank_job i st = \<lparr>job_id = i, j_kind = JobUpload, j_state = st, j_phase = PhaseUploading, j_local = ''/f'',
     j_remote = ''/f'', bytes_done = 0, bytes_total = 3, j_speed = 0, j_error = None, created_at = 0,
     updated_at = 0, j_attempts = 0, j_spec = blank_spec, up_file_id = [], up_temp = []\<rparr>"

definition sample_store :: file_store where
  "sample_store = \<lparr>fs_dir = [(''a.job.json'', JobFile (blank_job ''a'' JRunning)), (''b.job.json'', Unreadable)],
     fs_exists = True, fs_readable = True, fs_calls = 0, fs_fault = (\<lambda>_. None), fs_rand = (\<lambda>_. ''1'')\<rparr>"

lemma blank_job_simps [simp]: "job_id (blank_job i st) = i" "j_state (blank_job i st) = st"
  by (simp_all add: blank_job_def)

lemma sample_store_valid: "fs_valid sample_store"
  by (auto simp: fs_valid_def sample_store_def store_path_def job_suffix_def blank_job_def is_digit_def)

lemma save_is_atomic_witness:
  "fs_stored (sample_store\<lparr>fs_dir := save_until 4 (temp_name ''a'' ''1'') (blank_job ''a'' JSucceeded) (fs_dir sample_store)\<rparr>) ''a''
     = Some (blank_job ''a'' JRunning)
   \<and> set (fst (fs_load (snd (fs_save (blank_job ''a'' JSucceeded) sample_store)))) = {blank_job ''a'' JSucceeded}"
proof -
  have pre: "job_id (blank_job ''a'' JSucceeded) \<noteq> []" "list_all is_digit ''1''" "(4::nat) \<le> 5"
    by (simp_all add: blank_job_def is_digit_def)
  have "fs_stored sample_store ''a'' = Some (blank_job ''a'' JRunning)" by code_simp
  moreover have "fst (fs_save (blank_job ''a'' JSucceeded) sample_store)" by code_simp
  moreover have "fst (fs_load sample_store) = [blank_job ''a'' JRunning]" by code_simp
  ultimately show ?thesis
    using save_is_atomic [OF sample_store_valid pre] by auto
qed

end
