(* ===== verification/Job_Engine.thy ===== *)
theory Job_Engine
  imports Job_Store Paths "HOL-Library.Multiset"
begin

text \<open>
  \<open>internal/jobs/engine.go\<close> and \<open>internal/jobs/cache.go\<close>: the queue of transfers and the workers that run
  them.

  A call takes the engine's lock several times, and between two such sections anything else may
  happen. So a worker and a cancelling client are positions in their code (\<open>pc\<close>, \<open>cpc\<close>), and one step
  of the machine is one locked section or one call that leaves the program: a save, a request to
  OpenDrive. What the outside world answers is an argument of the step (\<open>work_env\<close>).
\<close>

section \<open>Configuration\<close>

record engine_cfg =
  ec_workers :: int
  ec_attempts :: int
  ec_cache :: "bool option" \<comment> \<open>the gateway, when there is one: does it accept writes\<close>

definition default_workers :: int where
  "default_workers = 4"

definition default_max_attempts :: int where
  "default_max_attempts = 5"

definition queue_cap :: nat where
  "queue_cap = 1024"

definition default_engine :: engine_cfg where
  "default_engine = \<lparr>ec_workers = default_workers, ec_attempts = default_max_attempts, ec_cache = None\<rparr>"

definition with_workers :: "int \<Rightarrow> engine_cfg \<Rightarrow> engine_cfg" where
  "with_workers n g = (if n > 0 then g\<lparr>ec_workers := n\<rparr> else g)"

definition with_max_attempts :: "int \<Rightarrow> engine_cfg \<Rightarrow> engine_cfg" where
  "with_max_attempts n g = (if n > 0 then g\<lparr>ec_attempts := n\<rparr> else g)"

definition with_cache :: "bool option \<Rightarrow> engine_cfg \<Rightarrow> engine_cfg" where
  "with_cache c g = (case c of Some wb \<Rightarrow> g\<lparr>ec_cache := Some wb\<rparr> | None \<Rightarrow> g)"

section \<open>Small parts\<close>

text \<open>\<open>backoff\<close>: a shift of a 64-bit duration, which drops what goes over the top.\<close>

definition second :: int where
  "second = 1000000000"

definition minute :: int where
  "minute = 60 * second"

definition backoff :: "int \<Rightarrow> int" where
  "backoff attempt =
     (let a = (if attempt < 1 then 1 else attempt);
          d = wrap64 (second * 2 ^ nat (a - 1))
      in if d > minute \<or> d \<le> 0 then minute else d)"

text \<open>\<open>maxAttempts\<close>\<close>

definition max_attempts :: "engine_cfg \<Rightarrow> go_error \<Rightarrow> int" where
  "max_attempts g err =
     (case as_api err of
        Some ae \<Rightarrow>
          if retry_budget ae > 0 \<and> retry_budget ae < ec_attempts g then retry_budget ae else ec_attempts g
      | None \<Rightarrow> ec_attempts g)"

text \<open>The delay before the next attempt.\<close>

definition retry_delay :: "go_error \<Rightarrow> int \<Rightarrow> int" where
  "retry_delay err attempt = (if retry_after_of err \<le> 0 then backoff attempt else retry_after_of err)"

text \<open>\<open>speed\<close>: a smoothed rate, in bytes per second.\<close>

record speed =
  s_last_at :: gotime
  s_last_bytes :: int
  s_rate :: rat

definition new_speed :: "gotime \<Rightarrow> speed" where
  "new_speed t = \<lparr>s_last_at = t, s_last_bytes = 0, s_rate = 0\<rparr>"

definition observe_speed :: "gotime \<Rightarrow> int \<Rightarrow> speed \<Rightarrow> rat \<times> speed" where
  "observe_speed t now_done s =
     (let elapsed = of_int (t - s_last_at s) / of_int second
      in if elapsed \<le> 0 then (s_rate s, s)
         else
           let raw = of_int (now_done - s_last_bytes s) / elapsed;
               instant = (if raw < 0 then 0 else raw);
               r = (if s_rate s = 0 then instant else (3 / 10) * instant + (7 / 10) * s_rate s)
           in (r, s\<lparr>s_rate := r, s_last_at := t, s_last_bytes := now_done\<rparr>))"

text \<open>\<open>sortJobs\<close>: every job in turn sinks from the end of the sorted part past the later ones.\<close>

fun sink_job :: "job \<Rightarrow> job list \<Rightarrow> job list" where
  "sink_job x [] = [x]"
| "sink_job x (y # ys) = (if created_at x < created_at y then y # sink_job x ys else x # y # ys)"

definition sort_jobs :: "job list \<Rightarrow> job list" where
  "sort_jobs js = rev (foldl (\<lambda>acc x. sink_job x acc) [] js)"

section \<open>What a job says\<close>

definition validate_spec :: "job_spec \<Rightarrow> string + job_spec" where
  "validate_spec sp =
     (case sp_kind sp of
        JobUpload \<Rightarrow>
          if sp_local sp = [] then Inl ''an upload needs a local path''
          else Inr (if sp_name sp = [] then sp\<lparr>sp_name := path_base (sp_local sp)\<rparr> else sp)
      | JobDownload \<Rightarrow>
          if sp_file_id sp = [] \<and> sp_remote sp = [] then Inl ''a download needs either a file id or a remote path''
          else if sp_local sp = [] then Inl ''a download needs a local path''
          else Inr sp
      | JobUnknown _ \<Rightarrow> Inl ''unknown job kind'')"

definition initial_phase :: "engine_cfg \<Rightarrow> job_kind \<Rightarrow> phase" where
  "initial_phase g k =
     (if k = JobDownload then PhaseDownloading
      else if ec_cache g = Some True then PhaseCaching
      else PhaseUploading)"

text \<open>The part of \<open>FileInfo\<close> the engine looks at.\<close>

record record_info =
  ri_size :: int
  ri_hash :: string

definition record_is_whole_file :: "record_info \<Rightarrow> job \<Rightarrow> bool" where
  "record_is_whole_file info j =
     (if ri_hash info = [] then False
      else
        let want = (if sp_size (j_spec j) \<le> 0 then bytes_total j else sp_size (j_spec j))
        in if want > 0 \<and> ri_size info \<noteq> want then False
           else if sp_hash (j_spec j) \<noteq> [] \<and> \<not> equal_fold (sp_hash (j_spec j)) (ri_hash info) then False
           else True)"

text \<open>
  \<open>reclaim\<close>: whether the record turned out to be the finished file, and the record whose deletion is
  requested. \<open>info\<close> is what \<open>file/info\<close> answers about the record.
\<close>

definition reclaim :: "(go_error + record_info) \<Rightarrow> job option \<Rightarrow> bool \<times> string option" where
  "reclaim info jo =
     (case jo of
        None \<Rightarrow> (False, None)
      | Some j \<Rightarrow>
          if up_file_id j = [] \<or> sp_overwrite (j_spec j) then (False, None)
          else case info of
            Inl _ \<Rightarrow> (False, None)
          | Inr ri \<Rightarrow>
              if record_is_whole_file ri j then (True, None)
              else if ri_hash ri \<noteq> [] \<or> ri_size ri \<noteq> 0 then (False, None)
              else (False, Some (up_file_id j)))"

section \<open>Waiting for a file to become visible\<close>

text \<open>
  \<open>waitUntilVisible\<close>: \<open>probe n\<close> is the answer to the n-th request, \<open>clock n\<close> the time read after it and
  \<open>sleep n\<close> whether the n-th second passed without an interruption. Nothing bounds the loop but the
  clock.
\<close>

definition verify_timeout :: int where
  "verify_timeout = 30 * second"

definition not_visible :: "go_error \<Rightarrow> go_error" where
  "not_visible err =
     Api ((blank_error (case error_kind err of Some k \<Rightarrow> k | None \<Rightarrow> KindUpstreamError))
       \<lparr>err_op := ''POST upload'',
        upstream_msg := ''the upload completed but upstream did not make the file visible within 30s''\<rparr>)"

definition is_kind :: "kind \<Rightarrow> go_error \<Rightarrow> bool" where
  "is_kind k err \<longleftrightarrow> error_kind err = Some k"

partial_function (option) wait_visible ::
  "(nat \<Rightarrow> go_error option) \<Rightarrow> (nat \<Rightarrow> gotime) \<Rightarrow> (nat \<Rightarrow> go_error option) \<Rightarrow> int \<Rightarrow> nat \<Rightarrow> go_error option option" where
  "wait_visible probe clock sleep deadline n =
     (case probe n of
        None \<Rightarrow> Some None
      | Some err \<Rightarrow>
          if \<not> is_kind KindNotFound err then Some (Some err)
          else if clock n > deadline then Some (Some (not_visible err))
          else case sleep n of
            Some e \<Rightarrow> Some (Some e)
          | None \<Rightarrow> wait_visible probe clock sleep deadline (Suc n))"

section \<open>A transfer\<close>

text \<open>
  A transfer changes its job in short locked sections; \<open>action\<close> is one of them. What the transfer does
  is the list of its actions, and how it ended.
\<close>

datatype action =
    SetPhase phase
  | RecordCreated string string
  | Progress int int rat
  | CachedSize int
  | ForgetRecord
  | ServedFromCache

definition set_done :: "int \<Rightarrow> int \<Rightarrow> job \<Rightarrow> job" where
  "set_done now_done tot j = j\<lparr>bytes_done := now_done, bytes_total := tot\<rparr>"

definition set_phase_of :: "gotime \<Rightarrow> phase \<Rightarrow> job \<Rightarrow> job" where [simp]:
  "set_phase_of now ph j = j\<lparr>j_phase := ph, updated_at := now\<rparr>"

definition note_record :: "gotime \<Rightarrow> string \<Rightarrow> string \<Rightarrow> job \<Rightarrow> job" where [simp]:
  "note_record now f t j = j\<lparr>up_file_id := f, up_temp := t, updated_at := now\<rparr>"

definition progress_of :: "gotime \<Rightarrow> int \<Rightarrow> int \<Rightarrow> rat \<Rightarrow> job \<Rightarrow> job" where [simp]:
  "progress_of now d t sp j =
     j\<lparr>bytes_done := d, bytes_total := (if t > 0 then t else bytes_total j), j_speed := sp, updated_at := now\<rparr>"

definition forget_record :: "job \<Rightarrow> job" where [simp]:
  "forget_record j = j\<lparr>up_file_id := [], up_temp := []\<rparr>"

definition act_on_job :: "gotime \<Rightarrow> action \<Rightarrow> job \<Rightarrow> job" where
  "act_on_job now a j =
     (case a of
        SetPhase ph \<Rightarrow> set_phase_of now ph j
      | RecordCreated f t \<Rightarrow> note_record now f t j
      | Progress d t sp \<Rightarrow> progress_of now d t sp j
      | CachedSize n \<Rightarrow> set_done n n j
      | ForgetRecord \<Rightarrow> forget_record j
      | ServedFromCache \<Rightarrow> (if bytes_total j > 0 then set_done (bytes_total j) (bytes_total j) j else j))"

text \<open>Actions that save the job after changing it.\<close>

definition saves :: "action \<Rightarrow> bool" where
  "saves a = (case a of SetPhase _ \<Rightarrow> True | RecordCreated _ _ \<Rightarrow> True | _ \<Rightarrow> False)"

fun progress_actions :: "speed \<Rightarrow> (gotime \<times> int \<times> int) list \<Rightarrow> action list" where
  "progress_actions s [] = []"
| "progress_actions s ((t, d, n) # rest) =
     (let (r, s') = observe_speed t d s in Progress d n r # progress_actions s' rest)"

text \<open>
  What the outside does during an upload: \<open>PutLocalFile\<close> (an error, and whether it is
  \<open>cache_full\<close>), \<open>WaitUntilSent\<close>, \<open>EnsurePath\<close>, and \<open>UploadFile\<close> with a folder id: the record it
  created, the progress it reported, and its error.
\<close>

record upload_run =
  ur_record :: "(string \<times> string) option"
  ur_progress :: "(gotime \<times> int \<times> int) list"
  ur_result :: "go_error option"

record transfer_env =
  te_put :: "(go_error \<times> bool) + int"
  te_sent :: "go_error option"
  te_ensure :: "string \<Rightarrow> go_error + string"
  te_start :: gotime
  te_upload :: "string \<Rightarrow> upload_run"
  te_verify :: "string \<Rightarrow> go_error option"
  te_copy :: "go_error + bool"
  te_mkdir :: "go_error option"
  te_already :: int
  te_download :: upload_run

definition upload_through_cache ::
  "engine_cfg \<Rightarrow> transfer_env \<Rightarrow> job_spec \<Rightarrow> action list \<times> bool \<times> go_error option" where
  "upload_through_cache g te sp =
     (if ec_cache g \<noteq> Some True then ([], False, None)
      else case te_put te of
        Inl (err, full) \<Rightarrow>
          if full then ([SetPhase PhaseCaching, SetPhase PhaseUploading], False, None)
          else ([SetPhase PhaseCaching], False, Some err)
      | Inr n \<Rightarrow> ([SetPhase PhaseCaching, CachedSize n, SetPhase PhaseUploading], True, te_sent te))"

definition direct_upload :: "transfer_env \<Rightarrow> string \<Rightarrow> string \<Rightarrow> action list \<times> go_error option" where
  "direct_upload te prev folder =
     (let ur = te_upload te folder;
          acts = (case ur_record ur of None \<Rightarrow> [] | Some (f, t) \<Rightarrow> [RecordCreated f t])
                 @ progress_actions (new_speed (te_start te)) (ur_progress ur);
          fid = (case ur_record ur of None \<Rightarrow> prev | Some (f, _) \<Rightarrow> f)
      in case ur_result ur of
           Some err \<Rightarrow> (acts, Some err)
         | None \<Rightarrow>
             case (if fid = [] then None else te_verify te fid) of
               Some err \<Rightarrow> (acts, Some err)
             | None \<Rightarrow> (acts @ [ForgetRecord], None))"

text \<open>\<open>prev\<close> is the record id the job carries when the attempt starts.\<close>

definition run_upload :: "engine_cfg \<Rightarrow> transfer_env \<Rightarrow> string \<Rightarrow> job_spec \<Rightarrow> action list \<times> go_error option" where
  "run_upload g te prev sp =
     (case upload_through_cache g te sp of (acts, handled, err) \<Rightarrow>
        if handled \<or> err \<noteq> None then (acts, err)
        else if sp_folder sp = [] \<and> sp_remote sp \<noteq> [] then
          case te_ensure te (fst (parent_path (sp_remote sp))) of
            Inl e \<Rightarrow> (acts, Some e)
          | Inr folder \<Rightarrow> (case direct_upload te prev folder of (acts', r) \<Rightarrow> (acts @ acts', r))
        else case direct_upload te prev (sp_folder sp) of (acts', r) \<Rightarrow> (acts @ acts', r))"

definition download_through_cache :: "engine_cfg \<Rightarrow> transfer_env \<Rightarrow> job_spec \<Rightarrow> bool" where
  "download_through_cache g te sp =
     (if ec_cache g = None \<or> sp_remote sp = [] then False
      else case te_copy te of Inl _ \<Rightarrow> False | Inr served \<Rightarrow> served)"

definition run_download :: "engine_cfg \<Rightarrow> transfer_env \<Rightarrow> job_spec \<Rightarrow> action list \<times> go_error option" where
  "run_download g te sp =
     (if download_through_cache g te sp then ([ServedFromCache], None)
      else case te_mkdir te of
        Some e \<Rightarrow> ([], Some e)
      | None \<Rightarrow>
          if sp_file_id sp = [] then ([], Some (Plain ''not in the cache and no OpenDrive file id''))
          else (progress_actions (new_speed (te_start te))
                  (map (\<lambda>(t, d, n). (t, te_already te + d, n)) (ur_progress (te_download te))),
                ur_result (te_download te)))"

definition transfer :: "engine_cfg \<Rightarrow> transfer_env \<Rightarrow> string \<Rightarrow> job_spec \<Rightarrow> action list \<times> go_error option" where
  "transfer g te prev sp =
     (case sp_kind sp of
        JobUpload \<Rightarrow> run_upload g te prev sp
      | JobDownload \<Rightarrow> run_download g te sp
      | JobUnknown _ \<Rightarrow> ([], Some (Plain ''unknown job kind'')))"

section \<open>The state\<close>

text \<open>
  Where a worker is: at the head of its loop, taking a snapshot for a save, saving it, in a transfer
  with the actions it has left, looking at how the attempt ended, reclaiming the upstream record,
  clearing it from the job, building the final state, publishing it, sleeping before a retry.
\<close>

datatype pc =
    AtHead
  | Snapshot pc
  | Saving job pc
  | Transferring int "action list" "go_error option"
  | Decide int "go_error option"
  | Reclaiming job_state "go_error option"
  | Clearing job_state "go_error option"
  | Finishing job_state "go_error option"
  | Publishing job
  | Sleeping int

text \<open>Where a client that cancels a queued job is.\<close>

datatype cpc = CReclaim job | CSnapshot | CSaving job

text \<open>
  \<open>en_recovering\<close> are the jobs \<open>Recover\<close> has still to look at, \<open>en_recover_failed\<close> tells that it returned an
  error. \<open>en_log\<close> are the jobs for which ``cannot persist'' was logged, \<open>en_deletes\<close> the deletions requested
  upstream, each with what upstream had said of the record.
\<close>

record 's engine =
  en_jobs :: "(string, job) gomap"
  en_cancels :: "string list"
  en_signalled :: "string list"
  en_queue :: "string list"
  en_work :: "(string, pc) gomap"
  en_cancelling :: "(string, cpc) gomap"
  en_recovering :: "job list"
  en_recover_failed :: bool
  en_store :: 's
  en_log :: "string list"
  en_deletes :: "(string \<times> record_info) list"

definition new_engine :: "'s \<Rightarrow> 's engine" where
  "new_engine st = \<lparr>en_jobs = [], en_cancels = [], en_signalled = [], en_queue = [], en_work = [],
     en_cancelling = [], en_recovering = [], en_recover_failed = False,
     en_store = st, en_log = [], en_deletes = []\<rparr>"

definition upd_job :: "string \<Rightarrow> (job \<Rightarrow> job) \<Rightarrow> 's engine \<Rightarrow> 's engine" where
  "upd_job i f e =
     (case lookup (en_jobs e) i of
        None \<Rightarrow> e
      | Some j \<Rightarrow> e\<lparr>en_jobs := AList.update i (f j) (en_jobs e)\<rparr>)"

text \<open>Saving a job, with the line that is logged when it fails.\<close>

definition save_job :: "'s store_ops \<Rightarrow> job \<Rightarrow> 's engine \<Rightarrow> 's engine" where
  "save_job ops j e =
     (let (ok, st) = st_save ops j (en_store e)
      in e\<lparr>en_store := st, en_log := (if ok then en_log e else job_id j # en_log e)\<rparr>)"

section \<open>The operations of the interface\<close>

definition new_job :: "engine_cfg \<Rightarrow> string \<Rightarrow> gotime \<Rightarrow> job_spec \<Rightarrow> job" where
  "new_job g i now sp =
     \<lparr>job_id = i, j_kind = sp_kind sp, j_state = JQueued, j_phase = initial_phase g (sp_kind sp),
      j_local = sp_local sp, j_remote = sp_remote sp, bytes_done = 0, bytes_total = sp_size sp,
      j_speed = 0, j_error = None, created_at = now, updated_at = now, j_attempts = 0, j_spec = sp,
      up_file_id = [], up_temp = []\<rparr>"

definition submit ::
  "'s store_ops \<Rightarrow> engine_cfg \<Rightarrow> string \<Rightarrow> gotime \<Rightarrow> job_spec \<Rightarrow> 's engine \<Rightarrow> (string + job) \<times> 's engine" where
  "submit ops g i now sp e =
     (case validate_spec sp of
        Inl err \<Rightarrow> (Inl err, e)
      | Inr sp' \<Rightarrow>
          let j = new_job g i now sp'; (ok, st) = st_save ops j (en_store e); e1 = e\<lparr>en_store := st\<rparr>
          in if \<not> ok then (Inl ''cannot persist the job'', e1)
             else if length (en_queue e1) < queue_cap then
               (Inr j, e1\<lparr>en_jobs := AList.update i j (en_jobs e1), en_queue := en_queue e1 @ [i]\<rparr>)
             else (Inl ''the job queue is full'',
                   e1\<lparr>en_jobs := AList.delete i (en_jobs e1), en_store := snd (st_delete ops i (en_store e1))\<rparr>))"

definition get_job :: "string \<Rightarrow> 's engine \<Rightarrow> job option" where
  "get_job i e = lookup (en_jobs e) i"

definition list_jobs :: "'s engine \<Rightarrow> job list" where
  "list_jobs e = sort_jobs (map snd (en_jobs e))"

datatype cancel_result = CancelNotFound | CancelDone | CancelSignalled | CancelMarked job

text \<open>\<open>Cancel\<close> under the lock; for a queued job the rest follows as steps of \<open>en_cancelling\<close>.\<close>

definition cancel_mark :: "string \<Rightarrow> gotime \<Rightarrow> 's engine \<Rightarrow> cancel_result \<times> 's engine" where
  "cancel_mark i now e =
     (case lookup (en_jobs e) i of
        None \<Rightarrow> (CancelNotFound, e)
      | Some j \<Rightarrow>
          if terminal (j_state j) then (CancelDone, e)
          else
            let e1 = (if i \<in> set (en_cancels e) then e\<lparr>en_signalled := i # en_signalled e\<rparr> else e)
            in if j_state j = JRunning then (CancelSignalled, e1)
               else
                 let j' = j\<lparr>j_state := JCancelled, updated_at := now, j_speed := 0\<rparr>
                 in (CancelMarked j', e1\<lparr>en_jobs := AList.update i j' (en_jobs e1),
                       en_cancelling := AList.update i (CReclaim j') (en_cancelling e1)\<rparr>))"

text \<open>Requesting the deletion of a record, when \<open>reclaim\<close> decides on it.\<close>

definition request_delete :: "(go_error + record_info) \<Rightarrow> job option \<Rightarrow> 's engine \<Rightarrow> 's engine" where
  "request_delete info jo e =
     (case (snd (reclaim info jo), info) of
        (Some f, Inr ri) \<Rightarrow> e\<lparr>en_deletes := (f, ri) # en_deletes e\<rparr>
      | _ \<Rightarrow> e)"

definition cancel_step ::
  "'s store_ops \<Rightarrow> (go_error + record_info) \<Rightarrow> string \<Rightarrow> cpc \<Rightarrow> 's engine \<Rightarrow> cpc option \<times> 's engine" where
  "cancel_step ops info i p e =
     (case p of
        CReclaim j \<Rightarrow> (Some CSnapshot, request_delete info (Some j) e)
      | CSnapshot \<Rightarrow> (map_option CSaving (lookup (en_jobs e) i), e)
      | CSaving j \<Rightarrow> (None, save_job ops j e))"

text \<open>\<open>Recover\<close>: the jobs loaded, and what happens to one of them; the flag is false when the queue is full.\<close>

definition recover_load :: "'s store_ops \<Rightarrow> 's engine \<Rightarrow> 's engine" where
  "recover_load ops e = e\<lparr>en_recovering := fst (st_load ops (en_store e))\<rparr>"

definition recover_one ::
  "'s store_ops \<Rightarrow> (go_error + record_info) \<Rightarrow> gotime \<Rightarrow> job \<Rightarrow> 's engine \<Rightarrow> bool \<times> 's engine" where
  "recover_one ops info now j e =
     (if terminal (j_state j) then (True, e\<lparr>en_jobs := AList.update (job_id j) j (en_jobs e)\<rparr>)
      else
        let has_record = (j_kind j = JobUpload \<and> up_file_id j \<noteq> []);
            e1 = (if has_record then request_delete info (Some j) e else e)
        in if has_record \<and> fst (reclaim info (Some j)) then
             let j' = j\<lparr>j_state := JSucceeded, j_speed := 0, j_error := None,
                        bytes_done := (if bytes_total j > 0 then bytes_total j else bytes_done j),
                        up_file_id := [], up_temp := [], updated_at := now\<rparr>;
                 e2 = save_job ops j' e1
             in (True, e2\<lparr>en_jobs := AList.update (job_id j) j' (en_jobs e2)\<rparr>)
           else
             let j1 = (if has_record then j\<lparr>up_file_id := [], up_temp := [], bytes_done := 0\<rparr> else j);
                 j' = j1\<lparr>j_state := JQueued, j_speed := 0, updated_at := now\<rparr>;
                 e2 = save_job ops j' (e1\<lparr>en_jobs := AList.update (job_id j) j' (en_jobs e1)\<rparr>)
             in if length (en_queue e2) < queue_cap then (True, e2\<lparr>en_queue := en_queue e2 @ [job_id j]\<rparr>)
                else (False, e2))"

section \<open>The worker\<close>

record work_env =
  we_now :: gotime
  we_transfer :: transfer_env
  we_info :: "go_error + record_info"
  we_sleep :: "go_error option"
  we_message :: string

definition start_job :: "gotime \<Rightarrow> job \<Rightarrow> job" where
  "start_job now j = j\<lparr>j_state := JRunning, j_attempts := j_attempts j + 1, j_error := None, updated_at := now\<rparr>"

definition requeue_job :: "gotime \<Rightarrow> job_error option \<Rightarrow> job \<Rightarrow> job" where
  "requeue_job now je j = j\<lparr>j_state := JQueued, j_error := je, j_speed := 0, updated_at := now\<rparr>"

text \<open>The final state \<open>finish\<close> builds.\<close>

definition final_job :: "gotime \<Rightarrow> job_state \<Rightarrow> job_error option \<Rightarrow> job \<Rightarrow> job" where
  "final_job now st je j =
     j\<lparr>j_state := st, j_speed := 0, j_error := je, updated_at := now,
       bytes_done := (if st = JSucceeded \<and> bytes_total j > 0 then bytes_total j else bytes_done j)\<rparr>"

definition cancelled :: "string \<Rightarrow> 's engine \<Rightarrow> bool" where
  "cancelled i e \<longleftrightarrow> (case lookup (en_jobs e) i of None \<Rightarrow> False | Some j \<Rightarrow> j_state j = JCancelled)"

definition with_message :: "string \<Rightarrow> go_error option \<Rightarrow> (go_error \<times> string) option" where
  "with_message m eo = map_option (\<lambda>err. (err, m)) eo"

definition after_attempt ::
  "engine_cfg \<Rightarrow> work_env \<Rightarrow> string \<Rightarrow> int \<Rightarrow> go_error option \<Rightarrow> 's engine \<Rightarrow> pc \<times> 's engine" where
  "after_attempt g w i n r e =
     (case r of
        None \<Rightarrow> (Finishing JSucceeded None, e)
      | Some err \<Rightarrow>
          if cancelled i e \<or> is_sentinel CtxCanceled err then (Reclaiming JCancelled None, e)
          else if \<not> is_temporary err \<or> n \<ge> max_attempts g err then (Reclaiming JFailed (Some err), e)
          else (Snapshot (Sleeping (retry_delay err n)),
                upd_job i (requeue_job (we_now w) (new_job_error (Some (err, we_message w)))) e))"

text \<open>The end of \<open>reclaimByID\<close> and of \<open>finish\<close>.\<close>

definition clear_record :: "string \<Rightarrow> 's engine \<Rightarrow> 's engine" where [simp]:
  "clear_record i e = upd_job i (\<lambda>j. j\<lparr>up_file_id := [], up_temp := []\<rparr>) e"

definition publish_job :: "string \<Rightarrow> job \<Rightarrow> 's engine \<Rightarrow> 's engine" where [simp]:
  "publish_job i j e = upd_job i (\<lambda>_. j) e"

definition worker_step ::
  "'s store_ops \<Rightarrow> engine_cfg \<Rightarrow> work_env \<Rightarrow> string \<Rightarrow> pc \<Rightarrow> 's engine \<Rightarrow> pc option \<times> 's engine" where
  "worker_step ops g w i p e =
     (case p of
        AtHead \<Rightarrow>
          (case lookup (en_jobs e) i of
             None \<Rightarrow> (None, e)
           | Some j \<Rightarrow>
               if terminal (j_state j) then (None, e)
               else
                 let j' = start_job (we_now w) j;
                     (acts, r) = transfer g (we_transfer w) (up_file_id j') (j_spec j')
                 in (Some (Snapshot (Transferring (j_attempts j') acts r)),
                     e\<lparr>en_jobs := AList.update i j' (en_jobs e), en_cancels := i # en_cancels e\<rparr>))
      | Snapshot k \<Rightarrow>
          (case lookup (en_jobs e) i of None \<Rightarrow> (Some k, e) | Some j \<Rightarrow> (Some (Saving j k), e))
      | Saving j k \<Rightarrow> (Some k, save_job ops j e)
      | Transferring n [] r \<Rightarrow>
          (Some (Decide n r), e\<lparr>en_cancels := removeAll i (en_cancels e), en_signalled := removeAll i (en_signalled e)\<rparr>)
      | Transferring n (a # as) r \<Rightarrow>
          (Some (if saves a then Snapshot (Transferring n as r) else Transferring n as r),
           upd_job i (act_on_job (we_now w) a) e)
      | Decide n r \<Rightarrow> (case after_attempt g w i n r e of (k, e') \<Rightarrow> (Some k, e'))
      | Reclaiming st err \<Rightarrow> (Some (Clearing st err), request_delete (we_info w) (lookup (en_jobs e) i) e)
      | Clearing st err \<Rightarrow> (Some (Finishing st err), clear_record i e)
      | Finishing st err \<Rightarrow>
          (case lookup (en_jobs e) i of
             None \<Rightarrow> (None, e)
           | Some j \<Rightarrow>
               let j' = final_job (we_now w) st (new_job_error (with_message (we_message w) err)) j
               in (Some (Saving j' (Publishing j')), e))
      | Publishing j \<Rightarrow> (None, publish_job i j e)
      | Sleeping d \<Rightarrow>
          (case we_sleep w of
             None \<Rightarrow> (Some AtHead, e)
           | Some _ \<Rightarrow> (Some (Reclaiming JCancelled None), e)))"

text \<open>A worker leaves its job when its code for it ends.\<close>

definition set_pc :: "string \<Rightarrow> pc option \<Rightarrow> 's engine \<Rightarrow> 's engine" where
  "set_pc i po e =
     e\<lparr>en_work := (case po of Some p \<Rightarrow> AList.update i p (en_work e) | None \<Rightarrow> AList.delete i (en_work e))\<rparr>"

definition set_cpc :: "string \<Rightarrow> cpc option \<Rightarrow> 's engine \<Rightarrow> 's engine" where
  "set_cpc i po e =
     e\<lparr>en_cancelling := (case po of Some p \<Rightarrow> AList.update i p (en_cancelling e)
                        | None \<Rightarrow> AList.delete i (en_cancelling e))\<rparr>"

text \<open>\<open>Stop\<close> cancels the context of every attempt under way.\<close>

definition stop_engine :: "'s engine \<Rightarrow> 's engine" where
  "stop_engine e = e\<lparr>en_signalled := en_cancels e @ en_signalled e\<rparr>"

section \<open>Steps\<close>

datatype eng_event = EvSubmit | EvRecover | EvPick string | EvWork string | EvCancel string | EvCancelling string | EvStop

text \<open>
  The engine from \<open>Start\<close> on. An id that \<open>newJobID\<close> makes is new: to the table, to the queue, and to the
  jobs that are still to be recovered.
\<close>

inductive eng_step :: "'s store_ops \<Rightarrow> engine_cfg \<Rightarrow> 's engine \<Rightarrow> eng_event \<Rightarrow> 's engine \<Rightarrow> bool"
  for ops :: "'s store_ops" and g :: engine_cfg where
  submit: "i \<notin> keys (en_jobs e) \<Longrightarrow> i \<notin> job_id ` set (en_recovering e) \<Longrightarrow> submit ops g i now sp e = (r, e') \<Longrightarrow>
    eng_step ops g e EvSubmit e'"
| recover: "en_recovering e = j # js \<Longrightarrow> recover_one ops info now j e = (ok, e') \<Longrightarrow>
    eng_step ops g e EvRecover
      (e'\<lparr>en_recovering := (if ok then js else []), en_recover_failed := (en_recover_failed e' \<or> \<not> ok)\<rparr>)"
| pick: "en_queue e = i # q \<Longrightarrow> int (length (en_work e)) < ec_workers g \<Longrightarrow>
    eng_step ops g e (EvPick i) (set_pc i (Some AtHead) (e\<lparr>en_queue := q\<rparr>))"
| work: "lookup (en_work e) i = Some p \<Longrightarrow> worker_step ops g w i p e = (po, e') \<Longrightarrow>
    eng_step ops g e (EvWork i) (set_pc i po e')"
| cancel: "cancel_mark i now e = (r, e') \<Longrightarrow> eng_step ops g e (EvCancel i) e'"
| cancelling: "lookup (en_cancelling e) i = Some p \<Longrightarrow> cancel_step ops info i p e = (po, e') \<Longrightarrow>
    eng_step ops g e (EvCancelling i) (set_cpc i po e')"
| stop: "eng_step ops g e EvStop (stop_engine e)"

inductive_cases eng_step_work: "eng_step ops g e (EvWork i) e'"

text \<open>Runs, from a store that an earlier run may have left.\<close>

inductive eng_reachable :: "'s store_ops \<Rightarrow> engine_cfg \<Rightarrow> 's \<Rightarrow> 's engine \<Rightarrow> bool"
  for ops :: "'s store_ops" and g :: engine_cfg and st :: 's where
  start: "eng_reachable ops g st (recover_load ops (new_engine st))"
| step: "eng_reachable ops g st e \<Longrightarrow> eng_step ops g e ev e' \<Longrightarrow> eng_reachable ops g st e'"

section \<open>Small facts\<close>

lemma upd_job_fields [simp]:
  "en_work (upd_job i f e) = en_work e" "en_queue (upd_job i f e) = en_queue e"
  "en_cancelling (upd_job i f e) = en_cancelling e" "en_recovering (upd_job i f e) = en_recovering e"
  "en_recover_failed (upd_job i f e) = en_recover_failed e" "en_store (upd_job i f e) = en_store e"
  "en_log (upd_job i f e) = en_log e" "en_deletes (upd_job i f e) = en_deletes e"
  "en_cancels (upd_job i f e) = en_cancels e"
  by (simp_all add: upd_job_def split: option.splits)

lemma lookup_upd_job [simp]:
  "lookup (en_jobs (upd_job i f e)) k = (if k = i then map_option f (lookup (en_jobs e) i) else lookup (en_jobs e) k)"
  by (simp add: upd_job_def map_simps split: option.splits)

lemma wf_upd_job [simp]: "wf_map (en_jobs e) \<Longrightarrow> wf_map (en_jobs (upd_job i f e))"
  by (simp add: upd_job_def split: option.splits)

lemma save_job_fields [simp]:
  "en_work (save_job ops j e) = en_work e" "en_queue (save_job ops j e) = en_queue e"
  "en_cancelling (save_job ops j e) = en_cancelling e" "en_recovering (save_job ops j e) = en_recovering e"
  "en_recover_failed (save_job ops j e) = en_recover_failed e" "en_jobs (save_job ops j e) = en_jobs e"
  "en_deletes (save_job ops j e) = en_deletes e" "en_store (save_job ops j e) = snd (st_save ops j (en_store e))"
  "en_cancels (save_job ops j e) = en_cancels e"
  by (simp_all add: save_job_def split: prod.splits)

lemma save_job_log: "en_log (save_job ops j e) = (if fst (st_save ops j (en_store e)) then en_log e else job_id j # en_log e)"
  by (simp add: save_job_def split: prod.splits)

lemma request_delete_fields [simp]:
  "en_work (request_delete info jo e) = en_work e" "en_queue (request_delete info jo e) = en_queue e"
  "en_cancelling (request_delete info jo e) = en_cancelling e"
  "en_recovering (request_delete info jo e) = en_recovering e"
  "en_recover_failed (request_delete info jo e) = en_recover_failed e"
  "en_jobs (request_delete info jo e) = en_jobs e" "en_store (request_delete info jo e) = en_store e"
  "en_log (request_delete info jo e) = en_log e" "en_cancels (request_delete info jo e) = en_cancels e"
  by (simp_all add: request_delete_def split: option.splits sum.splits)

lemma act_on_job_fields [simp]:
  "job_id (act_on_job now a j) = job_id j" "j_state (act_on_job now a j) = j_state j"
  "j_attempts (act_on_job now a j) = j_attempts j" "j_spec (act_on_job now a j) = j_spec j"
  by (simp_all add: act_on_job_def set_done_def split: action.splits)

lemma job_updates [simp]:
  "job_id (start_job now j) = job_id j" "j_state (start_job now j) = JRunning"
  "job_id (requeue_job now je j) = job_id j" "j_state (requeue_job now je j) = JQueued"
  "job_id (final_job now st je j) = job_id j" "j_state (final_job now st je j) = st"
  "j_attempts (start_job now j) = j_attempts j + 1" "j_attempts (requeue_job now je j) = j_attempts j"
  by (simp_all add: start_job_def requeue_job_def final_job_def)

section \<open>Sorting\<close>

lemma sink_job_rev:
  assumes "sorted (map created_at js)"
  shows "rev (sink_job x (rev js)) = takeWhile (\<lambda>y. created_at y \<le> created_at x) js @ x # dropWhile (\<lambda>y. created_at y \<le> created_at x) js"
  using assms
proof (induction js rule: rev_induct)
  case Nil
  then show ?case by simp
next
  case (snoc y js)
  then have s: "sorted (map created_at js)" and le: "\<forall>z \<in> set js. created_at z \<le> created_at y"
    by (auto simp: sorted_append)
  show ?case
  proof (cases "created_at x < created_at y")
    case True
    have all: "takeWhile (\<lambda>y. created_at y \<le> created_at x) js = js \<and> dropWhile (\<lambda>y. created_at y \<le> created_at x) js = []"
      if "\<forall>z \<in> set js. created_at z \<le> created_at x"
      using that by (simp add: takeWhile_eq_all_conv)
    show ?thesis using True snoc.IH [OF s] all
      by (cases "\<forall>z \<in> set js. created_at z \<le> created_at x")
        (auto simp: takeWhile_append dropWhile_append not_le not_less)
  next
    case False
    then have "\<forall>z \<in> set (js @ [y]). created_at z \<le> created_at x" using le by fastforce
    then have all: "takeWhile (\<lambda>y. created_at y \<le> created_at x) (js @ [y]) = js @ [y]"
      "dropWhile (\<lambda>y. created_at y \<le> created_at x) (js @ [y]) = []"
      by (simp_all add: takeWhile_eq_all_conv)
    from False show ?thesis unfolding all by simp
  qed
qed

lemma filter_key_sorted:
  assumes "sorted (map f ys)"
  shows "filter (\<lambda>y. k = f y) (takeWhile (\<lambda>y. f y \<le> f x) ys @ x # dropWhile (\<lambda>y. f y \<le> f x) ys)
    = filter (\<lambda>y. k = f y) ys @ (if k = f x then [x] else [])"
  using assms
proof (induction ys)
  case Nil
  then show ?case by simp
next
  case (Cons y ys)
  then have rest: "sorted (map f ys)" and le: "\<forall>z \<in> set ys. f y \<le> f z" by auto
  show ?case
  proof (cases "f y \<le> f x")
    case True
    then show ?thesis using Cons.IH [OF rest] by auto
  next
    case False
    then have "\<forall>z \<in> set (y # ys). f x < f z" using le by fastforce
    then have none: "k = f x \<Longrightarrow> filter (\<lambda>y. k = f y) (y # ys) = []" by (force simp: filter_empty_conv)
    show ?thesis
    proof (cases "k = f x")
      case True
      then show ?thesis using False none by simp
    qed (use False in simp)
  qed
qed

lemma sorted_dropWhile_gt: "sorted (map f ys) \<Longrightarrow> y \<in> set (dropWhile (\<lambda>y. f y \<le> a) ys) \<Longrightarrow> \<not> f y \<le> (a :: 'b :: linorder)"
  by (induction ys) (fastforce split: if_splits)+

lemma sink_job_keeps:
  assumes "sorted (map created_at (rev acc))"
  shows "sorted (map created_at (rev (sink_job x acc)))" and "mset (sink_job x acc) = add_mset x (mset acc)"
    and "filter (\<lambda>y. k = created_at y) (rev (sink_job x acc)) = filter (\<lambda>y. k = created_at y) (rev acc @ [x])"
proof -
  let ?P = "\<lambda>y. created_at y \<le> created_at x"
  have r: "rev (sink_job x acc) = takeWhile ?P (rev acc) @ x # dropWhile ?P (rev acc)"
    using sink_job_rev [OF assms, of x] by simp
  have gt: "\<forall>y \<in> set (dropWhile ?P (rev acc)). created_at x < created_at y"
    using sorted_dropWhile_gt [OF assms, of _ "created_at x"] by (auto simp: not_le)
  have le: "\<forall>y \<in> set (takeWhile ?P (rev acc)). created_at y \<le> created_at x"
    by (auto dest: set_takeWhileD)
  have "sorted (map created_at (takeWhile ?P (rev acc)))" "sorted (map created_at (dropWhile ?P (rev acc)))"
    using assms sorted_append [of "map created_at (takeWhile ?P (rev acc))" "map created_at (dropWhile ?P (rev acc))"]
    by (simp_all flip: map_append)
  then show "sorted (map created_at (rev (sink_job x acc)))"
    unfolding r using gt le by (simp add: sorted_append) (meson le_less order_trans)
  have "mset (rev (sink_job x acc)) = add_mset x (mset (takeWhile ?P (rev acc) @ dropWhile ?P (rev acc)))"
    unfolding r by (simp del: takeWhile_dropWhile_id)
  then show "mset (sink_job x acc) = add_mset x (mset acc)" by simp
  show "filter (\<lambda>y. k = created_at y) (rev (sink_job x acc)) = filter (\<lambda>y. k = created_at y) (rev acc @ [x])"
    unfolding r using filter_key_sorted [OF assms, of k x] by simp
qed

lemma sort_jobs_steps:
  "sorted (map created_at (rev acc)) \<Longrightarrow>
     sorted (map created_at (rev (foldl (\<lambda>acc x. sink_job x acc) acc js)))
     \<and> mset (foldl (\<lambda>acc x. sink_job x acc) acc js) = mset acc + mset js
     \<and> filter (\<lambda>y. k = created_at y) (rev (foldl (\<lambda>acc x. sink_job x acc) acc js))
       = filter (\<lambda>y. k = created_at y) (rev acc @ js)"
proof (induction js arbitrary: acc)
  case Nil
  then show ?case by simp
next
  case (Cons x js)
  show ?case
    using Cons.IH [OF sink_job_keeps(1) [OF Cons.prems]] sink_job_keeps(2) [OF Cons.prems]
      sink_job_keeps(3) [OF Cons.prems, of k x] by simp
qed

text \<open>The bubble sort that orders the listed jobs is a stable sort by creation time.\<close>
theorem sort_jobs_is_sort: "sort_jobs js = sort_key created_at js"
proof (rule properties_for_sort_key [symmetric])
  note steps = sort_jobs_steps [of "[]" js, folded sort_jobs_def, simplified]
  show "mset (sort_jobs js) = mset js" "sorted (map created_at (sort_jobs js))"
    using steps by (simp_all add: sort_jobs_def)
  show "filter (\<lambda>x. created_at k = created_at x) (sort_jobs js) = filter (\<lambda>x. created_at k = created_at x) js" for k
    using steps by (simp add: sort_jobs_def)
qed

section \<open>Backoff\<close>

lemma shifted_second_small: "0 \<le> k \<Longrightarrow> k \<le> 33 \<Longrightarrow> wrap64 (second * 2 ^ nat k) = second * 2 ^ nat k"
proof -
  assume "0 \<le> k" "k \<le> 33"
  then have "(2::int) ^ nat k \<le> 2 ^ 33" by (intro power_increasing) auto
  moreover define p :: int where "p = 2 ^ nat k"
  moreover have "0 \<le> p" by (simp add: p_def)
  ultimately show ?thesis unfolding p_def [symmetric] by (intro wrap64_id) (auto simp: in_int64_def second_def)
qed

lemma shifted_second_large:
  assumes "34 \<le> k"
  shows "wrap64 (second * 2 ^ nat k) \<le> 0 \<or> wrap64 (second * 2 ^ nat k) > minute"
proof -
  define q :: int where "q = 2 ^ 43"
  have "nat k = 34 + nat (k - 34)" using assms by simp
  then have "second * 2 ^ nat k = q * (1953125 * 2 ^ nat (k - 34))"
    by (simp add: second_def q_def power_add)
  then have "q dvd second * 2 ^ nat k" by simp
  moreover have "q dvd 2 ^ 63" "q dvd 2 ^ 64" by (simp_all add: q_def)
  ultimately have "q dvd wrap64 (second * 2 ^ nat k)"
    unfolding wrap64_def by (intro dvd_diff dvd_mod dvd_add)
  then obtain m where m: "wrap64 (second * 2 ^ nat k) = q * m" by (auto simp: dvd_def)
  have "q > minute" by (simp add: q_def minute_def second_def)
  then show ?thesis unfolding m by (cases "m \<le> 0") (auto simp: q_def mult_le_0_iff minute_def second_def)
qed

text \<open>C34: The retry delay doubles from one second and stops at a minute, for every attempt number: the
  64-bit shift, which overflows from the 35th attempt on, never produces anything else.\<close>
theorem backoff_doubles: "backoff a = min (second * 2 ^ nat (a - 1)) minute \<and> second \<le> backoff a \<and> backoff a \<le> minute"
proof -
  define k where "k = (if a < 1 then 0 else a - 1)"
  have k0: "0 \<le> k" and ka: "nat (a - 1) = nat k" by (auto simp: k_def)
  have b: "backoff a = (let d = wrap64 (second * 2 ^ nat k) in if d > minute \<or> d \<le> 0 then minute else d)"
    by (auto simp: backoff_def k_def Let_def)
  have pos: "(1::int) \<le> 2 ^ nat k" by simp
  show ?thesis
  proof (cases "k \<le> 33")
    case True
    show ?thesis using pos unfolding b ka shifted_second_small [OF k0 True]
      by (auto simp: Let_def min_def second_def minute_def)
  next
    case False
    then have "(2::int) ^ 6 \<le> 2 ^ nat k" by (intro power_increasing) auto
    with False show ?thesis using shifted_second_large [of k] unfolding b ka
      by (auto simp: Let_def min_def second_def minute_def)
  qed
qed

end
