(* ===== verification/Job_Runs.thy ===== *)
theory Job_Runs
  imports Job_Engine
begin

text \<open>
  What holds in every run of the job engine: which state a job can be in while a worker is at a given
  position, that no job is stranded, that a final state stays and is on disk before it is visible, and
  that a worker comes to an end. The lemmas are proved for any \<open>Store\<close> that keeps the contract of
  \<open>job_store\<close>; the properties state them for the file store, which is the one the daemon uses.
\<close>

declare map_of_eq_Some_iff [simp del]

section \<open>The invariant\<close>

definition ends_with :: "job_state \<Rightarrow> job_state \<Rightarrow> bool" where
  "ends_with st s \<longleftrightarrow>
     (if st = JCancelled then s = JRunning \<or> s = JQueued \<or> s = JCancelled
      else (st = JSucceeded \<or> st = JFailed) \<and> s = JRunning)"

definition resumes :: "pc \<Rightarrow> bool" where
  "resumes k = (case k of Transferring _ _ _ \<Rightarrow> True | Sleeping _ \<Rightarrow> True | _ \<Rightarrow> False)"

text \<open>The states a job can be in while its worker is at a position.\<close>

fun pc_ok :: "string \<Rightarrow> pc \<Rightarrow> job_state \<Rightarrow> bool" where
  "pc_ok i AtHead s \<longleftrightarrow> s = JQueued \<or> s = JCancelled"
| "pc_ok i (Snapshot k) s \<longleftrightarrow> pc_ok i k s \<and> resumes k"
| "pc_ok i (Saving j k) s \<longleftrightarrow> job_id j = i \<and> pc_ok i k s \<and> (k = Publishing j \<or> resumes k)"
| "pc_ok i (Transferring n as r) s \<longleftrightarrow> s = JRunning"
| "pc_ok i (Decide n r) s \<longleftrightarrow> s = JRunning"
| "pc_ok i (Reclaiming st err) s \<longleftrightarrow> ends_with st s"
| "pc_ok i (Clearing st err) s \<longleftrightarrow> ends_with st s"
| "pc_ok i (Finishing st err) s \<longleftrightarrow> ends_with st s"
| "pc_ok i (Publishing j) s \<longleftrightarrow> job_id j = i \<and> ends_with (j_state j) s"
| "pc_ok i (Sleeping d) s \<longleftrightarrow> s = JQueued \<or> s = JCancelled"

text \<open>A verdict is a final state other than \<open>cancelled\<close>.\<close>

definition verdict :: "job_state \<Rightarrow> bool" where
  "verdict s \<longleftrightarrow> s = JSucceeded \<or> s = JFailed"

definition on_record :: "('s \<Rightarrow> string \<Rightarrow> job option) \<Rightarrow> 's engine \<Rightarrow> string \<Rightarrow> job_state \<Rightarrow> bool" where
  "on_record stored e i s \<longleftrightarrow>
     (\<exists>x. stored (en_store e) i = Some x \<and> j_state x = s) \<or> i \<in> set (en_log e)"

definition place_ok :: "'s engine \<Rightarrow> string \<Rightarrow> job \<Rightarrow> bool" where
  "place_ok e i j \<longleftrightarrow>
     (case lookup (en_work e) i of
        Some p \<Rightarrow> pc_ok i p (j_state j)
      | None \<Rightarrow> terminal (j_state j) \<or> j_state j = JQueued \<and> (i \<in> set (en_queue e) \<or> en_recover_failed e))
     \<and> (i \<in> set (en_queue e) \<longrightarrow> j_state j = JQueued \<or> j_state j = JCancelled)
     \<and> (lookup (en_cancelling e) i \<noteq> None \<longrightarrow> j_state j = JCancelled)"

definition saved_ok :: "('s \<Rightarrow> string \<Rightarrow> job option) \<Rightarrow> 's engine \<Rightarrow> string \<Rightarrow> job \<Rightarrow> bool" where
  "saved_ok stored e i j \<longleftrightarrow>
     (verdict (j_state j) \<longrightarrow> on_record stored e i (j_state j))
     \<and> (\<forall>x. lookup (en_work e) i = Some (Publishing x) \<longrightarrow> verdict (j_state x) \<longrightarrow> on_record stored e i (j_state x))"

definition table_ok :: "'s engine \<Rightarrow> bool" where
  "table_ok e \<longleftrightarrow>
     wf_map (en_jobs e) \<and> wf_map (en_work e) \<and> distinct (en_queue e)
     \<and> set (en_queue e) \<inter> keys (en_work e) = {}
     \<and> set (en_queue e) \<union> keys (en_work e) \<union> keys (en_cancelling e) \<subseteq> keys (en_jobs e)
     \<and> distinct (map job_id (en_recovering e))
     \<and> job_id ` set (en_recovering e) \<inter> keys (en_jobs e) = {}
     \<and> (\<forall>i j. lookup (en_cancelling e) i = Some (CSaving j) \<longrightarrow> job_id j = i)"

definition eng_inv :: "('s \<Rightarrow> string \<Rightarrow> job option) \<Rightarrow> ('s \<Rightarrow> bool) \<Rightarrow> 's engine \<Rightarrow> bool" where
  "eng_inv stored valid e \<longleftrightarrow>
     valid (en_store e) \<and> table_ok e
     \<and> (\<forall>i j. lookup (en_jobs e) i = Some j \<longrightarrow> job_id j = i \<and> place_ok e i j \<and> saved_ok stored e i j)
     \<and> (\<forall>j \<in> set (en_recovering e). stored (en_store e) (job_id j) = Some j)"

lemma ends_with_simps [simp]:
  "ends_with JCancelled s \<longleftrightarrow> s = JRunning \<or> s = JQueued \<or> s = JCancelled"
  "ends_with JSucceeded s \<longleftrightarrow> s = JRunning" "ends_with JFailed s \<longleftrightarrow> s = JRunning"
  "\<not> ends_with JQueued s" "\<not> ends_with JRunning s"
  by (simp_all add: ends_with_def)

lemma resumes_simps [simp]:
  "resumes (Transferring n as r)" "resumes (Sleeping d)" "\<not> resumes AtHead" "\<not> resumes (Publishing j)"
  "\<not> resumes (Snapshot k)" "\<not> resumes (Saving j k)" "\<not> resumes (Decide n r)"
  "\<not> resumes (Reclaiming st err)" "\<not> resumes (Clearing st err)" "\<not> resumes (Finishing st err)"
  by (simp_all add: resumes_def)

lemma verdict_simps [simp]:
  "verdict JSucceeded" "verdict JFailed" "\<not> verdict JCancelled" "\<not> verdict JQueued" "\<not> verdict JRunning"
  by (simp_all add: verdict_def)

lemma pc_ok_cancel: "pc_ok i p JQueued \<Longrightarrow> pc_ok i p JCancelled"
  by (induction i p JQueued rule: pc_ok.induct) (auto simp: ends_with_def split: if_splits)

lemma pc_ok_not_verdict: "pc_ok i p s \<Longrightarrow> \<not> verdict s"
  by (induction i p s rule: pc_ok.induct) (auto simp: ends_with_def split: if_splits)

lemma pc_ok_queued: "pc_ok i p JCancelled \<Longrightarrow> pc_ok i p JQueued"
  by (induction i p JCancelled rule: pc_ok.induct) (auto simp: ends_with_def split: if_splits)

lemma on_record_cong:
  "stored (en_store e') i = stored (en_store e) i \<Longrightarrow> set (en_log e) \<subseteq> set (en_log e') \<Longrightarrow>
    on_record stored e i s \<Longrightarrow> on_record stored e' i s"
  by (auto simp: on_record_def)

lemma set_pc_fields [simp]:
  "en_jobs (set_pc i po e) = en_jobs e" "en_queue (set_pc i po e) = en_queue e"
  "en_cancelling (set_pc i po e) = en_cancelling e" "en_recovering (set_pc i po e) = en_recovering e"
  "en_recover_failed (set_pc i po e) = en_recover_failed e" "en_store (set_pc i po e) = en_store e"
  "en_log (set_pc i po e) = en_log e" "en_deletes (set_pc i po e) = en_deletes e"
  "lookup (en_work (set_pc i po e)) k = (if k = i then po else lookup (en_work e) k)"
  by (auto simp: set_pc_def map_simps split: option.splits)

lemma set_pc_work [simp]:
  "wf_map (en_work e) \<Longrightarrow> wf_map (en_work (set_pc i po e))"
  "keys (en_work (set_pc i po e)) = (if po = None then keys (en_work e) - {i} else insert i (keys (en_work e)))"
  by (auto simp: set_pc_def map_simps split: option.splits)

lemma set_cpc_fields [simp]:
  "en_jobs (set_cpc i po e) = en_jobs e" "en_queue (set_cpc i po e) = en_queue e"
  "en_work (set_cpc i po e) = en_work e" "en_recovering (set_cpc i po e) = en_recovering e"
  "en_recover_failed (set_cpc i po e) = en_recover_failed e" "en_store (set_cpc i po e) = en_store e"
  "en_log (set_cpc i po e) = en_log e" "en_deletes (set_cpc i po e) = en_deletes e"
  "lookup (en_cancelling (set_cpc i po e)) k = (if k = i then po else lookup (en_cancelling e) k)"
  "keys (en_cancelling (set_cpc i po e)) = (if po = None then keys (en_cancelling e) - {i} else insert i (keys (en_cancelling e)))"
  by (auto simp: set_cpc_def map_simps split: option.splits)

lemma keys_iff: "i \<in> keys m \<longleftrightarrow> (\<exists>v. lookup m i = Some v)"
  using lookup_None_iff [of m i] by auto

lemma key_of: "lookup m i = Some v \<Longrightarrow> i \<in> keys m"
  by (simp only: keys_iff) blast

lemma key_value: "i \<in> keys m \<Longrightarrow> \<exists>v. lookup m i = Some v"
  by (simp only: keys_iff)

lemma table_okD:
  assumes "table_ok e"
  shows "i \<in> set (en_queue e) \<Longrightarrow> lookup (en_work e) i = None"
    "i \<in> set (en_queue e) \<Longrightarrow> \<exists>j. lookup (en_jobs e) i = Some j"
    "lookup (en_work e) i = Some p \<Longrightarrow> \<exists>j. lookup (en_jobs e) i = Some j"
    "lookup (en_cancelling e) i = Some c \<Longrightarrow> \<exists>j. lookup (en_jobs e) i = Some j"
    "j \<in> set (en_recovering e) \<Longrightarrow> lookup (en_jobs e) (job_id j) = None"
    "lookup (en_work e) i = Some p \<Longrightarrow> i \<notin> set (en_queue e)"
proof -
  have q: "set (en_queue e) \<inter> keys (en_work e) = {}"
    and k: "set (en_queue e) \<union> keys (en_work e) \<union> keys (en_cancelling e) \<subseteq> keys (en_jobs e)"
    and r: "job_id ` set (en_recovering e) \<inter> keys (en_jobs e) = {}"
    using assms by (simp_all add: table_ok_def)
  show "lookup (en_work e) i = None" if "i \<in> set (en_queue e)"
    using q that unfolding lookup_None_iff by blast
  show "\<exists>j. lookup (en_jobs e) i = Some j" if "i \<in> set (en_queue e)"
    by (rule key_value) (use k that in blast)
  show "\<exists>j. lookup (en_jobs e) i = Some j" if "lookup (en_work e) i = Some p"
    by (rule key_value) (use k key_of [OF that] in blast)
  show "\<exists>j. lookup (en_jobs e) i = Some j" if "lookup (en_cancelling e) i = Some c"
    by (rule key_value) (use k key_of [OF that] in blast)
  show "lookup (en_jobs e) (job_id j) = None" if "j \<in> set (en_recovering e)"
    using r that unfolding lookup_None_iff by blast
  show "i \<notin> set (en_queue e)" if "lookup (en_work e) i = Some p"
    using q key_of [OF that] by blast
qed

text \<open>A step that changes one job, and the position of its worker, keeps the invariant when it does so locally.\<close>

lemma inv_own_step:
  assumes inv: "eng_inv stored valid e" and work: "lookup (en_work e) i = Some p"
    and same: "en_queue e' = en_queue e" "en_work e' = en_work e" "en_cancelling e' = en_cancelling e"
      "en_recovering e' = en_recovering e" "en_recover_failed e' = en_recover_failed e"
    and jobs: "wf_map (en_jobs e')" "lookup (en_jobs e') i = Some j'" "job_id j' = i"
      "\<And>k. k \<noteq> i \<Longrightarrow> lookup (en_jobs e') k = lookup (en_jobs e) k"
    and store: "valid (en_store e')" "\<And>k. k \<noteq> i \<Longrightarrow> stored (en_store e') k = stored (en_store e) k"
      "set (en_log e) \<subseteq> set (en_log e')"
    and pos: "case po of Some p' \<Rightarrow> pc_ok i p' (j_state j') | None \<Rightarrow> terminal (j_state j')"
    and rec: "verdict (j_state j') \<Longrightarrow> on_record stored e' i (j_state j')"
      "\<And>x. po = Some (Publishing x) \<Longrightarrow> verdict (j_state x) \<Longrightarrow> on_record stored e' i (j_state x)"
    and canc: "lookup (en_cancelling e) i \<noteq> None \<Longrightarrow> j_state j' = JCancelled"
  shows "eng_inv stored valid (set_pc i po e')"
proof -
  have t: "table_ok e" using inv by (simp add: eng_inv_def)
  then obtain j where j: "lookup (en_jobs e) i = Some j" using table_okD(3) work by blast
  have "lookup (en_jobs e') k \<noteq> None \<longleftrightarrow> lookup (en_jobs e) k \<noteq> None" for k
    by (cases "k = i") (simp_all add: jobs j)
  then have keys: "keys (en_jobs e') = keys (en_jobs e)"
    by (intro set_eqI) (simp add: keys_iff)
  have q: "i \<notin> set (en_queue e)" using table_okD(6) [OF t work] .
  have ik: "i \<in> keys (en_jobs e)" using key_of [OF j] .
  have "table_ok (set_pc i po e')"
    using t q ik by (auto simp: table_ok_def same jobs(1) keys)
  moreover have "job_id x = k \<and> place_ok (set_pc i po e') k x \<and> saved_ok stored (set_pc i po e') k x"
    if x: "lookup (en_jobs e') k = Some x" for k x
  proof (cases "k = i")
    case True
    then have "x = j'" using x jobs(2) by simp
    moreover have "place_ok (set_pc i po e') i j'"
      using pos canc q by (auto simp: place_ok_def same split: option.splits)
    moreover have "saved_ok stored (set_pc i po e') i j'"
      using rec by (auto simp: saved_ok_def on_record_def)
    ultimately show ?thesis using True jobs(3) by simp
  next
    case False
    then have "lookup (en_jobs e) k = Some x" using x jobs(4) by simp
    then have "job_id x = k" "place_ok e k x" "saved_ok stored e k x" using inv by (auto simp: eng_inv_def)
    with False store(2,3) show ?thesis
      by (auto simp: place_ok_def saved_ok_def same on_record_def split: option.splits)
  qed
  moreover have "stored (en_store e') (job_id x) = Some x" if "x \<in> set (en_recovering e')" for x
  proof -
    have "job_id x \<noteq> i" using table_okD(5) [OF t, of x] that j same(4) by auto
    then show ?thesis using inv that store(2) same(4) by (auto simp: eng_inv_def)
  qed
  ultimately show ?thesis using store(1) by (auto simp: eng_inv_def)
qed

section \<open>Every step keeps the invariant\<close>

context job_store
begin

lemma inv_work:
  assumes inv: "eng_inv stored valid e" and work: "lookup (en_work e) i = Some p"
    and step: "worker_step ops g w i p e = (po, e')"
  shows "eng_inv stored valid (set_pc i po e')"
proof -
  have t: "table_ok e" and v: "valid (en_store e)" using inv by (simp_all add: eng_inv_def)
  obtain j where j: "lookup (en_jobs e) i = Some j" using table_okD(3) [OF t work] by blast
  have wf: "wf_map (en_jobs e)" using t by (simp add: table_ok_def)
  have id: "job_id j = i" and pl: "place_ok e i j" and sv: "saved_ok stored e i j"
    using inv j by (auto simp: eng_inv_def)
  have pc: "pc_ok i p (j_state j)" and canc: "lookup (en_cancelling e) i \<noteq> None \<Longrightarrow> j_state j = JCancelled"
    using pl work by (auto simp: place_ok_def)
  have nv: "\<not> verdict (j_state j)" using pc_ok_not_verdict [OF pc] .
  note local_step = inv_own_step [OF inv work]
  show ?thesis
  proof (cases p)
    case AtHead
    show ?thesis
    proof (cases "terminal (j_state j)")
      case True
      then have "po = None" "e' = e" using step AtHead j by (auto simp: worker_step_def)
      then show ?thesis using True nv canc by (auto intro!: local_step [OF _ _ _ _ _ wf j id _ v])
    next
      case False
      let ?j = "start_job (we_now w) j"
      obtain acts r where po: "po = Some (Snapshot (Transferring (j_attempts ?j) acts r))"
        and e': "e' = e\<lparr>en_jobs := AList.update i ?j (en_jobs e), en_cancels := i # en_cancels e\<rparr>"
        using step AtHead j False by (auto simp: worker_step_def Let_def split: prod.splits)
      have "j_state j = JQueued" using False pc AtHead by auto
      then show ?thesis using canc wf v id unfolding po e'
        by (intro local_step [where j' = ?j]) (auto simp: map_simps simp del: map_of_eq_Some_iff)
    qed
  next
    case (Snapshot k)
    then have "po = Some (Saving j k)" "e' = e" using step j by (auto simp: worker_step_def)
    then show ?thesis using Snapshot j pc wf id canc v nv by (intro local_step [where j' = j]) auto
  next
    case (Saving x k)
    have "job_id x = i" and k: "pc_ok i k (j_state j)" "k = Publishing x \<or> resumes k" using pc Saving by auto
    then have s: "\<And>m. m \<noteq> i \<Longrightarrow> stored (snd (st_save ops x (en_store e))) m = stored (en_store e) m"
      and r: "on_record stored (save_job ops x e) i (j_state x)"
      using save_frame [OF v, of _ x] save_ok [OF v, of x]
      by (auto simp: on_record_def save_job_log)
    have "po = Some k" "e' = save_job ops x e" using step Saving by (auto simp: worker_step_def)
    then show ?thesis using j wf id canc save_valid [OF v, of x] s r k nv
      by (intro local_step [where j' = j]) (auto simp: save_job_log)
  next
    case (Transferring n acts r)
    show ?thesis
    proof (cases acts)
      case Nil
      then have "po = Some (Decide n r)" "e' = e\<lparr>en_cancels := removeAll i (en_cancels e),
          en_signalled := removeAll i (en_signalled e)\<rparr>"
        using step Transferring by (auto simp: worker_step_def)
      then show ?thesis using Transferring j pc wf id canc v nv by (intro local_step [where j' = j]) auto
    next
      case (Cons a as)
      then have "po = Some (if saves a then Snapshot (Transferring n as r) else Transferring n as r)"
        "e' = upd_job i (act_on_job (we_now w) a) e"
        using step Transferring by (auto simp: worker_step_def)
      then show ?thesis using Transferring j pc wf canc v nv
        by (cases "saves a") (auto intro: local_step [where j' = "act_on_job (we_now w) a j"] simp: id)
    qed
  next
    case (Decide n r)
    then obtain k where k: "po = Some k" "after_attempt g w i n r e = (k, e')"
      using step by (auto simp: worker_step_def split: prod.splits)
    from k(2) consider (ended) st err where "e' = e" "k = Finishing JSucceeded None \<or> k = Reclaiming st err" "st = JCancelled \<or> st = JFailed"
      | (again) d je where "e' = upd_job i (requeue_job (we_now w) je) e" "k = Snapshot (Sleeping d)"
      by (auto simp: after_attempt_def split: option.splits if_splits)
    then show ?thesis
    proof cases
      case ended
      then show ?thesis using k Decide j pc wf id canc v nv by (intro local_step [where j' = j]) auto
    next
      case again
      then show ?thesis using k Decide j pc wf id canc v nv
        by (intro local_step [where j' = "requeue_job (we_now w) je j"]) auto
    qed
  next
    case (Reclaiming st err)
    then have "po = Some (Clearing st err)" "e' = request_delete (we_info w) (lookup (en_jobs e) i) e"
      using step by (auto simp: worker_step_def)
    then show ?thesis using Reclaiming j pc wf id canc v nv by (intro local_step [where j' = j]) auto
  next
    case (Clearing st err)
    then have "po = Some (Finishing st err)" "e' = upd_job i (\<lambda>j. j\<lparr>up_file_id := [], up_temp := []\<rparr>) e"
      using step by (auto simp: worker_step_def)
    then show ?thesis using Clearing j pc wf id canc v nv
      by (intro local_step [where j' = "j\<lparr>up_file_id := [], up_temp := []\<rparr>"]) auto
  next
    case (Finishing st err)
    then obtain x where "po = Some (Saving x (Publishing x))" "e' = e" "j_state x = st" "job_id x = i"
      using step j id by (auto simp: worker_step_def Let_def)
    then show ?thesis using Finishing j pc wf id canc v nv by (intro local_step [where j' = j]) auto
  next
    case (Publishing x)
    then have "po = None" "e' = upd_job i (\<lambda>_. x) e" using step by (auto simp: worker_step_def)
    moreover have "verdict (j_state x) \<Longrightarrow> on_record stored e i (j_state x)"
      using sv work Publishing by (auto simp: saved_ok_def)
    ultimately show ?thesis using Publishing j pc wf id canc v nv
      by (intro local_step [where j' = x]) (auto simp: ends_with_def on_record_def verdict_def split: if_splits)
  next
    case (Sleeping d)
    then have "po = Some AtHead \<or> po = Some (Reclaiming JCancelled None)" "e' = e"
      using step by (auto simp: worker_step_def split: option.splits)
    then show ?thesis using Sleeping j pc wf id canc v nv by (intro local_step [where j' = j]) auto
  qed
qed

lemma inv_frame:
  assumes "eng_inv stored valid e"
    and "en_jobs e' = en_jobs e" "en_work e' = en_work e" "en_queue e' = en_queue e"
      "en_cancelling e' = en_cancelling e" "en_recovering e' = en_recovering e"
      "en_recover_failed e' = en_recover_failed e" "en_store e' = en_store e" "en_log e' = en_log e"
  shows "eng_inv stored valid e'"
  using assms(1) unfolding eng_inv_def table_ok_def place_ok_def saved_ok_def on_record_def assms(2-) .

lemma inv_pick:
  assumes inv: "eng_inv stored valid e" and q: "en_queue e = i # q"
  shows "eng_inv stored valid (set_pc i (Some AtHead) (e\<lparr>en_queue := q\<rparr>))"
proof -
  have t: "table_ok e" using inv by (simp add: eng_inv_def)
  have iq: "i \<in> set (en_queue e)" and d: "i \<notin> set q" using q t by (auto simp: table_ok_def)
  obtain j where j: "lookup (en_jobs e) i = Some j" using table_okD(2) [OF t iq] by blast
  have "i \<in> keys (en_jobs e)" using key_of [OF j] .
  then have "table_ok (set_pc i (Some AtHead) (e\<lparr>en_queue := q\<rparr>))"
    using t q d by (auto simp: table_ok_def)
  moreover have "place_ok (set_pc i (Some AtHead) (e\<lparr>en_queue := q\<rparr>)) k x"
    if "place_ok e k x" for k x
    using that q d iq by (auto simp: place_ok_def split: option.splits)
  moreover have "saved_ok stored (set_pc i (Some AtHead) (e\<lparr>en_queue := q\<rparr>)) k x"
    if "saved_ok stored e k x" for k x
    using that by (auto simp: saved_ok_def on_record_def)
  ultimately show ?thesis using inv by (auto simp: eng_inv_def)
qed

lemma inv_cancel:
  assumes inv: "eng_inv stored valid e"
  shows "eng_inv stored valid (snd (cancel_mark i now e))"
proof (cases "lookup (en_jobs e) i")
  case None
  then show ?thesis using inv by (simp add: cancel_mark_def)
next
  case (Some j)
  have t: "table_ok e" using inv by (simp add: eng_inv_def)
  have id: "job_id j = i" and pl: "place_ok e i j" using inv Some by (auto simp: eng_inv_def)
  define e1 where "e1 = (if i \<in> set (en_cancels e) then e\<lparr>en_signalled := i # en_signalled e\<rparr> else e)"
  have inv1: "eng_inv stored valid e1" by (rule inv_frame [OF inv]) (simp_all add: e1_def)
  show ?thesis
  proof (cases "terminal (j_state j) \<or> j_state j = JRunning")
    case True
    then show ?thesis using inv inv1 Some by (auto simp: cancel_mark_def Let_def e1_def)
  next
    case False
    then have qd: "j_state j = JQueued" by (cases "j_state j") auto
    define j' where "j' = j\<lparr>j_state := JCancelled, updated_at := now, j_speed := 0\<rparr>"
    define e2 where "e2 = e1\<lparr>en_jobs := AList.update i j' (en_jobs e1),
      en_cancelling := AList.update i (CReclaim j') (en_cancelling e1)\<rparr>"
    have e2: "snd (cancel_mark i now e) = e2"
      using Some False by (auto simp: cancel_mark_def Let_def e2_def e1_def j'_def)
    have f: "en_work e2 = en_work e" "en_queue e2 = en_queue e" "en_recovering e2 = en_recovering e"
      "en_recover_failed e2 = en_recover_failed e" "en_store e2 = en_store e" "en_log e2 = en_log e"
      "en_jobs e2 = AList.update i j' (en_jobs e)" "en_cancelling e2 = AList.update i (CReclaim j') (en_cancelling e)"
      by (simp_all add: e2_def e1_def)
    have ik: "i \<in> keys (en_jobs e)" using key_of [OF Some] .
    then have keys: "keys (en_jobs e2) = keys (en_jobs e)" by (auto simp: f map_simps)
    have "table_ok e2"
      using t ik keys by (auto simp: table_ok_def f map_simps split: if_splits)
    moreover have "job_id x = k \<and> place_ok e2 k x \<and> saved_ok stored e2 k x"
      if x: "lookup (en_jobs e2) k = Some x" for k x
    proof (cases "k = i")
      case True
      then have xj: "x = j'" using x by (simp add: f map_simps)
      have "pc_ok i p JQueued \<Longrightarrow> pc_ok i p JCancelled" for p by (rule pc_ok_cancel)
      then have "place_ok e2 i j'"
        using pl qd by (auto simp: place_ok_def f map_simps j'_def split: option.splits)
      moreover have "saved_ok stored e2 i j'"
        using inv Some by (auto simp: eng_inv_def saved_ok_def f on_record_def j'_def)
      ultimately show ?thesis using True xj id by (simp add: j'_def)
    next
      case False
      then have "lookup (en_jobs e) k = Some x" using x by (simp add: f map_simps)
      then have "job_id x = k" "place_ok e k x" "saved_ok stored e k x" using inv by (auto simp: eng_inv_def)
      with False show ?thesis by (auto simp: place_ok_def saved_ok_def on_record_def f map_simps split: option.splits)
    qed
    ultimately show ?thesis unfolding e2 using inv by (auto simp: eng_inv_def f)
  qed
qed

lemma inv_cancelling:
  assumes inv: "eng_inv stored valid e" and c: "lookup (en_cancelling e) i = Some p"
    and step: "cancel_step ops info i p e = (po, e')"
  shows "eng_inv stored valid (set_cpc i po e')"
proof -
  have t: "table_ok e" and v: "valid (en_store e)" using inv by (simp_all add: eng_inv_def)
  obtain j where j: "lookup (en_jobs e) i = Some j" using table_okD(4) [OF t c] by blast
  then have id: "job_id j = i" and pl: "place_ok e i j" using inv by (auto simp: eng_inv_def)
  then have cj: "j_state j = JCancelled" using c by (simp add: place_ok_def)
  then have work: "\<And>x. lookup (en_work e) i = Some (Publishing x) \<Longrightarrow> \<not> verdict (j_state x)"
    using pl by (auto simp: place_ok_def ends_with_def verdict_def split: if_splits)
  have f: "en_jobs e' = en_jobs e" "en_work e' = en_work e" "en_queue e' = en_queue e"
    "en_cancelling e' = en_cancelling e" "en_recovering e' = en_recovering e"
    "en_recover_failed e' = en_recover_failed e"
    using step by (auto simp: cancel_step_def split: cpc.splits)
  have ci: "\<And>x. p = CSaving x \<Longrightarrow> job_id x = i" using t c by (auto simp: table_ok_def)
  have vs: "valid (en_store e')"
    using step v save_valid [OF v] by (auto simp: cancel_step_def split: cpc.splits)
  have st: "stored (en_store e') k = stored (en_store e) k" if "k \<noteq> i" for k
    using step that ci save_frame [OF v, of k] by (auto simp: cancel_step_def split: cpc.splits)
  have lg: "set (en_log e) \<subseteq> set (en_log e')"
    using step by (auto simp: cancel_step_def save_job_log split: cpc.splits)
  have "i \<in> keys (en_jobs e)" using key_of [OF j] .
  moreover have "\<And>x. po = Some (CSaving x) \<Longrightarrow> job_id x = i"
    using step j id by (auto simp: cancel_step_def split: cpc.splits)
  ultimately have "table_ok (set_cpc i po e')"
    using t by (auto simp: table_ok_def f split: if_splits)
  moreover have "place_ok (set_cpc i po e') k x \<and> saved_ok stored (set_cpc i po e') k x"
    if x: "lookup (en_jobs e) k = Some x" for k x
  proof -
    have "place_ok e k x" "saved_ok stored e k x" using x inv by (auto simp: eng_inv_def)
    then show ?thesis using st lg work cj x j
      by (cases "k = i") (auto simp: place_ok_def saved_ok_def on_record_def f verdict_def split: option.splits if_splits)
  qed
  moreover have "stored (en_store e') (job_id x) = Some x" if "x \<in> set (en_recovering e)" for x
  proof -
    have "job_id x \<noteq> i" using table_okD(5) [OF t that] j by auto
    then show ?thesis using inv that st by (auto simp: eng_inv_def)
  qed
  ultimately show ?thesis using vs inv by (auto simp: eng_inv_def f)
qed


text \<open>A step that adds a job nobody works on yet.\<close>

lemma inv_add_job:
  assumes inv: "eng_inv stored valid e" and new: "lookup (en_jobs e) i = None" and id: "job_id j = i"
    and same: "en_work e' = en_work e" "en_cancelling e' = en_cancelling e"
    and jobs: "en_jobs e' = AList.update i j (en_jobs e)"
    and q: "en_queue e' = en_queue e \<or> en_queue e' = en_queue e @ [i] \<and> j_state j = JQueued"
    and st: "terminal (j_state j) \<or> j_state j = JQueued \<and> (i \<in> set (en_queue e') \<or> en_recover_failed e')"
    and fl: "en_recover_failed e \<Longrightarrow> en_recover_failed e'"
    and rc: "set (en_recovering e') \<subseteq> set (en_recovering e)" "distinct (map job_id (en_recovering e'))"
      "i \<notin> job_id ` set (en_recovering e')"
    and store: "valid (en_store e')" "\<And>k. k \<noteq> i \<Longrightarrow> stored (en_store e') k = stored (en_store e) k"
      "set (en_log e) \<subseteq> set (en_log e')"
    and vd: "verdict (j_state j) \<Longrightarrow> on_record stored e' i (j_state j)"
  shows "eng_inv stored valid e'"
proof -
  have t: "table_ok e" using inv by (simp add: eng_inv_def)
  have ni: "i \<notin> keys (en_jobs e)" using new by (simp add: lookup_None_iff)
  have nq: "i \<notin> set (en_queue e)" "lookup (en_work e) i = None" "lookup (en_cancelling e) i = None"
    using table_okD(2,3,4) [OF t] new by (fastforce, (metis not_None_eq)+)
  then have nw: "i \<notin> keys (en_work e)" by (simp add: lookup_None_iff)
  have t2: "job_id ` set (en_recovering e) \<inter> keys (en_jobs e) = {}" using t by (simp add: table_ok_def)
  have "job_id ` set (en_recovering e') \<inter> insert i (keys (en_jobs e)) = {}" using rc t2 by blast
  moreover have "set (en_queue e') \<subseteq> insert i (set (en_queue e))" "distinct (en_queue e')"
    using q t nq(1) by (auto simp: table_ok_def)
  moreover have "set (en_queue e) \<inter> keys (en_work e) = {}"
    "set (en_queue e) \<union> keys (en_work e) \<union> keys (en_cancelling e) \<subseteq> keys (en_jobs e)"
    using t by (simp_all add: table_ok_def)
  moreover from calculation have "set (en_queue e') \<inter> keys (en_work e) = {}"
    "set (en_queue e') \<union> keys (en_work e) \<union> keys (en_cancelling e) \<subseteq> insert i (keys (en_jobs e))"
    using nw by blast+
  ultimately have "table_ok e'"
    using t rc(2) unfolding table_ok_def same jobs keys_update by (intro conjI) (simp_all add: distinct_update)
  moreover have "job_id x = k \<and> place_ok e' k x \<and> saved_ok stored e' k x"
    if x: "lookup (en_jobs e') k = Some x" for k x
  proof (cases "k = i")
    case True
    then have "x = j" using x by (simp add: jobs map_simps)
    then show ?thesis using True id nq st vd q by (auto simp: place_ok_def saved_ok_def same)
  next
    case False
    then have "lookup (en_jobs e) k = Some x" using x by (simp add: jobs map_simps)
    then have "job_id x = k" "place_ok e k x" "saved_ok stored e k x" using inv by (auto simp: eng_inv_def)
    with False store(2,3) q fl show ?thesis
      by (auto simp: place_ok_def saved_ok_def on_record_def same split: option.splits)
  qed
  moreover have "stored (en_store e') (job_id x) = Some x" if "x \<in> set (en_recovering e')" for x
  proof -
    have "job_id x \<noteq> i" using rc(3) that by blast
    then show ?thesis using inv that store(2) rc(1) by (auto simp: eng_inv_def)
  qed
  ultimately show ?thesis using store(1) by (auto simp: eng_inv_def)
qed

text \<open>A step that only stores something under an id nobody knows.\<close>

lemma inv_store_frame:
  assumes inv: "eng_inv stored valid e" and new: "lookup (en_jobs e) i = None" "i \<notin> job_id ` set (en_recovering e)"
    and st: "valid s" "\<And>k. k \<noteq> i \<Longrightarrow> stored s k = stored (en_store e) k"
  shows "eng_inv stored valid (e\<lparr>en_store := s\<rparr>)"
proof -
  have "saved_ok stored (e\<lparr>en_store := s\<rparr>) k x" if "lookup (en_jobs e) k = Some x" for k x
  proof -
    have "k \<noteq> i" using that new(1) by auto
    moreover have "saved_ok stored e k x" using inv that by (auto simp: eng_inv_def)
    ultimately show ?thesis using st(2) by (auto simp: saved_ok_def on_record_def)
  qed
  moreover have "stored s (job_id x) = Some x" if "x \<in> set (en_recovering e)" for x
  proof -
    have "job_id x \<noteq> i" using new(2) that by blast
    then show ?thesis using inv that st(2) by (auto simp: eng_inv_def)
  qed
  moreover have "table_ok (e\<lparr>en_store := s\<rparr>) = table_ok e" "place_ok (e\<lparr>en_store := s\<rparr>) k x = place_ok e k x" for k x
    by (simp_all add: table_ok_def place_ok_def split: option.split)
  ultimately show ?thesis using inv st(1) by (auto simp: eng_inv_def)
qed

lemma inv_submit:
  assumes inv: "eng_inv stored valid e" and new: "i \<notin> keys (en_jobs e)" "i \<notin> job_id ` set (en_recovering e)"
    and step: "submit ops g i now sp e = (r, e')"
  shows "eng_inv stored valid e'"
proof (cases "validate_spec sp")
  case (Inl err)
  then show ?thesis using step inv by (simp add: submit_def)
next
  case (Inr sp')
  define j where "j = new_job g i now sp'"
  have id: "job_id j = i" and qd: "j_state j = JQueued" by (simp_all add: j_def new_job_def)
  obtain ok st where sv: "st_save ops j (en_store e) = (ok, st)" by fastforce
  have v: "valid (en_store e)" using inv by (simp add: eng_inv_def)
  have ni: "lookup (en_jobs e) i = None" using new(1) by (simp add: lookup_None_iff)
  have vs: "valid st" and fr: "\<And>k. k \<noteq> i \<Longrightarrow> stored st k = stored (en_store e) k"
    using save_valid [OF v, of j] save_frame [OF v, of _ j] sv id by auto
  have inv1: "eng_inv stored valid (e\<lparr>en_store := st\<rparr>)" by (rule inv_store_frame [OF inv ni new(2) vs fr])
  consider (refused) "\<not> ok" | (queued) "ok" "length (en_queue e) < queue_cap" | (full) "ok" "\<not> length (en_queue e) < queue_cap"
    by blast
  then show ?thesis
  proof cases
    case refused
    then show ?thesis using step Inr sv inv1 by (auto simp: submit_def Let_def j_def)
  next
    case queued
    then have e': "e' = e\<lparr>en_store := st, en_jobs := AList.update i j (en_jobs e), en_queue := en_queue e @ [i]\<rparr>"
      using step Inr sv by (auto simp: submit_def Let_def j_def)
    show ?thesis
      by (rule inv_add_job [OF inv ni id]) (use inv vs fr qd new(2) in \<open>auto simp: e' eng_inv_def table_ok_def\<close>)
  next
    case full
    then have e': "e' = e\<lparr>en_store := snd (st_delete ops i st), en_jobs := AList.delete i (en_jobs e)\<rparr>"
      using step Inr sv by (auto simp: submit_def Let_def j_def)
    have "AList.delete i (en_jobs e) = en_jobs e" using new(1) by (rule delete_id)
    then have e'': "e' = e\<lparr>en_store := snd (st_delete ops i st)\<rparr>" by (simp add: e')
    have "stored (snd (st_delete ops i st)) k = stored st k" if "k \<noteq> i" for k
      using delete_ok [OF vs, of i k] delete_failed [OF vs, of i k] that by auto
    then show ?thesis unfolding e'' using delete_valid [OF vs] fr
      by (intro inv_store_frame [OF inv ni new(2)]) auto
  qed
qed

lemma inv_recover:
  assumes inv: "eng_inv stored valid e" and rec: "en_recovering e = j # js"
    and step: "recover_one ops info now j e = (ok, e')"
  shows "eng_inv stored valid (e'\<lparr>en_recovering := (if ok then js else []),
    en_recover_failed := (en_recover_failed e' \<or> \<not> ok)\<rparr>)" (is "eng_inv _ _ ?e")
proof -
  have t: "table_ok e" and v: "valid (en_store e)" using inv by (simp_all add: eng_inv_def)
  have ni: "lookup (en_jobs e) (job_id j) = None" using table_okD(5) [OF t, of j] rec by simp
  have st: "stored (en_store e) (job_id j) = Some j" using inv rec by (simp add: eng_inv_def)
  have ds: "distinct (map job_id js)" "job_id j \<notin> job_id ` set js" using t rec by (auto simp: table_ok_def)
  note sf = save_frame [OF v] and sv = save_valid [OF v]
  note add = inv_add_job [OF inv ni]
  show ?thesis
  proof (cases "terminal (j_state j)")
    case True
    then have e: "ok = True" "e' = e\<lparr>en_jobs := AList.update (job_id j) j (en_jobs e)\<rparr>"
      using step by (auto simp: recover_one_def)
    show ?thesis
      by (rule add [where j = j]) (use True e ds rec v st in \<open>auto simp: on_record_def\<close>)
  next
    case False
    show ?thesis
    proof (cases "j_kind j = JobUpload \<and> up_file_id j \<noteq> [] \<and> fst (reclaim info (Some j))")
      case True
      define x where "x = j\<lparr>j_state := JSucceeded, j_speed := 0, j_error := None,
        bytes_done := (if bytes_total j > 0 then bytes_total j else bytes_done j),
        up_file_id := [], up_temp := [], updated_at := now\<rparr>"
      have x: "job_id x = job_id j" "j_state x = JSucceeded" by (simp_all add: x_def)
      have e: "ok = True" "e' = (save_job ops x (request_delete info (Some j) e))
            \<lparr>en_jobs := AList.update (job_id j) x (en_jobs e)\<rparr>"
        using step False True by (auto simp: recover_one_def Let_def x_def)
      have "on_record stored (save_job ops x e) (job_id j) JSucceeded"
        using save_ok [OF v, of x "job_id j"] x by (auto simp: on_record_def save_job_log)
      then show ?thesis
        by (intro add [where j = x]) (use x e ds rec sv sf in \<open>auto simp: on_record_def save_job_log\<close>)
    next
      case notdone: False
      define x where "x = (if j_kind j = JobUpload \<and> up_file_id j \<noteq> []
        then j\<lparr>up_file_id := [], up_temp := [], bytes_done := 0\<rparr> else j)\<lparr>j_state := JQueued, j_speed := 0, updated_at := now\<rparr>"
      define e1 where "e1 = (if j_kind j = JobUpload \<and> up_file_id j \<noteq> [] then request_delete info (Some j) e else e)"
      have x: "job_id x = job_id j" "j_state x = JQueued" by (simp_all add: x_def)
      have f1: "en_jobs e1 = en_jobs e" "en_queue e1 = en_queue e" "en_store e1 = en_store e" "en_log e1 = en_log e"
        "en_work e1 = en_work e" "en_cancelling e1 = en_cancelling e" "en_recovering e1 = en_recovering e"
        "en_recover_failed e1 = en_recover_failed e"
        by (simp_all add: e1_def)
      define e2 where "e2 = save_job ops x (e1\<lparr>en_jobs := AList.update (job_id j) x (en_jobs e1)\<rparr>)"
      have f2: "en_jobs e2 = AList.update (job_id j) x (en_jobs e)" "en_queue e2 = en_queue e"
        "en_store e2 = snd (st_save ops x (en_store e))" "set (en_log e) \<subseteq> set (en_log e2)"
        "en_work e2 = en_work e" "en_cancelling e2 = en_cancelling e"
        "en_recover_failed e2 = en_recover_failed e"
        by (auto simp: e2_def f1 save_job_log)
      have e: "ok = (length (en_queue e) < queue_cap)"
        "e' = (if ok then e2\<lparr>en_queue := en_queue e @ [job_id j]\<rparr> else e2)"
        using step False notdone f2(2) by (auto simp: recover_one_def Let_def x_def e1_def e2_def split: if_splits)
      show ?thesis
        by (rule add [where j = x])
          (use x e f2 ds rec sv sf in \<open>auto split: if_splits\<close>)
    qed
  qed
qed

lemma inv_step:
  assumes "eng_inv stored valid e" and "eng_step ops g e ev e'"
  shows "eng_inv stored valid e'"
  using assms(2)
proof cases
  case (submit i now sp r)
  then show ?thesis using inv_submit assms(1) by blast
next
  case (recover j js info now ok e'')
  then show ?thesis using inv_recover [OF assms(1)] by blast
next
  case (pick i q)
  then show ?thesis using inv_pick [OF assms(1)] by blast
next
  case (work i p w po e'')
  then show ?thesis using inv_work [OF assms(1)] by blast
next
  case (cancel i now r)
  then show ?thesis using inv_cancel [OF assms(1), of i now] by simp
next
  case (cancelling i p info po e'')
  then show ?thesis using inv_cancelling [OF assms(1)] by blast
next
  case stop
  then show ?thesis using inv_frame [OF assms(1)] by (simp add: stop_engine_def)
qed

lemma inv_start:
  assumes "valid st" and "distinct (map job_id (fst (st_load ops st)))"
  shows "eng_inv stored valid (recover_load ops (new_engine st))"
  using assms load_all [OF assms(1)] stored_id [OF assms(1)]
  by (auto simp: eng_inv_def table_ok_def recover_load_def new_engine_def)

lemma inv_reachable:
  assumes "valid st" and "distinct (map job_id (fst (st_load ops st)))" and "eng_reachable ops g st e"
  shows "eng_inv stored valid e"
  using assms(3) by (induction rule: eng_reachable.induct) (auto intro: inv_start assms inv_step)

end

end
