(* ===== verification/Job_Props.thy ===== *)
theory Job_Props
  imports Job_Runs
begin

text \<open>
  The properties of the job engine, for runs on the file store: where a job can be, that final states stay and are
  durable before they are visible, that workers come to an end, that reclaiming is safe; and two orders of
  events in which a cancellation is lost.
\<close>

section \<open>The file store starts as the invariant asks\<close>

lemma read_jobs_distinct:
  assumes "distinct (map fst d)"
    and "\<And>n j. (n, JobFile j) \<in> set d \<Longrightarrow> suffix job_suffix n \<Longrightarrow> n = store_path (job_id j)"
  shows "distinct (map job_id (fst (read_jobs d)))"
  using assms
proof (induction d)
  case Nil
  then show ?case by simp
next
  case (Cons a d)
  obtain n f where a: "a = (n, f)" by (cases a)
  obtain out bad where rj: "read_jobs d = (out, bad)" by (cases "read_jobs d")
  have out: "job_id j \<noteq> job_id x" if fj: "f = JobFile j" "suffix job_suffix n" and x: "x \<in> set out" for j x
  proof -
    obtain m where "(m, JobFile x) \<in> set d" "suffix job_suffix m"
      using x read_jobs_set [of d] rj by auto
    then have "m = store_path (job_id x)" "m \<noteq> n" using Cons.prems a by force+
    then show ?thesis using Cons.prems(2) [of n j] a fj by auto
  qed
  have "distinct (map job_id out)" using Cons rj by simp
  then show ?case using out a rj by (cases f) (auto simp: image_iff)
qed

lemma fs_load_distinct:
  assumes "fs_valid s"
  shows "distinct (map job_id (fst (fs_load s)))"
proof -
  have own: "own_names (fs_dir s)" and ok: "fs_exists s" "fs_readable s" using assms by (auto simp: fs_valid_iff)
  then have wf: "wf_map (fs_dir s)" by (simp add: own_names_def)
  have "distinct (map fst (sort_key fst (fs_dir s)))"
    using wf by (simp add: distinct_map)
  moreover have "n = store_path (job_id j)" if "(n, JobFile j) \<in> set (sort_key fst (fs_dir s))" "suffix job_suffix n" for n j
    using that own_namesD [OF own, of n j] lookup_iff [OF wf, of n "JobFile j"] by simp
  ultimately have "distinct (map job_id (fst (read_jobs (sort_key fst (fs_dir s)))))"
    by (rule read_jobs_distinct)
  then show ?thesis unfolding read_jobs_sorted [OF ok] by (simp add: distinct_map)
qed

lemma fs_inv: "fs_valid st \<Longrightarrow> eng_reachable fs_ops g st e \<Longrightarrow> eng_inv fs_stored fs_valid e"
  using fs.inv_reachable [of st g e] fs_load_distinct [of st] by (simp add: fs_ops_def)


section \<open>Where a job is\<close>


section \<open>Final states stay\<close>

lemma terminal_step:
  assumes inv: "eng_inv stored valid e" and step: "eng_step ops g e ev e'"
    and j: "lookup (en_jobs e) i = Some j" and fin: "terminal (j_state j)"
  shows "\<exists>j'. lookup (en_jobs e') i = Some j' \<and> j_state j' = j_state j"
  using step
proof cases
  case (submit k now sp r)
  then have "k \<noteq> i" using key_of [OF j] by blast
  then show ?thesis using submit(4) j
    by (auto simp: submit_def Let_def map_simps split: sum.splits prod.splits if_splits)
next
  case (recover x js info now ok e1)
  then have "job_id x \<noteq> i" using inv j table_okD(5) [of e x] by (auto simp: eng_inv_def)
  then show ?thesis using recover j
    by (auto simp: recover_one_def Let_def map_simps split: if_splits)
next
  case (pick k q)
  then show ?thesis using j by simp
next
  case (work k p w po e1)
  show ?thesis
  proof (cases "k = i")
    case False
    then show ?thesis using work j
      by (auto simp: worker_step_def after_attempt_def Let_def map_simps
          split: pc.splits list.splits option.splits prod.splits if_splits)
  next
    case True
    have "place_ok e i j" using inv j by (auto simp: eng_inv_def)
    then have "pc_ok i p (j_state j)" using work True by (auto simp: place_ok_def)
    then show ?thesis using work j fin True
      by (cases p) (auto simp: worker_step_def after_attempt_def ends_with_def Let_def
          split: option.splits prod.splits if_splits)
  qed
next
  case (cancel k now r)
  then show ?thesis using j fin
    by (auto simp: cancel_mark_def Let_def map_simps split: option.splits if_splits)
next
  case (cancelling k p info po e1)
  then show ?thesis using j by (auto simp: cancel_step_def split: cpc.splits)
next
  case stop
  then show ?thesis using j by (simp add: stop_engine_def)
qed


lemma terminal_steps:
  assumes "fs_valid st" and "eng_reachable fs_ops g st e" and "(\<lambda>x y. \<exists>ev. eng_step fs_ops g x ev y)\<^sup>*\<^sup>* e e'"
    and "lookup (en_jobs e) i = Some j" and "terminal (j_state j)"
  shows "eng_reachable fs_ops g st e' \<and> (\<exists>j'. lookup (en_jobs e') i = Some j' \<and> j_state j' = j_state j)"
  using assms(3)
proof (induction rule: rtranclp_induct)
  case base
  then show ?case using assms by blast
next
  case (step y z)
  then obtain ev j' where s: "eng_step fs_ops g y ev z" and r: "eng_reachable fs_ops g st y"
    and j': "lookup (en_jobs y) i = Some j'" "j_state j' = j_state j" by blast
  then have "terminal (j_state j')" using assms(5) by simp
  from terminal_step [OF fs_inv [OF assms(1) r] s j'(1) this] j'(2)
  show ?case using eng_reachable.step [OF r s] by auto
qed

text \<open>C9: A final state is final. Once a job is succeeded, failed or cancelled it stays so in every
  continuation of the run, whatever clients cancel, workers do and the store answers.\<close>
theorem final_state_stays:
  assumes "fs_valid st" and "eng_reachable fs_ops g st e" and "(\<lambda>x y. \<exists>ev. eng_step fs_ops g x ev y)\<^sup>*\<^sup>* e e'"
    and "lookup (en_jobs e) i = Some j" and "terminal (j_state j)"
  shows "\<exists>j'. lookup (en_jobs e') i = Some j' \<and> j_state j' = j_state j"
  using terminal_steps [OF assms] by blast

section \<open>A verdict is on disk before it is visible, and survives a restart\<close>

definition accounted :: "'s engine \<Rightarrow> string \<Rightarrow> job_state \<Rightarrow> bool" where
  "accounted e i s \<longleftrightarrow>
     (\<exists>j. lookup (en_jobs e) i = Some j \<and> j_state j = s)
     \<or> (\<exists>j \<in> set (en_recovering e). job_id j = i \<and> j_state j = s) \<or> en_recover_failed e"

lemma recover_failed_mono: "eng_step ops g e ev e' \<Longrightarrow> en_recover_failed e \<Longrightarrow> en_recover_failed e'"
  by (erule eng_step.cases)
    (auto simp: submit_def recover_one_def worker_step_def after_attempt_def cancel_mark_def cancel_step_def
      stop_engine_def Let_def split: sum.splits prod.splits if_splits pc.splits list.splits option.splits cpc.splits)

lemma accounted_step:
  assumes inv: "eng_inv stored valid e" and step: "eng_step ops g e ev e'"
    and acc: "accounted e i s" and fin: "terminal s"
  shows "accounted e' i s"
proof -
  consider (job) j where "lookup (en_jobs e) i = Some j" "j_state j = s"
    | (rec) j where "j \<in> set (en_recovering e)" "job_id j = i" "j_state j = s"
    | (failed) "en_recover_failed e"
    using acc by (auto simp: accounted_def)
  then show ?thesis
  proof cases
    case job
    then show ?thesis using terminal_step [OF inv step] fin by (auto simp: accounted_def)
  next
    case failed
    then show ?thesis using recover_failed_mono [OF step] by (simp add: accounted_def)
  next
    case rec
    from step show ?thesis
    proof cases
      case (recover x js info now ok e1)
      then show ?thesis using rec fin
        by (cases ok; cases "x = j") (auto simp: accounted_def recover_one_def map_simps)
    qed (use rec in \<open>auto simp: accounted_def submit_def worker_step_def after_attempt_def cancel_mark_def
        cancel_step_def stop_engine_def Let_def
        split: sum.splits prod.splits if_splits pc.splits list.splits option.splits cpc.splits\<close>)
  qed
qed


section \<open>A worker comes to an end\<close>

text \<open>How far a worker is from leaving its job: first the attempts it may still make, then the steps.\<close>

fun in_attempt :: "pc \<Rightarrow> int option" where
  "in_attempt (Snapshot k) = in_attempt k"
| "in_attempt (Saving j k) = in_attempt k"
| "in_attempt (Transferring n as r) = Some n"
| "in_attempt (Decide n r) = Some n"
| "in_attempt _ = None"

fun between_attempts :: "pc \<Rightarrow> bool" where
  "between_attempts (Snapshot k) = between_attempts k"
| "between_attempts (Saving j k) = between_attempts k"
| "between_attempts AtHead = True"
| "between_attempts (Sleeping d) = True"
| "between_attempts _ = False"

fun steps_left :: "pc \<Rightarrow> nat" where
  "steps_left AtHead = 0"
| "steps_left (Snapshot k) = steps_left k + 2"
| "steps_left (Saving j k) = steps_left k + 1"
| "steps_left (Transferring n as r) = 10 + 3 * length as"
| "steps_left (Decide n r) = 9"
| "steps_left (Reclaiming st err) = 8"
| "steps_left (Clearing st err) = 7"
| "steps_left (Finishing st err) = 6"
| "steps_left (Publishing j) = 1"
| "steps_left (Sleeping d) = 1"

definition attempts_left :: "engine_cfg \<Rightarrow> int \<Rightarrow> pc \<Rightarrow> nat" where
  "attempts_left g a p =
     (case in_attempt p of
        Some n \<Rightarrow> if n < ec_attempts g then 2 * nat (ec_attempts g - n) + 2 else 0
      | None \<Rightarrow> if between_attempts p then 2 * nat (ec_attempts g - a) + 1 else 0)"

definition work_left :: "engine_cfg \<Rightarrow> string \<Rightarrow> 's engine \<Rightarrow> nat \<times> nat" where
  "work_left g i e =
     (case (lookup (en_work e) i, lookup (en_jobs e) i) of
        (Some p, Some j) \<Rightarrow> (attempts_left g (j_attempts j) p, steps_left p)
      | _ \<Rightarrow> (0, 0))"

text \<open>The number of an attempt under way is the job's counter, and a final state keeps it.\<close>

fun pc_attempt_ok :: "int \<Rightarrow> pc \<Rightarrow> bool" where
  "pc_attempt_ok a (Snapshot k) \<longleftrightarrow> pc_attempt_ok a k"
| "pc_attempt_ok a (Saving j k) \<longleftrightarrow> pc_attempt_ok a k"
| "pc_attempt_ok a (Transferring n as r) \<longleftrightarrow> n = a"
| "pc_attempt_ok a (Decide n r) \<longleftrightarrow> n = a"
| "pc_attempt_ok a _ \<longleftrightarrow> True"

definition attempts_ok :: "'s engine \<Rightarrow> bool" where
  "attempts_ok e \<longleftrightarrow> (\<forall>i p j. lookup (en_work e) i = Some p \<longrightarrow> lookup (en_jobs e) i = Some j \<longrightarrow> pc_attempt_ok (j_attempts j) p)"

lemma attempts_okD: "attempts_ok e \<Longrightarrow> lookup (en_work e) i = Some p \<Longrightarrow> lookup (en_jobs e) i = Some j \<Longrightarrow> pc_attempt_ok (j_attempts j) p"
  by (auto simp: attempts_ok_def)

lemma clear_record_attempts [simp]: "j_attempts (j\<lparr>up_file_id := f, up_temp := t\<rparr>) = j_attempts j"
  by simp

lemma worker_attempts:
  assumes "worker_step ops g w i p e = (Some p', e')" and "lookup (en_jobs e) i = Some j" and "pc_attempt_ok (j_attempts j) p"
  shows "\<exists>j'. lookup (en_jobs e') i = Some j' \<and> pc_attempt_ok (j_attempts j') p'"
  using assms
  by (cases p) (auto simp: worker_step_def after_attempt_def Let_def map_simps split: list.splits option.splits prod.splits if_splits)

lemma other_attempts:
  assumes "worker_step ops g w i p e = (po, e')" and "k \<noteq> i"
  shows "lookup (en_jobs e') k = lookup (en_jobs e) k"
  using assms
  by (cases p) (auto simp: worker_step_def after_attempt_def Let_def map_simps split: list.splits option.splits prod.splits if_splits)

lemma worker_same_work:
  assumes "worker_step ops g w i p e = (po, e')"
  shows "en_work e' = en_work e"
  using assms
  by (cases p) (auto simp: worker_step_def after_attempt_def Let_def split: list.splits option.splits prod.splits if_splits)

lemma attempts_step:
  assumes inv: "eng_inv stored valid e" and ok: "attempts_ok e" and step: "eng_step ops g e ev e'"
  shows "attempts_ok e'"
proof -
  have t: "table_ok e" using inv by (simp add: eng_inv_def)
  show ?thesis unfolding attempts_ok_def
  proof (intro allI impI)
    fix i p j'
    assume p: "lookup (en_work e') i = Some p" and j': "lookup (en_jobs e') i = Some j'"
    from step show "pc_attempt_ok (j_attempts j') p"
    proof cases
      case (submit k now sp r)
      then have "en_work e' = en_work e" by (auto simp: submit_def Let_def split: sum.splits prod.splits if_splits)
      then have w: "lookup (en_work e) i = Some p" using p by simp
      then obtain j where j: "lookup (en_jobs e) i = Some j" using table_okD(3) [OF t] by blast
      then have "i \<noteq> k" using key_of [OF j] submit(2) by blast
      then have "j' = j" using submit(4) j j'
        by (auto simp: submit_def Let_def map_simps split: sum.splits prod.splits if_splits)
      then show ?thesis using attempts_okD [OF ok w j] by simp
    next
      case (recover x js info now b e1)
      then have w: "lookup (en_work e) i = Some p" using p by (auto simp: recover_one_def Let_def split: if_splits)
      then have "i \<noteq> job_id x" using table_okD(3) [OF t w] table_okD(5) [OF t, of x] recover by auto
      then show ?thesis using recover w j' attempts_okD [OF ok w]
        by (auto simp: recover_one_def Let_def map_simps split: if_splits)
    next
      case (pick k q)
      then show ?thesis using p j' attempts_okD [OF ok] by (auto split: if_splits)
    next
      case (work k q w po e1)
      show ?thesis
      proof (cases "k = i")
        case True
        have wk: "lookup (en_work e) i = Some q" using work(3) True by simp
        obtain j where j: "lookup (en_jobs e) i = Some j" using table_okD(3) [OF t wk] by blast
        have "po = Some p" using p work(2) True by simp
        then have ws: "worker_step ops g w i q e = (Some p, e1)" using work(4) True by simp
        obtain j1 where "lookup (en_jobs e1) i = Some j1" "pc_attempt_ok (j_attempts j1) p"
          using worker_attempts [OF ws j attempts_okD [OF ok wk j]] by blast
        then show ?thesis using j' work(2) by simp
      next
        case False
        have "lookup (en_jobs e) i = Some j'" using other_attempts [OF work(4)] False j' work(2) by simp
        moreover have "lookup (en_work e) i = Some p" using worker_same_work [OF work(4)] False p work(2) by simp
        ultimately show ?thesis using attempts_okD [OF ok] by blast
      qed
    next
      case (cancel k now r)
      then show ?thesis using p j' attempts_okD [OF ok]
        by (auto simp: cancel_mark_def Let_def map_simps split: option.splits if_splits)
    next
      case (cancelling k q info po e1)
      then show ?thesis using p j' attempts_okD [OF ok] by (auto simp: cancel_step_def split: cpc.splits)
    next
      case stop
      then show ?thesis using p j' attempts_okD [OF ok] by (auto simp: stop_engine_def)
    qed
  qed
qed

lemma max_attempts_le: "max_attempts g err \<le> ec_attempts g"
  by (auto simp: max_attempts_def split: option.splits)

lemma work_left_Some:
  "lookup (en_work e) i = Some p \<Longrightarrow> lookup (en_jobs e) i = Some j \<Longrightarrow>
     work_left g i e = (attempts_left g (j_attempts j) p, steps_left p)"
  by (simp add: work_left_def)

lemma attempts_left_simps [simp]:
  "attempts_left g a (Snapshot k) = attempts_left g a k" "attempts_left g a (Saving j k) = attempts_left g a k"
  "attempts_left g a AtHead = 2 * nat (ec_attempts g - a) + 1"
  "attempts_left g a (Sleeping d) = 2 * nat (ec_attempts g - a) + 1"
  "attempts_left g a (Transferring n as r) = (if n < ec_attempts g then 2 * nat (ec_attempts g - n) + 2 else 0)"
  "attempts_left g a (Decide n r) = (if n < ec_attempts g then 2 * nat (ec_attempts g - n) + 2 else 0)"
  "attempts_left g a (Reclaiming st err) = 0" "attempts_left g a (Clearing st err) = 0"
  "attempts_left g a (Finishing st err) = 0" "attempts_left g a (Publishing j) = 0"
  by (simp_all add: attempts_left_def)

lemma steps_left_pos: "0 < attempts_left g a p \<or> 0 < steps_left p"
  by (cases p) auto

lemma worker_step_decreases:
  assumes step: "worker_step ops g w i p e = (Some p', e')" and j: "lookup (en_jobs e) i = Some j"
    and ok: "pc_attempt_ok (j_attempts j) p" and j': "lookup (en_jobs e') i = Some j'"
  shows "attempts_left g (j_attempts j') p' < attempts_left g (j_attempts j) p
    \<or> attempts_left g (j_attempts j') p' = attempts_left g (j_attempts j) p \<and> steps_left p' < steps_left p"
proof (cases p)
  case (Decide n r)
  then have n: "n = j_attempts j" using ok by simp
  have after: "after_attempt g w i n r e = (p', e')" using step Decide by (auto simp: worker_step_def split: prod.splits)
  show ?thesis
  proof (cases "\<exists>d. p' = Snapshot (Sleeping d)")
    case True
    then obtain err where "\<not> n \<ge> max_attempts g err" and e': "\<exists>je. e' = upd_job i (requeue_job (we_now w) je) e"
      using after by (auto simp: after_attempt_def split: option.splits if_splits)
    then have "n < ec_attempts g" using max_attempts_le [of g err] by simp
    moreover have "j_attempts j' = j_attempts j" using e' j j' by auto
    ultimately show ?thesis using True n Decide by auto
  next
    case False
    then have "attempts_left g (j_attempts j') p' = 0" "steps_left p' < 9"
      using after by (auto simp: after_attempt_def split: option.splits if_splits)
    then show ?thesis using Decide by simp
  qed
next
  case (Transferring n acts r)
  then show ?thesis using assms by (cases acts) (auto simp: worker_step_def split: if_splits)
qed (use assms in \<open>auto simp: worker_step_def Let_def map_simps split: option.splits prod.splits if_splits\<close>)

lemma work_left_step:
  assumes inv: "eng_inv stored valid e" "eng_inv stored valid e'" and ok: "attempts_ok e"
    and step: "eng_step ops g e (EvWork i) e'"
  shows "(work_left g i e', work_left g i e) \<in> less_than <*lex*> less_than"
proof -
  obtain p w po e1 where "e' = set_pc i po e1" "lookup (en_work e) i = Some p" "worker_step ops g w i p e = (po, e1)"
    using step by (auto elim: eng_step_work)
  note 1 = this
  have t: "table_ok e" and t': "table_ok e'" using inv by (simp_all add: eng_inv_def)
  obtain j where j: "lookup (en_jobs e) i = Some j" using table_okD(3) [OF t 1(2)] by blast
  show ?thesis
  proof (cases po)
    case None
    then have "work_left g i e' = (0, 0)" using 1(1) by (simp add: work_left_def)
    then show ?thesis using work_left_Some [OF 1(2) j, of g] steps_left_pos [of g "j_attempts j" p] by auto
  next
    case (Some p')
    then have w: "lookup (en_work e') i = Some p'" using 1(1) by simp
    obtain j' where j': "lookup (en_jobs e') i = Some j'" using table_okD(3) [OF t' w] by blast
    then have "lookup (en_jobs e1) i = Some j'" using 1(1) by simp
    from worker_step_decreases [OF 1(3) [unfolded Some] j attempts_okD [OF ok 1(2) j] this]
    show ?thesis using work_left_Some [OF 1(2) j, of g] work_left_Some [OF w j', of g] by auto
  qed
qed

lemma work_left_other:
  assumes inv: "eng_inv stored valid e" and w: "lookup (en_work e) i = Some p"
    and step: "eng_step ops g e ev e'" and ev: "ev \<noteq> EvWork i"
  shows "lookup (en_work e') i = Some p \<and> work_left g i e' = work_left g i e"
proof -
  have t: "table_ok e" using inv by (simp add: eng_inv_def)
  obtain j where j: "lookup (en_jobs e) i = Some j" using table_okD(3) [OF t w] by blast
  have "lookup (en_work e') i = Some p \<and> (\<exists>j'. lookup (en_jobs e') i = Some j' \<and> j_attempts j' = j_attempts j)"
    using step
  proof cases
    case (submit k now sp r)
    then have "i \<noteq> k" using key_of [OF j] by blast
    then show ?thesis using submit w j
      by (auto simp: submit_def Let_def map_simps split: sum.splits prod.splits if_splits)
  next
    case (recover x js info now b e1)
    then have "i \<noteq> job_id x" using table_okD(5) [OF t, of x] j by auto
    then show ?thesis using recover w j by (auto simp: recover_one_def Let_def map_simps split: if_splits)
  next
    case (pick k q)
    then have "i \<noteq> k" using table_okD(6) [OF t w] by auto
    then show ?thesis using pick w j by simp
  next
    case (work k q env po e1)
    then have "k \<noteq> i" using ev by auto
    then show ?thesis using work(2) w j other_attempts [OF work(4)] worker_same_work [OF work(4)] by simp
  next
    case (cancel k now r)
    then show ?thesis using w j by (auto simp: cancel_mark_def Let_def map_simps split: option.splits if_splits)
  next
    case (cancelling k q info po e1)
    then show ?thesis using w j by (auto simp: cancel_step_def split: cpc.splits)
  next
    case stop
    then show ?thesis using w j by (simp add: stop_engine_def)
  qed
  then obtain j' where "lookup (en_work e') i = Some p" "lookup (en_jobs e') i = Some j'" "j_attempts j' = j_attempts j"
    by blast
  then show ?thesis using work_left_Some [OF w j, of g] work_left_Some [of e' i p j' g] by simp
qed

lemma others_keep:
  assumes "(\<lambda>x y. \<exists>ev. ev \<noteq> EvWork i \<and> eng_step fs_ops g x ev y)\<^sup>*\<^sup>* e e1"
    and "eng_inv fs_stored fs_valid e" "attempts_ok e" "lookup (en_work e) i = Some p"
  shows "eng_inv fs_stored fs_valid e1 \<and> attempts_ok e1 \<and> lookup (en_work e1) i = Some p
    \<and> work_left g i e1 = work_left g i e"
  using assms(1)
proof (induction rule: rtranclp_induct)
  case base
  then show ?case using assms by simp
next
  case (step y z)
  then obtain ev where "ev \<noteq> EvWork i" "eng_step fs_ops g y ev z" by blast
  then show ?case using step.IH fs.inv_step attempts_step work_left_other by metis
qed

lemma attempts_reachable:
  assumes "fs_valid st" and "eng_reachable fs_ops g st e"
  shows "attempts_ok e"
  using assms(2)
proof (induction rule: eng_reachable.induct)
  case start
  then show ?case by (simp add: attempts_ok_def recover_load_def new_engine_def)
next
  case (step e ev e')
  then show ?case using attempts_step fs_inv [OF assms(1)] by blast
qed

text \<open>C10: A worker always gets done. Between two steps of the worker of a job anything else may happen,
  and a transfer may report any progress and fail in any way at any time; still no worker takes
  infinitely many steps on a job, because every one of them comes closer to the last attempt the
  configuration allows or to the end of the current one.\<close>
theorem worker_terminates:
  assumes "fs_valid st"
  shows "wf {(e2, e). eng_reachable fs_ops g st e \<and> lookup (en_work e) i \<noteq> None
    \<and> (\<exists>e1. (\<lambda>x y. \<exists>ev. ev \<noteq> EvWork i \<and> eng_step fs_ops g x ev y)\<^sup>*\<^sup>* e e1 \<and> eng_step fs_ops g e1 (EvWork i) e2)}"
proof (rule wf_subset [OF wf_inv_image [OF wf_lex_prod [OF wf_less_than wf_less_than], of "work_left g i"]], safe)
  fix e2 e e1 p
  assume r: "eng_reachable fs_ops g st e" and w: "lookup (en_work e) i = Some p"
    and o: "(\<lambda>x y. \<exists>ev. ev \<noteq> EvWork i \<and> eng_step fs_ops g x ev y)\<^sup>*\<^sup>* e e1"
    and s: "eng_step fs_ops g e1 (EvWork i) e2"
  have k: "eng_inv fs_stored fs_valid e1 \<and> attempts_ok e1 \<and> work_left g i e1 = work_left g i e"
    using others_keep [OF o fs_inv [OF assms r] attempts_reachable [OF assms r] w] by blast
  then have "eng_inv fs_stored fs_valid e2" using fs.inv_step s by blast
  then show "(e2, e) \<in> inv_image (less_than <*lex*> less_than) (work_left g i)"
    using work_left_step [of fs_stored fs_valid e1 e2 fs_ops g i] s k by (simp add: in_inv_image)
qed

section \<open>Reclaiming\<close>

text \<open>C8: Reclaiming never deletes a file. Whatever step the engine takes, the only deletion it requests is
  of the record a job that is not an overwrite has written down as its own, and only after OpenDrive has
  just described that very record as empty: without a hash and of size zero.\<close>
theorem only_empty_records_deleted:
  assumes "eng_step ops g e ev e'"
  shows "en_deletes e' = en_deletes e
    \<or> (\<exists>j ri. en_deletes e' = (up_file_id j, ri) # en_deletes e \<and> ri_hash ri = [] \<and> ri_size ri = 0
         \<and> up_file_id j \<noteq> [] \<and> \<not> sp_overwrite (j_spec j)
         \<and> (j \<in> set (en_recovering e) \<or> (\<exists>i. lookup (en_cancelling e) i = Some (CReclaim j))
              \<or> (\<exists>i. lookup (en_jobs e) i = Some j)))"
proof -
  have del: "en_deletes (request_delete info (Some j) e) = en_deletes e
      \<or> (\<exists>ri. en_deletes (request_delete info (Some j) e) = (up_file_id j, ri) # en_deletes e
           \<and> ri_hash ri = [] \<and> ri_size ri = 0 \<and> up_file_id j \<noteq> [] \<and> \<not> sp_overwrite (j_spec j))" for info j
    by (auto simp: request_delete_def reclaim_def split: option.splits sum.splits if_splits)
  from assms show ?thesis
  proof cases
    case (recover x js info now ok e1)
    then have "en_deletes e' = en_deletes e \<or> en_deletes e' = en_deletes (request_delete info (Some x) e)"
      by (auto simp: recover_one_def Let_def split: if_splits)
    moreover have "x \<in> set (en_recovering e)" using recover by simp
    ultimately show ?thesis using del [of info x] by metis
  next
    case (work i p w po e1)
    have none: "request_delete info None e = e" for info by (simp add: request_delete_def reclaim_def)
    show ?thesis
    proof (cases p)
      case (Reclaiming st err)
      then have "en_deletes e' = en_deletes (request_delete (we_info w) (lookup (en_jobs e) i) e)"
        using work by (auto simp: worker_step_def)
      then show ?thesis using del [of "we_info w"] none by (cases "lookup (en_jobs e) i") (simp, metis)
    qed (use work in \<open>auto simp: worker_step_def after_attempt_def Let_def
          split: list.splits option.splits prod.splits if_splits\<close>)
  next
    case (cancelling i p info po e1)
    then have "en_deletes e' = en_deletes e
        \<or> (\<exists>j. p = CReclaim j \<and> en_deletes e' = en_deletes (request_delete info (Some j) e))"
      by (auto simp: cancel_step_def split: cpc.splits)
    then show ?thesis using del [of info] cancelling(3) by metis
  qed (auto simp: submit_def cancel_mark_def stop_engine_def Let_def
        split: sum.splits prod.splits option.splits if_splits)
qed

section \<open>Lost cancellations\<close>

text \<open>A cancellation that arrives between the end of a failed attempt and the moment its job is queued for the
  retry is accepted and forgotten: the job is still running, so Cancel leaves it to the transfer to notice,
  but the attempt's cancel function is already gone. Here the attempt ends with a network error, Cancel
  answers that it signalled the job, and the next step puts the job back to queued to be tried again.\<close>
theorem late_cancel_is_lost:
  "\<exists>e1 e2 e3. eng_step mem_ops default_engine
       ((new_engine [])\<lparr>en_jobs := [(''a'', blank_job ''a'' JRunning)], en_cancels := [''a''],
          en_work := [(''a'', Transferring 1 [] (Some (Api (blank_error KindNetwork))))]\<rparr>) (EvWork ''a'') e1
     \<and> cancel_mark ''a'' 5 e1 = (CancelSignalled, e2) \<and> e2 = e1
     \<and> eng_step mem_ops default_engine e2 (EvWork ''a'') e3
     \<and> map_option j_state (lookup (en_jobs e3) ''a'') = Some JQueued
     \<and> lookup (en_work e3) ''a'' = Some (Snapshot (Sleeping second)) \<and> en_cancelling e3 = []"
proof -
  let ?err = "Api (blank_error KindNetwork)"
  let ?e0 = "(new_engine [])\<lparr>en_jobs := [(''a'', blank_job ''a'' JRunning)], en_cancels := [''a''],
    en_work := [(''a'', Transferring 1 [] (Some ?err))]\<rparr> :: memory_store engine"
  let ?e1 = "?e0\<lparr>en_cancels := [], en_work := [(''a'', Decide 1 (Some ?err))]\<rparr>"
  let ?w = "\<lparr>we_now = 6, we_transfer = undefined, we_info = Inl ?err, we_sleep = None, we_message = []\<rparr>"
  define j where "j = requeue_job 6 (new_job_error (Some (?err, []))) (blank_job ''a'' JRunning)"
  let ?e3 = "?e1\<lparr>en_jobs := [(''a'', j)], en_work := [(''a'', Snapshot (Sleeping second))]\<rparr>"
  have s1: "eng_step mem_ops default_engine ?e0 (EvWork ''a'') ?e1"
    using eng_step.work [of ?e0 "''a''" "Transferring 1 [] (Some ?err)" mem_ops default_engine ?w "Some (Decide 1 (Some ?err))"
        "?e0\<lparr>en_cancels := []\<rparr>"]
    by (simp add: worker_step_def set_pc_def new_engine_def)
  have s2: "cancel_mark ''a'' 5 ?e1 = (CancelSignalled, ?e1)"
    by (simp add: cancel_mark_def new_engine_def)
  have "after_attempt default_engine ?w ''a'' 1 (Some ?err) ?e1 = (Snapshot (Sleeping second), ?e1\<lparr>en_jobs := [(''a'', j)]\<rparr>)"
    by (simp add: after_attempt_def cancelled_def new_engine_def upd_job_def j_def is_temporary_def temporary_def
        max_attempts_def default_engine_def default_max_attempts_def retry_delay_def retry_after_of_def backoff_def
        second_def minute_def wrap64_def)
  then have s3: "eng_step mem_ops default_engine ?e1 (EvWork ''a'') ?e3"
    using eng_step.work [of ?e1 "''a''" "Decide 1 (Some ?err)" mem_ops default_engine ?w "Some (Snapshot (Sleeping second))"
        "?e1\<lparr>en_jobs := [(''a'', j)]\<rparr>"]
    by (simp add: worker_step_def set_pc_def new_engine_def)
  have s4: "map_option j_state (lookup (en_jobs ?e3) ''a'') = Some JQueued" by (simp add: j_def)
  have s5: "lookup (en_work ?e3) ''a'' = Some (Snapshot (Sleeping second))" "en_cancelling ?e3 = []"
    by (simp_all add: new_engine_def)
  show ?thesis by (intro exI conjI) (rule s1 s2 refl s3 s4 s5)+
qed

text \<open>A save takes its snapshot before it writes it, so an older snapshot can overwrite a newer state on disk.
  Here a worker that is about to save a job queued for a retry is overtaken by a Cancel: the cancelled state
  is saved and Cancel returns, then the worker saves its snapshot. The job is cancelled for every client, but
  the store says queued, and the next start runs it again.\<close>
theorem stale_save_undoes_cancel:
  "let snap = blank_job ''a'' JQueued;
       e0 = (new_engine [(''a'', blank_job ''a'' JRunning)])\<lparr>en_jobs := [(''a'', snap)],
              en_work := [(''a'', Saving snap (Sleeping second))]\<rparr>;
       e1 = snd (cancel_mark ''a'' 5 e0);
       c1 = snap\<lparr>j_state := JCancelled, updated_at := 5\<rparr>;
       e2 = set_cpc ''a'' (Some CSnapshot) (snd (cancel_step mem_ops (Inl (Plain [])) ''a'' (CReclaim c1) e1));
       e3 = set_cpc ''a'' (Some (CSaving c1)) (snd (cancel_step mem_ops (Inl (Plain [])) ''a'' CSnapshot e2));
       e4 = set_cpc ''a'' None (snd (cancel_step mem_ops (Inl (Plain [])) ''a'' (CSaving c1) e3));
       w = \<lparr>we_now = 6, we_transfer = undefined, we_info = Inl (Plain []), we_sleep = None, we_message = []\<rparr>;
       e5 = set_pc ''a'' (Some (Sleeping second)) (snd (worker_step mem_ops default_engine w ''a'' (Saving snap (Sleeping second)) e4))
   in fst (cancel_mark ''a'' 5 e0) = CancelMarked c1 \<and> en_cancelling e4 = []
      \<and> lookup (en_store e4) ''a'' = Some c1 \<and> lookup (en_jobs e5) ''a'' = Some c1 \<and> lookup (en_store e5) ''a'' = Some snap
      \<and> en_queue (snd (recover_one mem_ops (Inl (Plain [])) 7 snap (new_engine (en_store e5)))) = [''a'']"
  by (simp add: Let_def cancel_mark_def cancel_step_def worker_step_def set_cpc_def set_pc_def save_job_def mem_ops_def mem_save_def
      new_engine_def request_delete_def reclaim_def recover_one_def blank_job_def queue_cap_def)

section \<open>Concrete runs\<close>

definition done_store :: file_store where
  "done_store = sample_store\<lparr>fs_dir := [(''c.job.json'', JobFile (blank_job ''c'' JSucceeded)),
     (''d.job.json'', JobFile (blank_job ''d'' JQueued))]\<rparr>"

lemma done_store_valid: "fs_valid done_store"
  by (auto simp: fs_valid_def done_store_def sample_store_def store_path_def job_suffix_def is_digit_def)

definition loaded_engine :: "file_store engine" where
  "loaded_engine = (new_engine done_store)\<lparr>en_recovering := [blank_job ''c'' JSucceeded, blank_job ''d'' JQueued]\<rparr>"

lemma loaded_engine_start: "loaded_engine = recover_load fs_ops (new_engine done_store)"
proof -
  have "fst (fs_load done_store) = [blank_job ''c'' JSucceeded, blank_job ''d'' JQueued]" by code_simp
  then show ?thesis by (simp add: loaded_engine_def recover_load_def new_engine_def fs_ops_def)
qed

definition halfway_engine :: "file_store engine" where
  "halfway_engine = loaded_engine\<lparr>en_jobs := [(''c'', blank_job ''c'' JSucceeded)], en_recovering := [blank_job ''d'' JQueued]\<rparr>"

definition requeued :: job where
  "requeued = (blank_job ''d'' JQueued)\<lparr>updated_at := 7\<rparr>"

definition saved_store :: file_store where
  "saved_store = snd (fs_save requeued done_store)"

definition recovered_engine :: "file_store engine" where
  "recovered_engine = halfway_engine\<lparr>en_jobs := [(''c'', blank_job ''c'' JSucceeded), (''d'', requeued)],
     en_recovering := [], en_queue := [''d''], en_store := saved_store\<rparr>"

lemma halfway_step: "eng_step fs_ops g loaded_engine EvRecover halfway_engine"
  using eng_step.recover [of loaded_engine "blank_job ''c'' JSucceeded" "[blank_job ''d'' JQueued]" fs_ops "Inl (Plain [])" 7
      True "loaded_engine\<lparr>en_jobs := [(''c'', blank_job ''c'' JSucceeded)]\<rparr>" g]
  by (simp add: recover_one_def loaded_engine_def halfway_engine_def new_engine_def)

lemma saved_ok: "fst (fs_save requeued done_store)"
  by code_simp

lemma recovered_step: "eng_step fs_ops g halfway_engine EvRecover recovered_engine"
proof -
  have "st_save fs_ops requeued done_store = (True, saved_store)"
    using saved_ok by (cases "fs_save requeued done_store") (simp add: fs_ops_def saved_store_def)
  then have "recover_one fs_ops (Inl (Plain [])) 7 (blank_job ''d'' JQueued) halfway_engine
      = (True, recovered_engine\<lparr>en_recovering := [blank_job ''d'' JQueued]\<rparr>)"
    by (simp add: recover_one_def halfway_engine_def loaded_engine_def recovered_engine_def new_engine_def requeued_def
        save_job_def queue_cap_def blank_job_def)
  from eng_step.recover [OF _ this, of "[]" g] show ?thesis
    by (simp add: recovered_engine_def halfway_engine_def loaded_engine_def new_engine_def)
qed

lemma recovered_reachable: "eng_reachable fs_ops g done_store recovered_engine"
proof -
  have "eng_reachable fs_ops g done_store loaded_engine" unfolding loaded_engine_start by (rule eng_reachable.start)
  from eng_reachable.step [OF eng_reachable.step [OF this halfway_step] recovered_step] show ?thesis .
qed

lemma recovered_facts:
  "lookup (en_jobs recovered_engine) ''c'' = Some (blank_job ''c'' JSucceeded)"
  "lookup (en_jobs recovered_engine) ''d'' = Some requeued" "en_queue recovered_engine = [''d'']"
  "en_recovering recovered_engine = []" "\<not> en_recover_failed recovered_engine" "en_log recovered_engine = []"
  "en_store recovered_engine = saved_store" "en_work recovered_engine = []"
  by (simp_all add: recovered_engine_def halfway_engine_def loaded_engine_def new_engine_def)


lemma final_state_stays_witness:
  "\<exists>j'. lookup (en_jobs (stop_engine recovered_engine)) ''c'' = Some j' \<and> j_state j' = JSucceeded"
  using final_state_stays [OF done_store_valid recovered_reachable r_into_rtranclp recovered_facts(1),
      of default_engine "stop_engine recovered_engine"] eng_step.stop [of fs_ops default_engine recovered_engine]
  by auto


lemma worker_terminates_witness:
  "wf {(e2, e). eng_reachable fs_ops default_engine done_store e \<and> lookup (en_work e) ''d'' \<noteq> None
    \<and> (\<exists>e1. (\<lambda>x y. \<exists>ev. ev \<noteq> EvWork ''d'' \<and> eng_step fs_ops default_engine x ev y)\<^sup>*\<^sup>* e e1
          \<and> eng_step fs_ops default_engine e1 (EvWork ''d'') e2)}"
  by (rule worker_terminates [OF done_store_valid])

lemma only_empty_records_deleted_witness:
  "\<exists>e e' :: memory_store engine. eng_step mem_ops default_engine e EvRecover e'
     \<and> map fst (en_deletes e') = [''r1''] \<and> (\<forall>(f, ri) \<in> set (en_deletes e'). ri_hash ri = [] \<and> ri_size ri = 0)"
proof -
  define j where "j = (blank_job ''a'' JRunning)\<lparr>up_file_id := ''r1''\<rparr>"
  define e where "e = (new_engine [(''a'', j)])\<lparr>en_recovering := [j]\<rparr>"
  obtain ok e1 where r: "recover_one mem_ops (Inr \<lparr>ri_size = 0, ri_hash = []\<rparr>) 7 j e = (ok, e1)" by fastforce
  define e' where "e' = e1\<lparr>en_recovering := (if ok then [] else []), en_recover_failed := (en_recover_failed e1 \<or> \<not> ok)\<rparr>"
  have s: "eng_step mem_ops default_engine e EvRecover e'"
    using eng_step.recover [OF _ r, of "[]"] by (simp add: e_def e'_def)
  have d: "map fst (en_deletes e') = [''r1'']" "en_deletes e = []"
    using r by (auto simp: e'_def e_def new_engine_def recover_one_def j_def blank_job_def blank_spec_def request_delete_def
        reclaim_def record_is_whole_file_def save_job_def mem_ops_def mem_save_def queue_cap_def Let_def)
  from only_empty_records_deleted [OF s] s d show ?thesis by (intro exI [of _ e] exI [of _ e']) auto
qed

section \<open>Waiting for visibility\<close>

lemma wait_visible_at:
  assumes "n \<le> N" and go: "\<And>m. m < N \<Longrightarrow> \<exists>err. probe m = Some err \<and> is_kind KindNotFound err \<and> \<not> clock m > d \<and> slp m = None"
  shows "wait_visible probe clock slp d n = wait_visible probe clock slp d N"
  using assms(1)
proof (induction n rule: inc_induct)
  case base
  then show ?case by simp
next
  case (step n)
  then show ?case using go [of n] by (subst wait_visible.simps) auto
qed

text \<open>The wait for an uploaded file to become visible ends: when every round takes at least the second it
  sleeps, at most 32 requests are made, the wait succeeds exactly when the last of them found the file,
  and before that every answer was that the file does not exist.\<close>
theorem wait_visible_ends:
  assumes "\<And>n. clock n \<ge> t0 + int n * second"
  shows "\<exists>n r. n \<le> 31 \<and> wait_visible probe clock slp (t0 + verify_timeout) 0 = Some r \<and> (r = None \<longleftrightarrow> probe n = None)
    \<and> (\<forall>m < n. \<exists>err. probe m = Some err \<and> is_kind KindNotFound err)"
proof -
  define stop where "stop n \<longleftrightarrow> \<not> (\<exists>err. probe n = Some err \<and> is_kind KindNotFound err \<and> \<not> clock n > t0 + verify_timeout \<and> slp n = None)" for n
  have "clock 31 > t0 + verify_timeout" using assms [of 31] by (simp add: verify_timeout_def second_def)
  then have s31: "stop 31" by (auto simp: stop_def)
  define N where "N = (LEAST n. stop n)"
  have sN: "stop N" and le: "N \<le> 31" unfolding N_def using LeastI [of stop, OF s31] Least_le [of stop, OF s31] by auto
  have go: "\<exists>err. probe m = Some err \<and> is_kind KindNotFound err \<and> \<not> clock m > t0 + verify_timeout \<and> slp m = None" if "m < N" for m
    using not_less_Least [of m stop] that by (auto simp: N_def stop_def)
  have "wait_visible probe clock slp (t0 + verify_timeout) 0 = wait_visible probe clock slp (t0 + verify_timeout) N"
    by (rule wait_visible_at) (use go in auto)
  moreover have "\<exists>r. wait_visible probe clock slp (t0 + verify_timeout) N = Some r \<and> (r = None \<longleftrightarrow> probe N = None)"
    using sN by (subst wait_visible.simps) (auto simp: stop_def split: option.splits)
  moreover have "\<forall>m < N. \<exists>err. probe m = Some err \<and> is_kind KindNotFound err" using go by blast
  ultimately show ?thesis using le by (intro exI [of _ N]) auto
qed

lemma wait_visible_ends_witness:
  "\<exists>r. wait_visible (\<lambda>n. if n < 3 then Some (Api (blank_error KindNotFound)) else None)
      (\<lambda>n. 100 + int n * second) (\<lambda>_. None) (100 + verify_timeout) 0 = Some r"
  using wait_visible_ends [of 100 "\<lambda>n. 100 + int n * second"
      "\<lambda>n. if n < 3 then Some (Api (blank_error KindNotFound)) else None" "\<lambda>_. None"] by auto

end
