(* ===== verification/Classify.thy ===== *)
theory Classify
  imports Api_Errors "HOL-Library.AList"
begin

text \<open>
  \<open>pkg/opendrive/classify.go\<close>: what an upstream failure means. A response becomes an error by the shape of its
  body, the JSON error envelope, phrase lists and the status; an error the response does not settle is
  resolved by the disambiguator from a probe, the successes it has witnessed and the refusals it has marked.

  \<open>encoding/json\<close> is an argument: \<open>decode\<close> says what unmarshalling a body into the two wire structures
  gives.
\<close>

section \<open>Evidence\<close>

record evidence =
  ev_status :: int
  ev_retry_header :: string
  ev_retry_until :: "int option"
  ev_body :: string
  ev_content_type :: string
  ev_op :: string
  ev_scope :: string
  ev_url :: string

definition witness_key :: "string \<Rightarrow> string \<Rightarrow> string" where
  "witness_key op scope = (if scope = [] then op else op @ [CHR 0x00] @ scope)"

text \<open>The \<open>error\<close> member of the envelope: an object, a string, or anything else.\<close>

record wire_error_object =
  wo_code :: int
  wo_message :: string
  wo_error :: string
  wo_description :: string

datatype wire_member = MemberObject wire_error_object | MemberString string | MemberOther

record wire_error =
  we_error :: wire_member
  we_description :: string
  we_msg :: string

definition body_shape_of :: "string \<Rightarrow> string \<Rightarrow> body_shape" where
  "body_shape_of body content_type =
     (case trim_space body of
        [] \<Rightarrow> ShapeEmpty
      | c # _ \<Rightarrow>
          if c = CHR 0x7B \<or> c = CHR 0x5B then ShapeJSON
          else if c = CHR ''<'' then ShapeHTML
          else if contains (to_lower content_type) ''html'' then ShapeHTML
          else ShapeText)"

definition parse_error_envelope :: "(string \<Rightarrow> wire_error option) \<Rightarrow> string \<Rightarrow> api_error \<Rightarrow> api_error" where
  "parse_error_envelope decode body e =
     (case decode body of
        None \<Rightarrow> e
      | Some env \<Rightarrow>
          let blank = \<lparr>wo_code = 0, wo_message = [], wo_error = [], wo_description = []\<rparr>;
              obj = (case we_error env of
                       MemberObject ob \<Rightarrow> ob
                     | MemberString s \<Rightarrow> blank\<lparr>wo_error := s, wo_description := we_description env\<rparr>
                     | MemberOther \<Rightarrow> blank\<lparr>wo_message := we_msg env\<rparr>)
          in e\<lparr>upstream_code := wo_code obj, oauth_error := wo_error obj,
               upstream_msg := first_non_empty [wo_message obj, wo_description obj, we_description env, we_msg env]\<rparr>)"

section \<open>The rules\<close>

record verdict_of =
  v_kind :: kind
  v_ambiguous :: bool
  v_retry :: retry_state

definition plain_verdict :: "kind \<Rightarrow> retry_state \<Rightarrow> verdict_of" where
  "plain_verdict k r = \<lparr>v_kind = k, v_ambiguous = False, v_retry = r\<rparr>"

definition bad_credential_phrases :: "string list" where
  "bad_credential_phrases =
     [''invalid username or password'', ''invalid username'', ''invalid password'', ''wrong password'',
      ''incorrect password'', ''username or password'', ''account is suspended'', ''account suspended'']"

definition permanent_denial_phrases :: "string list" where
  "permanent_denial_phrases = [''account users cannot'', ''restricted user'']"

definition ambiguous_permission_phrases :: "string list" where
  "ambiguous_permission_phrases =
     [''your user access enables you only to view'', ''you do not have permission'', ''permission denied'']"

definition session_expired_phrases :: "string list" where
  "session_expired_phrases = [''session does not exist'', ''session expired'', ''re-login'', ''invalid session'']"

definition edge_retry :: "int \<Rightarrow> retry_state" where
  "edge_retry status = (if status = 0 \<or> status \<ge> 500 \<or> status = 429 then RetryYes else RetryNo)"

text \<open>The status rules, at the end of \<open>classify\<close>.\<close>

definition status_verdict :: "int \<Rightarrow> body_shape \<Rightarrow> string \<Rightarrow> verdict_of" where
  "status_verdict code sh lower =
     (if code = 401 then
        (if sh = ShapeJSON then plain_verdict KindTokenExpired RetryDefault
         else \<lparr>v_kind = KindUpstreamError, v_ambiguous = True, v_retry = RetryNo\<rparr>)
      else if code = 403 then
        \<lparr>v_kind = KindUpstreamError, v_ambiguous = contains_any lower ambiguous_permission_phrases, v_retry = RetryNo\<rparr>
      else if code = 400 then plain_verdict KindInvalidRequest RetryNo
      else if code = 404 then plain_verdict KindNotFound RetryNo
      else if code = 409 then plain_verdict KindConflict RetryNo
      else if code = 429 then plain_verdict KindRateLimited RetryYes
      else if code = 413 then plain_verdict KindQuotaExceeded RetryNo
      else if code \<ge> 500 \<or> code = 0 then plain_verdict KindUpstreamError RetryYes
      else \<lparr>v_kind = KindUpstreamError, v_ambiguous = (sh = ShapeEmpty), v_retry = RetryNo\<rparr>)"

definition classify :: "int \<Rightarrow> api_error \<Rightarrow> verdict_of" where
  "classify status e =
     (if shape e = ShapeHTML \<or> shape e = ShapeText then plain_verdict KindEdgeRejected (edge_retry status)
      else
        let lower = to_lower (upstream_msg e) in
        if contains lower ''captcha'' then plain_verdict KindCaptchaRequired RetryNo
        else if oauth_error e = ''invalid_token'' \<or> oauth_error e = ''expired_token'' then
          plain_verdict KindTokenExpired RetryDefault
        else if oauth_error e = ''invalid_grant'' then plain_verdict KindRefreshTokenFailed RetryDefault
        else if oauth_error e = ''invalid_client'' \<or> oauth_error e = ''unauthorized_client'' \<or> oauth_error e = ''access_denied''
          then plain_verdict KindReauthRequired RetryNo
        else if contains_any lower permanent_denial_phrases then plain_verdict KindUpstreamError RetryNo
        else if contains_any lower bad_credential_phrases then plain_verdict KindReauthRequired RetryNo
        else if contains lower ''bandwidth'' then plain_verdict KindBandwidthExceeded RetryNo
        else if contains_any lower [''quota'', ''storage limit'', ''not enough space'', ''space limit'']
          then plain_verdict KindQuotaExceeded RetryNo
        else if contains_any lower [''invalid file name'', ''invalid folder name'', ''illegal character'']
          then plain_verdict KindInvalidName RetryNo
        else if contains_any lower session_expired_phrases then plain_verdict KindTokenExpired RetryDefault
        else status_verdict (if status = 0 then upstream_code e else status) (shape e) lower)"

definition read_response :: "(string \<Rightarrow> wire_error option) \<Rightarrow> evidence \<Rightarrow> api_error" where
  "read_response decode ev =
     (let e = (blank_error KindUpstreamError)\<lparr>http_code := ev_status ev, err_op := ev_op ev, err_url := ev_url ev,
                err_scope := ev_scope ev, shape := body_shape_of (ev_body ev) (ev_content_type ev),
                retry_after := parse_retry_after (ev_retry_header ev) (ev_retry_until ev)\<rparr>
      in case shape e of
           ShapeJSON \<Rightarrow> parse_error_envelope decode (ev_body ev) e
         | ShapeHTML \<Rightarrow> e\<lparr>upstream_msg := truncate_msg (trim_space (ev_body ev)) 300\<rparr>
         | ShapeText \<Rightarrow> e\<lparr>upstream_msg := truncate_msg (trim_space (ev_body ev)) 300\<rparr>
         | _ \<Rightarrow> e)"

definition classify_response :: "(string \<Rightarrow> wire_error option) \<Rightarrow> evidence \<Rightarrow> api_error" where
  "classify_response decode ev =
     (let e = read_response decode ev; v = classify (ev_status ev) e
      in e\<lparr>kind := v_kind v, ambiguous := v_ambiguous v, retry := v_retry v\<rparr>)"

text \<open>\<open>errorInBody\<close> of \<open>client.go\<close>: an error envelope inside a response with a success status.\<close>

definition error_in_body :: "(string \<Rightarrow> string option) \<Rightarrow> (string \<Rightarrow> wire_error option) \<Rightarrow> evidence \<Rightarrow> api_error option" where
  "error_in_body error_member decode ev =
     (let trimmed = trim_space (ev_body ev) in
      case trimmed of
        [] \<Rightarrow> None
      | c # _ \<Rightarrow>
          if c \<noteq> CHR 0x7B then None
          else case error_member trimmed of
            None \<Rightarrow> None
          | Some m \<Rightarrow>
              if m = [] \<or> m = ''null'' \<or> m = [CHR 0x22, CHR 0x22] then None
              else Some (classify_response decode
                     (ev\<lparr>ev_body := trimmed, ev_status := 0, ev_retry_header := [], ev_retry_until := None,
                        ev_content_type := []\<rparr>)))"

section \<open>The disambiguator\<close>

record disambiguator =
  da_probe :: bool \<comment> \<open>is there a probe at all\<close>
  da_interval :: int
  da_last :: gotime
  da_result :: "go_error option"
  da_have :: bool
  da_wait :: bool
  da_probes :: nat
  da_witness :: "(string, bool) gomap"
  da_denied :: "(string, gotime) gomap"

definition default_probe_interval :: int where
  "default_probe_interval = 30 * 1000000000"

definition max_witnessed :: nat where
  "max_witnessed = 512"

definition new_disambiguator :: "bool \<Rightarrow> int \<Rightarrow> disambiguator" where
  "new_disambiguator probe interval =
     \<lparr>da_probe = probe, da_interval = (if interval \<le> 0 then default_probe_interval else interval), da_last = 0,
      da_result = None, da_have = False, da_wait = False, da_probes = 0, da_witness = [], da_denied = []\<rparr>"

definition note_success :: "string \<Rightarrow> disambiguator \<Rightarrow> disambiguator" where
  "note_success key d =
     (if key = [] then d
      else
        let d1 = d\<lparr>da_denied := AList.delete key (da_denied d)\<rparr>
        in if length (da_witness d1) \<ge> max_witnessed then d1
           else d1\<lparr>da_witness := AList.update key True (da_witness d1)\<rparr>)"

definition mark_denied :: "gotime \<Rightarrow> string \<Rightarrow> disambiguator \<Rightarrow> bool \<times> disambiguator" where
  "mark_denied now key d =
     (case lookup (da_denied d) key of
        Some t \<Rightarrow>
          if now - t < da_interval d then (False, d)
          else (True, d\<lparr>da_denied := AList.update key now (da_denied d)\<rparr>)
      | None \<Rightarrow>
          (True, if length (da_denied d) < max_witnessed then d\<lparr>da_denied := AList.update key now (da_denied d)\<rparr> else d))"

definition saw_success :: "string \<Rightarrow> disambiguator \<Rightarrow> bool" where
  "saw_success op d = (lookup (da_witness d) op = Some True)"

text \<open>
  \<open>check\<close> under its first lock: no verdict, the remembered one, joining a probe under way, or starting
  one. \<open>probe_done\<close> is its second lock, \<open>joined\<close> what a caller that waited reads.
\<close>

datatype probe_step = NoVerdict | Remembered "go_error option" | Join | StartProbe

definition check_begin :: "gotime \<Rightarrow> bool \<Rightarrow> disambiguator \<Rightarrow> probe_step \<times> disambiguator" where
  "check_begin now within_probe d =
     (if \<not> da_probe d \<or> within_probe then (NoVerdict, d)
      else if da_have d \<and> now - da_last d < da_interval d then (Remembered (da_result d), d)
      else if da_wait d then (Join, d)
      else (StartProbe, d\<lparr>da_wait := True, da_probes := Suc (da_probes d)\<rparr>))"

definition probe_done :: "gotime \<Rightarrow> go_error option \<Rightarrow> disambiguator \<Rightarrow> disambiguator" where
  "probe_done now res d = d\<lparr>da_result := res, da_have := True, da_last := now, da_wait := False\<rparr>"

definition joined :: "bool \<Rightarrow> disambiguator \<Rightarrow> go_error option option" where
  "joined ctx_done d = (if ctx_done then None else if da_have d then Some (da_result d) else None)"

section \<open>Resolving an ambiguous error\<close>

definition msg_credential :: string where
  "msg_credential = ''the account itself is refusing this credential; the original message about permissions was misleading''"

definition msg_restriction :: string where
  "msg_restriction = ''upstream refused a plain read as well, so this is a real restriction on the account''"

definition msg_transient :: string where
  "msg_transient =
     ''upstream reported a permission problem, but the credential is working and this same call has already succeeded on this resource, so it is being treated as a transient refusal''"

definition msg_once_more :: string where
  "msg_once_more =
     ''upstream reported a permission problem and the credential is working; one refusal is not conclusive, so this is being attempted once more''"

definition msg_refused_twice :: string where
  "msg_refused_twice =
     ''the credential is working and upstream refused this twice, so it is a real restriction on this operation rather than a credential problem''"

text \<open>\<open>resolve\<close>, given what \<open>check\<close> decided: \<open>None\<close> when it had no verdict, else the probe's error.\<close>

definition resolve :: "gotime \<Rightarrow> go_error option option \<Rightarrow> api_error \<Rightarrow> disambiguator \<Rightarrow> api_error \<times> disambiguator" where
  "resolve now decided e d =
     (if \<not> ambiguous e \<or> resolved e then (e, d)
      else case decided of
        None \<Rightarrow> (e, d)
      | Some (Some probe_err) \<Rightarrow>
          let e1 = e\<lparr>resolved := True, retry := RetryNo\<rparr>
          in (case as_api probe_err of
                Some pe \<Rightarrow>
                  if decisive pe \<and> (kind pe = KindReauthRequired \<or> kind pe = KindCaptchaRequired \<or> kind pe = KindKeystoreUnavailable)
                  then (e1\<lparr>kind := kind pe, diagnosis := msg_credential\<rparr>, d)
                  else (e1\<lparr>diagnosis := msg_restriction\<rparr>, d)
              | None \<Rightarrow> (e1\<lparr>diagnosis := msg_restriction\<rparr>, d))
      | Some None \<Rightarrow>
          let e1 = e\<lparr>resolved := True\<rparr>; key = witness_key (err_op e) (err_scope e)
          in if saw_success key d then (e1\<lparr>retry := RetryYes, diagnosis := msg_transient\<rparr>, d)
             else case mark_denied now key d of
               (True, d1) \<Rightarrow> (e1\<lparr>retry := RetryYes, retry_budget := 1, diagnosis := msg_once_more\<rparr>, d1)
             | (False, d1) \<Rightarrow> (e1\<lparr>retry := RetryNo, diagnosis := msg_refused_twice\<rparr>, d1))"

section \<open>What a verdict may rest on\<close>

lemma to_lower_Nil [simp]: "to_lower [] = []"
  by (subst to_lower.simps) simp

lemma contains_any_Nil [simp]: "[] \<notin> set ns \<Longrightarrow> \<not> contains_any [] ns"
  by (auto simp: contains_any_def list_ex_iff)

lemma classify_silent:
  assumes "upstream_msg e = []" "oauth_error e = []" "shape e = ShapeEmpty"
  shows "classify status e = status_verdict (if status = 0 then upstream_code e else status) ShapeEmpty []"
  using assms by (simp add: classify_def permanent_denial_phrases_def bad_credential_phrases_def session_expired_phrases_def)

lemma read_response_shape: "shape (read_response decode ev) = body_shape_of (ev_body ev) (ev_content_type ev)"
  by (simp add: read_response_def Let_def parse_error_envelope_def split: body_shape.split option.split)

lemma body_shape_set: "body_shape_of b ct \<noteq> ShapeUnset"
  by (auto simp: body_shape_of_def split: list.splits)

lemma body_shape_json:
  "body_shape_of b ct = ShapeJSON \<longleftrightarrow> (\<exists>c r. trim_space b = c # r \<and> (c = CHR 0x7B \<or> c = CHR 0x5B))"
  by (auto simp: body_shape_of_def split: list.splits if_splits)

lemma read_response_empty:
  assumes "shape (read_response decode ev) = ShapeEmpty"
  shows "upstream_msg (read_response decode ev) = []" "oauth_error (read_response decode ev) = []"
    "upstream_code (read_response decode ev) = 0"
  using assms unfolding read_response_shape by (simp_all add: read_response_def Let_def)

lemma read_response_flags [simp]:
  "resolved (read_response decode ev) = False" "cause (read_response decode ev) = None"
  "http_code (read_response decode ev) = ev_status ev" "diagnosis (read_response decode ev) = []"
  by (simp_all add: read_response_def Let_def parse_error_envelope_def split: body_shape.split option.split)

lemma status_verdict_retry:
  "v_retry (status_verdict code sh l) = RetryYes \<longleftrightarrow>
     code = 429 \<or> (code \<ge> 500 \<or> code = 0)"
  by (auto simp: status_verdict_def plain_verdict_def)

definition verdict_shape :: "int \<Rightarrow> api_error \<Rightarrow> verdict_of \<Rightarrow> bool" where
  "verdict_shape st e v \<longleftrightarrow>
     (shape e = ShapeHTML \<or> shape e = ShapeText) \<and> v = plain_verdict KindEdgeRejected (edge_retry st)
     \<or> (\<exists>k. v = plain_verdict k RetryNo \<and> k \<notin> {KindTokenExpired, KindRefreshTokenFailed})
     \<or> (\<exists>k \<in> {KindTokenExpired, KindRefreshTokenFailed}. v = plain_verdict k RetryDefault)
     \<or> shape e \<noteq> ShapeHTML \<and> shape e \<noteq> ShapeText
        \<and> v = status_verdict (if st = 0 then upstream_code e else st) (shape e) (to_lower (upstream_msg e))"

lemma classify_cases: "verdict_shape st e (classify st e)"
proof -
  have if_rule: "P (if c then a else b)" if "c \<Longrightarrow> P a" "\<not> c \<Longrightarrow> P b" for P :: "verdict_of \<Rightarrow> bool" and c a b
    using that by simp
  have fixed: "verdict_shape st e (plain_verdict k RetryNo)" if "k \<notin> {KindTokenExpired, KindRefreshTokenFailed}" for k
    using that by (auto simp: verdict_shape_def)
  have token: "verdict_shape st e (plain_verdict k RetryDefault)" if "k \<in> {KindTokenExpired, KindRefreshTokenFailed}" for k
    using that by (auto simp: verdict_shape_def)
  have edge: "verdict_shape st e (plain_verdict KindEdgeRejected (edge_retry st))" if "shape e = ShapeHTML \<or> shape e = ShapeText"
    using that by (simp add: verdict_shape_def)
  have status: "verdict_shape st e (status_verdict (if st = 0 then upstream_code e else st) (shape e) (to_lower (upstream_msg e)))"
    if "\<not> (shape e = ShapeHTML \<or> shape e = ShapeText)"
    using that by (simp add: verdict_shape_def)
  show ?thesis unfolding classify_def Let_def
    by (intro if_rule [of _ "verdict_shape st e"] edge status; (rule fixed token)?; simp)
qed

lemma status_verdict_fields:
  "v_ambiguous (status_verdict code sh l) \<Longrightarrow>
     v_kind (status_verdict code sh l) = KindUpstreamError \<and> v_retry (status_verdict code sh l) = RetryNo"
  "v_retry (status_verdict code sh l) = RetryDefault \<longleftrightarrow> v_kind (status_verdict code sh l) = KindTokenExpired"
  "v_kind (status_verdict code sh l) \<noteq> KindRefreshTokenFailed"
  by (simp_all add: status_verdict_def plain_verdict_def split: if_splits)

lemma classify_fields:
  "v_ambiguous (classify st e) \<Longrightarrow> v_kind (classify st e) = KindUpstreamError \<and> v_retry (classify st e) = RetryNo"
  "v_retry (classify st e) = RetryDefault \<longleftrightarrow> v_kind (classify st e) = KindTokenExpired \<or> v_kind (classify st e) = KindRefreshTokenFailed"
  using classify_cases [of st e] status_verdict_fields unfolding verdict_shape_def
  by (auto simp: plain_verdict_def edge_retry_def split: if_splits)

lemma classify_retry:
  "v_retry (classify st e) = RetryYes \<Longrightarrow>
     (let code = (if st = 0 \<and> shape e \<noteq> ShapeHTML \<and> shape e \<noteq> ShapeText then upstream_code e else st)
      in code = 429 \<or> code \<ge> 500 \<or> code = 0)"
  using classify_cases [of st e] unfolding verdict_shape_def
  by (auto simp: plain_verdict_def edge_retry_def status_verdict_retry split: if_splits)

text \<open>C32: Only the API itself can say something about the credentials. An error read off a response may reach
  the authentication machine, or carry a kind that speaks of the sign-in (expired token, refused refresh,
  sign in again, captcha), only if the body was JSON and the cause is not ambiguous; an HTML or text page
  is always an edge rejection, whatever its status; and an error is retried only on 429, a server error or
  no status at all.\<close>
theorem only_json_drives_auth:
  fixes decode ev
  defines "e \<equiv> classify_response decode ev"
  shows "(drives_auth (Some e) \<or> kind e \<in> {KindTokenExpired, KindRefreshTokenFailed, KindReauthRequired, KindCaptchaRequired}
            \<longrightarrow> (\<exists>c r. trim_space (ev_body ev) = c # r \<and> (c = CHR 0x7B \<or> c = CHR 0x5B)) \<and> \<not> ambiguous e)
       \<and> (shape e = ShapeHTML \<or> shape e = ShapeText \<longrightarrow> kind e = KindEdgeRejected)
       \<and> (temporary e \<longrightarrow> (let code = (if ev_status ev = 0 \<and> shape e = ShapeJSON then upstream_code e else ev_status ev)
            in code = 429 \<or> code \<ge> 500 \<or> code = 0))"
proof -
  let ?r = "read_response decode ev"
  let ?v = "classify (ev_status ev) ?r"
  have e: "e = ?r\<lparr>kind := v_kind ?v, ambiguous := v_ambiguous ?v, retry := v_retry ?v\<rparr>"
    by (simp add: e_def classify_response_def Let_def)
  have sh: "shape ?r \<noteq> ShapeUnset" unfolding read_response_shape by (rule body_shape_set)
  have edge: "?v = plain_verdict KindEdgeRejected (edge_retry (ev_status ev))" if "shape ?r = ShapeHTML \<or> shape ?r = ShapeText"
    using that by (simp add: classify_def)
  have empty: "v_kind ?v \<notin> {KindTokenExpired, KindRefreshTokenFailed, KindReauthRequired, KindCaptchaRequired}"
    if "shape ?r = ShapeEmpty"
    using classify_silent [OF read_response_empty(1,2) [OF that] that, of "ev_status ev"]
    by (simp add: status_verdict_def plain_verdict_def)
  have amb: "v_ambiguous ?v \<Longrightarrow> v_kind ?v = KindUpstreamError" using classify_fields(1) by blast
  have "shape ?r = ShapeJSON \<and> \<not> v_ambiguous ?v"
    if "drives_auth (Some e) \<or> kind e \<in> {KindTokenExpired, KindRefreshTokenFailed, KindReauthRequired, KindCaptchaRequired}"
  proof (cases "shape ?r")
    case ShapeUnset
    then show ?thesis using sh by simp
  next
    case ShapeEmpty
    then show ?thesis using that empty by (auto simp: e drives_auth_def split: if_splits)
  next
    case ShapeJSON
    then show ?thesis using that amb by (auto simp: e drives_auth_def split: if_splits)
  qed (use that edge in \<open>auto simp: e drives_auth_def plain_verdict_def split: if_splits\<close>)
  moreover have "temporary e \<Longrightarrow> v_retry ?v = RetryYes"
    using classify_fields(2) [of "ev_status ev" ?r]
    by (cases "v_retry ?v") (auto simp: e temporary_def split: if_splits)
  moreover have "shape ?r = ShapeEmpty \<Longrightarrow> upstream_code ?r = 0" using read_response_empty(3) .
  ultimately show ?thesis
    using edge classify_retry [of "ev_status ev" ?r] sh body_shape_json [of "ev_body ev" "ev_content_type ev"]
    by (cases "shape ?r") (auto simp: e plain_verdict_def Let_def read_response_shape split: if_splits)
qed

definition proxy_401 :: evidence where
  "proxy_401 = \<lparr>ev_status = 401, ev_retry_header = [], ev_retry_until = None, ev_body = ''<html>Session expired</html>'',
     ev_content_type = ''text/html'', ev_op = ''POST /upload'', ev_scope = [], ev_url = []\<rparr>"

lemma only_json_drives_auth_witness:
  "\<not> drives_auth (Some (classify_response (\<lambda>_. None) proxy_401)) \<and> kind (classify_response (\<lambda>_. None) proxy_401) = KindEdgeRejected"
proof -
  have t: "trim_space (ev_body proxy_401) = ''<html>Session expired</html>''" by code_simp
  moreover have "shape (classify_response (\<lambda>_. None) proxy_401) = ShapeHTML" by code_simp
  ultimately show ?thesis using only_json_drives_auth [of "\<lambda>_. None" proxy_401] by auto
qed

section \<open>What resolving may change\<close>

lemma mark_denied_keeps [simp]:
  "da_witness (snd (mark_denied now key d)) = da_witness d" "da_probes (snd (mark_denied now key d)) = da_probes d"
  by (auto simp: mark_denied_def split: option.splits)

lemma diagnosis_texts [simp]:
  "msg_credential \<noteq> []" "msg_restriction \<noteq> []" "msg_transient \<noteq> []" "msg_once_more \<noteq> []" "msg_refused_twice \<noteq> []"
  by (simp_all add: msg_credential_def msg_restriction_def msg_transient_def msg_once_more_def msg_refused_twice_def)

text \<open>An ambiguous refusal is settled by evidence only. Without a probe's verdict it stays as it is and
  cannot reach the authentication machine. With one it is settled once and for all and carries a
  diagnosis; its kind changes only to what a decisive answer of the probe itself said about the
  credential; and it is retried only when the probe showed that the credential works, and then either
  this call has succeeded on this resource before or the retry is limited to one.\<close>
theorem resolve_on_evidence:
  assumes "ambiguous e" and "\<not> resolved e" and "resolve now decided e d = (e', d')"
  shows "(decided = None \<longrightarrow> e' = e \<and> d' = d \<and> \<not> drives_auth (Some e'))
    \<and> (decided \<noteq> None \<longrightarrow> resolved e' \<and> diagnosis e' \<noteq> [] \<and> (\<forall>x. resolve now x e' d' = (e', d')))
    \<and> (kind e' \<noteq> kind e \<longrightarrow> (\<exists>g pe. decided = Some (Some g) \<and> as_api g = Some pe \<and> decisive pe \<and> kind e' = kind pe))
    \<and> (retry e' = RetryYes \<and> decided \<noteq> None \<longrightarrow> decided = Some None
         \<and> (saw_success (witness_key (err_op e) (err_scope e)) d \<or> retry_budget e' = 1))"
proof -
  consider "decided = None" | g where "decided = Some (Some g)" | "decided = Some None"
    by (cases decided) auto
  then show ?thesis
  proof cases
    case 1
    then show ?thesis using assms by (auto simp: resolve_def drives_auth_def)
  next
    case (2 g)
    then show ?thesis using assms
      by (cases "as_api g") (auto simp: resolve_def Let_def split: if_splits)
  next
    case 3
    obtain first d1 where md: "mark_denied now (witness_key (err_op e) (err_scope e)) d = (first, d1)" by fastforce
    show ?thesis using 3 assms md
      by (cases first) (auto simp: resolve_def Let_def split: if_splits)
  qed
qed

definition refused_403 :: api_error where
  "refused_403 = (blank_error KindUpstreamError)\<lparr>http_code := 403, shape := ShapeJSON, ambiguous := True,
     retry := RetryNo, err_op := ''POST /upload'', upstream_msg := ''Permission denied''\<rparr>"

lemma resolve_on_evidence_witness:
  "let (e', d') = resolve 5 (Some None) refused_403 (new_disambiguator True 0)
   in resolved e' \<and> diagnosis e' \<noteq> [] \<and> retry e' = RetryYes \<and> retry_budget e' = 1"
proof -
  obtain e' d' where r: "resolve 5 (Some None) refused_403 (new_disambiguator True 0) = (e', d')" by fastforce
  have "ambiguous refused_403" "\<not> resolved refused_403" by (simp_all add: refused_403_def)
  from resolve_on_evidence [OF this r] r show ?thesis
    by (auto simp: resolve_def refused_403_def new_disambiguator_def saw_success_def mark_denied_def max_witnessed_def Let_def)
qed

section \<open>The disambiguator over time\<close>

datatype da_event = DaSuccess string | DaRefused string | DaCheck bool | DaProbed "go_error option"

definition da_apply :: "gotime \<Rightarrow> da_event \<Rightarrow> disambiguator \<Rightarrow> disambiguator" where
  "da_apply now ev d =
     (case ev of
        DaSuccess k \<Rightarrow> note_success k d
      | DaRefused k \<Rightarrow> snd (mark_denied now k d)
      | DaCheck w \<Rightarrow> snd (check_begin now w d)
      | DaProbed r \<Rightarrow> (if da_wait d then probe_done now r d else d))"

fun da_run :: "(gotime \<times> da_event) list \<Rightarrow> disambiguator \<Rightarrow> disambiguator" where
  "da_run [] d = d"
| "da_run ((t, ev) # evs) d = da_run evs (da_apply t ev d)"

definition da_inv :: "gotime \<Rightarrow> gotime \<Rightarrow> disambiguator \<Rightarrow> bool" where
  "da_inv t0 t d \<longleftrightarrow>
     length (da_witness d) \<le> max_witnessed \<and> length (da_denied d) \<le> max_witnessed \<and> wf_map (da_denied d)
     \<and> (da_probes d = 0 \<longrightarrow> \<not> da_have d \<and> \<not> da_wait d)
     \<and> (da_probes d > 0 \<longrightarrow> t0 + (int (da_probes d) - 1) * da_interval d \<le> (if da_wait d then t else da_last d))
     \<and> (da_probes d > 0 \<longrightarrow> da_wait d \<or> da_have d) \<and> (da_have d \<longrightarrow> da_last d \<le> t)"

lemma length_update_le: "length (AList.update k v m) \<le> Suc (length m)"
  by (cases "k \<in> keys m") (simp_all add: length_update_old length_update_new)

lemma length_delete_le: "length (AList.delete k m) \<le> length m"
  by (simp add: AList.delete_eq)

lemma da_inv_apply:
  assumes "da_inv t0 t d" and "t \<le> now" and "t0 \<le> now" and "da_interval d > 0"
  shows "da_inv t0 now (da_apply now ev d) \<and> da_interval (da_apply now ev d) = da_interval d"
proof (cases ev)
  case (DaSuccess k)
  have "length (AList.delete k (da_denied d)) \<le> max_witnessed"
    using assms(1) length_delete_le [of k "da_denied d"] by (simp add: da_inv_def)
  moreover have "\<not> max_witnessed \<le> length (da_witness d) \<Longrightarrow> length (AList.update k True (da_witness d)) \<le> max_witnessed"
    using length_update_le [of k True "da_witness d"] by simp
  ultimately show ?thesis using assms DaSuccess
    by (auto simp: da_apply_def note_success_def da_inv_def Let_def)
next
  case (DaRefused k)
  have "length (AList.update k now (da_denied d)) \<le> max_witnessed"
    if "lookup (da_denied d) k \<noteq> None \<or> length (da_denied d) < max_witnessed"
  proof (cases "lookup (da_denied d) k")
    case None
    then show ?thesis using that length_update_le [of k now "da_denied d"] by simp
  next
    case (Some v)
    then have "k \<in> keys (da_denied d)" using lookup_None_iff [of "da_denied d" k] by simp
    then show ?thesis using assms(1) by (simp add: length_update_old da_inv_def)
  qed
  then show ?thesis using assms DaRefused
    by (auto simp: da_apply_def mark_denied_def da_inv_def distinct_update split: option.splits)
next
  case (DaCheck w)
  have "t0 + int (da_probes d) * da_interval d \<le> now"
    if "da_have d \<longrightarrow> \<not> now - da_last d < da_interval d" "\<not> da_wait d"
    using that assms by (cases "da_probes d = 0") (auto simp: da_inv_def algebra_simps)
  then show ?thesis using assms DaCheck
    by (auto simp: da_apply_def check_begin_def da_inv_def)
next
  case (DaProbed r)
  then show ?thesis using assms
    by (auto simp: da_apply_def probe_done_def da_inv_def)
qed

lemma da_inv_run:
  "da_inv t0 t d \<Longrightarrow> t0 \<le> t \<Longrightarrow> da_interval d > 0 \<Longrightarrow> sorted (map fst evs) \<Longrightarrow> \<forall>x \<in> set evs. t \<le> fst x \<and> fst x \<le> t1 \<Longrightarrow> t \<le> t1
    \<Longrightarrow> (\<exists>u \<le> t1. da_inv t0 u (da_run evs d)) \<and> da_interval (da_run evs d) = da_interval d"
proof (induction evs arbitrary: t d)
  case Nil
  then show ?case by auto
next
  case (Cons x evs)
  obtain u ev where x: "x = (u, ev)" by (cases x)
  have u: "t \<le> u" "u \<le> t1" "t0 \<le> u" using Cons.prems x by auto
  have step: "da_inv t0 u (da_apply u ev d)" "da_interval (da_apply u ev d) = da_interval d"
    using da_inv_apply [OF Cons.prems(1) u(1,3) Cons.prems(3)] by auto
  have "\<forall>y \<in> set evs. u \<le> fst y \<and> fst y \<le> t1" using Cons.prems(4,5) x by auto
  then show ?case using Cons.IH [OF step(1) u(3)] step(2) Cons.prems x u by auto
qed

text \<open>Settling refusals costs little: however many calls are refused between two moments, at most one probe
  is sent per interval (and one more), and neither the table of successes nor the table of refusals grows
  past its bound.\<close>
theorem probes_are_rare:
  assumes "sorted (map fst evs)" and "\<forall>x \<in> set evs. t0 \<le> fst x \<and> fst x \<le> t1" and "t0 \<le> t1"
    and d: "d = da_run evs (new_disambiguator probe interval)"
  shows "int (da_probes d) * da_interval d \<le> t1 - t0 + da_interval d
    \<and> length (da_witness d) \<le> max_witnessed \<and> length (da_denied d) \<le> max_witnessed"
proof -
  let ?d0 = "new_disambiguator probe interval"
  have i0: "da_inv t0 t0 ?d0" "da_interval ?d0 > 0"
    by (auto simp: da_inv_def new_disambiguator_def default_probe_interval_def)
  from da_inv_run [OF i0(1) order_refl i0(2) assms(1,2,3)]
  obtain u where u: "u \<le> t1" "da_inv t0 u d" and i: "da_interval d = da_interval ?d0" by (auto simp: d)
  then show ?thesis using i0(2) assms(3)
    by (cases "da_probes d = 0") (auto simp: da_inv_def algebra_simps split: if_splits)
qed

lemma probes_are_rare_witness:
  "int (da_probes (da_run [(1, DaCheck False), (2, DaProbed None), (3, DaCheck False), (90, DaCheck False)] (new_disambiguator True 10))) * 10 \<le> 99"
  using probes_are_rare [of "[(1, DaCheck False), (2, DaProbed None), (3, DaCheck False), (90, DaCheck False)]" 1 90 _ True 10, OF _ _ _ refl]
  by (simp add: da_apply_def check_begin_def probe_done_def new_disambiguator_def)

end
