(* ===== verification/Client.thy ===== *)
theory Client
  imports Classify
begin

text \<open>
  \<open>pkg/opendrive/client.go\<close>: one call of the SDK. A request is placed on the wire (path, query, body and the
  session parameter), sent, and what comes back is classified; a call is renewed once after an expired
  token and repeated while the error is temporary and the budget allows.

  The network, the authenticator, the clock and the random number are arguments, indexed by the number
  of the attempt. The escaping of a URL is left out: paths and queries are the unescaped values.
\<close>

section \<open>Requests\<close>

datatype placement = SessionAuto | SessionInBody | SessionInQuery | SessionInPath | SessionOmit

text \<open>A body: none, bytes that are not a JSON object, an object with its members, or another JSON value.\<close>

datatype json_body = NoBody | RawBytes string | JsonObject "(string, string) gomap" | JsonOther

record request =
  rq_method :: string
  rq_path :: string
  rq_segments :: "string list"
  rq_query :: "(string \<times> string) list"
  rq_body :: json_body
  rq_needs_session :: bool
  rq_scope :: string
  rq_param :: string
  rq_placement :: placement
  rq_retryable :: "bool option"

record credentials =
  cr_session :: string
  cr_token :: string

definition oauth_session_id :: string where
  "oauth_session_id = ''OAUTH''"

definition default_session_param :: string where
  "default_session_param = ''session_id''"

definition retryable :: "request \<Rightarrow> bool" where
  "retryable r = (case rq_retryable r of Some b \<Rightarrow> b | None \<Rightarrow> rq_method r = ''GET'' \<or> rq_method r = ''HEAD'')"

section \<open>Where things go in a request\<close>

definition trim_right_slash :: "string \<Rightarrow> string" where
  "trim_right_slash s = rev (dropWhile (\<lambda>c. c = CHR ''/'') (rev s))"

definition trim_left_slash :: "string \<Rightarrow> string" where
  "trim_left_slash s = dropWhile (\<lambda>c. c = CHR ''/'') s"

definition last_segment :: "string \<Rightarrow> string" where
  "last_segment p = (case last_index CHR ''/'' p of Some i \<Rightarrow> drop (Suc i) p | None \<Rightarrow> p)"

definition join_url_path :: "string \<Rightarrow> string \<Rightarrow> string" where
  "join_url_path base endpoint =
     (let b = trim_right_slash base; ep = CHR ''/'' # trim_left_slash endpoint; seg = last_segment b in
      if seg \<noteq> [] \<and> (ep = CHR ''/'' # seg \<or> has_prefix ep (CHR ''/'' # seg @ ''/'')) then
        let ep' = trim_prefix ep (CHR ''/'' # seg) in b @ (if ep' = [] then ''/'' else ep')
      else b @ ep)"

definition set_query :: "string \<Rightarrow> string \<Rightarrow> (string \<times> string) list \<Rightarrow> (string \<times> string) list" where
  "set_query k v q = filter (\<lambda>(k', _). k' \<noteq> k) q @ [(k, v)]"

text \<open>\<open>injectBodyField\<close>: a member that is there already is kept.\<close>

definition inject_body_field :: "json_body \<Rightarrow> string \<Rightarrow> string \<Rightarrow> json_body option" where
  "inject_body_field b key v =
     (case b of
        NoBody \<Rightarrow> Some (JsonObject [(key, v)])
      | JsonObject m \<Rightarrow> Some (JsonObject (if key \<in> fst ` set m then m else m @ [(key, v)]))
      | RawBytes s \<Rightarrow> if trim_space s = [] then Some (JsonObject [(key, v)]) else None
      | JsonOther \<Rightarrow> None)"

record wire_request =
  wr_path :: string
  wr_query :: "(string \<times> string) list"
  wr_body :: json_body

definition add_segment :: "string \<Rightarrow> string \<Rightarrow> string" where
  "add_segment p seg = (if seg = [] then p else trim_right_slash p @ ''/'' @ seg)"

definition effective_placement :: "request \<Rightarrow> placement" where
  "effective_placement r =
     (if rq_placement r = SessionAuto then (if rq_body r \<noteq> NoBody then SessionInBody else SessionInQuery)
      else rq_placement r)"

definition build_url :: "string \<Rightarrow> request \<Rightarrow> credentials \<Rightarrow> api_error + wire_request" where
  "build_url base r cr =
     (let path0 = join_url_path base (rq_path r);
          param = (if rq_param r = [] then default_session_param else rq_param r);
          pl = effective_placement r;
          session = (if cr_token cr \<noteq> [] then oauth_session_id else cr_session cr);
          query0 = (if cr_token cr \<noteq> [] then set_query ''access_token'' (cr_token cr) (rq_query r) else rq_query r);
          placed =
            (if pl = SessionOmit \<or> session = [] then Some (path0, query0, rq_body r)
             else case pl of
               SessionInQuery \<Rightarrow> Some (path0, set_query param session query0, rq_body r)
             | SessionInPath \<Rightarrow> Some (trim_right_slash path0 @ ''/'' @ session, query0, rq_body r)
             | SessionInBody \<Rightarrow> map_option (\<lambda>b. (path0, query0, b)) (inject_body_field (rq_body r) param session)
             | _ \<Rightarrow> Some (path0, query0, rq_body r))
      in case placed of
           None \<Rightarrow> Inl (invalid_request ''request body must be a JSON object to carry the session'')
         | Some (p, q, b) \<Rightarrow> Inr \<lparr>wr_path = foldl add_segment p (rq_segments r), wr_query = q, wr_body = b\<rparr>)"

section \<open>One attempt\<close>

text \<open>
  What the outside does during one attempt: the credentials, the session id that one endpoint insists
  on (\<open>None\<close> when the authenticator has none to give), and the answer: no response, or a response and
  whether its body could be read and decoded.
\<close>

datatype decoded = DecodedOk | DecodedBad sentinel

datatype transport = NoResponse sentinel | ReadFailed sentinel | Response evidence decoded

record attempt_env =
  ae_credentials :: "go_error + credentials"
  ae_session :: "(go_error + string) option"
  ae_transport :: "wire_request \<Rightarrow> transport"

definition op_of :: "request \<Rightarrow> string" where
  "op_of r = rq_method r @ '' '' @ rq_path r"

definition as_error :: "kind \<Rightarrow> string \<Rightarrow> go_error \<Rightarrow> api_error" where
  "as_error k op err = (case as_api err of Some ae \<Rightarrow> ae | None \<Rightarrow> (blank_error k)\<lparr>err_op := op, cause := Some OtherCause\<rparr>)"

definition no_credentials :: credentials where
  "no_credentials = \<lparr>cr_session = [], cr_token = []\<rparr>"

definition credentials_for :: "bool \<Rightarrow> request \<Rightarrow> attempt_env \<Rightarrow> api_error + credentials" where
  "credentials_for has_auth r ae =
     (if rq_placement r = SessionOmit \<or> \<not> has_auth then Inr no_credentials
      else case ae_credentials ae of
        Inl err \<Rightarrow> Inl (as_error KindUnauthorized (op_of r) err)
      | Inr cr \<Rightarrow>
          if rq_needs_session r \<and> cr_token cr \<noteq> [] then
            case ae_session ae of
              None \<Rightarrow> Inl ((blank_error KindReauthRequired)\<lparr>err_op := op_of r,
                          upstream_msg := ''this endpoint needs a real session id and the authenticator cannot supply one''\<rparr>)
            | Some (Inl err) \<Rightarrow> Inl (as_error KindReauthRequired (op_of r) err)
            | Some (Inr s) \<Rightarrow> Inr \<lparr>cr_session = s, cr_token = []\<rparr>
          else Inr cr)"

record client =
  cl_base :: string
  cl_has_auth :: bool
  cl_decode :: "string \<Rightarrow> wire_error option"
  cl_member :: "string \<Rightarrow> string option" \<comment> \<open>the raw \<open>error\<close> member of an object\<close>

text \<open>Everything after the response has been read; \<open>wants\<close> tells whether the caller wants it decoded.\<close>

definition read_answer :: "client \<Rightarrow> request \<Rightarrow> bool \<Rightarrow> evidence \<Rightarrow> decoded \<Rightarrow> disambiguator \<Rightarrow> api_error option \<times> disambiguator" where
  "read_answer c r wants ev dec d =
     (if ev_status ev < 200 \<or> ev_status ev > 299 then (Some (classify_response (cl_decode c) ev), d)
      else case error_in_body (cl_member c) (cl_decode c) ev of
        Some e \<Rightarrow> (Some e, d)
      | None \<Rightarrow>
          let d1 = note_success (witness_key (op_of r) (rq_scope r)) d
          in if \<not> wants then (None, d1)
             else if trim_space (ev_body ev) = [] then (Some (invalid_response (op_of r) (ev_url ev) OtherCause), d1)
             else case dec of
               DecodedOk \<Rightarrow> (None, d1)
             | DecodedBad s \<Rightarrow> (Some (invalid_response (op_of r) (ev_url ev) s), d1))"

definition attempt :: "client \<Rightarrow> request \<Rightarrow> bool \<Rightarrow> attempt_env \<Rightarrow> disambiguator \<Rightarrow> api_error option \<times> disambiguator" where
  "attempt c r wants ae d =
     (case credentials_for (cl_has_auth c) r ae of
        Inl e \<Rightarrow> (Some e, d)
      | Inr cr \<Rightarrow>
          case build_url (cl_base c) r cr of
            Inl e \<Rightarrow> (Some e, d)
          | Inr wr \<Rightarrow>
              case ae_transport ae wr of
                NoResponse s \<Rightarrow> (Some (network_error (op_of r) [] s), d)
              | ReadFailed s \<Rightarrow> (Some (network_error (op_of r) [] s), d)
              | Response ev dec \<Rightarrow> read_answer c r wants ev dec d)"

text \<open>\<open>streamAttempt\<close>: \<open>fn\<close> is what the callback returned.\<close>

definition stream_attempt :: "client \<Rightarrow> request \<Rightarrow> go_error option \<Rightarrow> attempt_env \<Rightarrow> disambiguator \<Rightarrow> api_error option \<times> disambiguator" where
  "stream_attempt c r fn ae d =
     (case credentials_for (cl_has_auth c) r ae of
        Inl e \<Rightarrow> (Some e, d)
      | Inr cr \<Rightarrow>
          case build_url (cl_base c) r cr of
            Inl e \<Rightarrow> (Some e, d)
          | Inr wr \<Rightarrow>
              case ae_transport ae wr of
                NoResponse s \<Rightarrow> (Some (network_error (op_of r) [] s), d)
              | ReadFailed s \<Rightarrow> (Some (network_error (op_of r) [] s), d)
              | Response ev dec \<Rightarrow>
                  if ev_status ev < 200 \<or> ev_status ev > 299 then (Some (classify_response (cl_decode c) ev), d)
                  else
                    let d1 = note_success (witness_key (op_of r) (rq_scope r)) d
                    in (map_option (as_error KindNetwork (op_of r)) fn, d1))"

section \<open>Retrying\<close>

record retry_policy =
  rp_max :: int
  rp_base :: int
  rp_cap :: int

definition default_retry_policy :: retry_policy where
  "default_retry_policy = \<lparr>rp_max = 5, rp_base = 1000000000, rp_cap = 60 * 1000000000\<rparr>"

text \<open>\<open>jitter\<close> maps the capped interval to the one slept: by default, half of it and a random part of the rest.\<close>

definition policy_backoff :: "retry_policy \<Rightarrow> (int \<Rightarrow> int) \<Rightarrow> int \<Rightarrow> int" where
  "policy_backoff p jitter n =
     (let base = (if rp_base p \<le> 0 then 1000000000 else rp_base p);
          capped = (if rp_cap p \<le> 0 then 60 * 1000000000 else rp_cap p);
          d = wrap64 (base * 2 ^ nat n)
      in jitter (if d > capped \<or> d \<le> 0 then capped else d))"

definition full_jitter :: "int \<Rightarrow> int \<Rightarrow> int" where
  "full_jitter rnd d = d div 2 + rnd mod (d div 2 + 1)"

text \<open>The arguments of a call, and why an attempt was followed by another.\<close>

record call_env =
  cv_attempt :: attempt_env
  cv_now :: gotime
  cv_verdict :: "go_error option option"
  cv_refresh :: "go_error option"
  cv_jitter :: "int \<Rightarrow> int"
  cv_sleep :: "sentinel option"

datatype replay = AfterRenewal api_error | AfterRetry api_error int

definition settle :: "gotime \<Rightarrow> go_error option option \<Rightarrow> api_error \<Rightarrow> disambiguator \<Rightarrow> api_error \<times> disambiguator" where
  "settle now verdict e d = (if ambiguous e then resolve now verdict e d else (e, d))"

definition renews :: "client \<Rightarrow> request \<Rightarrow> bool \<Rightarrow> api_error \<Rightarrow> bool" where
  "renews c r refreshed e \<longleftrightarrow>
     kind e = KindTokenExpired \<and> drives_auth (Some e) \<and> cl_has_auth c \<and> \<not> refreshed \<and> rq_placement r \<noteq> SessionOmit"

definition budget_for :: "retry_policy \<Rightarrow> api_error \<Rightarrow> int" where
  "budget_for p e = (if retry_budget e > 0 \<and> retry_budget e < rp_max p then retry_budget e else rp_max p)"

definition call_delay :: "retry_policy \<Rightarrow> (int \<Rightarrow> int) \<Rightarrow> api_error \<Rightarrow> int \<Rightarrow> int" where
  "call_delay p jitter e n = (if retry_after e \<le> 0 then policy_backoff p jitter n else retry_after e)"

text \<open>
  The loop of \<open>Do\<close>: the k-th attempt, the retries so far and whether the token was renewed. The result is the
  error, the replays and the disambiguator.
\<close>

function do_loop ::
  "client \<Rightarrow> retry_policy \<Rightarrow> request \<Rightarrow> bool \<Rightarrow> (nat \<Rightarrow> call_env) \<Rightarrow> nat \<Rightarrow> int \<Rightarrow> bool \<Rightarrow> disambiguator
    \<Rightarrow> go_error option \<times> replay list \<times> disambiguator" where
  "do_loop c p r wants env k n refreshed d =
     (case attempt c r wants (cv_attempt (env k)) d of
        (None, d1) \<Rightarrow> (None, [], d1)
      | (Some e0, d1) \<Rightarrow>
          case settle (cv_now (env k)) (cv_verdict (env k)) e0 d1 of (e, d2) \<Rightarrow>
            if renews c r refreshed e then
              case cv_refresh (env k) of
                Some err \<Rightarrow> (Some err, [], d2)
              | None \<Rightarrow>
                  (case do_loop c p r wants env (Suc k) n True d2 of (res, tr, d3) \<Rightarrow> (res, AfterRenewal e # tr, d3))
            else if (\<not> retryable r \<and> \<not> replay_safe e) \<or> \<not> temporary e then (Some (Api e), [], d2)
            else if n \<ge> budget_for p e then (Some (Api e), [], d2)
            else case cv_sleep (env k) of
              Some s \<Rightarrow> (Some (Api (network_error (err_op e) (err_url e) s)), [], d2)
            | None \<Rightarrow>
                (case do_loop c p r wants env (Suc k) (n + 1) refreshed d2 of
                   (res, tr, d3) \<Rightarrow> (res, AfterRetry e (call_delay p (cv_jitter (env k)) e n) # tr, d3)))"
  by pat_completeness auto
termination
  by (relation "measure (\<lambda>(c, p, r, wants, env, k, n, refreshed, d). nat (rp_max p - n) + (if refreshed then 0 else 1))")
    (auto simp: renews_def budget_for_def split: if_splits)

declare do_loop.simps [simp del]

definition do_request ::
  "client \<Rightarrow> retry_policy \<Rightarrow> request \<Rightarrow> bool \<Rightarrow> (nat \<Rightarrow> call_env) \<Rightarrow> disambiguator
    \<Rightarrow> go_error option \<times> replay list \<times> disambiguator" where
  "do_request c p r wants env d =
     (if rq_method r = [] then (Some (Api (invalid_request ''request method must not be empty'')), [], d)
      else if rq_path r = [] then (Some (Api (invalid_request ''request path must not be empty'')), [], d)
      else do_loop c p r wants env 0 0 False d)"

text \<open>\<open>DoStream\<close>: no retry, one renewal.\<close>

function stream_loop ::
  "client \<Rightarrow> request \<Rightarrow> (nat \<Rightarrow> go_error option) \<Rightarrow> (nat \<Rightarrow> call_env) \<Rightarrow> nat \<Rightarrow> bool \<Rightarrow> disambiguator
    \<Rightarrow> go_error option \<times> replay list \<times> disambiguator" where
  "stream_loop c r fn env k refreshed d =
     (case stream_attempt c r (fn k) (cv_attempt (env k)) d of
        (None, d1) \<Rightarrow> (None, [], d1)
      | (Some e0, d1) \<Rightarrow>
          case settle (cv_now (env k)) (cv_verdict (env k)) e0 d1 of (e, d2) \<Rightarrow>
            if renews c r refreshed e then
              case cv_refresh (env k) of
                Some err \<Rightarrow> (Some err, [], d2)
              | None \<Rightarrow>
                  (case stream_loop c r fn env (Suc k) True d2 of (res, tr, d3) \<Rightarrow> (res, AfterRenewal e # tr, d3))
            else (Some (Api e), [], d2))"
  by pat_completeness auto
termination
  by (relation "measure (\<lambda>(c, r, fn, env, k, refreshed, d). if refreshed then 0 else 1)")
    (auto simp: renews_def)

declare stream_loop.simps [simp del]

section \<open>What may be sent again\<close>

definition is_retry :: "replay \<Rightarrow> bool" where
  "is_retry x = (case x of AfterRetry _ _ \<Rightarrow> True | AfterRenewal _ \<Rightarrow> False)"

definition replay_ok :: "request \<Rightarrow> replay \<Rightarrow> bool" where
  "replay_ok r x =
     (case x of
        AfterRetry e _ \<Rightarrow> temporary e \<and> (retryable r \<or> http_code e = 403 \<or> http_code e = 429)
      | AfterRenewal e \<Rightarrow> kind e = KindTokenExpired \<and> drives_auth (Some e) \<and> rq_placement r \<noteq> SessionOmit)"

lemma is_retry_simps [simp]: "is_retry (AfterRetry e m)" "\<not> is_retry (AfterRenewal e)"
  by (simp_all add: is_retry_def)

lemma do_loop_trace:
  "do_loop c p r wants env k n refreshed d = (res, tr, d') \<Longrightarrow>
     list_all (replay_ok r) tr
     \<and> int (length (filter is_retry tr)) \<le> max 0 (rp_max p - n)
     \<and> length (filter (\<lambda>x. \<not> is_retry x) tr) \<le> (if refreshed then 0 else 1)"
proof (induction c p r wants env k n refreshed d arbitrary: res tr d' rule: do_loop.induct)
  case (1 c p r wants env k n refreshed d)
  obtain eo d1 where at: "attempt c r wants (cv_attempt (env k)) d = (eo, d1)" by fastforce
  show ?case
  proof (cases eo)
    case None
    then show ?thesis using "1.prems" at by (subst (asm) do_loop.simps) auto
  next
    case (Some e0)
    obtain e d2 where st: "settle (cv_now (env k)) (cv_verdict (env k)) e0 d1 = (e, d2)" by fastforce
    note eqs = at [unfolded Some] st
    show ?thesis
    proof (cases "renews c r refreshed e")
      case True
      show ?thesis
      proof (cases "cv_refresh (env k)")
        case None
        obtain res1 tr1 d3 where rec: "do_loop c p r wants env (Suc k) n True d2 = (res1, tr1, d3)" by (metis prod_cases3)
        then have "tr = AfterRenewal e # tr1"
          using "1.prems" eqs True None by (subst (asm) do_loop.simps) simp
        moreover have "\<not> refreshed" "replay_ok r (AfterRenewal e)" using True by (auto simp: renews_def replay_ok_def)
        ultimately show ?thesis
          using "1.IH"(1) [OF at [symmetric] Some st [symmetric] True None rec] by simp
      next
        case (Some err)
        then show ?thesis using "1.prems" eqs True by (subst (asm) do_loop.simps) auto
      qed
    next
      case False
      show ?thesis
      proof (cases "(\<not> retryable r \<and> \<not> replay_safe e) \<or> \<not> temporary e \<or> n \<ge> budget_for p e \<or> cv_sleep (env k) \<noteq> None")
        case True
        then have "tr = []"
          using "1.prems" eqs False by (subst (asm) do_loop.simps) (auto split: if_splits option.splits)
        then show ?thesis by simp
      next
        case go: False
        obtain res1 tr1 d3 where rec: "do_loop c p r wants env (Suc k) (n + 1) refreshed d2 = (res1, tr1, d3)" by (metis prod_cases3)
        have c1: "\<not> ((\<not> retryable r \<and> \<not> replay_safe e) \<or> \<not> temporary e)" and c2: "\<not> n \<ge> budget_for p e"
          and c3: "cv_sleep (env k) = None" using go by auto
        have "tr = AfterRetry e (call_delay p (cv_jitter (env k)) e n) # tr1"
          using "1.prems" eqs False c1 c2 c3 rec by (subst (asm) do_loop.simps) auto
        moreover have "replay_ok r (AfterRetry e m)" for m using c1 by (auto simp: replay_ok_def replay_safe_def)
        moreover have "n < rp_max p" using c2 by (auto simp: budget_for_def split: if_splits)
        ultimately show ?thesis
          using "1.IH"(2) [OF at [symmetric] Some st [symmetric] False c1 c2 c3 rec] by auto
      qed
    qed
  qed
qed


definition post_request :: request where
  "post_request = \<lparr>rq_method = ''POST'', rq_path = ''/folder.json'', rq_segments = [], rq_query = [], rq_body = NoBody,
     rq_needs_session = False, rq_scope = [], rq_param = [], rq_placement = SessionInBody, rq_retryable = None\<rparr>"

definition throttled :: evidence where
  "throttled = \<lparr>ev_status = 429, ev_retry_header = [], ev_retry_until = None, ev_body = [], ev_content_type = [],
     ev_op = ''POST /folder.json'', ev_scope = [], ev_url = []\<rparr>"

definition plain_client :: client where
  "plain_client = \<lparr>cl_base = ''/api/v1'', cl_has_auth = False, cl_decode = (\<lambda>_. None), cl_member = (\<lambda>_. None)\<rparr>"

definition throttled_env :: "nat \<Rightarrow> call_env" where
  "throttled_env k = \<lparr>cv_attempt = \<lparr>ae_credentials = Inr no_credentials, ae_session = None,
      ae_transport = (\<lambda>_. if k < 2 then Response throttled DecodedOk else Response (throttled\<lparr>ev_status := 200\<rparr>) DecodedOk)\<rparr>,
     cv_now = 0, cv_verdict = None, cv_refresh = None, cv_jitter = (\<lambda>d. d), cv_sleep = None\<rparr>"

lemma attempt_plain:
  assumes "ae_transport ae = (\<lambda>_. Response ev DecodedOk)" and "ev_body ev = []"
  shows "attempt plain_client post_request False ae d =
    (if ev_status ev < 200 \<or> ev_status ev > 299 then (Some (classify_response (\<lambda>_. None) ev), d)
     else (None, note_success (witness_key ''POST /folder.json'' []) d))"
  using assms
  by (simp add: attempt_def credentials_for_def plain_client_def build_url_def post_request_def effective_placement_def
      no_credentials_def read_answer_def error_in_body_def op_of_def Let_def)

lemma throttled_error: "classify_response (\<lambda>_. None) throttled = (blank_error KindRateLimited)\<lparr>http_code := 429, shape := ShapeEmpty,
    retry := RetryYes, err_op := ''POST /folder.json''\<rparr>"
  by (simp add: classify_response_def read_response_def throttled_def body_shape_of_def parse_retry_after_def Let_def
      classify_def permanent_denial_phrases_def bad_credential_phrases_def session_expired_phrases_def status_verdict_def
      plain_verdict_def blank_error_def)

definition throttled_error_value :: api_error where
  "throttled_error_value = (blank_error KindRateLimited)\<lparr>http_code := 429, shape := ShapeEmpty, retry := RetryYes,
     err_op := ''POST /folder.json''\<rparr>"

lemma throttled_facts: "ev_body throttled = []" "ev_status throttled = 429"
  by (simp_all add: throttled_def)

lemma throttled_attempt:
  "k < 2 \<Longrightarrow> attempt plain_client post_request False (cv_attempt (throttled_env k)) d = (Some throttled_error_value, d)"
  "\<exists>d'. attempt plain_client post_request False (cv_attempt (throttled_env 2)) d = (None, d')"
proof -
  show "attempt plain_client post_request False (cv_attempt (throttled_env k)) d = (Some throttled_error_value, d)" if "k < 2"
    using that attempt_plain [of "cv_attempt (throttled_env k)" throttled d]
    by (simp add: throttled_env_def throttled_facts throttled_error throttled_error_value_def)
  show "\<exists>d'. attempt plain_client post_request False (cv_attempt (throttled_env 2)) d = (None, d')"
    using attempt_plain [of "cv_attempt (throttled_env 2)" "throttled\<lparr>ev_status := 200\<rparr>" d]
    by (simp add: throttled_env_def throttled_facts)
qed

lemma throttled_round:
  assumes "k < 2" and "n < 5" and "do_loop plain_client default_retry_policy post_request False throttled_env (Suc k) (n + 1) False d = (res, tr, d')"
  shows "\<exists>m. do_loop plain_client default_retry_policy post_request False throttled_env k n False d
    = (res, AfterRetry throttled_error_value m # tr, d')"
  using assms
  by (subst do_loop.simps)
    (simp add: throttled_attempt settle_def renews_def throttled_error_value_def replay_safe_def temporary_def budget_for_def
      default_retry_policy_def throttled_env_def [THEN arg_cong [where f = cv_sleep]])


end
