(* ===== verification/Upload.thy ===== *)
theory Upload
  imports Client Paths
begin

text \<open>
  \<open>pkg/opendrive/upload.go\<close>: the four steps of an upload, the chunk loop with its resume rule, and taking back the
  record of a failed upload.

  The server that assembles the chunks is an argument with a state of its own: a call gets an offset and the
  bytes and answers with a count or an error. zlib and MD5 are arguments too.
\<close>

section \<open>Parameters\<close>

definition default_chunk_size :: int where
  "default_chunk_size = 50 * 2 ^ 20"

definition min_chunk_size :: int where
  "min_chunk_size = 64 * 2 ^ 10"

definition root_folder_id :: string where
  "root_folder_id = ''0''"

record upload_params =
  p_folder :: string
  p_name :: string
  p_size :: int
  p_hash :: string
  p_mtime :: "gotime option"
  p_open_if_exists :: bool
  p_chunk_size :: int
  p_access_folder :: string
  p_sharing :: string
  p_keep :: bool

definition chunk_size :: "upload_params \<Rightarrow> int" where
  "chunk_size p =
     (if p_chunk_size p \<ge> min_chunk_size then p_chunk_size p
      else if p_chunk_size p > 0 then min_chunk_size
      else default_chunk_size)"

definition is_hex :: "char \<Rightarrow> bool" where
  "is_hex c \<longleftrightarrow> CHR ''0'' \<le> c \<and> c \<le> CHR ''9'' \<or> CHR ''a'' \<le> c \<and> c \<le> CHR ''f'' \<or> CHR ''A'' \<le> c \<and> c \<le> CHR ''F''"

definition validate_upload :: "upload_params \<Rightarrow> api_error option" where
  "validate_upload p =
     (case validate_name (p_name p) of
        Some e \<Rightarrow> Some e
      | None \<Rightarrow>
          if p_size p < 0 then Some (invalid_request ''upload size must not be negative'')
          else if p_hash p \<noteq> [] then
            (if length (p_hash p) \<noteq> 32 then Some (invalid_request ''file_hash must be a 32 character hex MD5'')
             else if \<not> list_all is_hex (p_hash p) then Some (invalid_request ''file_hash must be hexadecimal'')
             else None)
          else None)"

section \<open>The bodies of the three calls\<close>

datatype field = FInt int | FStr string

definition optional_fields :: "upload_params \<Rightarrow> (string \<times> field) list" where
  "optional_fields p =
     (if p_access_folder p \<noteq> [] then [(''access_folder_id'', FStr (p_access_folder p))] else [])
     @ (if p_sharing p \<noteq> [] then [(''sharing_id'', FStr (p_sharing p))] else [])"

definition hash_field :: "upload_params \<Rightarrow> (string \<times> field) list" where
  "hash_field p = (if p_hash p \<noteq> [] then [(''file_hash'', FStr (p_hash p))] else [])"

definition create_file_body :: "string \<Rightarrow> upload_params \<Rightarrow> (string \<times> field) list" where
  "create_file_body folder p =
     [(''folder_id'', FStr folder), (''file_name'', FStr (p_name p)), (''file_size'', FInt (p_size p))]
     @ hash_field p @ [(''open_if_exists'', FInt (if p_open_if_exists p then 1 else 0))] @ optional_fields p"

definition open_file_body :: "string \<Rightarrow> upload_params \<Rightarrow> (string \<times> field) list" where
  "open_file_body file_id p =
     [(''file_id'', FStr file_id), (''file_size'', FInt (p_size p))] @ hash_field p @ optional_fields p"

definition close_file_body :: "string \<Rightarrow> string \<Rightarrow> upload_params \<Rightarrow> bool \<Rightarrow> (string \<times> field) list" where
  "close_file_body file_id temp p compressed =
     [(''file_id'', FStr file_id), (''file_size'', FInt (p_size p))]
     @ (if temp \<noteq> [] then [(''temp_location'', FStr temp)] else [])
     @ hash_field p
     @ (case p_mtime p of Some t \<Rightarrow> [(''file_time'', FInt (t div 1000000000))] | None \<Rightarrow> [])
     @ (if temp \<noteq> [] \<and> compressed then [(''file_compressed'', FInt 1)] else [])
     @ optional_fields p"

section \<open>The resume point\<close>

text \<open>\<open>offsetMismatch\<close> and \<open>serverOffset\<close>: the first number after \<open>uploaded=\<close> that has a digit.\<close>

fun find_uploaded :: "string \<Rightarrow> string option" where
  "find_uploaded [] = None"
| "find_uploaded (c # cs) =
     (let ds = takeWhile is_digit (drop 9 (c # cs)) in
      if has_prefix (c # cs) ''uploaded='' \<and> ds \<noteq> [] then Some ds else find_uploaded cs)"

definition server_offset :: "go_error \<Rightarrow> int option" where
  "server_offset err =
     (case as_api err of
        None \<Rightarrow> None
      | Some ae \<Rightarrow>
          (case find_uploaded (upstream_msg ae) of
             None \<Rightarrow> None
           | Some ds \<Rightarrow> if in_int64 (digits_value ds) then Some (digits_value ds) else None))"

section \<open>Chunks\<close>

text \<open>A server: what a chunk request at an offset does and answers.\<close>

type_synonym 'srv chunk_server = "'srv \<Rightarrow> int \<Rightarrow> string \<Rightarrow> (go_error + int) \<times> 'srv"

definition short_write :: "string \<Rightarrow> go_error" where
  "short_write msg = Api ((blank_error KindInvalidResponse)\<lparr>err_op := ''POST /upload/upload_file_chunk2.json'', upstream_msg := msg\<rparr>)"

definition send_chunk_resuming ::
  "'srv chunk_server \<Rightarrow> int \<Rightarrow> string \<Rightarrow> 'srv \<Rightarrow> (nat \<times> go_error option) \<times> 'srv" where
  "send_chunk_resuming srv offset payload s =
     (case srv s offset payload of
        (Inr written, s1) \<Rightarrow>
          if written \<noteq> int (length payload) then ((1, Some (short_write ''upstream wrote less than the chunk'')), s1)
          else ((1, None), s1)
      | (Inl err, s1) \<Rightarrow>
          case server_offset err of
            None \<Rightarrow> ((1, Some err), s1)
          | Some n \<Rightarrow>
              if n \<ge> offset + int (length payload) then ((1, None), s1)
              else if n > offset then
                let tail = drop (nat (n - offset)) payload in
                case srv s1 n tail of
                  (Inl e2, s2) \<Rightarrow> ((2, Some e2), s2)
                | (Inr written, s2) \<Rightarrow>
                    if written \<noteq> int (length tail) then ((2, Some (short_write ''upstream wrote less than the rest of the chunk'')), s2)
                    else ((2, None), s2)
              else ((1, Some (Wrapped err)), s1))"

text \<open>
  \<open>io.ReadFull\<close> over what is left of the source; \<open>broken\<close> tells that the source ends in a read error
  instead of the end of the file.
\<close>

datatype read_end = ReadOk | ReadEOF | ReadShort | ReadError

definition read_full :: "nat \<Rightarrow> bool \<Rightarrow> string \<Rightarrow> string \<times> read_end" where
  "read_full n broken rest =
     (if rest = [] then ([], if broken then ReadError else ReadEOF)
      else if length rest \<ge> n then (take n rest, ReadOk)
      else (rest, if broken then ReadError else ReadShort))"

record send_state =
  ss_source :: int
  ss_wire :: int
  ss_chunks :: nat
  ss_progress :: "(int \<times> int) list"

definition send_error :: "send_state \<Rightarrow> go_error \<Rightarrow> 'srv \<Rightarrow> (go_error option \<times> int \<times> send_state) \<times> 'srv" where
  "send_error st err s = ((Some err, ss_source st, st), s)"

definition send_finish :: "upload_params \<Rightarrow> send_state \<Rightarrow> 'srv \<Rightarrow> (go_error option \<times> int \<times> send_state) \<times> 'srv" where
  "send_finish p st s =
     (if p_size p > 0 \<and> ss_source st \<noteq> p_size p
      then send_error st (Api (invalid_request ''the source produced a different number of bytes than declared'')) s
      else ((None, ss_wire st, st), s))"

text \<open>\<open>sendChunks\<close>; \<open>zl\<close> compresses a chunk when the server asked for it.\<close>

function send_chunks ::
  "'srv chunk_server \<Rightarrow> (string \<Rightarrow> string option) option \<Rightarrow> upload_params \<Rightarrow> bool \<Rightarrow> string \<Rightarrow> send_state \<Rightarrow> 'srv
    \<Rightarrow> (go_error option \<times> int \<times> send_state) \<times> 'srv" where
  "send_chunks srv zl p broken rest st s =
     (case read_full (nat (chunk_size p)) broken rest of (buf, re) \<Rightarrow>
        if buf = [] then
          (if re = ReadError then send_error st (Api (invalid_request ''cannot read the upload source'')) s
           else send_finish p st s)
        else
          case (case zl of None \<Rightarrow> Some buf | Some z \<Rightarrow> z buf) of
            None \<Rightarrow> send_error st (Api (invalid_request ''cannot compress the chunk'')) s
          | Some payload \<Rightarrow>
              case send_chunk_resuming srv (ss_wire st) payload s of ((tries, err), s1) \<Rightarrow>
                let st1 = st\<lparr>ss_chunks := ss_chunks st + tries\<rparr> in
                case err of
                  Some e \<Rightarrow> send_error st1 e s1
                | None \<Rightarrow>
                    let src' = ss_source st1 + int (length buf);
                        st2 = st1\<lparr>ss_source := src', ss_wire := ss_wire st1 + int (length payload),
                                  ss_progress := ss_progress st1 @ [(src', p_size p)]\<rparr>
                    in if re \<noteq> ReadOk then send_finish p st2 s1
                       else send_chunks srv zl p broken (drop (length buf) rest) st2 s1)"
  by pat_completeness auto
termination
  by (relation "measure (\<lambda>(srv, zl, p, broken, rest, st, s). length rest)") (auto simp: read_full_def split: if_splits)

declare send_chunks.simps [simp del]

definition start_sending :: send_state where
  "start_sending = \<lparr>ss_source = 0, ss_wire = 0, ss_chunks = 0, ss_progress = []\<rparr>"

section \<open>The handshake\<close>

record created_reply =
  cf_id :: string
  cf_id_upper :: string
  cf_temp :: string
  cf_compress :: bool
  cf_hash_only :: bool

definition created_id :: "created_reply \<Rightarrow> string" where
  "created_id r = (if cf_id r \<noteq> [] then cf_id r else cf_id_upper r)"

record opened_reply =
  of_temp :: string
  of_compress :: bool

text \<open>What the outside does in an upload: each call gets the body it is sent.\<close>

record 'srv upload_env =
  ue_create :: "(string \<times> field) list \<Rightarrow> go_error + created_reply"
  ue_open :: "(string \<times> field) list \<Rightarrow> go_error + opened_reply"
  ue_server :: "string \<Rightarrow> string \<Rightarrow> 'srv chunk_server" \<comment> \<open>by file id and temp location\<close>
  ue_zip :: "string \<Rightarrow> string option"
  ue_md5 :: "string \<Rightarrow> string"
  ue_close :: "(string \<times> field) list \<Rightarrow> go_error option"

record upload_result =
  r_dedup :: bool
  r_compressed :: bool
  r_sent :: int
  r_chunks :: nat
  r_hash :: string

definition invalid_reply :: "string \<Rightarrow> go_error" where
  "invalid_reply msg = Api ((blank_error KindInvalidResponse)\<lparr>upstream_msg := msg\<rparr>)"

definition transfer_content ::
  "'srv upload_env \<Rightarrow> upload_params \<Rightarrow> string \<Rightarrow> created_reply \<Rightarrow> bool \<Rightarrow> string \<Rightarrow> 'srv \<Rightarrow> (go_error + upload_result) \<times> 'srv" where
  "transfer_content ue p fid cf broken content s =
     (if cf_hash_only cf then
        case ue_close ue (close_file_body fid [] p False) of
          Some e \<Rightarrow> (Inl e, s)
        | None \<Rightarrow> (Inr \<lparr>r_dedup = True, r_compressed = False, r_sent = 0, r_chunks = 0, r_hash = p_hash p\<rparr>, s)
      else case ue_open ue (open_file_body fid p) of
        Inl e \<Rightarrow> (Inl e, s)
      | Inr op \<Rightarrow>
          let temp = (if of_temp op = [] then cf_temp cf else of_temp op) in
          if temp = [] then (Inl (invalid_reply ''no temp location was returned, so there is nowhere to send the content''), s)
          else
            let z = of_compress op \<or> cf_compress cf in
            case send_chunks (ue_server ue fid temp) (if z then Some (ue_zip ue) else None) p broken content start_sending s of
              ((Some e, _, _), s1) \<Rightarrow> (Inl e, s1)
            | ((None, sent, st), s1) \<Rightarrow>
                let h = (if p_hash p = [] then ue_md5 ue content else p_hash p); p1 = p\<lparr>p_hash := h\<rparr> in
                case ue_close ue (close_file_body fid temp p1 z) of
                  Some e \<Rightarrow> (Inl e, s1)
                | None \<Rightarrow> (Inr \<lparr>r_dedup = False, r_compressed = z, r_sent = sent, r_chunks = ss_chunks st, r_hash = h\<rparr>, s1))"

text \<open>The records whose deletion a failed upload requests.\<close>

definition reclaim_orphan :: "string \<Rightarrow> upload_params \<Rightarrow> string list" where
  "reclaim_orphan fid p = (if fid = [] \<or> p_keep p \<or> p_open_if_exists p then [] else [fid])"

text \<open>
  \<open>Upload\<close>: the result, the record that was announced with \<open>OnRecordCreated\<close>, and the records reclaimed.
\<close>

definition upload ::
  "'srv upload_env \<Rightarrow> upload_params \<Rightarrow> bool \<Rightarrow> string \<Rightarrow> 'srv
    \<Rightarrow> ((go_error + upload_result) \<times> (string \<times> string) option \<times> string list) \<times> 'srv" where
  "upload ue p broken content s =
     (case validate_upload p of
        Some e \<Rightarrow> ((Inl (Api e), None, []), s)
      | None \<Rightarrow>
          let folder = (if p_folder p = [] then root_folder_id else p_folder p) in
          case ue_create ue (create_file_body folder p) of
            Inl e \<Rightarrow> ((Inl e, None, []), s)
          | Inr cf \<Rightarrow>
              if created_id cf = [] then ((Inl (invalid_reply ''create_file returned no file id''), None, []), s)
              else case transfer_content ue p (created_id cf) cf broken content s of
                (Inl e, s1) \<Rightarrow> ((Inl e, Some (created_id cf, cf_temp cf), reclaim_orphan (created_id cf) p), s1)
              | (Inr r, s1) \<Rightarrow> ((Inr r, Some (created_id cf, cf_temp cf), []), s1))"

text \<open>\<open>UploadFile\<close>: the name, the size and the hash come from the local file.\<close>

datatype file_stat = NoFile | IsDirectory | RegularFile string int gotime

definition upload_file_params :: "file_stat \<Rightarrow> string option \<Rightarrow> bool \<Rightarrow> upload_params \<Rightarrow> api_error + upload_params" where
  "upload_file_params stat hash can_open p =
     (case stat of
        NoFile \<Rightarrow> Inl (invalid_request ''cannot read the file'')
      | IsDirectory \<Rightarrow> Inl (invalid_request ''the file is a directory'')
      | RegularFile name n mtime \<Rightarrow>
          let p1 = p\<lparr>p_name := (if p_name p = [] then name else p_name p), p_size := n,
                     p_mtime := (case p_mtime p of None \<Rightarrow> Some mtime | t \<Rightarrow> t)\<rparr>
          in case (if p_hash p1 = [] then hash else Some (p_hash p1)) of
               None \<Rightarrow> Inl (invalid_request ''cannot hash the file'')
             | Some h \<Rightarrow> if \<not> can_open then Inl (invalid_request ''cannot open the file'') else Inr (p1\<lparr>p_hash := h\<rparr>))"

text \<open>\<open>HasDedupeReference\<close> checks its arguments before it asks.\<close>

definition has_dedupe_reference :: "(int \<Rightarrow> string \<Rightarrow> go_error + bool) \<Rightarrow> int \<Rightarrow> string \<Rightarrow> go_error + bool" where
  "has_dedupe_reference ask n hash =
     (if n \<le> 0 \<or> hash = [] then Inl (Api (invalid_request ''a dedupe probe needs a size and an MD5'')) else ask n hash)"

section \<open>What arrives\<close>

lemma chunk_size_pos: "0 < nat (chunk_size p)"
  by (auto simp: chunk_size_def min_chunk_size_def default_chunk_size_def)

text \<open>The bytes that make up the wire stream of a content, chunk by chunk.\<close>

function chunks_of :: "nat \<Rightarrow> string \<Rightarrow> string list" where
  "chunks_of n xs = (if xs = [] \<or> n = 0 then [] else take n xs # chunks_of n (drop n xs))"
  by pat_completeness auto
termination
  by (relation "measure (\<lambda>(n, xs). length xs)") auto

declare chunks_of.simps [simp del]

lemma chunks_of_Nil [simp]: "chunks_of n [] = []"
  by (subst chunks_of.simps) simp

lemma concat_chunks: "0 < n \<Longrightarrow> concat (chunks_of n xs) = xs"
proof (induction n xs rule: chunks_of.induct)
  case (1 n xs)
  then show ?case by (cases "xs = []") (simp_all add: chunks_of.simps [of n xs])
qed

definition packed :: "(string \<Rightarrow> string option) option \<Rightarrow> string \<Rightarrow> string" where
  "packed zl buf = (case zl of None \<Rightarrow> buf | Some z \<Rightarrow> (case z buf of Some b \<Rightarrow> b | None \<Rightarrow> []))"

definition wire_stream :: "(string \<Rightarrow> string option) option \<Rightarrow> nat \<Rightarrow> string \<Rightarrow> string" where
  "wire_stream zl n content = concat (map (packed zl) (chunks_of n content))"

lemma wire_stream_plain: "0 < n \<Longrightarrow> wire_stream None n content = content"
  by (simp add: wire_stream_def packed_def [abs_def] concat_chunks)

lemma wire_stream_Cons:
  "rest \<noteq> [] \<Longrightarrow> 0 < n \<Longrightarrow> wire_stream zl n rest = packed zl (take n rest) @ wire_stream zl n (drop n rest)"
  by (simp add: wire_stream_def chunks_of.simps [of n rest])

definition assembles :: "'srv chunk_server \<Rightarrow> ('srv \<Rightarrow> string) \<Rightarrow> bool" where
  "assembles srv stored \<longleftrightarrow>
     (\<forall>s pl s'. srv s (int (length (stored s))) pl = (Inr (int (length pl)), s') \<longrightarrow> stored s' = stored s @ pl)
     \<and> (\<forall>s pl e s' n. srv s (int (length (stored s))) pl = (Inl e, s') \<longrightarrow> server_offset e = Some n \<longrightarrow>
          (\<exists>k \<le> length pl. n = int (length (stored s)) + int k \<and> stored s' = stored s @ take k pl))"

lemma send_chunk_stores:
  assumes law: "assembles srv stored" and off: "offset = int (length (stored s))"
    and step: "send_chunk_resuming srv offset pl s = ((tries, None), s')"
  shows "stored s' = stored s @ pl"
proof (cases "srv s offset pl")
  case (Pair r s1)
  have accept: "\<And>s pl s'. srv s (int (length (stored s))) pl = (Inr (int (length pl)), s') \<Longrightarrow> stored s' = stored s @ pl"
    and refuse: "\<And>s pl e s' n. srv s (int (length (stored s))) pl = (Inl e, s') \<Longrightarrow> server_offset e = Some n \<Longrightarrow>
          \<exists>k \<le> length pl. n = int (length (stored s)) + int k \<and> stored s' = stored s @ take k pl"
    using law unfolding assembles_def by blast+
  show ?thesis
  proof (cases r)
    case (Inr written)
    then show ?thesis using Pair step accept [of s pl s1] off by (auto simp: send_chunk_resuming_def split: if_splits)
  next
    case (Inl err)
    then obtain n where n: "server_offset err = Some n" using Pair step by (auto simp: send_chunk_resuming_def split: option.splits)
    from refuse [of s pl err s1 n] obtain k where k: "k \<le> length pl" "n = offset + int k" "stored s1 = stored s @ take k pl"
      using Inl Pair off n by auto
    show ?thesis
    proof (cases "k = length pl")
      case True
      then show ?thesis using Pair Inl n k step by (auto simp: send_chunk_resuming_def)
    next
      case False
      then have lt: "\<not> n \<ge> offset + int (length pl)" using k by simp
      then have "n > offset" using Pair Inl n step by (auto simp: send_chunk_resuming_def split: if_splits)
      then have tail: "nat (n - offset) = k" using k(2) by simp
      obtain r2 s2 where r2: "srv s1 n (drop k pl) = (r2, s2)" by fastforce
      then have "r2 = Inr (int (length (drop k pl)))" "s' = s2"
        using Pair Inl n step lt \<open>n > offset\<close> tail
        by (auto simp: send_chunk_resuming_def Let_def split: sum.splits if_splits)
      moreover have "n = int (length (stored s1))" using k off by simp
      ultimately have "stored s' = stored s1 @ drop k pl" using accept r2 by metis
      then show ?thesis using k(3) by simp
    qed
  qed
qed

lemma read_full_cases:
  assumes "read_full n broken rest = (buf, re)" "0 < n"
  shows "buf = take n rest \<and> (buf = [] \<longleftrightarrow> rest = []) \<and> (re \<noteq> ReadOk \<longrightarrow> drop n rest = []) \<and> length buf \<le> n
    \<and> (re = ReadOk \<longrightarrow> length buf = n)"
  using assms by (auto simp: read_full_def split: if_splits)

lemma send_finish_ok:
  "send_finish p st s = ((None, sent, st'), s') \<longleftrightarrow>
     \<not> (p_size p > 0 \<and> ss_source st \<noteq> p_size p) \<and> sent = ss_wire st \<and> st' = st \<and> s' = s"
  by (auto simp: send_finish_def send_error_def)

lemma send_chunks_stores:
  "send_chunks srv zl p broken rest st s = ((None, sent, st'), s') \<Longrightarrow> assembles srv stored \<Longrightarrow>
    ss_wire st = int (length (stored s)) \<Longrightarrow>
    stored s' = stored s @ wire_stream zl (nat (chunk_size p)) rest
    \<and> sent = int (length (stored s')) \<and> (p_size p > 0 \<longrightarrow> ss_source st + int (length rest) = p_size p)"
proof (induction rest arbitrary: st s rule: measure_induct_rule [where f = length])
  case (less rest)
  let ?n = "nat (chunk_size p)"
  obtain buf re where rf: "read_full ?n broken rest = (buf, re)" by fastforce
  note buf = read_full_cases [OF rf chunk_size_pos]
  show ?case
  proof (cases "buf = []")
    case True
    then have "send_finish p st s = ((None, sent, st'), s')"
      using less.prems(1) rf by (subst (asm) send_chunks.simps) (auto simp: send_error_def split: if_splits)
    then show ?thesis using True buf less.prems(3) by (auto simp: send_finish_ok wire_stream_def)
  next
    case False
    then obtain payload where pl: "(case zl of None \<Rightarrow> Some buf | Some z \<Rightarrow> z buf) = Some payload"
      using less.prems(1) rf
      by (subst (asm) send_chunks.simps) (auto simp: send_error_def split: option.splits)
    then have packed: "packed zl buf = payload" by (auto simp: packed_def split: option.splits)
    obtain tries err s1 where sc: "send_chunk_resuming srv (ss_wire st) payload s = ((tries, err), s1)" by (metis prod_cases3 prod.collapse)
    have "err = None"
      using less.prems(1) rf False pl sc
      by (subst (asm) send_chunks.simps) (auto simp: send_error_def Let_def split: option.splits)
    with sc have sc: "send_chunk_resuming srv (ss_wire st) payload s = ((tries, None), s1)" by simp
    have st1: "stored s1 = stored s @ payload" using send_chunk_stores [OF less.prems(2,3) sc] .
    define st2 where "st2 = st\<lparr>ss_chunks := ss_chunks st + tries, ss_source := ss_source st + int (length buf),
      ss_wire := ss_wire st + int (length payload), ss_progress := ss_progress st @ [(ss_source st + int (length buf), p_size p)]\<rparr>"
    have run: "(if re \<noteq> ReadOk then send_finish p st2 s1 else send_chunks srv zl p broken (drop (length buf) rest) st2 s1)
        = ((None, sent, st'), s')"
      using less.prems(1) rf False pl sc by (subst (asm) send_chunks.simps) (simp add: Let_def st2_def split: if_splits)
    have w2: "ss_wire st2 = int (length (stored s1))" using less.prems(3) st1 by (simp add: st2_def)
    have rest: "rest \<noteq> []" using False buf by simp
    note cons = wire_stream_Cons [OF rest chunk_size_pos, of zl p]
    show ?thesis
    proof (cases "re = ReadOk")
      case ok: True
      have lb: "length buf = ?n" using ok buf by blast
      have len: "int (length buf) + int (length (drop ?n rest)) = int (length rest)"
        using lb buf by (metis append_take_drop_id length_append of_nat_add)
      have shorter: "length (drop ?n rest) < length rest" using rest chunk_size_pos by simp
      have "send_chunks srv zl p broken (drop ?n rest) st2 s1 = ((None, sent, st'), s')" using run unfolding lb by (simp add: ok)
      from less.IH [OF shorter this less.prems(2) w2]
      have ih: "stored s' = stored s1 @ wire_stream zl ?n (drop ?n rest)" "sent = int (length (stored s'))"
        "p_size p > 0 \<longrightarrow> ss_source st2 + int (length (drop ?n rest)) = p_size p" by blast+
      have "packed zl (take ?n rest) = payload" using packed buf by simp
      moreover have "ss_source st2 = ss_source st + int (length buf)" by (simp add: st2_def)
      ultimately show ?thesis using ih st1 cons len by (simp, linarith)
    next
      case final: False
      then have d: "drop ?n rest = []" using buf by blast
      then have lb: "length buf = length rest" using buf by simp
      have "packed zl (take ?n rest) = payload" using packed buf by simp
      then have ws: "wire_stream zl ?n rest = payload" using cons d by (simp add: wire_stream_def)
      have "send_finish p st2 s1 = ((None, sent, st'), s')" using run final by simp
      then show ?thesis using ws st1 w2 lb by (simp add: send_finish_ok) (simp add: st2_def)
    qed
  qed
qed

text \<open>C23: A reported upload is complete. Let the server assemble chunks the way it documents: a chunk it counts in
  full continues what it holds, and a refusal that names an offset has kept exactly the part of the chunk up
  to that offset. Then, whichever requests were refused, answered late or cut short, an upload that succeeds
  and was not deduplicated has left on the server exactly the content, chunk by chunk and compressed where
  the server asked for it, with nothing lost, repeated or out of order; the bytes reported as sent are the bytes
  held; and the content had the declared size.\<close>
theorem upload_delivers:
  assumes up: "upload ue p broken content s = ((Inr r, rec, gone), s')" and nd: "\<not> r_dedup r"
    and law: "\<And>fid temp. assembles (ue_server ue fid temp) stored" and empty: "stored s = []"
  shows "stored s' = wire_stream (if r_compressed r then Some (ue_zip ue) else None) (nat (chunk_size p)) content
    \<and> (\<not> r_compressed r \<longrightarrow> stored s' = content) \<and> r_sent r = int (length (stored s'))
    \<and> (p_size p > 0 \<longrightarrow> int (length content) = p_size p) \<and> gone = []"
proof -
  obtain cf where tc: "transfer_content ue p (created_id cf) cf broken content s = (Inr r, s')" and g: "gone = []"
    using up by (auto simp: upload_def Let_def split: option.splits sum.splits prod.splits if_splits)
  then have nh: "\<not> cf_hash_only cf" using nd by (auto simp: transfer_content_def split: option.splits)
  then obtain oper temp sent st where
    sc: "send_chunks (ue_server ue (created_id cf) temp) (if r_compressed r then Some (ue_zip ue) else None) p broken content
      start_sending s = ((None, sent, st), s')" and r: "r_sent r = sent"
    using tc by (auto simp: transfer_content_def Let_def split: option.splits sum.splits prod.splits if_splits)
  have "ss_wire start_sending = int (length (stored s))" by (simp add: start_sending_def empty)
  from send_chunks_stores [OF sc law this]
  have "stored s' = wire_stream (if r_compressed r then Some (ue_zip ue) else None) (nat (chunk_size p)) content"
    "sent = int (length (stored s'))" "p_size p > 0 \<longrightarrow> int (length content) = p_size p"
    by (simp_all add: empty start_sending_def)
  then show ?thesis using g r wire_stream_plain [OF chunk_size_pos, of p content] by simp
qed

text \<open>A server that keeps one byte of the first chunk, loses the answer, and then refuses the repeated chunk.\<close>

definition forgetful_server :: "string chunk_server" where
  "forgetful_server s off pl =
     (if off = 0 \<and> s = [] \<and> length pl > 1 then
        (Inl (Api ((blank_error KindInvalidRequest)\<lparr>upstream_msg := ''Incorrect chunk offset: uploaded=1, chunk_offset=0''\<rparr>)), take 1 pl)
      else if off = int (length s) then (Inr (int (length pl)), s @ pl)
      else (Inl (Plain ''refused''), s))"

lemma forgetful_assembles: "assembles forgetful_server id"
proof -
  have m: "server_offset (Api ((blank_error KindInvalidRequest)\<lparr>upstream_msg := ''Incorrect chunk offset: uploaded=1, chunk_offset=0''\<rparr>)) = Some 1"
    by code_simp
  show ?thesis unfolding assembles_def
  proof (intro conjI allI impI)
    fix s pl s'
    assume "forgetful_server s (int (length (id s))) pl = (Inr (int (length pl)), s')"
    then show "id s' = id s @ pl" by (auto simp: forgetful_server_def split: if_splits)
  next
    fix s pl e s' n
    assume "forgetful_server s (int (length (id s))) pl = (Inl e, s')" and n: "server_offset e = Some n"
    then have "s = []" "length pl > 1" "s' = take 1 pl" "e = Api ((blank_error KindInvalidRequest)\<lparr>upstream_msg := ''Incorrect chunk offset: uploaded=1, chunk_offset=0''\<rparr>)"
      by (auto simp: forgetful_server_def split: if_splits)
    then show "\<exists>k \<le> length pl. n = int (length (id s)) + int k \<and> id s' = id s @ take k pl"
      using m n by (intro exI [of _ 1]) auto
  qed
qed

definition sample_params :: upload_params where
  "sample_params = \<lparr>p_folder = [], p_name = ''a.txt'', p_size = 4, p_hash = [], p_mtime = None, p_open_if_exists = False,
     p_chunk_size = 0, p_access_folder = [], p_sharing = [], p_keep = False\<rparr>"

definition sample_upload :: "string upload_env" where
  "sample_upload = \<lparr>ue_create = (\<lambda>_. Inr \<lparr>cf_id = ''F1'', cf_id_upper = [], cf_temp = ''t1'', cf_compress = False, cf_hash_only = False\<rparr>),
     ue_open = (\<lambda>_. Inr \<lparr>of_temp = [], of_compress = False\<rparr>), ue_server = (\<lambda>_ _. forgetful_server), ue_zip = Some, ue_md5 = (\<lambda>_. ''m''),
     ue_close = (\<lambda>_. None)\<rparr>"

lemma upload_delivers_witness:
  "\<exists>r s'. upload sample_upload sample_params False ''abcd'' [] = ((Inr r, Some (''F1'', ''t1''), []), s') \<and> s' = ''abcd'' \<and> r_chunks r = 2"
proof -
  have n: "nat (chunk_size sample_params) = 52428800"
    by (simp add: chunk_size_def sample_params_def min_chunk_size_def default_chunk_size_def)
  have v: "validate_upload sample_params = None" by (simp add: validate_upload_def sample_params_def) code_simp
  have m: "server_offset (Api ((blank_error KindInvalidRequest)\<lparr>upstream_msg := ''Incorrect chunk offset: uploaded=1, chunk_offset=0''\<rparr>)) = Some 1"
    by code_simp
  have rf: "read_full (nat (chunk_size sample_params)) False ''abcd'' = (''abcd'', ReadShort)" by (simp add: read_full_def n)
  have sc: "send_chunk_resuming forgetful_server 0 ''abcd'' [] = ((2, None), ''abcd'')"
    by (simp add: send_chunk_resuming_def forgetful_server_def m)
  obtain st where st: "send_chunks forgetful_server None sample_params False ''abcd'' start_sending [] = ((None, 4, st), ''abcd'')"
      "ss_chunks st = 2"
    using rf sc by (subst (asm) send_chunks.simps) (simp add: start_sending_def Let_def send_finish_def sample_params_def)
  then have "\<exists>r s'. upload sample_upload sample_params False ''abcd'' [] = ((Inr r, Some (''F1'', ''t1''), []), s') \<and> \<not> r_dedup r \<and> \<not> r_compressed r \<and> r_chunks r = 2"
    using v by (simp add: upload_def sample_upload_def transfer_content_def created_id_def Let_def)
  then obtain r s' where u: "upload sample_upload sample_params False ''abcd'' [] = ((Inr r, Some (''F1'', ''t1''), []), s')"
    and f: "\<not> r_dedup r" "\<not> r_compressed r" "r_chunks r = 2" by blast
  have "assembles (ue_server sample_upload fid temp) id" for fid temp by (simp add: sample_upload_def forgetful_assembles)
  from upload_delivers [OF u f(1) this] f u show ?thesis by auto
qed

text \<open>A failed upload leaves nothing behind. Once the record exists it is announced before anything else
  happens, and if the upload then fails its deletion is requested, unless the caller keeps it or it may have been
  there before; an upload that succeeds deletes nothing, and without a record there is nothing to delete. A
  deduplicated upload is closed without a temp location.\<close>
theorem failed_upload_reclaims:
  assumes "upload ue p broken content s = ((res, rec, gone), s')"
  shows "(\<forall>fid temp e. rec = Some (fid, temp) \<and> res = Inl e \<longrightarrow>
            fid \<noteq> [] \<and> gone = (if p_keep p \<or> p_open_if_exists p then [] else [fid]))
    \<and> (rec = None \<longrightarrow> gone = [] \<and> \<not> is_ok res)
    \<and> (\<forall>r. res = Inr r \<longrightarrow> gone = [] \<and> (\<exists>fid temp. rec = Some (fid, temp) \<and> fid \<noteq> []
           \<and> (r_dedup r \<longrightarrow> ue_close ue (close_file_body fid [] p False) = None)))
    \<and> ''temp_location'' \<notin> fst ` set (close_file_body fid0 [] p c)"
proof -
  have close: "''temp_location'' \<notin> fst ` set (close_file_body fid0 [] p c)"
    by (auto simp: close_file_body_def hash_field_def optional_fields_def split: option.splits if_splits)
  have dedup: "transfer_content ue p fid cf broken content s = (Inr r, s1) \<Longrightarrow> r_dedup r \<Longrightarrow>
      ue_close ue (close_file_body fid [] p False) = None" for fid cf r s1
    by (auto simp: transfer_content_def Let_def split: option.splits sum.splits prod.splits if_splits)
  show ?thesis using assms close dedup
    by (auto simp: upload_def reclaim_orphan_def Let_def split: option.splits sum.splits prod.splits if_splits)
qed

lemma failed_upload_reclaims_witness:
  "\<exists>e s'. upload (sample_upload\<lparr>ue_close := (\<lambda>_. Some (Plain ''gone''))\<rparr>) (sample_params\<lparr>p_size := 0\<rparr>) False [] []
     = ((Inl e, Some (''F1'', ''t1''), [''F1'']), s')"
proof -
  let ?u = "sample_upload\<lparr>ue_close := (\<lambda>_. Some (Plain ''gone''))\<rparr>" and ?p = "sample_params\<lparr>p_size := 0\<rparr>"
  have v: "validate_upload ?p = None" by (simp add: validate_upload_def sample_params_def) code_simp
  have "send_chunks forgetful_server None ?p False [] start_sending [] = ((None, 0, start_sending), [])"
    by (subst send_chunks.simps) (simp add: read_full_def send_finish_def start_sending_def)
  then have "\<exists>gone s'. upload ?u ?p False [] [] = ((Inl (Plain ''gone''), Some (''F1'', ''t1''), gone), s')"
    using v by (simp add: upload_def sample_upload_def transfer_content_def created_id_def Let_def)
  then obtain gone s' where u: "upload ?u ?p False [] [] = ((Inl (Plain ''gone''), Some (''F1'', ''t1''), gone), s')" by blast
  from failed_upload_reclaims [OF u] have "gone = [''F1'']" by (simp add: sample_params_def)
  with u show ?thesis by blast
qed

end
