(* ===== verification/Auth.thy ===== *)
theory Auth
  imports Client
begin

text \<open>
  \<open>pkg/opendrive/auth.go\<close>: what the two authenticators share. Tokens and stored credentials with their clock
  predicates, the credential store as an interface (a locale) with the in-memory store as its first
  provider, the renewal gate with its backoff, the options, and the machine both authenticators keep: the credentials in
  memory, whether the store has been read, the gate and the store.

  A zero \<open>time.Time\<close> is \<open>None\<close>. \<open>au_sent\<close> is not in the code: it is the trace of the requests sent upstream, so that
  a theorem can say that nothing was sent.
\<close>

section \<open>Constants\<close>

definition seconds :: "int \<Rightarrow> int" where
  "seconds n = n * 1000000000"

definition default_client_id :: string where
  "default_client_id = ''OpenDrive''"

definition default_access_ttl :: int where
  "default_access_ttl = seconds 86400"

definition default_refresh_ttl :: int where
  "default_refresh_ttl = 30 * seconds 86400"

definition default_refresh_skew :: int where
  "default_refresh_skew = 5 * seconds 60"

definition default_renew_interval :: int where
  "default_renew_interval = 7 * seconds 86400"

definition session_login_version :: string where
  "session_login_version = ''10''"

definition max_renew_backoff :: int where
  "max_renew_backoff = 15 * seconds 60"

definition base_renew_backoff :: int where
  "base_renew_backoff = seconds 5"

lemmas auth_constants = seconds_def default_access_ttl_def default_refresh_ttl_def default_refresh_skew_def
  default_renew_interval_def max_renew_backoff_def base_renew_backoff_def

datatype auth_state =
    StateNotConfigured | StateAuthenticated | StateRefreshing | StateReauthRequired | StateCaptchaRequired
  | StateKeystoreUnavailable

definition parked :: "auth_state \<Rightarrow> bool" where
  "parked s \<longleftrightarrow> s = StateReauthRequired \<or> s = StateCaptchaRequired"

lemma parked_simps [simp]:
  "parked StateReauthRequired" "parked StateCaptchaRequired" "\<not> parked StateAuthenticated"
  "\<not> parked StateRefreshing" "\<not> parked StateNotConfigured" "\<not> parked StateKeystoreUnavailable"
  by (simp_all add: parked_def)

definition mode_oauth2 :: string where
  "mode_oauth2 = ''oauth2''"

definition mode_session :: string where
  "mode_session = ''session''"

section \<open>Tokens and stored credentials\<close>

record token =
  t_access :: string
  t_refresh :: string
  t_issued :: "gotime option"
  t_expiry :: "gotime option"
  t_refresh_expiry :: "gotime option"

definition token_valid :: "token option \<Rightarrow> gotime \<Rightarrow> bool" where
  "token_valid t now =
     (case t of None \<Rightarrow> False
      | Some t \<Rightarrow> t_access t \<noteq> [] \<and> (case t_expiry t of None \<Rightarrow> True | Some e \<Rightarrow> now < e))"

definition needs_refresh :: "token option \<Rightarrow> gotime \<Rightarrow> int \<Rightarrow> bool" where
  "needs_refresh t now skew =
     (case t of None \<Rightarrow> True
      | Some t \<Rightarrow> if t_access t = [] then True
                 else case t_expiry t of None \<Rightarrow> False | Some e \<Rightarrow> \<not> now < e - skew)"

definition refresh_usable :: "token option \<Rightarrow> gotime \<Rightarrow> bool" where
  "refresh_usable t now =
     (case t of None \<Rightarrow> False
      | Some t \<Rightarrow> t_refresh t \<noteq> [] \<and> (case t_refresh_expiry t of None \<Rightarrow> True | Some e \<Rightarrow> now < e))"

text \<open>\<open>time.Time.Sub\<close> saturates; the division by two truncates.\<close>

definition saturate :: "int \<Rightarrow> int" where
  "saturate d = max (- (2 ^ 63)) (min (2 ^ 63 - 1) d)"

definition half :: "int \<Rightarrow> int" where
  "half d = (if d < 0 then - (- d div 2) else d div 2)"

definition stale_for_renewal :: "token option \<Rightarrow> gotime \<Rightarrow> int \<Rightarrow> bool" where
  "stale_for_renewal t now interval =
     (case t of None \<Rightarrow> True
      | Some t \<Rightarrow>
          if t_access t = [] then True
          else case t_issued t of
            None \<Rightarrow> False
          | Some i \<Rightarrow>
              if interval > 0 \<and> saturate (now - i) \<ge> interval then True
              else case t_expiry t of None \<Rightarrow> False | Some e \<Rightarrow> \<not> now < i + half (saturate (e - i)))"

record stored =
  st_username :: string
  st_password :: string
  st_token :: "token option"
  st_session :: string
  st_mode :: string
  st_user :: string
  st_acc :: int
  st_updated :: "gotime option"

record identity =
  id_username :: string
  id_user :: string
  id_acc :: int
  id_mode :: string
  id_seamless :: bool

definition no_identity :: "string \<Rightarrow> identity" where
  "no_identity m = \<lparr>id_username = [], id_user = [], id_acc = 0, id_mode = m, id_seamless = False\<rparr>"

definition configured :: "identity \<Rightarrow> bool" where
  "configured i \<longleftrightarrow> id_username i \<noteq> []"

section \<open>The credential store\<close>

datatype load_answer = Loaded stored | NoCredentials | LoadFailed go_error

record 's cred_ops =
  cs_load :: "'s \<Rightarrow> load_answer \<times> 's"
  cs_save :: "stored \<Rightarrow> 's \<Rightarrow> go_error option \<times> 's"
  cs_delete :: "'s \<Rightarrow> go_error option \<times> 's"

text \<open>
  What the SDK relies on. \<open>contents\<close> is what a load finds when reading does not fail. \<open>image\<close> is what is left of credentials
  that went through the store: a store on disk keeps fewer fields and coarser times than memory does. \<open>storable\<close> are the
  credentials the store can represent.
\<close>

locale cred_store =
  fixes ops :: "'s cred_ops"
    and contents :: "'s \<Rightarrow> load_answer"
    and image :: "stored \<Rightarrow> stored"
    and storable :: "stored \<Rightarrow> bool"
    and valid :: "'s \<Rightarrow> bool"
  assumes load_valid: "valid s \<Longrightarrow> valid (snd (cs_load ops s))"
    and save_valid: "valid s \<Longrightarrow> storable c \<Longrightarrow> valid (snd (cs_save ops c s))"
    and delete_valid: "valid s \<Longrightarrow> valid (snd (cs_delete ops s))"
    and load_reads: "valid s \<Longrightarrow> fst (cs_load ops s) = contents s \<or> (\<exists>e. fst (cs_load ops s) = LoadFailed e)"
    and load_keeps: "valid s \<Longrightarrow> contents (snd (cs_load ops s)) = contents s"
    and save_ok: "valid s \<Longrightarrow> storable c \<Longrightarrow> fst (cs_save ops c s) = None \<Longrightarrow>
          contents (snd (cs_save ops c s)) = Loaded (image c)"
    and failed_save: "valid s \<Longrightarrow> storable c \<Longrightarrow> fst (cs_save ops c s) \<noteq> None \<Longrightarrow>
          contents (snd (cs_save ops c s)) = contents s \<or> contents (snd (cs_save ops c s)) = Loaded (image c)"
    and delete_ok: "valid s \<Longrightarrow> fst (cs_delete ops s) = None \<Longrightarrow> contents (snd (cs_delete ops s)) = NoCredentials"
    and failed_delete: "valid s \<Longrightarrow> fst (cs_delete ops s) \<noteq> None \<Longrightarrow> contents (snd (cs_delete ops s)) = contents s"
    and image_keeps: "storable c \<Longrightarrow> st_username (image c) = st_username c \<and> st_password (image c) = st_password c
          \<and> st_session (image c) = st_session c
          \<and> map_option t_access (st_token (image c)) = map_option t_access (st_token c)
          \<and> map_option t_refresh (st_token (image c)) = map_option t_refresh (st_token c)"
begin

text \<open>A save, successful or not, leaves the old credentials or the new ones: nothing in between.\<close>

lemma save_old_or_new:
  "valid s \<Longrightarrow> storable c \<Longrightarrow> contents (snd (cs_save ops c s)) \<in> {contents s, Loaded (image c)}"
  using save_ok failed_save by (cases "fst (cs_save ops c s)") auto

end

section \<open>The in-memory store\<close>

type_synonym memory_creds = "stored option"

definition mcs_contents :: "memory_creds \<Rightarrow> load_answer" where
  "mcs_contents s = (case s of None \<Rightarrow> NoCredentials | Some c \<Rightarrow> Loaded c)"

definition mcs_load :: "memory_creds \<Rightarrow> load_answer \<times> memory_creds" where
  "mcs_load s = (case s of None \<Rightarrow> (NoCredentials, s) | Some c \<Rightarrow> (Loaded c, s))"

definition mcs_save :: "stored \<Rightarrow> memory_creds \<Rightarrow> go_error option \<times> memory_creds" where
  "mcs_save c s = (None, Some c)"

definition mcs_delete :: "memory_creds \<Rightarrow> go_error option \<times> memory_creds" where
  "mcs_delete s = (None, None)"

definition mcs_ops :: "memory_creds cred_ops" where
  "mcs_ops = \<lparr>cs_load = mcs_load, cs_save = mcs_save, cs_delete = mcs_delete\<rparr>"

lemma mcs_ops_simps [simp]:
  "cs_load mcs_ops = mcs_load" "cs_save mcs_ops = mcs_save" "cs_delete mcs_ops = mcs_delete"
  by (simp_all add: mcs_ops_def)

interpretation mcs: cred_store mcs_ops mcs_contents "\<lambda>c. c" "\<lambda>_. True" "\<lambda>_. True"
  by unfold_locales (simp_all add: mcs_contents_def mcs_load_def mcs_save_def mcs_delete_def split: option.split)

section \<open>The renewal gate\<close>

record renew_gate =
  g_state :: auth_state
  g_last :: "api_error option"
  g_attempts :: nat
  g_next :: "gotime option"

definition new_gate :: renew_gate where
  "new_gate = \<lparr>g_state = StateNotConfigured, g_last = None, g_attempts = 0, g_next = None\<rparr>"

definition gate_terminal :: "auth_state \<Rightarrow> api_error \<Rightarrow> renew_gate \<Rightarrow> renew_gate" where
  "gate_terminal st e g = g\<lparr>g_state := st, g_last := Some e, g_attempts := 0, g_next := None\<rparr>"

definition backoff_wait :: "nat \<Rightarrow> int" where
  "backoff_wait attempts =
     (let wait = wrap64 (base_renew_backoff * 2 ^ (min (attempts - 1) 8))
      in if wait > max_renew_backoff \<or> wait \<le> 0 then max_renew_backoff else wait)"

definition gate_backoff :: "gotime \<Rightarrow> api_error \<Rightarrow> renew_gate \<Rightarrow> renew_gate" where
  "gate_backoff now e g =
     (let n = Suc (g_attempts g) in
      g\<lparr>g_state := StateRefreshing, g_last := Some e, g_attempts := n, g_next := Some (now + backoff_wait n)\<rparr>)"

definition gate_succeed :: "renew_gate \<Rightarrow> renew_gate" where
  "gate_succeed g = g\<lparr>g_state := StateAuthenticated, g_last := None, g_attempts := 0, g_next := None\<rparr>"

definition gate_reset :: "renew_gate \<Rightarrow> renew_gate" where
  "gate_reset g = g\<lparr>g_state := StateAuthenticated, g_last := None, g_attempts := 0, g_next := None\<rparr>"

definition gate_blocked :: "gotime \<Rightarrow> renew_gate \<Rightarrow> api_error option" where
  "gate_blocked now g =
     (case g_state g of
        StateReauthRequired \<Rightarrow> g_last g
      | StateCaptchaRequired \<Rightarrow> g_last g
      | StateKeystoreUnavailable \<Rightarrow> g_last g
      | _ \<Rightarrow>
          case g_next g of
            None \<Rightarrow> None
          | Some t \<Rightarrow> if now < t then g_last g else None)"

lemma gate_simps [simp]:
  "g_state new_gate = StateNotConfigured" "g_last new_gate = None" "g_next new_gate = None"
  "g_state (gate_terminal st e g) = st" "g_last (gate_terminal st e g) = Some e"
  "g_next (gate_terminal st e g) = None"
  "g_state (gate_backoff now e g) = StateRefreshing" "g_last (gate_backoff now e g) = Some e"
  "g_state (gate_succeed g) = StateAuthenticated" "g_last (gate_succeed g) = None"
  "g_next (gate_succeed g) = None"
  "g_state (gate_reset g) = StateAuthenticated" "g_last (gate_reset g) = None" "g_next (gate_reset g) = None"
  by (simp_all add: new_gate_def gate_terminal_def gate_backoff_def gate_succeed_def gate_reset_def Let_def)

lemma backoff_wait_alt:
  "backoff_wait n = (if n - 1 \<le> 7 then seconds (5 * 2 ^ (n - 1)) else max_renew_backoff)"
proof -
  have le: "min (n - 1) 8 \<le> 8" by simp
  consider "n - 1 = 0" | "n - 1 = 1" | "n - 1 = 2" | "n - 1 = 3" | "n - 1 = 4" | "n - 1 = 5" | "n - 1 = 6"
    | "n - 1 = 7" | "n - 1 \<ge> 8" by linarith
  then show ?thesis
    by cases (simp_all add: backoff_wait_def auth_constants wrap64_def Let_def)
qed

lemma backoff_wait_bounds: "seconds 5 \<le> backoff_wait n \<and> backoff_wait n \<le> max_renew_backoff"
proof -
  consider "n - 1 = 0" | "n - 1 = 1" | "n - 1 = 2" | "n - 1 = 3" | "n - 1 = 4" | "n - 1 = 5" | "n - 1 = 6"
    | "n - 1 = 7" | "n - 1 \<ge> 8" by linarith
  then show ?thesis
    by cases (simp_all add: backoff_wait_alt auth_constants)
qed

section \<open>Errors the gate answers with\<close>

definition keystore_error :: "go_error \<Rightarrow> api_error" where
  "keystore_error err =
     (blank_error KindKeystoreUnavailable)\<lparr>
       upstream_msg := ''the credential store is unavailable; sign in again to replace credentials.key'',
       cause := Some OtherCause\<rparr>"

definition reauth_error :: "string \<Rightarrow> api_error" where
  "reauth_error msg = (blank_error KindReauthRequired)\<lparr>upstream_msg := msg\<rparr>"

definition not_configured_error :: api_error where
  "not_configured_error = reauth_error ''the bridge is not configured yet; log in once to store the account''"

section \<open>Configuration\<close>

record auth_config =
  ac_has_store :: bool
  ac_client_id :: string
  ac_skew :: int
  ac_interval :: int
  ac_persist :: bool

definition default_auth_config :: auth_config where
  "default_auth_config =
     \<lparr>ac_has_store = True, ac_client_id = default_client_id, ac_skew = default_refresh_skew,
      ac_interval = default_renew_interval, ac_persist = True\<rparr>"

definition with_client_id :: "string \<Rightarrow> auth_config \<Rightarrow> auth_config" where
  "with_client_id i c = (if i \<noteq> [] then c\<lparr>ac_client_id := i\<rparr> else c)"

definition with_refresh_skew :: "int \<Rightarrow> auth_config \<Rightarrow> auth_config" where
  "with_refresh_skew d c = (if d \<ge> 0 then c\<lparr>ac_skew := d\<rparr> else c)"

definition with_renew_interval :: "int \<Rightarrow> auth_config \<Rightarrow> auth_config" where
  "with_renew_interval d c = (if d > 0 then c\<lparr>ac_interval := d\<rparr> else c)"

definition with_persist_password :: "bool \<Rightarrow> auth_config \<Rightarrow> auth_config" where
  "with_persist_password on c = c\<lparr>ac_persist := on\<rparr>"

section \<open>The machine\<close>

datatype auth_call =
    RefreshGrant string string \<comment> \<open>client id, refresh token\<close>
  | PasswordGrant string string string \<comment> \<open>client id, user name, password\<close>
  | SessionLoginCall string string \<comment> \<open>user name, password\<close>
  | SessionExistsCall string
  | SessionLogoutCall string

text \<open>The calls that spend a credential of the user: the ones that can bring an account closer to a lock.\<close>

definition is_login_call :: "auth_call \<Rightarrow> bool" where
  "is_login_call x =
     (case x of RefreshGrant _ _ \<Rightarrow> True | PasswordGrant _ _ _ \<Rightarrow> True | SessionLoginCall _ _ \<Rightarrow> True
      | _ \<Rightarrow> False)"

record grant_reply =
  gr_access :: string
  gr_refresh :: string
  gr_expires :: int
  gr_refresh_expires :: int

record session_reply =
  sr_session :: string
  sr_user :: string
  sr_acc :: int

definition no_session_reply :: session_reply where
  "no_session_reply = \<lparr>sr_session = [], sr_user = [], sr_acc = 0\<rparr>"

text \<open>What the outside does during one call: the readings of the clock in their order, and the answers upstream gives.\<close>

record auth_io =
  io_check :: gotime
  io_renew :: gotime
  io_token :: gotime
  io_adopt :: gotime
  io_grant :: "auth_call \<Rightarrow> go_error + grant_reply"
  io_login :: "auth_call \<Rightarrow> go_error + session_reply"
  io_exists :: "auth_call \<Rightarrow> go_error + bool"

record 's auth_machine =
  au_cred :: "stored option"
  au_loaded :: bool
  au_gate :: renew_gate
  au_store :: 's
  au_sent :: "auth_call list"

definition new_machine :: "'s \<Rightarrow> 's auth_machine" where
  "new_machine s = \<lparr>au_cred = None, au_loaded = False, au_gate = new_gate, au_store = s, au_sent = []\<rparr>"

definition auth_state_of :: "'s auth_machine \<Rightarrow> auth_state" where
  "auth_state_of m = g_state (au_gate m)"

definition on_gate :: "(renew_gate \<Rightarrow> renew_gate) \<Rightarrow> 's auth_machine \<Rightarrow> 's auth_machine" where
  "on_gate f m = m\<lparr>au_gate := f (au_gate m)\<rparr>"

definition set_auth_state :: "auth_state \<Rightarrow> 's auth_machine \<Rightarrow> 's auth_machine" where
  "set_auth_state st m = on_gate (\<lambda>g. g\<lparr>g_state := st\<rparr>) m"

definition sending :: "auth_call \<Rightarrow> 's auth_machine \<Rightarrow> 's auth_machine" where
  "sending x m = m\<lparr>au_sent := au_sent m @ [x]\<rparr>"

text \<open>\<open>adopt\<close>, the same in both authenticators: persist first, then take over in memory.\<close>

definition adopt :: "'s cred_ops \<Rightarrow> auth_config \<Rightarrow> gotime \<Rightarrow> stored \<Rightarrow> 's auth_machine \<Rightarrow> 's auth_machine" where
  "adopt ops cfg now cred m =
     (let cred1 = cred\<lparr>st_updated := Some now\<rparr>;
          cred2 = (if ac_persist cfg then cred1 else cred1\<lparr>st_password := []\<rparr>);
          m1 = (if ac_has_store cfg then m\<lparr>au_store := snd (cs_save ops cred2 (au_store m))\<rparr> else m)
      in m1\<lparr>au_cred := Some cred2, au_loaded := True\<rparr>)"

text \<open>\<open>ensureLoaded\<close>, up to the question which credentials are usable.\<close>

definition load_once :: "(stored \<Rightarrow> bool) \<Rightarrow> 's cred_ops \<Rightarrow> auth_config \<Rightarrow> 's auth_machine \<Rightarrow> api_error option \<times> 's auth_machine" where
  "load_once usable ops cfg m =
     (if au_loaded m \<or> \<not> ac_has_store cfg then (None, m\<lparr>au_loaded := True\<rparr>)
      else case cs_load ops (au_store m) of
        (NoCredentials, s) \<Rightarrow> (None, set_auth_state StateNotConfigured (m\<lparr>au_loaded := True, au_store := s\<rparr>))
      | (LoadFailed err, s) \<Rightarrow>
          (Some (keystore_error err),
           on_gate (gate_terminal StateKeystoreUnavailable (keystore_error err)) (m\<lparr>au_store := s\<rparr>))
      | (Loaded cred, s) \<Rightarrow>
          let m1 = m\<lparr>au_loaded := True, au_cred := Some cred, au_store := s\<rparr>
          in (None, if usable cred then set_auth_state StateAuthenticated m1 else m1))"

lemma machine_simps [simp]:
  "au_cred (on_gate f m) = au_cred m" "au_loaded (on_gate f m) = au_loaded m"
  "au_gate (on_gate f m) = f (au_gate m)" "au_store (on_gate f m) = au_store m" "au_sent (on_gate f m) = au_sent m"
  "au_cred (set_auth_state st m) = au_cred m" "au_loaded (set_auth_state st m) = au_loaded m"
  "au_gate (set_auth_state st m) = (au_gate m)\<lparr>g_state := st\<rparr>" "au_store (set_auth_state st m) = au_store m"
  "au_sent (set_auth_state st m) = au_sent m"
  "au_cred (sending x m) = au_cred m" "au_loaded (sending x m) = au_loaded m" "au_gate (sending x m) = au_gate m"
  "au_store (sending x m) = au_store m" "au_sent (sending x m) = au_sent m @ [x]"
  by (simp_all add: on_gate_def set_auth_state_def sending_def)

lemma adopt_simps [simp]:
  "au_loaded (adopt ops cfg now cred m)" "au_gate (adopt ops cfg now cred m) = au_gate m"
  "au_sent (adopt ops cfg now cred m) = au_sent m"
  "au_cred (adopt ops cfg now cred m) =
     Some (if ac_persist cfg then cred\<lparr>st_updated := Some now\<rparr> else cred\<lparr>st_updated := Some now, st_password := []\<rparr>)"
  by (simp_all add: adopt_def Let_def)

end
