(* ===== verification/Oauth2.thy ===== *)
theory Oauth2
  imports Auth
begin

text \<open>
  \<open>pkg/opendrive/oauth2.go\<close>: the OAuth2 authenticator. Every operation holds the one lock from beginning to end and is
  one step here; \<open>SessionID\<close> gives the lock up while it logs in, and is two. A run is any sequence of
  such steps, with any answers from upstream and any readings of the clock.
\<close>

section \<open>Grants\<close>

definition token_from :: "gotime \<Rightarrow> grant_reply \<Rightarrow> string \<Rightarrow> go_error + token" where
  "token_from now g fallback =
     (if gr_access g = [] then
        Inl (Api ((blank_error KindInvalidResponse)\<lparr>upstream_msg := ''grant response carried no access_token''\<rparr>))
      else
        let ttl0 = wrap64 (gr_expires g * seconds 1);
            ttl = (if ttl0 \<le> 0 then default_access_ttl else ttl0);
            refresh = (if gr_refresh g = [] then fallback else gr_refresh g);
            rttl0 = wrap64 (gr_refresh_expires g * seconds 1);
            rttl = (if rttl0 \<le> 0 then default_refresh_ttl else rttl0)
        in Inr \<lparr>t_access = gr_access g, t_refresh = refresh, t_issued = Some now, t_expiry = Some (now + ttl),
               t_refresh_expiry = Some (now + rttl)\<rparr>)"

definition password_grant :: "auth_config \<Rightarrow> auth_io \<Rightarrow> string \<Rightarrow> string \<Rightarrow> 's auth_machine \<Rightarrow> (go_error + token) \<times> 's auth_machine" where
  "password_grant cfg io user pw m =
     (let call = PasswordGrant (ac_client_id cfg) user pw in
      (case io_grant io call of Inl e \<Rightarrow> Inl e | Inr g \<Rightarrow> token_from (io_token io) g [], sending call m))"

definition refresh_grant :: "auth_config \<Rightarrow> auth_io \<Rightarrow> string \<Rightarrow> 's auth_machine \<Rightarrow> (go_error + token) \<times> 's auth_machine" where
  "refresh_grant cfg io refresh m =
     (let call = RefreshGrant (ac_client_id cfg) refresh in
      (case io_grant io call of Inl e \<Rightarrow> Inl e | Inr g \<Rightarrow> token_from (io_token io) g refresh, sending call m))"

section \<open>Renewal\<close>

text \<open>\<open>classifyRenewFailure\<close>: \<open>None\<close> when the next rung of the ladder is to be tried.\<close>

definition classify_renew_failure :: "gotime \<Rightarrow> go_error \<Rightarrow> renew_gate \<Rightarrow> api_error option \<times> renew_gate" where
  "classify_renew_failure now err g =
     (case as_api err of
        None \<Rightarrow> (let e = (blank_error KindNetwork)\<lparr>cause := Some OtherCause\<rparr> in (Some e, gate_backoff now e g))
      | Some ae \<Rightarrow>
          if \<not> drives_auth (Some ae) then (Some ae, gate_backoff now ae g)
          else case kind ae of
            KindReauthRequired \<Rightarrow>
              (let e = reauth_error ''upstream rejected the stored credentials; the password has probably changed''
               in (Some e, gate_terminal StateReauthRequired e g))
          | KindCaptchaRequired \<Rightarrow> (Some ae, gate_terminal StateCaptchaRequired ae g)
          | KindRefreshTokenFailed \<Rightarrow> (None, g)
          | KindTokenExpired \<Rightarrow> (None, g)
          | _ \<Rightarrow> (Some ae, gate_backoff now ae g))"

definition renewed :: "'s cred_ops \<Rightarrow> auth_config \<Rightarrow> auth_io \<Rightarrow> stored \<Rightarrow> token \<Rightarrow> 's auth_machine \<Rightarrow> api_error option \<times> 's auth_machine" where
  "renewed ops cfg io cred tok m =
     (None, on_gate gate_succeed (adopt ops cfg (io_adopt io) (cred\<lparr>st_token := Some tok\<rparr>) m))"

definition password_rung :: "'s cred_ops \<Rightarrow> auth_config \<Rightarrow> auth_io \<Rightarrow> stored \<Rightarrow> 's auth_machine \<Rightarrow> api_error option \<times> 's auth_machine" where
  "password_rung ops cfg io cred m =
     (if st_password cred = [] then
        let e = reauth_error ''the stored refresh token is no longer valid and no password is stored; log in again''
        in (Some e, on_gate (gate_terminal StateReauthRequired e) m)
      else case password_grant cfg io (st_username cred) (st_password cred) m of
        (Inr tok, m1) \<Rightarrow> renewed ops cfg io cred tok m1
      | (Inl err, m1) \<Rightarrow>
          case classify_renew_failure (io_renew io) err (au_gate m1) of
            (Some fatal, g) \<Rightarrow> (Some fatal, m1\<lparr>au_gate := g\<rparr>)
          | (None, g) \<Rightarrow>
              let e = reauth_error ''upstream rejected the stored credentials; provide the current password''
              in (Some e, m1\<lparr>au_gate := gate_terminal StateReauthRequired e g\<rparr>))"

text \<open>\<open>renewLocked\<close>. The callers have made sure that there are credentials.\<close>

definition oa_renew :: "'s cred_ops \<Rightarrow> auth_config \<Rightarrow> auth_io \<Rightarrow> stored \<Rightarrow> 's auth_machine \<Rightarrow> api_error option \<times> 's auth_machine" where
  "oa_renew ops cfg io cred m =
     (case gate_blocked (io_renew io) (au_gate m) of
        Some e \<Rightarrow> (Some e, m)
      | None \<Rightarrow>
          let m0 = set_auth_state StateRefreshing m in
          case st_token cred of
            None \<Rightarrow> password_rung ops cfg io cred m0
          | Some t \<Rightarrow>
              if \<not> refresh_usable (Some t) (io_renew io) then password_rung ops cfg io cred m0
              else case refresh_grant cfg io (t_refresh t) m0 of
                (Inr tok, m1) \<Rightarrow> renewed ops cfg io cred tok m1
              | (Inl err, m1) \<Rightarrow>
                  case classify_renew_failure (io_renew io) err (au_gate m1) of
                    (Some fatal, g) \<Rightarrow> (Some fatal, m1\<lparr>au_gate := g\<rparr>)
                  | (None, g) \<Rightarrow> password_rung ops cfg io cred (m1\<lparr>au_gate := g\<rparr>))"

section \<open>The operations\<close>

definition oa_usable :: "stored \<Rightarrow> bool" where
  "oa_usable c \<longleftrightarrow> st_token c \<noteq> None \<or> st_password c \<noteq> []"

definition oa_ensure_loaded :: "'s cred_ops \<Rightarrow> auth_config \<Rightarrow> 's auth_machine \<Rightarrow> api_error option \<times> 's auth_machine" where
  "oa_ensure_loaded = load_once oa_usable"

definition not_configured :: "'s auth_machine \<Rightarrow> api_error option \<times> 's auth_machine" where
  "not_configured m = (Some not_configured_error, set_auth_state StateNotConfigured m)"

definition oa_login :: "'s cred_ops \<Rightarrow> auth_config \<Rightarrow> auth_io \<Rightarrow> string \<Rightarrow> string \<Rightarrow> 's auth_machine \<Rightarrow> go_error option \<times> 's auth_machine" where
  "oa_login ops cfg io user pw m =
     (case password_grant cfg io user pw m of
        (Inl err, m1) \<Rightarrow> (Some err, m1)
      | (Inr tok, m1) \<Rightarrow>
          let cred = \<lparr>st_username = user, st_password = (if ac_persist cfg then pw else []), st_token = Some tok,
                      st_session = [], st_mode = mode_oauth2,
                      st_user = (case au_cred m1 of None \<Rightarrow> [] | Some c \<Rightarrow> st_user c),
                      st_acc = (case au_cred m1 of None \<Rightarrow> 0 | Some c \<Rightarrow> st_acc c), st_updated = None\<rparr>
          in (None, on_gate gate_reset (adopt ops cfg (io_adopt io) cred (m1\<lparr>au_loaded := True\<rparr>))))"

definition access_of :: "stored \<Rightarrow> string" where
  "access_of c = (case st_token c of None \<Rightarrow> [] | Some t \<Rightarrow> t_access t)"

definition oa_credentials :: "'s cred_ops \<Rightarrow> auth_config \<Rightarrow> auth_io \<Rightarrow> 's auth_machine \<Rightarrow> (api_error + credentials) \<times> 's auth_machine" where
  "oa_credentials ops cfg io m =
     (case oa_ensure_loaded ops cfg m of
        (Some e, m1) \<Rightarrow> (Inl e, m1)
      | (None, m1) \<Rightarrow>
          let hand = (\<lambda>m. (Inr \<lparr>cr_session = oauth_session_id,
                               cr_token = (case au_cred m of None \<Rightarrow> [] | Some c \<Rightarrow> access_of c)\<rparr>, m)) in
          case au_cred m1 of
            None \<Rightarrow> (Inl not_configured_error, set_auth_state StateNotConfigured m1)
          | Some cred \<Rightarrow>
              if \<not> oa_usable cred then (Inl not_configured_error, set_auth_state StateNotConfigured m1)
              else if needs_refresh (st_token cred) (io_check io) (ac_skew cfg) then
                case oa_renew ops cfg io cred m1 of
                  (Some e, m2) \<Rightarrow> (Inl e, m2)
                | (None, m2) \<Rightarrow> hand m2
              else hand (if auth_state_of m1 \<noteq> StateAuthenticated then on_gate gate_succeed m1 else m1))"

definition renew_or_not_configured :: "'s cred_ops \<Rightarrow> auth_config \<Rightarrow> auth_io \<Rightarrow> 's auth_machine \<Rightarrow> api_error option \<times> 's auth_machine" where
  "renew_or_not_configured ops cfg io m =
     (case au_cred m of
        None \<Rightarrow> not_configured m
      | Some cred \<Rightarrow> if \<not> oa_usable cred then not_configured m else oa_renew ops cfg io cred m)"

definition oa_refresh :: "'s cred_ops \<Rightarrow> auth_config \<Rightarrow> auth_io \<Rightarrow> 's auth_machine \<Rightarrow> api_error option \<times> 's auth_machine" where
  "oa_refresh ops cfg io m =
     (case oa_ensure_loaded ops cfg m of
        (Some e, m1) \<Rightarrow> (Some e, m1)
      | (None, m1) \<Rightarrow> renew_or_not_configured ops cfg io m1)"

definition oa_refresh_stale :: "'s cred_ops \<Rightarrow> auth_config \<Rightarrow> auth_io \<Rightarrow> string \<Rightarrow> 's auth_machine \<Rightarrow> api_error option \<times> 's auth_machine" where
  "oa_refresh_stale ops cfg io stale m =
     (case oa_ensure_loaded ops cfg m of
        (Some e, m1) \<Rightarrow> (Some e, m1)
      | (None, m1) \<Rightarrow>
          if stale \<noteq> [] \<and> (case au_cred m1 of None \<Rightarrow> False
                            | Some c \<Rightarrow> case st_token c of None \<Rightarrow> False | Some t \<Rightarrow> t_access t \<noteq> stale)
          then (None, m1) else renew_or_not_configured ops cfg io m1)"

definition oa_ensure_fresh :: "'s cred_ops \<Rightarrow> auth_config \<Rightarrow> auth_io \<Rightarrow> 's auth_machine \<Rightarrow> api_error option \<times> 's auth_machine" where
  "oa_ensure_fresh ops cfg io m =
     (case oa_ensure_loaded ops cfg m of
        (Some e, m1) \<Rightarrow> (Some e, m1)
      | (None, m1) \<Rightarrow>
          case au_cred m1 of
            None \<Rightarrow> not_configured m1
          | Some cred \<Rightarrow>
              if \<not> oa_usable cred then not_configured m1
              else if \<not> stale_for_renewal (st_token cred) (io_check io) (ac_interval cfg) then (None, m1)
              else oa_renew ops cfg io cred m1)"

text \<open>
  \<open>SessionID\<close> up to the point where it gives up the lock, and from the point where it takes it again. In between the
  login is on its way with the user name and the password read before.
\<close>

datatype session_begin = SessionHeld string | SessionRefused api_error | SessionLogin string string

definition oa_session_begin :: "'s cred_ops \<Rightarrow> auth_config \<Rightarrow> 's auth_machine \<Rightarrow> session_begin \<times> 's auth_machine" where
  "oa_session_begin ops cfg m =
     (case oa_ensure_loaded ops cfg m of
        (Some e, m1) \<Rightarrow> (SessionRefused e, m1)
      | (None, m1) \<Rightarrow>
          let refused = SessionRefused (reauth_error (''this operation needs an upstream session, which requires the ''
                          @ ''account password; it is not stored because persist_password is off, so log in again'')) in
          case au_cred m1 of
            None \<Rightarrow> (refused, m1)
          | Some c \<Rightarrow>
              if st_session c \<noteq> [] then (SessionHeld (st_session c), m1)
              else if st_password c = [] then (refused, m1)
              else (SessionLogin (st_username c) (st_password c),
                    sending (SessionLoginCall (st_username c) (st_password c)) m1))"

definition oa_session_end :: "'s cred_ops \<Rightarrow> auth_config \<Rightarrow> auth_io \<Rightarrow> go_error + session_reply \<Rightarrow> 's auth_machine \<Rightarrow> (go_error + string) \<times> 's auth_machine" where
  "oa_session_end ops cfg io ans m =
     (case ans of
        Inl e \<Rightarrow> (Inl e, m)
      | Inr r \<Rightarrow>
          (Inr (sr_session r),
           case au_cred m of
             None \<Rightarrow> m
           | Some c \<Rightarrow> adopt ops cfg (io_adopt io) (c\<lparr>st_session := sr_session r\<rparr>) m))"

definition invalidate_session_id :: "'s cred_ops \<Rightarrow> auth_config \<Rightarrow> auth_io \<Rightarrow> 's auth_machine \<Rightarrow> 's auth_machine" where
  "invalidate_session_id ops cfg io m =
     (case au_cred m of
        None \<Rightarrow> m
      | Some c \<Rightarrow> if st_session c \<noteq> [] then adopt ops cfg (io_adopt io) (c\<lparr>st_session := []\<rparr>) m else m)"

definition oa_logout :: "'s cred_ops \<Rightarrow> auth_config \<Rightarrow> 's auth_machine \<Rightarrow> api_error option \<times> 's auth_machine" where
  "oa_logout ops cfg m =
     (let m1 = m\<lparr>au_cred := None, au_loaded := True, au_gate := new_gate\<rparr> in
      if \<not> ac_has_store cfg then (None, m1)
      else case cs_delete ops (au_store m1) of
        (err, s) \<Rightarrow> (map_option keystore_error err, m1\<lparr>au_store := s\<rparr>))"

definition oa_identity :: "'s auth_machine \<Rightarrow> identity" where
  "oa_identity m =
     (case au_cred m of
        None \<Rightarrow> no_identity mode_oauth2
      | Some c \<Rightarrow> \<lparr>id_username = st_username c, id_user = st_user c, id_acc = st_acc c, id_mode = mode_oauth2,
                  id_seamless = (st_password c \<noteq> [] \<and> auth_state_of m \<noteq> StateKeystoreUnavailable)\<rparr>)"

definition oa_token :: "'s auth_machine \<Rightarrow> token option" where
  "oa_token m = (case au_cred m of None \<Rightarrow> None | Some c \<Rightarrow> st_token c)"

definition oa_adopt_loaded :: "stored \<Rightarrow> 's auth_machine \<Rightarrow> 's auth_machine" where
  "oa_adopt_loaded cred m =
     (let m1 = m\<lparr>au_cred := Some cred, au_loaded := True\<rparr>
      in if oa_usable cred then set_auth_state StateAuthenticated m1 else m1)"

section \<open>What a renewal does\<close>

text \<open>
  Each fact about the ladder is proved for the password rung first and then for the whole of \<open>renewLocked\<close>; the
  operations only decide whether it runs.
\<close>

lemma gate_blocked_parked: "parked (g_state g) \<Longrightarrow> gate_blocked now g = g_last g"
  by (auto simp: gate_blocked_def parked_def)

lemma password_grant_state [simp]:
  "snd (password_grant cfg io u p m) = sending (PasswordGrant (ac_client_id cfg) u p) m"
  by (simp add: password_grant_def Let_def)

lemma refresh_grant_state [simp]:
  "snd (refresh_grant cfg io r m) = sending (RefreshGrant (ac_client_id cfg) r) m"
  by (simp add: refresh_grant_def Let_def)

lemma token_from_error:
  "token_from now g f = Inl err \<Longrightarrow> \<exists>e. as_api err = Some e \<and> kind e = KindInvalidResponse"
  by (auto simp: token_from_def Let_def split: if_splits)

text \<open>What upstream said when a step of the ladder was refused on the evidence of an API answer.\<close>

definition refused_with :: "auth_io \<Rightarrow> auth_call \<Rightarrow> kind \<Rightarrow> bool" where
  "refused_with io x k \<longleftrightarrow>
     (\<exists>err e. io_grant io x = Inl err \<and> as_api err = Some e \<and> drives_auth (Some e) \<and> kind e = k)"

lemma grant_refusal:
  assumes "fst (password_grant cfg io u p m) = Inl err" "as_api err = Some e" "drives_auth (Some e)"
    "kind e \<noteq> KindInvalidResponse"
  shows "refused_with io (PasswordGrant (ac_client_id cfg) u p) (kind e)"
  using assms token_from_error
  by (fastforce simp: refused_with_def password_grant_def Let_def split: sum.splits)

lemma refresh_refusal:
  assumes "fst (refresh_grant cfg io r m) = Inl err" "as_api err = Some e" "drives_auth (Some e)"
    "kind e \<noteq> KindInvalidResponse"
  shows "refused_with io (RefreshGrant (ac_client_id cfg) r) (kind e)"
  using assms token_from_error
  by (fastforce simp: refused_with_def refresh_grant_def Let_def split: sum.splits)

text \<open>The verdicts of \<open>classifyRenewFailure\<close>, one per kind of outcome.\<close>

lemma classify_renew_cases:
  obtains (waits) e where "classify_renew_failure now err g = (Some e, gate_backoff now e g)"
  | (reauth) ae e where "as_api err = Some ae" "drives_auth (Some ae)" "kind ae = KindReauthRequired"
      "classify_renew_failure now err g = (Some e, gate_terminal StateReauthRequired e g)"
  | (captcha) ae where "as_api err = Some ae" "drives_auth (Some ae)" "kind ae = KindCaptchaRequired"
      "classify_renew_failure now err g = (Some ae, gate_terminal StateCaptchaRequired ae g)"
  | (rung) ae where "as_api err = Some ae" "drives_auth (Some ae)"
      "kind ae = KindRefreshTokenFailed \<or> kind ae = KindTokenExpired"
      "classify_renew_failure now err g = (None, g)"
proof (cases "as_api err")
  case None
  then show ?thesis using waits by (simp add: classify_renew_failure_def Let_def)
next
  case (Some ae)
  show ?thesis
  proof (cases "drives_auth (Some ae)")
    case False
    then show ?thesis using Some waits by (simp add: classify_renew_failure_def)
  next
    case True
    then show ?thesis using Some waits reauth captcha rung
      by (cases "kind ae") (simp_all add: classify_renew_failure_def Let_def)
  qed
qed

definition sent :: "auth_call list \<Rightarrow> 's auth_machine \<Rightarrow> 's auth_machine" where
  "sent xs m = m\<lparr>au_sent := au_sent m @ xs\<rparr>"

lemma sent_simps [simp]:
  "au_cred (sent xs m) = au_cred m" "au_loaded (sent xs m) = au_loaded m" "au_gate (sent xs m) = au_gate m"
  "au_store (sent xs m) = au_store m" "au_sent (sent xs m) = au_sent m @ xs" "sent [] m = m"
  "sending x (sent xs m) = sent (xs @ [x]) m"
  by (simp_all add: sent_def sending_def)

lemma sending_sent: "sending x m = sent [x] m"
  by (simp add: sent_def sending_def)

lemma same_gate: "(sent xs m)\<lparr>au_gate := au_gate m\<rparr> = sent xs m"
  by (simp add: sent_def)

lemma set_gate_on_gate: "(sent xs m)\<lparr>au_gate := f (au_gate m)\<rparr> = on_gate f (sent xs m)"
  by (simp add: on_gate_def)

text \<open>What entitles the machine to stop and wait for the user.\<close>

definition evidence_for :: "auth_io \<Rightarrow> stored \<Rightarrow> auth_state \<Rightarrow> auth_call list \<Rightarrow> bool" where
  "evidence_for io cred st calls \<longleftrightarrow>
     (st = StateCaptchaRequired \<and> (\<exists>x \<in> set calls. refused_with io x KindCaptchaRequired))
     \<or> (st = StateReauthRequired
        \<and> ((\<exists>x \<in> set calls. \<exists>k \<in> {KindReauthRequired, KindRefreshTokenFailed, KindTokenExpired}. refused_with io x k)
           \<or> st_password cred = [] \<and> \<not> refresh_usable (st_token cred) (io_renew io)))"

lemma evidence_parked: "evidence_for io cred st calls \<Longrightarrow> parked st"
  by (auto simp: evidence_for_def)

lemma evidence_mono: "evidence_for io cred st calls \<Longrightarrow> set calls \<subseteq> set calls' \<Longrightarrow> evidence_for io cred st calls'"
  by (auto simp: evidence_for_def)

lemma password_rung_cases:
  assumes owed: "st_password cred = [] \<Longrightarrow> evidence_for io cred StateReauthRequired xs"
  obtains (renewed) calls tok where "password_rung ops cfg io cred (sent xs m) = renewed ops cfg io cred tok (sent calls m)"
      "calls \<noteq> []"
  | (waits) calls e where "password_rung ops cfg io cred (sent xs m)
        = (Some e, on_gate (gate_backoff (io_renew io) e) (sent calls m))" "calls \<noteq> []"
  | (stops) calls st e where "password_rung ops cfg io cred (sent xs m) = (Some e, on_gate (gate_terminal st e) (sent calls m))"
      "evidence_for io cred st calls"
proof (cases "st_password cred = []")
  case True
  then show ?thesis using stops [of _ StateReauthRequired xs] owed
    by (simp add: password_rung_def Let_def)
next
  case False
  let ?x = "PasswordGrant (ac_client_id cfg) (st_username cred) (st_password cred)"
  obtain ans where g: "password_grant cfg io (st_username cred) (st_password cred) (sent xs m) = (ans, sent (xs @ [?x]) m)"
    by (metis password_grant_state sent_simps(7) prod.collapse)
  show ?thesis
  proof (cases ans)
    case (Inr tok)
    then show ?thesis using renewed [of tok "xs @ [?x]"] False g by (simp add: password_rung_def)
  next
    case (Inl err)
    have refusal: "refused_with io ?x (kind ae)"
      if "as_api err = Some ae" "drives_auth (Some ae)" "kind ae \<noteq> KindInvalidResponse" for ae
      by (rule grant_refusal [OF _ that, where m = "sent xs m"]) (use g Inl in simp)
    note def = password_rung_def Let_def
    show ?thesis
    proof (cases rule: classify_renew_cases [where err = err and now = "io_renew io" and g = "au_gate m"])
      case (waits e)
      then show ?thesis using that(2) [of e "xs @ [?x]"] False g Inl
        by (simp add: def set_gate_on_gate)
    next
      case (reauth ae e)
      then have "evidence_for io cred StateReauthRequired (xs @ [?x])"
        using refusal [of ae] by (auto simp: evidence_for_def)
      then show ?thesis using stops reauth False g Inl by (simp add: def set_gate_on_gate)
    next
      case (captcha ae)
      then have "evidence_for io cred StateCaptchaRequired (xs @ [?x])"
        using refusal [of ae] by (auto simp: evidence_for_def)
      then show ?thesis using stops captcha False g Inl by (simp add: def set_gate_on_gate)
    next
      case (rung ae)
      then have "evidence_for io cred StateReauthRequired (xs @ [?x])"
        using refusal [of ae] by (auto simp: evidence_for_def)
      then show ?thesis using stops rung False g Inl by (simp add: def set_gate_on_gate)
    qed
  qed
qed

lemma oa_renew_cases:
  obtains (blocked) e where "gate_blocked (io_renew io) (au_gate m) = Some e" "oa_renew ops cfg io cred m = (Some e, m)"
  | (renewed) calls tok where "gate_blocked (io_renew io) (au_gate m) = None"
      "oa_renew ops cfg io cred m = renewed ops cfg io cred tok (sent calls (set_auth_state StateRefreshing m))" "calls \<noteq> []"
  | (waits) calls e where "gate_blocked (io_renew io) (au_gate m) = None"
      "oa_renew ops cfg io cred m
        = (Some e, on_gate (gate_backoff (io_renew io) e) (sent calls (set_auth_state StateRefreshing m)))" "calls \<noteq> []"
  | (stops) calls st e where "gate_blocked (io_renew io) (au_gate m) = None"
      "oa_renew ops cfg io cred m = (Some e, on_gate (gate_terminal st e) (sent calls (set_auth_state StateRefreshing m)))"
      "evidence_for io cred st calls"
proof (cases "gate_blocked (io_renew io) (au_gate m)")
  case (Some e)
  then show ?thesis using blocked by (simp add: oa_renew_def)
next
  case None
  let ?m = "set_auth_state StateRefreshing m"
  have from_rung: thesis
    if eq: "oa_renew ops cfg io cred m = password_rung ops cfg io cred (sent xs ?m)"
      and owed: "st_password cred = [] \<Longrightarrow> evidence_for io cred StateReauthRequired xs" for xs
    using password_rung_cases [OF owed, where ops = ops and cfg = cfg and m = ?m] renewed waits stops None eq by metis
  show ?thesis
  proof (cases "refresh_usable (st_token cred) (io_renew io)")
    case False
    then have "oa_renew ops cfg io cred m = password_rung ops cfg io cred (sent [] ?m)"
      using None by (auto simp: oa_renew_def Let_def split: option.splits)
    then show ?thesis by (rule from_rung) (simp add: evidence_for_def False)
  next
    case True
    then obtain t where t: "st_token cred = Some t" by (cases "st_token cred") (auto simp: refresh_usable_def)
    let ?x = "RefreshGrant (ac_client_id cfg) (t_refresh t)"
    obtain ans where g: "refresh_grant cfg io (t_refresh t) ?m = (ans, sent [?x] ?m)"
      by (metis refresh_grant_state sending_sent prod.collapse)
    note def = oa_renew_def Let_def
    show ?thesis
    proof (cases ans)
      case (Inr tok)
      then show ?thesis using renewed [of tok "[?x]"] None True t g by (simp add: def)
    next
      case (Inl err)
      have refusal: "refused_with io ?x (kind ae)"
        if "as_api err = Some ae" "drives_auth (Some ae)" "kind ae \<noteq> KindInvalidResponse" for ae
        by (rule refresh_refusal [OF _ that, where m = ?m]) (use g Inl in simp)
      have eq: "oa_renew ops cfg io cred m =
          (case classify_renew_failure (io_renew io) err (au_gate ?m) of
             (Some fatal, gt) \<Rightarrow> (Some fatal, (sent [?x] ?m)\<lparr>au_gate := gt\<rparr>)
           | (None, gt) \<Rightarrow> password_rung ops cfg io cred ((sent [?x] ?m)\<lparr>au_gate := gt\<rparr>))"
        using None True t g Inl by (simp add: def del: machine_simps)
      show ?thesis
      proof (cases rule: classify_renew_cases [where err = err and now = "io_renew io" and g = "au_gate ?m"])
        case (waits e)
        then show ?thesis using that(3) [of e "[?x]"] None eq by (simp add: on_gate_def)
      next
        case (reauth ae e)
        then have "evidence_for io cred StateReauthRequired [?x]"
          using refusal [of ae] by (auto simp: evidence_for_def)
        then show ?thesis using stops reauth None eq by (simp add: on_gate_def)
      next
        case (captcha ae)
        then have "evidence_for io cred StateCaptchaRequired [?x]"
          using refusal [of ae] by (auto simp: evidence_for_def)
        then show ?thesis using stops captcha None eq by (simp add: on_gate_def)
      next
        case (rung ae)
        then have "evidence_for io cred StateReauthRequired [?x]"
          using refusal [of ae] by (auto simp: evidence_for_def)
        moreover have "oa_renew ops cfg io cred m = password_rung ops cfg io cred (sent [?x] ?m)"
          using eq rung(4) same_gate [where xs = "[?x]" and m = ?m] by (simp del: machine_simps)
        ultimately show ?thesis using from_rung by metis
      qed
    qed
  qed
qed

end
