(* ===== verification/Oauth2_Runs.thy ===== *)
theory Oauth2_Runs
  imports Oauth2
begin

text \<open>
  Runs of the OAuth2 authenticator: any sequence of calls from any number of goroutines, with any answers. What moves
  it into a state that waits for the user, that it is silent there, that one expired token costs one
  renewal, what the credential store holds; and two ways in which it does not stop.
\<close>

section \<open>Steps\<close>

datatype oa_event =
    OaLogin string string auth_io
  | OaCredentials auth_io
  | OaRefresh auth_io
  | OaRefreshStale string auth_io
  | OaEnsureFresh auth_io
  | OaSessionBegin
  | OaSessionEnd nat "go_error + session_reply" auth_io
  | OaInvalidate auth_io
  | OaLogout

text \<open>The machine, and the logins that \<open>SessionID\<close> has on the way, each with the account it was made for.\<close>

record 's oa_world =
  w_auth :: "'s auth_machine"
  w_logins :: "(string \<times> string) list"

definition on_auth :: "('s auth_machine \<Rightarrow> 's auth_machine) \<Rightarrow> 's oa_world \<Rightarrow> 's oa_world" where
  "on_auth f w = w\<lparr>w_auth := f (w_auth w)\<rparr>"

fun oa_step :: "'s cred_ops \<Rightarrow> auth_config \<Rightarrow> oa_event \<Rightarrow> 's oa_world \<Rightarrow> 's oa_world" where
  "oa_step ops cfg (OaLogin u p io) w = on_auth (\<lambda>m. snd (oa_login ops cfg io u p m)) w"
| "oa_step ops cfg (OaCredentials io) w = on_auth (\<lambda>m. snd (oa_credentials ops cfg io m)) w"
| "oa_step ops cfg (OaRefresh io) w = on_auth (\<lambda>m. snd (oa_refresh ops cfg io m)) w"
| "oa_step ops cfg (OaRefreshStale stale io) w = on_auth (\<lambda>m. snd (oa_refresh_stale ops cfg io stale m)) w"
| "oa_step ops cfg (OaEnsureFresh io) w = on_auth (\<lambda>m. snd (oa_ensure_fresh ops cfg io m)) w"
| "oa_step ops cfg OaSessionBegin w =
     (case oa_session_begin ops cfg (w_auth w) of
        (SessionLogin u p, m) \<Rightarrow> w\<lparr>w_auth := m, w_logins := w_logins w @ [(u, p)]\<rparr>
      | (_, m) \<Rightarrow> w\<lparr>w_auth := m\<rparr>)"
| "oa_step ops cfg (OaSessionEnd k ans io) w =
     (if k < length (w_logins w) then
        w\<lparr>w_auth := snd (oa_session_end ops cfg io ans (w_auth w)),
          w_logins := take k (w_logins w) @ drop (Suc k) (w_logins w)\<rparr>
      else w)"
| "oa_step ops cfg (OaInvalidate io) w = on_auth (invalidate_session_id ops cfg io) w"
| "oa_step ops cfg OaLogout w = on_auth (\<lambda>m. snd (oa_logout ops cfg m)) w"

definition new_world :: "'s \<Rightarrow> 's oa_world" where
  "new_world s = \<lparr>w_auth = new_machine s, w_logins = []\<rparr>"

lemma world_simps [simp]:
  "w_auth (on_auth f w) = f (w_auth w)" "w_logins (on_auth f w) = w_logins w"
  "w_auth (new_world s) = new_machine s" "w_logins (new_world s) = []"
  by (simp_all add: on_auth_def new_world_def)

text \<open>A run in which the credentials held stay within what the store can represent.\<close>

definition holds :: "(stored \<Rightarrow> bool) \<Rightarrow> 's auth_machine \<Rightarrow> bool" where
  "holds Q m \<longleftrightarrow> (case au_cred m of None \<Rightarrow> True | Some c \<Rightarrow> Q c)"

inductive oa_run :: "'s cred_ops \<Rightarrow> auth_config \<Rightarrow> (stored \<Rightarrow> bool) \<Rightarrow> 's \<Rightarrow> 's oa_world \<Rightarrow> bool"
  for ops cfg Q s where
  start: "oa_run ops cfg Q s (new_world s)"
| step: "oa_run ops cfg Q s w \<Longrightarrow> holds Q (w_auth (oa_step ops cfg ev w)) \<Longrightarrow> oa_run ops cfg Q s (oa_step ops cfg ev w)"

section \<open>How the operations are put together\<close>

text \<open>
  An operation changes the credentials or the store only through loading, adopting and logging out; everything else
  touches the gate and the trace.
\<close>

definition same_core :: "'s auth_machine \<Rightarrow> 's auth_machine \<Rightarrow> bool" where
  "same_core m m' \<longleftrightarrow> au_cred m' = au_cred m \<and> au_store m' = au_store m \<and> au_loaded m' = au_loaded m"

lemma same_core_simps [simp]:
  "same_core m m" "same_core m (on_gate f m') = same_core m m'" "same_core m (set_auth_state st m') = same_core m m'"
  "same_core m (sent xs m') = same_core m m'" "same_core m (sending x m') = same_core m m'"
  by (simp_all add: same_core_def)

locale auth_invariant =
  fixes ops :: "'s cred_ops" and cfg :: auth_config and Q :: "stored \<Rightarrow> bool" and I :: "'s auth_machine \<Rightarrow> bool"
  assumes core: "I m \<Longrightarrow> same_core m m' \<Longrightarrow> I m'"
    and loading: "I m \<Longrightarrow> I (snd (load_once oa_usable ops cfg m))"
    and adopting: "I m \<Longrightarrow> (\<And>c. au_cred (adopt ops cfg now cred m) = Some c \<Longrightarrow> Q c) \<Longrightarrow> I (adopt ops cfg now cred m)"
    and leaving: "I m \<Longrightarrow> I (snd (oa_logout ops cfg m))"
begin

lemma renew_keeps:
  assumes "I m" "holds Q (snd (oa_renew ops cfg io cred m))"
  shows "I (snd (oa_renew ops cfg io cred m))"
proof (cases rule: oa_renew_cases [where io = io and m = m and ops = ops and cfg = cfg and cred = cred])
  case (renewed calls tok)
  let ?m = "sent calls (set_auth_state StateRefreshing m)"
  have "I ?m" by (rule core [OF assms(1)]) simp
  then have "I (adopt ops cfg (io_adopt io) (cred\<lparr>st_token := Some tok\<rparr>) ?m)"
    by (rule adopting) (use assms(2) renewed in \<open>auto simp: renewed_def holds_def\<close>)
  then show ?thesis by (rule core) (simp add: renewed renewed_def)
qed (use assms core in auto)

lemma renew_or_keeps:
  assumes "I m" "holds Q (snd (renew_or_not_configured ops cfg io m))"
  shows "I (snd (renew_or_not_configured ops cfg io m))"
  using assms renew_keeps core [OF assms(1)]
  by (auto simp: renew_or_not_configured_def not_configured_def split: option.splits if_splits)

lemma loaded_keeps:
  assumes "oa_ensure_loaded ops cfg m = (e, m1)" "I m"
  shows "I m1"
  using loading [OF assms(2)] assms(1) by (simp add: oa_ensure_loaded_def)

lemma credentials_keeps:
  assumes "I m" "holds Q (snd (oa_credentials ops cfg io m))"
  shows "I (snd (oa_credentials ops cfg io m))"
proof -
  obtain e m1 where l: "oa_ensure_loaded ops cfg m = (e, m1)" by fastforce
  note I1 = loaded_keeps [OF l assms(1)]
  have "I m2" if "oa_renew ops cfg io c m1 = (r, m2)" "holds Q m2" for c r m2
    using renew_keeps [OF I1, of io c] that by simp
  then show ?thesis
    using assms(2) I1 core [OF I1]
    by (auto simp: oa_credentials_def l Let_def split: option.splits if_splits prod.splits)
qed

lemma session_begin_keeps: "I m \<Longrightarrow> I (snd (oa_session_begin ops cfg m))"
proof -
  assume I: "I m"
  obtain e m1 where l: "oa_ensure_loaded ops cfg m = (e, m1)" by fastforce
  note I1 = loaded_keeps [OF l I]
  show ?thesis
    using I1 core [OF I1] by (auto simp: oa_session_begin_def l Let_def split: option.splits)
qed

lemma step_keeps:
  assumes I: "I (w_auth w)" and Q: "holds Q (w_auth (oa_step ops cfg ev w))"
  shows "I (w_auth (oa_step ops cfg ev w))"
proof -
  obtain e m1 where l: "oa_ensure_loaded ops cfg (w_auth w) = (e, m1)" by fastforce
  note I1 = loaded_keeps [OF l I]
  show ?thesis
  proof (cases ev)
    case (OaLogin u p io)
    obtain ans where g: "password_grant cfg io u p (w_auth w) = (ans, sending (PasswordGrant (ac_client_id cfg) u p) (w_auth w))"
      by (metis password_grant_state prod.collapse)
    let ?m = "sending (PasswordGrant (ac_client_id cfg) u p) (w_auth w)"
    have I': "I ?m" by (rule core [OF I]) simp
    have loaded_irrelevant: "adopt ops cfg now c (m\<lparr>au_loaded := True\<rparr>) = adopt ops cfg now c m" for now c and m :: "'s auth_machine"
      by (simp add: adopt_def Let_def)
    show ?thesis
    proof (cases ans)
      case (Inl err)
      then show ?thesis using OaLogin g I' by (simp add: oa_login_def)
    next
      case (Inr tok)
      have "I (adopt ops cfg (io_adopt io) c ?m)" if "holds Q (adopt ops cfg (io_adopt io) c ?m)" for c
        by (rule adopting [OF I']) (use that in \<open>simp add: holds_def\<close>)
      from this [THEN core] show ?thesis using Q OaLogin g Inr
        by (simp add: oa_login_def Let_def loaded_irrelevant holds_def)
    qed
  next
    case (OaRefresh io)
    then show ?thesis using Q I1 renew_or_keeps [OF I1, of io] by (auto simp: oa_refresh_def l split: option.splits)
  next
    case (OaRefreshStale stale io)
    then show ?thesis using Q I1 renew_or_keeps [OF I1, of io]
      by (auto simp: oa_refresh_stale_def l split: option.splits if_splits)
  next
    case (OaEnsureFresh io)
    then show ?thesis using Q I1 renew_keeps [OF I1, of io] core [OF I1]
      by (auto simp: oa_ensure_fresh_def l not_configured_def split: option.splits if_splits)
  next
    case OaSessionBegin
    then show ?thesis using session_begin_keeps [OF I] by (auto split: session_begin.splits prod.splits)
  next
    case (OaSessionEnd k ans io)
    have "I (adopt ops cfg (io_adopt io) c (w_auth w))" if "holds Q (adopt ops cfg (io_adopt io) c (w_auth w))" for c
      by (rule adopting [OF I]) (use that in \<open>simp add: holds_def\<close>)
    then show ?thesis using Q I OaSessionEnd by (auto simp: oa_session_end_def split: sum.splits option.splits if_splits)
  next
    case (OaInvalidate io)
    have "I (adopt ops cfg (io_adopt io) c (w_auth w))" if "holds Q (adopt ops cfg (io_adopt io) c (w_auth w))" for c
      by (rule adopting [OF I]) (use that in \<open>simp add: holds_def\<close>)
    then show ?thesis using Q I OaInvalidate by (auto simp: invalidate_session_id_def split: option.splits if_splits)
  qed (use Q I credentials_keeps leaving in auto)
qed

lemma run_keeps: "oa_run ops cfg Q s w \<Longrightarrow> I (new_machine s) \<Longrightarrow> I (w_auth w)"
  by (induction rule: oa_run.induct) (auto intro: step_keeps)

end


section \<open>What the store holds\<close>

context cred_store
begin

text \<open>With \<open>persist_password\<close> off, neither the store nor the memory has a password.\<close>

definition passwordless :: "auth_config \<Rightarrow> 's auth_machine \<Rightarrow> bool" where
  "passwordless cfg m \<longleftrightarrow>
     valid (au_store m)
     \<and> (\<not> ac_persist cfg \<longrightarrow>
          (\<forall>c. au_cred m = Some c \<or> contents (au_store m) = Loaded c \<longrightarrow> st_password c = []))"

lemma passwordless_adopt:
  assumes "passwordless cfg m" "\<And>c. au_cred (adopt ops cfg now cred m) = Some c \<Longrightarrow> storable c"
  shows "passwordless cfg (adopt ops cfg now cred m)"
proof -
  define c where "c = the (au_cred (adopt ops cfg now cred m))"
  have c: "storable c" using assms(2) by (simp add: c_def)
  have pw: "\<not> ac_persist cfg \<Longrightarrow> st_password c = []" by (simp add: c_def)
  have eq: "adopt ops cfg now cred m =
      (if ac_has_store cfg then m\<lparr>au_store := snd (cs_save ops c (au_store m))\<rparr> else m)\<lparr>au_cred := Some c, au_loaded := True\<rparr>"
    by (simp add: adopt_def c_def Let_def)
  have "valid (au_store m)" using assms(1) by (simp add: passwordless_def)
  note laws = save_valid [OF this c] save_old_or_new [OF this c]
  then show ?thesis
    using assms(1) pw image_keeps [OF c] by (auto simp: passwordless_def eq)
qed

end

sublocale cred_store \<subseteq> privacy: auth_invariant ops cfg storable "passwordless cfg" for cfg
proof
  fix m m' :: "'s auth_machine" and now cred
  assume d: "passwordless cfg m"
  show "passwordless cfg m'" if "same_core m m'" using d that by (auto simp: passwordless_def same_core_def)
  show "passwordless cfg (snd (load_once oa_usable ops cfg m))"
    using d load_valid [of "au_store m"] load_reads [of "au_store m"] load_keeps [of "au_store m"]
    by (cases "cs_load ops (au_store m)")
      (auto simp: passwordless_def load_once_def Let_def split: load_answer.splits)
  show "passwordless cfg (adopt ops cfg now cred m)" if "\<And>c. au_cred (adopt ops cfg now cred m) = Some c \<Longrightarrow> storable c"
    by (rule passwordless_adopt [OF d that])
  show "passwordless cfg (snd (oa_logout ops cfg m))"
    using d delete_valid [of "au_store m"] delete_ok [of "au_store m"] failed_delete [of "au_store m"]
    by (cases "fst (cs_delete ops (au_store m))") (auto simp: passwordless_def oa_logout_def Let_def split: prod.splits)
qed

text \<open>A store that keeps the contract and never fails.\<close>

locale sound_store = cred_store ops contents image storable valid
  for ops :: "'s cred_ops" and contents image storable valid +
  fixes healthy :: "'s \<Rightarrow> bool"
  assumes saves: "valid s \<Longrightarrow> healthy s \<Longrightarrow> storable c \<Longrightarrow> fst (cs_save ops c s) = None \<and> healthy (snd (cs_save ops c s))"
    and loads: "valid s \<Longrightarrow> healthy s \<Longrightarrow> fst (cs_load ops s) = contents s \<and> healthy (snd (cs_load ops s))"
    and deletes: "valid s \<Longrightarrow> healthy s \<Longrightarrow> fst (cs_delete ops s) = None \<and> healthy (snd (cs_delete ops s))"
begin

definition durable :: "auth_config \<Rightarrow> 's auth_machine \<Rightarrow> bool" where
  "durable cfg m \<longleftrightarrow>
     valid (au_store m) \<and> healthy (au_store m)
     \<and> (ac_has_store cfg \<and> au_loaded m \<longrightarrow>
          (au_cred m = None \<longrightarrow> contents (au_store m) = NoCredentials)
          \<and> (\<forall>c. au_cred m = Some c \<longrightarrow>
                contents (au_store m) = Loaded c \<or> contents (au_store m) = Loaded (image c)))
     \<and> (\<not> au_loaded m \<longrightarrow> au_cred m = None)"

lemma durable_adopt:
  assumes "durable cfg m" "\<And>c. au_cred (adopt ops cfg now cred m) = Some c \<Longrightarrow> storable c"
  shows "durable cfg (adopt ops cfg now cred m)"
proof -
  define c where "c = the (au_cred (adopt ops cfg now cred m))"
  have c: "storable c" using assms(2) by (simp add: c_def)
  have eq: "adopt ops cfg now cred m =
      (if ac_has_store cfg then m\<lparr>au_store := snd (cs_save ops c (au_store m))\<rparr> else m)\<lparr>au_cred := Some c, au_loaded := True\<rparr>"
    by (simp add: adopt_def c_def Let_def)
  show ?thesis
    using assms(1) c saves [OF _ _ c, of "au_store m"] save_valid [OF _ c, of "au_store m"]
      save_ok [OF _ c, of "au_store m"]
    by (simp add: durable_def eq)
qed

end

sublocale sound_store \<subseteq> durability: auth_invariant ops cfg storable "durable cfg" for cfg
proof
  fix m m' :: "'s auth_machine" and now cred
  assume d: "durable cfg m"
  show "durable cfg m'" if "same_core m m'" using d that by (auto simp: durable_def same_core_def split: option.splits)
  show "durable cfg (snd (load_once oa_usable ops cfg m))"
    using d load_valid [of "au_store m"] load_reads [of "au_store m"] load_keeps [of "au_store m"] loads [of "au_store m"]
    by (cases "cs_load ops (au_store m)")
      (auto simp: durable_def load_once_def Let_def split: load_answer.splits)
  show "durable cfg (adopt ops cfg now cred m)" if "\<And>c. au_cred (adopt ops cfg now cred m) = Some c \<Longrightarrow> storable c"
    by (rule durable_adopt [OF d that])
  show "durable cfg (snd (oa_logout ops cfg m))"
    using d deletes [of "au_store m"] delete_valid [of "au_store m"] delete_ok [of "au_store m"]
    by (auto simp: durable_def oa_logout_def Let_def split: prod.splits)
qed

interpretation mcs: sound_store mcs_ops mcs_contents "\<lambda>c. c" "\<lambda>_. True" "\<lambda>_. True" "\<lambda>_. True"
  by unfold_locales (simp_all add: mcs_contents_def mcs_load_def mcs_save_def mcs_delete_def split: option.split)


section \<open>The gate\<close>

lemma renew_gate_effect:
  assumes "oa_renew ops cfg io cred m = (r, m')" "parked (auth_state_of m')" "auth_state_of m' \<noteq> auth_state_of m"
  shows "\<exists>calls. au_sent m' = au_sent m @ calls \<and> evidence_for io cred (auth_state_of m') calls \<and> au_cred m' = au_cred m"
  by (cases rule: oa_renew_cases [where io = io and m = m and ops = ops and cfg = cfg and cred = cred])
    (use assms in \<open>auto simp: auth_state_of_def renewed_def\<close>)

lemma load_state: "load_once u ops cfg m = (e, m1) \<Longrightarrow> \<not> parked (auth_state_of m1) \<or> auth_state_of m1 = auth_state_of m"
  by (auto simp: load_once_def auth_state_of_def Let_def split: prod.splits load_answer.splits if_splits)

lemma load_sent: "load_once u ops cfg m = (e, m1) \<Longrightarrow> au_sent m1 = au_sent m"
  by (auto simp: load_once_def Let_def split: prod.splits load_answer.splits if_splits)

definition event_io :: "oa_event \<Rightarrow> auth_io option" where
  "event_io ev =
     (case ev of OaCredentials io \<Rightarrow> Some io | OaRefresh io \<Rightarrow> Some io | OaRefreshStale _ io \<Rightarrow> Some io
      | OaEnsureFresh io \<Rightarrow> Some io | _ \<Rightarrow> None)"

lemma renews_on_evidence:
  assumes "oa_renew ops cfg io cred m1 = (r, m')" "au_cred m1 = Some cred" "load_once u ops cfg m = (e, m1)"
    "parked (auth_state_of m')" "auth_state_of m' \<noteq> auth_state_of m"
  shows "\<exists>calls cred. au_sent m' = au_sent m @ calls \<and> au_cred m' = Some cred
    \<and> evidence_for io cred (auth_state_of m') calls"
proof (cases "auth_state_of m' = auth_state_of m1")
  case True
  with assms load_state show ?thesis by metis
next
  case False
  from renew_gate_effect [OF assms(1,4) False] assms(2) load_sent [OF assms(3)] show ?thesis by auto
qed

lemma ensure_loaded_eq: "oa_ensure_loaded ops cfg m = (e, m1) \<Longrightarrow> load_once oa_usable ops cfg m = (e, m1)"
  by (simp add: oa_ensure_loaded_def)

text \<open>
  The four operations that may renew: they load, and then either leave the machine as it is, find that there is
  nothing to work with, take a token that has not expired yet for a success, or walk the ladder.
\<close>

lemma renewing_operation:
  assumes "event_io ev = Some io" "oa_ensure_loaded ops cfg (w_auth w) = (e, m1)"
  shows "w_auth (oa_step ops cfg ev w) \<in> {m1, set_auth_state StateNotConfigured m1}
    \<or> (w_auth (oa_step ops cfg ev w) = on_gate gate_succeed m1 \<and> ev = OaCredentials io
       \<and> (\<exists>c. au_cred m1 = Some c \<and> oa_usable c \<and> \<not> needs_refresh (st_token c) (io_check io) (ac_skew cfg)))
    \<or> (\<exists>c r. au_cred m1 = Some c \<and> oa_usable c \<and> oa_renew ops cfg io c m1 = (r, w_auth (oa_step ops cfg ev w)))"
proof (cases "e = None \<and> (\<exists>c. au_cred m1 = Some c \<and> oa_usable c)")
  case False
  then show ?thesis using assms
    by (cases ev; cases e; cases "au_cred m1")
      (auto simp: event_io_def oa_credentials_def oa_refresh_def oa_refresh_stale_def oa_ensure_fresh_def
        renew_or_not_configured_def not_configured_def Let_def)
next
  case True
  then obtain c where c: "e = None" "au_cred m1 = Some c" "oa_usable c" by auto
  obtain r m2 where r: "oa_renew ops cfg io c m1 = (r, m2)" by fastforce
  show ?thesis using assms c r
    by (cases ev; cases r)
      (auto simp: event_io_def oa_credentials_def oa_refresh_def oa_refresh_stale_def oa_ensure_fresh_def
        renew_or_not_configured_def not_configured_def Let_def)
qed

text \<open>All other events leave the gate alone, or leave it in a state that does not wait for the user.\<close>

lemma other_operation:
  assumes "event_io ev = None" "oa_ensure_loaded ops cfg (w_auth w) = (e, m1)"
  shows "\<not> parked (auth_state_of (w_auth (oa_step ops cfg ev w)))
    \<or> auth_state_of (w_auth (oa_step ops cfg ev w)) \<in> {auth_state_of (w_auth w), auth_state_of m1}"
proof (cases ev)
  case (OaLogin u p io)
  obtain ans where "password_grant cfg io u p (w_auth w) = (ans, sending (PasswordGrant (ac_client_id cfg) u p) (w_auth w))"
    by (metis password_grant_state prod.collapse)
  then show ?thesis using OaLogin by (cases ans) (auto simp: oa_login_def auth_state_of_def Let_def)
next
  case OaSessionBegin
  then show ?thesis using assms(2)
    by (cases e; cases "au_cred m1") (auto simp: oa_session_begin_def auth_state_of_def Let_def)
next
  case (OaSessionEnd k ans io)
  then show ?thesis
    by (cases ans; cases "au_cred (w_auth w)") (auto simp: oa_session_end_def auth_state_of_def)
next
  case (OaInvalidate io)
  then show ?thesis
    by (cases "au_cred (w_auth w)") (auto simp: invalidate_session_id_def auth_state_of_def)
next
  case OaLogout
  then show ?thesis
    by (auto simp: oa_logout_def auth_state_of_def Let_def split: prod.splits)
qed (use assms in \<open>simp_all add: event_io_def\<close>)

text \<open>C26: The OAuth2 machine stops and waits for the user only on evidence: whatever operation moves it into
  \<open>reauth_required\<close> or \<open>captcha_required\<close> has, in that very operation, been refused by upstream with an error that
  may speak about credentials (an unambiguous answer in the shape of the API) and that says so - a captcha for the one, rejected
  credentials or a rejected refresh token for the other - or had no usable refresh token and no
  password to go on with.\<close>
theorem auth_moves_on_evidence:
  assumes "w' = oa_step ops cfg ev w"
    and "parked (auth_state_of (w_auth w'))" "auth_state_of (w_auth w') \<noteq> auth_state_of (w_auth w)"
  shows "\<exists>io cred calls. event_io ev = Some io \<and> au_cred (w_auth w') = Some cred
    \<and> au_sent (w_auth w') = au_sent (w_auth w) @ calls
    \<and> evidence_for io cred (auth_state_of (w_auth w')) calls"
proof -
  obtain e m1 where l: "oa_ensure_loaded ops cfg (w_auth w) = (e, m1)" by fastforce
  note ll = ensure_loaded_eq [OF l]
  have m1: "auth_state_of (w_auth w') \<noteq> auth_state_of m1" using load_state [OF ll] assms(2,3) by metis
  then obtain io where io: "event_io ev = Some io"
    using other_operation [OF _ l] assms by (cases "event_io ev") auto
  have "w_auth w' \<noteq> m1" "w_auth w' \<noteq> set_auth_state StateNotConfigured m1" "w_auth w' \<noteq> on_gate gate_succeed m1"
    using m1 assms(2) by (auto simp: auth_state_of_def)
  then obtain c r where "au_cred m1 = Some c" "oa_renew ops cfg io c m1 = (r, w_auth w')"
    using renewing_operation [OF io l] assms(1) by auto
  from renews_on_evidence [OF this(2,1) ll assms(2,3)] io show ?thesis by metis
qed


section \<open>Waiting is silent\<close>

text \<open>
  The calls that must not reach upstream while the machine waits: all but a login by the user, a \<open>SessionID\<close> that has to log in,
  and \<open>Credentials\<close> while the access token has, by the clock, not expired.
\<close>

definition quiet :: "auth_config \<Rightarrow> oa_event \<Rightarrow> 's auth_machine \<Rightarrow> bool" where
  "quiet cfg ev m =
     (case ev of
        OaLogin _ _ _ \<Rightarrow> False
      | OaCredentials io \<Rightarrow> holds (\<lambda>c. needs_refresh (st_token c) (io_check io) (ac_skew cfg)) m
      | OaSessionBegin \<Rightarrow> holds (\<lambda>c. st_session c \<noteq> [] \<or> st_password c = []) m
      | _ \<Rightarrow> True)"

fun quiet_events :: "'s cred_ops \<Rightarrow> auth_config \<Rightarrow> oa_event list \<Rightarrow> 's oa_world \<Rightarrow> bool" where
  "quiet_events ops cfg [] w \<longleftrightarrow> True"
| "quiet_events ops cfg (ev # evs) w \<longleftrightarrow> quiet cfg ev (w_auth w) \<and> quiet_events ops cfg evs (oa_step ops cfg ev w)"

text \<open>Waiting with a reason to give, or without anything to renew with.\<close>

definition waiting :: "'s auth_machine \<Rightarrow> bool" where
  "waiting m \<longleftrightarrow> au_loaded m
     \<and> (parked (auth_state_of m) \<and> g_last (au_gate m) \<noteq> None \<or> holds (\<lambda>c. \<not> oa_usable c) m)"

lemma waiting_loaded: "au_loaded m \<Longrightarrow> oa_ensure_loaded ops cfg m = (None, m)"
  by (simp add: oa_ensure_loaded_def load_once_def)

lemma waiting_renew:
  assumes "waiting m" "au_cred m = Some c" "oa_usable c"
  shows "\<exists>e. oa_renew ops cfg io c m = (Some e, m)"
proof -
  have "parked (g_state (au_gate m))" "g_last (au_gate m) \<noteq> None"
    using assms by (auto simp: waiting_def auth_state_of_def holds_def)
  then obtain e where "gate_blocked (io_renew io) (au_gate m) = Some e"
    by (auto simp: gate_blocked_parked)
  then show ?thesis by (simp add: oa_renew_def)
qed

lemma unusable_stays: "\<not> oa_usable c \<Longrightarrow> \<not> oa_usable (c\<lparr>st_session := s, st_updated := t\<rparr>)"
  "\<not> oa_usable c \<Longrightarrow> \<not> oa_usable (c\<lparr>st_session := s, st_updated := t, st_password := []\<rparr>)"
  by (simp_all add: oa_usable_def)

lemma waiting_adopt:
  assumes "waiting m" "au_cred m = Some c"
  shows "waiting (adopt ops cfg now (c\<lparr>st_session := s\<rparr>) m)"
  using assms by (auto simp: waiting_def holds_def auth_state_of_def unusable_stays)

lemma quiet_step:
  assumes w: "waiting (w_auth w)" and q: "quiet cfg ev (w_auth w)"
  shows "waiting (w_auth (oa_step ops cfg ev w)) \<and> au_sent (w_auth (oa_step ops cfg ev w)) = au_sent (w_auth w)"
proof -
  have l: "oa_ensure_loaded ops cfg (w_auth w) = (None, w_auth w)"
    using w waiting_loaded by (auto simp: waiting_def)
  show ?thesis
  proof (cases "event_io ev")
    case (Some io)
    consider (same) "w_auth (oa_step ops cfg ev w) = w_auth w"
      | (nothing) "w_auth (oa_step ops cfg ev w) = set_auth_state StateNotConfigured (w_auth w)"
          "holds (\<lambda>c. \<not> oa_usable c) (w_auth w)"
    proof (cases "holds (\<lambda>c. \<not> oa_usable c) (w_auth w)")
      case True
      then show ?thesis using renewing_operation [OF Some l] that by (auto simp: holds_def)
    next
      case False
      then obtain c where c: "au_cred (w_auth w) = Some c" "oa_usable c" by (auto simp: holds_def split: option.splits)
      then obtain e where e: "oa_renew ops cfg io c (w_auth w) = (Some e, w_auth w)" using waiting_renew [OF w] by metis
      have nr: "ev = OaCredentials io \<Longrightarrow> needs_refresh (st_token c) (io_check io) (ac_skew cfg)"
        using q c by (simp add: quiet_def holds_def)
      have "w_auth (oa_step ops cfg ev w) = w_auth w"
        using Some l c e nr
        by (cases ev) (auto simp: event_io_def oa_credentials_def oa_refresh_def oa_refresh_stale_def oa_ensure_fresh_def
            renew_or_not_configured_def Let_def)
      then show ?thesis by (rule same)
    qed
    then show ?thesis using w by cases (auto simp: waiting_def holds_def)
  next
    case None
    show ?thesis
    proof (cases ev)
      case OaSessionBegin
      then show ?thesis using w q l
        by (cases "au_cred (w_auth w)") (auto simp: oa_session_begin_def quiet_def holds_def Let_def)
    next
      case (OaSessionEnd k ans io)
      then show ?thesis using w waiting_adopt
        by (cases ans; cases "au_cred (w_auth w)") (auto simp: oa_session_end_def)
    next
      case (OaInvalidate io)
      then show ?thesis using w waiting_adopt
        by (cases "au_cred (w_auth w)") (auto simp: invalidate_session_id_def)
    next
      case OaLogout
      then show ?thesis by (auto simp: oa_logout_def waiting_def holds_def Let_def split: prod.splits)
    qed (use q None in \<open>simp_all add: quiet_def event_io_def\<close>)
  qed
qed

definition reasoned :: "'s auth_machine \<Rightarrow> bool" where
  "reasoned m \<longleftrightarrow> (parked (auth_state_of m) \<longrightarrow> au_loaded m \<and> g_last (au_gate m) \<noteq> None)"

lemma reasoned_core: "reasoned m \<Longrightarrow> au_gate m' = au_gate m \<Longrightarrow> (au_loaded m \<Longrightarrow> au_loaded m') \<Longrightarrow> reasoned m'"
  by (simp add: reasoned_def auth_state_of_def)

lemma reasoned_unparked: "\<not> parked (g_state (au_gate m)) \<Longrightarrow> reasoned m"
  by (simp add: reasoned_def auth_state_of_def)

lemma reasoned_load: "reasoned m \<Longrightarrow> load_once u ops cfg m = (e, m1) \<Longrightarrow> reasoned m1"
  by (auto simp: load_once_def reasoned_def auth_state_of_def Let_def split: prod.splits load_answer.splits if_splits)

lemma reasoned_renew:
  assumes "reasoned m" "au_loaded m" "oa_renew ops cfg io c m = (r, m')"
  shows "reasoned m'"
  by (cases rule: oa_renew_cases [where io = io and m = m and ops = ops and cfg = cfg and cred = c])
    (use assms in \<open>auto simp: reasoned_def auth_state_of_def renewed_def\<close>)

lemma load_ok_loaded: "load_once u ops cfg m = (None, m1) \<Longrightarrow> au_loaded m1"
  by (auto simp: load_once_def Let_def split: prod.splits load_answer.splits if_splits)

lemma load_failed_state: "load_once u ops cfg m = (Some e, m1) \<Longrightarrow> g_state (au_gate m1) = StateKeystoreUnavailable"
  by (auto simp: load_once_def Let_def split: prod.splits load_answer.splits if_splits)

lemma reasoned_step:
  assumes r: "reasoned (w_auth w)"
  shows "reasoned (w_auth (oa_step ops cfg ev w))"
proof -
  obtain e m1 where l: "oa_ensure_loaded ops cfg (w_auth w) = (e, m1)" by fastforce
  have r1: "reasoned m1" by (rule reasoned_load [OF r ensure_loaded_eq [OF l]])
  have refused: "w_auth (oa_step ops cfg ev w) = m1" if "e \<noteq> None" "event_io ev = Some io" for io
    using that l by (cases ev) (auto simp: event_io_def oa_credentials_def oa_refresh_def oa_refresh_stale_def
        oa_ensure_fresh_def)
  show ?thesis
  proof (cases "event_io ev")
    case (Some io)
    show ?thesis
    proof (cases e)
      case (Some e')
      then show ?thesis using refused [of io] r1 \<open>event_io ev = Some io\<close> by simp
    next
      case None
      then have "au_loaded m1" using load_ok_loaded ensure_loaded_eq [OF l] by blast
      then show ?thesis
        using renewing_operation [OF Some l] r1 reasoned_renew [OF r1]
        by (auto intro: reasoned_unparked)
    qed
  next
    case None
    show ?thesis
    proof (cases ev)
      case (OaLogin u p io)
      obtain ans where "password_grant cfg io u p (w_auth w) = (ans, sending (PasswordGrant (ac_client_id cfg) u p) (w_auth w))"
        by (metis password_grant_state prod.collapse)
      then show ?thesis using OaLogin r
        by (cases ans) (auto simp: oa_login_def Let_def intro: reasoned_core reasoned_unparked)
    next
      case OaSessionBegin
      then show ?thesis using l r1
        by (cases e; cases "au_cred m1") (auto simp: oa_session_begin_def Let_def intro: reasoned_core)
    next
      case (OaSessionEnd k ans io)
      then show ?thesis using r
        by (cases ans; cases "au_cred (w_auth w)") (auto simp: oa_session_end_def intro: reasoned_core)
    next
      case (OaInvalidate io)
      then show ?thesis using r
        by (cases "au_cred (w_auth w)") (auto simp: invalidate_session_id_def intro: reasoned_core)
    next
      case OaLogout
      then show ?thesis by (auto simp: oa_logout_def Let_def intro!: reasoned_unparked split: prod.splits)
    qed (use None in \<open>simp_all add: event_io_def\<close>)
  qed
qed

lemma run_reasoned: "oa_run ops cfg Q s w \<Longrightarrow> reasoned (w_auth w)"
  by (induction rule: oa_run.induct) (auto simp: new_machine_def intro: reasoned_step reasoned_unparked)

lemma quiet_events_silent:
  "waiting (w_auth w) \<Longrightarrow> quiet_events ops cfg evs w
    \<Longrightarrow> au_sent (w_auth (fold (oa_step ops cfg) evs w)) = au_sent (w_auth w)"
proof (induction evs arbitrary: w)
  case Nil
  then show ?case by simp
next
  case (Cons ev evs)
  then have "waiting (w_auth (oa_step ops cfg ev w))" "au_sent (w_auth (oa_step ops cfg ev w)) = au_sent (w_auth w)"
    using quiet_step [of w cfg ev ops] by auto
  with Cons show ?case by simp
qed

text \<open>C27: Once the machine waits for the user it sends nothing: in any run, from a moment at which the state is
  \<open>reauth_required\<close> or \<open>captcha_required\<close>, no sequence of calls - requests for credentials with an access token that has
  expired, renewals after a 401, the keep-alive timer, a logout - puts a request on the wire, however long it
  is. Excepted are the user's own login, a \<open>SessionID\<close> call that has no session yet, and a request for
  credentials while the old access token has not expired.\<close>
theorem waiting_is_silent:
  assumes "oa_run ops cfg Q s w" "parked (auth_state_of (w_auth w))" "quiet_events ops cfg evs w"
  shows "au_sent (w_auth (fold (oa_step ops cfg) evs w)) = au_sent (w_auth w)"
proof -
  have "waiting (w_auth w)"
    using run_reasoned [OF assms(1)] assms(2) by (simp add: reasoned_def waiting_def)
  then show ?thesis using assms(3) by (rule quiet_events_silent)
qed

section \<open>One expired token, one renewal\<close>

text \<open>Concurrent calls that fail on one expired access token cost one renewal: after a \<open>RefreshStale\<close> that
  succeeded, any number of further ones naming the same token return without an error, send nothing and change
  nothing, provided upstream has given out a new access token.\<close>
theorem stale_renewals_collapse:
  assumes "oa_refresh_stale ops cfg io stale m = (None, m1)" "stale \<noteq> []"
    and "au_cred m1 = Some c" "access_of c \<noteq> [] \<and> access_of c \<noteq> stale"
  shows "fold (\<lambda>io m. snd (oa_refresh_stale ops cfg io stale m)) ios m1 = m1
    \<and> (\<forall>io'. fst (oa_refresh_stale ops cfg io' stale m1) = None)"
proof -
  have loaded: "au_loaded m1"
  proof -
    obtain e m0 where l: "oa_ensure_loaded ops cfg m = (e, m0)" by fastforce
    have e: "e = None" using assms(1) l by (cases e) (auto simp: oa_refresh_stale_def)
    then have l0: "au_loaded m0" using load_ok_loaded ensure_loaded_eq [OF l] by blast
    have "au_loaded (snd (oa_renew ops cfg io c' m0))" for c'
      by (cases rule: oa_renew_cases [where io = io and m = m0 and ops = ops and cfg = cfg and cred = c'])
        (use l0 in \<open>auto simp: renewed_def\<close>)
    with assms(1) l l0 e show ?thesis
      by (auto simp: oa_refresh_stale_def renew_or_not_configured_def not_configured_def
          split: if_splits option.splits) (metis snd_conv)+
  qed
  obtain t where t: "st_token c = Some t" "t_access t \<noteq> stale"
    using assms(4) by (auto simp: access_of_def split: option.splits)
  have once: "oa_refresh_stale ops cfg io' stale m1 = (None, m1)" for io'
    using assms(2,3) t waiting_loaded [OF loaded] by (simp add: oa_refresh_stale_def)
  have "fold (\<lambda>io m. snd (oa_refresh_stale ops cfg io stale m)) ios m1 = m1"
    by (induction ios) (simp_all add: once)
  then show ?thesis by (simp add: once)
qed

section \<open>Two ways in which it does not stop\<close>

text \<open>A machine that waits for the user forgets it at the next request for credentials while the access token has
  not expired by the clock: the request is served with that token, the state returns to \<open>authenticated\<close> with the error
  and the backoff cleared, and the renewal that follows the next 401 sends a stored credential upstream again.\<close>
theorem waiting_is_forgotten:
  assumes "au_loaded m" "au_cred m = Some c" "parked (auth_state_of m)"
    and "\<not> needs_refresh (st_token c) (io_check io) (ac_skew cfg)" "st_password c \<noteq> []"
  shows "fst (oa_credentials ops cfg io m) = Inr \<lparr>cr_session = oauth_session_id, cr_token = access_of c\<rparr>
    \<and> auth_state_of (snd (oa_credentials ops cfg io m)) = StateAuthenticated
    \<and> (\<exists>calls. au_sent (snd (oa_refresh_stale ops cfg io' (access_of c) (snd (oa_credentials ops cfg io m))))
            = au_sent m @ calls \<and> calls \<noteq> [])"
proof -
  let ?m = "on_gate gate_succeed m"
  have usable: "oa_usable c" using assms(5) by (simp add: oa_usable_def)
  have state: "auth_state_of m \<noteq> StateAuthenticated" using assms(3) by auto
  have cred: "oa_credentials ops cfg io m = (Inr \<lparr>cr_session = oauth_session_id, cr_token = access_of c\<rparr>, ?m)"
    using assms(1,2,4) usable state by (simp add: oa_credentials_def waiting_loaded Let_def)
  obtain t where t: "st_token c = Some t" using assms(4) by (cases "st_token c") (auto simp: needs_refresh_def)
  have stale: "oa_refresh_stale ops cfg io' (access_of c) ?m = oa_renew ops cfg io' c ?m"
    using assms(1,2) usable t
    by (simp add: oa_refresh_stale_def waiting_loaded renew_or_not_configured_def access_of_def)
  have open_gate: "gate_blocked (io_renew io') (au_gate ?m) = None" by (simp add: gate_blocked_def)
  have "\<exists>calls. au_sent (snd (oa_renew ops cfg io' c ?m)) = au_sent m @ calls \<and> calls \<noteq> []"
    by (cases rule: oa_renew_cases [where io = io' and m = ?m and ops = ops and cfg = cfg and cred = c])
      (use open_gate assms(5) in \<open>auto simp: renewed_def evidence_for_def\<close>)
  then show ?thesis by (simp add: cred stale auth_state_of_def)
qed

text \<open>A \<open>SessionID\<close> that logs in for one account while the user signs in to another leaves the second account's
  stored credentials with a session of the first, and that session is what the next \<open>SessionID\<close> hands out.\<close>
theorem session_of_another_account:
  fixes alice bob pa pb :: string and r :: session_reply
  assumes "pa \<noteq> []" "sr_session r \<noteq> []"
    and "io_grant ioa (PasswordGrant default_client_id alice pa) = Inr ga" "gr_access ga \<noteq> []"
    and "io_grant iob (PasswordGrant default_client_id bob pb) = Inr gb" "gr_access gb \<noteq> []"
  shows "let w = fold (oa_step mcs_ops default_auth_config)
                   [OaLogin alice pa ioa, OaSessionBegin, OaLogin bob pb iob, OaSessionEnd 0 (Inr r) io] (new_world None)
    in (\<exists>c. au_cred (w_auth w) = Some c \<and> st_username c = bob \<and> st_session c = sr_session r
           \<and> au_store (w_auth w) = Some c)
     \<and> fst (oa_session_begin mcs_ops default_auth_config (w_auth w)) = SessionHeld (sr_session r)"
proof -
  obtain ta where ta: "token_from (io_token ioa) ga [] = Inr ta"
    using assms(4) by (simp add: token_from_def Let_def)
  obtain tb where tb: "token_from (io_token iob) gb [] = Inr tb"
    using assms(6) by (simp add: token_from_def Let_def)
  show ?thesis using assms ta tb
    by (simp add: oa_login_def password_grant_def default_auth_config_def Let_def oa_session_begin_def
        oa_ensure_loaded_def load_once_def new_machine_def adopt_def oa_session_end_def mcs_save_def
        sending_def on_gate_def on_auth_def new_world_def)
qed

text \<open>The cached session id survives every renewal: only a login, the end of another \<open>SessionID\<close> and \<open>InvalidateSessionID\<close> change
  it, and nothing in the bridge calls the last.\<close>

lemma cached_session_survives:
  assumes "au_loaded (w_auth w)" "au_cred (w_auth w) = Some c" "event_io ev = Some io"
  shows "\<exists>c'. au_cred (w_auth (oa_step ops cfg ev w)) = Some c' \<and> st_session c' = st_session c"
proof -
  have l: "oa_ensure_loaded ops cfg (w_auth w) = (None, w_auth w)" using waiting_loaded [OF assms(1)] .
  have "\<exists>c'. au_cred (snd (oa_renew ops cfg io c (w_auth w))) = Some c' \<and> st_session c' = st_session c"
    by (cases rule: oa_renew_cases [where io = io and m = "w_auth w" and ops = ops and cfg = cfg and cred = c])
      (use assms(2) in \<open>auto simp: renewed_def\<close>)
  then show ?thesis using renewing_operation [OF assms(3) l] assms(2) by auto
qed

section \<open>Examples\<close>

text \<open>A moment at which the clock stands still and upstream answers every call the same way.\<close>

definition answering :: "gotime \<Rightarrow> go_error + grant_reply \<Rightarrow> go_error + session_reply \<Rightarrow> auth_io" where
  "answering t g l = \<lparr>io_check = t, io_renew = t, io_token = t, io_adopt = t, io_grant = (\<lambda>_. g), io_login = (\<lambda>_. l),
     io_exists = (\<lambda>_. Inr True)\<rparr>"

definition some_grant :: grant_reply where
  "some_grant = \<lparr>gr_access = ''at'', gr_refresh = ''rt'', gr_expires = 3600, gr_refresh_expires = 0\<rparr>"

definition no_session_answer :: "go_error + session_reply" where
  "no_session_answer = Inl (Plain [])"

definition accepted_at :: "gotime \<Rightarrow> auth_io" where
  "accepted_at t = answering t (Inr some_grant) no_session_answer"

definition rejected_at :: "gotime \<Rightarrow> auth_io" where
  "rejected_at t = answering t (Inl (Api (blank_error KindReauthRequired))) no_session_answer"

lemmas example_defs = answering_def some_grant_def no_session_answer_def accepted_at_def rejected_at_def

lemma run_of_events: "oa_run ops cfg (\<lambda>_. True) s (fold (oa_step ops cfg) evs (new_world s))"
proof (induction evs rule: rev_induct)
  case Nil
  show ?case by (simp add: oa_run.start)
next
  case (snoc ev evs)
  then have "oa_run ops cfg (\<lambda>_. True) s (oa_step ops cfg ev (fold (oa_step ops cfg) evs (new_world s)))"
    by (rule oa_run.step) (simp add: holds_def split: option.splits)
  then show ?case by simp
qed

definition signed_in :: "memory_creds oa_world" where
  "signed_in = fold (oa_step mcs_ops default_auth_config) [OaLogin ''derek'' ''pw'' (accepted_at 0)] (new_world None)"

definition stopped :: "memory_creds oa_world" where
  "stopped = fold (oa_step mcs_ops default_auth_config)
     [OaLogin ''derek'' ''pw'' (accepted_at 0), OaRefresh (rejected_at 0)] (new_world None)"

lemma signed_in_eq: "signed_in = \<lparr>w_auth = \<lparr>au_cred = Some \<lparr>st_username = ''derek'', st_password = ''pw'',
      st_token = Some \<lparr>t_access = ''at'', t_refresh = ''rt'', t_issued = Some 0, t_expiry = Some 3600000000000,
        t_refresh_expiry = Some 2592000000000000\<rparr>, st_session = [], st_mode = mode_oauth2, st_user = [], st_acc = 0,
      st_updated = Some 0\<rparr>, au_loaded = True, au_gate = gate_reset new_gate,
      au_store = Some \<lparr>st_username = ''derek'', st_password = ''pw'',
      st_token = Some \<lparr>t_access = ''at'', t_refresh = ''rt'', t_issued = Some 0, t_expiry = Some 3600000000000,
        t_refresh_expiry = Some 2592000000000000\<rparr>, st_session = [], st_mode = mode_oauth2, st_user = [], st_acc = 0,
      st_updated = Some 0\<rparr>, au_sent = [PasswordGrant ''OpenDrive'' ''derek'' ''pw'']\<rparr>, w_logins = []\<rparr>"
  by (simp add: signed_in_def oa_login_def password_grant_def token_from_def example_defs new_world_def new_machine_def
      adopt_def mcs_save_def on_auth_def on_gate_def sending_def default_auth_config_def default_client_id_def
      auth_constants wrap64_def Let_def)

lemma stopped_eq: "stopped = oa_step mcs_ops default_auth_config (OaRefresh (rejected_at 0)) signed_in"
  by (simp add: stopped_def signed_in_def)

lemmas step_eval = oa_refresh_def oa_ensure_loaded_def load_once_def renew_or_not_configured_def oa_usable_def oa_renew_def
  refresh_usable_def refresh_grant_def classify_renew_failure_def drives_auth_def gate_blocked_def Let_def

lemma stopped_state: "auth_state_of (w_auth stopped) = StateReauthRequired" "auth_state_of (w_auth signed_in) = StateAuthenticated"
  by (simp_all add: stopped_eq signed_in_eq step_eval example_defs auth_state_of_def gate_reset_def new_gate_def
      default_auth_config_def sending_def on_gate_def set_auth_state_def)

theorem auth_moves_on_evidence_witness:
  "\<exists>io cred calls. event_io (OaRefresh (rejected_at 0)) = Some io \<and> au_cred (w_auth stopped) = Some cred
    \<and> au_sent (w_auth stopped) = au_sent (w_auth signed_in) @ calls
    \<and> evidence_for io cred (auth_state_of (w_auth stopped)) calls"
  by (rule auth_moves_on_evidence [OF stopped_eq]) (simp_all add: stopped_state)

theorem waiting_is_silent_witness:
  "au_sent (w_auth (fold (oa_step mcs_ops default_auth_config)
      [OaRefresh (accepted_at 0), OaEnsureFresh (accepted_at 1), OaCredentials (accepted_at (seconds 3600)), OaLogout] stopped))
    = au_sent (w_auth stopped)"
proof -
  have run: "oa_run mcs_ops default_auth_config (\<lambda>_. True) None stopped"
    unfolding stopped_def by (rule run_of_events)
  show ?thesis
    by (rule waiting_is_silent [OF run]) (simp add: stopped_state, code_simp)
qed

lemma signed_in_parts:
  "au_loaded (w_auth signed_in)" "au_cred (w_auth stopped) = au_cred (w_auth signed_in)" "au_loaded (w_auth stopped)"
  by (simp_all add: stopped_eq signed_in_eq step_eval example_defs gate_reset_def new_gate_def
      default_auth_config_def sending_def on_gate_def set_auth_state_def)

definition renewed_at :: "gotime \<Rightarrow> auth_io" where
  "renewed_at t = answering t (Inr (some_grant\<lparr>gr_access := ''at2''\<rparr>)) no_session_answer"

theorem stale_renewals_collapse_witness:
  "let m1 = snd (oa_refresh_stale mcs_ops default_auth_config (renewed_at 5) ''at'' (w_auth signed_in))
   in fold (\<lambda>io m. snd (oa_refresh_stale mcs_ops default_auth_config io ''at'' m)) [renewed_at 6, renewed_at 7] m1 = m1
     \<and> (\<forall>io'. fst (oa_refresh_stale mcs_ops default_auth_config io' ''at'' m1) = None)"
proof -
  let ?r = "oa_refresh_stale mcs_ops default_auth_config (renewed_at 5) ''at'' (w_auth signed_in)"
  have r: "fst ?r = None \<and> map_option access_of (au_cred (snd ?r)) = Some ''at2''"
    by (simp add: oa_refresh_stale_def signed_in_eq step_eval example_defs renewed_at_def gate_reset_def new_gate_def
        token_from_def renewed_def access_of_def default_auth_config_def sending_def on_gate_def set_auth_state_def)
  then obtain c where c: "au_cred (snd ?r) = Some c" "access_of c = ''at2''" by auto
  have eq: "?r = (None, snd ?r)" using r by (metis prod.collapse)
  show ?thesis unfolding Let_def
    by (rule stale_renewals_collapse [OF eq _ c(1)]) (simp_all add: c(2))
qed

theorem waiting_is_forgotten_witness:
  "let m = w_auth stopped; m1 = snd (oa_credentials mcs_ops default_auth_config (accepted_at 1) m) in
     fst (oa_credentials mcs_ops default_auth_config (accepted_at 1) m) = Inr \<lparr>cr_session = oauth_session_id, cr_token = ''at''\<rparr>
     \<and> auth_state_of m1 = StateAuthenticated
     \<and> (\<exists>calls. au_sent (snd (oa_refresh_stale mcs_ops default_auth_config (rejected_at 2) ''at'' m1)) = au_sent m @ calls
            \<and> calls \<noteq> [])"
proof -
  obtain c where c: "au_cred (w_auth stopped) = Some c" "access_of c = ''at''" "st_password c = ''pw''"
      "\<not> needs_refresh (st_token c) 1 default_refresh_skew"
    by (simp add: signed_in_parts signed_in_eq access_of_def needs_refresh_def auth_constants)
  show ?thesis unfolding Let_def c(2) [symmetric]
    by (rule waiting_is_forgotten [OF signed_in_parts(3) c(1)])
      (use c in \<open>simp_all add: stopped_state accepted_at_def answering_def default_auth_config_def\<close>)
qed

theorem session_of_another_account_witness:
  "let w = fold (oa_step mcs_ops default_auth_config)
             [OaLogin ''alice'' ''a'' (accepted_at 0), OaSessionBegin, OaLogin ''bob'' ''b'' (accepted_at 1),
              OaSessionEnd 0 (Inr \<lparr>sr_session = ''s-alice'', sr_user = [], sr_acc = 0\<rparr>) (accepted_at 2)] (new_world None)
   in (\<exists>c. au_cred (w_auth w) = Some c \<and> st_username c = ''bob'' \<and> st_session c = ''s-alice'' \<and> au_store (w_auth w) = Some c)
     \<and> fst (oa_session_begin mcs_ops default_auth_config (w_auth w)) = SessionHeld ''s-alice''"
  using session_of_another_account [where r = "\<lparr>sr_session = ''s-alice'', sr_user = [], sr_acc = 0\<rparr>" and pa = "''a''"
      and alice = "''alice''" and bob = "''bob''" and pb = "''b''" and ioa = "accepted_at 0" and iob = "accepted_at 1"
      and ga = some_grant and gb = some_grant and io = "accepted_at 2"]
  by (simp add: example_defs)

end
