(* ===== verification/Session_Auth.thy ===== *)
theory Session_Auth
  imports Oauth2_Runs
begin

text \<open>
  \<open>pkg/opendrive/session.go\<close>: the session authenticator, in steps of one call each; and \<open>Login\<close> and \<open>Resume\<close> of
  \<open>auth.go\<close>, which choose between the two authenticators.
\<close>

section \<open>The authenticator\<close>

record 's session_machine =
  sm_base :: "'s auth_machine"
  sm_info :: session_reply

definition on_base :: "('s auth_machine \<Rightarrow> 's auth_machine) \<Rightarrow> 's session_machine \<Rightarrow> 's session_machine" where
  "on_base f m = m\<lparr>sm_base := f (sm_base m)\<rparr>"

definition new_session_auth :: "'s \<Rightarrow> 's session_machine" where
  "new_session_auth s = \<lparr>sm_base = new_machine s, sm_info = no_session_reply\<rparr>"

lemma base_simps [simp]:
  "sm_base (on_base f m) = f (sm_base m)" "sm_info (on_base f m) = sm_info m"
  "sm_base (new_session_auth s) = new_machine s"
  by (simp_all add: on_base_def new_session_auth_def)

text \<open>The raw login call.\<close>

definition session_login :: "auth_io \<Rightarrow> string \<Rightarrow> string \<Rightarrow> go_error + session_reply" where
  "session_login io user pw =
     (case io_login io (SessionLoginCall user pw) of
        Inl e \<Rightarrow> Inl e
      | Inr r \<Rightarrow>
          if sr_session r = [] then
            Inl (Api ((blank_error KindInvalidResponse)\<lparr>upstream_msg := ''login response carried no SessionID''\<rparr>))
          else Inr r)"

definition sa_usable :: "stored \<Rightarrow> bool" where
  "sa_usable c \<longleftrightarrow> st_session c \<noteq> [] \<or> st_password c \<noteq> []"

definition sa_ensure_loaded :: "'s cred_ops \<Rightarrow> auth_config \<Rightarrow> 's auth_machine \<Rightarrow> api_error option \<times> 's auth_machine" where
  "sa_ensure_loaded = load_once sa_usable"

definition sa_login :: "'s cred_ops \<Rightarrow> auth_config \<Rightarrow> auth_io \<Rightarrow> string \<Rightarrow> string \<Rightarrow> 's session_machine \<Rightarrow> (go_error + session_reply) \<times> 's session_machine" where
  "sa_login ops cfg io user pw m =
     (let m1 = on_base (sending (SessionLoginCall user pw)) m in
      case session_login io user pw of
        Inl e \<Rightarrow> (Inl e, m1)
      | Inr r \<Rightarrow>
          let cred = \<lparr>st_username = user, st_password = (if ac_persist cfg then pw else []), st_token = None,
                      st_session = sr_session r, st_mode = mode_session, st_user = sr_user r, st_acc = sr_acc r,
                      st_updated = None\<rparr>
          in (Inr r, (on_base (\<lambda>b. on_gate gate_reset (adopt ops cfg (io_adopt io) cred (b\<lparr>au_loaded := True\<rparr>))) m1)
                       \<lparr>sm_info := r\<rparr>))"

definition classify_session_failure :: "gotime \<Rightarrow> go_error \<Rightarrow> renew_gate \<Rightarrow> api_error \<times> renew_gate" where
  "classify_session_failure now err g =
     (case as_api err of
        None \<Rightarrow> (let e = (blank_error KindNetwork)\<lparr>cause := Some OtherCause\<rparr> in (e, gate_backoff now e g))
      | Some ae \<Rightarrow>
          if \<not> drives_auth (Some ae) then (ae, gate_backoff now ae g)
          else case kind ae of
            KindReauthRequired \<Rightarrow>
              (let e = reauth_error ''upstream rejected the stored credentials; the password has probably changed''
               in (e, gate_terminal StateReauthRequired e g))
          | KindCaptchaRequired \<Rightarrow> (ae, gate_terminal StateCaptchaRequired ae g)
          | _ \<Rightarrow> (ae, gate_backoff now ae g))"

text \<open>\<open>renewLocked\<close>, with the credentials its callers have found.\<close>

definition sa_renew :: "'s cred_ops \<Rightarrow> auth_config \<Rightarrow> auth_io \<Rightarrow> stored \<Rightarrow> 's session_machine \<Rightarrow> api_error option \<times> 's session_machine" where
  "sa_renew ops cfg io cred m =
     (case gate_blocked (io_renew io) (au_gate (sm_base m)) of
        Some e \<Rightarrow> (Some e, m)
      | None \<Rightarrow>
          let m0 = on_base (set_auth_state StateRefreshing) m in
          if st_password cred = [] then
            let e = reauth_error ''the session has expired and no password is stored; log in again''
            in (Some e, on_base (on_gate (gate_terminal StateReauthRequired e)) m0)
          else
            let m1 = on_base (sending (SessionLoginCall (st_username cred) (st_password cred))) m0 in
            case session_login io (st_username cred) (st_password cred) of
              Inr r \<Rightarrow>
                (None, (on_base (\<lambda>b. on_gate gate_succeed (adopt ops cfg (io_adopt io)
                          (cred\<lparr>st_session := sr_session r, st_user := sr_user r, st_acc := sr_acc r\<rparr>) b)) m1)
                         \<lparr>sm_info := r\<rparr>)
            | Inl err \<Rightarrow>
                case classify_session_failure (io_renew io) err (au_gate (sm_base m1)) of
                  (e, g) \<Rightarrow> (Some e, on_base (\<lambda>b. b\<lparr>au_gate := g\<rparr>) m1))"

definition sa_not_configured :: "'s session_machine \<Rightarrow> 's session_machine" where
  "sa_not_configured = on_base (set_auth_state StateNotConfigured)"

definition drop_session :: "'s session_machine \<Rightarrow> 's session_machine" where
  "drop_session = on_base (\<lambda>b. b\<lparr>au_cred := map_option (\<lambda>c. c\<lparr>st_session := []\<rparr>) (au_cred b)\<rparr>)"

definition current_session_id :: "'s session_machine \<Rightarrow> string" where
  "current_session_id m = (case au_cred (sm_base m) of None \<Rightarrow> [] | Some c \<Rightarrow> st_session c)"

definition sa_load :: "'s cred_ops \<Rightarrow> auth_config \<Rightarrow> 's session_machine \<Rightarrow> api_error option \<times> 's session_machine" where
  "sa_load ops cfg m = (case sa_ensure_loaded ops cfg (sm_base m) of (e, b) \<Rightarrow> (e, m\<lparr>sm_base := b\<rparr>))"

definition sa_credentials :: "'s cred_ops \<Rightarrow> auth_config \<Rightarrow> auth_io \<Rightarrow> 's session_machine \<Rightarrow> (api_error + credentials) \<times> 's session_machine" where
  "sa_credentials ops cfg io m =
     (case sa_load ops cfg m of
        (Some e, m1) \<Rightarrow> (Inl e, m1)
      | (None, m1) \<Rightarrow>
          let hand = (\<lambda>m. (Inr \<lparr>cr_session = current_session_id m, cr_token = []\<rparr>, m)) in
          case au_cred (sm_base m1) of
            None \<Rightarrow> (Inl not_configured_error, sa_not_configured m1)
          | Some cred \<Rightarrow>
              if \<not> sa_usable cred then (Inl not_configured_error, sa_not_configured m1)
              else if st_session cred = [] then
                case sa_renew ops cfg io cred m1 of
                  (Some e, m2) \<Rightarrow> (Inl e, m2)
                | (None, m2) \<Rightarrow> hand m2
              else hand (if auth_state_of (sm_base m1) \<noteq> StateAuthenticated then on_base (on_gate gate_succeed) m1 else m1))"

definition sa_refresh :: "'s cred_ops \<Rightarrow> auth_config \<Rightarrow> auth_io \<Rightarrow> 's session_machine \<Rightarrow> api_error option \<times> 's session_machine" where
  "sa_refresh ops cfg io m =
     (case sa_load ops cfg m of
        (Some e, m1) \<Rightarrow> (Some e, m1)
      | (None, m1) \<Rightarrow>
          case au_cred (sm_base m1) of
            None \<Rightarrow> (Some not_configured_error, sa_not_configured m1)
          | Some cred \<Rightarrow>
              if \<not> sa_usable cred then (Some not_configured_error, sa_not_configured m1)
              else sa_renew ops cfg io (cred\<lparr>st_session := []\<rparr>) (drop_session m1))"

definition session_exists :: "auth_io \<Rightarrow> string \<Rightarrow> go_error + bool" where
  "session_exists io session = io_exists io (SessionExistsCall session)"

definition sa_ensure_fresh :: "'s cred_ops \<Rightarrow> auth_config \<Rightarrow> auth_io \<Rightarrow> 's session_machine \<Rightarrow> api_error option \<times> 's session_machine" where
  "sa_ensure_fresh ops cfg io m =
     (case sa_load ops cfg m of
        (Some e, m1) \<Rightarrow> (Some e, m1)
      | (None, m1) \<Rightarrow>
          case au_cred (sm_base m1) of
            None \<Rightarrow> (Some not_configured_error, sa_not_configured m1)
          | Some cred \<Rightarrow>
              if \<not> sa_usable cred then (Some not_configured_error, sa_not_configured m1)
              else if st_session cred = [] then sa_renew ops cfg io cred m1
              else
                let m2 = on_base (sending (SessionExistsCall (st_session cred))) m1 in
                if session_exists io (st_session cred) = Inr True then (None, on_base (on_gate gate_succeed) m2)
                else sa_renew ops cfg io (cred\<lparr>st_session := []\<rparr>) (drop_session m2))"

definition sa_logout :: "'s cred_ops \<Rightarrow> auth_config \<Rightarrow> go_error option \<Rightarrow> 's session_machine \<Rightarrow> go_error option \<times> 's session_machine" where
  "sa_logout ops cfg answer m =
     (let session = current_session_id m;
          b1 = (sm_base m)\<lparr>au_cred := None, au_loaded := True, au_gate := new_gate\<rparr>;
          b2 = (if session \<noteq> [] then sending (SessionLogoutCall session) b1 else b1);
          req = (if session \<noteq> [] then answer else None)
      in if \<not> ac_has_store cfg then (req, \<lparr>sm_base = b2, sm_info = no_session_reply\<rparr>)
         else case cs_delete ops (au_store b2) of
           (err, s) \<Rightarrow>
             (case err of Some e \<Rightarrow> Some (Api (keystore_error e)) | None \<Rightarrow> req,
              \<lparr>sm_base = b2\<lparr>au_store := s\<rparr>, sm_info = no_session_reply\<rparr>))"

definition sa_identity :: "'s session_machine \<Rightarrow> identity" where
  "sa_identity m =
     (case au_cred (sm_base m) of
        None \<Rightarrow> no_identity mode_session
      | Some c \<Rightarrow> \<lparr>id_username = st_username c, id_user = st_user c, id_acc = st_acc c, id_mode = mode_session,
                  id_seamless = (st_password c \<noteq> [] \<and> auth_state_of (sm_base m) \<noteq> StateKeystoreUnavailable)\<rparr>)"

definition sa_session_id :: "'s cred_ops \<Rightarrow> auth_config \<Rightarrow> auth_io \<Rightarrow> 's session_machine \<Rightarrow> (api_error + string) \<times> 's session_machine" where
  "sa_session_id ops cfg io m =
     (case sa_credentials ops cfg io m of
        (Inl e, m1) \<Rightarrow> (Inl e, m1)
      | (Inr cr, m1) \<Rightarrow> (Inr (cr_session cr), m1))"

definition sa_exists :: "auth_io \<Rightarrow> 's session_machine \<Rightarrow> (go_error + bool) \<times> 's session_machine" where
  "sa_exists io m =
     (let session = current_session_id m in
      if session = [] then (Inr False, m)
      else (session_exists io session, on_base (sending (SessionExistsCall session)) m))"

definition sa_adopt_loaded :: "stored \<Rightarrow> 's session_machine \<Rightarrow> 's session_machine" where
  "sa_adopt_loaded cred m =
     on_base (\<lambda>b. let b1 = b\<lparr>au_cred := Some cred, au_loaded := True\<rparr>
                  in if sa_usable cred then set_auth_state StateAuthenticated b1 else b1) m"

section \<open>Login and Resume\<close>

definition grant_unsupported :: "go_error \<Rightarrow> bool" where
  "grant_unsupported err =
     (case as_api err of
        None \<Rightarrow> False
      | Some ae \<Rightarrow> if http_code ae = 404 \<or> http_code ae = 501 \<or> http_code ae = 405 then True
                  else kind ae = KindInvalidResponse)"

datatype 's authenticator = UsesOAuth2 "'s auth_machine" | UsesSession "'s session_machine"

definition sent_of :: "'s authenticator \<Rightarrow> auth_call list" where
  "sent_of a = (case a of UsesOAuth2 m \<Rightarrow> au_sent m | UsesSession m \<Rightarrow> au_sent (sm_base m))"

text \<open>The result is the error or the authenticator attached, with the requests sent and the store as it is left.\<close>

definition sdk_login ::
  "'s cred_ops \<Rightarrow> auth_config \<Rightarrow> auth_io \<Rightarrow> string \<Rightarrow> string \<Rightarrow> string \<Rightarrow> 's \<Rightarrow> (go_error + 's authenticator) \<times> auth_call list \<times> 's" where
  "sdk_login ops cfg io mode user pw s =
     (let session = (\<lambda>calls s.
            case sa_login ops cfg io user pw (new_session_auth s) of
              (Inl e, m) \<Rightarrow> (Inl e, calls @ au_sent (sm_base m), au_store (sm_base m))
            | (Inr _, m) \<Rightarrow> (Inr (UsesSession m), calls @ au_sent (sm_base m), au_store (sm_base m)))
      in if mode = mode_session then session [] s
         else case oa_login ops cfg io user pw (new_machine s) of
           (None, m) \<Rightarrow> (Inr (UsesOAuth2 m), au_sent m, au_store m)
         | (Some err, m) \<Rightarrow>
             if \<not> grant_unsupported err then (Inl err, au_sent m, au_store m)
             else session (au_sent m) (au_store m))"

definition resume :: "'s cred_ops \<Rightarrow> 's \<Rightarrow> api_error + 's authenticator" where
  "resume ops s =
     (case cs_load ops s of
        (LoadFailed err, _) \<Rightarrow> Inl (keystore_error err)
      | (NoCredentials, s) \<Rightarrow> Inr (UsesOAuth2 (new_machine s))
      | (Loaded cred, s) \<Rightarrow>
          if st_mode cred = mode_session then Inr (UsesSession (sa_adopt_loaded cred (new_session_auth s)))
          else Inr (UsesOAuth2 (oa_adopt_loaded cred (new_machine s))))"

section \<open>Runs\<close>

datatype sa_event =
    SaLogin string string auth_io
  | SaCredentials auth_io
  | SaRefresh auth_io
  | SaEnsureFresh auth_io
  | SaExists auth_io
  | SaLogout "go_error option"

fun sa_step :: "'s cred_ops \<Rightarrow> auth_config \<Rightarrow> sa_event \<Rightarrow> 's session_machine \<Rightarrow> 's session_machine" where
  "sa_step ops cfg (SaLogin u p io) m = snd (sa_login ops cfg io u p m)"
| "sa_step ops cfg (SaCredentials io) m = snd (sa_credentials ops cfg io m)"
| "sa_step ops cfg (SaRefresh io) m = snd (sa_refresh ops cfg io m)"
| "sa_step ops cfg (SaEnsureFresh io) m = snd (sa_ensure_fresh ops cfg io m)"
| "sa_step ops cfg (SaExists io) m = snd (sa_exists io m)"
| "sa_step ops cfg (SaLogout answer) m = snd (sa_logout ops cfg answer m)"

definition is_user_login :: "sa_event \<Rightarrow> bool" where
  "is_user_login ev = (case ev of SaLogin _ _ _ \<Rightarrow> True | _ \<Rightarrow> False)"

inductive sa_run :: "'s cred_ops \<Rightarrow> auth_config \<Rightarrow> 's \<Rightarrow> 's session_machine \<Rightarrow> bool" for ops cfg s where
  fresh: "sa_run ops cfg s (new_session_auth s)"
| resumed: "sa_run ops cfg s (sa_adopt_loaded cred (new_session_auth s))"
| move: "sa_run ops cfg s m \<Longrightarrow> sa_run ops cfg s (sa_step ops cfg ev m)"

text \<open>Waiting: no session, and either a verdict that only the user can lift or no password to log in with.\<close>

definition sa_waiting :: "'s session_machine \<Rightarrow> bool" where
  "sa_waiting m \<longleftrightarrow> au_loaded (sm_base m) \<and> current_session_id m = []
     \<and> (parked (auth_state_of (sm_base m)) \<and> g_last (au_gate (sm_base m)) \<noteq> None \<or> holds (\<lambda>c. \<not> sa_usable c) (sm_base m))"

definition sa_reasoned :: "'s session_machine \<Rightarrow> bool" where
  "sa_reasoned m \<longleftrightarrow> (parked (auth_state_of (sm_base m)) \<longrightarrow> sa_waiting m)"

lemma classify_session_cases:
  obtains (waits) e where "classify_session_failure now err g = (e, gate_backoff now e g)"
  | (stops) e st where "parked st" "classify_session_failure now err g = (e, gate_terminal st e g)"
proof (cases "as_api err")
  case None
  then show ?thesis using waits by (simp add: classify_session_failure_def Let_def)
next
  case (Some ae)
  show ?thesis
  proof (cases "drives_auth (Some ae)")
    case False
    then show ?thesis using Some waits by (simp add: classify_session_failure_def)
  next
    case True
    then show ?thesis using Some waits stops [of StateReauthRequired] stops [of StateCaptchaRequired]
      by (cases "kind ae") (simp_all add: classify_session_failure_def Let_def)
  qed
qed

lemma sa_load_loaded: "au_loaded (sm_base m) \<Longrightarrow> sa_load ops cfg m = (None, m)"
  by (simp add: sa_load_def sa_ensure_loaded_def load_once_def)

lemma sa_waiting_renew:
  assumes "sa_waiting m" "au_cred (sm_base m) = Some c" "sa_usable c"
  obtains e where "\<And>ops cfg io c'. sa_renew ops cfg io c' m = (Some e, m)"
proof -
  have "parked (g_state (au_gate (sm_base m)))" "g_last (au_gate (sm_base m)) \<noteq> None"
    using assms by (auto simp: sa_waiting_def auth_state_of_def holds_def)
  then obtain e where "\<And>now. gate_blocked now (au_gate (sm_base m)) = Some e"
    by (auto simp: gate_blocked_parked)
  then show ?thesis by (intro that) (simp add: sa_renew_def)
qed

lemma drop_no_session: "current_session_id m = [] \<Longrightarrow> drop_session m = m"
  by (cases "au_cred (sm_base m)") (auto simp: drop_session_def on_base_def current_session_id_def)

lemma sa_waiting_nothing: "sa_waiting m \<Longrightarrow> holds (\<lambda>c. \<not> sa_usable c) (sm_base m) \<Longrightarrow> sa_waiting (sa_not_configured m)"
  by (auto simp: sa_waiting_def sa_not_configured_def holds_def current_session_id_def)

text \<open>One step of a waiting machine other than a login by the user: it still waits, and nothing was sent.\<close>

lemma sa_quiet_step:
  assumes w: "sa_waiting m" and q: "\<not> is_user_login ev"
  shows "sa_waiting (sa_step ops cfg ev m) \<and> au_sent (sm_base (sa_step ops cfg ev m)) = au_sent (sm_base m)"
proof -
  have l: "sa_load ops cfg m = (None, m)" and none: "current_session_id m = []"
    using w sa_load_loaded by (auto simp: sa_waiting_def)
  show ?thesis
  proof (cases "\<exists>c. au_cred (sm_base m) = Some c \<and> sa_usable c")
    case True
    then obtain c where c: "au_cred (sm_base m) = Some c" "sa_usable c" by auto
    have s: "st_session c = []" using none c by (simp add: current_session_id_def)
    obtain e where blocked: "\<And>ops cfg io c'. sa_renew ops cfg io c' m = (Some e, m)"
      using sa_waiting_renew [OF w c] by metis
    have "sa_step ops cfg ev m = m" if "\<And>a. ev \<noteq> SaLogout a"
      using that q l c s none drop_no_session [OF none] blocked
      by (cases ev) (auto simp: is_user_login_def sa_credentials_def sa_refresh_def sa_ensure_fresh_def sa_exists_def
          Let_def split: prod.splits option.splits)
    moreover have "sa_waiting (sa_step ops cfg (SaLogout a) m)
        \<and> au_sent (sm_base (sa_step ops cfg (SaLogout a) m)) = au_sent (sm_base m)" for a
      using none by (auto simp: sa_logout_def sa_waiting_def holds_def current_session_id_def Let_def split: prod.splits)
    ultimately show ?thesis using w by (cases ev) auto
  next
    case False
    then have unusable: "holds (\<lambda>c. \<not> sa_usable c) (sm_base m)" by (auto simp: holds_def split: option.splits)
    have stays: "sa_waiting (sa_not_configured m)" by (rule sa_waiting_nothing [OF w unusable])
    have "sa_step ops cfg ev m \<in> {m, sa_not_configured m}" if "\<And>a. ev \<noteq> SaLogout a"
      using that q l False none
      by (cases ev; cases "au_cred (sm_base m)")
        (auto simp: is_user_login_def sa_credentials_def sa_refresh_def sa_ensure_fresh_def sa_exists_def Let_def)
    moreover have "au_sent (sm_base (sa_not_configured m)) = au_sent (sm_base m)" by (simp add: sa_not_configured_def)
    moreover have "sa_waiting (sa_step ops cfg (SaLogout a) m)
        \<and> au_sent (sm_base (sa_step ops cfg (SaLogout a) m)) = au_sent (sm_base m)" for a
      using none by (auto simp: sa_logout_def sa_waiting_def holds_def current_session_id_def Let_def split: prod.splits)
    ultimately show ?thesis using w stays by (cases ev) auto
  qed
qed

lemma sa_quiet_events:
  assumes "sa_waiting m" "list_all (\<lambda>ev. \<not> is_user_login ev) evs"
  shows "sa_waiting (fold (sa_step ops cfg) evs m)
    \<and> au_sent (sm_base (fold (sa_step ops cfg) evs m)) = au_sent (sm_base m)"
  using assms
proof (induction evs arbitrary: m)
  case Nil
  then show ?case by simp
next
  case (Cons ev evs)
  then show ?case using sa_quiet_step [of m ev ops cfg] by auto
qed

lemma sa_reasoned_unparked: "\<not> parked (g_state (au_gate (sm_base m))) \<Longrightarrow> sa_reasoned m"
  by (simp add: sa_reasoned_def auth_state_of_def)

lemma sa_renew_reasoned:
  assumes "sa_reasoned m" "au_loaded (sm_base m)" "current_session_id m = []"
  shows "sa_reasoned (snd (sa_renew ops cfg io c m))"
proof (cases "gate_blocked (io_renew io) (au_gate (sm_base m))")
  case (Some e)
  then show ?thesis using assms(1) by (simp add: sa_renew_def)
next
  case None
  show ?thesis
  proof (cases "st_password c = []")
    case True
    then show ?thesis using None assms
      by (simp add: sa_renew_def sa_reasoned_def sa_waiting_def auth_state_of_def current_session_id_def Let_def)
  next
    case False
    show ?thesis
    proof (cases "session_login io (st_username c) (st_password c)")
      case (Inr r)
      then show ?thesis using None False
        by (intro sa_reasoned_unparked) (simp add: sa_renew_def Let_def)
    next
      case (Inl err)
      let ?g = "(au_gate (sm_base m))\<lparr>g_state := StateRefreshing\<rparr>"
      show ?thesis
      proof (cases rule: classify_session_cases [where err = err and now = "io_renew io" and g = ?g])
        case (waits e)
        then show ?thesis using None False Inl
          by (intro sa_reasoned_unparked) (simp add: sa_renew_def Let_def)
      next
        case (stops e st)
        then show ?thesis using None False Inl assms
          by (simp add: sa_renew_def sa_reasoned_def sa_waiting_def auth_state_of_def current_session_id_def Let_def)
      qed
    qed
  qed
qed

lemma sa_load_effect:
  assumes "sa_load ops cfg m = (e, m1)" "sa_reasoned m"
  shows "sa_reasoned m1 \<and> (e = None \<longrightarrow> au_loaded (sm_base m1))"
proof (cases "au_loaded (sm_base m)")
  case True
  then show ?thesis using sa_load_loaded assms by (metis Pair_inject)
next
  case False
  then have "\<not> parked (auth_state_of (sm_base m))" using assms(2) by (auto simp: sa_reasoned_def sa_waiting_def)
  then show ?thesis using assms(1) False
    by (auto simp: sa_load_def sa_ensure_loaded_def load_once_def auth_state_of_def Let_def
        intro!: sa_reasoned_unparked split: prod.splits load_answer.splits if_splits)
qed

lemma drop_session_effect:
  assumes "sa_reasoned m"
  shows "sa_reasoned (drop_session m)" "current_session_id (drop_session m) = []"
    "au_loaded (sm_base (drop_session m)) = au_loaded (sm_base m)"
proof -
  show "sa_reasoned (drop_session m)"
  proof (cases "parked (auth_state_of (sm_base m))")
    case True
    then show ?thesis using assms drop_no_session [of m] by (simp add: sa_reasoned_def sa_waiting_def)
  next
    case False
    then show ?thesis by (intro sa_reasoned_unparked) (simp add: drop_session_def auth_state_of_def)
  qed
qed (auto simp: drop_session_def current_session_id_def split: option.splits)

lemma sa_reasoned_nothing: "sa_reasoned (sa_not_configured m)"
  by (rule sa_reasoned_unparked) (simp add: sa_not_configured_def)

lemma sa_reasoned_succeed: "sa_reasoned (on_base (on_gate gate_succeed) m)"
  by (rule sa_reasoned_unparked) simp

lemma sa_reasoned_sending: "sa_reasoned m \<Longrightarrow> sa_reasoned (on_base (sending x) m)"
  by (auto simp: sa_reasoned_def sa_waiting_def auth_state_of_def holds_def current_session_id_def)

lemma sa_reasoned_step:
  assumes r: "sa_reasoned m"
  shows "sa_reasoned (sa_step ops cfg ev m)"
proof -
  obtain e m1 where l: "sa_load ops cfg m = (e, m1)" by fastforce
  have r1: "sa_reasoned m1" and loaded: "e = None \<Longrightarrow> au_loaded (sm_base m1)" using sa_load_effect [OF l r] by auto
  note dropped = drop_session_effect [OF r1] drop_session_effect [OF sa_reasoned_sending [OF r1]]
  show ?thesis
  proof (cases ev)
    case (SaLogin u p io)
    then show ?thesis using sa_reasoned_sending [OF r]
      by (cases "session_login io u p") (auto simp: sa_login_def Let_def intro!: sa_reasoned_unparked)
  next
    case (SaCredentials io)
    have "sa_reasoned m2" if "sa_renew ops cfg io c m1 = (x, m2)" "e = None" "au_cred (sm_base m1) = Some c" "st_session c = []"
      for c x m2
      using sa_renew_reasoned [OF r1 loaded, where io = io and c = c and ops = ops and cfg = cfg] that
      by (simp add: current_session_id_def)
    then show ?thesis using SaCredentials l r1 sa_reasoned_nothing sa_reasoned_succeed
      by (cases e; cases "au_cred (sm_base m1)") (auto simp: sa_credentials_def Let_def split: prod.splits option.splits)
  next
    case (SaRefresh io)
    then show ?thesis using l r1 sa_reasoned_nothing sa_renew_reasoned [OF dropped(1) _ dropped(2)] loaded dropped(3)
      by (cases e; cases "au_cred (sm_base m1)") (auto simp: sa_refresh_def)
  next
    case (SaEnsureFresh io)
    have "sa_reasoned (snd (sa_renew ops cfg io c m1))" if "e = None" "au_cred (sm_base m1) = Some c" "st_session c = []" for c
      using sa_renew_reasoned [OF r1 loaded, where io = io and c = c and ops = ops and cfg = cfg] that
      by (simp add: current_session_id_def)
    moreover have "sa_reasoned (snd (sa_renew ops cfg io c (drop_session (on_base (sending x) m1))))" if "e = None" for c x
      by (rule sa_renew_reasoned [OF dropped(4) _ dropped(5)]) (use loaded that dropped(6) in simp)
    ultimately show ?thesis using SaEnsureFresh l r1 sa_reasoned_nothing sa_reasoned_succeed
      by (cases e; cases "au_cred (sm_base m1)") (auto simp: sa_ensure_fresh_def Let_def)
  next
    case (SaExists io)
    then show ?thesis using r sa_reasoned_sending [OF r] by (simp add: sa_exists_def Let_def)
  next
    case (SaLogout a)
    then show ?thesis by (auto simp: sa_logout_def Let_def intro!: sa_reasoned_unparked split: prod.splits)
  qed
qed

lemma sa_run_reasoned: "sa_run ops cfg s m \<Longrightarrow> sa_reasoned m"
proof (induction rule: sa_run.induct)
  case fresh
  show ?case by (rule sa_reasoned_unparked) (simp add: new_machine_def)
next
  case (resumed cred)
  show ?case by (rule sa_reasoned_unparked) (simp add: sa_adopt_loaded_def new_machine_def Let_def)
next
  case (move m ev)
  from move.IH show ?case by (rule sa_reasoned_step)
qed

text \<open>In session mode a rejected password is never sent again: in any run, from a moment at which the state
  is \<open>reauth_required\<close> or \<open>captcha_required\<close>, no sequence of calls without a login by the user sends any request
  upstream, at any time and whatever upstream would answer.\<close>
theorem rejected_session_is_silent:
  assumes "sa_run ops cfg s m" "parked (auth_state_of (sm_base m))" "list_all (\<lambda>ev. \<not> is_user_login ev) evs"
  shows "au_sent (sm_base (fold (sa_step ops cfg) evs m)) = au_sent (sm_base m)"
proof -
  have "sa_waiting m" using sa_run_reasoned [OF assms(1)] assms(2) by (simp add: sa_reasoned_def)
  from sa_quiet_events [OF this assms(3)] show ?thesis by blast
qed

section \<open>Choosing the authenticator\<close>

lemma oa_login_sent:
  "au_sent (snd (oa_login ops cfg io u p m)) = au_sent m @ [PasswordGrant (ac_client_id cfg) u p]"
proof -
  obtain ans where "password_grant cfg io u p m = (ans, sending (PasswordGrant (ac_client_id cfg) u p) m)"
    by (metis password_grant_state prod.collapse)
  then show ?thesis by (cases ans) (simp_all add: oa_login_def Let_def)
qed

lemma sa_login_sent: "au_sent (sm_base (snd (sa_login ops cfg io u p m))) = au_sent (sm_base m) @ [SessionLoginCall u p]"
  by (cases "session_login io u p") (simp_all add: sa_login_def Let_def)

text \<open>\<open>Login\<close> offers the password once, to the scheme asked for; a second time, to the session login, only when the grant
  failed with an error that says the deployment has no grant endpoint - never after an answer that rejects the credentials or asks
  for a captcha. It succeeds exactly when the last offer was accepted.\<close>
theorem password_offered_once:
  "let grant = PasswordGrant (ac_client_id cfg) user pw; login = SessionLoginCall user pw;
       refused = fst (oa_login ops cfg io user pw (new_machine s));
       res = fst (sdk_login ops cfg io mode user pw s); calls = fst (snd (sdk_login ops cfg io mode user pw s))
   in calls = (if mode = mode_session then [login]
               else if (\<exists>e. refused = Some e \<and> grant_unsupported e) then [grant, login] else [grant])
      \<and> (is_ok res \<longleftrightarrow>
           (if login \<in> set calls then is_ok (session_login io user pw) else refused = None))"
proof -
  obtain res calls s' where run: "sdk_login ops cfg io mode user pw s = (res, calls, s')"
    by (metis prod.collapse)
  let ?o = "oa_login ops cfg io user pw (new_machine s)"
  have o: "au_sent (snd ?o) = [PasswordGrant (ac_client_id cfg) user pw]"
    by (simp add: oa_login_sent new_machine_def)
  have sess: "au_sent (sm_base (snd (sa_login ops cfg io user pw (new_session_auth t)))) = [SessionLoginCall user pw]" for t
    by (simp add: sa_login_sent new_machine_def)
  have accepted: "is_ok (fst (sa_login ops cfg io user pw m)) = is_ok (session_login io user pw)" for m
    by (cases "session_login io user pw") (simp_all add: sa_login_def Let_def)
  show ?thesis
  proof (cases "mode = mode_session \<or> (\<exists>e. fst ?o = Some e \<and> grant_unsupported e)")
    case True
    have eq: "calls = (if mode = mode_session then [] else [PasswordGrant (ac_client_id cfg) user pw]) @ [SessionLoginCall user pw]"
      "is_ok res = is_ok (session_login io user pw)"
      using run True o sess accepted
      by (auto simp: sdk_login_def Let_def split: prod.splits sum.splits if_splits option.splits) (metis fst_conv snd_conv is_ok_simps)+
    then show ?thesis using True run by (auto simp: Let_def)
  next
    case False
    then have "calls = [PasswordGrant (ac_client_id cfg) user pw]" "is_ok res \<longleftrightarrow> fst ?o = None"
      using run o by (auto simp: sdk_login_def Let_def split: prod.splits option.splits if_splits)
    then show ?thesis using False run by (auto simp: Let_def)
  qed
qed

section \<open>An example\<close>

definition session_answer :: "go_error + session_reply \<Rightarrow> auth_io" where
  "session_answer l = answering 0 (Inl (Plain [])) l"

definition stopped_session :: "memory_creds session_machine" where
  "stopped_session = sa_step mcs_ops default_auth_config (SaRefresh (session_answer (Inl (Api (blank_error KindReauthRequired)))))
     (sa_step mcs_ops default_auth_config
        (SaLogin ''derek'' ''pw'' (session_answer (Inr \<lparr>sr_session = ''s'', sr_user = ''7'', sr_acc = 1\<rparr>))) (new_session_auth None))"

lemma stopped_session_state: "auth_state_of (sm_base stopped_session) = StateReauthRequired"
  by (simp add: stopped_session_def sa_login_def session_login_def session_answer_def answering_def adopt_def
      default_auth_config_def sa_refresh_def sa_load_loaded sa_usable_def sa_renew_def gate_blocked_def drop_session_def
      classify_session_failure_def drives_auth_def auth_state_of_def mcs_save_def Let_def)

theorem rejected_session_is_silent_witness:
  "let io = session_answer (Inr \<lparr>sr_session = ''t'', sr_user = ''7'', sr_acc = 1\<rparr>) in
   au_sent (sm_base (fold (sa_step mcs_ops default_auth_config) [SaCredentials io, SaRefresh io, SaEnsureFresh io, SaLogout None]
      stopped_session)) = au_sent (sm_base stopped_session)"
proof -
  have run: "sa_run mcs_ops default_auth_config None stopped_session"
    unfolding stopped_session_def by (intro sa_run.move sa_run.fresh)
  show ?thesis unfolding Let_def
    by (rule rejected_session_is_silent [OF run]) (simp_all add: stopped_session_state is_user_login_def)
qed

end
