(* ===== verification/Env_Format.thy ===== *)
theory Env_Format
  imports Paths "HOL-Library.List_Lexorder" "HOL-Library.Word"
begin

text \<open>
  The text inside the credential file: the KEY=VALUE format of \<open>internal/keystore/env.go\<close>. Quoting and its inverse,
  rendering in key order, parsing line by line, the checksum, and the round trip: what was
  rendered parses to the same fields, unless a value has a line break in it.

  SHA-256 is an argument: any function from bytes to a 256-bit word.
\<close>

section \<open>Quoting\<close>

abbreviation backslash :: char where "backslash \<equiv> CHR 0x5C"
abbreviation quote :: char where "quote \<equiv> CHR 0x22"
abbreviation newline :: char where "newline \<equiv> CHR 0x0A"
abbreviation apostrophe :: char where "apostrophe \<equiv> CHR 0x27"

definition escape_quoted :: "string \<Rightarrow> string" where
  "escape_quoted v = replace_all [quote] [backslash, quote] (replace_all [backslash] [backslash, backslash] v)"

definition unescape_quoted :: "string \<Rightarrow> string" where
  "unescape_quoted v = replace_all [backslash, backslash] [backslash] (replace_all [backslash, quote] [quote] v)"

definition needs_quote :: "string \<Rightarrow> bool" where
  "needs_quote v \<longleftrightarrow>
     v = [] \<or> v \<noteq> trim_space v
     \<or> (\<exists>c \<in> set v. c \<in> set [CHR '' '', CHR 0x09, quote, apostrophe, CHR ''#'', CHR ''='', backslash])
     \<or> contains_any v space_seqs \<or> (\<exists>c \<in> set v. of_char c < (0x20 :: nat))"

lemma replace_char: "replace_all [c] new s = concat (map (\<lambda>d. if d = c then new else [d]) s)"
proof (induction s)
  case Nil
  then show ?case by simp
next
  case (Cons d s)
  show ?case
  proof (cases "d = c")
    case True
    then show ?thesis using replace_all_hit [of "[c]" new s] Cons.IH by simp
  next
    case False
    then show ?thesis using replace_all_miss [of "[c]" d s new] Cons.IH by simp
  qed
qed

definition escape_char :: "char \<Rightarrow> string" where
  "escape_char c = (if c = backslash then [backslash, backslash] else if c = quote then [backslash, quote] else [c])"

definition half_escaped :: "char \<Rightarrow> string" where
  "half_escaped c = (if c = backslash then [backslash, backslash] else [c])"

lemma escape_char_simps:
  "escape_char backslash = [backslash, backslash]" "escape_char quote = [backslash, quote]"
  "c \<noteq> backslash \<Longrightarrow> c \<noteq> quote \<Longrightarrow> escape_char c = [c]"
  "half_escaped backslash = [backslash, backslash]" "c \<noteq> backslash \<Longrightarrow> half_escaped c = [c]"
  by (simp_all add: escape_char_def half_escaped_def)

lemma escape_quoted_chars: "escape_quoted v = concat (map escape_char v)"
  by (induction v) (simp_all add: escape_quoted_def replace_char escape_char_def)

lemma unescape_first_pass:
  "replace_all [backslash, quote] [quote] (concat (map escape_char v)) = concat (map half_escaped v)"
proof (induction v)
  case Nil
  then show ?case by simp
next
  case (Cons c v)
  let ?rest = "concat (map escape_char v)"
  have head: "\<not> prefix [backslash, quote] (backslash # ?rest)"
    by (cases v) (auto simp: escape_char_def)
  show ?case
  proof (cases "c = backslash \<or> c = quote")
    case False
    then have "\<not> prefix [backslash, quote] (c # ?rest)" by auto
    then show ?thesis using False Cons.IH replace_all_miss by (simp add: escape_char_simps)
  next
    case True
    then show ?thesis
    proof
      assume "c = backslash"
      then show ?thesis
        using Cons.IH replace_all_miss [of "[backslash, quote]" backslash "backslash # ?rest" "[quote]"]
          replace_all_miss [OF head, of "[quote]"]
        by (simp add: escape_char_simps)
    next
      assume "c = quote"
      then show ?thesis
        using Cons.IH replace_all_hit [of "[backslash, quote]" "[quote]" ?rest]
        by (simp add: escape_char_simps)
    qed
  qed
qed

lemma unescape_second_pass: "replace_all [backslash, backslash] [backslash] (concat (map half_escaped v)) = v"
proof (induction v)
  case Nil
  then show ?case by simp
next
  case (Cons c v)
  let ?rest = "concat (map half_escaped v)"
  show ?case
  proof (cases "c = backslash")
    case True
    then show ?thesis using Cons.IH replace_all_hit [of "[backslash, backslash]" "[backslash]" ?rest]
      by (simp add: escape_char_simps)
  next
    case False
    then show ?thesis using Cons.IH replace_all_miss [of "[backslash, backslash]" c ?rest "[backslash]"]
      by (simp add: escape_char_simps)
  qed
qed

lemma unescape_escape [simp]: "unescape_quoted (escape_quoted v) = v"
  by (simp add: unescape_quoted_def escape_quoted_chars unescape_first_pass unescape_second_pass)

section \<open>Rendering and parsing\<close>

type_synonym fields = "(string, string) gomap"

definition render_value :: "string \<Rightarrow> string" where
  "render_value v = (if needs_quote v then quote # escape_quoted v @ [quote] else v)"

definition render_line :: "string \<Rightarrow> string \<Rightarrow> string" where
  "render_line k v = k @ CHR ''='' # render_value v @ [newline]"

definition field :: "fields \<Rightarrow> string \<Rightarrow> string" where
  "field m k = (case lookup m k of None \<Rightarrow> [] | Some v \<Rightarrow> v)"

definition render_env :: "fields \<Rightarrow> string" where
  "render_env m = concat (map (\<lambda>k. render_line k (field m k)) (sort (map fst m)))"

definition parse_value :: "string \<Rightarrow> string" where
  "parse_value v =
     (if length v \<ge> 2 \<and> hd v = quote \<and> last v = quote then unescape_quoted (butlast (tl v))
      else if length v \<ge> 2 \<and> hd v = apostrophe \<and> last v = apostrophe then butlast (tl v)
      else v)"

definition parse_line :: "string \<Rightarrow> (string \<times> string) option" where
  "parse_line raw =
     (let line = trim_space raw in
      if line = [] \<or> has_prefix line ''#'' then None
      else case cut_at CHR ''='' (trim_prefix line ''export '') of
        None \<Rightarrow> None
      | Some (k0, v0) \<Rightarrow>
          let k = trim_space k0; v = parse_value (trim_space v0)
          in if k \<noteq> [] \<and> v \<noteq> [] then Some (k, v) else None)"

definition parse_env :: "string \<Rightarrow> fields" where
  "parse_env raw =
     foldl (\<lambda>m l. case parse_line l of None \<Rightarrow> m | Some (k, v) \<Rightarrow> AList.update k v m) [] (split_on newline raw)"

section \<open>The checksum\<close>

definition hex_digit :: "nat \<Rightarrow> char" where
  "hex_digit n = ''0123456789abcdef'' ! n"

definition hex_encode :: "256 word \<Rightarrow> string" where
  "hex_encode w = map (\<lambda>i. hex_digit (unat w div 16 ^ (63 - i) mod 16)) [0..<64]"

definition env_checksum :: string where
  "env_checksum = ''ODB_CHECKSUM''"

definition checksum_of :: "(string \<Rightarrow> 256 word) \<Rightarrow> fields \<Rightarrow> string" where
  "checksum_of sha m = hex_encode (sha (render_env (filter (\<lambda>(k, v). k \<noteq> env_checksum) m)))"

section \<open>Lines\<close>

text \<open>The keys the bridge uses are capital letters and underscores.\<close>

definition good_key :: "string \<Rightarrow> bool" where
  "good_key k \<longleftrightarrow> k \<noteq> [] \<and> list_all (\<lambda>c. CHR ''A'' \<le> c \<and> c \<le> CHR ''Z'' \<or> c = CHR ''_'') k"

definition good_value :: "string \<Rightarrow> bool" where
  "good_value v \<longleftrightarrow> v \<noteq> [] \<and> newline \<notin> set v"

lemma space_ends: "w \<in> set space_seqs \<Longrightarrow> \<not> (CHR ''A'' \<le> hd w \<and> hd w \<le> CHR ''Z'' \<or> hd w = CHR ''_'')"
  "w \<in> set space_seqs \<Longrightarrow> \<not> (CHR ''A'' \<le> last w \<and> last w \<le> CHR ''Z'' \<or> last w = CHR ''_'')"
  "w \<in> set space_seqs \<Longrightarrow> CHR ''='' \<notin> set w" "w \<in> set space_seqs \<Longrightarrow> last w \<noteq> quote" "w \<in> set space_seqs \<Longrightarrow> hd w \<noteq> quote"
  by (auto simp: space_seqs_def less_eq_char_def)

lemma good_key_chars:
  assumes "good_key k"
  shows "c \<in> set k \<Longrightarrow> CHR ''A'' \<le> c \<and> c \<le> CHR ''Z'' \<or> c = CHR ''_''"
  using assms by (auto simp: good_key_def list_all_iff)

lemma good_key_trimmed: "good_key k \<Longrightarrow> trim_space k = k"
proof -
  assume k: "good_key k"
  then have "k \<noteq> []" by (simp add: good_key_def)
  then have "hd k \<in> set k" "last k \<in> set k" by auto
  with good_key_chars [OF k] space_ends(1,2) \<open>k \<noteq> []\<close> have "trimmed k"
    by (intro trimmed_ends) metis+
  then show ?thesis by (rule trim_space_id)
qed

lemma good_key_no_eq: "good_key k \<Longrightarrow> CHR ''='' \<notin> set k" "good_key k \<Longrightarrow> newline \<notin> set k"
  "good_key k \<Longrightarrow> CHR ''#'' \<notin> set k" "good_key k \<Longrightarrow> CHR ''e'' \<notin> set k"
  by (auto dest: good_key_chars simp: less_eq_char_def)

lemma trimmed_line:
  assumes k: "good_key k" and v: "trimmed v"
  shows "trimmed (k @ CHR ''='' # v)"
proof -
  have "k \<noteq> []" using k by (simp add: good_key_def)
  have "\<not> prefix w (k @ CHR ''='' # v)" if w: "w \<in> set space_seqs" for w
  proof
    assume "prefix w (k @ CHR ''='' # v)"
    moreover have "w \<noteq> []" using w space_seqs_nonempty by auto
    ultimately have "hd w = hd k" using \<open>k \<noteq> []\<close> by (auto simp: prefix_def hd_append split: if_splits)
        (metis hd_append)+
    with space_ends(1) [OF w] good_key_chars [OF k, of "hd k"] \<open>k \<noteq> []\<close> show False by simp
  qed
  moreover have "\<not> suffix w (k @ CHR ''='' # v)" if w: "w \<in> set space_seqs" for w
  proof
    assume "suffix w (k @ CHR ''='' # v)"
    then have "suffix w ((k @ [CHR ''='']) @ v)" by simp
    then consider "suffix w v" | w' where "w = w' @ v" "suffix w' (k @ [CHR ''=''])" "w' \<noteq> []"
      unfolding suffix_append by (metis append_Nil suffix_order.order_refl)
    then show False
    proof cases
      case 1
      then show ?thesis using v w by (auto simp: trimmed_def strip_one_None suffix_to_prefix)
    next
      case 2
      then have "last w' = CHR ''=''" by (metis last_appendR last_snoc suffix_def not_Cons_self2)
      then have "CHR ''='' \<in> set w" using 2 by (metis Un_iff last_in_set set_append)
      then show ?thesis using space_ends(3) [OF w] by simp
    qed
  qed
  ultimately show ?thesis by (auto simp: trimmed_def strip_one_None suffix_to_prefix)
qed

lemma trimmed_quoted: "trimmed (quote # v @ [quote])"
  by (rule trimmed_ends) (auto dest: space_ends(4,5))

lemma trimmed_render_value: "trimmed (render_value v)"
proof (cases "needs_quote v")
  case True
  then show ?thesis using trimmed_quoted by (simp add: render_value_def)
next
  case False
  then have "trim_space v = v" by (simp add: needs_quote_def)
  with False show ?thesis by (metis render_value_def trimmed_trim_space)
qed

lemma parse_render_value: "parse_value (render_value v) = v"
proof (cases "needs_quote v")
  case True
  then show ?thesis by (simp add: render_value_def parse_value_def)
next
  case False
  then have "v \<noteq> []" "hd v \<noteq> quote" "hd v \<noteq> apostrophe"
    by (auto simp: needs_quote_def dest!: hd_in_set)
  with False show ?thesis by (simp add: render_value_def parse_value_def)
qed

lemma parse_render_line:
  assumes "good_key k" "v \<noteq> []"
  shows "parse_line (k @ CHR ''='' # render_value v) = Some (k, v)"
proof -
  let ?l = "k @ CHR ''='' # render_value v"
  obtain c k' where k: "k = c # k'" using assms(1) by (cases k) (auto simp: good_key_def)
  have "trim_space ?l = ?l" by (rule trim_space_id [OF trimmed_line [OF assms(1) trimmed_render_value]])
  moreover have "\<not> has_prefix ?l ''#''" "\<not> has_prefix ?l ''export ''"
    using good_key_no_eq(3,4) [OF assms(1)] k by auto
  moreover have "cut_at CHR ''='' ?l = Some (k, render_value v)"
    by (rule cut_at_append [OF good_key_no_eq(1) [OF assms(1)]])
  ultimately show ?thesis
    using good_key_trimmed [OF assms(1)] trim_space_id [OF trimmed_render_value] assms parse_render_value
    by (simp add: parse_line_def trim_prefix_def good_key_def)
qed

lemma newline_escaped: "newline \<in> set (escape_quoted v) \<longleftrightarrow> newline \<in> set v"
  by (induction v) (auto simp: escape_quoted_chars escape_char_def)

lemma newline_rendered: "newline \<notin> set v \<Longrightarrow> newline \<notin> set (render_value v)"
  by (simp add: render_value_def newline_escaped)

section \<open>The round trip\<close>

definition good_fields :: "fields \<Rightarrow> bool" where
  "good_fields m \<longleftrightarrow> wf_map m \<and> (\<forall>(k, v) \<in> set m. good_key k \<and> good_value v)"

lemma good_fieldsD: "good_fields m \<Longrightarrow> lookup m k = Some v \<Longrightarrow> good_key k \<and> good_value v"
  using map_of_SomeD by (fastforce simp: good_fields_def)

lemma render_env_cong:
  assumes "wf_map m" "wf_map m'" "lookup m = lookup m'"
  shows "render_env m = render_env m'"
proof -
  have "set (map fst m) = dom (lookup m)" "set (map fst m') = dom (lookup m')" by (simp_all add: dom_map_of_conv_image_fst)
  then have "sort (map fst m) = sort (map fst m')"
    using assms by (intro sorted_distinct_set_unique) simp_all
  then show ?thesis by (simp add: render_env_def field_def assms(3))
qed

lemma split_lines:
  "(\<And>l. l \<in> set ls \<Longrightarrow> newline \<notin> set l) \<Longrightarrow> split_on newline (concat (map (\<lambda>l. l @ [newline]) ls)) = ls @ [[]]"
  by (induction ls) (simp_all add: split_on_append_sep)

lemma parse_blank: "parse_line [] = None"
  by (simp add: parse_line_def)

lemma parse_keys:
  assumes "\<And>k. k \<in> set ks \<Longrightarrow> good_key k \<and> good_value (field m k)" "distinct ks"
  shows "foldl (\<lambda>m l. case parse_line l of None \<Rightarrow> m | Some (k, v) \<Rightarrow> AList.update k v m) acc
      (map (\<lambda>k. k @ CHR ''='' # render_value (field m k)) ks)
    = foldl (\<lambda>a k. AList.update k (field m k) a) acc ks"
  using assms
proof (induction ks arbitrary: acc)
  case Nil
  then show ?case by simp
next
  case (Cons k ks)
  then show ?case by (simp add: parse_render_line good_value_def)
qed

lemma foldl_update_lookup:
  "lookup (foldl (\<lambda>a k. AList.update k (f k) a) acc ks) = (\<lambda>k. if k \<in> set ks then Some (f k) else lookup acc k)"
  by (induction ks arbitrary: acc) (auto simp: map_simps)

lemma foldl_update_wf: "wf_map acc \<Longrightarrow> wf_map (foldl (\<lambda>a k. AList.update k (f k) a) acc ks)"
  by (induction ks arbitrary: acc) auto

lemma parse_env_wf: "wf_map (parse_env raw)"
  unfolding parse_env_def by (rule foldl_invariant) (auto split: option.splits)

lemma parse_render_env:
  assumes "good_fields m"
  shows "lookup (parse_env (render_env m)) = lookup m"
proof -
  let ?ks = "sort (map fst m)"
  have good: "good_key k \<and> good_value (field m k)" if "k \<in> set ?ks" for k
  proof -
    from that obtain v where "lookup m k = Some v" by (metis dom_map_of_conv_image_fst domIff list.set_map not_None_eq set_sort)
    with good_fieldsD [OF assms this] show ?thesis by (simp add: field_def)
  qed
  let ?ls = "map (\<lambda>k. k @ CHR ''='' # render_value (field m k)) ?ks"
  have rendered: "render_env m = concat (map (\<lambda>l. l @ [newline]) ?ls)"
    by (simp add: render_env_def render_line_def comp_def)
  have lines: "newline \<notin> set l" if "l \<in> set ?ls" for l
  proof -
    from that have "\<exists>k \<in> set ?ks. l = k @ CHR ''='' # render_value (field m k)" unfolding set_map image_iff .
    then obtain k where k: "k \<in> set ?ks" "l = k @ CHR ''='' # render_value (field m k)" by blast
    have gk: "good_key k" and nv: "newline \<notin> set (field m k)" using good [OF k(1)] by (simp_all add: good_value_def)
    from good_key_no_eq(2) [OF gk] newline_rendered [OF nv] show ?thesis unfolding k(2) by simp
  qed
  have "split_on newline (render_env m) = ?ls @ [[]]" unfolding rendered by (rule split_lines) (rule lines)
  moreover have "distinct ?ks" using assms by (simp add: good_fields_def)
  note parse_keys [where ks = ?ks and m = m and acc = "[]", OF good this]
  ultimately have "lookup (parse_env (render_env m)) = lookup (foldl (\<lambda>a k. AList.update k (field m k) a) [] ?ks)"
    by (simp add: parse_env_def parse_blank)
  also have "\<dots> = lookup m"
  proof (rule ext)
    fix k
    have "k \<in> keys m \<longleftrightarrow> lookup m k \<noteq> None" by (simp add: lookup_None_iff)
    then show "lookup (foldl (\<lambda>a k. AList.update k (field m k) a) [] ?ks) k = lookup m k"
      by (cases "lookup m k") (simp_all add: foldl_update_lookup field_def)
  qed
  finally show ?thesis .
qed

lemma checksum_cong:
  assumes "wf_map m" "wf_map m'" "lookup m = lookup m'"
  shows "checksum_of sha m = checksum_of sha m'"
proof -
  have "lookup (filter (\<lambda>(k, v). k \<noteq> env_checksum) m) = lookup (filter (\<lambda>(k, v). k \<noteq> env_checksum) m')"
    by (rule ext) (simp add: lookup_filter assms)
  then have "render_env (filter (\<lambda>(k, v). k \<noteq> env_checksum) m) = render_env (filter (\<lambda>(k, v). k \<noteq> env_checksum) m')"
    by (rule render_env_cong [OF wf_map_filter [OF assms(1)] wf_map_filter [OF assms(2)]])
  then show ?thesis by (simp add: checksum_of_def)
qed

lemma char_newline_not_hex: "newline \<notin> set ''0123456789abcdef''"
  by simp

lemma hex_encode_good: "good_value (hex_encode w)"
proof -
  have "hex_digit (n mod 16) \<in> set ''0123456789abcdef''" for n
    unfolding hex_digit_def by (rule nth_mem) simp
  then have "newline \<noteq> hex_digit (n mod 16)" for n by (metis char_newline_not_hex)
  then show ?thesis by (simp add: good_value_def hex_encode_def image_iff)
qed

end
