(* ===== verification/Envelope.thy ===== *)
theory Envelope
  imports Env_Format
begin

text \<open>
  \<open>internal/keystore/envelope.go\<close> and the outer form of the credential file: base64 in lines of 64, OpenSSL's salted
  header, PKCS#7 padding, the PBKDF2 derivation, sealing and opening; the file as a comment, a
  line with the key and the sealed text.

  HMAC-SHA256 and AES-256-CBC are arguments. What is used of them: a MAC has 32 bytes, decryption undoes encryption under the
  same key and vector, and both keep the length.
\<close>

section \<open>Base64\<close>

definition b64_alphabet :: string where
  "b64_alphabet = ''ABCDEFGHIJKLMNOPQRSTUVWXYZabcdefghijklmnopqrstuvwxyz0123456789+/''"

definition b64_char :: "nat \<Rightarrow> char" where
  "b64_char n = b64_alphabet ! n"

definition b64_value :: "char \<Rightarrow> nat option" where
  "b64_value c = index_of c b64_alphabet"

abbreviation pad_char :: char where "pad_char \<equiv> CHR ''=''"

fun b64_encode :: "string \<Rightarrow> string" where
  "b64_encode [] = []"
| "b64_encode [a] = [b64_char (byte a div 4), b64_char (byte a mod 4 * 16), pad_char, pad_char]"
| "b64_encode [a, b] =
     [b64_char (byte a div 4), b64_char (byte a mod 4 * 16 + byte b div 16), b64_char (byte b mod 16 * 4), pad_char]"
| "b64_encode (a # b # c # s) =
     b64_char (byte a div 4) # b64_char (byte a mod 4 * 16 + byte b div 16)
     # b64_char (byte b mod 16 * 4 + byte c div 64) # b64_char (byte c mod 64) # b64_encode s"

definition b64_byte :: "nat \<Rightarrow> char" where
  "b64_byte n = char_of n"

fun b64_quads :: "string \<Rightarrow> string option" where
  "b64_quads [] = Some []"
| "b64_quads (w # x # y # z # s) =
     (case (b64_value w, b64_value x) of
        (Some vw, Some vx) \<Rightarrow>
          if s = [] \<and> z = pad_char then
            if y = pad_char then Some [b64_byte (vw * 4 + vx div 16)]
            else (case b64_value y of
                    Some vy \<Rightarrow> Some [b64_byte (vw * 4 + vx div 16), b64_byte (vx mod 16 * 16 + vy div 4)]
                  | None \<Rightarrow> None)
          else (case (b64_value y, b64_value z, b64_quads s) of
                  (Some vy, Some vz, Some r) \<Rightarrow>
                    Some (b64_byte (vw * 4 + vx div 16) # b64_byte (vx mod 16 * 16 + vy div 4)
                          # b64_byte (vy mod 4 * 64 + vz) # r)
                | _ \<Rightarrow> None)
      | _ \<Rightarrow> None)"
| "b64_quads _ = None"

text \<open>\<open>DecodeString\<close> skips line breaks.\<close>

definition b64_decode :: "string \<Rightarrow> string option" where
  "b64_decode s = b64_quads (filter (\<lambda>c. c \<noteq> newline \<and> c \<noteq> CHR 0x0D) s)"

lemma b64_value_char: "n < 64 \<Longrightarrow> b64_value (b64_char n) = Some n"
proof -
  have "list_all (\<lambda>n. b64_value (b64_char n) = Some n) [0..<64]" by code_simp
  then show "n < 64 \<Longrightarrow> ?thesis" by (simp add: list_all_iff)
qed

lemma b64_char_alphabet: "n < 64 \<Longrightarrow> b64_char n \<in> set b64_alphabet"
  unfolding b64_char_def by (rule nth_mem) (simp add: b64_alphabet_def)

lemma b64_char_not_pad: "n < 64 \<Longrightarrow> b64_char n \<noteq> pad_char"
  using b64_char_alphabet [of n] by (auto simp: b64_alphabet_def)

lemma byte_less: "byte c < 256"
  by (rule nat_of_char_less_256)

lemma sextet_arith:
  fixes A B :: nat
  shows "A < 256 \<Longrightarrow> A div 4 < 64" "A mod 4 * 16 < 64" "B < 256 \<Longrightarrow> A mod 4 * 16 + B div 16 < 64" "A mod 16 * 4 < 64"
    "B < 256 \<Longrightarrow> A mod 16 * 4 + B div 64 < 64" "A mod 64 < 64"
    "A < 256 \<Longrightarrow> A div 16 div 16 = 0" "A < 256 \<Longrightarrow> A div 16 mod 16 = A div 16" "A < 256 \<Longrightarrow> A div 64 div 4 = 0"
    "A < 256 \<Longrightarrow> A div 64 mod 4 = A div 64"
proof -
  have m: "A mod 4 < 4" "A mod 16 < 16" by simp_all
  have d: "B div 16 < 16" "B div 64 < 4" if "B < 256" for B :: nat
    using that less_mult_imp_div_less [of B 16 16] less_mult_imp_div_less [of B 4 64] by simp_all
  show "A < 256 \<Longrightarrow> A div 4 < 64" using less_mult_imp_div_less [of A 64 4] by simp
  show "A mod 4 * 16 < 64" "A mod 16 * 4 < 64" "A mod 64 < 64" using m by linarith+
  show "B < 256 \<Longrightarrow> A mod 4 * 16 + B div 16 < 64" "B < 256 \<Longrightarrow> A mod 16 * 4 + B div 64 < 64" using m d [of B] by linarith+
  show "A < 256 \<Longrightarrow> A div 16 div 16 = 0" "A < 256 \<Longrightarrow> A div 16 mod 16 = A div 16" "A < 256 \<Longrightarrow> A div 64 div 4 = 0"
    "A < 256 \<Longrightarrow> A div 64 mod 4 = A div 64" using d [of A] by simp_all
qed

lemmas sextets = sextet_arith(1) [OF byte_less] sextet_arith(2) sextet_arith(3) [OF byte_less] sextet_arith(4)
  sextet_arith(5) [OF byte_less] sextet_arith(6)

lemmas byte_parts = sextet_arith(7-10) [OF byte_less]

lemma b64_quads_encode: "b64_quads (b64_encode s) = Some s"
proof (induction s rule: b64_encode.induct)
  case (4 a b c s)
  have "b64_char (byte c mod 64) \<noteq> pad_char" by (rule b64_char_not_pad) (rule sextets)
  then show ?case using 4 by (simp add: b64_value_char sextets byte_parts b64_byte_def)
next
  case (3 a b)
  have "b64_char (byte b mod 16 * 4) \<noteq> pad_char" by (rule b64_char_not_pad) (rule sextets)
  then show ?case by (simp add: b64_value_char sextets byte_parts b64_byte_def)
qed (simp_all add: b64_value_char sextets byte_parts b64_byte_def)

lemma b64_encode_chars: "c \<in> set (b64_encode s) \<Longrightarrow> c \<in> set b64_alphabet \<or> c = pad_char"
  by (induction s rule: b64_encode.induct) (auto intro: b64_char_alphabet sextets)

section \<open>Padding\<close>

definition block_size :: nat where
  "block_size = 16"

definition pkcs7_pad :: "string \<Rightarrow> nat \<Rightarrow> string" where
  "pkcs7_pad d sz = (let n = sz - length d mod sz in d @ replicate n (char_of n))"

datatype open_error = NotEncrypted | Truncated | NothingToUnpad | WrongKey

definition pkcs7_unpad :: "string \<Rightarrow> open_error + string" where
  "pkcs7_unpad d =
     (if d = [] then Inl NothingToUnpad
      else let n = byte (last d) in
        if n = 0 \<or> n > block_size \<or> n > length d then Inl WrongKey
        else if \<not> list_all (\<lambda>b. byte b = n) (drop (length d - n) d) then Inl WrongKey
        else Inr (take (length d - n) d))"

lemma pkcs7_length: "length (pkcs7_pad d block_size) mod block_size = 0" "pkcs7_pad d block_size \<noteq> []"
proof -
  let ?r = "length d mod 16"
  have "length d + (16 - ?r) = 16 * Suc (length d div 16)" by presburger
  then have "(length d + (16 - ?r)) mod 16 = 0" by (metis mod_mult_self1_is_0)
  then show "length (pkcs7_pad d block_size) mod block_size = 0" by (simp add: pkcs7_pad_def block_size_def Let_def)
  show "pkcs7_pad d block_size \<noteq> []" by (simp add: pkcs7_pad_def block_size_def Let_def)
qed

lemma unpad_pad: "pkcs7_unpad (pkcs7_pad d block_size) = Inr d"
proof -
  define n where "n = 16 - length d mod 16"
  have n: "0 < n" "n \<le> 16" by (simp_all add: n_def)
  have "byte (char_of n) = n" using n by (simp add: take_bit_eq_mod)
  moreover have "last (d @ replicate n (char_of n)) = (char_of n :: char)" using n by (simp add: last_append)
  moreover have "pkcs7_pad d block_size = d @ replicate n (char_of n)" by (simp add: pkcs7_pad_def n_def block_size_def Let_def)
  ultimately show ?thesis using n by (simp add: pkcs7_unpad_def block_size_def Let_def list_all_iff)
qed

section \<open>Key derivation\<close>

definition xor_bytes :: "string \<Rightarrow> string \<Rightarrow> string" where
  "xor_bytes a b = map2 (\<lambda>x y. char_of (xor (byte x) (byte y))) a b"

definition be32 :: "nat \<Rightarrow> string" where
  "be32 n = map (\<lambda>i. char_of (n div 256 ^ (3 - i) mod 256)) [0..<4]"

text \<open>The inner loop: \<open>k\<close> more rounds from the last MAC and what has been accumulated.\<close>

fun pbkdf2_rounds :: "(string \<Rightarrow> string) \<Rightarrow> nat \<Rightarrow> string \<Rightarrow> string \<Rightarrow> string" where
  "pbkdf2_rounds mac 0 u acc = acc"
| "pbkdf2_rounds mac (Suc k) u acc = (let u' = mac u in pbkdf2_rounds mac k u' (xor_bytes acc u'))"

definition pbkdf2_sha256 :: "(string \<Rightarrow> string \<Rightarrow> string) \<Rightarrow> string \<Rightarrow> string \<Rightarrow> nat \<Rightarrow> nat \<Rightarrow> string" where
  "pbkdf2_sha256 hmac password salt iter len =
     (let mac = hmac password; blocks = (len + 32 - 1) div 32;
          block = (\<lambda>i. let first = mac (salt @ be32 i) in pbkdf2_rounds mac (iter - 1) first first)
      in take len (concat (map block [1..<Suc blocks])))"

definition shipped_iterations :: nat where
  "shipped_iterations = 600000"

definition derive_key_iv :: "(string \<Rightarrow> string \<Rightarrow> string) \<Rightarrow> string \<Rightarrow> string \<Rightarrow> string \<times> string" where
  "derive_key_iv hmac password salt =
     (let stream = pbkdf2_sha256 hmac password salt shipped_iterations 48 in (take 32 stream, drop 32 stream))"

definition mac_ok :: "(string \<Rightarrow> string \<Rightarrow> string) \<Rightarrow> bool" where
  "mac_ok hmac \<longleftrightarrow> (\<forall>k m. length (hmac k m) = 32)"

lemma rounds_length: "(\<And>m. length (mac m) = 32) \<Longrightarrow> length acc = 32 \<Longrightarrow> length (pbkdf2_rounds mac k u acc) = 32"
  by (induction k arbitrary: u acc) (simp_all add: Let_def xor_bytes_def)

lemma derive_lengths:
  assumes "mac_ok hmac"
  shows "length (fst (derive_key_iv hmac p s)) = 32 \<and> length (snd (derive_key_iv hmac p s)) = 16"
proof -
  have len: "\<And>m. length (hmac p m) = 32" using assms by (simp add: mac_ok_def)
  have "[1..<Suc ((48 + 32 - 1) div 32)] = [1, 2]" by (simp add: upt_rec)
  then show ?thesis
    by (simp add: derive_key_iv_def pbkdf2_sha256_def Let_def rounds_length len del: upt_Suc)
qed

section \<open>Sealing\<close>

definition openssl_magic :: string where
  "openssl_magic = ''Salted__''"

definition salt_len :: nat where
  "salt_len = 8"

record crypto =
  cy_hmac :: "string \<Rightarrow> string \<Rightarrow> string"
  cy_encrypt :: "string \<Rightarrow> string \<Rightarrow> string \<Rightarrow> string" \<comment> \<open>key, vector, blocks\<close>
  cy_decrypt :: "string \<Rightarrow> string \<Rightarrow> string \<Rightarrow> string"

definition crypto_ok :: "crypto \<Rightarrow> bool" where
  "crypto_ok cy \<longleftrightarrow> mac_ok (cy_hmac cy)
     \<and> (\<forall>k iv x. length k = 32 \<and> length iv = block_size \<and> length x mod block_size = 0 \<longrightarrow>
          cy_decrypt cy k iv (cy_encrypt cy k iv x) = x \<and> length (cy_encrypt cy k iv x) = length x)"

function wrap_lines :: "string \<Rightarrow> string" where
  "wrap_lines s = (if length s > 64 then take 64 s @ newline # wrap_lines (drop 64 s) else s @ [newline])"
  by pat_completeness auto
termination by (relation "measure length") auto

declare wrap_lines.simps [simp del]

definition seal :: "crypto \<Rightarrow> string \<Rightarrow> string \<Rightarrow> string \<Rightarrow> string" where
  "seal cy salt plain password =
     (case derive_key_iv (cy_hmac cy) password salt of
        (key, iv) \<Rightarrow> wrap_lines (b64_encode (openssl_magic @ salt @ cy_encrypt cy key iv (pkcs7_pad plain block_size))))"

definition strip_space :: "string \<Rightarrow> string" where
  "strip_space s = filter (\<lambda>c. c \<noteq> newline \<and> c \<noteq> CHR 0x0D \<and> c \<noteq> CHR '' '' \<and> c \<noteq> CHR 0x09) s"

definition open_sealed :: "crypto \<Rightarrow> string \<Rightarrow> string \<Rightarrow> open_error + string" where
  "open_sealed cy armoured password =
     (case b64_decode (strip_space armoured) of
        None \<Rightarrow> Inl NotEncrypted
      | Some raw \<Rightarrow>
          if length raw < length openssl_magic + salt_len \<or> take (length openssl_magic) raw \<noteq> openssl_magic
          then Inl NotEncrypted
          else
            let salt = take salt_len (drop (length openssl_magic) raw);
                ciphertext = drop (length openssl_magic + salt_len) raw
            in if ciphertext = [] \<or> length ciphertext mod block_size \<noteq> 0 then Inl Truncated
               else case derive_key_iv (cy_hmac cy) password salt of
                 (key, iv) \<Rightarrow> pkcs7_unpad (cy_decrypt cy key iv ciphertext))"

definition is_encrypted :: "string \<Rightarrow> bool" where
  "is_encrypted content =
     (case b64_decode (strip_space content) of
        None \<Rightarrow> False
      | Some raw \<Rightarrow> length raw \<ge> length openssl_magic \<and> take (length openssl_magic) raw = openssl_magic)"

lemma strip_append: "strip_space (a @ b) = strip_space a @ strip_space b"
  by (simp add: strip_space_def)

lemma strip_newline: "strip_space (newline # s) = strip_space s" "strip_space [] = []"
  by (simp_all add: strip_space_def)

lemma strip_wrapped: "strip_space (wrap_lines s) = strip_space s"
proof (induction s rule: wrap_lines.induct)
  case (1 s)
  show ?case
  proof (cases "length s > 64")
    case True
    then have "wrap_lines s = take 64 s @ newline # wrap_lines (drop 64 s)" by (subst wrap_lines.simps) simp
    then have "strip_space (wrap_lines s) = strip_space (take 64 s) @ strip_space (drop 64 s)"
      using 1 [OF True] by (simp add: strip_append strip_newline)
    then show ?thesis by (simp add: strip_append [symmetric])
  next
    case False
    then have "wrap_lines s = s @ [newline]" by (subst wrap_lines.simps) simp
    then show ?thesis by (simp add: strip_append strip_newline)
  qed
qed

lemma armour_char:
  assumes "c \<in> set (b64_encode s)"
  shows "c \<noteq> newline \<and> c \<noteq> CHR 0x0D \<and> c \<noteq> CHR '' '' \<and> c \<noteq> CHR 0x09"
proof -
  have all: "list_all (\<lambda>c. c \<noteq> newline \<and> c \<noteq> CHR 0x0D \<and> c \<noteq> CHR '' '' \<and> c \<noteq> CHR 0x09) (pad_char # b64_alphabet)"
    by code_simp
  have "c \<in> set (pad_char # b64_alphabet)" using b64_encode_chars [OF assms] by (elim disjE) simp_all
  then show ?thesis by (rule bspec [OF all [unfolded list_all_iff]])
qed

lemma decode_armoured: "b64_decode (strip_space (wrap_lines (b64_encode raw))) = Some raw"
proof -
  have "strip_space (wrap_lines (b64_encode raw)) = b64_encode raw"
    unfolding strip_wrapped unfolding strip_space_def by (rule filter_True) (simp add: armour_char)
  moreover have "filter (\<lambda>c. c \<noteq> newline \<and> c \<noteq> CHR 0x0D) (b64_encode raw) = b64_encode raw"
    by (rule filter_True) (simp add: armour_char)
  ultimately show ?thesis by (simp add: b64_decode_def b64_quads_encode)
qed

lemma magic_length [simp]: "length openssl_magic = 8"
  by (simp add: openssl_magic_def)

lemma seal_is_encrypted: "is_encrypted (seal cy salt plain password)"
  by (simp add: seal_def is_encrypted_def decode_armoured split: prod.splits)

lemma open_seal:
  assumes "crypto_ok cy" "length salt = salt_len"
  shows "open_sealed cy (seal cy salt plain password) password = Inr plain"
proof -
  obtain key iv where d: "derive_key_iv (cy_hmac cy) password salt = (key, iv)" by fastforce
  have "length key = 32" "length iv = block_size"
    using derive_lengths [of "cy_hmac cy" password salt] assms(1) d by (auto simp: crypto_ok_def block_size_def)
  then have enc: "cy_decrypt cy key iv (cy_encrypt cy key iv (pkcs7_pad plain block_size)) = pkcs7_pad plain block_size"
    "length (cy_encrypt cy key iv (pkcs7_pad plain block_size)) = length (pkcs7_pad plain block_size)"
    using assms(1) pkcs7_length by (auto simp: crypto_ok_def)
  moreover have "cy_encrypt cy key iv (pkcs7_pad plain block_size) \<noteq> []" using enc(2) pkcs7_length(2) by (metis length_0_conv)
  ultimately show ?thesis using assms(2) pkcs7_length(1)
    by (simp add: open_sealed_def seal_def d decode_armoured unpad_pad Let_def salt_len_def)
qed

end
