(* ===== verification/Go_Time.thy ===== *)
theory Go_Time
  imports Api_Errors
begin

text \<open>
  What the bridge uses of \<open>strconv\<close>, \<open>fmt\<close> and \<open>time\<close> to write values into the credential file: decimal numbers, and
  times in UTC in the form of RFC 3339 with whole seconds. Reading accepts the form that is written; other
  forms of RFC 3339, which the bridge never writes, are left out.
\<close>

section \<open>Decimal numbers\<close>

definition digit :: "nat \<Rightarrow> char" where
  "digit n = char_of (48 + n)"

fun show_nat :: "nat \<Rightarrow> string" where
  "show_nat n = (if n < 10 then [digit n] else show_nat (n div 10) @ [digit (n mod 10)])"

declare show_nat.simps [simp del]

definition show_int :: "int \<Rightarrow> string" where
  "show_int n = (if n < 0 then CHR ''-'' # show_nat (nat (- n)) else show_nat (nat n))"

text \<open>\<open>fmt.Sscanf\<close> with \<open>%d\<close>: spaces, a sign, the longest run of digits.\<close>

definition scan_int :: "string \<Rightarrow> int option" where
  "scan_int s =
     (let t = dropWhile (\<lambda>c. c = CHR '' '' \<or> c = CHR 0x09) s;
          neg = has_prefix t ''-'';
          ds = takeWhile is_digit (if neg \<or> has_prefix t ''+'' then tl t else t);
          v = (if neg then - digits_value ds else digits_value ds)
      in if ds \<noteq> [] \<and> in_int64 v then Some v else None)"

lemma digit_byte: "n < 10 \<Longrightarrow> (of_char (digit n) :: nat) = 48 + n"
  by (simp add: digit_def take_bit_eq_mod)

lemma digit_is_digit: "n < 10 \<Longrightarrow> is_digit (digit n)"
  by (simp add: is_digit_def less_eq_char_def digit_byte)

lemma show_nat_digits: "list_all is_digit (show_nat n) \<and> show_nat n \<noteq> []"
proof (induction n rule: show_nat.induct)
  case (1 n)
  then show ?case by (subst (1 2) show_nat.simps) (auto simp: digit_is_digit)
qed

lemma digits_value_snoc: "digits_value (ds @ [c]) = 10 * digits_value ds + int (of_char c - of_char CHR ''0'')"
  by (simp add: digits_value_def)

lemma digits_value_show: "digits_value (show_nat n) = int n"
proof (induction n rule: show_nat.induct)
  case (1 n)
  show ?case
  proof (cases "n < 10")
    case True
    then show ?thesis by (subst show_nat.simps) (simp add: digits_value_def digit_byte)
  next
    case False
    then have "digits_value (show_nat n) = 10 * int (n div 10) + int (n mod 10)"
      using 1 by (subst show_nat.simps) (simp add: digits_value_snoc digit_byte)
    then show ?thesis by (simp add: zdiv_int zmod_int)
  qed
qed

lemma takeWhile_digits: "list_all is_digit ds \<Longrightarrow> takeWhile is_digit ds = ds"
  by (rule takeWhile_eq_all_conv [THEN iffD2]) (simp add: list_all_iff)

lemma scan_show_int: "in_int64 n \<Longrightarrow> scan_int (show_int n) = Some n"
proof -
  assume r: "in_int64 n"
  have first: "\<exists>c s. show_nat k = c # s \<and> is_digit c" for k
    using show_nat_digits [of k] by (cases "show_nat k") auto
  have not_space: "is_digit c \<Longrightarrow> c \<noteq> CHR '' '' \<and> c \<noteq> CHR 0x09 \<and> c \<noteq> CHR ''-'' \<and> c \<noteq> CHR ''+''" for c
    by (auto simp: is_digit_def less_eq_char_def)
  show ?thesis
  proof (cases "n < 0")
    case True
    then show ?thesis using r show_nat_digits [of "nat (- n)"]
      by (simp add: scan_int_def show_int_def Let_def takeWhile_digits digits_value_show)
  next
    case False
    obtain c s where c: "show_nat (nat n) = c # s" "is_digit c" using first by blast
    then have "dropWhile (\<lambda>c. c = CHR '' '' \<or> c = CHR 0x09) (show_nat (nat n)) = show_nat (nat n)"
      "\<not> has_prefix (show_nat (nat n)) ''-''" "\<not> has_prefix (show_nat (nat n)) ''+''"
      using not_space [of c] by auto
    then show ?thesis using False r show_nat_digits [of "nat n"]
      by (simp add: scan_int_def show_int_def Let_def takeWhile_digits digits_value_show)
  qed
qed

section \<open>The calendar\<close>

definition leap :: "int \<Rightarrow> bool" where
  "leap y \<longleftrightarrow> y mod 4 = 0 \<and> (y mod 100 \<noteq> 0 \<or> y mod 400 = 0)"

definition year_length :: "int \<Rightarrow> int" where
  "year_length y = (if leap y then 366 else 365)"

definition month_lengths :: "int \<Rightarrow> int list" where
  "month_lengths y = [31, if leap y then 29 else 28, 31, 30, 31, 30, 31, 31, 30, 31, 30, 31]"

text \<open>The year and the day in it, from a number of days counted from the first day of a year.\<close>

function year_of :: "int \<Rightarrow> int \<Rightarrow> int \<times> int" where
  "year_of d y =
     (if d < 0 then year_of (d + year_length (y - 1)) (y - 1)
      else if d < year_length y then (y, d)
      else year_of (d - year_length y) (y + 1))"
  by pat_completeness auto
termination
  by (relation "measure (\<lambda>(d, y). if d < 0 then nat (- d) + 400 else nat d)") (auto simp: year_length_def split: if_splits)

declare year_of.simps [simp del]

fun month_of :: "int list \<Rightarrow> int \<Rightarrow> int \<Rightarrow> int \<times> int" where
  "month_of [] m d = (m, d)"
| "month_of (l # ls) m d = (if d < l then (m, d) else month_of ls (m + 1) (d - l))"

definition days_before_year :: "int \<Rightarrow> int" where
  "days_before_year y = 365 * (y - 1970) + (y - 1) div 4 - (y - 1) div 100 + (y - 1) div 400 - 477"

definition days_from_civil :: "int \<Rightarrow> int \<Rightarrow> int \<Rightarrow> int" where
  "days_from_civil y m d = days_before_year y + sum_list (take (nat (m - 1)) (month_lengths y)) + d - 1"

lemma div_step: "0 < k \<Longrightarrow> (y :: int) div k = (y - 1) div k + (if y mod k = 0 then 1 else 0)"
proof -
  assume k: "0 < k"
  have y: "y = k * (y div k) + y mod k" by simp
  show ?thesis
  proof (cases "y mod k = 0")
    case True
    then have "y - 1 = k * (y div k - 1) + (k - 1)" using y by (simp add: algebra_simps)
    then have "(y - 1) div k = y div k - 1" using k by (metis div_pos_pos_trivial div_mult_self4 add.commute add_cancel_left_right diff_ge_0_iff_ge int_one_le_iff_zero_less less_add_one less_diff_eq zless_add1_eq order_less_irrefl diff_add_cancel)
    then show ?thesis using True by simp
  next
    case False
    have "0 \<le> y mod k - 1" "y mod k - 1 < k" using False k pos_mod_bound [of k y] pos_mod_sign [of k y] by linarith+
    moreover have "y - 1 = k * (y div k) + (y mod k - 1)" using y by simp
    ultimately have "(y - 1) div k = y div k" using k by (metis div_mult_self4 div_pos_pos_trivial add.commute add_cancel_left_right less_irrefl)
    then show ?thesis using False by simp
  qed
qed

lemma div_gap: "0 < k \<Longrightarrow> (y :: int) div k - (y - 1) div k = (if y mod k = 0 then 1 else 0)"
  using div_step [of k y] by linarith

lemma leap_cases:
  "(c \<Longrightarrow> b) \<Longrightarrow> (b \<Longrightarrow> a) \<Longrightarrow> p = (if a then 1 else 0) \<Longrightarrow> q = (if b then 1 else 0) \<Longrightarrow> r = (if c then 1 else 0) \<Longrightarrow>
     (D :: int) = E + 365 + p - q + r \<Longrightarrow> D = E + (if a \<and> (\<not> b \<or> c) then 366 else 365)"
  by (cases a; cases b; cases c) simp_all

lemma days_next_year: "days_before_year (y + 1) = days_before_year y + year_length y"
proof -
  have m: "y mod 400 mod 100 = y mod 100" "y mod 100 mod 4 = y mod 4"
    by (rule mod_mod_cancel, simp)+
  have c: "y mod 400 = 0 \<Longrightarrow> y mod 100 = 0" using m(1) by (metis mod_0)
  have b: "y mod 100 = 0 \<Longrightarrow> y mod 4 = 0" using m(2) by (metis mod_0)
  have d: "days_before_year (y + 1) = days_before_year y + 365 + (y div 4 - (y - 1) div 4) - (y div 100 - (y - 1) div 100)
      + (y div 400 - (y - 1) div 400)"
    by (simp add: days_before_year_def)
  show ?thesis unfolding year_length_def leap_def
    by (rule leap_cases [OF c b div_gap div_gap div_gap d]) simp_all
qed

lemma year_of_spec:
  "year_of d y = (y', d') \<Longrightarrow> days_before_year y' + d' = days_before_year y + d \<and> 0 \<le> d' \<and> d' < year_length y'"
proof (induction d y rule: year_of.induct)
  case (1 d y)
  consider (before) "d < 0" | (inside) "0 \<le> d" "d < year_length y" | (after) "0 \<le> d" "\<not> d < year_length y" by linarith
  then show ?case
  proof cases
    case before
    then have "year_of (d + year_length (y - 1)) (y - 1) = (y', d')" using "1.prems" by (subst (asm) year_of.simps) simp
    from "1.IH"(1) [OF before this] show ?thesis using days_next_year [of "y - 1"] by simp
  next
    case inside
    then show ?thesis using "1.prems" by (subst (asm) year_of.simps) simp
  next
    case after
    then have "year_of (d - year_length y) (y + 1) = (y', d')" using "1.prems" by (subst (asm) year_of.simps) simp
    from "1.IH"(2) [OF _ after(2) this] show ?thesis using after days_next_year [of y] by simp
  qed
qed

lemma month_of_spec:
  "month_of ls m0 d = (m, d') \<Longrightarrow> 0 \<le> d \<Longrightarrow> d < sum_list ls \<Longrightarrow>
     m0 \<le> m \<and> m < m0 + int (length ls) \<and> 0 \<le> d' \<and> d' < ls ! nat (m - m0)
     \<and> sum_list (take (nat (m - m0)) ls) + d' = d"
proof (induction ls m0 d rule: month_of.induct)
  case (1 m d)
  then show ?case by simp
next
  case (2 l ls m0 d)
  show ?case
  proof (cases "d < l")
    case True
    with 2 show ?thesis by simp
  next
    case False
    then have ih: "m0 + 1 \<le> m \<and> m < m0 + 1 + int (length ls) \<and> 0 \<le> d' \<and> d' < ls ! nat (m - (m0 + 1))
        \<and> sum_list (take (nat (m - (m0 + 1))) ls) + d' = d - l"
      using 2 by simp
    then have "m0 + 1 \<le> m" by simp
    then have "nat (m - m0) = Suc (nat (m - (m0 + 1)))" by arith
    with ih show ?thesis by simp
  qed
qed

section \<open>Times\<close>

definition pad2 :: "int \<Rightarrow> string" where
  "pad2 n = [digit (nat n div 10 mod 10), digit (nat n mod 10)]"

definition pad4 :: "int \<Rightarrow> string" where
  "pad4 n = [digit (nat n div 1000 mod 10), digit (nat n div 100 mod 10), digit (nat n div 10 mod 10), digit (nat n mod 10)]"

definition civil_of :: "gotime \<Rightarrow> int \<times> int \<times> int \<times> int" where
  "civil_of t =
     (let secs = t div 1000000000; yd = year_of (secs div 86400) 1970; md = month_of (month_lengths (fst yd)) 1 (snd yd)
      in (fst yd, fst md, snd md + 1, secs mod 86400))"

definition render_time :: "gotime \<Rightarrow> string" where
  "render_time t =
     (case civil_of t of (y, m, d, s) \<Rightarrow>
        pad4 y @ ''-'' @ pad2 m @ ''-'' @ pad2 d @ ''T''
        @ pad2 (s div 3600) @ '':'' @ pad2 (s div 60 mod 60) @ '':'' @ pad2 (s mod 60) @ ''Z'')"

definition parse_time :: "string \<Rightarrow> gotime option" where
  "parse_time s =
     (if length s \<noteq> 20 then None
      else
        let num = (\<lambda>i n. digits_value (take n (drop i s)));
            y = num 0 4; m = num 5 2; d = num 8 2; h = num 11 2; mi = num 14 2; sec = num 17 2
        in if list_all (\<lambda>i. is_digit (s ! i)) [0, 1, 2, 3, 5, 6, 8, 9, 11, 12, 14, 15, 17, 18]
              \<and> s ! 4 = CHR ''-'' \<and> s ! 7 = CHR ''-'' \<and> s ! 10 = CHR ''T'' \<and> s ! 13 = CHR '':'' \<and> s ! 16 = CHR '':''
              \<and> s ! 19 = CHR ''Z''
              \<and> 1 \<le> m \<and> m \<le> 12 \<and> 1 \<le> d \<and> d \<le> month_lengths y ! nat (m - 1) \<and> h < 24 \<and> mi < 60 \<and> sec < 60
           then Some ((days_from_civil y m d * 86400 + h * 3600 + mi * 60 + sec) * 1000000000)
           else None)"

text \<open>The years that four digits can say.\<close>

definition four_digit_year :: "gotime \<Rightarrow> bool" where
  "four_digit_year t \<longleftrightarrow> (case civil_of t of (y, _) \<Rightarrow> 0 \<le> y \<and> y \<le> 9999)"

definition whole_seconds :: "gotime \<Rightarrow> gotime" where
  "whole_seconds t = t div 1000000000 * 1000000000"

lemma month_lengths_sum: "sum_list (month_lengths y) = year_length y" "length (month_lengths y) = 12"
  by (simp_all add: month_lengths_def year_length_def)

lemma month_lengths_small: "i < 12 \<Longrightarrow> month_lengths y ! i \<le> 31"
proof -
  assume "i < 12"
  moreover have "\<forall>l \<in> set (month_lengths y). l \<le> 31" by (simp add: month_lengths_def)
  ultimately show ?thesis using month_lengths_sum(2) by (metis nth_mem)
qed

lemma civil_of_spec:
  assumes "civil_of t = (y, m, d, s)"
  shows "days_from_civil y m d * 86400 + s = t div 1000000000 \<and> 1 \<le> m \<and> m \<le> 12 \<and> 1 \<le> d
    \<and> d \<le> month_lengths y ! nat (m - 1) \<and> 0 \<le> s \<and> s < 86400"
proof -
  let ?secs = "t div 1000000000"
  obtain yd where yd: "year_of (?secs div 86400) 1970 = (y, yd)"
    using assms by (cases "year_of (?secs div 86400) 1970") (simp add: civil_of_def Let_def)
  obtain md where md: "month_of (month_lengths y) 1 yd = (m, md)" "d = md + 1" "s = ?secs mod 86400"
    using assms yd by (cases "month_of (month_lengths y) 1 yd") (simp add: civil_of_def Let_def)
  from year_of_spec [OF yd] have y: "days_before_year y + yd = ?secs div 86400" "0 \<le> yd" "yd < year_length y"
    by (simp_all add: days_before_year_def)
  from month_of_spec [OF md(1) y(2)] y(3) have "1 \<le> m \<and> m < 13 \<and> 0 \<le> md \<and> md < month_lengths y ! nat (m - 1)
      \<and> sum_list (take (nat (m - 1)) (month_lengths y)) + md = yd"
    by (simp add: month_lengths_sum)
  with y(1) md(2,3) show ?thesis by (simp add: days_from_civil_def)
qed

lemma digits_value2: "a < 10 \<Longrightarrow> b < 10 \<Longrightarrow> digits_value [digit a, digit b] = int (10 * a + b)"
  by (simp add: digits_value_def digit_byte)

lemma digits_value4: "a < 10 \<Longrightarrow> b < 10 \<Longrightarrow> c < 10 \<Longrightarrow> d < 10 \<Longrightarrow>
    digits_value [digit a, digit b, digit c, digit d] = int (1000 * a + 100 * b + 10 * c + d)"
  by (simp add: digits_value_def digit_byte)

lemma pad2_value: "0 \<le> n \<Longrightarrow> n < 100 \<Longrightarrow> digits_value (pad2 n) = n"
proof -
  assume n: "0 \<le> n" "n < 100"
  then have "nat n div 10 < 10" by (simp add: less_mult_imp_div_less)
  then have "10 * (nat n div 10 mod 10) + nat n mod 10 = nat n" by simp
  moreover have "digits_value (pad2 n) = int (10 * (nat n div 10 mod 10) + nat n mod 10)"
    unfolding pad2_def by (rule digits_value2) simp_all
  ultimately show ?thesis using n by simp
qed

lemma horner: "10 * x + r0 = (k :: nat) \<Longrightarrow> 10 * y + r1 = x \<Longrightarrow> 10 * z + r2 = y \<Longrightarrow>
    1000 * z + 100 * r2 + 10 * r1 + r0 = k"
  by simp

lemma four_digits: "(k :: nat) < 10000 \<Longrightarrow>
    1000 * (k div 1000 mod 10) + 100 * (k div 100 mod 10) + 10 * (k div 10 mod 10) + k mod 10 = k"
proof -
  assume k: "k < 10000"
  have a: "k div 100 = k div 10 div 10" "k div 1000 = k div 10 div 10 div 10" by (simp_all add: div_mult2_eq [symmetric])
  have c: "k div 10 div 10 div 10 < 10" using k unfolding a(2) [symmetric] by (simp add: less_mult_imp_div_less)
  have split: "10 * (x div 10) + x mod 10 = x" for x :: nat by simp
  show ?thesis unfolding a mod_less [OF c] by (rule horner [OF split split split])
qed

lemma pad4_value: "0 \<le> n \<Longrightarrow> n < 10000 \<Longrightarrow> digits_value (pad4 n) = n"
proof -
  assume n: "0 \<le> n" "n < 10000"
  have "digits_value (pad4 n)
      = int (1000 * (nat n div 1000 mod 10) + 100 * (nat n div 100 mod 10) + 10 * (nat n div 10 mod 10) + nat n mod 10)"
    unfolding pad4_def by (rule digits_value4) simp_all
  also have "\<dots> = int (nat n)" by (subst four_digits) (use n in simp_all)
  finally show ?thesis using n by simp
qed

lemma parse_time_chars:
  assumes "list_all is_digit (ys @ ms @ ds @ hs @ mis @ ss)"
    and "length ys = 4" "length ms = 2" "length ds = 2" "length hs = 2" "length mis = 2" "length ss = 2"
    and "1 \<le> digits_value ms" "digits_value ms \<le> 12" "1 \<le> digits_value ds"
    and "digits_value ds \<le> month_lengths (digits_value ys) ! nat (digits_value ms - 1)"
    and "digits_value hs < 24" "digits_value mis < 60" "digits_value ss < 60"
  shows "parse_time (ys @ ''-'' @ ms @ ''-'' @ ds @ ''T'' @ hs @ '':'' @ mis @ '':'' @ ss @ ''Z'')
    = Some ((days_from_civil (digits_value ys) (digits_value ms) (digits_value ds) * 86400
             + digits_value hs * 3600 + digits_value mis * 60 + digits_value ss) * 1000000000)"
proof -
  obtain y0 y1 y2 y3 where ys: "ys = [y0, y1, y2, y3]" using assms(2) by (auto simp: length_Suc_conv eval_nat_numeral)
  obtain m0 m1 d0 d1 where ms: "ms = [m0, m1]" "ds = [d0, d1]" using assms(3,4) by (auto simp: length_Suc_conv eval_nat_numeral)
  obtain h0 h1 i0 i1 s0 s1 where hs: "hs = [h0, h1]" "mis = [i0, i1]" "ss = [s0, s1]"
    using assms(5-7) by (auto simp: length_Suc_conv eval_nat_numeral)
  show ?thesis using assms(1,8-14) unfolding ys ms hs by (simp add: parse_time_def Let_def)
qed

lemma pad_length: "length (pad2 n) = 2" "length (pad4 n) = 4" "list_all is_digit (pad2 n)" "list_all is_digit (pad4 n)"
  by (simp_all add: pad2_def pad4_def digit_is_digit)

lemma zdiv_less_86400: "(s :: int) < 86400 \<Longrightarrow> s div 3600 < 24"
  using zdiv_mono1 [of s 86399 3600] by simp

lemma parse_render_time:
  assumes "four_digit_year t"
  shows "parse_time (render_time t) = Some (whole_seconds t)"
proof -
  obtain y m d s where c: "civil_of t = (y, m, d, s)" by (cases "civil_of t")
  from civil_of_spec [OF c] have spec: "days_from_civil y m d * 86400 + s = t div 1000000000" "1 \<le> m" "m \<le> 12" "1 \<le> d"
    "d \<le> month_lengths y ! nat (m - 1)" "0 \<le> s" "s < 86400" by auto
  have d31: "d \<le> 31" using spec(2,3,5) month_lengths_small [of "nat (m - 1)" y] by linarith
  have y: "0 \<le> y" "y < 10000" using assms c by (auto simp: four_digit_year_def)
  have h: "0 \<le> s div 3600" "s div 3600 < 24" and mi: "0 \<le> s div 60 mod 60" "s div 60 mod 60 < 60"
    and sec: "0 \<le> s mod 60" "s mod 60 < 60"
    using spec(6,7) by (simp_all add: pos_imp_zdiv_nonneg_iff zdiv_less_86400)
  have sum: "s = s div 3600 * 3600 + s div 60 mod 60 * 60 + s mod 60" 
  proof -
    have "s div 3600 = s div 60 div 60" by (simp add: zdiv_zmult2_eq [symmetric])
    moreover have "s = 60 * (s div 60) + s mod 60" "s div 60 = 60 * (s div 60 div 60) + s div 60 mod 60" by simp_all
    ultimately show ?thesis by linarith
  qed
  have vals: "digits_value (pad4 y) = y" "digits_value (pad2 m) = m" "digits_value (pad2 d) = d"
    "digits_value (pad2 (s div 3600)) = s div 3600" "digits_value (pad2 (s div 60 mod 60)) = s div 60 mod 60"
    "digits_value (pad2 (s mod 60)) = s mod 60"
    by (rule pad4_value pad2_value; use y spec(2-4) d31 h mi sec in linarith)+
  have total: "t div 1000000000 = days_from_civil y m d * 86400 + s div 3600 * 3600 + s div 60 mod 60 * 60 + s mod 60"
    using spec(1) sum by linarith
  have "parse_time (render_time t)
      = Some ((days_from_civil y m d * 86400 + s div 3600 * 3600 + s div 60 mod 60 * 60 + s mod 60) * 1000000000)"
    using parse_time_chars [of "pad4 y" "pad2 m" "pad2 d" "pad2 (s div 3600)" "pad2 (s div 60 mod 60)" "pad2 (s mod 60)"]
    unfolding vals render_time_def c using spec(2-5) h mi sec by (simp only: pad_length list_all_append simp_thms prod.case)
  then show ?thesis by (simp only: whole_seconds_def total)
qed

end
