(* ===== verification/Keystore.thy ===== *)
theory Keystore
  imports Envelope Go_Time Oauth2_Runs
begin

text \<open>
  \<open>internal/keystore/env.go\<close> and \<open>keystore.go\<close>: the credential file as a store. Its state is the file, the key kept in
  memory, and what the outside will do: the random bytes, the clock and what goes wrong with the n-th
  file operation. It is a provider of the \<open>CredentialStore\<close> interface, for credentials without line breaks.
\<close>

section \<open>Fields and credentials\<close>

definition env_username :: string where "env_username = ''ODB_USERNAME''"
definition env_password :: string where "env_password = ''ODB_PASSWORD''"
definition env_auth_mode :: string where "env_auth_mode = ''ODB_AUTH_MODE''"
definition env_access_token :: string where "env_access_token = ''ODB_ACCESS_TOKEN''"
definition env_refresh_token :: string where "env_refresh_token = ''ODB_REFRESH_TOKEN''"
definition env_token_expiry :: string where "env_token_expiry = ''ODB_TOKEN_EXPIRY''"
definition env_session_id :: string where "env_session_id = ''ODB_SESSION_ID''"
definition env_user_id :: string where "env_user_id = ''ODB_USER_ID''"
definition env_acc_type :: string where "env_acc_type = ''ODB_ACC_TYPE''"
definition env_updated_at :: string where "env_updated_at = ''ODB_UPDATED_AT''"

lemmas env_names = env_username_def env_password_def env_auth_mode_def env_access_token_def env_refresh_token_def
  env_token_expiry_def env_session_id_def env_user_id_def env_acc_type_def env_updated_at_def env_checksum_def

definition credentials_from_fields :: "fields \<Rightarrow> stored" where
  "credentials_from_fields f =
     \<lparr>st_username = field f env_username,
      st_password = field f env_password,
      st_token =
        (if field f env_access_token = [] then None
         else Some \<lparr>t_access = field f env_access_token, t_refresh = field f env_refresh_token, t_issued = None,
                    t_expiry = (if field f env_token_expiry = [] then None else parse_time (field f env_token_expiry)),
                    t_refresh_expiry = None\<rparr>),
      st_session = field f env_session_id,
      st_mode = (if field f env_auth_mode = [] then mode_oauth2 else field f env_auth_mode),
      st_user = field f env_user_id,
      st_acc = (case scan_int (field f env_acc_type) of Some n \<Rightarrow> n | None \<Rightarrow> 0),
      st_updated = (if field f env_updated_at = [] then None else parse_time (field f env_updated_at))\<rparr>"

definition set_field :: "string \<Rightarrow> string \<Rightarrow> fields \<Rightarrow> fields" where
  "set_field k v f = (if v = [] then AList.delete k f else AList.update k v f)"

definition apply_token :: "token option \<Rightarrow> fields \<Rightarrow> fields" where
  "apply_token t f =
     (case t of
        Some t \<Rightarrow>
          (case t_expiry t of
             Some e \<Rightarrow> set_field env_token_expiry (render_time e)
           | None \<Rightarrow> AList.delete env_token_expiry)
            (set_field env_refresh_token (t_refresh t) (set_field env_access_token (t_access t) f))
      | None \<Rightarrow> AList.delete env_token_expiry (AList.delete env_refresh_token (AList.delete env_access_token f)))"

definition apply_credentials :: "gotime \<Rightarrow> stored \<Rightarrow> fields \<Rightarrow> fields" where
  "apply_credentials now c f =
     (let f1 = set_field env_auth_mode (st_mode c) (set_field env_user_id (st_user c)
                 (set_field env_session_id (st_session c) (set_field env_password (st_password c)
                 (set_field env_username (st_username c) f))));
          f2 = (if st_acc c \<noteq> 0 then set_field env_acc_type (show_int (st_acc c)) f1 else AList.delete env_acc_type f1);
          updated = (case st_updated c of Some t \<Rightarrow> t | None \<Rightarrow> now)
      in apply_token (st_token c) (set_field env_updated_at (render_time updated) f2))"

section \<open>The file\<close>

definition header_lines :: "string list" where
  "header_lines =
    [''# opendrive-bridge credentials. Written by the bridge when you sign in; do not edit.'',
     ''# The next line is the key, the rest is your credentials encrypted with it. To read'',
     ''# them without the bridge:'',
     ''#   grep -v '^#' credentials.key | head -1 > /tmp/k'',
     ''#   grep -v '^#' credentials.key | tail -n +2 | '' @ [backslash],
     ''#     openssl enc -d -aes-256-cbc -pbkdf2 -iter 600000 -a -pass file:/tmp/k'',
     ''# Anyone who can read this file can do the same. Keep it private; back it up.'']"

lemma header_comments: "list_all (\<lambda>l. newline \<notin> set l \<and> has_prefix (trim_space l) ''#'') header_lines"
  by code_simp

definition file_header :: string where
  "file_header = concat (map (\<lambda>l. l @ [newline]) header_lines)"

definition credential_document :: "string \<Rightarrow> string \<Rightarrow> string" where
  "credential_document key sealed =
     file_header @ key @ [newline] @ sealed @ (if has_suffix sealed [newline] then [] else [newline])"

definition split_credential_file :: "string \<Rightarrow> (string \<times> string) option" where
  "split_credential_file raw =
     (let lines = filter (\<lambda>t. t \<noteq> [] \<and> \<not> has_prefix t ''#'') (map trim_space (split_on newline raw))
      in case lines of
           k # l # ls \<Rightarrow> Some (k, join_with newline (l # ls) @ [newline])
         | _ \<Rightarrow> None)"

datatype file_fields = NoFile | Unusable | Fields string fields

text \<open>What the content of the file says: nothing, that it was not written by the bridge or was damaged, or the key and the fields.\<close>

definition decode_file :: "crypto \<Rightarrow> (string \<Rightarrow> 256 word) \<Rightarrow> string option \<Rightarrow> file_fields" where
  "decode_file cy sha content =
     (case content of
        None \<Rightarrow> NoFile
      | Some raw \<Rightarrow>
          case split_credential_file raw of
            None \<Rightarrow> Unusable
          | Some (key, sealed) \<Rightarrow>
              if key = [] \<or> \<not> is_encrypted sealed then Unusable
              else case open_sealed cy sealed key of
                Inl _ \<Rightarrow> Unusable
              | Inr plain \<Rightarrow>
                  let f = parse_env plain in
                  if lookup f env_checksum = Some (checksum_of sha f) then Fields key f else Unusable)"

datatype fault = NoFault | FailsBefore | FailsAfter

text \<open>\<open>FailsAfter\<close> is a failure behind the rename: restricting the mode.\<close>

record env_store =
  ef_file :: "string option"
  ef_key :: string
  ef_random :: "nat \<Rightarrow> nat \<Rightarrow> string" \<comment> \<open>the n-th read of so many random bytes\<close>
  ef_reads :: nat
  ef_clock :: gotime
  ef_faults :: "nat \<Rightarrow> fault"
  ef_ops :: nat

definition next_fault :: "env_store \<Rightarrow> fault \<times> env_store" where
  "next_fault s = (ef_faults s (ef_ops s), s\<lparr>ef_ops := Suc (ef_ops s)\<rparr>)"

definition draw :: "nat \<Rightarrow> env_store \<Rightarrow> string \<times> env_store" where
  "draw n s = (ef_random s (ef_reads s) n, s\<lparr>ef_reads := Suc (ef_reads s)\<rparr>)"

datatype read_answer = ReadNone | ReadBroken | ReadFields fields

definition env_read :: "crypto \<Rightarrow> (string \<Rightarrow> 256 word) \<Rightarrow> env_store \<Rightarrow> read_answer \<times> env_store" where
  "env_read cy sha s =
     (case next_fault s of
        (NoFault, s1) \<Rightarrow>
          (case decode_file cy sha (ef_file s1) of
             NoFile \<Rightarrow> (ReadNone, s1)
           | Unusable \<Rightarrow> (ReadBroken, s1)
           | Fields key f \<Rightarrow> (ReadFields f, s1\<lparr>ef_key := key\<rparr>))
      | (_, s1) \<Rightarrow> (ReadBroken, s1))"

definition env_load :: "crypto \<Rightarrow> (string \<Rightarrow> 256 word) \<Rightarrow> env_store \<Rightarrow> load_answer \<times> env_store" where
  "env_load cy sha s =
     (case env_read cy sha s of
        (ReadNone, s1) \<Rightarrow> (NoCredentials, s1)
      | (ReadBroken, s1) \<Rightarrow> (LoadFailed (Plain ''keystore''), s1)
      | (ReadFields f, s1) \<Rightarrow>
          if field f env_username = [] then (NoCredentials, s1) else (Loaded (credentials_from_fields f), s1))"

text \<open>\<open>writeFileAtomic\<close>: up to the rename a failure leaves the file that was there.\<close>

definition write_file_atomic :: "string \<Rightarrow> env_store \<Rightarrow> bool \<times> env_store" where
  "write_file_atomic doc s =
     (case next_fault s of
        (NoFault, s1) \<Rightarrow> (True, s1\<lparr>ef_file := Some doc\<rparr>)
      | (FailsBefore, s1) \<Rightarrow> (False, s1)
      | (FailsAfter, s1) \<Rightarrow> (False, s1\<lparr>ef_file := Some doc\<rparr>))"

definition env_write :: "crypto \<Rightarrow> (string \<Rightarrow> 256 word) \<Rightarrow> fields \<Rightarrow> env_store \<Rightarrow> go_error option \<times> env_store" where
  "env_write cy sha f s =
     (let (key, s1) = (if ef_key s \<noteq> [] then (ef_key s, s)
                       else case draw 32 s of (material, s1) \<Rightarrow> (b64_encode material, s1));
          f1 = AList.update env_checksum (checksum_of sha f) f;
          (salt, s2) = draw salt_len s1;
          doc = credential_document key (seal cy salt (render_env f1) key)
      in case write_file_atomic doc s2 of
           (True, s3) \<Rightarrow> (None, s3\<lparr>ef_key := key\<rparr>)
         | (False, s3) \<Rightarrow> (Some (Plain ''keystore''), s3))"

definition env_save :: "crypto \<Rightarrow> (string \<Rightarrow> 256 word) \<Rightarrow> stored \<Rightarrow> env_store \<Rightarrow> go_error option \<times> env_store" where
  "env_save cy sha c s =
     (case env_read cy sha s of (r, s1) \<Rightarrow>
        env_write cy sha (apply_credentials (ef_clock s1) c (case r of ReadFields f \<Rightarrow> f | _ \<Rightarrow> [])) s1)"

definition env_delete :: "env_store \<Rightarrow> go_error option \<times> env_store" where
  "env_delete s =
     (case next_fault s of
        (NoFault, s1) \<Rightarrow> (None, s1\<lparr>ef_file := None, ef_key := []\<rparr>)
      | (_, s1) \<Rightarrow> (Some (Plain ''keystore''), s1))"

definition env_available :: "crypto \<Rightarrow> (string \<Rightarrow> 256 word) \<Rightarrow> env_store \<Rightarrow> bool" where
  "env_available cy sha s = (case fst (env_load cy sha s) of LoadFailed _ \<Rightarrow> False | _ \<Rightarrow> True)"

definition env_ops :: "crypto \<Rightarrow> (string \<Rightarrow> 256 word) \<Rightarrow> env_store cred_ops" where
  "env_ops cy sha = \<lparr>cs_load = env_load cy sha, cs_save = env_save cy sha, cs_delete = env_delete\<rparr>"

section \<open>Choosing a store\<close>

datatype backend = BackendAuto | BackendFile | BackendEphemeral | BackendOther string

datatype opened = OpenedFile | OpenedEphemeral | EphemeralNotAllowed | UnsupportedBackend

definition parse_backend :: "string \<Rightarrow> backend" where
  "parse_backend s =
     (if s = [] \<or> s = ''auto'' then BackendAuto else if s = ''encrypted_file'' then BackendFile
      else if s = ''ephemeral'' then BackendEphemeral else BackendOther s)"

definition keystore_open :: "string \<Rightarrow> bool \<Rightarrow> opened" where
  "keystore_open b allow_ephemeral =
     (case parse_backend b of
        BackendEphemeral \<Rightarrow> if \<not> allow_ephemeral then EphemeralNotAllowed else OpenedEphemeral
      | BackendFile \<Rightarrow> OpenedFile
      | BackendAuto \<Rightarrow> OpenedFile
      | BackendOther _ \<Rightarrow> UnsupportedBackend)"

section \<open>What was written can be read\<close>

fun chunks :: "nat \<Rightarrow> string \<Rightarrow> string list" where
  "chunks 0 s = [s]"
| "chunks (Suc n) s = (if length s > 64 then take 64 s # chunks n (drop 64 s) else [s])"

lemma wrap_chunks: "length s \<le> n \<Longrightarrow> wrap_lines s = concat (map (\<lambda>l. l @ [newline]) (chunks n s))"
proof (induction n arbitrary: s)
  case 0
  then show ?case by (subst wrap_lines.simps) simp
next
  case (Suc n)
  then show ?case by (subst wrap_lines.simps) simp
qed

lemma chunks_props:
  "s \<noteq> [] \<Longrightarrow> l \<in> set (chunks n s) \<Longrightarrow> l \<noteq> [] \<and> set l \<subseteq> set s"
proof (induction n arbitrary: s)
  case 0
  then show ?case by simp
next
  case (Suc n)
  then show ?case
    by (auto split: if_splits dest: in_set_takeD in_set_dropD) (metis drop_eq_Nil in_set_dropD linorder_not_less subsetD)+
qed

lemma chunks_nonempty: "chunks n s \<noteq> []"
  by (cases n) auto

text \<open>A line of the file that is neither blank nor a comment, and is read as it is.\<close>

definition plain_line :: "string \<Rightarrow> bool" where
  "plain_line l \<longleftrightarrow> l \<noteq> [] \<and> trim_space l = l \<and> newline \<notin> set l \<and> \<not> has_prefix l ''#''"

lemma armoured_line:
  assumes "l \<noteq> []" "set l \<subseteq> set (b64_encode raw)"
  shows "plain_line l"
proof -
  have c: "x \<noteq> CHR ''#'' \<and> (\<forall>w \<in> set space_seqs. hd w \<noteq> x \<and> last w \<noteq> x)" if "x \<in> set l" for x
  proof -
    have all: "list_all (\<lambda>x. x \<noteq> CHR ''#'' \<and> list_all (\<lambda>w. hd w \<noteq> x \<and> last w \<noteq> x) space_seqs) (pad_char # b64_alphabet)"
      by code_simp
    have "x \<in> set (pad_char # b64_alphabet)" using that assms(2) b64_encode_chars [of x raw] by auto
    then show ?thesis by (rule bspec [OF all [unfolded list_all_iff]])
  qed
  have "hd l \<in> set l" "last l \<in> set l" using assms(1) by simp_all
  then have "trimmed l" using assms(1) c by (intro trimmed_ends) blast+
  moreover have "newline \<notin> set l" using assms(2) armour_char by blast
  moreover have "\<not> has_prefix l ''#''" using assms(1) c \<open>hd l \<in> set l\<close> by (cases l) auto
  ultimately show ?thesis using assms(1) by (simp add: plain_line_def trim_space_id)
qed

lemma keep_plain:
  "list_all plain_line ls \<Longrightarrow> filter (\<lambda>t. t \<noteq> [] \<and> \<not> has_prefix t ''#'') (map trim_space ls) = ls"
  by (induction ls) (auto simp: plain_line_def)

lemma drop_comments:
  "list_all (\<lambda>l. newline \<notin> set l \<and> has_prefix (trim_space l) ''#'') ls
    \<Longrightarrow> filter (\<lambda>t. t \<noteq> [] \<and> \<not> has_prefix t ''#'') (map trim_space ls) = []"
  by (induction ls) auto

lemma split_document:
  assumes "plain_line key" "list_all plain_line ls" "ls \<noteq> []"
  shows "split_credential_file (credential_document key (concat (map (\<lambda>l. l @ [newline]) ls)))
    = Some (key, concat (map (\<lambda>l. l @ [newline]) ls))"
proof -
  let ?body = "concat (map (\<lambda>l. l @ [newline]) ls)"
  obtain ys y where "ls = ys @ [y]" using assms(3) by (cases ls rule: rev_cases) auto
  then have ends: "\<exists>xs. ?body = xs @ [newline]"
    by (intro exI [of _ "concat (map (\<lambda>l. l @ [newline]) ys) @ y"]) simp
  then have doc: "credential_document key ?body = concat (map (\<lambda>l. l @ [newline]) (header_lines @ key # ls))"
    by (auto simp: credential_document_def file_header_def suffix_def)
  have no_nl: "newline \<notin> set l" if "l \<in> set (header_lines @ key # ls)" for l
    using that assms(1,2) header_comments by (auto simp: plain_line_def list_all_iff)
  have "split_on newline (credential_document key ?body) = (header_lines @ key # ls) @ [[]]"
    unfolding doc by (rule split_lines) (rule no_nl)
  then have lines: "filter (\<lambda>t. t \<noteq> [] \<and> \<not> has_prefix t ''#'') (map trim_space (split_on newline (credential_document key ?body)))
      = key # ls"
    using drop_comments [OF header_comments] keep_plain [OF assms(2)] assms(1) by (simp add: plain_line_def)
  have join: "ls \<noteq> [] \<Longrightarrow> join_with newline ls @ [newline] = concat (map (\<lambda>l. l @ [newline]) ls)" for ls
  proof (induction ls)
    case Nil
    then show ?case by simp
  next
    case (Cons l ls)
    then show ?case by (cases ls) (simp_all add: join_with_Cons)
  qed
  obtain l ls' where "ls = l # ls'" using assms(3) by (cases ls) auto
  then show ?thesis using lines join [OF assms(3)] by (simp add: split_credential_file_def)
qed

lemma encode_nonempty: "raw \<noteq> [] \<Longrightarrow> b64_encode raw \<noteq> []"
  by (cases raw rule: b64_encode.cases) auto

lemma split_sealed:
  assumes "plain_line key"
  shows "split_credential_file (credential_document key (seal cy salt plain key)) = Some (key, seal cy salt plain key)"
proof -
  obtain raw where raw: "seal cy salt plain key = wrap_lines (b64_encode raw)" "raw \<noteq> []"
  proof -
    obtain k iv where "derive_key_iv (cy_hmac cy) key salt = (k, iv)" by fastforce
    moreover have "openssl_magic \<noteq> []" using magic_length by (metis list.size(3) zero_neq_numeral)
    ultimately show ?thesis by (intro that [of "openssl_magic @ salt @ cy_encrypt cy k iv (pkcs7_pad plain block_size)"])
        (simp_all add: seal_def)
  qed
  let ?ls = "chunks (length (b64_encode raw)) (b64_encode raw)"
  have "list_all plain_line ?ls"
    unfolding list_all_iff using chunks_props [OF encode_nonempty [OF raw(2)]] armoured_line by blast
  from split_document [OF assms this chunks_nonempty] show ?thesis
    using wrap_chunks [OF order_refl] by (simp add: raw(1))
qed

lemma field_cong: "lookup f = lookup g \<Longrightarrow> field f = field g"
  by (rule ext) (simp add: field_def)

lemma credentials_cong: "lookup f = lookup g \<Longrightarrow> credentials_from_fields f = credentials_from_fields g"
  using field_cong [of f g] by (simp add: credentials_from_fields_def)


text \<open>The names the bridge writes are capital letters and underscores.\<close>

lemma good_names:
  "good_key env_username" "good_key env_password" "good_key env_auth_mode" "good_key env_access_token"
  "good_key env_refresh_token" "good_key env_token_expiry" "good_key env_session_id" "good_key env_user_id"
  "good_key env_acc_type" "good_key env_updated_at" "good_key env_checksum"
  by code_simp+

lemma good_update: "good_fields f \<Longrightarrow> good_key k \<Longrightarrow> good_value v \<Longrightarrow> good_fields (AList.update k v f)"
  unfolding good_fields_def using set_update_subset [of k v f] by (intro conjI ballI) (simp, blast)

lemma good_delete: "good_fields f \<Longrightarrow> good_fields (AList.delete k f)"
  unfolding good_fields_def using set_delete_subset [of k f] by (intro conjI ballI) (simp, blast)

definition printable :: "string \<Rightarrow> bool" where
  "printable v \<longleftrightarrow> newline \<notin> set v"

lemma good_set_field: "good_fields f \<Longrightarrow> good_key k \<Longrightarrow> printable v \<Longrightarrow> good_fields (set_field k v f)"
  by (simp add: set_field_def good_update good_delete good_value_def printable_def)

text \<open>The document the store writes decodes to the key and fields it was made of.\<close>

lemma decode_written:
  assumes cy: "crypto_ok cy" "length salt = salt_len" and key: "plain_line key" and f: "good_fields f"
    and fresh: "f' = AList.update env_checksum (checksum_of sha f) f"
  shows "\<exists>g. decode_file cy sha (Some (credential_document key (seal cy salt (render_env f') key))) = Fields key g
    \<and> good_fields g \<and> lookup g = lookup f'"
proof -
  have wf: "wf_map f" using f by (simp add: good_fields_def)
  have "good_value (checksum_of sha f)" unfolding checksum_of_def by (rule hex_encode_good)
  then have f': "good_fields f'" unfolding fresh by (rule good_update [OF f good_names(11)])
  let ?g = "parse_env (render_env f')"
  have g: "lookup ?g = lookup f'" by (rule parse_render_env [OF f'])
  have wf': "wf_map f'" "wf_map ?g" using f' parse_env_wf by (auto simp: good_fields_def)
  have "lookup (filter (\<lambda>(k, v). k \<noteq> env_checksum) f') = lookup (filter (\<lambda>(k, v). k \<noteq> env_checksum) f)"
    by (rule ext) (simp add: lookup_filter wf wf' fresh map_simps split: option.splits)
  then have "checksum_of sha f' = checksum_of sha f"
    unfolding checksum_of_def using render_env_cong [OF wf_map_filter [OF wf'(1)] wf_map_filter [OF wf]] by simp
  moreover have "lookup f' env_checksum = Some (checksum_of sha f)" by (simp add: fresh map_simps)
  ultimately have sum: "lookup ?g env_checksum = Some (checksum_of sha ?g)"
    by (simp only: g checksum_cong [OF wf'(2,1) g])
  have "good_fields ?g"
    unfolding good_fields_def
  proof (intro conjI ballI)
    fix x assume x: "x \<in> set ?g"
    obtain k v where kv: "x = (k, v)" by (cases x)
    then have "lookup ?g k = Some v" using x wf'(2) by simp
    then have "lookup f' k = Some v" by (simp add: g)
    from good_fieldsD [OF f' this] show "case x of (k, v) \<Rightarrow> good_key k \<and> good_value v" by (simp add: kv)
  qed (rule wf'(2))
  moreover have "key \<noteq> []" using key by (simp add: plain_line_def)
  ultimately show ?thesis using g sum
    by (simp add: decode_file_def split_sealed [OF key] seal_is_encrypted open_seal [OF cy] Let_def)
qed

section \<open>The store keeps its contract\<close>

definition env_storable :: "stored \<Rightarrow> bool" where
  "env_storable c \<longleftrightarrow>
     st_username c \<noteq> [] \<and> list_all printable [st_username c, st_password c, st_session c, st_user c, st_mode c]
     \<and> in_int64 (st_acc c) \<and> (case st_updated c of None \<Rightarrow> False | Some t \<Rightarrow> four_digit_year t)
     \<and> (case st_token c of
           None \<Rightarrow> True
         | Some t \<Rightarrow> t_access t \<noteq> [] \<and> printable (t_access t) \<and> printable (t_refresh t)
                    \<and> (case t_expiry t of None \<Rightarrow> True | Some e \<Rightarrow> four_digit_year e))"

text \<open>What is left of credentials that went through the file: no issue time, no expiry of the refresh token, whole seconds.\<close>

definition env_image :: "stored \<Rightarrow> stored" where
  "env_image c =
     c\<lparr>st_token := map_option (\<lambda>t. t\<lparr>t_issued := None, t_refresh_expiry := None,
                                   t_expiry := map_option whole_seconds (t_expiry t)\<rparr>) (st_token c),
       st_mode := (if st_mode c = [] then mode_oauth2 else st_mode c),
       st_updated := map_option whole_seconds (st_updated c)\<rparr>"

lemma lookup_set_field: "lookup (set_field k v f) k' = (if k' = k then (if v = [] then None else Some v) else lookup f k')"
  by (simp add: set_field_def map_simps)


lemma field_updates [simp]:
  "field (set_field k v f) k' = (if k' = k then v else field f k')"
  "field (AList.update k v f) k' = (if k' = k then v else field f k')"
  "field (AList.delete k f) k' = (if k' = k then [] else field f k')"
  by (simp_all add: field_def set_field_def map_simps)

definition field_names :: "string list" where
  "field_names = [env_username, env_password, env_auth_mode, env_access_token, env_refresh_token, env_token_expiry,
     env_session_id, env_user_id, env_acc_type, env_updated_at, env_checksum]"

lemma names_distinct: "distinct field_names" "distinct (rev field_names)"
  by code_simp+

lemmas names_apart = names_distinct [unfolded field_names_def, simplified]

lemma render_time_text: "render_time t \<noteq> [] \<and> printable (render_time t)"
proof -
  have d: "newline \<noteq> digit (n mod 10)" for n
  proof
    assume "newline = digit (n mod 10)"
    then have "byte newline = byte (digit (n mod 10))" by (rule arg_cong)
    also have "\<dots> = 48 + n mod 10" by (rule digit_byte) simp
    finally show False by simp
  qed
  then have pads: "newline \<notin> set (pad2 n)" "newline \<notin> set (pad4 n)" "pad4 n \<noteq> []" for n
    by (simp_all add: pad2_def pad4_def)
  show ?thesis
    using pads by (auto simp: render_time_def printable_def split: prod.splits)
qed

lemma show_int_text: "printable (show_int n)"
proof -
  have "\<not> is_digit newline" by (simp add: is_digit_def less_eq_char_def)
  then have "newline \<notin> set (show_nat k)" for k using show_nat_digits [of k] by (auto simp: list_all_iff)
  then show ?thesis by (simp add: printable_def show_int_def)
qed

lemma good_apply:
  assumes "good_fields f" "env_storable c"
  shows "good_fields (apply_credentials now c f)"
  using assms
  by (auto simp: apply_credentials_def apply_token_def Let_def env_storable_def render_time_text show_int_text
      split: option.splits intro!: good_set_field good_delete good_names)

lemma apply_then_read:
  assumes "env_storable c"
  shows "field (apply_credentials now c f) env_username = st_username c
    \<and> credentials_from_fields (apply_credentials now c f) = env_image c"
proof -
  have no_number: "scan_int [] = None" by (simp add: scan_int_def)
  obtain t where t: "st_updated c = Some t" "four_digit_year t" using assms by (auto simp: env_storable_def split: option.splits)
  note times = render_time_text [THEN conjunct1] parse_render_time
  show ?thesis
  proof (cases "st_token c")
    case None
    then show ?thesis using assms t
      by (simp add: apply_credentials_def apply_token_def Let_def credentials_from_fields_def env_image_def names_apart
          no_number scan_show_int env_storable_def times)
  next
    case (Some tok)
    then show ?thesis using assms t
      by (cases "t_expiry tok")
        (simp_all add: apply_credentials_def apply_token_def Let_def credentials_from_fields_def env_image_def names_apart
          no_number scan_show_int env_storable_def times)
  qed
qed

definition env_contents :: "crypto \<Rightarrow> (string \<Rightarrow> 256 word) \<Rightarrow> env_store \<Rightarrow> load_answer" where
  "env_contents cy sha s =
     (case decode_file cy sha (ef_file s) of
        NoFile \<Rightarrow> NoCredentials
      | Unusable \<Rightarrow> LoadFailed (Plain ''keystore'')
      | Fields _ f \<Rightarrow> if field f env_username = [] then NoCredentials else Loaded (credentials_from_fields f))"

text \<open>The file was not written by anything else, the key in memory is one the store made, and a read of n random bytes has n bytes.\<close>

definition env_valid :: "crypto \<Rightarrow> (string \<Rightarrow> 256 word) \<Rightarrow> env_store \<Rightarrow> bool" where
  "env_valid cy sha s \<longleftrightarrow>
     crypto_ok cy \<and> (\<forall>i n. length (ef_random s i n) = n) \<and> (ef_key s = [] \<or> plain_line (ef_key s))
     \<and> (case decode_file cy sha (ef_file s) of Fields key f \<Rightarrow> plain_line key \<and> good_fields f | _ \<Rightarrow> True)"

lemma encoded_key: "length material = 32 \<Longrightarrow> plain_line (b64_encode material)"
  by (intro armoured_line [where raw = material] encode_nonempty) auto

lemma empty_good: "good_fields []"
  by (simp add: good_fields_def)

lemma env_read_spec:
  assumes "env_valid cy sha s" "env_read cy sha s = (r, s')"
  shows "env_valid cy sha s' \<and> ef_file s' = ef_file s \<and> ef_faults s' = ef_faults s
    \<and> (case r of ReadFields f \<Rightarrow> good_fields f | _ \<Rightarrow> True)"
  using assms
  by (auto simp: env_read_def next_fault_def env_valid_def split: fault.splits file_fields.splits prod.splits)

text \<open>A write puts the fields in the file, or leaves the file that was there.\<close>

lemma env_write_spec:
  assumes valid: "env_valid cy sha s" and f: "good_fields f" and w: "env_write cy sha f s = (e, s')"
  shows "env_valid cy sha s' \<and> ef_faults s' = ef_faults s
    \<and> ((\<exists>key g. decode_file cy sha (ef_file s') = Fields key g \<and> lookup g = lookup (AList.update env_checksum (checksum_of sha f) f))
       \<or> e \<noteq> None \<and> ef_file s' = ef_file s)"
proof -
  obtain key s1 where k: "(if ef_key s \<noteq> [] then (ef_key s, s) else case draw 32 s of (material, s1) \<Rightarrow> (b64_encode material, s1)) = (key, s1)"
    by fastforce
  obtain salt s2 where salt: "draw salt_len s1 = (salt, s2)" by fastforce
  let ?f' = "AList.update env_checksum (checksum_of sha f) f"
  let ?doc = "credential_document key (seal cy salt (render_env ?f') key)"
  have rnd: "\<forall>i n. length (ef_random s i n) = n" and cy: "crypto_ok cy" using valid by (auto simp: env_valid_def)
  have key: "plain_line key" "ef_random s1 = ef_random s" "ef_file s1 = ef_file s" "ef_faults s1 = ef_faults s" "ef_key s1 = ef_key s"
    using k valid rnd encoded_key by (auto simp: env_valid_def draw_def split: if_splits)
  have s2: "length salt = salt_len" "ef_random s2 = ef_random s" "ef_file s2 = ef_file s" "ef_faults s2 = ef_faults s" "ef_key s2 = ef_key s"
    using salt key rnd by (auto simp: draw_def)
  obtain g where g: "decode_file cy sha (Some ?doc) = Fields key g" "good_fields g" "lookup g = lookup ?f'"
    using decode_written [OF cy s2(1) key(1) f refl] by auto
  have put: "env_write cy sha f s =
      (case write_file_atomic ?doc s2 of
         (True, s3) \<Rightarrow> (None, s3\<lparr>ef_key := key\<rparr>)
       | (False, s3) \<Rightarrow> (Some (Plain ''keystore''), s3))"
    by (simp add: env_write_def k salt Let_def)
  have old: "ef_key s = [] \<or> plain_line (ef_key s)"
    "case decode_file cy sha (ef_file s) of Fields key f \<Rightarrow> plain_line key \<and> good_fields f | _ \<Rightarrow> True"
    using valid by (simp_all add: env_valid_def)
  show ?thesis
    using w s2 g key(1) cy rnd old
    by (cases "ef_faults s2 (ef_ops s2)")
      (auto simp: put write_file_atomic_def next_fault_def env_valid_def)
qed

text \<open>What a save leaves behind.\<close>

lemma env_save_spec:
  assumes valid: "env_valid cy sha s" and c: "env_storable c" and sv: "env_save cy sha c s = (e, s')"
  shows "env_valid cy sha s' \<and> ef_faults s' = ef_faults s
    \<and> (env_contents cy sha s' = Loaded (env_image c) \<or> e \<noteq> None \<and> env_contents cy sha s' = env_contents cy sha s)"
proof -
  obtain r s1 where r: "env_read cy sha s = (r, s1)" by fastforce
  note read = env_read_spec [OF valid r]
  let ?f = "apply_credentials (ef_clock s1) c (case r of ReadFields f \<Rightarrow> f | _ \<Rightarrow> [])"
  let ?f' = "AList.update env_checksum (checksum_of sha ?f) ?f"
  have "good_fields (case r of ReadFields f \<Rightarrow> f | _ \<Rightarrow> [])" using read empty_good by (auto split: read_answer.splits)
  then have f: "good_fields ?f" by (rule good_apply [OF _ c])
  have "env_write cy sha ?f s1 = (e, s')" using sv by (simp add: env_save_def r)
  from env_write_spec [OF conjunct1 [OF read] f this] have w: "env_valid cy sha s'" "ef_faults s' = ef_faults s"
      "(\<exists>key g. decode_file cy sha (ef_file s') = Fields key g \<and> lookup g = lookup ?f') \<or> e \<noteq> None \<and> ef_file s' = ef_file s"
    using read by auto
  have "env_contents cy sha s' = Loaded (env_image c)" if d: "decode_file cy sha (ef_file s') = Fields key g" "lookup g = lookup ?f'" for key g
  proof -
    have "credentials_from_fields g = credentials_from_fields ?f"
      unfolding credentials_cong [OF d(2)] by (simp add: credentials_from_fields_def names_apart)
    moreover have "field g env_username = field ?f env_username" unfolding field_cong [OF d(2)] by (simp add: names_apart)
    moreover have "st_username c \<noteq> []" using c by (simp add: env_storable_def)
    ultimately show ?thesis using apply_then_read [OF c] d(1) by (simp add: env_contents_def)
  qed
  with w show ?thesis by (auto simp: env_contents_def)
qed

lemma env_delete_spec:
  assumes "env_valid cy sha s" "env_delete s = (e, s')"
  shows "env_valid cy sha s' \<and> ef_faults s' = ef_faults s
    \<and> (if e = None then env_contents cy sha s' = NoCredentials else env_contents cy sha s' = env_contents cy sha s)"
  using assms
  by (auto simp: env_delete_def next_fault_def env_valid_def env_contents_def decode_file_def split: fault.splits)

lemma env_load_spec:
  assumes "env_valid cy sha s" "env_load cy sha s = (a, s')"
  shows "env_valid cy sha s' \<and> ef_faults s' = ef_faults s \<and> env_contents cy sha s' = env_contents cy sha s
    \<and> (a = env_contents cy sha s \<or> (\<exists>e. a = LoadFailed e) \<and> ef_faults s (ef_ops s) \<noteq> NoFault)"
proof -
  obtain r s1 where r: "env_read cy sha s = (r, s1)" by fastforce
  have s': "s' = s1" using assms(2) r by (auto simp: env_load_def split: read_answer.splits if_splits)
  have "a = env_contents cy sha s \<or> (\<exists>e. a = LoadFailed e) \<and> ef_faults s (ef_ops s) \<noteq> NoFault"
    using r assms(2)
    by (auto simp: env_load_def env_read_def next_fault_def env_contents_def split: fault.splits file_fields.splits if_splits)
  then show ?thesis using env_read_spec [OF assms(1) r] by (simp add: s' env_contents_def)
qed

definition no_faults :: "env_store \<Rightarrow> bool" where
  "no_faults s \<longleftrightarrow> (\<forall>n. ef_faults s n = NoFault)"

lemma no_fault_save: "no_faults s \<Longrightarrow> fst (env_save cy sha c s) = None"
proof -
  assume h: "no_faults s"
  obtain r s1 where r: "env_read cy sha s = (r, s1)" by fastforce
  have "ef_faults s1 = ef_faults s"
    using r by (auto simp: env_read_def next_fault_def split: fault.splits file_fields.splits)
  then show ?thesis using h
    by (auto simp: env_save_def r env_write_def write_file_atomic_def next_fault_def no_faults_def draw_def Let_def
        split: prod.splits fault.splits if_splits)
qed

text \<open>The same facts about the functions of the interface.\<close>

lemma env_laws:
  assumes "env_valid cy sha s"
  shows "env_valid cy sha (snd (cs_load (env_ops cy sha) s))"
    and "fst (cs_load (env_ops cy sha) s) = env_contents cy sha s
      \<or> (\<exists>e. fst (cs_load (env_ops cy sha) s) = LoadFailed e) \<and> ef_faults s (ef_ops s) \<noteq> NoFault"
    and "env_contents cy sha (snd (cs_load (env_ops cy sha) s)) = env_contents cy sha s"
    and "env_valid cy sha (snd (cs_delete (env_ops cy sha) s))"
    and "env_contents cy sha (snd (cs_delete (env_ops cy sha) s))
      = (if fst (cs_delete (env_ops cy sha) s) = None then NoCredentials else env_contents cy sha s)"
    and "no_faults s \<Longrightarrow> no_faults (snd (cs_load (env_ops cy sha) s)) \<and> fst (cs_delete (env_ops cy sha) s) = None
      \<and> no_faults (snd (cs_delete (env_ops cy sha) s))"
proof -
  obtain a s1 where l: "env_load cy sha s = (a, s1)" by fastforce
  obtain e s2 where d: "env_delete s = (e, s2)" by fastforce
  note specs = env_load_spec [OF assms l] env_delete_spec [OF assms d]
  show "env_valid cy sha (snd (cs_load (env_ops cy sha) s))"
    "env_contents cy sha (snd (cs_load (env_ops cy sha) s)) = env_contents cy sha s"
    "fst (cs_load (env_ops cy sha) s) = env_contents cy sha s
      \<or> (\<exists>e. fst (cs_load (env_ops cy sha) s) = LoadFailed e) \<and> ef_faults s (ef_ops s) \<noteq> NoFault"
    "env_valid cy sha (snd (cs_delete (env_ops cy sha) s))"
    "env_contents cy sha (snd (cs_delete (env_ops cy sha) s))
      = (if fst (cs_delete (env_ops cy sha) s) = None then NoCredentials else env_contents cy sha s)"
    using specs by (simp_all add: env_ops_def l d)
  have "e = None" if "no_faults s" using d that by (simp add: env_delete_def next_fault_def no_faults_def)
  then show "no_faults s \<Longrightarrow> no_faults (snd (cs_load (env_ops cy sha) s)) \<and> fst (cs_delete (env_ops cy sha) s) = None
      \<and> no_faults (snd (cs_delete (env_ops cy sha) s))"
    using specs by (simp add: env_ops_def l d no_faults_def)
qed

lemma env_save_laws:
  assumes "env_valid cy sha s" "env_storable c"
  shows "env_valid cy sha (snd (cs_save (env_ops cy sha) c s))"
    and "fst (cs_save (env_ops cy sha) c s) = None \<Longrightarrow>
      env_contents cy sha (snd (cs_save (env_ops cy sha) c s)) = Loaded (env_image c)"
    and "env_contents cy sha (snd (cs_save (env_ops cy sha) c s)) = env_contents cy sha s
      \<or> env_contents cy sha (snd (cs_save (env_ops cy sha) c s)) = Loaded (env_image c)"
    and "no_faults s \<Longrightarrow> fst (cs_save (env_ops cy sha) c s) = None \<and> no_faults (snd (cs_save (env_ops cy sha) c s))"
proof -
  obtain e s' where sv: "env_save cy sha c s = (e, s')" by fastforce
  have "no_faults s \<Longrightarrow> e = None" using no_fault_save [of s cy sha c] sv by simp
  with env_save_spec [OF assms sv] show
    "env_valid cy sha (snd (cs_save (env_ops cy sha) c s))"
    "fst (cs_save (env_ops cy sha) c s) = None \<Longrightarrow>
      env_contents cy sha (snd (cs_save (env_ops cy sha) c s)) = Loaded (env_image c)"
    "env_contents cy sha (snd (cs_save (env_ops cy sha) c s)) = env_contents cy sha s
      \<or> env_contents cy sha (snd (cs_save (env_ops cy sha) c s)) = Loaded (env_image c)"
    "no_faults s \<Longrightarrow> fst (cs_save (env_ops cy sha) c s) = None \<and> no_faults (snd (cs_save (env_ops cy sha) c s))"
    by (auto simp: env_ops_def sv no_faults_def)
qed

lemma env_image_keeps:
  "st_username (env_image c) = st_username c \<and> st_password (env_image c) = st_password c
    \<and> st_session (env_image c) = st_session c
    \<and> map_option t_access (st_token (env_image c)) = map_option t_access (st_token c)
    \<and> map_option t_refresh (st_token (env_image c)) = map_option t_refresh (st_token c)"
  by (cases "st_token c") (simp_all add: env_image_def)

interpretation env: sound_store "env_ops cy sha" "env_contents cy sha" env_image env_storable "env_valid cy sha" no_faults
  for cy sha
proof
  fix s c
  assume v: "env_valid cy sha s"
  note laws = env_laws [OF v] and saves = env_save_laws [OF v]
  show "env_valid cy sha (snd (cs_load (env_ops cy sha) s))" by (rule laws)
  show "env_valid cy sha (snd (cs_delete (env_ops cy sha) s))" by (rule laws)
  show "fst (cs_load (env_ops cy sha) s) = env_contents cy sha s \<or> (\<exists>e. fst (cs_load (env_ops cy sha) s) = LoadFailed e)"
    using laws(2) by blast
  show "env_contents cy sha (snd (cs_load (env_ops cy sha) s)) = env_contents cy sha s" by (rule laws)
  show "fst (cs_delete (env_ops cy sha) s) = None \<Longrightarrow> env_contents cy sha (snd (cs_delete (env_ops cy sha) s)) = NoCredentials"
    using laws(5) by simp
  show "fst (cs_delete (env_ops cy sha) s) \<noteq> None \<Longrightarrow> env_contents cy sha (snd (cs_delete (env_ops cy sha) s)) = env_contents cy sha s"
    using laws(5) by (metis (full_types))
  show "env_storable c \<Longrightarrow> env_valid cy sha (snd (cs_save (env_ops cy sha) c s))" by (rule saves)
  show "env_storable c \<Longrightarrow> fst (cs_save (env_ops cy sha) c s) = None \<Longrightarrow>
      env_contents cy sha (snd (cs_save (env_ops cy sha) c s)) = Loaded (env_image c)" by (rule saves)
  show "env_storable c \<Longrightarrow> fst (cs_save (env_ops cy sha) c s) \<noteq> None \<Longrightarrow>
      env_contents cy sha (snd (cs_save (env_ops cy sha) c s)) = env_contents cy sha s
      \<or> env_contents cy sha (snd (cs_save (env_ops cy sha) c s)) = Loaded (env_image c)" by (rule saves)
  assume h: "no_faults s"
  show "env_storable c \<Longrightarrow> fst (cs_save (env_ops cy sha) c s) = None \<and> no_faults (snd (cs_save (env_ops cy sha) c s))"
    by (rule saves) (assumption, rule h)
  show "fst (cs_load (env_ops cy sha) s) = env_contents cy sha s \<and> no_faults (snd (cs_load (env_ops cy sha) s))"
    using laws(2) laws(6) [OF h] h by (simp add: no_faults_def)
  show "fst (cs_delete (env_ops cy sha) s) = None \<and> no_faults (snd (cs_delete (env_ops cy sha) s))"
    using laws(6) [OF h] by simp
qed (rule env_image_keeps)

end
