(* ===== verification/Keystore_Props.thy ===== *)
theory Keystore_Props
  imports Keystore
begin

text \<open>
  What the credential file means for the authenticator that keeps its credentials in it: a sign-in survives a restart and
  a failing disk, the file follows the memory, no password reaches the disk unasked, and what a restart forgets.
\<close>

text \<open>The next process: the same file, nothing in memory. What goes wrong for it is its own affair.\<close>

definition restarted :: "env_store \<Rightarrow> (nat \<Rightarrow> fault) \<Rightarrow> env_store" where
  "restarted s faults = s\<lparr>ef_key := [], ef_faults := faults\<rparr>"

lemma restart_reads:
  assumes "faults (ef_ops s) = NoFault"
  shows "fst (env_load cy sha (restarted s faults)) = env_contents cy sha s"
  using assms
  by (auto simp: env_load_def env_read_def next_fault_def restarted_def env_contents_def split: file_fields.splits)

section \<open>A restart\<close>



text \<open>C30: With \<open>persist_password\<close> off, no run puts a password on the disk, whatever fails on the way: if the file had none
  for the account in it, it never gets one.\<close>
theorem no_password_on_disk:
  assumes "env_valid cy sha s" "\<not> ac_persist cfg" "oa_run (env_ops cy sha) cfg env_storable s w"
    and "\<And>c. env_contents cy sha s = Loaded c \<Longrightarrow> st_password c = []"
    and "decode_file cy sha (ef_file (au_store (w_auth w))) = Fields key f" "field f env_username \<noteq> []"
  shows "field f env_password = []"
proof -
  have "env.passwordless cy sha cfg (new_machine s)"
    using assms(1,4) by (simp add: env.passwordless_def new_machine_def)
  from env.privacy.run_keeps [OF assms(3) this] have "\<And>c. env_contents cy sha (au_store (w_auth w)) = Loaded c \<Longrightarrow> st_password c = []"
    using assms(2) by (simp add: env.passwordless_def)
  from this [of "credentials_from_fields f"] show ?thesis
    using assms(5,6) by (simp add: env_contents_def credentials_from_fields_def)
qed

text \<open>The file does not keep when a token was issued.\<close>

lemma loaded_age: "fst (env_load cy sha s) = Loaded c \<Longrightarrow> st_token c = Some t \<Longrightarrow> t_issued t = None \<and> t_access t \<noteq> []"
  by (auto simp: env_load_def credentials_from_fields_def split: prod.splits read_answer.splits if_splits)

text \<open>After a restart the keep-alive renews nothing: an authenticator whose credentials came from the file sends nothing on
  any number of \<open>EnsureFresh\<close> calls, however far apart, past every renewal interval and past the
  expiry of the token, although \<open>EnsureFresh\<close> is there so that an idle bridge does not lose its credential.\<close>
theorem restart_forgets_age:
  assumes "fst (env_load cy sha s) = Loaded c" "st_token c = Some t" "ac_has_store cfg"
  shows "au_sent (fold (\<lambda>io m. snd (oa_ensure_fresh (env_ops cy sha) cfg io m)) ios (new_machine s)) = []"
proof -
  note t = loaded_age [OF assms(1,2)]
  obtain s1 where l: "env_load cy sha s = (Loaded c, s1)" using assms(1) by (cases "env_load cy sha s") auto
  let ?idle = "\<lambda>m. au_sent m = [] \<and> (m = new_machine s \<or> au_loaded m \<and> au_cred m = Some c)"
  have "?idle (snd (oa_ensure_fresh (env_ops cy sha) cfg io m))" if "?idle m" for io m
    using that l t assms(2,3)
    by (auto simp: oa_ensure_fresh_def oa_ensure_loaded_def load_once_def new_machine_def env_ops_def oa_usable_def
        stale_for_renewal_def Let_def)
  then have "?idle (fold (\<lambda>io m. snd (oa_ensure_fresh (env_ops cy sha) cfg io m)) ios m)" if "?idle m" for m
    using that by (induction ios arbitrary: m) auto
  from this [of "new_machine s"] show ?thesis by (simp add: new_machine_def)
qed

section \<open>Examples\<close>

text \<open>A cipher that changes nothing and a hash that is always 0 keep the hypotheses.\<close>

definition no_cipher :: crypto where
  "no_cipher = \<lparr>cy_hmac = (\<lambda>_ _. replicate 32 CHR ''h''), cy_encrypt = (\<lambda>_ _ x. x), cy_decrypt = (\<lambda>_ _ x. x)\<rparr>"

definition no_hash :: "string \<Rightarrow> 256 word" where
  "no_hash s = 0"

definition first_start :: env_store where
  "first_start = \<lparr>ef_file = None, ef_key = [], ef_random = (\<lambda>_ n. replicate n CHR ''r''), ef_reads = 0, ef_clock = 0,
     ef_faults = (\<lambda>_. NoFault), ef_ops = 0\<rparr>"

definition derek :: stored where
  "derek = \<lparr>st_username = ''derek'', st_password = ''a\"b c'', st_token = Some \<lparr>t_access = ''at'', t_refresh = ''rt'',
     t_issued = Some 0, t_expiry = Some 3600000000000, t_refresh_expiry = Some 2592000000000000\<rparr>, st_session = [],
     st_mode = mode_oauth2, st_user = [], st_acc = 0, st_updated = Some 0\<rparr>"

lemma first_start_valid: "env_valid no_cipher no_hash first_start" "no_faults first_start"
  by (simp_all add: env_valid_def crypto_ok_def mac_ok_def no_cipher_def first_start_def decode_file_def no_faults_def)

lemma derek_storable: "env_storable derek"
  by code_simp


definition signed_in_file :: "auth_config \<Rightarrow> env_store oa_world" where
  "signed_in_file cfg = oa_step (env_ops no_cipher no_hash) cfg (OaLogin ''derek'' ''pw'' (accepted_at 0)) (new_world first_start)"

definition signed_in_cred :: "auth_config \<Rightarrow> stored" where
  "signed_in_cred cfg = \<lparr>st_username = ''derek'', st_password = (if ac_persist cfg then ''pw'' else []),
     st_token = Some \<lparr>t_access = ''at'', t_refresh = ''rt'', t_issued = Some 0, t_expiry = Some 3600000000000,
       t_refresh_expiry = Some 2592000000000000\<rparr>, st_session = [], st_mode = mode_oauth2, st_user = [], st_acc = 0,
     st_updated = Some 0\<rparr>"

lemma signed_in_file_parts:
  assumes "ac_has_store cfg"
  shows "au_loaded (w_auth (signed_in_file cfg)) \<and> au_cred (w_auth (signed_in_file cfg)) = Some (signed_in_cred cfg)
    \<and> au_store (w_auth (signed_in_file cfg)) = snd (env_save no_cipher no_hash (signed_in_cred cfg) first_start)"
  using assms
  by (simp add: signed_in_file_def oa_login_def password_grant_def token_from_def example_defs new_world_def new_machine_def
      adopt_def on_auth_def on_gate_def sending_def env_ops_def signed_in_cred_def auth_constants wrap64_def Let_def)

lemma signed_in_storable: "env_storable (signed_in_cred cfg)"
proof -
  have "four_digit_year 0" "four_digit_year 3600000000000" by code_simp+
  then show ?thesis
    by (simp add: env_storable_def signed_in_cred_def printable_def mode_oauth2_def in_int64_def)
qed

lemma signed_in_file_run:
  assumes "ac_has_store cfg"
  shows "oa_run (env_ops no_cipher no_hash) cfg env_storable first_start (signed_in_file cfg)"
proof -
  have "holds env_storable (w_auth (signed_in_file cfg))"
    using signed_in_file_parts [OF assms] signed_in_storable by (simp add: holds_def)
  then show ?thesis unfolding signed_in_file_def by (rule oa_run.step [OF oa_run.start])
qed


theorem no_password_on_disk_witness:
  "\<exists>key f. decode_file no_cipher no_hash (ef_file (au_store (w_auth (signed_in_file (default_auth_config\<lparr>ac_persist := False\<rparr>)))))
      = Fields key f \<and> field f env_username \<noteq> [] \<and> field f env_password = []"
proof -
  let ?cfg = "default_auth_config\<lparr>ac_persist := False\<rparr>"
  let ?s = "au_store (w_auth (signed_in_file ?cfg))"
  have cfg: "ac_has_store ?cfg" by (simp add: default_auth_config_def)
  have store: "?s = snd (env_save no_cipher no_hash (signed_in_cred ?cfg) first_start)"
    using signed_in_file_parts [OF cfg] by blast
  have "env_contents no_cipher no_hash ?s = Loaded (env_image (signed_in_cred ?cfg))"
    unfolding store
    using env_save_spec [OF first_start_valid(1) signed_in_storable surjective_pairing] no_fault_save [OF first_start_valid(2)]
    by blast
  then obtain key f where f: "decode_file no_cipher no_hash (ef_file ?s) = Fields key f" "field f env_username \<noteq> []"
    by (auto simp: env_contents_def split: file_fields.splits if_splits)
  have off: "\<not> ac_persist ?cfg" by simp
  have fresh: "st_password c = []" if "env_contents no_cipher no_hash first_start = Loaded c" for c
    using that by (simp add: env_contents_def decode_file_def first_start_def)
  show ?thesis
    using no_password_on_disk [OF first_start_valid(1) off signed_in_file_run [OF cfg] fresh f] f by blast
qed

lemma derek_loaded:
  "fst (env_load no_cipher no_hash (restarted (snd (env_save no_cipher no_hash derek first_start)) (\<lambda>_. NoFault)))
     = Loaded (env_image derek)"
  using env_save_spec [OF first_start_valid(1) derek_storable surjective_pairing] no_fault_save [OF first_start_valid(2)]
  by (auto simp: restart_reads)

theorem restart_forgets_age_witness:
  "au_sent (fold (\<lambda>io m. snd (oa_ensure_fresh (env_ops no_cipher no_hash) default_auth_config io m))
      [accepted_at (seconds 86400), accepted_at (seconds 8640000)]
      (new_machine (restarted (snd (env_save no_cipher no_hash derek first_start)) (\<lambda>_. NoFault)))) = []"
  by (rule restart_forgets_age [OF derek_loaded]) (simp_all add: env_image_def derek_def default_auth_config_def)

end
