(* ===== verification/Redact.thy ===== *)
theory Redact
  imports Go_Strings
begin

text \<open>
  \<open>pkg/opendrive/redact.go\<close>: masking credentials in free text (\<open>RedactString\<close>). The regular expression
  \<open>(?i)("?\b(?:names)\b"?\s*[:=]\s*"?)([^&"'\s,}]+)\<close> is matched at one position by \<open>match_at\<close>: an optional part is taken when it is
  there, since what follows it never begins with the same character. Ignoring case, an \<open>s\<close> and a \<open>k\<close> of a name also match the long s and the
  Kelvin sign. \<open>RedactURL\<close> is not represented.
\<close>

section \<open>One match\<close>

definition sensitive_params :: "string list" where
  "sensitive_params =
     [''access_token'', ''refresh_token'', ''session_id'', ''session_key'', ''passwd'', ''password'', ''new_password'', ''old_password'',
      ''temp_key'', ''temp_auth'', ''captcha_response'', ''client_secret'', ''api_key'', ''PrivateKey'', ''private_key'']"

definition redacted :: string where
  "redacted = ''REDACTED''"

definition kept_value :: string where
  "kept_value = ''OAUTH''"

abbreviation dquote :: char where "dquote \<equiv> CHR 0x22"

definition word_char :: "char \<Rightarrow> bool" where
  "word_char c \<longleftrightarrow> CHR ''0'' \<le> c \<and> c \<le> CHR ''9'' \<or> CHR ''A'' \<le> c \<and> c \<le> CHR ''Z'' \<or> CHR ''a'' \<le> c \<and> c \<le> CHR ''z'' \<or> c = CHR ''_''"

definition re_space :: "char \<Rightarrow> bool" where
  "re_space c \<longleftrightarrow> c \<in> {CHR 0x09, CHR 0x0A, CHR 0x0C, CHR 0x0D, CHR 0x20}"

definition value_char :: "char \<Rightarrow> bool" where
  "value_char c \<longleftrightarrow> \<not> re_space c \<and> c \<notin> {CHR ''&'', dquote, CHR 0x27, CHR '','', CHR 0x7D}"

definition opens_word :: "char option \<Rightarrow> bool" where
  "opens_word c = (case c of None \<Rightarrow> False | Some c \<Rightarrow> word_char c)"

definition first_char :: "string \<Rightarrow> char option" where
  "first_char s = (case s of [] \<Rightarrow> None | c # _ \<Rightarrow> Some c)"

text \<open>\<open>\b\<close>, with the character before the position and the text after it.\<close>

definition boundary :: "char option \<Rightarrow> string \<Rightarrow> bool" where
  "boundary before s \<longleftrightarrow> opens_word before \<noteq> opens_word (first_char s)"

definition fold_char :: "char \<Rightarrow> string \<Rightarrow> string option" where
  "fold_char n s =
     (case s of
        [] \<Rightarrow> None
      | c # r \<Rightarrow>
          if lower_char c = lower_char n then Some r
          else if lower_char n = CHR ''s'' \<and> has_prefix s [CHR 0xC5, CHR 0xBF] then Some (drop 2 s)
          else if lower_char n = CHR ''k'' \<and> has_prefix s [CHR 0xE2, CHR 0x84, CHR 0xAA] then Some (drop 3 s)
          else None)"

fun fold_name :: "string \<Rightarrow> string \<Rightarrow> string option" where
  "fold_name [] s = Some s"
| "fold_name (n # ns) s = (case fold_char n s of None \<Rightarrow> None | Some r \<Rightarrow> fold_name ns r)"

definition skip_quote :: "string \<Rightarrow> string" where
  "skip_quote s = (if first_char s = Some dquote then tl s else s)"

definition separator :: "char \<Rightarrow> bool" where
  "separator c \<longleftrightarrow> c = CHR '':'' \<or> c = CHR ''=''"

text \<open>After the name: the text from the value on.\<close>

definition value_part :: "string \<Rightarrow> string option" where
  "value_part s =
     (case dropWhile re_space (skip_quote s) of
        c # r \<Rightarrow>
          if separator c then
            (let v = skip_quote (dropWhile re_space r) in if takeWhile value_char v = [] then None else Some v)
          else None
      | [] \<Rightarrow> None)"

definition match_name :: "string \<Rightarrow> string \<Rightarrow> string option" where
  "match_name s n =
     (case fold_name n s of
        None \<Rightarrow> None
      | Some r \<Rightarrow> if boundary (Some (last (take (length s - length r) s))) r then value_part r else None)"

fun first_some :: "('a \<Rightarrow> 'b option) \<Rightarrow> 'a list \<Rightarrow> 'b option" where
  "first_some f [] = None"
| "first_some f (x # xs) = (case f x of None \<Rightarrow> first_some f xs | Some y \<Rightarrow> Some y)"

text \<open>The two groups and the text after the match.\<close>

definition match_at :: "char option \<Rightarrow> string \<Rightarrow> (string \<times> string \<times> string) option" where
  "match_at before s =
     (let s1 = skip_quote s; before1 = (if first_char s = Some dquote then Some dquote else before) in
      if \<not> boundary before1 s1 then None
      else case first_some (match_name s1) sensitive_params of
        None \<Rightarrow> None
      | Some v \<Rightarrow> Some (take (length s - length v) s, takeWhile value_char v, dropWhile value_char v))"

section \<open>Replacing\<close>

fun find_submatch :: "char option \<Rightarrow> string \<Rightarrow> (string \<times> string) option" where
  "find_submatch before [] = None"
| "find_submatch before (c # cs) =
     (case match_at before (c # cs) of
        Some (g, v, _) \<Rightarrow> Some (g, v)
      | None \<Rightarrow> find_submatch (Some c) cs)"

definition mask :: "string \<Rightarrow> string" where
  "mask m =
     (case find_submatch None m of
        None \<Rightarrow> m
      | Some (g, v) \<Rightarrow> if v = kept_value then m else g @ redacted)"

lemma skip_quote_suffix: "suffix (skip_quote s) s"
  by (cases s) (auto simp: skip_quote_def first_char_def suffix_def)

lemma fold_char_shorter: "fold_char n s = Some r \<Longrightarrow> suffix r s \<and> length r < length s"
  by (cases s) (auto simp: fold_char_def suffix_drop suffix_def split: if_splits intro: exI [of _ "take 2 s"] exI [of _ "take 3 s"])

lemma fold_name_suffix: "fold_name n s = Some r \<Longrightarrow> suffix r s \<and> (n \<noteq> [] \<longrightarrow> length r < length s)"
proof (induction n s rule: fold_name.induct)
  case (2 n ns s)
  then obtain r1 where r1: "fold_char n s = Some r1" "fold_name ns r1 = Some r" by (auto split: option.splits)
  from fold_char_shorter [OF r1(1)] 2(1) [OF r1(1,2)] show ?case by (auto dest: suffix_length_le intro: suffix_order.trans)
qed simp

lemma dropWhile_suffix: "suffix (dropWhile P s) s"
  by (metis suffix_def takeWhile_dropWhile_id)

lemma value_part_suffix:
  assumes "value_part s = Some v"
  shows "suffix v s" "takeWhile value_char v \<noteq> []"
proof -
  obtain c r where cr: "dropWhile re_space (skip_quote s) = c # r" and v: "v = skip_quote (dropWhile re_space r)" "takeWhile value_char v \<noteq> []"
  proof (cases "dropWhile re_space (skip_quote s)")
    case (Cons c r)
    then show ?thesis using assms that [of c r] by (simp add: value_part_def Let_def split: if_splits)
  next
    case Nil
    then show ?thesis using assms by (simp add: value_part_def del: dropWhile_eq_Nil_conv)
  qed
  have "suffix v r" unfolding v(1) by (rule suffix_order.trans [OF skip_quote_suffix dropWhile_suffix])
  moreover have "suffix r (dropWhile re_space (skip_quote s))" by (simp add: cr suffix_Cons)
  moreover have "suffix (dropWhile re_space (skip_quote s)) s" by (rule suffix_order.trans [OF dropWhile_suffix skip_quote_suffix])
  ultimately show "suffix v s" by (meson suffix_order.trans)
  show "takeWhile value_char v \<noteq> []" by (rule v(2))
qed

lemma first_some_Some: "first_some f xs = Some y \<Longrightarrow> \<exists>x \<in> set xs. f x = Some y"
  by (induction xs) (auto split: option.splits)

lemma match_atE:
  assumes "match_at before s = Some (g, v, rest)"
  obtains u n where "g = take (length s - length u) s" "v = takeWhile value_char u" "rest = dropWhile value_char u"
    "n \<in> set sensitive_params" "match_name (skip_quote s) n = Some u"
proof (cases "first_some (match_name (skip_quote s)) sensitive_params")
  case None
  with assms show ?thesis unfolding match_at_def Let_def by (simp split: if_split_asm del: first_some.simps)
next
  case (Some u)
  with assms have "g = take (length s - length u) s" "v = takeWhile value_char u" "rest = dropWhile value_char u"
    unfolding match_at_def Let_def by (simp_all split: if_split_asm)
  with first_some_Some [OF Some] that show ?thesis by blast
qed

lemma match_at_parts:
  assumes "match_at before s = Some (g, v, rest)"
  shows "s = g @ v @ rest" "v \<noteq> []"
proof -
  obtain u n where u: "g = take (length s - length u) s" "v = takeWhile value_char u" "rest = dropWhile value_char u"
    and n: "match_name (skip_quote s) n = Some u"
    using assms by (rule match_atE)
  obtain r where r: "fold_name n (skip_quote s) = Some r" "value_part r = Some u"
    using n unfolding match_name_def by (cases "fold_name n (skip_quote s)") (simp_all split: if_split_asm)
  have "suffix u s" using value_part_suffix(1) [OF r(2)] fold_name_suffix [OF r(1)] skip_quote_suffix [of s] by (meson suffix_order.trans)
  then show "s = g @ v @ rest" unfolding u by (auto simp: suffix_def)
  show "v \<noteq> []" using value_part_suffix(2) [OF r(2)] u(2) by simp
qed

lemma match_at_shorter: "match_at before s = Some (g, v, rest) \<Longrightarrow> length rest < length s"
  using match_at_parts [of before s g v rest] by (cases v) simp_all

function redact_scan :: "char option \<Rightarrow> string \<Rightarrow> string" where
  "redact_scan before s =
     (case s of
        [] \<Rightarrow> []
      | c # cs \<Rightarrow>
          case match_at before s of
            Some (g, v, rest) \<Rightarrow> mask (g @ v) @ redact_scan (Some (last v)) rest
          | None \<Rightarrow> c # redact_scan (Some c) cs)"
  by pat_completeness auto
termination
  by (relation "measure (length \<circ> snd)") (auto dest!: match_at_shorter)

declare redact_scan.simps [simp del]

definition redact_string :: "string \<Rightarrow> string" where
  "redact_string s = (if s = [] then s else redact_scan None s)"

section \<open>What is left\<close>

text \<open>A value ends at the first space, comma, quote, ampersand or brace, in a JSON string too: the rest of a secret that has one of these stays.\<close>
lemma rest_of_a_secret_stays:
  "redact_string ([dquote] @ ''password'' @ [dquote] @ '':'' @ [dquote] @ ''my secret'' @ [dquote])
     = [dquote] @ ''password'' @ [dquote] @ '':'' @ [dquote] @ ''REDACTED secret'' @ [dquote]"
  by code_simp

lemma fields_are_masked:
  "redact_string ''?session_id=abc&x=1&Access_Token=def'' = ''?session_id=REDACTED&x=1&Access_Token=REDACTED''"
  "redact_string ''session_id=OAUTH&api_key: k'' = ''session_id=OAUTH&api_key: REDACTED''"
  by code_simp+

end
