(* ===== verification/Bridge_Errors.thy ===== *)
theory Bridge_Errors
  imports Redact Classify Cache_Object Go_Time
begin

text \<open>
  The boundary of the local server: \<open>internal/server/errors.go\<close> (what an error becomes in an answer), the errors of \<open>cache.go\<close> and
  \<open>transfers.go\<close>, and the guards of \<open>middleware.go\<close> every request passes.
\<close>

section \<open>Errors a handler ends with\<close>

datatype bridge_error = Refused request_error | Failed go_error

definition unauthorized :: "string \<Rightarrow> request_error" where
  "unauthorized msg = RequestError (kind_name KindUnauthorized) 401 msg"

definition path_not_found :: "string \<Rightarrow> request_error" where
  "path_not_found p = RequestError (kind_name KindNotFound) 404 (''There is nothing at '' @ p @ ''.'')"

definition not_found_if_missing :: "go_error \<Rightarrow> string \<Rightarrow> bridge_error" where
  "not_found_if_missing e p = (if error_kind e = Some KindNotFound then Refused (path_not_found p) else Failed e)"

text \<open>\<open>isNotFound\<close> and \<open>IsTemporary\<close>, over either sort of error.\<close>

fun is_not_found :: "bridge_error \<Rightarrow> bool" where
  "is_not_found (Failed e) \<longleftrightarrow> error_kind e = Some KindNotFound"
| "is_not_found (Refused (RequestError code http msg)) \<longleftrightarrow> http = 404"

fun bridge_temporary :: "bridge_error \<Rightarrow> bool" where
  "bridge_temporary (Failed e) \<longleftrightarrow> is_temporary e"
| "bridge_temporary (Refused _) \<longleftrightarrow> False"

definition cache_full_text :: string where
  "cache_full_text = ''the cache is holding as much unsent data as it is allowed to; nothing has been lost, but nothing more can be accepted until some of it reaches OpenDrive '' @ [CHR 0xE2, CHR 0x80, CHR 0x94] @ '' wait, or run `odctl cache flush --wait`''"

definition dirty_text :: string where
  "dirty_text = ''that would throw away data this cache is still the only copy of; flush it first''"

text \<open>\<open>cacheError\<close>. The errors of the last group keep their own text, which is not represented.\<close>

fun cache_refusal :: "cache_error \<Rightarrow> bridge_error" where
  "cache_refusal ErrCacheFull = Refused (RequestError ''cache_full'' 507 cache_full_text)"
| "cache_refusal ErrDirty = Refused (RequestError ''conflict'' 409 dirty_text)"
| "cache_refusal (ErrDirtyCount n) =
     Refused (RequestError ''conflict'' 409 (dirty_text @ '': '' @ show_nat n @ '' object(s) are still waiting to be uploaded''))"
| "cache_refusal ErrNotCached = Refused (RequestError ''not_found'' 404 ''That path is not in the cache.'')"
| "cache_refusal ErrClosed =
     Refused (RequestError ''unavailable'' 503 ''the cache is draining for shutdown and is not accepting new writes'')"
| "cache_refusal ErrCtx = Failed (Sentinel CtxCanceled)"
| "cache_refusal e = Failed (Plain ''datacache'')"

definition cache_unavailable :: bridge_error where
  "cache_unavailable = Refused (RequestError ''cache_disabled'' 503
     ''The caching gateway is switched off on this bridge, so there is nothing to report or flush. Turn it on with --cache-dir, or the datacache block in config.yaml.'')"

definition transfers_unavailable :: bridge_error where
  "transfers_unavailable = Refused (RequestError (kind_name KindInvalidRequest) 503
     ''This bridge was started without transfer support, so it cannot move files.'')"

section \<open>The answer\<close>

fun status_for :: "kind \<Rightarrow> nat" where
  "status_for KindNotFound = 404"
| "status_for KindConflict = 409"
| "status_for KindInvalidName = 400"
| "status_for KindInvalidRequest = 400"
| "status_for KindUnauthorized = 401"
| "status_for KindReauthRequired = 428"
| "status_for KindCaptchaRequired = 428"
| "status_for KindKeystoreUnavailable = 503"
| "status_for KindQuotaExceeded = 507"
| "status_for KindBandwidthExceeded = 429"
| "status_for KindRateLimited = 429"
| "status_for KindTokenExpired = 503"
| "status_for KindRefreshTokenFailed = 503"
| "status_for KindNetwork = 502"
| "status_for KindEdgeRejected = 502"
| "status_for KindInvalidResponse = 502"
| "status_for KindUpstreamError = 502"

abbreviation em_dash :: string where "em_dash \<equiv> [CHR 0xE2, CHR 0x80, CHR 0x94]"

definition sign_in_expired :: string where
  "sign_in_expired = ''The bridge's sign-in expired while handling this request. Try again in a moment.''"

fun message_for :: "kind \<Rightarrow> string" where
  "message_for KindKeystoreUnavailable = ''The bridge cannot read or save its sign-in (credentials.key). Sign in again to replace it; if that fails too, the folder it lives in cannot be written to.''"
| "message_for KindReauthRequired = ''Your saved password is no longer accepted. Sign in again with your current password to let the bridge resume.''"
| "message_for KindCaptchaRequired = ''OpenDrive is asking for a captcha, which the bridge cannot answer. Sign in once at opendrive.com to clear it, then try again.''"
| "message_for KindTokenExpired = sign_in_expired"
| "message_for KindRefreshTokenFailed = sign_in_expired"
| "message_for KindUnauthorized = ''This request needs a valid bridge API key.''"
| "message_for KindNotFound = ''There is nothing at that path.''"
| "message_for KindConflict = ''Something already exists at that path. Choose another name, or allow overwriting.''"
| "message_for KindQuotaExceeded = ''Your OpenDrive account is out of storage space. Free some up, or upgrade the plan, then try again.''"
| "message_for KindBandwidthExceeded = ''Your OpenDrive account has used up its download allowance for now. It resets on your account's own schedule; retrying sooner will not help.''"
| "message_for KindInvalidName = ''That name contains characters OpenDrive will not accept. Avoid '' @ [CHR 0x5C] @ '' / : * ? '' @ [dquote] @ '' < > | and trailing spaces or dots.''"
| "message_for KindRateLimited = ''OpenDrive is asking the bridge to slow down. The request will work if you try again shortly.''"
| "message_for KindNetwork = ''The bridge could not reach OpenDrive. Check your network connection and try again.''"
| "message_for KindEdgeRejected = ''OpenDrive's servers turned the request away before it reached them properly. This is usually temporary '' @ em_dash @ '' try again shortly.''"
| "message_for KindInvalidResponse = ''OpenDrive returned something the bridge could not make sense of. The request was not completed; nothing has been changed.''"
| "message_for KindInvalidRequest = ''The bridge could not carry out that request as asked.''"
| "message_for KindUpstreamError = ''OpenDrive refused the request.''"

definition wording_transient :: string where
  "wording_transient = ''OpenDrive turned this request away for a moment even though your account has the right to do it. This clears up on its own '' @ em_dash @ '' the bridge is retrying, and trying again shortly will work.''"

definition wording_restricted :: string where
  "wording_restricted = ''Your OpenDrive account is not allowed to do this here. If you expect to be, the account's administrator controls it.''"

definition wording_credential :: string where
  "wording_credential = ''OpenDrive is no longer accepting the bridge's saved sign-in. Sign in again with your current password.''"

text \<open>\<open>userWordingFor\<close>; \<open>k\<close> is the text of a kind, which for a job is the code in its record.\<close>

definition user_wording_for :: "string \<Rightarrow> string \<Rightarrow> string" where
  "user_wording_for k d =
     (if k \<noteq> kind_name KindUpstreamError then []
      else if contains_any d [''transient refusal'', ''attempted once more''] then wording_transient
      else if contains_any d [''real restriction'', ''restriction on this operation''] then wording_restricted
      else if contains_any d [''refusing this credential''] then wording_credential
      else [])"

record error_answer =
  ea_code :: string
  ea_http :: nat
  ea_message :: string
  ea_upstream :: "(int \<times> string) option"

fun api_answer :: "kind \<Rightarrow> api_error option \<Rightarrow> error_answer" where
  "api_answer k None = \<lparr>ea_code = kind_name k, ea_http = status_for k, ea_message = message_for k, ea_upstream = None\<rparr>"
| "api_answer k (Some ae) =
     (let worded = (if diagnosis ae \<noteq> [] then user_wording_for (kind_name k) (diagnosis ae) else []) in
      \<lparr>ea_code = kind_name k, ea_http = status_for k, ea_message = (if worded = [] then message_for k else worded),
       ea_upstream = (if upstream_msg ae \<noteq> [] \<or> http_code ae \<noteq> 0 then Some (http_code ae, redact_string (upstream_msg ae)) else None)\<rparr>)"

definition build_error :: "bridge_error option \<Rightarrow> error_answer" where
  "build_error err =
     (case err of
        None \<Rightarrow> \<lparr>ea_code = kind_name KindUpstreamError, ea_http = 500, ea_message = message_for KindUpstreamError, ea_upstream = None\<rparr>
      | Some (Refused (RequestError code http msg)) \<Rightarrow> \<lparr>ea_code = code, ea_http = http, ea_message = msg, ea_upstream = None\<rparr>
      | Some (Failed e) \<Rightarrow> api_answer (case error_kind e of Some k \<Rightarrow> k | None \<Rightarrow> KindUpstreamError) (as_api e))"

section \<open>Guards\<close>

text \<open>The two headers a key may come in, empty when absent.\<close>

record headers =
  hd_authorization :: string
  hd_api_key :: string
  hd_request_id :: string

definition presented_key :: "headers \<Rightarrow> string" where
  "presented_key h =
     (if hd_authorization h \<noteq> [] then
        if has_prefix (hd_authorization h) ''Bearer '' then trim_space (trim_prefix (hd_authorization h) ''Bearer '') else []
      else hd_api_key h)"

definition api_key_auth :: "string \<Rightarrow> bool \<Rightarrow> headers \<Rightarrow> (headers \<Rightarrow> 'r) \<Rightarrow> bridge_error + 'r" where
  "api_key_auth key required h next_handler =
     (if \<not> required \<and> (key = [] \<or> presented_key h = []) then Inr (next_handler h)
      else if presented_key h = []
      then Inl (Refused (unauthorized ''This bridge requires an API key. Send it as 'Authorization: Bearer <key>'.''))
      else if presented_key h \<noteq> key then Inl (Refused (unauthorized ''That API key is not valid for this bridge.''))
      else Inr (next_handler h))"

text \<open>The group \<open>/v1\<close> as \<open>New\<close> sets it up: a key is required when one is configured. A handler gets the state and answers with it; a request
  the guard turns away leaves the state alone.\<close>

definition guarded :: "string \<Rightarrow> headers \<Rightarrow> ('s \<Rightarrow> (bridge_error + 'r) \<times> 's) \<Rightarrow> 's \<Rightarrow> (bridge_error + 'r) \<times> 's" where
  "guarded key h handler s =
     (case api_key_auth key (key \<noteq> []) h (\<lambda>_. handler s) of
        Inl e \<Rightarrow> (Inl e, s)
      | Inr out \<Rightarrow> out)"

definition request_id :: "string \<Rightarrow> headers \<Rightarrow> string" where
  "request_id fresh h = (if hd_request_id h = [] \<or> length (hd_request_id h) > 64 then fresh else hd_request_id h)"

section \<open>What a client is told\<close>

text \<open>Where the words of an answer may come from: the catalogue of this package.\<close>

definition catalogue :: "string set" where
  "catalogue = insert wording_transient (insert wording_restricted (insert wording_credential (range message_for)))"

lemma user_wording_cases: "user_wording_for k d \<in> {[], wording_transient, wording_restricted, wording_credential}"
  by (simp add: user_wording_for_def)

lemma api_answer_message: "ea_message (api_answer k ao) \<in> catalogue"
  using user_wording_cases [of "kind_name k"] by (cases ao) (auto simp: Let_def catalogue_def)

lemma api_answer_code [simp]: "ea_code (api_answer k ao) = kind_name k" "ea_http (api_answer k ao) = status_for k"
  by (cases ao; simp add: Let_def)+

lemma wordings:
  "user_wording_for (kind_name KindUpstreamError) msg_transient = wording_transient"
  "user_wording_for (kind_name KindUpstreamError) msg_once_more = wording_transient"
  "user_wording_for (kind_name KindUpstreamError) msg_restriction = wording_restricted"
  "user_wording_for (kind_name KindUpstreamError) msg_refused_twice = wording_restricted"
  by code_simp+

lemma wording_texts [simp]: "wording_transient \<noteq> []" "wording_restricted \<noteq> []" "wording_transient \<noteq> wording_restricted"
  by (simp_all add: wording_transient_def wording_restricted_def)

lemmas diagnosis_texts_sym [simp] = diagnosis_texts [THEN not_sym]

lemma no_wording: "k \<noteq> KindUpstreamError \<Longrightarrow> user_wording_for (kind_name k) d = []"
  by (cases k) (simp_all add: user_wording_for_def)

lemma classify_kind: "v_kind (classify st e) \<noteq> KindUnauthorized"
  using classify_cases [of st e]
  unfolding classify_def Let_def by (simp add: plain_verdict_def status_verdict_def split: if_split)

text \<open>The three ways an answer of upstream that reached \<open>buildError\<close> was settled.\<close>

lemma settled_cases:
  fixes now decided d
  assumes "ambiguous e" "\<not> resolved e" "kind e = KindUpstreamError" "retry e = RetryNo"
  defines "x \<equiv> fst (resolve now decided e d)"
  shows "x = e \<or> kind x \<in> {KindReauthRequired, KindCaptchaRequired, KindKeystoreUnavailable}
    \<or> kind x = KindUpstreamError \<and> (diagnosis x \<in> {msg_transient, msg_once_more} \<and> retry x = RetryYes
        \<or> diagnosis x \<in> {msg_restriction, msg_refused_twice} \<and> retry x = RetryNo)"
proof -
  consider "decided = None" | g where "decided = Some (Some g)" | "decided = Some None"
    by (cases decided) auto
  then show ?thesis
  proof cases
    case 1
    then show ?thesis using assms by (simp add: resolve_def)
  next
    case (2 g)
    then show ?thesis using assms by (cases "as_api g") (auto simp: resolve_def Let_def)
  next
    case 3
    obtain first d1 where "mark_denied now (witness_key (err_op e) (err_scope e)) d = (first, d1)" by fastforce
    then show ?thesis using 3 assms by (cases first) (simp_all add: resolve_def Let_def split: if_split)
  qed
qed

lemma response_flags:
  "resolved (classify_response decode ev) = False" "diagnosis (classify_response decode ev) = []"
  "kind (classify_response decode ev) \<noteq> KindUnauthorized"
  "ambiguous (classify_response decode ev) \<Longrightarrow>
     kind (classify_response decode ev) = KindUpstreamError \<and> retry (classify_response decode ev) = RetryNo"
  using classify_kind classify_fields(1) by (simp_all add: classify_response_def Let_def)

lemma status_for_range: "k \<noteq> KindUnauthorized \<Longrightarrow> status_for k \<notin> {401, 403}"
  by (cases k) simp_all

text \<open>C19: What the bridge says of a failed upstream call, whatever upstream answered and whether or not the disambiguator could settle it: the
  words come from the catalogue of the package, so upstream's own text is never the message; the status is never 401 or 403, which would speak
  of the bridge's own key or send the client away for good; and of a refusal that was settled as upstream's own it says that it is passing
  exactly when the bridge tries again.\<close>
theorem answers_speak_for_the_bridge:
  fixes decode ev now decided d
  defines "ae \<equiv> fst (resolve now decided (classify_response decode ev) d)"
  defines "a \<equiv> build_error (Some (Failed (Api ae)))"
  shows "ea_message a \<in> catalogue \<and> ea_http a \<notin> {401, 403}
    \<and> (resolved ae \<and> kind ae = KindUpstreamError \<longrightarrow>
         ea_message a = (if retry ae = RetryYes then wording_transient else wording_restricted))"
proof -
  let ?e = "classify_response decode ev"
  have a: "a = api_answer (kind ae) (Some ae)" by (simp add: a_def build_error_def error_kind_def)
  have "kind ae \<noteq> KindUnauthorized
    \<and> (resolved ae \<and> kind ae = KindUpstreamError \<longrightarrow>
         ea_message a = (if retry ae = RetryYes then wording_transient else wording_restricted))"
  proof (cases "ambiguous ?e")
    case False
    then have "ae = ?e" by (simp add: ae_def resolve_def)
    then show ?thesis using response_flags(1,3) by simp
  next
    case True
    note f = response_flags(4) [OF True]
    consider "ae = ?e" | "kind ae \<in> {KindReauthRequired, KindCaptchaRequired, KindKeystoreUnavailable}"
      | "kind ae = KindUpstreamError" "diagnosis ae \<in> {msg_transient, msg_once_more}" "retry ae = RetryYes"
      | "kind ae = KindUpstreamError" "diagnosis ae \<in> {msg_restriction, msg_refused_twice}" "retry ae = RetryNo"
      using settled_cases [OF True _ conjunct1 [OF f] conjunct2 [OF f], of now decided d] response_flags(1) by (auto simp: ae_def)
    then show ?thesis
    proof cases
      case 1
      then show ?thesis using response_flags(1,3) by simp
    next
      case 3
      then have "ea_message a = wording_transient" using a by (auto simp: Let_def wordings simp del: kind_name.simps)
      with 3 show ?thesis by simp
    next
      case 4
      then have "ea_message a = wording_restricted" using a by (auto simp: Let_def wordings simp del: kind_name.simps)
      with 4 show ?thesis by simp
    qed auto
  qed
  then show ?thesis using api_answer_message [of "kind ae" "Some ae"] status_for_range [of "kind ae"] by (simp add: a del: api_answer.simps)
qed

text \<open>C20: The key guards \<open>/v1\<close>: with a key configured, a request that does not present exactly this key changes nothing and is answered 401; with
  the key, or with none configured, the handler runs as if there were no guard.\<close>
theorem key_guards_the_api:
  "(key \<noteq> [] \<and> presented_key h \<noteq> key \<longrightarrow>
      (\<exists>e. guarded key h handler s = (Inl e, s) \<and> ea_http (build_error (Some e)) = 401 \<and> ea_code (build_error (Some e)) = ''unauthorized''))
   \<and> (key = [] \<or> presented_key h = key \<longrightarrow> guarded key h handler s = handler s)"
  by (cases "handler s") (auto simp: guarded_def api_key_auth_def build_error_def unauthorized_def)

definition keyed_headers :: headers where
  "keyed_headers = \<lparr>hd_authorization = ''Bearer secret '', hd_api_key = ''other'', hd_request_id = []\<rparr>"

lemma key_guards_the_api_witness:
  "fst (guarded ''secret'' keyed_headers (\<lambda>n. (Inr (), Suc n)) 0) = Inr () \<and> snd (guarded ''other'' keyed_headers (\<lambda>n. (Inr (), Suc n)) 0) = 0"
proof -
  have k: "presented_key keyed_headers = ''secret''" by code_simp
  show ?thesis
    using key_guards_the_api [of "''secret''" keyed_headers "\<lambda>n. (Inr (), Suc n)" 0] key_guards_the_api [of "''other''" keyed_headers "\<lambda>n. (Inr (), Suc n)" 0]
    by (auto simp: k)
qed

definition bare_401 :: evidence where
  "bare_401 = \<lparr>ev_status = 401, ev_retry_header = [], ev_retry_until = None, ev_body = [], ev_content_type = ''application/json'',
     ev_op = ''POST /upload'', ev_scope = [], ev_url = []\<rparr>"

definition settled_401 :: api_error where
  "settled_401 = fst (resolve 5 (Some None) (classify_response (\<lambda>_. None) bare_401) (new_disambiguator True 0))"

lemma settled_401: "resolved settled_401" "kind settled_401 = KindUpstreamError" "retry settled_401 = RetryYes"
  by code_simp+

lemma answers_speak_for_the_bridge_witness:
  "ea_message (build_error (Some (Failed (Api settled_401)))) = wording_transient"
  using answers_speak_for_the_bridge [of 5 "Some None" "\<lambda>_. None" bare_401 "new_disambiguator True 0"] settled_401
  unfolding settled_401_def by simp

text \<open>A failure of the cache's own disk is none of upstream's, but it is described as one.\<close>
lemma disk_failure_blames_upstream:
  "build_error (Some (cache_refusal ErrIO))
     = \<lparr>ea_code = ''upstream_error'', ea_http = 502, ea_message = ''OpenDrive refused the request.'', ea_upstream = None\<rparr>"
  by (simp add: build_error_def error_kind_def)

text \<open>\<open>userWordingFor\<close> speaks of \<open>upstream_error\<close> only, and the verdict on the credential has another kind: its third wording is never used.\<close>
lemma credential_wording_unused:
  assumes "ambiguous e" "\<not> resolved e" "kind e = KindUpstreamError" "retry e = RetryNo" "diagnosis e = []"
  shows "ea_message (api_answer (kind (fst (resolve now decided e d))) (Some (fst (resolve now decided e d)))) \<noteq> wording_credential"
proof -
  have never: "message_for k \<noteq> wording_credential" "wording_transient \<noteq> wording_credential" "wording_restricted \<noteq> wording_credential" for k
    by (cases k; simp add: wording_credential_def wording_transient_def wording_restricted_def sign_in_expired_def)+
  let ?x = "fst (resolve now decided e d)"
  consider "?x = e" | "kind ?x \<noteq> KindUpstreamError"
    | "kind ?x = KindUpstreamError" "diagnosis ?x \<in> {msg_transient, msg_once_more, msg_restriction, msg_refused_twice}"
    using settled_cases [OF assms(1-4), of now decided d] by (elim disjE conjE) auto
  then show ?thesis
  proof cases
    case 3
    then show ?thesis using never wording_texts by (auto simp: Let_def wordings simp del: kind_name.simps)
  qed (use never no_wording assms in \<open>auto simp: Let_def simp del: kind_name.simps message_for.simps\<close>)
qed

end
