(* ===== verification/Bridge_Auth.thy ===== *)
theory Bridge_Auth
  imports Bridge_Errors Oauth2
begin

text \<open>
  \<open>internal/server/auth.go\<close>: signing in and out over HTTP, and the status the daemon reports. The authenticator is a record of
  operations on a machine \<open>'m\<close>, the credential store among them; \<open>oauth_daemon\<close> fills it with the machine of \<open>Oauth2\<close>.
\<close>

section \<open>What the handlers work with\<close>

record account_info =
  ai_user :: string
  ai_acc :: int
  ai_storage_used :: int
  ai_max_storage :: int \<comment> \<open>megabytes\<close>
  ai_bw_used :: int
  ai_bw_max :: int \<comment> \<open>megabytes\<close>

record 'm daemon_auth =
  dm_login :: "string \<Rightarrow> string \<Rightarrow> 'm \<Rightarrow> go_error option \<times> 'm"
  dm_logout :: "'m \<Rightarrow> api_error option \<times> 'm"
  dm_identity :: "'m \<Rightarrow> identity"
  dm_state :: "'m \<Rightarrow> auth_state"
  dm_token :: "('m \<Rightarrow> token option) option"
  dm_load :: "('m \<Rightarrow> load_answer \<times> 'm) option"
  dm_backend :: string
  dm_account :: "('m \<Rightarrow> (go_error + account_info) \<times> 'm) option"

record status_response =
  sp_account :: "(string \<times> string \<times> int) option"
  sp_mode :: string
  sp_state :: auth_state
  sp_seamless :: bool
  sp_expires :: "gotime option"
  sp_backend :: string
  sp_available :: bool
  sp_quota :: "(int \<times> int \<times> int \<times> int) option" \<comment> \<open>storage used and maximum, traffic used and maximum\<close>

section \<open>Status\<close>

definition bytes_per_mb :: int where
  "bytes_per_mb = 2 ^ 20"

definition quota_from :: "account_info \<Rightarrow> int \<times> int \<times> int \<times> int" where
  "quota_from i = (ai_storage_used i, wrap64 (ai_max_storage i * bytes_per_mb), ai_bw_used i, wrap64 (ai_bw_max i * bytes_per_mb))"

definition fetch_account :: "'m daemon_auth \<Rightarrow> auth_state \<Rightarrow> 'm \<Rightarrow> account_info option \<times> 'm" where
  "fetch_account d st m =
     (case dm_account d of
        None \<Rightarrow> (None, m)
      | Some ask \<Rightarrow>
          if st = StateAuthenticated \<or> st = StateRefreshing then
            (case ask m of (Inl _, m1) \<Rightarrow> (None, m1) | (Inr i, m1) \<Rightarrow> (Some i, m1))
          else (None, m))"

definition store_readable :: "'m daemon_auth \<Rightarrow> 'm \<Rightarrow> bool \<times> 'm" where
  "store_readable d m =
     (case dm_load d of
        None \<Rightarrow> (False, m)
      | Some load \<Rightarrow> (case load m of (LoadFailed _, m1) \<Rightarrow> (False, m1) | (_, m1) \<Rightarrow> (True, m1)))"

definition reported_state :: "'m daemon_auth \<Rightarrow> bool \<Rightarrow> 'm \<Rightarrow> auth_state" where
  "reported_state d readable m = (if \<not> readable \<and> dm_load d \<noteq> None then StateKeystoreUnavailable else dm_state d m)"

definition write_status :: "'m daemon_auth \<Rightarrow> 'm \<Rightarrow> status_response \<times> 'm" where
  "write_status d m =
     (let who = dm_identity d m; (readable, m1) = store_readable d m; st = reported_state d readable m;
          (info, m2) = fetch_account d st m1;
          out = \<lparr>sp_account = (if id_username who \<noteq> [] then Some (id_username who, id_user who, id_acc who) else None),
                 sp_mode = id_mode who,
                 sp_state = (if id_username who = [] \<and> st = StateAuthenticated then StateNotConfigured else st),
                 sp_seamless = id_seamless who,
                 sp_expires = (case dm_token d of None \<Rightarrow> None | Some tok \<Rightarrow> (case tok m1 of None \<Rightarrow> None | Some t \<Rightarrow> t_expiry t)),
                 sp_backend = (if dm_load d = None then ''ephemeral'' else dm_backend d), sp_available = readable, sp_quota = None\<rparr>
      in (case info of
            None \<Rightarrow> out
          | Some i \<Rightarrow>
              out\<lparr>sp_quota := Some (quota_from i),
                  sp_account := map_option (\<lambda>(name, user, acc). (name, if user = [] then ai_user i else user, if acc = 0 then ai_acc i else acc))
                                  (sp_account out)\<rparr>, m2))"

section \<open>Signing in and out\<close>

definition bad_body :: "string \<Rightarrow> bridge_error" where
  "bad_body msg = Refused (bad_request (''The request body is not what this request expects: '' @ msg))"

definition not_saved :: go_error where
  "not_saved = Api ((blank_error KindKeystoreUnavailable)\<lparr>cause := Some OtherCause,
     upstream_msg := ''signed in, but the sign-in could not be saved, so it will be forgotten when the bridge restarts''\<rparr>)"

text \<open>The body has been decoded, or not. \<open>Load\<close> gives an error when there is nothing, too.\<close>

definition handle_login :: "'m daemon_auth \<Rightarrow> string + string \<times> string \<Rightarrow> 'm \<Rightarrow> (bridge_error + status_response) \<times> 'm" where
  "handle_login d body m =
     (case body of
        Inl msg \<Rightarrow> (Inl (bad_body msg), m)
      | Inr (user, pw) \<Rightarrow>
          if user = [] \<or> pw = [] then
            (Inl (Refused (bad_request (''Send your OpenDrive username and password as {'' @ [dquote] @ ''username'' @ [dquote] @ '': '' @ [dquote]
               @ ''...'' @ [dquote] @ '', '' @ [dquote] @ ''password'' @ [dquote] @ '': '' @ [dquote] @ ''...'' @ [dquote] @ ''}.''))), m)
          else case dm_login d user pw m of
            (Some e, m1) \<Rightarrow> (Inl (Failed e), m1)
          | (None, m1) \<Rightarrow>
              case dm_load d of
                None \<Rightarrow> map_prod Inr id (write_status d m1)
              | Some load \<Rightarrow>
                  case load m1 of
                    (Loaded _, m2) \<Rightarrow> map_prod Inr id (write_status d m2)
                  | (_, m2) \<Rightarrow> (Inl (Failed not_saved), m2))"

definition handle_logout :: "'m daemon_auth \<Rightarrow> 'm \<Rightarrow> (bridge_error + string) \<times> 'm" where
  "handle_logout d m =
     (case dm_logout d m of
        (Some e, m1) \<Rightarrow> (Inl (Failed (Api e)), m1)
      | (None, m1) \<Rightarrow> (Inr ''signed out'', m1))"

definition handle_status :: "'m daemon_auth \<Rightarrow> 'm \<Rightarrow> (bridge_error + status_response) \<times> 'm" where
  "handle_status d m = map_prod Inr id (write_status d m)"

section \<open>On the OAuth2 machine\<close>

definition machine_load :: "'s cred_ops \<Rightarrow> 's auth_machine \<Rightarrow> load_answer \<times> 's auth_machine" where
  "machine_load ops m = (case cs_load ops (au_store m) of (r, s) \<Rightarrow> (r, m\<lparr>au_store := s\<rparr>))"

definition oauth_daemon ::
  "'s cred_ops \<Rightarrow> auth_config \<Rightarrow> auth_io \<Rightarrow> ('s auth_machine \<Rightarrow> (go_error + account_info) \<times> 's auth_machine) option \<Rightarrow> 's auth_machine daemon_auth" where
  "oauth_daemon ops cfg io account =
     \<lparr>dm_login = oa_login ops cfg io, dm_logout = oa_logout ops cfg, dm_identity = oa_identity, dm_state = auth_state_of,
      dm_token = Some oa_token, dm_load = Some (machine_load ops), dm_backend = ''file'', dm_account = account\<rparr>"

section \<open>Facts\<close>

lemma write_status_quiet:
  assumes "store_readable d m = (ok, m1)" "fetch_account d (reported_state d ok m) m1 = (None, m1)"
  obtains r where "write_status d m = (r, m1)" "sp_quota r = None" "sp_available r = ok"
    "sp_state r = (if id_username (dm_identity d m) = [] \<and> reported_state d ok m = StateAuthenticated then StateNotConfigured else reported_state d ok m)"
  using that by (simp add: write_status_def Let_def assms)

lemma store_readable_sent [simp]: "au_sent (snd (store_readable (oauth_daemon ops cfg io account) m)) = au_sent m"
  by (auto simp: store_readable_def oauth_daemon_def machine_load_def split: load_answer.splits prod.splits)

text \<open>C21: Asking for the status is safe at any moment: while the user has to act (a rejected password, a captcha), while the credentials cannot be
  read, and before the bridge is configured, the answer is given without asking upstream anything, whatever the account request would
  do; and when the credentials cannot be read this is the state that is reported.\<close>
theorem status_is_silent:
  assumes "auth_state_of m \<notin> {StateAuthenticated, StateRefreshing} \<or> (\<exists>e. fst (cs_load ops (au_store m)) = LoadFailed e)"
  shows "\<exists>r m'. handle_status (oauth_daemon ops cfg io account) m = (Inr r, m') \<and> au_sent m' = au_sent m \<and> sp_quota r = None
    \<and> ((\<exists>e. fst (cs_load ops (au_store m)) = LoadFailed e) \<longrightarrow> sp_state r = StateKeystoreUnavailable)"
proof -
  let ?d = "oauth_daemon ops cfg io account"
  obtain ok m1 where ok: "store_readable ?d m = (ok, m1)" by fastforce
  have unreadable: "\<not> ok \<longleftrightarrow> (\<exists>e. fst (cs_load ops (au_store m)) = LoadFailed e)"
    using ok by (auto simp: store_readable_def oauth_daemon_def machine_load_def split: load_answer.splits prod.splits)
  have st: "reported_state ?d ok m = (if ok then auth_state_of m else StateKeystoreUnavailable)"
    by (simp add: reported_state_def oauth_daemon_def)
  then have "reported_state ?d ok m \<notin> {StateAuthenticated, StateRefreshing}" using assms unreadable by auto
  then have quiet: "fetch_account ?d (reported_state ?d ok m) m1 = (None, m1)"
    by (simp add: fetch_account_def split: option.split)
  have "au_sent m1 = au_sent m" using store_readable_sent [of ops cfg io account m] ok by simp
  moreover obtain r where "write_status ?d m = (r, m1)" "sp_quota r = None"
      "sp_state r = (if id_username (dm_identity ?d m) = [] \<and> reported_state ?d ok m = StateAuthenticated then StateNotConfigured else reported_state ?d ok m)"
    by (rule write_status_quiet [OF ok quiet])
  ultimately show ?thesis using st unreadable by (auto simp: handle_status_def)
qed

definition parked_machine :: "memory_creds auth_machine" where
  "parked_machine = set_auth_state StateCaptchaRequired (new_machine None)"

definition chatty_account :: "memory_creds auth_machine \<Rightarrow> (go_error + account_info) \<times> memory_creds auth_machine" where
  "chatty_account m = (Inl (Plain ''no''), sending (RefreshGrant [] []) m)"

definition no_answers :: auth_io where
  "no_answers = \<lparr>io_check = 0, io_renew = 0, io_token = 0, io_adopt = 0, io_grant = \<lambda>_. Inl (Plain []), io_login = \<lambda>_. Inl (Plain []),
     io_exists = \<lambda>_. Inl (Plain [])\<rparr>"

lemma status_is_silent_witness:
  "\<exists>r m'. handle_status (oauth_daemon mcs_ops default_auth_config no_answers (Some chatty_account)) parked_machine = (Inr r, m')
     \<and> au_sent m' = [] \<and> snd (chatty_account parked_machine) \<noteq> parked_machine"
proof -
  have "auth_state_of parked_machine \<notin> {StateAuthenticated, StateRefreshing}"
    by (simp add: parked_machine_def auth_state_of_def set_auth_state_def on_gate_def)
  then show ?thesis
    using status_is_silent [of parked_machine mcs_ops default_auth_config no_answers "Some chatty_account"]
    by (auto simp: parked_machine_def new_machine_def chatty_account_def sending_def set_auth_state_def on_gate_def)
qed

text \<open>The check after a sign-in reads the store and is content with anything in it: when saving the new credentials failed and the old ones are
  still there, the sign-in is reported as saved.\<close>

definition full_disk :: "memory_creds cred_ops" where
  "full_disk = mcs_ops\<lparr>cs_save := \<lambda>c s. (Some (Plain ''no space left on device''), s)\<rparr>"

lemma failed_save_reads_as_saved:
  assumes "au_store m = Some old" "ac_has_store cfg" "password_grant cfg io user pw m = (Inr tok, m1)" "user \<noteq> []" "pw \<noteq> []"
  shows "\<exists>r m'. handle_login (oauth_daemon full_disk cfg io None) (Inr (user, pw)) m = (Inr r, m')
    \<and> sp_state r = StateAuthenticated \<and> sp_available r \<and> au_store m' = Some old
    \<and> map_option st_username (au_cred m') = Some user"
proof -
  let ?d = "oauth_daemon full_disk cfg io None"
  have "au_store m1 = Some old" using assms(1,3) by (auto simp: password_grant_def Let_def sending_def)
  with assms(2,3) obtain m2 where m2: "dm_login ?d user pw m = (None, m2)" "au_store m2 = Some old" "auth_state_of m2 = StateAuthenticated"
      "map_option st_username (au_cred m2) = Some user"
    by (auto simp: oauth_daemon_def oa_login_def adopt_def full_disk_def mcs_ops_def auth_state_of_def gate_reset_def on_gate_def Let_def)
  then have load: "dm_load ?d = Some (machine_load full_disk)" "machine_load full_disk m2 = (Loaded old, m2)"
    by (simp_all add: oauth_daemon_def machine_load_def full_disk_def mcs_ops_def mcs_load_def)
  then have ok: "store_readable ?d m2 = (True, m2)" by (simp add: store_readable_def)
  have quiet: "fetch_account ?d (reported_state ?d True m2) m2 = (None, m2)"
    by (simp add: fetch_account_def oauth_daemon_def)
  have named: "id_username (dm_identity ?d m2) = user" using m2(4) by (auto simp: oauth_daemon_def oa_identity_def)
  have state: "reported_state ?d True m2 = StateAuthenticated" using m2(3) by (simp add: reported_state_def oauth_daemon_def)
  obtain r where "write_status ?d m2 = (r, m2)" "sp_available r"
      "sp_state r = (if id_username (dm_identity ?d m2) = [] \<and> reported_state ?d True m2 = StateAuthenticated then StateNotConfigured else reported_state ?d True m2)"
    using write_status_quiet [OF ok quiet] by blast
  then show ?thesis using m2 load named state assms(4,5) by (auto simp: handle_login_def)
qed

text \<open>The limits come in megabytes and are reported in bytes, in 64 bits.\<close>
lemma quota_wraps:
  "quota_from \<lparr>ai_user = [], ai_acc = 0, ai_storage_used = 1, ai_max_storage = 2 ^ 43, ai_bw_used = 0, ai_bw_max = 1\<rparr> = (1, - (2 ^ 63), 0, 2 ^ 20)"
  by (simp add: quota_from_def wrap64_def bytes_per_mb_def)

end
