(* ===== verification/Resolver.thy ===== *)
theory Resolver
  imports Path_Cache Upload
begin

text \<open>
  \<open>pkg/opendrive/path.go\<close>: from paths to folder ids. \<open>ResolvePath\<close>, \<open>EnsurePath\<close>, \<open>ListPath\<close>, and the three calls of
  \<open>folder.go\<close> they make, over a path cache that is an interface (interpreted by the cache of \<open>Path_Cache\<close> and by having none) and over an
  upstream whose tree of folders is an argument.
\<close>

section \<open>The path cache as the SDK sees it\<close>

record 'c index_ops =
  ix_look :: "string \<Rightarrow> 'c \<Rightarrow> string option \<times> 'c"
  ix_store :: "string \<Rightarrow> string \<Rightarrow> 'c \<Rightarrow> 'c"
  ix_observe :: "string \<Rightarrow> int \<Rightarrow> 'c \<Rightarrow> 'c"
  ix_invalidate :: "string \<Rightarrow> 'c \<Rightarrow> 'c"
  ix_reset :: "'c \<Rightarrow> 'c"

text \<open>\<open>knows\<close> is the set of resolutions a lookup may answer with. Nothing but a store adds to it.\<close>

locale path_index =
  fixes ix :: "'c index_ops" and knows :: "'c \<Rightarrow> (string \<times> string) set"
  assumes look_hit: "fst (ix_look ix p c) = Some i \<Longrightarrow> (p, i) \<in> knows c"
    and look_knows: "knows (snd (ix_look ix p c)) \<subseteq> knows c"
    and store_knows: "knows (ix_store ix p i c) \<subseteq> insert (p, i) (knows c)"
    and observe_knows: "knows (ix_observe ix i n c) \<subseteq> knows c"
    and invalidate_knows: "knows (ix_invalidate ix i c) \<subseteq> knows c"
    and reset_knows: "knows (ix_reset ix c) = {}"

text \<open>A client without a cache.\<close>

definition no_index :: "unit index_ops" where
  "no_index = \<lparr>ix_look = (\<lambda>_ _. (None, ())), ix_store = (\<lambda>_ _ _. ()), ix_observe = (\<lambda>_ _ _. ()), ix_invalidate = (\<lambda>_ _. ()),
     ix_reset = (\<lambda>_. ())\<rparr>"

interpretation none: path_index no_index "\<lambda>_. {}"
  by unfold_locales (simp_all add: no_index_def)

text \<open>The cache of the bridge, with its clock: the reading of each call.\<close>

record clocked_cache =
  cc_cache :: path_cache
  cc_clock :: "nat \<Rightarrow> gotime"
  cc_tick :: nat

definition timed :: "(gotime \<Rightarrow> path_cache \<Rightarrow> 'a \<times> path_cache) \<Rightarrow> clocked_cache \<Rightarrow> 'a \<times> clocked_cache" where
  "timed f c =
     (case f (cc_clock c (cc_tick c)) (cc_cache c) of
        (a, c') \<Rightarrow> (a, c\<lparr>cc_cache := c', cc_tick := Suc (cc_tick c)\<rparr>))"

definition bridge_index :: "clocked_cache index_ops" where
  "bridge_index =
     \<lparr>ix_look = (\<lambda>p. timed (\<lambda>now. pc_lookup now p)),
      ix_store = (\<lambda>p i c. snd (timed (\<lambda>now c. ((), pc_store now p i c)) c)),
      ix_observe = (\<lambda>i n c. snd (timed (\<lambda>_ c. ((), pc_observe i n c)) c)),
      ix_invalidate = (\<lambda>i c. snd (timed (\<lambda>_ c. ((), pc_invalidate_id i c)) c)),
      ix_reset = (\<lambda>c. snd (timed (\<lambda>_ c. ((), pc_reset c)) c))\<rparr>"

definition cached :: "clocked_cache \<Rightarrow> (string \<times> string) set" where
  "cached c = (\<lambda>(p, e). (p, pe_id e)) ` set (by_path (cc_cache c))"

lemma cached_mono: "set (by_path (cc_cache c')) \<subseteq> set (by_path (cc_cache c)) \<Longrightarrow> cached c' \<subseteq> cached c"
  by (auto simp: cached_def)


lemma lookup_entries:
  assumes "(q, e) \<in> set (by_path (snd (pc_lookup now p c)))"
  shows "\<exists>e'. (q, e') \<in> set (by_path c) \<and> pe_id e' = pe_id e"
proof (cases "lookup (by_path c) p")
  case None
  then show ?thesis using assms by (auto simp: pc_lookup_def)
next
  case (Some x)
  have "(p, x) \<in> set (by_path c)" using Some by (rule lookup_mem)
  moreover have "(q, e) \<in> set (by_path c) \<or> (q, e) = (p, x\<lparr>pe_last_used := now\<rparr>)"
    using assms Some set_delete_subset [of p "by_path c"] set_update_subset [of p "x\<lparr>pe_last_used := now\<rparr>" "by_path c"]
    by (auto simp: pc_lookup_def by_path_drop_path split: if_splits)
  ultimately show ?thesis by auto
qed

interpretation bridge: path_index bridge_index cached
proof
  fix p i :: string and n :: int and c :: clocked_cache
  let ?pc = "cc_cache c" and ?now = "cc_clock c (cc_tick c)"
  show "(p, i) \<in> cached c" if "fst (ix_look bridge_index p c) = Some i"
    using that lookup_mem [of "by_path ?pc" p]
    by (force simp: bridge_index_def timed_def pc_lookup_def cached_def split: option.splits if_splits prod.splits)
  show "cached (snd (ix_look bridge_index p c)) \<subseteq> cached c"
  proof (rule subrelI)
    fix q j
    assume "(q, j) \<in> cached (snd (ix_look bridge_index p c))"
    then obtain e where "(q, e) \<in> set (by_path (snd (pc_lookup ?now p ?pc)))" "j = pe_id e"
      by (auto simp: bridge_index_def timed_def cached_def split: prod.splits)
    from lookup_entries [OF this(1)] this(2) show "(q, j) \<in> cached c" by (force simp: cached_def)
  qed
  have "set (by_path (pc_store ?now p i ?pc)) \<subseteq> insert (p, \<lparr>pe_id = i, pe_expires = ?now + pc_ttl ?pc, pe_last_used = ?now\<rparr>) (set (by_path ?pc))"
  proof (cases "p = [] \<or> i = []")
    case True
    then show ?thesis by (auto simp: pc_store_def)
  next
    case False
    let ?e = "\<lparr>pe_id = i, pe_expires = ?now + pc_ttl ?pc, pe_last_used = ?now\<rparr>"
    let ?c1 = "?pc\<lparr>by_path := AList.update p ?e (by_path ?pc), by_id := AList.update i p (by_id ?pc)\<rparr>"
    have "set (by_path (evict ?c1)) \<subseteq> set (by_path ?c1)" using evict_frame [of ?c1] by blast
    also have "\<dots> \<subseteq> insert (p, ?e) (set (by_path ?pc))" using set_update_subset [of p ?e "by_path ?pc"] by simp
    finally show ?thesis using False by (simp add: pc_store_def)
  qed
  then show "cached (ix_store bridge_index p i c) \<subseteq> insert (p, i) (cached c)"
    by (force simp: bridge_index_def timed_def cached_def)
  show "cached (ix_observe bridge_index i n c) \<subseteq> cached c"
    by (rule cached_mono) (simp add: bridge_index_def timed_def pc_observe_frame)
  show "cached (ix_reset bridge_index c) = {}"
    by (simp add: bridge_index_def timed_def cached_def pc_reset_def)
  show "cached (ix_invalidate bridge_index i c) \<subseteq> cached c"
    by (rule cached_mono) (simp add: bridge_index_def timed_def pc_invalidate_id_frame)
qed

section \<open>Upstream\<close>

text \<open>What the three calls ask of upstream. The answer to \<open>idbypath\<close> has the id under one of two spellings of its name; a listing has its
  \<open>DirUpdateTime\<close> in Unix seconds, absent or not, and the names and ids of the subfolders.\<close>

record folder_listing =
  li_updated :: "int option"
  li_folders :: "(string \<times> string) list"

record 'u tree_ops =
  up_idbypath :: "string \<Rightarrow> 'u \<Rightarrow> (go_error + string \<times> string) \<times> 'u"
  up_create :: "string \<Rightarrow> string \<Rightarrow> 'u \<Rightarrow> (go_error + string) \<times> 'u" \<comment> \<open>parent id, name\<close>
  up_list :: "string \<Rightarrow> 'u \<Rightarrow> (go_error + folder_listing) \<times> 'u"

record ('u, 'c) resolver =
  rs_up :: 'u
  rs_cache :: 'c

definition no_id_error :: "string \<Rightarrow> string \<Rightarrow> go_error" where
  "no_id_error op msg = Api ((blank_error KindInvalidResponse)\<lparr>err_op := op, upstream_msg := msg\<rparr>)"

definition id_by_path :: "'u tree_ops \<Rightarrow> string \<Rightarrow> ('u, 'c) resolver \<Rightarrow> (go_error + string) \<times> ('u, 'c) resolver" where
  "id_by_path t p s =
     (case normalize_folder_path p of
        Inl e \<Rightarrow> (Inl (Api e), s)
      | Inr clean \<Rightarrow>
          if clean = ''/'' then (Inr root_folder_id, s)
          else case up_idbypath t (trim_prefix clean ''/'') (rs_up s) of
            (Inl e, u) \<Rightarrow> (Inl e, s\<lparr>rs_up := u\<rparr>)
          | (Inr (lower, upper), u) \<Rightarrow>
              let i = (if lower \<noteq> [] then lower else upper) in
              (if i = [] then Inl (no_id_error ''POST /folder/idbypath.json'' ''the response carried no folder id'') else Inr i,
               s\<lparr>rs_up := u\<rparr>))"

definition resolve_path :: "'u tree_ops \<Rightarrow> 'c index_ops \<Rightarrow> string \<Rightarrow> ('u, 'c) resolver \<Rightarrow> (go_error + string) \<times> ('u, 'c) resolver" where
  "resolve_path t ix p s =
     (case normalize_folder_path p of
        Inl e \<Rightarrow> (Inl (Api e), s)
      | Inr clean \<Rightarrow>
          if clean = ''/'' then (Inr root_folder_id, s)
          else case ix_look ix clean (rs_cache s) of
            (Some i, c) \<Rightarrow> (Inr i, s\<lparr>rs_cache := c\<rparr>)
          | (None, c) \<Rightarrow>
              case id_by_path t clean (s\<lparr>rs_cache := c\<rparr>) of
                (Inl e, s1) \<Rightarrow> (Inl e, s1)
              | (Inr i, s1) \<Rightarrow> (Inr i, s1\<lparr>rs_cache := ix_store ix clean i (rs_cache s1)\<rparr>))"

text \<open>\<open>Create\<close>, which checks the name and drops what is known below the parent.\<close>

definition create_folder ::
  "'u tree_ops \<Rightarrow> 'c index_ops \<Rightarrow> string \<Rightarrow> string \<Rightarrow> ('u, 'c) resolver \<Rightarrow> (go_error + string) \<times> ('u, 'c) resolver" where
  "create_folder t ix parent name s =
     (case validate_name name of
        Some e \<Rightarrow> (Inl (Api e), s)
      | None \<Rightarrow>
          let folder = (if parent = [] then root_folder_id else parent) in
          case up_create t folder name (rs_up s) of
            (Inl e, u) \<Rightarrow> (Inl e, s\<lparr>rs_up := u\<rparr>)
          | (Inr i, u) \<Rightarrow> (Inr i, s\<lparr>rs_up := u, rs_cache := ix_invalidate ix folder (rs_cache s)\<rparr>))"

text \<open>The last part of \<open>EnsurePath\<close>, with the parent there.\<close>

definition create_below ::
  "'u tree_ops \<Rightarrow> 'c index_ops \<Rightarrow> string \<Rightarrow> string \<Rightarrow> string \<Rightarrow> ('u, 'c) resolver \<Rightarrow> (go_error + string) \<times> ('u, 'c) resolver" where
  "create_below t ix clean parent name s =
     (case create_folder t ix parent name s of
        (Inl e, s1) \<Rightarrow>
          (case resolve_path t ix clean s1 of
             (Inr again, s2) \<Rightarrow> (Inr again, s2)
           | (Inl _, s2) \<Rightarrow> (Inl e, s2))
      | (Inr i, s1) \<Rightarrow>
          if i = [] then (Inl (no_id_error ''POST /folder.json'' ''the new folder came back without an id''), s1)
          else (Inr i, s1\<lparr>rs_cache := ix_store ix clean i (rs_cache s1)\<rparr>))"

text \<open>A normalised path below the root.\<close>

definition usable :: "string list \<Rightarrow> bool" where
  "usable ws \<longleftrightarrow> (\<forall>w \<in> set ws. good_segment w \<and> validate_name w = None)"

definition path_of :: "string list \<Rightarrow> string" where
  "path_of ws = slash # join_with slash ws"

lemma normalized_path:
  assumes "normalize_folder_path p = Inr q"
  obtains ws where "q = path_of ws" "usable ws"
  using assms by (rule normalize_folder_path_Inr) (auto simp: path_of_def usable_def)

lemma normalize_path_of:
  assumes "usable ws"
  shows "normalize_folder_path (path_of ws) = Inr (path_of ws)"
proof -
  have good: "\<forall>w \<in> set ws. good_segment w" and valid: "first_invalid ws = None" "CHR 0x00 \<notin> set (path_of ws)"
    using assms set_join_with [of slash ws] by (auto simp: usable_def path_of_def first_invalid_None good_segment_def dest!: validate_name_no_nul)
  then show ?thesis
    using normalize_rooted [OF valid(2)] canonical_segments [OF good] by (simp add: rooted_tail_def path_of_def Let_def)
qed

lemma path_of_root: "usable ws \<Longrightarrow> path_of ws = ''/'' \<longleftrightarrow> ws = []"
  using join_with_eq_Nil [of ws slash] by (auto simp: usable_def good_segment_def path_of_def)

lemma path_of_inj: "usable vs \<Longrightarrow> usable ws \<Longrightarrow> path_of vs = path_of ws \<Longrightarrow> vs = ws"
proof -
  assume "usable vs" "usable ws" "path_of vs = path_of ws"
  moreover have "kept_segments (join_with slash us) = us" if "usable us" for us
    by (rule canonical_segments) (use that in \<open>simp add: usable_def\<close>)
  ultimately show ?thesis by (metis list.inject path_of_def)
qed

lemma parent_of: "usable (ws @ [w]) \<Longrightarrow> parent_path (path_of (ws @ [w])) = (path_of ws, w)"
  using parent_path_child [of w ws] by (simp add: usable_def path_of_def)

lemma parent_shorter:
  assumes "normalize_folder_path p = Inr clean" "clean \<noteq> ''/''"
  shows "(case normalize_folder_path (fst (parent_path clean)) of Inl _ \<Rightarrow> 0 | Inr q \<Rightarrow> length q) < length clean"
proof -
  obtain ws where ws: "clean = path_of ws" "usable ws" using normalized_path [OF assms(1)] by blast
  then obtain vs w where vs: "ws = vs @ [w]" using assms(2) path_of_root by (cases ws rule: rev_cases) auto
  have u: "usable vs" using ws(2) by (simp add: vs usable_def)
  have "w \<noteq> []" using ws(2) by (simp add: vs usable_def good_segment_def)
  then have "length (path_of vs) < length (path_of (vs @ [w]))"
    by (cases "vs = []") (simp_all add: path_of_def join_with_snoc)
  then show ?thesis using ws vs normalize_path_of [OF u] parent_of [of vs w] by simp
qed

lemma unresolved_below_root: "(Inl e, s1) = resolve_path t ix clean s \<Longrightarrow> clean \<noteq> ''/''"
proof
  assume "(Inl e, s1) = resolve_path t ix clean s" "clean = ''/''"
  moreover have "normalize_folder_path ''/'' = Inr ''/''" by (simp add: normalize_folder_path_def)
  ultimately show False by (simp add: resolve_path_def)
qed

function ensure_path ::
  "'u tree_ops \<Rightarrow> 'c index_ops \<Rightarrow> string \<Rightarrow> ('u, 'c) resolver \<Rightarrow> (go_error + string) \<times> ('u, 'c) resolver" where
  "ensure_path t ix p s =
     (case normalize_folder_path p of
        Inl e \<Rightarrow> (Inl (Api e), s)
      | Inr clean \<Rightarrow>
          case resolve_path t ix clean s of
            (Inr i, s1) \<Rightarrow> (Inr i, s1)
          | (Inl e, s1) \<Rightarrow>
              if error_kind e \<noteq> Some KindNotFound then (Inl e, s1)
              else case parent_path clean of (parent, name) \<Rightarrow>
                case ensure_path t ix parent s1 of
                  (Inl e1, s2) \<Rightarrow> (Inl e1, s2)
                | (Inr pid, s2) \<Rightarrow> create_below t ix clean pid name s2)"
  by pat_completeness auto
termination
proof (relation "measure (\<lambda>(t, ix, p, s). case normalize_folder_path p of Inl _ \<Rightarrow> 0 | Inr q \<Rightarrow> length q)", goal_cases)
  case 1
  then show ?case by simp
next
  case prems: (2 t ix p s clean)
  then have "clean \<noteq> ''/''" using unresolved_below_root by blast
  moreover have "normalize_folder_path p = Inr clean" using prems by simp
  ultimately have "(case normalize_folder_path (fst (parent_path clean)) of Inl _ \<Rightarrow> 0 | Inr q \<Rightarrow> length q) < length clean"
    by (rule parent_shorter [rotated])
  then show ?case using prems by (cases "parent_path clean") simp
qed

declare ensure_path.simps [simp del]

definition list_path ::
  "'u tree_ops \<Rightarrow> 'c index_ops \<Rightarrow> string \<Rightarrow> ('u, 'c) resolver \<Rightarrow> (go_error + folder_listing) \<times> ('u, 'c) resolver" where
  "list_path t ix p s =
     (case resolve_path t ix p s of
        (Inl e, s1) \<Rightarrow> (Inl e, s1)
      | (Inr i, s1) \<Rightarrow>
          case up_list t i (rs_up s1) of
            (Inl e, u) \<Rightarrow> (Inl e, s1\<lparr>rs_up := u\<rparr>)
          | (Inr li, u) \<Rightarrow>
              let c1 = ix_observe ix i (case li_updated li of Some n \<Rightarrow> n | None \<Rightarrow> -62135596800) (rs_cache s1);
                  clean = (case normalize_folder_path p of Inr q \<Rightarrow> q | Inl _ \<Rightarrow> []);
                  c2 = fold (\<lambda>(name, fid) c.
                         if name = [] \<or> fid = [] then c
                         else ix_store ix (if clean = ''/'' then ''/'' @ name else clean @ ''/'' @ name) fid c) (li_folders li) c1
              in (Inr li, s1\<lparr>rs_up := u, rs_cache := c2\<rparr>))"

section \<open>An upstream that means what it says\<close>

text \<open>
  \<open>tree u\<close> is the folders upstream has, by normalised path. Upstream is honest when an id it gives for a path is the id of that folder, when \<open>not
  found\<close> means that there is no such folder, when asking changes nothing, and when creating a folder below one that exists
  adds that folder or nothing, whether it reports success or not.
\<close>

definition honest_tree :: "'u tree_ops \<Rightarrow> ('u \<Rightarrow> string \<rightharpoonup> string) \<Rightarrow> bool" where
  "honest_tree t tree \<longleftrightarrow>
     (\<forall>u. tree u ''/'' = Some root_folder_id)
     \<and> (\<forall>u p. tree u p \<noteq> Some [])
     \<and> (\<forall>u q. tree (snd (up_idbypath t q u)) = tree u)
     \<and> (\<forall>u ws a b. usable ws \<and> ws \<noteq> [] \<and> fst (up_idbypath t (join_with slash ws) u) = Inr (a, b)
          \<and> (if a \<noteq> [] then a else b) \<noteq> [] \<longrightarrow> tree u (path_of ws) = Some (if a \<noteq> [] then a else b))
     \<and> (\<forall>u ws e. usable ws \<and> ws \<noteq> [] \<and> fst (up_idbypath t (join_with slash ws) u) = Inl e
          \<and> error_kind e = Some KindNotFound \<longrightarrow> tree u (path_of ws) = None)
     \<and> (\<forall>u ws w pid. usable (ws @ [w]) \<and> tree u (path_of ws) = Some pid \<longrightarrow>
          (let (r, u') = up_create t pid w u in
             tree u \<subseteq>\<^sub>m tree u' \<and> dom (tree u') \<subseteq> insert (path_of (ws @ [w])) (dom (tree u))
             \<and> (\<forall>i. r = Inr i \<and> i \<noteq> [] \<longrightarrow> tree u' (path_of (ws @ [w])) = Some i)))"

definition entries :: "(string \<rightharpoonup> string) \<Rightarrow> (string \<times> string) set" where
  "entries m = {(p, i). m p = Some i}"

lemma entries_mono: "m \<subseteq>\<^sub>m m' \<Longrightarrow> entries m \<subseteq> entries m'"
  by (auto simp: entries_def map_le_def) (metis domI)

lemma honest_found:
  assumes "honest_tree t tree" "usable ws" "ws \<noteq> []" "up_idbypath t (join_with slash ws) u = (Inr (a, b), u')"
    and "(if a \<noteq> [] then a else b) \<noteq> []"
  shows "tree u (path_of ws) = Some (if a \<noteq> [] then a else b)"
proof -
  have "\<forall>u ws a b. usable ws \<and> ws \<noteq> [] \<and> fst (up_idbypath t (join_with slash ws) u) = Inr (a, b)
      \<and> (if a \<noteq> [] then a else b) \<noteq> [] \<longrightarrow> tree u (path_of ws) = Some (if a \<noteq> [] then a else b)"
    using assms(1) unfolding honest_tree_def by blast
  from this [rule_format, of ws u a b] show ?thesis using assms(2-5) by simp
qed

lemma id_by_path_spec:
  assumes h: "honest_tree t tree" and p: "normalize_folder_path p = Inr clean" and r: "id_by_path t p s = (r, s')"
  shows "tree (rs_up s') = tree (rs_up s) \<and> rs_cache s' = rs_cache s
    \<and> (case r of Inr i \<Rightarrow> tree (rs_up s) clean = Some i
       | Inl e \<Rightarrow> error_kind e = Some KindNotFound \<longrightarrow> tree (rs_up s) clean = None)"
proof (cases "clean = ''/''")
  case True
  then show ?thesis using h p r by (auto simp: id_by_path_def honest_tree_def)
next
  case False
  obtain ws where ws: "clean = path_of ws" "usable ws" using normalized_path [OF p] by blast
  then have ne: "ws \<noteq> []" using False by (auto simp: path_of_def)
  have q: "trim_prefix clean ''/'' = join_with slash ws" by (simp add: ws path_of_def trim_prefix_def)
  obtain a u where a: "up_idbypath t (join_with slash ws) (rs_up s) = (a, u)" by fastforce
  have u: "tree u = tree (rs_up s)" using h a unfolding honest_tree_def by (metis snd_conv)
  show ?thesis
  proof (cases a)
    case (Inl e)
    then have "error_kind e = Some KindNotFound \<longrightarrow> tree (rs_up s) clean = None"
      using h a ws ne unfolding honest_tree_def by (metis fst_conv)
    then show ?thesis using r p a Inl u False by (auto simp: id_by_path_def q)
  next
    case (Inr ab)
    obtain l r' where ab: "ab = (l, r')" by (cases ab)
    let ?i = "if l \<noteq> [] then l else r'"
    have "?i \<noteq> [] \<longrightarrow> tree (rs_up s) clean = Some ?i"
      using honest_found [OF h ws(2) ne a [unfolded Inr ab]] ws(1) by simp
    moreover have "error_kind (no_id_error op msg) = Some KindInvalidResponse" for op msg
      by (simp add: error_kind_def no_id_error_def blank_error_def)
    moreover have "s' = s\<lparr>rs_up := u\<rparr>" "r = (if ?i = [] then Inl (no_id_error ''POST /folder/idbypath.json'' ''the response carried no folder id'') else Inr ?i)"
      using r p a Inr ab False by (simp_all add: id_by_path_def q Let_def)
    ultimately show ?thesis using u by (cases "?i = []") simp_all
  qed
qed

text \<open>What upstream has after an operation: all it had, and at most the folders \<open>new\<close>. What the cache knows is true.\<close>

definition grown :: "('u \<Rightarrow> string \<rightharpoonup> string) \<Rightarrow> string set \<Rightarrow> 'u \<Rightarrow> 'u \<Rightarrow> bool" where
  "grown tree new u u' \<longleftrightarrow> tree u \<subseteq>\<^sub>m tree u' \<and> dom (tree u') \<subseteq> new \<union> dom (tree u)"

lemma grown_refl: "tree u' = tree u \<Longrightarrow> grown tree new u u'"
  by (simp add: grown_def)

lemma grown_trans: "grown tree a u v \<Longrightarrow> grown tree b v w \<Longrightarrow> a \<subseteq> n \<Longrightarrow> b \<subseteq> n \<Longrightarrow> grown tree n u w"
  unfolding grown_def by (intro conjI) (blast intro: map_le_trans, blast)

definition ancestors :: "string list \<Rightarrow> string set" where
  "ancestors ws = {path_of vs |vs. prefix vs ws}"

lemma grown_mono: "grown tree a u v \<Longrightarrow> a \<subseteq> b \<Longrightarrow> grown tree b u v"
  unfolding grown_def by blast

text \<open>
  Upstream is reliable when, besides, it always answers: with an id for a folder it has, with \<open>not found\<close> for one it has not, and
  with the id of the new folder when there was none of that name.
\<close>

definition reliable_tree :: "'u tree_ops \<Rightarrow> ('u \<Rightarrow> string \<rightharpoonup> string) \<Rightarrow> bool" where
  "reliable_tree t tree \<longleftrightarrow>
     honest_tree t tree
     \<and> (\<forall>u ws. usable ws \<and> ws \<noteq> [] \<longrightarrow>
          (case fst (up_idbypath t (join_with slash ws) u) of
             Inr (a, b) \<Rightarrow> (if a \<noteq> [] then a else b) \<noteq> []
           | Inl e \<Rightarrow> error_kind e = Some KindNotFound))
     \<and> (\<forall>u ws w pid. usable (ws @ [w]) \<and> tree u (path_of ws) = Some pid \<and> tree u (path_of (ws @ [w])) = None \<longrightarrow>
          (\<exists>i. fst (up_create t pid w u) = Inr i \<and> i \<noteq> []))"

lemma reliable_id:
  assumes r: "reliable_tree t tree" and p: "normalize_folder_path p = Inr clean" and i: "id_by_path t p s = (Inl e, s')"
  shows "error_kind e = Some KindNotFound"
proof -
  obtain ws where ws: "clean = path_of ws" "usable ws" using normalized_path [OF p] by blast
  have below: "clean \<noteq> ''/''" using p i by (auto simp: id_by_path_def)
  then have ne: "ws \<noteq> []" using ws(1) by (auto simp: path_of_def)
  have q: "trim_prefix clean ''/'' = join_with slash ws" by (simp add: ws path_of_def trim_prefix_def)
  obtain a u where a: "up_idbypath t (join_with slash ws) (rs_up s) = (a, u)" by fastforce
  have "\<forall>u ws. usable ws \<and> ws \<noteq> [] \<longrightarrow>
      (case fst (up_idbypath t (join_with slash ws) u) of
         Inr (a, b) \<Rightarrow> (if a \<noteq> [] then a else b) \<noteq> [] | Inl e \<Rightarrow> error_kind e = Some KindNotFound)"
    using r unfolding reliable_tree_def by blast
  from this [rule_format, of ws "rs_up s"]
  have "case a of Inr (x, y) \<Rightarrow> (if x \<noteq> [] then x else y) \<noteq> [] | Inl e \<Rightarrow> error_kind e = Some KindNotFound"
    using ws(2) ne a by simp
  then show ?thesis using i p below a q by (auto simp: id_by_path_def Let_def split: sum.splits if_splits)
qed

context path_index
begin

definition coherent :: "('u \<Rightarrow> string \<rightharpoonup> string) \<Rightarrow> ('u, 'c) resolver \<Rightarrow> bool" where
  "coherent tree s \<longleftrightarrow> knows (rs_cache s) \<subseteq> entries (tree (rs_up s))"

lemma resolve_path_spec:
  assumes h: "honest_tree t tree" and p: "normalize_folder_path p = Inr clean" and c: "coherent tree s"
    and r: "resolve_path t ix p s = (r, s')"
  shows "tree (rs_up s') = tree (rs_up s) \<and> coherent tree s'
    \<and> (case r of Inr i \<Rightarrow> tree (rs_up s) clean = Some i
       | Inl e \<Rightarrow> error_kind e = Some KindNotFound \<longrightarrow> tree (rs_up s) clean = None)"
proof (cases "clean = ''/''")
  case True
  then show ?thesis using h p r c by (auto simp: resolve_path_def honest_tree_def)
next
  case False
  obtain hit c1 where l: "ix_look ix clean (rs_cache s) = (hit, c1)" by fastforce
  have kn: "knows c1 \<subseteq> entries (tree (rs_up s))"
    using look_knows [of clean "rs_cache s"] c l by (auto simp: coherent_def)
  show ?thesis
  proof (cases hit)
    case (Some i)
    have "(clean, i) \<in> knows (rs_cache s)" using look_hit [of clean "rs_cache s" i] l Some by simp
    then have "tree (rs_up s) clean = Some i" using c by (auto simp: coherent_def entries_def)
    then show ?thesis using r p False l Some kn by (auto simp: resolve_path_def coherent_def)
  next
    case None
    have pc: "normalize_folder_path clean = Inr clean" by (rule normalize_idempotent [OF p])
    obtain a s1 where a: "id_by_path t clean (s\<lparr>rs_cache := c1\<rparr>) = (a, s1)" by fastforce
    note spec = id_by_path_spec [OF h pc a]
    show ?thesis
    proof (cases a)
      case (Inl e)
      then show ?thesis using r p False l None a spec kn by (auto simp: resolve_path_def coherent_def)
    next
      case (Inr i)
      have "knows (ix_store ix clean i c1) \<subseteq> entries (tree (rs_up s))"
        using store_knows [of clean i c1] kn spec Inr by (auto simp: entries_def)
      then show ?thesis using r p False l None a Inr spec by (auto simp: resolve_path_def coherent_def)
    qed
  qed
qed

lemma create_folder_spec:
  assumes h: "honest_tree t tree" and u: "usable (ws @ [w])" and parent: "tree (rs_up s) (path_of ws) = Some pid"
    and c: "coherent tree s" and r: "create_folder t ix pid w s = (r, s')"
  shows "grown tree {path_of (ws @ [w])} (rs_up s) (rs_up s') \<and> coherent tree s'
    \<and> (\<forall>i. r = Inr i \<and> i \<noteq> [] \<longrightarrow> tree (rs_up s') (path_of (ws @ [w])) = Some i)"
proof -
  have "pid \<noteq> []" using h parent unfolding honest_tree_def by metis
  obtain a u' where a: "up_create t pid w (rs_up s) = (a, u')" by fastforce
  have law: "tree (rs_up s) \<subseteq>\<^sub>m tree u' \<and> dom (tree u') \<subseteq> insert (path_of (ws @ [w])) (dom (tree (rs_up s)))
      \<and> (\<forall>i. a = Inr i \<and> i \<noteq> [] \<longrightarrow> tree u' (path_of (ws @ [w])) = Some i)"
    using h u parent a unfolding honest_tree_def by (elim conjE) (drule spec [of _ "rs_up s"], fastforce simp: Let_def)
  have "knows (ix_invalidate ix pid (rs_cache s)) \<subseteq> entries (tree u')" "knows (rs_cache s) \<subseteq> entries (tree u')"
    using c invalidate_knows [of pid "rs_cache s"] entries_mono [OF conjunct1 [OF law]] by (auto simp: coherent_def)
  moreover have "validate_name w = None" using u by (simp add: usable_def)
  moreover have "grown tree {path_of (ws @ [w])} (rs_up s) u'" using law by (simp add: grown_def)
  ultimately show ?thesis using r a law \<open>pid \<noteq> []\<close>
    by (cases a) (auto simp: create_folder_def coherent_def)
qed

lemma create_below_spec:
  assumes h: "honest_tree t tree" and u: "usable (ws @ [w])" and parent: "tree (rs_up s) (path_of ws) = Some pid"
    and c: "coherent tree s" and r: "create_below t ix (path_of (ws @ [w])) pid w s = (r, s')"
  shows "grown tree {path_of (ws @ [w])} (rs_up s) (rs_up s') \<and> coherent tree s'
    \<and> (\<forall>i. r = Inr i \<longrightarrow> tree (rs_up s') (path_of (ws @ [w])) = Some i)"
proof -
  obtain a s1 where a: "create_folder t ix pid w s = (a, s1)" by fastforce
  note cr = create_folder_spec [OF h u parent c a]
  show ?thesis
  proof (cases a)
    case (Inl e)
    obtain b s2 where b: "resolve_path t ix (path_of (ws @ [w])) s1 = (b, s2)" by fastforce
    note rp = resolve_path_spec [OF h normalize_path_of [OF u] conjunct1 [OF conjunct2 [OF cr]] b]
    have "grown tree {path_of (ws @ [w])} (rs_up s) (rs_up s2)" using cr rp by (simp add: grown_def)
    then show ?thesis using r a Inl b cr rp by (cases b) (auto simp: create_below_def)
  next
    case (Inr i)
    have "knows (ix_store ix (path_of (ws @ [w])) i (rs_cache s1)) \<subseteq> entries (tree (rs_up s1))" if "i \<noteq> []"
      using store_knows [of "path_of (ws @ [w])" i "rs_cache s1"] cr Inr that by (auto simp: coherent_def entries_def)
    then show ?thesis using r a Inr cr by (auto simp: create_below_def coherent_def split: if_splits)
  qed
qed

lemma ensure_path_spec:
  assumes h: "honest_tree t tree"
  shows "usable ws \<Longrightarrow> normalize_folder_path p = Inr (path_of ws) \<Longrightarrow> coherent tree s \<Longrightarrow> ensure_path t ix p s = (r, s')
    \<Longrightarrow> grown tree (ancestors ws) (rs_up s) (rs_up s') \<and> coherent tree s'
      \<and> (\<forall>i. r = Inr i \<longrightarrow> tree (rs_up s') (path_of ws) = Some i)"
proof (induction ws arbitrary: p s r s' rule: rev_induct)
  case Nil
  have "normalize_folder_path ''/'' = Inr ''/''" by (simp add: normalize_folder_path_def)
  then show ?case using Nil.prems h
    by (auto simp: ensure_path.simps [of t ix p s] resolve_path_def path_of_def grown_refl honest_tree_def)
next
  case (snoc w ws)
  let ?clean = "path_of (ws @ [w])"
  have u: "usable ws" using snoc.prems(1) by (simp add: usable_def)
  obtain a s1 where a: "resolve_path t ix ?clean s = (a, s1)" by fastforce
  note rp = resolve_path_spec [OF h normalize_path_of [OF snoc.prems(1)] snoc.prems(3) a]
  show ?case
  proof (cases "\<exists>e. a = Inl e \<and> error_kind e = Some KindNotFound")
    case False
    then show ?thesis using snoc.prems(2,4) a rp
      by (cases a) (auto simp: ensure_path.simps [of t ix p s] grown_refl)
  next
    case True
    obtain b s2 where b: "ensure_path t ix (path_of ws) s1 = (b, s2)" by fastforce
    have ih: "grown tree (ancestors ws) (rs_up s1) (rs_up s2) \<and> coherent tree s2
        \<and> (\<forall>i. b = Inr i \<longrightarrow> tree (rs_up s2) (path_of ws) = Some i)"
      by (rule snoc.IH [OF u normalize_path_of [OF u] _ b]) (use rp in simp)
    have sub: "ancestors ws \<subseteq> ancestors (ws @ [w])" "{?clean} \<subseteq> ancestors (ws @ [w])"
      by (auto simp: ancestors_def)
    have g: "grown tree (ancestors ws) (rs_up s) (rs_up s2)" using ih rp by (simp add: grown_def)
    show ?thesis
    proof (cases b)
      case (Inl e)
      then show ?thesis using snoc.prems(2,4) a True b ih grown_mono [OF g sub(1)]
        by (auto simp: ensure_path.simps [of t ix p s] parent_of [OF snoc.prems(1)])
    next
      case (Inr pid)
      obtain d s3 where d: "create_below t ix ?clean pid w s2 = (d, s3)" by fastforce
      have parent: "tree (rs_up s2) (path_of ws) = Some pid" using ih Inr by simp
      note cb = create_below_spec [OF h snoc.prems(1) parent conjunct1 [OF conjunct2 [OF ih]] d]
      have "r = d" "s' = s3" using snoc.prems(2,4) a True b Inr d
        by (auto simp: ensure_path.simps [of t ix p s] parent_of [OF snoc.prems(1)])
      then show ?thesis using cb grown_trans [OF g conjunct1 [OF cb] sub] by simp
    qed
  qed
qed

lemma reliable_resolve:
  assumes r: "reliable_tree t tree" and p: "normalize_folder_path p = Inr clean" and i: "resolve_path t ix p s = (Inl e, s')"
  shows "error_kind e = Some KindNotFound"
proof -
  obtain c1 where "id_by_path t clean (s\<lparr>rs_cache := c1\<rparr>) = (Inl e, s')"
    using i p by (auto simp: resolve_path_def split: if_splits option.splits prod.splits sum.splits)
  then show ?thesis using reliable_id [OF r normalize_idempotent [OF p]] by blast
qed

lemma reliable_create:
  assumes r: "reliable_tree t tree" and u: "usable (ws @ [w])" and parent: "tree (rs_up s) (path_of ws) = Some pid"
    and new: "tree (rs_up s) (path_of (ws @ [w])) = None"
  shows "\<exists>i s'. create_below t ix (path_of (ws @ [w])) pid w s = (Inr i, s')"
proof -
  have h: "honest_tree t tree" using r by (simp add: reliable_tree_def)
  have pid: "pid \<noteq> []" using h parent unfolding honest_tree_def by metis
  obtain i where i: "fst (up_create t pid w (rs_up s)) = Inr i" "i \<noteq> []"
    using r u parent new unfolding reliable_tree_def by blast
  obtain u' where "up_create t pid w (rs_up s) = (Inr i, u')" using i(1) by (metis prod.collapse)
  moreover have "validate_name w = None" using u by (simp add: usable_def)
  ultimately show ?thesis using i(2) pid by (simp add: create_below_def create_folder_def)
qed

lemma ensure_path_reliable:
  assumes r: "reliable_tree t tree"
  shows "usable ws \<Longrightarrow> normalize_folder_path p = Inr (path_of ws) \<Longrightarrow> coherent tree s \<Longrightarrow> \<exists>i s'. ensure_path t ix p s = (Inr i, s')"
proof (induction ws arbitrary: p s rule: rev_induct)
  case Nil
  have "normalize_folder_path ''/'' = Inr ''/''" by (simp add: normalize_folder_path_def)
  then show ?case using Nil.prems by (auto simp: ensure_path.simps [of t ix p s] resolve_path_def path_of_def)
next
  case (snoc w ws)
  let ?clean = "path_of (ws @ [w])"
  have h: "honest_tree t tree" using r by (simp add: reliable_tree_def)
  have u: "usable ws" using snoc.prems(1) by (simp add: usable_def)
  obtain a s1 where a: "resolve_path t ix ?clean s = (a, s1)" by fastforce
  note rp = resolve_path_spec [OF h normalize_path_of [OF snoc.prems(1)] snoc.prems(3) a]
  show ?case
  proof (cases a)
    case (Inr i)
    then show ?thesis using snoc.prems(2) a by (simp add: ensure_path.simps [of t ix p s])
  next
    case (Inl e)
    then have nf: "error_kind e = Some KindNotFound" using reliable_resolve [OF r normalize_path_of [OF snoc.prems(1)]] a by blast
    have c1: "coherent tree s1" and missing: "tree (rs_up s1) ?clean = None" using rp Inl nf by auto
    obtain pid s2 where b: "ensure_path t ix (path_of ws) s1 = (Inr pid, s2)"
      using snoc.IH [OF u normalize_path_of [OF u] c1] by blast
    note ih = ensure_path_spec [OF h u normalize_path_of [OF u] c1 b]
    have "?clean \<notin> ancestors ws"
    proof
      assume "?clean \<in> ancestors ws"
      then obtain vs where vs: "?clean = path_of vs" "prefix vs ws" by (auto simp: ancestors_def)
      have "usable vs" using u vs(2) by (auto simp: usable_def dest: set_mono_prefix)
      then have "vs = ws @ [w]" using vs(1) snoc.prems(1) path_of_inj by blast
      then show False using vs(2) by (auto dest: prefix_length_le)
    qed
    then have "tree (rs_up s2) ?clean = None" using ih missing by (auto simp: grown_def)
    moreover have "tree (rs_up s2) (path_of ws) = Some pid" using ih by simp
    ultimately obtain i s3 where "create_below t ix ?clean pid w s2 = (Inr i, s3)"
      using reliable_create [OF r snoc.prems(1)] by blast
    then show ?thesis using snoc.prems(2) a Inl nf b
      by (auto simp: ensure_path.simps [of t ix p s] parent_of [OF snoc.prems(1)])
  qed
qed

end

section \<open>What the bridge promises for its cache\<close>

text \<open>C35: \<open>EnsurePath\<close> over an honest upstream and a truthful cache: an id it returns is the id of that folder, which is there;
  it removed nothing and made nothing but folders along the path, also when it failed half way or when a create that
  was reported as failed had happened; and the cache is truthful again.\<close>
theorem ensured_folder_exists:
  assumes "honest_tree t tree" "cached (rs_cache s) \<subseteq> entries (tree (rs_up s))"
    and "ensure_path t bridge_index p s = (r, s')" "normalize_folder_path p = Inr (path_of ws)" "usable ws"
  shows "(\<forall>i. r = Inr i \<longrightarrow> tree (rs_up s') (path_of ws) = Some i)
    \<and> tree (rs_up s) \<subseteq>\<^sub>m tree (rs_up s') \<and> dom (tree (rs_up s')) \<subseteq> ancestors ws \<union> dom (tree (rs_up s))
    \<and> cached (rs_cache s') \<subseteq> entries (tree (rs_up s'))"
  using bridge.ensure_path_spec [OF assms(1,5,4) _ assms(3)] assms(2) by (auto simp: bridge.coherent_def grown_def)

text \<open>C36: With an upstream that always answers, \<open>EnsurePath\<close> always succeeds: every path that the bridge accepts is made, however
  many of its folders are missing.\<close>
theorem ensure_path_succeeds:
  assumes "reliable_tree t tree" "cached (rs_cache s) \<subseteq> entries (tree (rs_up s))" "normalize_folder_path p = Inr q"
  shows "\<exists>i s'. ensure_path t bridge_index p s = (Inr i, s') \<and> tree (rs_up s') q = Some i"
proof -
  obtain ws where ws: "q = path_of ws" "usable ws" using normalized_path [OF assms(3)] by blast
  have c: "bridge.coherent tree s" using assms(2) by (simp add: bridge.coherent_def)
  obtain i s' where e: "ensure_path t bridge_index p s = (Inr i, s')"
    using bridge.ensure_path_reliable [OF assms(1) ws(2) assms(3) [unfolded ws(1)] c] by blast
  have "honest_tree t tree" using assms(1) by (simp add: reliable_tree_def)
  from bridge.ensure_path_spec [OF this ws(2) assms(3) [unfolded ws(1)] c e] e ws(1) show ?thesis by blast
qed

section \<open>An example\<close>

text \<open>An upstream whose ids are the paths, and whose state is the list of its folders below the root.\<close>

definition toy_tree :: "string list \<Rightarrow> string \<rightharpoonup> string" where
  "toy_tree u p = (if p = ''/'' then Some root_folder_id else if has_prefix p ''/'' \<and> p \<in> set u then Some p else None)"

definition toy_child :: "string \<Rightarrow> string \<Rightarrow> string" where
  "toy_child pid name = (if pid = root_folder_id then ''/'' @ name else pid @ ''/'' @ name)"

definition toy_ops :: "string list tree_ops" where
  "toy_ops =
     \<lparr>up_idbypath = (\<lambda>q u. (if ''/'' @ q \<in> set u then Inr (''/'' @ q, []) else Inl (Api (blank_error KindNotFound)), u)),
      up_create = (\<lambda>pid name u. (Inr (toy_child pid name), toy_child pid name # u)),
      up_list = (\<lambda>_ u. (Inr \<lparr>li_updated = None, li_folders = []\<rparr>, u))\<rparr>"

lemma toy_child_path:
  assumes "usable (ws @ [w])" "toy_tree u (path_of ws) = Some pid"
  shows "toy_child pid w = path_of (ws @ [w])"
proof (cases "ws = []")
  case True
  then have "pid = root_folder_id" using assms(2) by (simp add: toy_tree_def path_of_def)
  then show ?thesis using True by (simp add: toy_child_def path_of_def)
next
  case False
  then have "path_of ws \<noteq> ''/''" using assms(1) path_of_root [of ws] by (simp add: usable_def)
  then have "pid = path_of ws" using assms(2) by (auto simp: toy_tree_def split: if_splits)
  moreover have "path_of ws \<noteq> root_folder_id" by (simp add: path_of_def root_folder_id_def)
  ultimately show ?thesis using False canonical_snoc [of ws w] by (simp add: toy_child_def path_of_def)
qed

lemma toy_reliable: "reliable_tree toy_ops toy_tree"
proof -
  have root: "root_folder_id \<noteq> []" by (simp add: root_folder_id_def)
  have below: "slash # join_with slash ws \<noteq> ''/''" if "usable ws" "ws \<noteq> []" for ws
    using path_of_root [OF that(1)] that(2) by (simp add: path_of_def)
  have create: "let (r, u') = up_create toy_ops pid w u in
      toy_tree u \<subseteq>\<^sub>m toy_tree u' \<and> dom (toy_tree u') \<subseteq> insert (path_of (ws @ [w])) (dom (toy_tree u))
      \<and> (\<forall>i. r = Inr i \<and> i \<noteq> [] \<longrightarrow> toy_tree u' (path_of (ws @ [w])) = Some i)"
    if "usable (ws @ [w])" "toy_tree u (path_of ws) = Some pid" for u ws w pid
    using toy_child_path [OF that] below [OF that(1)]
    by (auto simp: toy_ops_def map_le_def toy_tree_def path_of_def split: if_splits)
  have ids: "toy_tree u p \<noteq> Some []" for u p using root by (auto simp: toy_tree_def split: if_splits)
  have "honest_tree toy_ops toy_tree"
    unfolding honest_tree_def
  proof (intro conjI allI impI; (elim conjE)?)
    fix u ws w pid
    assume "usable (ws @ [w])" "toy_tree u (path_of ws) = Some pid"
    then show "let (r, u') = up_create toy_ops pid w u in
      toy_tree u \<subseteq>\<^sub>m toy_tree u' \<and> dom (toy_tree u') \<subseteq> insert (path_of (ws @ [w])) (dom (toy_tree u))
      \<and> (\<forall>i. r = Inr i \<and> i \<noteq> [] \<longrightarrow> toy_tree u' (path_of (ws @ [w])) = Some i)" by (rule create)
  qed (use ids below in \<open>auto simp: toy_ops_def toy_tree_def path_of_def split: if_splits\<close>)
  then show ?thesis
    using toy_child_path below unfolding reliable_tree_def
    by (auto simp: toy_ops_def error_kind_def blank_error_def path_of_def)
qed

definition toy_start :: "(string list, clocked_cache) resolver" where
  "toy_start = \<lparr>rs_up = [''/Docs''], rs_cache = \<lparr>cc_cache = new_path_cache [], cc_clock = int, cc_tick = 0\<rparr>\<rparr>"

lemma toy_path: "normalize_folder_path ''/Docs/2026/May/'' = Inr (path_of [''Docs'', ''2026'', ''May''])"
    "usable [''Docs'', ''2026'', ''May'']"
  by code_simp+

lemma toy_start_truthful: "cached (rs_cache toy_start) \<subseteq> entries (toy_tree (rs_up toy_start))"
  by (simp add: toy_start_def cached_def new_path_cache_def)

theorem ensured_folder_exists_witness:
  "case ensure_path toy_ops bridge_index ''/Docs/2026/May/'' toy_start of (r, s') \<Rightarrow>
     (\<forall>i. r = Inr i \<longrightarrow> toy_tree (rs_up s') (path_of [''Docs'', ''2026'', ''May'']) = Some i)
     \<and> toy_tree (rs_up toy_start) \<subseteq>\<^sub>m toy_tree (rs_up s')
     \<and> cached (rs_cache s') \<subseteq> entries (toy_tree (rs_up s'))"
proof -
  have h: "honest_tree toy_ops toy_tree" using toy_reliable by (simp add: reliable_tree_def)
  obtain r s' where e: "ensure_path toy_ops bridge_index ''/Docs/2026/May/'' toy_start = (r, s')" by fastforce
  from ensured_folder_exists [OF h toy_start_truthful e toy_path] show ?thesis by (simp add: e)
qed

theorem ensure_path_succeeds_witness:
  "\<exists>i s'. ensure_path toy_ops bridge_index ''/Docs/2026/May/'' toy_start = (Inr i, s')
    \<and> toy_tree (rs_up s') (path_of [''Docs'', ''2026'', ''May'']) = Some i"
  by (rule ensure_path_succeeds [OF toy_reliable toy_start_truthful toy_path(1)])

end
