(* ===== verification/Download.thy ===== *)
theory Download
  imports Client Go_Time
begin

text \<open>
  \<open>pkg/opendrive/download.go\<close>: the download of a file to a writer and to a local path, resuming what is there, and of an
  archive. The request goes through \<open>stream_loop\<close> of \<open>Client\<close>; the callback that takes the bytes is \<open>receive\<close>, and its state is the
  destination, the digest so far and the result.

  MD5 and the decoding of the probe are arguments. A destination may fail after some bytes; a body may
  break off. Reporting of progress is not modelled.
\<close>

section \<open>Parameters\<close>

definition probe_threshold :: int where
  "probe_threshold = 8 * 2 ^ 20"

record download_params =
  dl_file :: string
  dl_offset :: int
  dl_size :: int
  dl_hash :: string
  dl_sharing :: string
  dl_inline :: bool
  dl_probe :: "bool option"

record download_result =
  dr_written :: int
  dr_offset :: int
  dr_resumed :: bool
  dr_total :: int
  dr_name :: string
  dr_hash :: string
  dr_verified :: bool

definition validate_download :: "download_params \<Rightarrow> api_error option" where
  "validate_download p =
     (if dl_file p = [] then Some (invalid_request ''download needs a file id'')
      else if dl_offset p < 0 then Some (invalid_request ''download offset must not be negative'')
      else if dl_hash p \<noteq> [] \<and> length (dl_hash p) \<noteq> 32
      then Some (invalid_request ''file_hash must be a 32 character hex MD5'')
      else None)"

definition wants_probe :: "download_params \<Rightarrow> bool" where
  "wants_probe p = (case dl_probe p of Some b \<Rightarrow> b | None \<Rightarrow> dl_size p \<ge> probe_threshold)"

definition endpoint_download_file :: string where
  "endpoint_download_file = ''/download/file.json''"

definition endpoint_download_all :: string where
  "endpoint_download_all = ''/download/all.json''"

definition download_op :: string where
  "download_op = ''GET '' @ endpoint_download_file"

definition bandwidth_exceeded :: api_error where
  "bandwidth_exceeded =
     (blank_error KindBandwidthExceeded)\<lparr>err_op := download_op, retry := RetryNo,
        upstream_msg := ''the account's download bandwidth allowance is exhausted''\<rparr>"

definition probe_request :: "string \<Rightarrow> string \<Rightarrow> request" where
  "probe_request file sharing =
     \<lparr>rq_method = ''GET'', rq_path = endpoint_download_file, rq_segments = [file],
      rq_query = (''test'', ''1'') # (if sharing \<noteq> [] then [(''sharing_id'', sharing)] else []), rq_body = NoBody,
      rq_needs_session = False, rq_scope = [], rq_param = [], rq_placement = SessionInQuery, rq_retryable = None\<rparr>"

text \<open>\<open>exceeded\<close> is the \<open>BWExceeded\<close> of the decoded answer.\<close>

definition download_probe ::
  "client \<Rightarrow> retry_policy \<Rightarrow> (nat \<Rightarrow> call_env) \<Rightarrow> bool \<Rightarrow> string \<Rightarrow> string \<Rightarrow> disambiguator \<Rightarrow> go_error option \<times> disambiguator" where
  "download_probe c pol env exceeded file sharing d =
     (if file = [] then (Some (Api (invalid_request ''download probe needs a file id'')), d)
      else case do_request c pol (probe_request file sharing) True env d of
        (Some e, _, d1) \<Rightarrow> (Some e, d1)
      | (None, _, d1) \<Rightarrow> (if exceeded then Some (Api bandwidth_exceeded) else None, d1))"

definition download_request :: "download_params \<Rightarrow> request" where
  "download_request p =
     \<lparr>rq_method = ''GET'', rq_path = endpoint_download_file, rq_segments = [dl_file p],
      rq_query = (if dl_sharing p \<noteq> [] then [(''sharing_id'', dl_sharing p)] else [])
        @ (if dl_inline p then [(''inline'', ''1'')] else []),
      rq_body = NoBody, rq_needs_session = False, rq_scope = [], rq_param = [], rq_placement = SessionInQuery,
      rq_retryable = None\<rparr>"

definition range_header :: "download_params \<Rightarrow> string option" where
  "range_header p = (if dl_offset p > 0 then Some (''bytes='' @ show_int (dl_offset p) @ ''-'') else None)"

section \<open>The answer\<close>

text \<open>What the callback is given besides the status and the content type: \<open>Content-Range\<close>, the length (-1 for unknown), the
  name in \<open>Content-Disposition\<close>, the bytes, and whether reading them ends in an error.\<close>

record stream_reply =
  rp_range :: string
  rp_length :: int
  rp_name :: string
  rp_body :: string
  rp_broken :: "sentinel option"

definition is_json_content_type :: "string \<Rightarrow> bool" where
  "is_json_content_type ct = contains (to_lower ct) ''json''"

definition total_from_response :: "stream_reply \<Rightarrow> bool \<Rightarrow> int \<Rightarrow> int" where
  "total_from_response rp resumed off =
     (let tail = (if rp_range rp \<noteq> [] then
                    (case last_index CHR ''/'' (rp_range rp) of
                       Some i \<Rightarrow> atoi (trim_space (drop (Suc i) (rp_range rp)))
                     | None \<Rightarrow> None)
                  else None)
      in case tail of
           Some n \<Rightarrow> n
         | None \<Rightarrow> if rp_length rp < 0 then -1 else if resumed then rp_length rp + off else rp_length rp)"

text \<open>\<open>decode_exceeded\<close> is \<open>BWExceeded\<close> of the raw bytes when they unmarshal as a probe.\<close>

definition read_instead_of_bytes :: "client \<Rightarrow> (string \<Rightarrow> bool option) \<Rightarrow> stream_reply \<Rightarrow> go_error" where
  "read_instead_of_bytes c decode_exceeded rp =
     (if length (rp_body rp) < 65536 \<and> rp_broken rp \<noteq> None
      then Api ((blank_error KindInvalidResponse)\<lparr>err_op := download_op, cause := rp_broken rp\<rparr>)
      else
        let raw = take 65536 (rp_body rp) in
        if decode_exceeded raw = Some True then Api bandwidth_exceeded
        else case error_in_body (cl_member c) (cl_decode c)
               \<lparr>ev_status = 0, ev_retry_header = [], ev_retry_until = None, ev_body = raw, ev_content_type = [],
                ev_op = download_op, ev_scope = [], ev_url = []\<rparr> of
          Some e \<Rightarrow> Api e
        | None \<Rightarrow> Api ((blank_error KindInvalidResponse)\<lparr>err_op := download_op,
            upstream_msg := ''upstream answered with JSON where file content was expected: ''
              @ truncate_msg (trim_space raw) 200\<rparr>))"

section \<open>The destination\<close>

record sink =
  sk_bytes :: string
  sk_room :: "nat option" \<comment> \<open>how many bytes it still takes, if it is going to fail\<close>

definition sink_accepts :: "sink \<Rightarrow> string \<Rightarrow> nat" where
  "sink_accepts s xs = (case sk_room s of None \<Rightarrow> length xs | Some r \<Rightarrow> min r (length xs))"

definition sink_write :: "string \<Rightarrow> sink \<Rightarrow> sink" where
  "sink_write xs s =
     s\<lparr>sk_bytes := sk_bytes s @ take (sink_accepts s xs) xs, sk_room := map_option (\<lambda>r. r - sink_accepts s xs) (sk_room s)\<rparr>"

record download_state =
  ds_sink :: sink
  ds_digest :: string \<comment> \<open>the bytes hashed so far\<close>
  ds_result :: download_result

definition skip_error :: go_error where
  "skip_error = Api ((blank_error KindInvalidResponse)\<lparr>err_op := download_op,
     upstream_msg := ''upstream ignored the resume range and then ended before the offset''\<rparr>)"

definition to_skip :: "download_params \<Rightarrow> evidence \<Rightarrow> nat" where
  "to_skip p ev = (if dl_offset p > 0 \<and> ev_status ev \<noteq> 206 then nat (dl_offset p) else 0)"

text \<open>The callback of \<open>Download\<close>. The hasher sees every byte that is read, those that are skipped included.\<close>

definition receive ::
  "client \<Rightarrow> (string \<Rightarrow> bool option) \<Rightarrow> download_params \<Rightarrow> evidence \<Rightarrow> stream_reply \<Rightarrow> download_state
    \<Rightarrow> go_error option \<times> download_state" where
  "receive c dx p ev rp st =
     (if is_json_content_type (ev_content_type ev) then (Some (read_instead_of_bytes c dx rp), st)
      else
        let resumed = (ev_status ev = 206);
            res = (ds_result st)\<lparr>dr_resumed := resumed, dr_total := total_from_response rp resumed (dl_offset p),
                     dr_name := rp_name rp\<rparr>;
            skip = to_skip p ev
        in if length (rp_body rp) < skip
           then (Some skip_error, st\<lparr>ds_digest := ds_digest st @ rp_body rp, ds_result := res\<rparr>)
           else
             let tail = drop skip (rp_body rp);
                 n = sink_accepts (ds_sink st) tail;
                 err = (if n < length tail then Some (Plain ''write'') else map_option Sentinel (rp_broken rp))
             in (err, st\<lparr>ds_sink := sink_write tail (ds_sink st),
                        ds_digest := ds_digest st @ rp_body rp,
                        ds_result := res\<lparr>dr_written := int n\<rparr>\<rparr>))"

section \<open>Streaming with a state\<close>

text \<open>The answer that reaches the callback of a streaming attempt, if any does.\<close>

definition stream_answer :: "client \<Rightarrow> request \<Rightarrow> attempt_env \<Rightarrow> evidence option" where
  "stream_answer c r ae =
     (case credentials_for (cl_has_auth c) r ae of
        Inl _ \<Rightarrow> None
      | Inr cr \<Rightarrow>
          case build_url (cl_base c) r cr of
            Inl _ \<Rightarrow> None
          | Inr wr \<Rightarrow>
              case ae_transport ae wr of
                Response ev _ \<Rightarrow> if ev_status ev < 200 \<or> ev_status ev > 299 then None else Some ev
              | _ \<Rightarrow> None)"

text \<open>What the callback returns on the k-th attempt, and the state before that attempt.\<close>

definition callback :: "client \<Rightarrow> request \<Rightarrow> (nat \<Rightarrow> call_env) \<Rightarrow> (nat \<Rightarrow> evidence \<Rightarrow> 's \<Rightarrow> go_error option \<times> 's)
    \<Rightarrow> nat \<Rightarrow> 's \<Rightarrow> go_error option \<times> 's" where
  "callback c r env cb k st =
     (case stream_answer c r (cv_attempt (env k)) of None \<Rightarrow> (None, st) | Some ev \<Rightarrow> cb k ev st)"

primrec state_before :: "client \<Rightarrow> request \<Rightarrow> (nat \<Rightarrow> call_env) \<Rightarrow> (nat \<Rightarrow> evidence \<Rightarrow> 's \<Rightarrow> go_error option \<times> 's)
    \<Rightarrow> 's \<Rightarrow> nat \<Rightarrow> 's" where
  "state_before c r env cb st 0 = st"
| "state_before c r env cb st (Suc k) = snd (callback c r env cb k (state_before c r env cb st k))"

definition do_stream :: "client \<Rightarrow> request \<Rightarrow> (nat \<Rightarrow> call_env) \<Rightarrow> (nat \<Rightarrow> evidence \<Rightarrow> 's \<Rightarrow> go_error option \<times> 's)
    \<Rightarrow> 's \<Rightarrow> disambiguator \<Rightarrow> (go_error option \<times> 's) \<times> disambiguator" where
  "do_stream c r env cb st d =
     (let before = state_before c r env cb st in
      case stream_loop c r (\<lambda>k. fst (callback c r env cb k (before k))) env 0 False d of
        (err, tr, d1) \<Rightarrow> ((err, before (Suc (length tr))), d1))"

lemma stream_attempt_answer:
  "stream_attempt c r fn ae d = (case stream_answer c r ae of
      None \<Rightarrow> (fst (stream_attempt c r None ae d), d)
    | Some ev \<Rightarrow> (map_option (as_error KindNetwork (op_of r)) fn, note_success (witness_key (op_of r) (rq_scope r)) d))"
  by (auto simp: stream_attempt_def stream_answer_def Let_def split: sum.splits transport.splits)

lemma unanswered_fails: "stream_answer c r ae = None \<Longrightarrow> \<exists>e. fst (stream_attempt c r fn ae d) = Some e"
  by (auto simp: stream_attempt_def stream_answer_def Let_def split: sum.splits transport.splits if_splits)

text \<open>A callback that changes the state and fails does so with an error that renews nothing.\<close>

definition commits :: "request \<Rightarrow> (nat \<Rightarrow> evidence \<Rightarrow> 's \<Rightarrow> go_error option \<times> 's) \<Rightarrow> bool" where
  "commits r cb \<longleftrightarrow>
     (\<forall>k ev st. snd (cb k ev st) = st
        \<or> (case fst (cb k ev st) of None \<Rightarrow> True
           | Some g \<Rightarrow> kind (as_error KindNetwork (op_of r) g) \<noteq> KindTokenExpired
                     \<and> \<not> ambiguous (as_error KindNetwork (op_of r) g)))"

lemma renewed_unchanged:
  assumes "commits r cb" "stream_attempt c r (fst (callback c r env cb k st)) (cv_attempt (env k)) d = (Some e0, d1)"
    and "settle now v e0 d1 = (e, d2)" "renews c r refreshed e"
  shows "snd (callback c r env cb k st) = st"
proof (cases "stream_answer c r (cv_attempt (env k))")
  case None
  then show ?thesis by (simp add: callback_def)
next
  case (Some ev)
  then obtain g where g: "fst (cb k ev st) = Some g" "e0 = as_error KindNetwork (op_of r) g"
    using assms(2) by (auto simp: stream_attempt_answer callback_def)
  have "kind e0 = KindTokenExpired \<or> ambiguous e0"
    using assms(3,4) by (auto simp: settle_def renews_def split: if_splits)
  then have "snd (cb k ev st) = st" using assms(1) [unfolded commits_def, rule_format, of k ev st] g by auto
  then show ?thesis by (simp add: callback_def Some)
qed

lemma stream_loop_last:
  assumes "commits r cb"
    and "stream_loop c r (\<lambda>k. fst (callback c r env cb k (state_before c r env cb st k))) env k refreshed d = (res, tr, d')"
  shows "state_before c r env cb st (k + length tr) = state_before c r env cb st k
    \<and> (res = None \<longrightarrow> (\<exists>ev. stream_answer c r (cv_attempt (env (k + length tr))) = Some ev
          \<and> fst (cb (k + length tr) ev (state_before c r env cb st k)) = None))"
  using assms(2)
proof (induction "if refreshed then 0 else 1 :: nat" arbitrary: k refreshed d tr d' rule: less_induct)
  case less
  let ?fn = "\<lambda>k. fst (callback c r env cb k (state_before c r env cb st k))"
  obtain a d1 where a: "stream_attempt c r (?fn k) (cv_attempt (env k)) d = (a, d1)" by fastforce
  show ?case
  proof (cases a)
    case None
    have "res = None" "tr = []" using less.prems a None by (simp_all add: stream_loop.simps [of c r ?fn env k])
    moreover obtain ev where ev: "stream_answer c r (cv_attempt (env k)) = Some ev"
      using a None unanswered_fails [of c r "cv_attempt (env k)" "?fn k" d] by (cases "stream_answer c r (cv_attempt (env k))") auto
    moreover have "?fn k = None" using a None by (simp add: stream_attempt_answer ev)
    ultimately show ?thesis by (simp add: callback_def)
  next
    case (Some e0)
    obtain e d2 where e: "settle (cv_now (env k)) (cv_verdict (env k)) e0 d1 = (e, d2)" by fastforce
    show ?thesis
    proof (cases "renews c r refreshed e \<and> cv_refresh (env k) = None")
      case False
      then show ?thesis using less.prems a Some e
        by (auto simp: stream_loop.simps [of c r ?fn env k] split: if_splits option.splits)
    next
      case True
      obtain res1 tr1 d3 where l: "stream_loop c r ?fn env (Suc k) True d2 = (res1, tr1, d3)" by (metis prod_cases3)
      have res: "res1 = res" "length tr = Suc (length tr1)"
        using less.prems a Some e True l by (auto simp: stream_loop.simps [of c r ?fn env k])
      have "\<not> refreshed" using True by (simp add: renews_def)
      then have ih: "state_before c r env cb st (Suc k + length tr1) = state_before c r env cb st (Suc k)
          \<and> (res = None \<longrightarrow> (\<exists>ev. stream_answer c r (cv_attempt (env (Suc k + length tr1))) = Some ev
            \<and> fst (cb (Suc k + length tr1) ev (state_before c r env cb st (Suc k))) = None))"
        by (intro less.hyps [OF _ l [unfolded res]]) simp
      have same: "state_before c r env cb st (Suc k) = state_before c r env cb st k"
        using renewed_unchanged [OF assms(1) a [unfolded Some] e conjunct1 [OF True]] by simp
      show ?thesis using ih same res by simp
    qed
  qed
qed

text \<open>So a streaming call hands the state it was given to one callback, and its success is that callback's success.\<close>

lemma do_stream_cases:
  assumes "commits r cb" "do_stream c r env cb st d = ((err, st'), d')"
  shows "(\<exists>k ev. stream_answer c r (cv_attempt (env k)) = Some ev \<and> st' = snd (cb k ev st)
            \<and> (err = None \<longrightarrow> fst (cb k ev st) = None))
    \<or> st' = st \<and> err \<noteq> None"
proof -
  let ?fn = "\<lambda>k. fst (callback c r env cb k (state_before c r env cb st k))"
  obtain res tr d1 where l: "stream_loop c r ?fn env 0 False d = (res, tr, d1)" by (metis prod_cases3)
  note last = stream_loop_last [OF assms(1) l]
  have "st' = snd (callback c r env cb (length tr) st)" "err = res"
    using assms(2) l last by (auto simp: do_stream_def)
  then show ?thesis using last by (auto simp: callback_def split: option.splits)
qed

section \<open>Downloading\<close>

record download_env =
  de_policy :: retry_policy
  de_probe :: "nat \<Rightarrow> call_env"
  de_exceeded :: bool
  de_call :: "nat \<Rightarrow> call_env"
  de_reply :: "string option \<Rightarrow> nat \<Rightarrow> stream_reply" \<comment> \<open>by the \<open>Range\<close> header and the attempt\<close>
  de_decode :: "string \<Rightarrow> bool option"

definition no_result :: "int \<Rightarrow> download_result" where
  "no_result off = \<lparr>dr_written = 0, dr_offset = off, dr_resumed = False, dr_total = -1, dr_name = [], dr_hash = [],
     dr_verified = False\<rparr>"

definition check_hash :: "(string \<Rightarrow> string) \<Rightarrow> download_params \<Rightarrow> download_state \<Rightarrow> download_result \<times> go_error option" where
  "check_hash md5 p st =
     (let res = (ds_result st)\<lparr>dr_hash := md5 (ds_digest st)\<rparr> in
      if (dl_offset p = 0 \<or> \<not> dr_resumed res) \<and> dl_hash p \<noteq> []
      then (res\<lparr>dr_verified := True\<rparr>,
            if \<not> equal_fold (dr_hash res) (dl_hash p)
            then Some (Api ((blank_error KindInvalidResponse)\<lparr>err_op := download_op,
                   upstream_msg := ''downloaded content hashes to '' @ dr_hash res @ '' but '' @ dl_hash p @ '' was expected''\<rparr>))
            else None)
      else (res, None))"

definition download ::
  "client \<Rightarrow> (string \<Rightarrow> string) \<Rightarrow> download_env \<Rightarrow> download_params \<Rightarrow> sink \<Rightarrow> disambiguator
    \<Rightarrow> download_result option \<times> go_error option \<times> sink" where
  "download c md5 de p dst d =
     (case validate_download p of
        Some e \<Rightarrow> (None, Some (Api e), dst)
      | None \<Rightarrow>
          case (if wants_probe p then download_probe c (de_policy de) (de_probe de) (de_exceeded de) (dl_file p) (dl_sharing p) d
                else (None, d)) of
            (Some e, _) \<Rightarrow> (None, Some e, dst)
          | (None, d1) \<Rightarrow>
              let st0 = \<lparr>ds_sink = dst, ds_digest = [], ds_result = no_result (dl_offset p)\<rparr>;
                  cb = (\<lambda>k ev. receive c (de_decode de) p ev (de_reply de (range_header p) k))
              in case do_stream c (download_request p) (de_call de) cb st0 d1 of
                   ((Some e, st), _) \<Rightarrow> (Some (ds_result st), Some e, ds_sink st)
                 | ((None, st), _) \<Rightarrow>
                     (case check_hash md5 p st of (res, err) \<Rightarrow> (Some res, err, ds_sink st)))"

text \<open>A local path, and what goes wrong with it: opening, and flushing at the end.\<close>

datatype local_file = LocalAbsent | LocalDir | LocalFile string

definition write_at :: "string \<Rightarrow> nat \<Rightarrow> string \<Rightarrow> string" where
  "write_at old off xs =
     (if xs = [] then old
      else take off (old @ replicate (off - length old) CHR 0x00) @ xs @ drop (off + length xs) old)"

definition local_bytes :: "local_file \<Rightarrow> string" where
  "local_bytes l = (case l of LocalFile b \<Rightarrow> b | _ \<Rightarrow> [])"

definition resume_from :: "local_file \<Rightarrow> download_params \<Rightarrow> download_params" where
  "resume_from l p = (case l of LocalFile b \<Rightarrow> p\<lparr>dl_offset := int (length b)\<rparr> | _ \<Rightarrow> p)"

definition download_file ::
  "client \<Rightarrow> (string \<Rightarrow> string) \<Rightarrow> download_env \<Rightarrow> bool \<Rightarrow> bool \<Rightarrow> nat option \<Rightarrow> local_file \<Rightarrow> download_params \<Rightarrow> disambiguator
    \<Rightarrow> download_result option \<times> go_error option \<times> local_file" where
  "download_file c md5 de opens closes room l p0 d =
     (case validate_download p0 of
        Some e \<Rightarrow> (None, Some (Api e), l)
      | None \<Rightarrow>
          let p = resume_from l p0 in
          if dl_size p > 0 \<and> dl_offset p = dl_size p
          then (Some ((no_result (dl_offset p))\<lparr>dr_total := dl_size p, dr_resumed := True\<rparr>), None, l)
          else if l = LocalDir \<or> \<not> opens then (None, Some (Api (invalid_request ''cannot open'')), l)
          else case download c md5 de p \<lparr>sk_bytes = [], sk_room = room\<rparr> d of
            (res, err, dst) \<Rightarrow>
              let l' = LocalFile (write_at (local_bytes l) (nat (dl_offset p)) (sk_bytes dst))
              in case err of
                   Some e \<Rightarrow> (res, Some e, l')
                 | None \<Rightarrow> (res, if closes then None else Some (Api (invalid_request ''cannot flush'')), l'))"

section \<open>Archives\<close>

definition join_ids :: "string list \<Rightarrow> api_error + string" where
  "join_ids ids =
     (if ids = [] then Inl (invalid_request ''at least one folder id is required'')
      else if list_ex (\<lambda>i. trim_space i = []) ids then Inl (invalid_request ''a folder id must not be empty'')
      else if list_ex (\<lambda>i. CHR '','' \<in> set i) ids then Inl (invalid_request ''a folder id must not contain a comma'')
      else Inr (join_with CHR '','' ids))"

definition archive_request :: "string \<Rightarrow> request" where
  "archive_request ids =
     \<lparr>rq_method = ''POST'', rq_path = endpoint_download_all, rq_segments = [], rq_query = [],
      rq_body = JsonObject [(''folders'', ids)], rq_needs_session = False, rq_scope = [], rq_param = [],
      rq_placement = SessionInBody, rq_retryable = None\<rparr>"

definition receive_archive :: "client \<Rightarrow> (string \<Rightarrow> bool option) \<Rightarrow> evidence \<Rightarrow> stream_reply \<Rightarrow> sink \<times> int \<Rightarrow> go_error option \<times> sink \<times> int" where
  "receive_archive c dx ev rp st =
     (if is_json_content_type (ev_content_type ev) then (Some (read_instead_of_bytes c dx rp), st)
      else let n = sink_accepts (fst st) (rp_body rp) in
        (if n < length (rp_body rp) then Some (Plain ''write'') else map_option Sentinel (rp_broken rp),
         sink_write (rp_body rp) (fst st), int n))"

definition archive :: "client \<Rightarrow> download_env \<Rightarrow> string list \<Rightarrow> sink \<Rightarrow> disambiguator \<Rightarrow> int \<times> go_error option \<times> sink" where
  "archive c de folders dst d =
     (if folders = [] then (0, Some (Api (invalid_request ''an archive download needs at least one folder id'')), dst)
      else case join_ids folders of
        Inl e \<Rightarrow> (0, Some (Api e), dst)
      | Inr ids \<Rightarrow>
          case do_stream c (archive_request ids) (de_call de)
                 (\<lambda>k ev. receive_archive c (de_decode de) ev (de_reply de None k)) (dst, 0) d of
            ((err, st), _) \<Rightarrow> (snd st, err, fst st))"

section \<open>What arrives\<close>

lemma receive_state:
  "snd (receive c dx p ev rp st) = st
   \<or> (case fst (receive c dx p ev rp st) of None \<Rightarrow> True
      | Some g \<Rightarrow> kind (as_error KindNetwork op g) \<noteq> KindTokenExpired \<and> \<not> ambiguous (as_error KindNetwork op g))"
  by (auto simp: receive_def Let_def skip_error_def as_error_def blank_error_def split: option.splits)

lemma receive_commits: "commits r (\<lambda>k ev. receive c dx p ev (rp k))"
  unfolding commits_def using receive_state by blast

text \<open>One run of the callback: what it adds to the destination and to the digest.\<close>

lemma receive_writes:
  assumes "receive c dx p ev rp st = (err, st')"
  shows "\<exists>n. sk_bytes (ds_sink st') = sk_bytes (ds_sink st) @ take n (drop (to_skip p ev) (rp_body rp))"
proof (cases "is_json_content_type (ev_content_type ev) \<or> length (rp_body rp) < to_skip p ev")
  case True
  then have "ds_sink st' = ds_sink st" using assms by (auto simp: receive_def Let_def split: if_splits)
  then show ?thesis by (intro exI [of _ 0]) simp
next
  case False
  then have "ds_sink st' = sink_write (drop (to_skip p ev) (rp_body rp)) (ds_sink st)"
    using assms by (auto simp: receive_def Let_def)
  then show ?thesis by (auto simp: sink_write_def)
qed

lemma receive_success:
  assumes "receive c dx p ev rp st = (None, st')"
  shows "\<not> is_json_content_type (ev_content_type ev)"
    and "sk_bytes (ds_sink st') = sk_bytes (ds_sink st) @ drop (to_skip p ev) (rp_body rp)"
    and "ds_digest st' = ds_digest st @ rp_body rp"
    and "dr_resumed (ds_result st') \<longleftrightarrow> ev_status ev = 206"
    and "to_skip p ev \<le> length (rp_body rp)"
proof -
  show a: "\<not> is_json_content_type (ev_content_type ev)" "to_skip p ev \<le> length (rp_body rp)"
    using assms by (auto simp: receive_def skip_error_def Let_def split: if_splits)
  have n: "sink_accepts (ds_sink st) (drop (to_skip p ev) (rp_body rp)) = length (drop (to_skip p ev) (rp_body rp))"
    using assms a by (auto simp: receive_def Let_def sink_accepts_def split: if_splits option.splits)
  then show "sk_bytes (ds_sink st') = sk_bytes (ds_sink st) @ drop (to_skip p ev) (rp_body rp)"
    "ds_digest st' = ds_digest st @ rp_body rp" "dr_resumed (ds_result st') \<longleftrightarrow> ev_status ev = 206"
    using assms a by (auto simp: receive_def Let_def sink_write_def split: if_splits)
qed

text \<open>The same for the whole call.\<close>

lemma download_cases:
  assumes "download c md5 de p dst d = (res, err, dst')"
  obtains (unanswered) "dst' = dst" "err \<noteq> None"
  | (failed) k ev where "stream_answer c (download_request p) (cv_attempt (de_call de k)) = Some ev" "err \<noteq> None"
      "dst' = ds_sink (snd (receive c (de_decode de) p ev (de_reply de (range_header p) k)
                 \<lparr>ds_sink = dst, ds_digest = [], ds_result = no_result (dl_offset p)\<rparr>))"
  | (received) k ev st where "stream_answer c (download_request p) (cv_attempt (de_call de k)) = Some ev"
      "receive c (de_decode de) p ev (de_reply de (range_header p) k)
         \<lparr>ds_sink = dst, ds_digest = [], ds_result = no_result (dl_offset p)\<rparr> = (None, st)"
      "dst' = ds_sink st" "res = Some (fst (check_hash md5 p st))" "err = snd (check_hash md5 p st)"
proof -
  let ?st0 = "\<lparr>ds_sink = dst, ds_digest = [], ds_result = no_result (dl_offset p)\<rparr>"
  let ?cb = "\<lambda>k ev. receive c (de_decode de) p ev (de_reply de (range_header p) k)"
  show thesis
  proof (cases "\<exists>d1. validate_download p = None \<and>
      (if wants_probe p then download_probe c (de_policy de) (de_probe de) (de_exceeded de) (dl_file p) (dl_sharing p) d
       else (None, d)) = (None, d1)")
    case False
    then have "dst' = dst \<and> err \<noteq> None"
      using assms by (auto simp: download_def split: option.splits prod.splits)
    then show thesis using unanswered by blast
  next
    case True
    then obtain d1 where d1: "validate_download p = None"
      "(if wants_probe p then download_probe c (de_policy de) (de_probe de) (de_exceeded de) (dl_file p) (dl_sharing p) d
       else (None, d)) = (None, d1)" by blast
    obtain serr st d' where ds: "do_stream c (download_request p) (de_call de) ?cb ?st0 d1 = ((serr, st), d')" by (metis prod.collapse)
    have out: "(res, err, dst') = (case serr of Some e \<Rightarrow> (Some (ds_result st), Some e, ds_sink st)
        | None \<Rightarrow> (Some (fst (check_hash md5 p st)), snd (check_hash md5 p st), ds_sink st))"
      using assms unfolding download_def d1(1) option.case d1(2) prod.case Let_def ds
      by (cases serr) (auto split: prod.splits)
    from do_stream_cases [OF receive_commits ds] show thesis
    proof (elim disjE exE conjE)
      fix k ev
      assume a: "stream_answer c (download_request p) (cv_attempt (de_call de k)) = Some ev" "st = snd (?cb k ev ?st0)"
        "serr = None \<longrightarrow> fst (?cb k ev ?st0) = None"
      show thesis
      proof (cases serr)
        case None
        then have "?cb k ev ?st0 = (None, st)" using a by (metis prod.collapse)
        then show thesis using received [OF a(1)] out None by simp
      next
        case (Some e)
        then show thesis using failed [OF a(1)] out a(2) by simp
      qed
    next
      assume "st = ?st0" "serr \<noteq> None"
      then show thesis using unanswered out by (auto split: option.splits)
    qed
  qed
qed

section \<open>Integrity\<close>

text \<open>C25: A download from the start of a file with a known hash that reports success has written bytes with that hash, whatever
  upstream sent, and says that it verified them.\<close>
theorem verified_download_is_sound:
  assumes "download c md5 de p dst d = (res, None, dst')" "dl_offset p = 0" "dl_hash p \<noteq> []"
  shows "\<exists>x r. sk_bytes dst' = sk_bytes dst @ x \<and> equal_fold (md5 x) (dl_hash p) \<and> res = Some r \<and> dr_verified r
    \<and> dr_hash r = md5 x"
proof (cases rule: download_cases [OF assms(1), case_names unanswered failed received])
  case (received k ev st)
  note got = receive_success [OF received(2)]
  have "to_skip p ev = 0" using assms(2) by (simp add: to_skip_def)
  then show ?thesis using got received(3-5) assms(2,3)
    by (auto simp: check_hash_def Let_def split: if_splits)
qed simp_all

text \<open>Upstream serves \<open>remote\<close>: a 206 has the rest from the offset that was asked for, any other success the whole file; either may break off.\<close>

definition serves :: "client \<Rightarrow> download_env \<Rightarrow> download_params \<Rightarrow> string \<Rightarrow> bool" where
  "serves c de p remote \<longleftrightarrow>
     (\<forall>k ev. stream_answer c (download_request p) (cv_attempt (de_call de k)) = Some ev
        \<and> \<not> is_json_content_type (ev_content_type ev) \<longrightarrow>
        (let rp = de_reply de (range_header p) k; whole = (if ev_status ev = 206 then drop (nat (dl_offset p)) remote else remote)
         in prefix (rp_body rp) whole \<and> (rp_broken rp = None \<longrightarrow> rp_body rp = whole)))"

lemma received_part:
  assumes "prefix b (if ev_status ev = 206 then drop (nat (dl_offset p)) remote else remote)"
    and "0 \<le> dl_offset p" "nat (dl_offset p) \<le> length remote"
  shows "prefix (drop (to_skip p ev) b) (drop (nat (dl_offset p)) remote)"
proof (cases "ev_status ev = 206")
  case True
  then show ?thesis using assms(1) by (simp add: to_skip_def)
next
  case False
  then have "to_skip p ev = nat (dl_offset p)" using assms(2) by (auto simp: to_skip_def)
  then show ?thesis using assms(1) False by (auto simp: prefix_def)
qed

lemma download_appends:
  assumes "serves c de p remote" "0 \<le> dl_offset p" "nat (dl_offset p) \<le> length remote"
    and "download c md5 de p dst d = (res, err, dst')"
  shows "\<exists>x. sk_bytes dst' = sk_bytes dst @ x \<and> prefix x (drop (nat (dl_offset p)) remote)
    \<and> (err = None \<longrightarrow> x = drop (nat (dl_offset p)) remote)"
proof (cases rule: download_cases [OF assms(4), case_names unanswered failed received])
  case unanswered
  then show ?thesis by auto
next
  case (failed k ev)
  let ?rp = "de_reply de (range_header p) k" and ?st0 = "\<lparr>ds_sink = dst, ds_digest = [], ds_result = no_result (dl_offset p)\<rparr>"
  obtain e st1 where r: "receive c (de_decode de) p ev ?rp ?st0 = (e, st1)" by fastforce
  obtain n where n: "sk_bytes dst' = sk_bytes dst @ take n (drop (to_skip p ev) (rp_body ?rp))"
    using receive_writes [OF r] failed(3) by (auto simp: r)
  show ?thesis
  proof (cases "is_json_content_type (ev_content_type ev)")
    case True
    then show ?thesis using failed by (auto simp: receive_def)
  next
    case False
    then have "prefix (drop (to_skip p ev) (rp_body ?rp)) (drop (nat (dl_offset p)) remote)"
      using assms(1-3) failed(1) by (intro received_part) (auto simp: serves_def Let_def)
    then show ?thesis using n failed(2) by (auto intro: prefix_order.trans [OF take_is_prefix])
  qed
next
  case (received k ev st)
  let ?rp = "de_reply de (range_header p) k"
  note got = receive_success [OF received(2)]
  have whole: "prefix (rp_body ?rp) (if ev_status ev = 206 then drop (nat (dl_offset p)) remote else remote)"
    "rp_broken ?rp = None \<Longrightarrow> rp_body ?rp = (if ev_status ev = 206 then drop (nat (dl_offset p)) remote else remote)"
    using assms(1) received(1) got(1) by (auto simp: serves_def Let_def)
  have "rp_broken ?rp = None" using received(2) got(1,5)
    by (auto simp: receive_def Let_def split: if_splits)
  then have "drop (to_skip p ev) (rp_body ?rp) = drop (nat (dl_offset p)) remote"
    using whole(2) assms(2) by (auto simp: to_skip_def)
  then show ?thesis using got(2) received(3) by auto
qed

lemma write_at_end: "write_at old (length old) xs = old @ xs"
  by (simp add: write_at_def)

lemma download_file_step:
  assumes serves: "\<And>off. serves c de (p\<lparr>dl_offset := off\<rparr>) remote"
    and p: "dl_offset p = 0" "dl_size p \<in> {0, int (length remote)}" and old: "prefix (local_bytes l) remote"
    and run: "download_file c md5 de opens closes room l p d = (res, err, l')"
  shows "prefix (local_bytes l) (local_bytes l') \<and> prefix (local_bytes l') remote \<and> (err = None \<longrightarrow> local_bytes l' = remote)"
proof -
  let ?p = "resume_from l p"
  have off: "dl_offset ?p = int (length (local_bytes l))" using p(1) by (cases l) (simp_all add: resume_from_def local_bytes_def)
  have same: "p\<lparr>dl_offset := 0\<rparr> = p" using p(1) by (cases p) simp
  have sv: "serves c de ?p remote"
    using serves [of "dl_offset ?p"] p(1) same by (cases l) (simp_all add: resume_from_def)
  have len: "length (local_bytes l) \<le> length remote" using old by (rule prefix_length_le)
  consider (invalid) "validate_download p \<noteq> None" | (complete) "validate_download p = None" "dl_size ?p > 0 \<and> dl_offset ?p = dl_size ?p"
    | (unopened) "validate_download p = None" "\<not> (dl_size ?p > 0 \<and> dl_offset ?p = dl_size ?p)" "l = LocalDir \<or> \<not> opens"
    | (opened) "validate_download p = None" "\<not> (dl_size ?p > 0 \<and> dl_offset ?p = dl_size ?p)" "\<not> (l = LocalDir \<or> \<not> opens)"
    by blast
  then show ?thesis
  proof cases
    case invalid
    then show ?thesis using run old by (auto simp: download_file_def)
  next
    case complete
    have "dl_size ?p = dl_size p" by (cases l) (simp_all add: resume_from_def)
    then have "length (local_bytes l) = length remote" using complete(2) off p(2) by auto
    then have "local_bytes l = remote" using old by (auto simp: prefix_def)
    then show ?thesis using run complete by (auto simp: download_file_def Let_def)
  next
    case unopened
    then show ?thesis using run old by (auto simp: download_file_def Let_def)
  next
    case opened
    obtain r e dst where d: "download c md5 de ?p \<lparr>sk_bytes = [], sk_room = room\<rparr> d = (r, e, dst)" by (metis prod_cases3)
    have "0 \<le> dl_offset ?p" "nat (dl_offset ?p) \<le> length remote" using off len by simp_all
    from download_appends [OF sv this d] obtain x where x: "sk_bytes dst = x"
      "prefix x (drop (length (local_bytes l)) remote)" "e = None \<longrightarrow> x = drop (length (local_bytes l)) remote"
      using off by auto
    have l': "l' = LocalFile (local_bytes l @ x)" "err = None \<longrightarrow> e = None"
      using run opened d x(1) off write_at_end by (auto simp: download_file_def Let_def split: option.splits if_splits)
    obtain rest where "remote = local_bytes l @ rest" using old by (auto simp: prefix_def)
    then show ?thesis using l' x by (auto simp: local_bytes_def)
  qed
qed

text \<open>Calls of \<open>DownloadFile\<close> for one path, one after the other, each with its own weather.\<close>

record download_attempt =
  at_env :: download_env
  at_opens :: bool
  at_closes :: bool
  at_room :: "nat option"
  at_amb :: disambiguator

primrec download_attempts ::
  "client \<Rightarrow> (string \<Rightarrow> string) \<Rightarrow> download_params \<Rightarrow> download_attempt list \<Rightarrow> local_file \<Rightarrow> go_error option list \<times> local_file" where
  "download_attempts c md5 p [] l = ([], l)"
| "download_attempts c md5 p (a # as) l =
     (case download_file c md5 (at_env a) (at_opens a) (at_closes a) (at_room a) l p (at_amb a) of
        (_, err, l1) \<Rightarrow> case download_attempts c md5 p as l1 of (errs, l2) \<Rightarrow> (err # errs, l2))"

text \<open>C24: Interrupted downloads converge: on a path with nothing or a beginning of the file, any number of attempts, each cut off
  anywhere by the network, by upstream ignoring the range, or by a full disk, leaves a beginning of the file that
  is never shorter than before; once one attempt reported success the whole file is there, and stays.\<close>
theorem resumed_downloads_converge:
  assumes "\<And>a off. a \<in> set as \<Longrightarrow> serves c (at_env a) (p\<lparr>dl_offset := off\<rparr>) remote"
    and "dl_offset p = 0" "dl_size p \<in> {0, int (length remote)}" "prefix (local_bytes l) remote"
    and "download_attempts c md5 p as l = (errs, l')"
  shows "prefix (local_bytes l) (local_bytes l') \<and> prefix (local_bytes l') remote
    \<and> (None \<in> set errs \<longrightarrow> local_bytes l' = remote)"
  using assms(1,4,5)
proof (induction as arbitrary: l errs)
  case Nil
  then show ?case by auto
next
  case (Cons a as)
  obtain r err l1 where d: "download_file c md5 (at_env a) (at_opens a) (at_closes a) (at_room a) l p (at_amb a) = (r, err, l1)"
    by (metis prod_cases3)
  obtain errs1 where as: "download_attempts c md5 p as l1 = (errs1, l')" "errs = err # errs1"
    using Cons.prems(3) d by (auto split: prod.splits)
  have step: "prefix (local_bytes l) (local_bytes l1) \<and> prefix (local_bytes l1) remote \<and> (err = None \<longrightarrow> local_bytes l1 = remote)"
    by (rule download_file_step [OF Cons.prems(1) assms(2,3) Cons.prems(2) d]) simp
  have ih: "prefix (local_bytes l1) (local_bytes l') \<and> prefix (local_bytes l') remote \<and> (None \<in> set errs1 \<longrightarrow> local_bytes l' = remote)"
    by (rule Cons.IH [OF _ _ as(1)]) (use Cons.prems(1) step in auto)
  show ?case using step ih as(2) by (auto intro: prefix_order.trans prefix_order.antisym)
qed

section \<open>Verified, and wrong\<close>

lemma stream_answered:
  assumes "stream_answer c r (cv_attempt (env 0)) = Some ev" "cb 0 ev st = (None, st')"
  shows "\<exists>d'. do_stream c r env cb st d = ((None, st'), d')"
  using assms
  by (simp add: do_stream_def Let_def stream_loop.simps [of c r _ env 0] callback_def stream_attempt_answer)

text \<open>When upstream ignores the range, the hash that is compared is that of the bytes upstream sent and not of the file: a
  resume over a file with other bytes in front, say of an older version, reports success with \<open>HashVerified\<close> set and
  leaves those bytes in front of the rest of the new ones.\<close>
theorem verified_over_stale_bytes:
  assumes "stream_answer c (download_request p) (cv_attempt (de_call de 0)) = Some ev"
    and "ev_status ev \<noteq> 206" "\<not> is_json_content_type (ev_content_type ev)"
    and "rp_body (de_reply de (range_header (p\<lparr>dl_offset := int (length old)\<rparr>)) 0) = remote"
    and "rp_broken (de_reply de (range_header (p\<lparr>dl_offset := int (length old)\<rparr>)) 0) = None"
    and "old \<noteq> []" "length old \<le> length remote" "dl_size p \<noteq> int (length old)"
    and "validate_download p = None" "\<not> wants_probe p" "dl_hash p \<noteq> []" "equal_fold (md5 remote) (dl_hash p)"
  shows "\<exists>r. download_file c md5 de True True None (LocalFile old) p d
      = (Some r, None, LocalFile (old @ drop (length old) remote)) \<and> dr_verified r"
proof -
  let ?p = "p\<lparr>dl_offset := int (length old)\<rparr>"
  let ?rp = "de_reply de (range_header ?p) 0"
  let ?st0 = "\<lparr>ds_sink = \<lparr>sk_bytes = [], sk_room = None\<rparr>, ds_digest = [], ds_result = no_result (int (length old))\<rparr>"
  have valid: "validate_download ?p = None" "\<not> wants_probe ?p" "download_request ?p = download_request p"
    using assms(9,10) by (auto simp: validate_download_def wants_probe_def download_request_def split: if_splits option.splits)
  have skip: "to_skip ?p ev = length old" using assms(2,6) by (simp add: to_skip_def)
  obtain st where st: "receive c (de_decode de) ?p ev ?rp ?st0 = (None, st)" "\<not> dr_resumed (ds_result st)"
      "sk_bytes (ds_sink st) = drop (length old) remote" "ds_digest st = remote"
  proof (rule that)
    show "receive c (de_decode de) ?p ev ?rp ?st0 = (None, snd (receive c (de_decode de) ?p ev ?rp ?st0))"
      "\<not> dr_resumed (ds_result (snd (receive c (de_decode de) ?p ev ?rp ?st0)))"
      "sk_bytes (ds_sink (snd (receive c (de_decode de) ?p ev ?rp ?st0))) = drop (length old) remote"
      "ds_digest (snd (receive c (de_decode de) ?p ev ?rp ?st0)) = remote"
      using assms(2-7) skip by (simp_all add: receive_def Let_def sink_accepts_def sink_write_def)
  qed
  obtain d' where ds: "do_stream c (download_request ?p) (de_call de) (\<lambda>k ev. receive c (de_decode de) ?p ev (de_reply de (range_header ?p) k)) ?st0 d
      = ((None, st), d')"
    using stream_answered [where env = "de_call de" and cb = "\<lambda>k ev. receive c (de_decode de) ?p ev (de_reply de (range_header ?p) k)",
        OF assms(1) st(1)] valid(3) by auto
  have dl: "download c md5 de ?p \<lparr>sk_bytes = [], sk_room = None\<rparr> d
      = (Some (fst (check_hash md5 ?p st)), snd (check_hash md5 ?p st), ds_sink st)"
    using ds valid by (simp add: download_def Let_def split: prod.splits)
  have "check_hash md5 ?p st = ((ds_result st)\<lparr>dr_hash := md5 remote, dr_verified := True\<rparr>, None)"
    using st assms(11,12) by (simp add: check_hash_def Let_def)
  then show ?thesis
    using dl assms(8,9) st(3) write_at_end [of old]
    by (simp add: download_file_def resume_from_def local_bytes_def Let_def)
qed

section \<open>Examples\<close>

definition served :: "string \<Rightarrow> sentinel option \<Rightarrow> download_env" where
  "served body broken =
     \<lparr>de_policy = default_retry_policy, de_probe = (\<lambda>k. throttled_env 2), de_exceeded = False,
      de_call = (\<lambda>k. throttled_env 2),
      de_reply = (\<lambda>_ _. \<lparr>rp_range = [], rp_length = -1, rp_name = [], rp_body = body, rp_broken = broken\<rparr>),
      de_decode = (\<lambda>_. None)\<rparr>"

definition some_hash :: string where
  "some_hash = replicate 32 CHR ''0''"

definition some_file :: download_params where
  "some_file = \<lparr>dl_file = ''f'', dl_offset = 0, dl_size = 0, dl_hash = some_hash, dl_sharing = [], dl_inline = False,
     dl_probe = None\<rparr>"

lemma served_answer:
  "stream_answer plain_client (download_request p) (cv_attempt (de_call (served b x) k)) = Some (throttled\<lparr>ev_status := 200\<rparr>)"
  by (simp add: stream_answer_def credentials_for_def plain_client_def build_url_def download_request_def effective_placement_def
      no_credentials_def served_def throttled_env_def throttled_def Let_def)

lemma not_json: "\<not> is_json_content_type []"
  by code_simp

theorem verified_over_stale_bytes_witness:
  "\<exists>r. download_file plain_client (\<lambda>_. some_hash) (served ''hello world'' None) True True None (LocalFile ''HELLO'') some_file (new_disambiguator False 0)
     = (Some r, None, LocalFile ''HELLO world'') \<and> dr_verified r"
proof -
  have "validate_download some_file = None" "\<not> wants_probe some_file"
    by (simp_all add: validate_download_def some_file_def some_hash_def wants_probe_def probe_threshold_def)
  from verified_over_stale_bytes [OF served_answer [where b = "''hello world''" and x = None and k = 0 and p = some_file] _ _ refl _ _ _ _ this, of "''HELLO''" "\<lambda>_. some_hash" "new_disambiguator False 0"]
  show ?thesis
    by (simp add: served_def throttled_def not_json some_file_def some_hash_def)
qed

lemma served_serves:
  assumes "prefix b ''hello world''" "x = None \<Longrightarrow> b = ''hello world''"
  shows "serves plain_client (served b x) p ''hello world''"
  using assms unfolding serves_def served_answer by (auto simp: served_def throttled_def Let_def)

definition cut_off :: download_attempt where
  "cut_off = \<lparr>at_env = served ''hello w'' (Some OtherCause), at_opens = True, at_closes = True, at_room = None,
     at_amb = new_disambiguator False 0\<rparr>"

definition all_right :: download_attempt where
  "all_right = cut_off\<lparr>at_env := served ''hello world'' None\<rparr>"

lemma two_attempts:
  "map (\<lambda>e. e = None) (fst (download_attempts plain_client (\<lambda>_. some_hash) some_file [cut_off, all_right] LocalAbsent)) = [False, True]"
  by code_simp

theorem resumed_downloads_converge_witness:
  "local_bytes (snd (download_attempts plain_client (\<lambda>_. some_hash) some_file [cut_off, all_right] LocalAbsent)) = ''hello world''"
proof -
  obtain errs l' where r: "download_attempts plain_client (\<lambda>_. some_hash) some_file [cut_off, all_right] LocalAbsent = (errs, l')"
    by fastforce
  have "serves plain_client (at_env a) (some_file\<lparr>dl_offset := off\<rparr>) ''hello world''" if "a \<in> set [cut_off, all_right]" for a off
    using that served_serves [of "''hello w''" "Some OtherCause"] served_serves [of "''hello world''"] by (auto simp: cut_off_def all_right_def)
  moreover have "None \<in> set errs" using two_attempts r by auto
  moreover have "dl_offset some_file = 0" "dl_size some_file \<in> {0, int (length ''hello world'')}"
    "prefix (local_bytes LocalAbsent) ''hello world''" by (simp_all add: some_file_def local_bytes_def)
  ultimately have "local_bytes l' = ''hello world''"
    using resumed_downloads_converge [OF _ _ _ _ r] by blast
  then show ?thesis using r by simp
qed

definition fresh_download :: "download_result option \<times> go_error option \<times> sink" where
  "fresh_download = download plain_client (\<lambda>_. some_hash) (served ''hi'' None) some_file \<lparr>sk_bytes = ''>'', sk_room = None\<rparr>
     (new_disambiguator False 0)"

lemma fresh_download_ok: "fst (snd fresh_download) = None" "sk_bytes (snd (snd fresh_download)) = ''>hi''"
  by code_simp+

theorem verified_download_is_sound_witness:
  "\<exists>x r. sk_bytes (snd (snd fresh_download)) = ''>'' @ x \<and> equal_fold ((\<lambda>_. some_hash) x) some_hash
    \<and> fst fresh_download = Some r \<and> dr_verified r"
proof -
  have "download plain_client (\<lambda>_. some_hash) (served ''hi'' None) some_file \<lparr>sk_bytes = ''>'', sk_room = None\<rparr>
      (new_disambiguator False 0) = (fst fresh_download, None, snd (snd fresh_download))"
    using fresh_download_ok(1) by (metis fresh_download_def prod.collapse)
  from verified_download_is_sound [OF this] show ?thesis by (auto simp: some_file_def some_hash_def)
qed

end
