(* ===== verification/Folders.thy ===== *)
theory Folders
  imports Resolver Download
begin

text \<open>
  The folder operations of \<open>pkg/opendrive/folder.go\<close>: what each checks, the request it sends, and what a success makes the path
  cache forget; listing page by page. A call is sent by \<open>do_request\<close> of \<open>Client\<close>. The answers that a call decodes into a struct and hands on
  are not represented; the members of a body are given by their text, whether JSON quotes it or not.
\<close>

section \<open>Calls\<close>

record call =
  ca_request :: request
  ca_forgets :: "string list"
  ca_resets :: bool

definition get_in_path :: "string \<Rightarrow> string \<Rightarrow> string list \<Rightarrow> (string \<times> string) list \<Rightarrow> request" where
  "get_in_path m path segs q =
     \<lparr>rq_method = m, rq_path = path, rq_segments = segs, rq_query = q, rq_body = NoBody, rq_needs_session = False,
      rq_scope = [], rq_param = [], rq_placement = SessionInPath, rq_retryable = None\<rparr>"

definition send_body :: "string \<Rightarrow> string \<Rightarrow> (string \<times> string) list \<Rightarrow> request" where
  "send_body m path body =
     \<lparr>rq_method = m, rq_path = path, rq_segments = [], rq_query = [], rq_body = JsonObject body, rq_needs_session = False,
      rq_scope = [], rq_param = [], rq_placement = SessionInBody, rq_retryable = None\<rparr>"

definition just :: "request \<Rightarrow> call" where
  "just r = \<lparr>ca_request = r, ca_forgets = [], ca_resets = False\<rparr>"

definition forgetting :: "string list \<Rightarrow> request \<Rightarrow> call" where
  "forgetting ids r = \<lparr>ca_request = r, ca_forgets = ids, ca_resets = False\<rparr>"

text \<open>\<open>FolderService.invalidate\<close>.\<close>

definition invalidate_ids :: "'c index_ops \<Rightarrow> string list \<Rightarrow> 'c \<Rightarrow> 'c" where
  "invalidate_ids ix ids c = fold (\<lambda>i c. if i \<noteq> [] then ix_invalidate ix i c else c) ids c"

definition run_call ::
  "client \<Rightarrow> retry_policy \<Rightarrow> (nat \<Rightarrow> call_env) \<Rightarrow> disambiguator \<Rightarrow> 'c index_ops \<Rightarrow> api_error + call \<Rightarrow> 'c
    \<Rightarrow> go_error option \<times> 'c" where
  "run_call c pol env d ix op cache =
     (case op of
        Inl e \<Rightarrow> (Some (Api e), cache)
      | Inr cl \<Rightarrow>
          case do_request c pol (ca_request cl) True env d of
            (Some e, _) \<Rightarrow> (Some e, cache)
          | (None, _) \<Rightarrow>
              (None, invalidate_ids ix (ca_forgets cl) (if ca_resets cl then ix_reset ix cache else cache)))"

definition optional :: "string \<Rightarrow> string \<Rightarrow> (string \<times> string) list" where
  "optional k v = (if v \<noteq> [] then [(k, v)] else [])"

definition or_root :: "string \<Rightarrow> string" where
  "or_root i = (if i = [] then root_folder_id else i)"

definition bool_int :: "bool \<Rightarrow> string" where
  "bool_int b = (if b then ''1'' else ''0'')"

definition bool_text :: "bool \<Rightarrow> string" where
  "bool_text b = (if b then ''true'' else ''false'')"

datatype folder_access = FolderPrivate | FolderPublic | FolderHidden

fun access_code :: "folder_access \<Rightarrow> string" where
  "access_code FolderPrivate = ''0''"
| "access_code FolderPublic = ''1''"
| "access_code FolderHidden = ''2''"

section \<open>Listing\<close>

definition max_list_page_size :: int where
  "max_list_page_size = 100"

record pagination =
  pn_offset :: int
  pn_limit :: int
  pn_last :: int
  pn_first :: bool

definition clamp_limit :: "int \<Rightarrow> int" where
  "clamp_limit n = (if n \<le> 0 \<or> n > max_list_page_size then max_list_page_size else n)"

definition first_page :: "int \<Rightarrow> pagination" where
  "first_page limit = \<lparr>pn_offset = 0, pn_limit = clamp_limit limit, pn_last = 0, pn_first = True\<rparr>"

definition page_after :: "int \<Rightarrow> pagination \<Rightarrow> pagination" where
  "page_after dir_time p =
     \<lparr>pn_offset = pn_offset p + clamp_limit (pn_limit p), pn_limit = clamp_limit (pn_limit p), pn_last = dir_time, pn_first = False\<rparr>"

definition validate_page :: "pagination \<Rightarrow> api_error option" where
  "validate_page p =
     (if pn_offset p < 0 then Some (invalid_request ''pagination offset must not be negative'')
      else if pn_limit p < 0 then Some (invalid_request ''pagination limit must not be negative'')
      else if pn_offset p > 0 \<and> pn_last p = 0 \<and> \<not> pn_first p
      then Some (invalid_request ''pagination past the first page requires last_request_time'')
      else None)"

record list_options =
  lo_page :: pagination
  lo_search :: string
  lo_sharing :: string
  lo_subfolders :: bool
  lo_breadcrumbs :: bool
  lo_encryption :: bool
  lo_order_by :: string
  lo_order_type :: string

definition page_query :: "pagination \<Rightarrow> (string \<times> string) list" where
  "page_query p =
     (if pn_offset p > 0 \<or> pn_last p > 0
      then [(''offset'', show_int (pn_offset p)), (''last_request_time'', show_int (pn_last p))] else [])"

definition list_query :: "list_options \<Rightarrow> api_error + (string \<times> string) list" where
  "list_query opts =
     (case validate_page (lo_page opts) of
        Some e \<Rightarrow> Inl e
      | None \<Rightarrow> Inr (page_query (lo_page opts) @ optional ''search_query'' (lo_search opts) @ optional ''sharing_id'' (lo_sharing opts)
          @ (if lo_subfolders opts then [(''only_subfolders'', ''true'')] else [])
          @ (if lo_breadcrumbs opts then [(''with_breadcrumbs'', ''true'')] else [])
          @ (if lo_encryption opts then [(''encryption_supported'', ''1'')] else [])
          @ optional ''order_by'' (lo_order_by opts) @ optional ''order_type'' (lo_order_type opts)))"

definition list_folder :: "string \<Rightarrow> list_options \<Rightarrow> api_error + call" where
  "list_folder fid opts = map_sum id (\<lambda>q. just (get_in_path ''GET'' ''/folder/list.json'' [or_root fid] q)) (list_query opts)"

definition shared_listing :: "string \<Rightarrow> list_options \<Rightarrow> api_error + call" where
  "shared_listing fid opts =
     map_sum id (\<lambda>q. just ((get_in_path ''GET'' ''/folder/shared.json'' [fid]
         (filter (\<lambda>(k, _). k \<notin> {''search_query'', ''sharing_id'', ''only_subfolders'', ''encryption_supported''}) q))
         \<lparr>rq_placement := SessionOmit\<rparr>)) (list_query opts)"

text \<open>A page: the names in it and its \<open>DirUpdateTime\<close>. The pager; \<open>send\<close> is what becomes of a listing request.\<close>

record pager =
  pg_folder :: string
  pg_opts :: list_options
  pg_done :: bool

definition pages :: "string \<Rightarrow> list_options \<Rightarrow> pager" where
  "pages fid opts = \<lparr>pg_folder = or_root fid, pg_opts = opts\<lparr>lo_page := first_page (pn_limit (lo_page opts))\<rparr>, pg_done = False\<rparr>"

definition next_page :: "(request \<Rightarrow> go_error + string list \<times> int) \<Rightarrow> pager \<Rightarrow> (go_error + string list option) \<times> pager" where
  "next_page send p =
     (if pg_done p then (Inr None, p)
      else case list_folder (pg_folder p) (pg_opts p) of
        Inl e \<Rightarrow> (Inl (Api e), p)
      | Inr cl \<Rightarrow>
          case send (ca_request cl) of
            Inl e \<Rightarrow> (Inl e, p)
          | Inr (names, dir_time) \<Rightarrow>
              if int (length names) < clamp_limit (pn_limit (lo_page (pg_opts p))) then (Inr (Some names), p\<lparr>pg_done := True\<rparr>)
              else (Inr (Some names), p\<lparr>pg_opts := (pg_opts p)\<lparr>lo_page := page_after dir_time (lo_page (pg_opts p))\<rparr>\<rparr>))"

text \<open>The loop of the caller, at most \<open>n\<close> pages: the names it saw, and whether it came to the end.\<close>

fun read_pages :: "nat \<Rightarrow> (request \<Rightarrow> go_error + string list \<times> int) \<Rightarrow> pager \<Rightarrow> string list \<times> bool" where
  "read_pages 0 send p = ([], False)"
| "read_pages (Suc n) send p =
     (case next_page send p of
        (Inl _, _) \<Rightarrow> ([], False)
      | (Inr None, _) \<Rightarrow> ([], True)
      | (Inr (Some names), p1) \<Rightarrow> (case read_pages n send p1 of (rest, end) \<Rightarrow> (names @ rest, end)))"

section \<open>Asking\<close>

definition folder_info :: "string \<Rightarrow> string \<Rightarrow> api_error + call" where
  "folder_info fid sharing = Inr (just (get_in_path ''GET'' ''/folder/info.json'' [or_root fid] (optional ''sharing_id'' sharing)))"

definition item_by_name :: "string \<Rightarrow> string \<Rightarrow> (string \<times> string) list \<Rightarrow> api_error + call" where
  "item_by_name parent name opts =
     (if name = [] then Inl (invalid_request ''itembyname needs a name'')
      else Inr (just (get_in_path ''GET'' ''/folder/itembyname.json'' [or_root parent] ((''name'', name) # opts))))"

text \<open>An answer with nothing in it is \<open>not found\<close>.\<close>

definition item_by_name_answer :: "nat \<Rightarrow> nat \<Rightarrow> go_error option" where
  "item_by_name_answer folders files =
     (if folders = 0 \<and> files = 0 then Some (Api ((blank_error KindNotFound)\<lparr>err_op := ''GET /folder/itembyname.json''\<rparr>)) else None)"

definition breadcrumb :: "string \<Rightarrow> bool \<Rightarrow> api_error + call" where
  "breadcrumb fid subs =
     Inr (just (get_in_path ''GET'' ''/folder/breadcrumb.json'' [or_root fid] (if subs then [(''with_subfolders'', ''true'')] else [])))"

definition folder_path :: "string \<Rightarrow> api_error + call" where
  "folder_path fid = Inr (just (get_in_path ''GET'' ''/folder/path.json'' [fid] []))"

definition folder_full_path :: "string \<Rightarrow> api_error + call" where
  "folder_full_path fid = Inr (just (get_in_path ''GET'' ''/folder/folderfullpath.json'' [fid] []))"

definition user_access_mode :: "string \<Rightarrow> string \<Rightarrow> api_error + call" where
  "user_access_mode fid sharing =
     Inr (just (get_in_path ''GET'' ''/folder/useraccessmode.json'' [or_root fid] (optional ''sharing_id'' sharing)))"

definition shared_info :: "string \<Rightarrow> api_error + call" where
  "shared_info fid = Inr (just ((get_in_path ''GET'' ''/folder/sharedinfo.json'' [fid] [])\<lparr>rq_placement := SessionOmit\<rparr>))"

definition export_csv :: "string \<Rightarrow> string \<Rightarrow> api_error + call" where
  "export_csv fid sharing =
     Inr (just (get_in_path ''GET'' ''/folder/exportcsv.json'' [or_root fid] (optional ''sharing_id'' sharing)))"

definition trash_list :: "pagination \<Rightarrow> string \<Rightarrow> bool \<Rightarrow> string \<Rightarrow> string \<Rightarrow> api_error + call" where
  "trash_list p search count by_name order =
     (case validate_page p of
        Some e \<Rightarrow> Inl e
      | None \<Rightarrow> Inr (just (get_in_path ''GET'' ''/folder/trashlist.json'' []
          (page_query p @ optional ''search_query'' search @ (if count then [(''count_only'', ''1'')] else [])
           @ optional ''order_by'' by_name @ optional ''order_type'' order))))"

section \<open>Writing\<close>

record create_params =
  cf_name :: string
  cf_parent :: string
  cf_access :: folder_access
  cf_upload :: bool
  cf_display :: bool
  cf_download :: bool
  cf_subfolders :: bool
  cf_description :: string
  cf_sharing :: string

definition create_folder_call :: "create_params \<Rightarrow> api_error + call" where
  "create_folder_call p =
     (case validate_name (cf_name p) of
        Some e \<Rightarrow> Inl e
      | None \<Rightarrow>
          let parent = or_root (cf_parent p) in
          Inr (forgetting [parent]
            ((send_body ''POST'' ''/folder.json''
               ([(''folder_name'', cf_name p), (''folder_sub_parent'', parent), (''folder_is_public'', access_code (cf_access p)),
                 (''folder_public_upl'', bool_int (cf_upload p)), (''folder_public_display'', bool_int (cf_display p)),
                 (''folder_public_dnl'', bool_int (cf_download p)), (''folder_display_subfolders'', bool_int (cf_subfolders p))]
                @ optional ''folder_description'' (cf_description p) @ optional ''sharing_id'' (cf_sharing p)))
             \<lparr>rq_scope := parent\<rparr>)))"

definition rename_folder :: "string \<Rightarrow> string \<Rightarrow> string \<Rightarrow> api_error + call" where
  "rename_folder fid name sharing =
     (case validate_name name of
        Some e \<Rightarrow> Inl e
      | None \<Rightarrow> Inr (forgetting [fid] (send_body ''POST'' ''/folder/rename.json''
          ([(''folder_id'', fid), (''folder_name'', name)] @ optional ''sharing_id'' sharing))))"

record move_params =
  mv_folder :: string
  mv_target :: string
  mv_move :: bool
  mv_recursive :: bool
  mv_name :: string
  mv_src_sharing :: string
  mv_dst_sharing :: string

definition move_copy_folder :: "move_params \<Rightarrow> api_error + call" where
  "move_copy_folder p =
     (if mv_folder p = [] \<or> mv_target p = []
      then Inl (invalid_request ''move_copy needs both a source and a destination folder id'')
      else case (if mv_name p \<noteq> [] then validate_name (mv_name p) else None) of
        Some e \<Rightarrow> Inl e
      | None \<Rightarrow> Inr (forgetting [mv_folder p, mv_target p] (send_body ''POST'' ''/folder/move_copy.json''
          ([(''folder_id'', mv_folder p), (''dst_folder_id'', mv_target p), (''move'', bool_text (mv_move p)),
            (''copy_recursive'', bool_text (mv_recursive p))]
           @ optional ''new_folder_name'' (mv_name p) @ optional ''src_sharing_id'' (mv_src_sharing p)
           @ optional ''dst_sharing_id'' (mv_dst_sharing p)))))"

definition on_folders :: "string \<Rightarrow> string list \<Rightarrow> string \<Rightarrow> api_error + call" where
  "on_folders path ids sharing =
     (case join_ids ids of
        Inl e \<Rightarrow> Inl e
      | Inr ids_text \<Rightarrow> Inr (forgetting ids (send_body ''POST'' path ((''folder_id'', ids_text) # optional ''sharing_id'' sharing))))"

definition trash_folders :: "string list \<Rightarrow> string \<Rightarrow> api_error + call" where
  "trash_folders ids sharing = on_folders ''/folder/trash.json'' ids sharing"

definition restore_folders :: "string list \<Rightarrow> api_error + call" where
  "restore_folders ids = on_folders ''/folder/restore.json'' ids []"

definition remove_folders :: "string list \<Rightarrow> string \<Rightarrow> api_error + call" where
  "remove_folders ids sharing = on_folders ''/folder/remove.json'' ids sharing"

definition empty_trash :: "api_error + call" where
  "empty_trash = Inr ((just (get_in_path ''DELETE'' ''/folder/trash.json'' [] []))\<lparr>ca_resets := True\<rparr>)"

definition set_folder_access :: "string \<Rightarrow> folder_access \<Rightarrow> bool \<Rightarrow> string \<Rightarrow> api_error + call" where
  "set_folder_access fid access with_files sharing =
     Inr (forgetting [fid] (send_body ''POST'' ''/folder/setaccess.json''
       ([(''folder_id'', fid), (''folder_is_public'', access_code access), (''with_child_files'', bool_text with_files)]
        @ optional ''sharing_id'' sharing)))"

record folder_settings =
  fs_name :: string
  fs_description :: string
  fs_access :: "folder_access option"
  fs_upload :: "bool option"
  fs_display :: "bool option"
  fs_download :: "bool option"
  fs_subfolders :: "bool option"
  fs_sharing :: string

definition optional_bool :: "string \<Rightarrow> bool option \<Rightarrow> (string \<times> string) list" where
  "optional_bool k v = (case v of Some b \<Rightarrow> [(k, bool_int b)] | None \<Rightarrow> [])"

definition update_folder_settings :: "string \<Rightarrow> folder_settings \<Rightarrow> api_error + call" where
  "update_folder_settings fid s =
     (if fid = [] then Inl (invalid_request ''foldersettings needs a folder id'')
      else case (if fs_name s \<noteq> [] then validate_name (fs_name s) else None) of
        Some e \<Rightarrow> Inl e
      | None \<Rightarrow> Inr (forgetting [fid] (send_body ''PUT'' ''/folder/foldersettings.json''
          ([(''folder_id'', fid)] @ optional ''folder_name'' (fs_name s) @ optional ''folder_description'' (fs_description s)
           @ (case fs_access s of Some a \<Rightarrow> [(''folder_access'', access_code a)] | None \<Rightarrow> [])
           @ optional_bool ''folder_public_upl'' (fs_upload s) @ optional_bool ''folder_public_display'' (fs_display s)
           @ optional_bool ''folder_public_dnl'' (fs_download s) @ optional_bool ''folder_display_subfolders'' (fs_subfolders s)
           @ optional ''sharing_id'' (fs_sharing s)))))"

text \<open>Lists of ids and addresses go as JSON arrays here; \<open>array\<close> is the text of one.\<close>

definition send_folders_by_email ::
  "(string list \<Rightarrow> string) \<Rightarrow> string list \<Rightarrow> string list \<Rightarrow> string \<Rightarrow> string \<Rightarrow> bool \<Rightarrow> string \<Rightarrow> api_error + call" where
  "send_folders_by_email array ids recipients subject body expiring captcha =
     (if ids = [] then Inl (invalid_request ''sendbyemail needs at least one folder id'')
      else if recipients = [] then Inl (invalid_request ''sendbyemail needs at least one recipient'')
      else Inr (just (send_body ''POST'' ''/folder/sendbyemail.json''
        ([(''folder_id'', array ids), (''recipient_emails'', array recipients), (''send_expiring_enabled'', bool_text expiring)]
         @ optional ''message_subject'' subject @ optional ''message_body'' body @ optional ''captcha_response'' captcha))))"

definition folder_expiring_link :: "string \<Rightarrow> string \<Rightarrow> int \<Rightarrow> bool \<Rightarrow> api_error + call" where
  "folder_expiring_link fid date counter enable =
     (if fid = [] \<or> date = [] then Inl (invalid_request ''an expiring link needs a folder id and a date'')
      else Inr (just (get_in_path ''GET'' ''/folder/expiringlink.json'' [date, show_int counter, fid, bool_text enable] [])))"

definition folder_expiring_links :: "string \<Rightarrow> api_error + call" where
  "folder_expiring_links fid =
     (if fid = [] then Inl (invalid_request ''folder expiring links needs a folder id'')
      else Inr (just (get_in_path ''GET'' ''/folder/folderexpiringlinks.json'' [fid] [])))"

section \<open>Ids in one string\<close>

lemma join_ids_ok:
  assumes "join_ids ids = Inr s"
  shows "split_on CHR '','' s = ids \<and> ids \<noteq> [] \<and> list_all (\<lambda>i. trim_space i \<noteq> [] \<and> CHR '','' \<notin> set i) ids"
proof -
  have "ids \<noteq> []" "list_all (\<lambda>i. trim_space i \<noteq> [] \<and> CHR '','' \<notin> set i) ids" "s = join_with CHR '','' ids"
    using assms by (auto simp: join_ids_def list_ex_iff list_all_iff split: if_splits)
  then show ?thesis by (auto simp: list_all_iff intro!: split_join)
qed

section \<open>What a write makes the cache forget\<close>

lemma drops_trans:
  assumes "drops a True p" "drops p True q" "a \<noteq> []"
  shows "drops a True q"
proof -
  consider "p = a" | "q = p" | "q = a" | "p \<noteq> a" "q \<noteq> p" "q \<noteq> a" by blast
  then show ?thesis
  proof cases
    case 4
    then have p: "has_prefix p (subtree_prefix a)" and q: "has_prefix q (subtree_prefix p)"
      using assms(1,2) by (simp_all add: drops_def)
    have "prefix p (subtree_prefix p)" by (simp add: subtree_prefix_def)
    then have "has_prefix q (subtree_prefix a)" using p q by (meson prefix_order.trans)
    then show ?thesis using 4 by (simp add: drops_def)
  qed (use assms in \<open>simp_all add: drops_def\<close>)
qed

lemma by_id_fold_drop:
  "lookup (by_id (fold (\<lambda>p c. if P p then drop_path p c else c) ps c)) i = lookup (by_id c) i
   \<or> (\<exists>p. P p \<and> lookup (by_id c) i = Some p)"
proof (induction ps arbitrary: c)
  case Nil
  then show ?case by simp
next
  case (Cons p ps)
  have "lookup (by_id (drop_path p c)) i = lookup (by_id c) i \<or> lookup (by_id c) i = Some p"
    by (auto simp: drop_path_def map_simps split: option.splits)
  then show ?case using Cons [of "if P p then drop_path p c else c"] by (cases "P p") auto
qed

definition gone :: "string \<Rightarrow> path_cache \<Rightarrow> bool" where
  "gone path c \<longleftrightarrow> (\<forall>q. drops path True q \<longrightarrow> q \<notin> keys (by_path c))"

lemma gone_subset: "gone path c \<Longrightarrow> set (by_path c') \<subseteq> set (by_path c) \<Longrightarrow> gone path c'"
  unfolding gone_def by blast

lemma by_id_drop_subtree:
  "lookup (by_id (drop_subtree a True c)) i = lookup (by_id c) i
   \<or> (\<exists>p. drops a True p \<and> a \<noteq> [] \<and> lookup (by_id c) i = Some p)"
  using by_id_fold_drop [of "drops a True" "map fst (by_path c)" c i] by (auto simp: drop_subtree_def)

lemma invalidate_id_parts:
  "by_path (pc_invalidate_id j c) = (case lookup (by_id c) j of None \<Rightarrow> by_path c
     | Some a \<Rightarrow> by_path (drop_subtree a True (c\<lparr>updated := AList.delete j (updated c)\<rparr>)))"
  "by_id (pc_invalidate_id j c) = (case lookup (by_id c) j of None \<Rightarrow> by_id c
     | Some a \<Rightarrow> by_id (drop_subtree a True (c\<lparr>updated := AList.delete j (updated c)\<rparr>)))"
  by (auto simp: pc_invalidate_id_def Let_def split: option.splits)

lemma invalidate_id_gone: "lookup (by_id c) i = Some path \<Longrightarrow> path \<noteq> [] \<Longrightarrow> gone path (pc_invalidate_id i c)"
  by (auto simp: gone_def invalidate_id_parts by_path_drop_subtree)

lemma invalidate_id_step:
  assumes "lookup (by_id c) i = Some path \<or> gone path c"
  shows "lookup (by_id (pc_invalidate_id j c)) i = Some path \<or> gone path (pc_invalidate_id j c)"
proof (cases "gone path c")
  case True
  then show ?thesis using gone_subset pc_invalidate_id_frame(1) by blast
next
  case False
  then have i: "lookup (by_id c) i = Some path" using assms by simp
  show ?thesis
  proof (cases "lookup (by_id c) j")
    case None
    then show ?thesis using i by (simp add: invalidate_id_parts)
  next
    case (Some a)
    let ?c = "c\<lparr>updated := AList.delete j (updated c)\<rparr>"
    show ?thesis
    proof (cases "lookup (by_id (drop_subtree a True ?c)) i = Some path")
      case True
      then show ?thesis by (simp add: invalidate_id_parts Some)
    next
      case False
      then have "drops a True path" "a \<noteq> []" using by_id_drop_subtree [of a ?c i] i by auto
      then have "gone path (drop_subtree a True ?c)"
        by (auto simp: gone_def by_path_drop_subtree dest: drops_trans)
      then show ?thesis by (simp add: gone_def invalidate_id_parts Some)
    qed
  qed
qed

lemma invalidate_ids_gone:
  assumes "i \<in> set ids" "i \<noteq> []" "path \<noteq> []" "lookup (by_id (cc_cache c)) i = Some path \<or> gone path (cc_cache c)"
  shows "gone path (cc_cache (invalidate_ids bridge_index ids c))"
proof -
  have one: "cc_cache (ix_invalidate bridge_index j c) = pc_invalidate_id j (cc_cache c)" for j c
    by (simp add: bridge_index_def timed_def)
  have keep: "gone path (cc_cache c) \<Longrightarrow> gone path (cc_cache (invalidate_ids bridge_index js c))" for js c
  proof (induction js arbitrary: c)
    case (Cons j js)
    have "gone path (cc_cache (ix_invalidate bridge_index j c))"
      unfolding one by (rule gone_subset [OF Cons.prems pc_invalidate_id_frame(1)])
    then show ?case using Cons by (simp add: invalidate_ids_def)
  qed (simp add: invalidate_ids_def)
  show ?thesis using assms(1,4)
  proof (induction ids arbitrary: c)
    case Nil
    then show ?case by simp
  next
    case (Cons j ids)
    show ?case
    proof (cases "j = i")
      case True
      have "gone path (pc_invalidate_id i (cc_cache c))"
        using Cons.prems(2) invalidate_id_gone [OF _ assms(3)] gone_subset [OF _ pc_invalidate_id_frame(1)] by blast
      then show ?thesis using keep [of "ix_invalidate bridge_index i c" ids] True assms(2) one by (simp add: invalidate_ids_def)
    next
      case False
      show ?thesis
      proof (cases "j = []")
        case True
        then show ?thesis using Cons.IH [of c] Cons.prems False by (simp add: invalidate_ids_def)
      next
        case j: False
        have "lookup (by_id (cc_cache (ix_invalidate bridge_index j c))) i = Some path
            \<or> gone path (cc_cache (ix_invalidate bridge_index j c))"
          using invalidate_id_step [OF Cons.prems(2)] one by simp
        then show ?thesis using Cons.IH [of "ix_invalidate bridge_index j c"] Cons.prems(1) False j by (simp add: invalidate_ids_def)
      qed
    qed
  qed
qed

text \<open>A folder write that succeeds leaves nothing in the path cache for the folders it changed: neither the path that was
  known for the id, nor any path below it. A write that was refused, by the SDK or by upstream, leaves the cache as it was.\<close>
theorem written_folder_is_forgotten:
  assumes "run_call c pol env d bridge_index op cache = (err, cache')"
  shows "(err = None \<longrightarrow> (\<exists>cl. op = Inr cl \<and> (\<forall>i \<in> set (ca_forgets cl). \<forall>path.
            i \<noteq> [] \<and> path \<noteq> [] \<and> lookup (by_id (cc_cache cache)) i = Some path \<longrightarrow> gone path (cc_cache cache'))))
    \<and> (err \<noteq> None \<longrightarrow> cache' = cache)"
proof (cases op)
  case (Inl e)
  then show ?thesis using assms by (auto simp: run_call_def)
next
  case (Inr cl)
  have reset: "gone path (cc_cache (ix_reset bridge_index c))" for path c
    by (simp add: bridge_index_def timed_def pc_reset_def gone_def)
  show ?thesis using assms Inr invalidate_ids_gone reset
    by (auto simp: run_call_def split: prod.splits option.splits if_splits)
qed

section \<open>Page by page\<close>

text \<open>Upstream as documented: no page has more than 100 entries, from the offset that was asked for.\<close>

definition offset_of :: "request \<Rightarrow> int" where
  "offset_of r = (case map_of (rq_query r) ''offset'' of Some t \<Rightarrow> (case scan_int t of Some n \<Rightarrow> n | None \<Rightarrow> 0) | None \<Rightarrow> 0)"

definition capped :: "string list \<Rightarrow> int \<Rightarrow> request \<Rightarrow> go_error + string list \<times> int" where
  "capped items dir_time r = Inr (take 100 (drop (nat (offset_of r)) items), dir_time)"

definition page_at :: "nat \<Rightarrow> int \<Rightarrow> pager \<Rightarrow> bool" where
  "page_at off dir_time p \<longleftrightarrow>
     \<not> pg_done p \<and> pn_limit (lo_page (pg_opts p)) = 100 \<and> pn_offset (lo_page (pg_opts p)) = int off
     \<and> (if off = 0 then pn_last (lo_page (pg_opts p)) = 0 else pn_last (lo_page (pg_opts p)) = dir_time)"

lemma asked_offset:
  assumes "list_query opts = Inr q" "in_int64 (pn_offset (lo_page opts))"
    "pn_offset (lo_page opts) = 0 \<longrightarrow> pn_last (lo_page opts) \<le> 0"
  shows "offset_of (get_in_path m path segs q) = pn_offset (lo_page opts)"
proof -
  have page: "page_query (lo_page opts) = [] \<and> pn_offset (lo_page opts) = 0
      \<or> map_of (page_query (lo_page opts)) ''offset'' = Some (show_int (pn_offset (lo_page opts)))"
    if "0 \<le> pn_offset (lo_page opts)"
    using that assms(3) by (auto simp: page_query_def)
  have valid: "0 \<le> pn_offset (lo_page opts)"
    using assms(1) by (auto simp: list_query_def validate_page_def split: option.splits if_splits)
  have "map_of (q) ''offset'' = map_of (page_query (lo_page opts)) ''offset''"
    using assms(1) by (auto simp: list_query_def optional_def map_add_def split: option.splits if_splits)
  then show ?thesis using page [OF valid] scan_show_int [OF assms(2)]
    by (auto simp: offset_of_def get_in_path_def)
qed

lemma next_capped:
  assumes "page_at off dt p" "dt \<noteq> 0" "off < 2 ^ 62"
  shows "next_page (capped items dt) p =
    (let names = take 100 (drop off items) in
     if length names < 100 then (Inr (Some names), p\<lparr>pg_done := True\<rparr>)
     else (Inr (Some names), p\<lparr>pg_opts := (pg_opts p)\<lparr>lo_page := page_after dt (lo_page (pg_opts p))\<rparr>\<rparr>))"
proof -
  let ?pn = "lo_page (pg_opts p)"
  have pn: "pn_limit ?pn = 100" "pn_offset ?pn = int off" "off = 0 \<Longrightarrow> pn_last ?pn = 0" "off \<noteq> 0 \<Longrightarrow> pn_last ?pn = dt"
    using assms(1) by (auto simp: page_at_def split: if_splits)
  have "validate_page ?pn = None" using pn assms(2) by (cases "off = 0") (simp_all add: validate_page_def)
  then obtain q where q: "list_query (pg_opts p) = Inr q" by (simp add: list_query_def)
  have "offset_of (get_in_path ''GET'' ''/folder/list.json'' [or_root (pg_folder p)] q) = int off"
    using asked_offset [OF q] pn assms(3) by (auto simp: in_int64_def)
  then show ?thesis using assms(1) q pn
    by (simp add: next_page_def list_folder_def just_def capped_def page_at_def clamp_limit_def max_list_page_size_def Let_def)
qed

lemma read_capped:
  assumes "dt \<noteq> 0" "length items < 2 ^ 62"
  shows "page_at off dt p \<Longrightarrow> off \<le> length items \<Longrightarrow> (length items - off) div 100 + 2 \<le> n
    \<Longrightarrow> read_pages n (capped items dt) p = (drop off items, True)"
proof (induction n arbitrary: off p)
  case 0
  then show ?case by simp
next
  case (Suc n)
  note nx = next_capped [OF Suc.prems(1) assms(1), of items]
  have off: "off < 2 ^ 62" using Suc.prems(2) assms(2) by simp
  show ?case
  proof (cases "length items - off < 100")
    case True
    obtain k where "n = Suc k" using Suc.prems(3) by (cases n) auto
    then show ?thesis using nx [OF off] True by (simp add: next_page_def [of _ "p\<lparr>pg_done := True\<rparr>"])
  next
    case False
    let ?p = "p\<lparr>pg_opts := (pg_opts p)\<lparr>lo_page := page_after dt (lo_page (pg_opts p))\<rparr>\<rparr>"
    have at: "page_at (off + 100) dt ?p"
      using Suc.prems(1) by (auto simp: page_at_def page_after_def clamp_limit_def max_list_page_size_def)
    have "(length items - (off + 100)) div 100 + 2 \<le> n"
    proof -
      have "length items - off = (length items - (off + 100)) + 100" using False by simp
      then have "(length items - off) div 100 = (length items - (off + 100)) div 100 + 1" by (metis div_add_self2 zero_neq_numeral)
      then show ?thesis using Suc.prems(3) by simp
    qed
    then have "read_pages n (capped items dt) ?p = (drop (off + 100) items, True)"
      using Suc.IH [OF at] False by simp
    moreover have "take 100 (drop off items) @ drop (off + 100) items = drop off items"
      by (metis add.commute append_take_drop_id drop_drop)
    ultimately show ?thesis using nx [OF off] False by (simp add: Let_def)
  qed
qed

text \<open>Over an upstream that pages as documented, with no limit or one of at least a page, the pager hands out every entry of a
  folder once, in order, and ends, within one call more than there are pages.\<close>
theorem pages_list_everything:
  assumes "dir_time \<noteq> 0" "length items < 2 ^ 62" "pn_limit (lo_page opts) \<le> 0 \<or> 100 \<le> pn_limit (lo_page opts)"
    and "length items div 100 + 2 \<le> n"
  shows "read_pages n (capped items dir_time) (pages fid opts) = (items, True)"
proof -
  have "page_at 0 dir_time (pages fid opts)"
    using assms(3) by (auto simp: page_at_def pages_def first_page_def clamp_limit_def max_list_page_size_def)
  from read_capped [OF assms(1,2) this] assms(4) show ?thesis by simp
qed

definition all_options :: "int \<Rightarrow> list_options" where
  "all_options limit = \<lparr>lo_page = first_page limit, lo_search = [], lo_sharing = [], lo_subfolders = False, lo_breadcrumbs = False,
     lo_encryption = False, lo_order_by = [], lo_order_type = []\<rparr>"

theorem pages_list_everything_witness:
  "read_pages 5 (capped (replicate 201 ''x'') 7) (pages [] (all_options 0)) = (replicate 201 ''x'', True)"
  by (rule pages_list_everything) (simp_all add: all_options_def first_page_def clamp_limit_def max_list_page_size_def)

text \<open>The limit is never sent. With one that is smaller than a page the pager asks again for entries it has handed out.\<close>

lemma pages_repeat_with_a_limit:
  "read_pages 5 (capped [''a'', ''b'', ''c''] 7) (pages [] (all_options 1))
     = ([''a'', ''b'', ''c'', ''b'', ''c'', ''c''], True)"
  by code_simp

section \<open>Answers nobody reads\<close>

text \<open>\<open>BoolResult\<close>: \<open>null\<close>, an object with or without \<open>result\<close> and \<open>status\<close>, or anything that reads as a flag.\<close>

datatype bool_json = BoolNull | BoolObject "bool option" "bool option" | BoolFlag bool

fun bool_result :: "bool_json \<Rightarrow> bool" where
  "bool_result BoolNull = False"
| "bool_result (BoolObject (Some r) _) = r"
| "bool_result (BoolObject None (Some s)) = s"
| "bool_result (BoolObject None None) = True"
| "bool_result (BoolFlag b) = b"

definition refusal :: evidence where
  "refusal = throttled\<lparr>ev_status := 200, ev_body := ''{\"result\":false}''\<rparr>"

definition refusing_env :: call_env where
  "refusing_env = (throttled_env 2)\<lparr>cv_attempt := \<lparr>ae_credentials = Inr no_credentials, ae_session = None,
     ae_transport = (\<lambda>_. Response refusal DecodedOk)\<rparr>\<rparr>"

text \<open>Trashing a folder reports success when upstream answers that it did not.\<close>

lemma refused_trash_succeeds:
  "fst (run_call plain_client default_retry_policy (\<lambda>_. refusing_env) (new_disambiguator False 0) no_index
      (trash_folders [''7''] []) ()) = None \<and> \<not> bool_result (BoolObject (Some False) None)"
  by code_simp

text \<open>Making a link is a GET, and a GET is sent again after an error unless the call says otherwise.\<close>

lemma link_is_replayed: "fid \<noteq> [] \<Longrightarrow> date \<noteq> [] \<Longrightarrow> folder_expiring_link fid date n b = Inr cl \<Longrightarrow> retryable (ca_request cl)"
  by (auto simp: folder_expiring_link_def just_def get_in_path_def retryable_def)

definition warm_cache :: clocked_cache where
  "warm_cache = \<lparr>cc_cache = pc_store 0 ''/a'' ''7'' (new_path_cache []), cc_clock = int, cc_tick = 1\<rparr>"

lemma warm_trash:
  "fst (run_call plain_client default_retry_policy (\<lambda>_. refusing_env) (new_disambiguator False 0) bridge_index
      (trash_folders [''7''] []) warm_cache) = None"
  "lookup (by_id (cc_cache warm_cache)) ''7'' = Some ''/a''"
  by code_simp+

theorem written_folder_is_forgotten_witness:
  "gone ''/a'' (cc_cache (snd (run_call plain_client default_retry_policy (\<lambda>_. refusing_env) (new_disambiguator False 0) bridge_index
      (trash_folders [''7''] []) warm_cache)))"
proof -
  have "join_ids [''7''] = Inr ''7''" by code_simp
  then obtain cl where "trash_folders [''7''] [] = Inr cl" "ca_forgets cl = [''7'']"
    by (simp add: trash_folders_def on_folders_def forgetting_def)
  with written_folder_is_forgotten [OF surjective_pairing, of plain_client default_retry_policy "\<lambda>_. refusing_env"
      "new_disambiguator False 0" "trash_folders [''7''] []" warm_cache] warm_trash
  show ?thesis by auto
qed

end
