(* ===== verification/Files.thy ===== *)
theory Files
  imports Folders
begin

text \<open>
  The file operations of \<open>pkg/opendrive/file.go\<close>, as \<open>Folders\<close> has those of folders, and what both promise: no write carries a name
  that is not one, and what is trashed or removed is exactly what was named.
\<close>

section \<open>Asking\<close>

definition get_in_query :: "string \<Rightarrow> string list \<Rightarrow> (string \<times> string) list \<Rightarrow> request" where
  "get_in_query path segs q = (get_in_path ''GET'' path segs q)\<lparr>rq_placement := SessionInQuery\<rparr>"

definition needs :: "string \<Rightarrow> string \<Rightarrow> request \<Rightarrow> api_error + call" where
  "needs fid msg r = (if fid = [] then Inl (invalid_request msg) else Inr (just r))"

definition file_info :: "string \<Rightarrow> string \<Rightarrow> api_error + call" where
  "file_info fid sharing = needs fid ''file info needs a file id'' (get_in_query ''/file/info.json'' [fid] (optional ''sharing_id'' sharing))"

definition file_id_request :: "string \<Rightarrow> api_error + call" where
  "file_id_request p =
     (case normalize_folder_path p of
        Inl e \<Rightarrow> Inl e
      | Inr clean \<Rightarrow>
          if clean = ''/'' then Inl (invalid_request ''the account root is a folder, not a file'')
          else Inr (just (send_body ''POST'' ''/file/idbypath.json'' [(''path'', trim_prefix clean ''/'')])))"

definition file_id_answer :: "string \<Rightarrow> string \<Rightarrow> go_error + string" where
  "file_id_answer lower upper =
     (let i = (if lower \<noteq> [] then lower else upper)
      in if i \<noteq> [] then Inr i else Inl (no_id_error ''POST /file/idbypath.json'' ''the response carried no file id''))"

definition file_path :: "string \<Rightarrow> api_error + call" where
  "file_path fid = needs fid ''file path needs a file id'' (get_in_path ''GET'' ''/file/path.json'' [fid] [])"

definition file_full_path :: "string \<Rightarrow> api_error + call" where
  "file_full_path fid = needs fid ''file full path needs a file id'' (get_in_path ''GET'' ''/file/filefullpath.json'' [fid] [])"

definition full_path_answer :: "string \<Rightarrow> string \<Rightarrow> string" where
  "full_path_answer full link = replace_all [CHR 0x5C] ''/'' (if full = [] then link else full)"

definition file_versions :: "string \<Rightarrow> api_error + call" where
  "file_versions gid = needs gid ''file versions needs a file group id'' (get_in_path ''GET'' ''/file/fileversions.json'' [gid] [])"

text \<open>\<open>offset\<close> is the text of the time offset, if there is one.\<close>

definition thumbnail :: "string \<Rightarrow> string \<Rightarrow> string option \<Rightarrow> string \<Rightarrow> api_error + call" where
  "thumbnail fid sharing offset key =
     needs fid ''file thumbnail needs a file id'' (get_in_query ''/file/thumb.json'' [fid]
       (optional ''sharing_id'' sharing @ (case offset of Some t \<Rightarrow> [(''time_offset'', t)] | None \<Rightarrow> []) @ optional ''temp_key'' key))"

section \<open>Writing\<close>

definition create_empty_file :: "string \<Rightarrow> string \<Rightarrow> string \<Rightarrow> string \<Rightarrow> api_error + call" where
  "create_empty_file access fid type_name sharing =
     (if fid = [] then Inl (invalid_request ''create empty file needs a folder id'')
      else if trim_space type_name = [] then Inl (invalid_request ''create empty file needs a file type'')
      else Inr (just ((send_body ''POST'' ''/file.json''
        ([(''access_folder_id'', or_root access), (''folder_id'', fid), (''file_type'', type_name)] @ optional ''sharing_id'' sharing))
        \<lparr>rq_scope := fid\<rparr>)))"

definition set_file_access :: "string \<Rightarrow> folder_access \<Rightarrow> string \<Rightarrow> string \<Rightarrow> api_error + call" where
  "set_file_access fid visibility access sharing =
     needs fid ''file access needs a file id'' (send_body ''POST'' ''/file/access.json''
       ([(''file_id'', fid), (''file_ispublic'', access_code visibility)] @ optional ''access_folder_id'' access
        @ optional ''sharing_id'' sharing))"

record file_move =
  fm_source :: string
  fm_target :: string
  fm_move :: bool
  fm_overwrite :: bool
  fm_src_access :: string
  fm_dst_access :: string
  fm_src_sharing :: string
  fm_dst_sharing :: string
  fm_name :: string

definition move_copy_file :: "file_move \<Rightarrow> api_error + call" where
  "move_copy_file p =
     (if fm_source p = [] \<or> fm_target p = []
      then Inl (invalid_request ''file move_copy needs a source file id and destination folder id'')
      else case (if fm_name p \<noteq> [] then validate_name (fm_name p) else None) of
        Some e \<Rightarrow> Inl e
      | None \<Rightarrow> Inr (just (send_body ''POST'' ''/file/move_copy.json''
          ([(''src_file_id'', fm_source p), (''dst_folder_id'', fm_target p), (''move'', bool_text (fm_move p)),
            (''overwrite_if_exists'', bool_text (fm_overwrite p))]
           @ optional ''src_access_folder_id'' (fm_src_access p) @ optional ''dst_access_folder_id'' (fm_dst_access p)
           @ optional ''src_sharing_id'' (fm_src_sharing p) @ optional ''dst_sharing_id'' (fm_dst_sharing p)
           @ optional ''new_file_name'' (fm_name p)))))"

definition rename_file :: "string \<Rightarrow> string \<Rightarrow> string \<Rightarrow> string \<Rightarrow> api_error + call" where
  "rename_file fid name access sharing =
     (if fid = [] then Inl (invalid_request ''file rename needs a file id'')
      else case validate_name name of
        Some e \<Rightarrow> Inl e
      | None \<Rightarrow> Inr (just (send_body ''POST'' ''/file/rename.json''
          ([(''file_id'', fid), (''new_file_name'', name)] @ optional ''access_folder_id'' access @ optional ''sharing_id'' sharing))))"

definition on_files :: "string \<Rightarrow> string list \<Rightarrow> string \<Rightarrow> string \<Rightarrow> api_error + call" where
  "on_files path ids access sharing =
     map_sum id (\<lambda>ids_text. just (send_body ''POST'' path
       ((''file_id'', ids_text) # optional ''access_folder_id'' access @ optional ''sharing_id'' sharing))) (join_ids ids)"

definition trash_files :: "string list \<Rightarrow> string \<Rightarrow> api_error + call" where
  "trash_files ids sharing = on_files ''/file/trash.json'' ids [] sharing"

definition restore_files :: "string list \<Rightarrow> api_error + call" where
  "restore_files ids = on_files ''/file/restore.json'' ids [] []"

definition remove_files :: "string list \<Rightarrow> string \<Rightarrow> string \<Rightarrow> api_error + call" where
  "remove_files ids access sharing = on_files ''/file/remove.json'' ids access sharing"

definition delete_trashed :: "string \<Rightarrow> string \<Rightarrow> string \<Rightarrow> api_error + call" where
  "delete_trashed fid access sharing =
     needs fid ''delete trashed file needs a file id''
       (get_in_path ''DELETE'' ''/file.json'' [fid] (optional ''access_folder_id'' access @ optional ''sharing_id'' sharing))"

definition remove_version :: "string \<Rightarrow> api_error + call" where
  "remove_version fid = needs fid ''remove file version needs a file id''
     (get_in_path ''DELETE'' ''/file/removefileversion.json'' [fid] [])"

record file_settings =
  st_price :: "string option"
  st_name :: "string option"
  st_text :: "string option"
  st_secret :: "string option"
  st_url :: "string option"
  st_visibility :: "folder_access option"
  st_online :: "bool option"
  st_time :: "int option"
  st_share :: string

definition present :: "string \<Rightarrow> string option \<Rightarrow> (string \<times> string) list" where
  "present k v = (case v of Some t \<Rightarrow> [(k, t)] | None \<Rightarrow> [])"

definition update_file_settings :: "string \<Rightarrow> file_settings \<Rightarrow> api_error + call" where
  "update_file_settings fid s =
     (if fid = [] then Inl (invalid_request ''file settings needs a file id'')
      else case (case st_name s of Some n \<Rightarrow> validate_name n | None \<Rightarrow> None) of
        Some e \<Rightarrow> Inl e
      | None \<Rightarrow> Inr (just (send_body ''PUT'' ''/file/filesettings.json''
          ([(''file_id'', fid)] @ present ''file_price'' (st_price s) @ present ''file_name'' (st_name s)
           @ present ''file_description'' (st_text s) @ present ''file_password'' (st_secret s) @ present ''file_dest_url'' (st_url s)
           @ present ''file_ispublic'' (map_option access_code (st_visibility s)) @ optional_bool ''file_edit_online'' (st_online s)
           @ present ''file_modification_time'' (map_option show_int (st_time s)) @ optional ''sharing_id'' (st_share s)))))"

definition verify_password :: "string \<Rightarrow> string \<Rightarrow> string \<Rightarrow> api_error + call" where
  "verify_password fid secret captcha =
     (if fid = [] \<or> secret = [] then Inl (invalid_request ''verify file password needs a file id and password'')
      else Inr (just ((send_body ''POST'' ''/file/verifypassword.json''
        ([(''file_id'', fid), (''password'', secret)] @ optional ''captcha_response'' captcha))\<lparr>rq_retryable := Some False\<rparr>)))"

text \<open>Either of the two flags of the answer says that the password was right.\<close>

definition password_verified :: "bool \<Rightarrow> bool \<Rightarrow> bool" where
  "password_verified res valid = (res \<or> valid)"

definition non_empty :: "string list \<Rightarrow> string list" where
  "non_empty vs = filter (\<lambda>v. v \<noteq> []) (map trim_space vs)"

definition send_files_by_email ::
  "string list \<Rightarrow> string list \<Rightarrow> string \<Rightarrow> string \<Rightarrow> bool \<Rightarrow> string \<Rightarrow> api_error + call" where
  "send_files_by_email ids recipients subject body expiring captcha =
     (case join_ids ids of
        Inl e \<Rightarrow> Inl e
      | Inr ids_text \<Rightarrow>
          let to_all = join_with CHR '','' (non_empty recipients) in
          if to_all = [] then Inl (invalid_request ''send file by email needs at least one recipient'')
          else Inr (just ((send_body ''POST'' ''/file/sendbyemail.json''
            ([(''file_id'', ids_text), (''recipient_emails'', to_all), (''send_expiring_enabled'', bool_text expiring)]
             @ optional ''message_subject'' subject @ optional ''message_body'' body @ optional ''captcha_response'' captcha))
            \<lparr>rq_retryable := Some False\<rparr>)))"

definition file_expiring_link :: "string \<Rightarrow> string \<Rightarrow> int \<Rightarrow> bool \<Rightarrow> api_error + call" where
  "file_expiring_link fid date counter enable =
     (if fid = [] \<or> date = [] \<or> counter < 0
      then Inl (invalid_request ''file expiring link needs a file id, date and non-negative counter'')
      else Inr (just ((get_in_path ''GET'' ''/file/expiringlink.json'' [date, show_int counter, fid, bool_text enable] [])
        \<lparr>rq_retryable := Some False\<rparr>)))"

definition file_expiring_links :: "string \<Rightarrow> api_error + call" where
  "file_expiring_links fid = needs fid ''file expiring links needs a file id''
     (get_in_path ''GET'' ''/file/fileexpiringlinks.json'' [fid] [])"

section \<open>What a write carries\<close>

definition member :: "string \<Rightarrow> call \<Rightarrow> string option" where
  "member k cl = (case rq_body (ca_request cl) of JsonObject m \<Rightarrow> map_of m k | _ \<Rightarrow> None)"

text \<open>The calls that give a file or a folder a name, and those that delete.\<close>

inductive naming :: "call \<Rightarrow> bool" where
  "create_folder_call p = Inr cl \<Longrightarrow> naming cl"
| "rename_folder fid n sharing = Inr cl \<Longrightarrow> naming cl"
| "move_copy_folder m = Inr cl \<Longrightarrow> naming cl"
| "update_folder_settings fid s = Inr cl \<Longrightarrow> naming cl"
| "rename_file fid n access sharing = Inr cl \<Longrightarrow> naming cl"
| "move_copy_file fm = Inr cl \<Longrightarrow> naming cl"
| "update_file_settings fid fs = Inr cl \<Longrightarrow> naming cl"

inductive destructive :: "string list \<Rightarrow> call \<Rightarrow> bool" where
  "trash_folders ids sharing = Inr cl \<Longrightarrow> destructive ids cl"
| "remove_folders ids sharing = Inr cl \<Longrightarrow> destructive ids cl"
| "trash_files ids sharing = Inr cl \<Longrightarrow> destructive ids cl"
| "remove_files ids access sharing = Inr cl \<Longrightarrow> destructive ids cl"

definition name_members :: "string list" where
  "name_members = [''folder_name'', ''new_folder_name'', ''file_name'', ''new_file_name'']"

definition named_well :: "call \<Rightarrow> bool" where
  "named_well cl \<longleftrightarrow> (\<forall>k \<in> set name_members. case member k cl of Some n \<Rightarrow> validate_name n = None | None \<Rightarrow> True)"

lemma optional_member: "map_of (optional k v) k' = (if k' = k \<and> v \<noteq> [] then Some v else None)"
  by (simp add: optional_def)

lemma present_member: "map_of (present k v) k' = (if k' = k then v else None)"
  by (cases v) (simp_all add: present_def)

lemma optional_bool_member: "map_of (optional_bool k v) k' = (if k' = k then map_option bool_int v else None)"
  by (cases v) (simp_all add: optional_bool_def)

lemmas members = member_def just_def forgetting_def send_body_def map_add_def optional_member present_member optional_bool_member

lemma member_just [simp]: "member k (just (r\<lparr>rq_scope := sc\<rparr>)) = member k (just r)" "member k (forgetting ids r) = member k (just r)"
    "member k (forgetting ids (r\<lparr>rq_scope := sc\<rparr>)) = member k (just r)"
  by (simp_all add: member_def just_def forgetting_def)

lemma member_body: "member k (just (send_body m path body)) = map_of body k"
  by (simp add: member_def just_def send_body_def)

lemma option_cases: "(case x of None \<Rightarrow> None | Some a \<Rightarrow> Some a) = x"
  by (cases x) simp_all

lemmas named_simps = named_well_def name_members_def member_body optional_member optional_bool_member present_member map_add_def
  option_cases

text \<open>What the operations put in the body does not matter: only one member names something, and it has been checked.\<close>

lemma named_calls:
  "create_folder_call p = Inr cl \<Longrightarrow> named_well cl" "rename_folder fid n sharing = Inr cl \<Longrightarrow> named_well cl"
  "move_copy_folder m = Inr cl \<Longrightarrow> named_well cl" "update_folder_settings fid s = Inr cl \<Longrightarrow> named_well cl"
  "rename_file fid n access sharing = Inr cl \<Longrightarrow> named_well cl" "move_copy_file fm = Inr cl \<Longrightarrow> named_well cl"
  "update_file_settings fid fs = Inr cl \<Longrightarrow> named_well cl"
proof -
  show "named_well cl" if "create_folder_call p = Inr cl"
    using that by (cases "validate_name (cf_name p)") (auto simp: create_folder_call_def Let_def named_simps)
  show "named_well cl" if "rename_folder fid n sharing = Inr cl"
    using that by (cases "validate_name n") (auto simp: rename_folder_def named_simps)
  show "named_well cl" if "move_copy_folder m = Inr cl"
    using that by (cases "mv_folder m = [] \<or> mv_target m = []"; cases "mv_name m = []"; cases "validate_name (mv_name m)")
      (auto simp: move_copy_folder_def named_simps)
  show "named_well cl" if "update_folder_settings fid s = Inr cl"
    using that by (cases "fid = []"; cases "fs_name s = []"; cases "validate_name (fs_name s)"; cases "fs_access s")
      (auto simp: update_folder_settings_def named_simps)
  show "named_well cl" if "rename_file fid n access sharing = Inr cl"
    using that by (cases "fid = []"; cases "validate_name n") (auto simp: rename_file_def named_simps)
  show "named_well cl" if "move_copy_file fm = Inr cl"
    using that by (cases "fm_source fm = [] \<or> fm_target fm = []"; cases "fm_name fm = []"; cases "validate_name (fm_name fm)")
      (auto simp: move_copy_file_def named_simps)
  show "named_well cl" if "update_file_settings fid fs = Inr cl"
    using that by (cases "fid = []"; cases "st_name fs"; cases "validate_name (the (st_name fs))")
      (auto simp: update_file_settings_def named_simps)
qed


lemma on_folders_body: "on_folders path ids sharing = Inr cl \<Longrightarrow> \<exists>t. join_ids ids = Inr t \<and> member ''folder_id'' cl = Some t"
  by (cases "join_ids ids") (auto simp: on_folders_def member_body optional_member)

lemma on_files_body: "on_files path ids access sharing = Inr cl \<Longrightarrow> \<exists>t. join_ids ids = Inr t \<and> member ''file_id'' cl = Some t"
  by (cases "join_ids ids") (auto simp: on_files_def member_body optional_member)

lemma destructive_body:
  "destructive ids cl \<Longrightarrow> \<exists>t. join_ids ids = Inr t \<and> (member ''folder_id'' cl = Some t \<or> member ''file_id'' cl = Some t)"
  by (induction rule: destructive.induct)
    (auto simp: trash_folders_def remove_folders_def trash_files_def remove_files_def dest!: on_folders_body on_files_body)

text \<open>C38: What a trash or remove call asks upstream to delete is exactly what it was given: taken apart at the commas, the ids in the body
  are the ids of the caller, none of them blank, and at least one.\<close>
theorem deletions_name_their_targets:
  assumes "destructive ids cl"
  shows "\<exists>t. (member ''folder_id'' cl = Some t \<or> member ''file_id'' cl = Some t) \<and> split_on CHR '','' t = ids
    \<and> ids \<noteq> [] \<and> list_all (\<lambda>i. trim_space i \<noteq> []) ids"
proof -
  obtain t where t: "join_ids ids = Inr t" "member ''folder_id'' cl = Some t \<or> member ''file_id'' cl = Some t"
    using destructive_body [OF assms] by blast
  show ?thesis using join_ids_ok [OF t(1)] t(2) by (auto simp: list_all_iff)
qed

section \<open>Examples\<close>

definition renaming :: call where
  "renaming = forgetting [''7''] (send_body ''POST'' ''/folder/rename.json'' [(''folder_id'', ''7''), (''folder_name'', ''May'')])"

definition trashing :: call where
  "trashing = forgetting [''7'', ''8''] (send_body ''POST'' ''/folder/trash.json'' [(''folder_id'', ''7,8'')])"


theorem deletions_name_their_targets_witness:
  "\<exists>t. (member ''folder_id'' trashing = Some t \<or> member ''file_id'' trashing = Some t)
    \<and> split_on CHR '','' t = [''7'', ''8''] \<and> [''7'', ''8''] \<noteq> [] \<and> list_all (\<lambda>i. trim_space i \<noteq> []) [''7'', ''8'']"
proof (rule deletions_name_their_targets)
  have "join_ids [''7'', ''8''] = Inr ''7,8''" by code_simp
  then have "trash_folders [''7'', ''8''] [] = Inr trashing"
    by (simp add: trash_folders_def on_folders_def optional_def trashing_def)
  then show "destructive [''7'', ''8''] trashing" by (rule destructive.intros)
qed

end
