(* ===== verification/Bridge_Files.thy ===== *)
theory Bridge_Files
  imports Bridge_Errors Files Cache_Eviction
begin

text \<open>
  \<open>internal/server/paths.go\<close> and \<open>internal/server/files.go\<close>: what a path names, and the handlers that list, make, move, rename and
  remove by path. A handler takes the decoded request and gives an error or what it answers, and the new state: upstream \<open>'u\<close>, the cache
  of path resolutions and the data cache, each of the caches there or not. Times of upstream are Unix seconds.
\<close>

section \<open>The state of the server\<close>

record 'u bridge =
  br_up :: 'u
  br_index :: "clocked_cache option"
  br_cache :: "datacache option"

record dir_entry =
  de_name :: string
  de_id :: string
  de_size :: int
  de_modified :: "int option"
  de_access :: int
  de_children :: int
  de_link :: string

record dir_listing =
  ls_updated :: "int option"
  ls_folders :: "dir_entry list"
  ls_files :: "dir_entry list"

text \<open>What the calls ask of upstream. A write answers with the one member the handlers show: the name of a new folder, the address of a link. The last
  members are those of \<open>remove_tree\<close>.\<close>

record 'u bridge_env =
  be_tree :: "'u tree_ops"
  be_list :: "request \<Rightarrow> 'u \<Rightarrow> (go_error + dir_listing) \<times> 'u"
  be_send :: "call \<Rightarrow> 'u \<Rightarrow> (go_error + string) \<times> 'u"
  be_versions :: "request \<Rightarrow> 'u \<Rightarrow> (go_error + (string \<times> string \<times> int \<times> int option) list) \<times> 'u"
  be_fuel :: nat
  be_world :: "nat \<Rightarrow> datacache \<Rightarrow> datacache option"
  be_cname :: "string \<Rightarrow> string"
  be_drop :: "string \<Rightarrow> drop_env"

type_synonym ('u, 'a) step = "'u bridge \<Rightarrow> (bridge_error + 'a) \<times> 'u bridge"

text \<open>One step after another; the first error ends the handler.\<close>

definition and_then :: "('u, 'a) step \<Rightarrow> ('a \<Rightarrow> ('u, 'b) step) \<Rightarrow> ('u, 'b) step" where
  "and_then f g s = (case f s of (Inl e, s1) \<Rightarrow> (Inl e, s1) | (Inr x, s1) \<Rightarrow> g x s1)"

definition check :: "request_error + 'a \<Rightarrow> ('u, 'a) step" where
  "check r s = (case r of Inl e \<Rightarrow> Inl (Refused e) | Inr x \<Rightarrow> Inr x, s)"

definition refuse :: "request_error \<Rightarrow> ('u, 'a) step" where
  "refuse e s = (Inl (Refused e), s)"

definition ask_up :: "('u \<Rightarrow> (go_error + 'a) \<times> 'u) \<Rightarrow> ('u, 'a) step" where
  "ask_up f s = (case f (br_up s) of (r, u) \<Rightarrow> (map_sum Failed id r, s\<lparr>br_up := u\<rparr>))"

text \<open>An operation of the SDK that writes, with what it makes the path cache forget.\<close>

definition perform :: "'u bridge_env \<Rightarrow> api_error + call \<Rightarrow> ('u, string) step" where
  "perform env op s =
     (case op of
        Inl e \<Rightarrow> (Inl (Failed (Api e)), s)
      | Inr cl \<Rightarrow>
          case be_send env cl (br_up s) of
            (Inl e, u) \<Rightarrow> (Inl (Failed e), s\<lparr>br_up := u\<rparr>)
          | (Inr x, u) \<Rightarrow>
              (Inr x, s\<lparr>br_up := u,
                 br_index := map_option (\<lambda>c. invalidate_ids bridge_index (ca_forgets cl) (if ca_resets cl then ix_reset bridge_index c else c))
                   (br_index s)\<rparr>))"

section \<open>What a path names\<close>

record entry =
  en_name :: string
  en_path :: string
  en_folder :: bool
  en_size :: int
  en_modified :: "string option"
  en_public :: bool
  en_children :: int
  en_link :: string
  en_pending :: bool

record target =
  tg_path :: string
  tg_folder :: bool
  tg_id :: string
  tg_parent :: string
  tg_name :: string
  tg_entry :: entry

definition time_ptr :: "int option \<Rightarrow> string option" where
  "time_ptr t = map_option (\<lambda>n. render_time (n * 1000000000)) t"

definition folder_entry :: "dir_entry \<Rightarrow> string \<Rightarrow> entry" where
  "folder_entry f p =
     \<lparr>en_name = de_name f, en_path = p, en_folder = True, en_size = de_size f, en_modified = time_ptr (de_modified f),
      en_public = (de_access f = 1), en_children = de_children f, en_link = de_link f, en_pending = False\<rparr>"

definition file_entry :: "dir_entry \<Rightarrow> string \<Rightarrow> entry" where
  "file_entry f p =
     \<lparr>en_name = de_name f, en_path = p, en_folder = False, en_size = de_size f, en_modified = time_ptr (de_modified f),
      en_public = (de_access f = 1), en_children = 0, en_link = de_link f, en_pending = False\<rparr>"

definition plain_entry :: "string \<Rightarrow> string \<Rightarrow> bool \<Rightarrow> entry" where
  "plain_entry name p folder =
     \<lparr>en_name = name, en_path = p, en_folder = folder, en_size = 0, en_modified = None, en_public = False, en_children = 0, en_link = [],
      en_pending = False\<rparr>"

text \<open>\<open>IDByPath\<close> does not look into the path cache.\<close>

definition folder_id_for :: "'u bridge_env \<Rightarrow> string \<Rightarrow> ('u, string) step" where
  "folder_id_for env p s =
     (if p = ''/'' then (Inr root_folder_id, s)
      else case id_by_path (be_tree env) p \<lparr>rs_up = br_up s, rs_cache = ()\<rparr> of
        (r, x) \<Rightarrow> (map_sum Failed id r, s\<lparr>br_up := rs_up x\<rparr>))"

definition missing_as :: "string \<Rightarrow> ('u, 'a) step \<Rightarrow> ('u, 'a) step" where
  "missing_as p f s =
     (case f s of
        (Inl (Failed e), s1) \<Rightarrow> (Inl (not_found_if_missing e p), s1)
      | r \<Rightarrow> r)"

definition no_options :: list_options where
  "no_options =
     \<lparr>lo_page = \<lparr>pn_offset = 0, pn_limit = 0, pn_last = 0, pn_first = False\<rparr>, lo_search = [], lo_sharing = [], lo_subfolders = False,
      lo_breadcrumbs = False, lo_encryption = False, lo_order_by = [], lo_order_type = []\<rparr>"

definition list_dir :: "'u bridge_env \<Rightarrow> string \<Rightarrow> list_options \<Rightarrow> ('u, dir_listing) step" where
  "list_dir env fid opts s =
     (case list_folder fid opts of
        Inl e \<Rightarrow> (Inl (Failed (Api e)), s)
      | Inr cl \<Rightarrow> ask_up (be_list env (ca_request cl)) s)"

definition target_of :: "string \<Rightarrow> string \<Rightarrow> string \<Rightarrow> dir_listing \<Rightarrow> target option" where
  "target_of p pid name li =
     (case find (\<lambda>f. de_name f = name) (ls_folders li) of
        Some f \<Rightarrow> Some \<lparr>tg_path = p, tg_folder = True, tg_id = de_id f, tg_parent = pid, tg_name = name, tg_entry = folder_entry f p\<rparr>
      | None \<Rightarrow>
          map_option (\<lambda>f. \<lparr>tg_path = p, tg_folder = False, tg_id = de_id f, tg_parent = pid, tg_name = name, tg_entry = file_entry f p\<rparr>)
            (find (\<lambda>f. de_name f = name) (ls_files li)))"

definition root_target :: "dir_listing \<Rightarrow> target" where
  "root_target li =
     \<lparr>tg_path = ''/'', tg_folder = True, tg_id = root_folder_id, tg_parent = [], tg_name = ''/'',
      tg_entry = (plain_entry ''/'' ''/'' True)\<lparr>en_children := int (length (ls_folders li) + length (ls_files li))\<rparr>\<rparr>"

definition resolve_target :: "'u bridge_env \<Rightarrow> string \<Rightarrow> ('u, target) step" where
  "resolve_target env p =
     (if p = ''/'' then and_then (list_dir env root_folder_id no_options) (\<lambda>li s. (Inr (root_target li), s))
      else let (parent, name) = split_path p in
        and_then (missing_as p (folder_id_for env parent)) (\<lambda>pid.
        and_then (list_dir env pid no_options) (\<lambda>li s.
          case target_of p pid name li of
            Some t \<Rightarrow> (Inr t, s)
          | None \<Rightarrow> (Inl (Refused (path_not_found p)), s))))"

definition path_exists :: "'u bridge_env \<Rightarrow> string \<Rightarrow> ('u, bool) step" where
  "path_exists env p s =
     (case resolve_target env p s of
        (Inr _, s1) \<Rightarrow> (Inr True, s1)
      | (Inl e, s1) \<Rightarrow> (if is_not_found e then Inr False else Inl e, s1))"

definition require_folder :: "'u bridge_env \<Rightarrow> string \<Rightarrow> ('u, target) step" where
  "require_folder env p =
     and_then (resolve_target env p) (\<lambda>t s.
       if tg_folder t then (Inr t, s)
       else refuse (RequestError (kind_name KindInvalidRequest) 400 (p @ '' is a file, and this needs a folder.'')) s)"

text \<open>\<open>invalidateSubtree\<close>: the paths and their parents.\<close>

definition forget_path :: "string \<Rightarrow> clocked_cache \<Rightarrow> clocked_cache" where
  "forget_path p c = c\<lparr>cc_cache := pc_invalidate_path p (cc_cache c)\<rparr>"

definition forget_with_parent :: "string \<Rightarrow> clocked_cache \<Rightarrow> clocked_cache" where
  "forget_with_parent p c =
     (if p = [] then c
      else let c1 = forget_path p c; parent = fst (split_path p) in if parent \<noteq> p then forget_path parent c1 else c1)"

definition invalidate_subtree :: "string list \<Rightarrow> 'u bridge \<Rightarrow> 'u bridge" where
  "invalidate_subtree ps s = s\<lparr>br_index := map_option (fold forget_with_parent ps) (br_index s)\<rparr>"

section \<open>Listing\<close>

record list_response =
  lr_path :: string
  lr_entries :: "entry list"
  lr_updated :: int
  lr_next :: "int option"

definition pending_file :: "object \<Rightarrow> entry" where
  "pending_file ob =
     (plain_entry (snd (split_path (remote_path ob))) (remote_path ob) False)
       \<lparr>en_size := obj_size ob, en_modified := Some (render_time (stored_at ob)), en_pending := True\<rparr>"

text \<open>The map from names to positions: the last entry of a name.\<close>

definition position_of :: "entry list \<Rightarrow> string \<Rightarrow> nat option" where
  "position_of es name = map_option fst (find (\<lambda>(_, e). en_name e = name) (rev (enumerate 0 es)))"

definition add_pending_file :: "(string \<Rightarrow> nat option) \<Rightarrow> object \<Rightarrow> entry list \<Rightarrow> entry list" where
  "add_pending_file index ob es =
     (case index (snd (split_path (remote_path ob))) of
        Some i \<Rightarrow> es[i := pending_file ob]
      | None \<Rightarrow> es @ [pending_file ob])"

definition merge_pending :: "datacache option \<Rightarrow> string \<Rightarrow> entry list \<Rightarrow> entry list" where
  "merge_pending dc p es =
     (case dc of
        None \<Rightarrow> es
      | Some c \<Rightarrow>
          let (files, folders) = children_of (unsent_list c) p; index = position_of es;
              es1 = es @ map (\<lambda>name. (plain_entry name (join_path p name) True)\<lparr>en_pending := True\<rparr>) (filter (\<lambda>name. index name = None) folders)
          in fold (add_pending_file index) files es1)"

definition pending_listing :: "datacache option \<Rightarrow> string \<Rightarrow> list_response option" where
  "pending_listing dc p =
     (let es = merge_pending dc p []
      in if es = [] then None else Some \<lparr>lr_path = p, lr_entries = es, lr_updated = 0, lr_next = None\<rparr>)"

definition parse_int64 :: "string \<Rightarrow> int option" where
  "parse_int64 s = (if s = [] then Some 0 else atoi s)"

definition paging :: "string \<Rightarrow> string \<Rightarrow> request_error + pagination" where
  "paging offset dir_time =
     (if offset = [] then Inr (lo_page no_options)
      else case atoi offset of
        None \<Rightarrow> Inl (bad_request '''offset' must be a number of entries to skip, such as 100.'')
      | Some n \<Rightarrow>
          if n < 0 then Inl (bad_request '''offset' must be a number of entries to skip, such as 100.'')
          else case parse_int64 dir_time of
            None \<Rightarrow> Inl (bad_request ''Paging past the first page needs 'dir_update_time' from the previous response as well as 'offset'.'')
          | Some latest \<Rightarrow>
              if latest = 0 then Inl (bad_request ''Paging past the first page needs 'dir_update_time' from the previous response as well as 'offset'.'')
              else Inr \<lparr>pn_offset = n, pn_limit = 0, pn_last = latest, pn_first = False\<rparr>)"

definition list_page :: "datacache option \<Rightarrow> string \<Rightarrow> int \<Rightarrow> dir_listing \<Rightarrow> list_response" where
  "list_page dc p offset li =
     (let es = map (\<lambda>f. folder_entry f (join_path p (de_name f))) (ls_folders li) @ map (\<lambda>f. file_entry f (join_path p (de_name f))) (ls_files li)
      in \<lparr>lr_path = p, lr_entries = (if offset = 0 then merge_pending dc p es else es),
          lr_updated = (case ls_updated li of Some n \<Rightarrow> n | None \<Rightarrow> -62135596800),
          lr_next = (if int (length es) \<ge> max_list_page_size then Some (offset + int (length es)) else None)\<rparr>)"

definition handle_list :: "'u bridge_env \<Rightarrow> string \<Rightarrow> string \<Rightarrow> string \<Rightarrow> string \<Rightarrow> ('u, list_response) step" where
  "handle_list env path search offset dir_time =
     and_then (check (server_normalise_path path)) (\<lambda>p s.
       case folder_id_for env p s of
         (Inl e, s1) \<Rightarrow>
           (case pending_listing (br_cache s1) p of
              Some r \<Rightarrow>
                if is_not_found e \<or> bridge_temporary e then (Inr r, s1) else missing_as p (\<lambda>s. (Inl e, s)) s1
            | None \<Rightarrow> missing_as p (\<lambda>s. (Inl e, s)) s1)
       | (Inr fid, s1) \<Rightarrow>
           and_then (check (paging offset dir_time)) (\<lambda>page.
           and_then (list_dir env fid (no_options\<lparr>lo_page := page, lo_search := search\<rparr>)) (\<lambda>li s.
             (Inr (list_page (br_cache s) p (pn_offset page) li), s))) s1)"

definition handle_stat :: "'u bridge_env \<Rightarrow> string \<Rightarrow> ('u, entry) step" where
  "handle_stat env path =
     and_then (check (server_normalise_path path)) (\<lambda>p. and_then (resolve_target env p) (\<lambda>t s. (Inr (tg_entry t), s)))"

section \<open>Making folders\<close>

definition parse_access :: "string \<Rightarrow> request_error + folder_access" where
  "parse_access a =
     (let t = to_lower (trim_space a) in
      if t = [] \<or> t = ''private'' then Inr FolderPrivate
      else if t = ''public'' then Inr FolderPublic
      else if t = ''hidden'' then Inr FolderHidden
      else Inl (bad_request '''access' must be private, public or hidden.''))"

definition new_folder :: "string \<Rightarrow> string \<Rightarrow> folder_access \<Rightarrow> create_params" where
  "new_folder name parent access =
     \<lparr>cf_name = name, cf_parent = parent, cf_access = access, cf_upload = False, cf_display = False, cf_download = False,
      cf_subfolders = False, cf_description = [], cf_sharing = []\<rparr>"

definition create_in :: "'u bridge_env \<Rightarrow> string \<Rightarrow> string \<Rightarrow> folder_access \<Rightarrow> string \<Rightarrow> ('u, entry) step" where
  "create_in env p name access pid =
     and_then (perform env (create_folder_call (new_folder name pid access))) (\<lambda>created s.
       (Inr (plain_entry created p True), invalidate_subtree [p, fst (split_path p)] s))"

text \<open>\<open>mkdir\<close> makes missing parents by calling itself; whether it ends depends on the path.\<close>

partial_function (option) mkdir ::
  "'u bridge_env \<Rightarrow> string \<Rightarrow> folder_access \<Rightarrow> bool \<Rightarrow> 'u bridge \<Rightarrow> ((bridge_error + entry) \<times> 'u bridge) option" where
  "mkdir env p access parents s =
     (let (parent, name) = split_path p in
      case folder_id_for env parent s of
        (Inr pid, s1) \<Rightarrow> Some (create_in env p name access pid s1)
      | (Inl e, s1) \<Rightarrow>
          if \<not> parents \<or> \<not> is_not_found e then Some (missing_as parent (\<lambda>s. (Inl e, s)) s1)
          else Option.bind (mkdir env parent access True s1) (\<lambda>(made, s2).
            case made of
              Inl e2 \<Rightarrow> Some (Inl e2, s2)
            | Inr _ \<Rightarrow> Some (and_then (folder_id_for env parent) (create_in env p name access) s2)))"

definition handle_mkdir ::
  "'u bridge_env \<Rightarrow> string \<Rightarrow> string \<Rightarrow> bool \<Rightarrow> 'u bridge \<Rightarrow> ((bridge_error + entry) \<times> 'u bridge) option" where
  "handle_mkdir env path access parents s =
     (case server_normalise_path path of
        Inl e \<Rightarrow> Some (refuse e s)
      | Inr p \<Rightarrow>
          if p = ''/'' then
            Some (refuse (bad_request ''The top-level folder already exists; give the path of the folder to create, such as /Documents/2026.'') s)
          else case parse_access access of
            Inl e \<Rightarrow> Some (refuse e s)
          | Inr a \<Rightarrow> mkdir env p a parents s)"

section \<open>Moving, copying, renaming\<close>

text \<open>The folder an item goes into and the name it gets there.\<close>

definition destination :: "'u bridge_env \<Rightarrow> string \<Rightarrow> string \<Rightarrow> ('u, target \<times> string) step" where
  "destination env dst source_name s =
     (let new_name = (\<lambda>s1. let (parent, name) = split_path dst in
            and_then (missing_as parent (require_folder env parent)) (\<lambda>t s.
              case validate_name name of
                Some e \<Rightarrow> (Inl (Failed (Api e)), s)
              | None \<Rightarrow> (Inr (t, name), s)) s1)
      in case resolve_target env dst s of
           (Inr t, s1) \<Rightarrow> if tg_folder t then (Inr (t, source_name), s1) else new_name s1
         | (Inl e, s1) \<Rightarrow> if is_not_found e then new_name s1 else (Inl e, s1))"

definition move_call :: "bool \<Rightarrow> bool \<Rightarrow> target \<Rightarrow> string \<Rightarrow> string \<Rightarrow> api_error + call" where
  "move_call move overwrite source folder name =
     (if tg_folder source
      then move_copy_folder \<lparr>mv_folder = tg_id source, mv_target = folder, mv_move = move, mv_recursive = False, mv_name = name,
             mv_src_sharing = [], mv_dst_sharing = []\<rparr>
      else move_copy_file \<lparr>fm_source = tg_id source, fm_target = folder, fm_move = move, fm_overwrite = overwrite,
             fm_src_access = [], fm_dst_access = [], fm_src_sharing = [], fm_dst_sharing = [], fm_name = name\<rparr>)"

definition move_or_copy :: "'u bridge_env \<Rightarrow> bool \<Rightarrow> string \<Rightarrow> string \<Rightarrow> bool \<Rightarrow> ('u, string \<times> string) step" where
  "move_or_copy env move src dst overwrite =
     and_then (check (server_normalise_path src)) (\<lambda>from_path.
     and_then (check (server_normalise_path dst)) (\<lambda>to_path.
     and_then (resolve_target env from_path) (\<lambda>source.
     and_then (destination env to_path (tg_name source)) (\<lambda>(folder, name).
     and_then (perform env (move_call move overwrite source (tg_id folder) name)) (\<lambda>_ s.
       (Inr (from_path, join_path (tg_path folder) name), invalidate_subtree [from_path, to_path, tg_path folder] s))))))"

definition handle_rename :: "'u bridge_env \<Rightarrow> string \<Rightarrow> string \<Rightarrow> ('u, string \<times> string) step" where
  "handle_rename env path new_name =
     and_then (check (server_normalise_path path)) (\<lambda>p s.
       case validate_name new_name of
         Some e \<Rightarrow> (Inl (Failed (Api e)), s)
       | None \<Rightarrow>
           and_then (resolve_target env p) (\<lambda>t.
           and_then (perform env (if tg_folder t then rename_folder (tg_id t) new_name [] else Files.rename_file (tg_id t) new_name [] [])) (\<lambda>_ s.
             let parent = fst (split_path p) in (Inr (join_path parent new_name, p), invalidate_subtree [p, parent] s))) s)"

section \<open>Removing\<close>

definition drop_target :: "'u bridge_env \<Rightarrow> bool \<Rightarrow> target \<Rightarrow> ('u, string) step" where
  "drop_target env permanent t =
     and_then (perform env (if tg_folder t then trash_folders [tg_id t] [] else trash_files [tg_id t] [])) (\<lambda>x s.
       if permanent then perform env (if tg_folder t then remove_folders [tg_id t] [] else Files.remove_files [tg_id t] [] []) s
       else (Inr x, s))"

text \<open>What the data cache holds goes first. \<open>None\<close> stands for a request that waits for ever for an upload to stop. The answer: whether
  the item is gone for good.\<close>

definition remove_held :: "'u bridge_env \<Rightarrow> string \<Rightarrow> 'u bridge \<Rightarrow> ((bridge_error + nat) \<times> 'u bridge) option" where
  "remove_held env p s =
     (case br_cache s of
        None \<Rightarrow> Some (Inr 0, s)
      | Some c \<Rightarrow>
          case remove_tree (be_fuel env) (be_world env) (be_cname env) (be_drop env) p c of
            None \<Rightarrow> None
          | Some ((_, Some e), c1) \<Rightarrow> Some (Inl (Failed (case e of ErrCtx \<Rightarrow> Sentinel CtxCanceled | _ \<Rightarrow> Plain ''datacache'')), s\<lparr>br_cache := Some c1\<rparr>)
          | Some ((n, None), c1) \<Rightarrow> Some (Inr n, s\<lparr>br_cache := Some c1\<rparr>))"

definition remove_upstream :: "'u bridge_env \<Rightarrow> string \<Rightarrow> bool \<Rightarrow> nat \<Rightarrow> ('u, bool) step" where
  "remove_upstream env p permanent held s =
     (case resolve_target env p s of
        (Inl e, s1) \<Rightarrow>
          if held > 0 \<and> is_not_found e then (Inr True, invalidate_subtree [p, fst (split_path p)] s1)
          else (Inl e, s1)
      | (Inr t, s1) \<Rightarrow>
          and_then (drop_target env permanent t) (\<lambda>_ s. (Inr permanent, invalidate_subtree [p, fst (split_path p)] s)) s1)"

definition handle_remove :: "'u bridge_env \<Rightarrow> string \<Rightarrow> bool \<Rightarrow> 'u bridge \<Rightarrow> ((bridge_error + bool) \<times> 'u bridge) option" where
  "handle_remove env path permanent s =
     (case server_normalise_path path of
        Inl e \<Rightarrow> Some (refuse e s)
      | Inr p \<Rightarrow>
          if p = ''/'' then Some (refuse (bad_request ''The top-level folder cannot be removed.'') s)
          else case remove_held env p s of
            None \<Rightarrow> None
          | Some (Inl e, s1) \<Rightarrow> Some (Inl e, s1)
          | Some (Inr held, s1) \<Rightarrow> Some (remove_upstream env p permanent held s1))"

section \<open>Trash and versions\<close>

definition handle_trash_list :: "'u bridge_env \<Rightarrow> ('u, entry list) step" where
  "handle_trash_list env s =
     (case trash_list (lo_page no_options) [] False [] [] of
        Inl e \<Rightarrow> (Inl (Failed (Api e)), s)
      | Inr cl \<Rightarrow>
          and_then (ask_up (be_list env (ca_request cl))) (\<lambda>li s.
            (Inr (map (\<lambda>f. folder_entry f (''/'' @ de_name f)) (ls_folders li) @ map (\<lambda>f. file_entry f (''/'' @ de_name f)) (ls_files li)), s)) s)"

definition handle_trash_empty :: "'u bridge_env \<Rightarrow> ('u, unit) step" where
  "handle_trash_empty env =
     and_then (perform env empty_trash) (\<lambda>_ s. (Inr (), s\<lparr>br_index := map_option (ix_reset bridge_index) (br_index s)\<rparr>))"

definition handle_versions :: "'u bridge_env \<Rightarrow> string \<Rightarrow> ('u, string \<times> (string \<times> string \<times> int \<times> string option) list) step" where
  "handle_versions env path =
     and_then (check (server_normalise_path path)) (\<lambda>p.
     and_then (resolve_target env p) (\<lambda>t s.
       if tg_folder t then refuse (bad_request (p @ '' is a folder, and only files have versions.'')) s
       else case file_versions (tg_id t) of
         Inl e \<Rightarrow> (Inl (Failed (Api e)), s)
       | Inr cl \<Rightarrow>
           and_then (ask_up (be_versions env (ca_request cl))) (\<lambda>vs s.
             (Inr (p, map (\<lambda>(v, n, z, t). (v, n, z, time_ptr t)) vs), s)) s))"

end
