(* ===== verification/Bridge_Transfers.thy ===== *)
theory Bridge_Transfers
  imports Bridge_Files Cache_Jobs Upload Download
begin

text \<open>
  The endpoints whose request or answer is the content of a file (\<open>transfers.go\<close>, \<open>cache_transfers.go\<close>), and those that look after the data
  cache (\<open>cache.go\<close>). One request runs at a time here; what other requests do to the cache between the calls of one is the subject of
  \<open>Gateway\<close>.
\<close>

section \<open>Where an upload goes\<close>

definition conflict_at :: "string \<Rightarrow> request_error" where
  "conflict_at remote = RequestError (kind_name KindConflict) 409
     (''There is already something at '' @ remote @ ''. Send '' @ [dquote] @ ''overwrite'' @ [dquote] @ '': true to replace it, or choose another name.'')"

definition refuse_existing :: "'u bridge_env \<Rightarrow> string \<Rightarrow> bool \<Rightarrow> 'a \<Rightarrow> ('u, 'a) step" where
  "refuse_existing env remote overwrite x =
     (if overwrite then (\<lambda>s. (Inr x, s))
      else and_then (path_exists env remote) (\<lambda>there s. if there then refuse (conflict_at remote) s else (Inr x, s)))"

definition upload_target :: "'u bridge_env \<Rightarrow> string \<Rightarrow> bool \<Rightarrow> ('u, string \<times> string) step" where
  "upload_target env remote overwrite s =
     (let (parent, name) = split_path remote in
      if name = [] then refuse (bad_request '''remote_path' must include the file name, for example /Documents/report.pdf.'') s
      else case validate_name name of
        Some e \<Rightarrow> (Inl (Failed (Api e)), s)
      | None \<Rightarrow>
          and_then (missing_as parent (require_folder env parent)) (\<lambda>t. refuse_existing env remote overwrite (tg_id t, name)) s)"

definition write_back_enabled :: "datacache option \<Rightarrow> bool" where
  "write_back_enabled dc \<longleftrightarrow> (case dc of None \<Rightarrow> False | Some c \<Rightarrow> st_write_back (status 0 c))"

definition cannot_check :: "string \<Rightarrow> request_error" where
  "cannot_check remote = RequestError (kind_name KindUpstreamError) 503
     (''OpenDrive cannot be reached right now, so the bridge cannot check that nothing is at '' @ remote
        @ '' already. Send overwrite=true to store it anyway '' @ em_dash @ '' it will be delivered when OpenDrive is back '' @ em_dash
        @ '' or try again later.'')"

definition upload_target_or_defer :: "'u bridge_env \<Rightarrow> string \<Rightarrow> bool \<Rightarrow> ('u, string \<times> string) step" where
  "upload_target_or_defer env remote overwrite s =
     (case upload_target env remote overwrite s of
        (Inr x, s1) \<Rightarrow> (Inr x, s1)
      | (Inl e, s1) \<Rightarrow>
          if \<not> bridge_temporary e \<or> \<not> write_back_enabled (br_cache s1) then (Inl e, s1)
          else if \<not> overwrite then refuse (cannot_check remote) s1
          else (Inr ([], snd (split_path remote)), s1))"

section \<open>Taking a body\<close>

text \<open>The body of a request as it is read: the pieces, each with what the file in the cache takes of it; whether it ended well; the length the
  header gives, \<open>-1\<close> for none.\<close>

record body_env =
  bd_chunks :: "(string \<times> nat) list"
  bd_ok :: bool
  bd_length :: int
  bd_tmp :: "string option"
  bd_now :: gotime
  bd_commit :: commit_env
  bd_evict :: "string \<Rightarrow> drop_env"
  bd_md5 :: "string \<Rightarrow> string"

definition body_bytes :: "body_env \<Rightarrow> string" where
  "body_bytes b = concat (map fst (bd_chunks b))"

definition body_stopped :: bridge_error where
  "body_stopped = Refused (bad_request ''The upload stopped before the whole file arrived, so nothing was stored. Try again.'')"

definition store_body :: "(string \<Rightarrow> string) \<Rightarrow> body_env \<Rightarrow> put_request \<Rightarrow> datacache \<Rightarrow> (bridge_error + object) \<times> datacache" where
  "store_body cname b req c =
     (case put req (bd_tmp b) c of
        (Inl e, c1) \<Rightarrow> (Inl (cache_refusal e), c1)
      | (Inr (w, req'), c1) \<Rightarrow>
          case copy_chunks (bd_chunks b) w c1 of
            (Some e, w2, c2) \<Rightarrow> (Inl (if e = ErrCacheFull then cache_refusal e else body_stopped), snd (writer_abort w2 c2))
          | (None, w2, c2) \<Rightarrow>
              if \<not> bd_ok b then (Inl body_stopped, snd (writer_abort w2 c2))
              else case put_commit (bd_md5 b) cname (bd_now b) (bd_commit b) (bd_evict b) req' w2 c2 of
                (r, _, c3) \<Rightarrow> (map_sum cache_refusal id r, c3))"

record upload_answer =
  ua_path :: string
  ua_size :: int
  ua_md5 :: string
  ua_dedup :: bool
  ua_status :: nat \<comment> \<open>202: on this disk and not yet upstream; 201: upstream\<close>

definition accepted :: "object \<Rightarrow> upload_answer" where
  "accepted ob = \<lparr>ua_path = remote_path ob, ua_size = obj_size ob, ua_md5 = obj_hash ob, ua_dedup = False, ua_status = 202\<rparr>"

text \<open>\<open>recoverPanic\<close>: what becomes of a handler that uses a cache that is not there.\<close>

definition panic_answer :: bridge_error where
  "panic_answer = Refused (RequestError (kind_name KindUpstreamError) 500
     ''The bridge hit an internal error handling that request. Nothing was changed. If it keeps happening, the daemon log has the detail.'')"

definition upload_cached :: "'u bridge_env \<Rightarrow> body_env \<Rightarrow> string \<Rightarrow> bool \<Rightarrow> ('u, upload_answer) step" where
  "upload_cached env b path overwrite =
     and_then (check (server_normalise_path path)) (\<lambda>remote.
     and_then (upload_target_or_defer env remote overwrite) (\<lambda>(folder, name) s.
       case br_cache s of
         None \<Rightarrow> (Inl panic_answer, s)
       | Some c \<Rightarrow>
           case store_body (be_cname env) b \<lparr>pr_path = remote, pr_folder = folder, pr_name = name, pr_size = bd_length b\<rparr> c of
             (Inl e, c1) \<Rightarrow> (Inl e, s\<lparr>br_cache := Some c1\<rparr>)
           | (Inr ob, c1) \<Rightarrow>
               (Inr (accepted ob), invalidate_subtree [remote, fst (split_path remote)] (s\<lparr>br_cache := Some c1\<rparr>))))"

definition stream_params :: "string \<Rightarrow> string \<Rightarrow> int \<Rightarrow> bool \<Rightarrow> upload_params" where
  "stream_params folder name n overwrite =
     \<lparr>p_folder = folder, p_name = name, p_size = n, p_hash = [], p_mtime = None, p_open_if_exists = overwrite, p_chunk_size = 0,
      p_access_folder = [], p_sharing = [], p_keep = False\<rparr>"

definition upload_direct :: "'u bridge_env \<Rightarrow> 'u upload_env \<Rightarrow> body_env \<Rightarrow> string \<Rightarrow> bool \<Rightarrow> ('u, upload_answer) step" where
  "upload_direct env ue b path overwrite =
     and_then (check (server_normalise_path path)) (\<lambda>remote.
     and_then (upload_target env remote overwrite) (\<lambda>(folder, name) s.
       if bd_length b < 0
       then refuse (bad_request ''A Content-Length header is required here: OpenDrive is told the file size before the first byte is sent, so it cannot be worked out as the upload goes.'') s
       else case upload ue (stream_params folder name (bd_length b) overwrite) (\<not> bd_ok b) (body_bytes b) (br_up s) of
         ((Inl e, _), u) \<Rightarrow> (Inl (Failed e), s\<lparr>br_up := u\<rparr>)
       | ((Inr r, _), u) \<Rightarrow>
           (Inr \<lparr>ua_path = remote, ua_size = r_sent r, ua_md5 = r_hash r, ua_dedup = r_dedup r, ua_status = 201\<rparr>,
            invalidate_subtree [remote, fst (split_path remote)] (s\<lparr>br_up := u\<rparr>))))"

definition handle_upload_stream :: "'u bridge_env \<Rightarrow> 'u upload_env \<Rightarrow> body_env \<Rightarrow> string \<Rightarrow> bool \<Rightarrow> ('u, upload_answer) step" where
  "handle_upload_stream env ue b path overwrite s =
     (if write_back_enabled (br_cache s) then upload_cached env b path overwrite s else upload_direct env ue b path overwrite s)"

section \<open>Answering with content\<close>

text \<open>The name in \<open>Content-Disposition\<close> is \<open>da_name\<close>. A streamed answer has no length: the client takes what comes as the whole.\<close>

record download_answer =
  da_cache :: "string option" \<comment> \<open>\<open>X-Cache\<close>\<close>
  da_name :: string
  da_length :: "int option"
  da_body :: string

text \<open>Opening the content in the cache, and the download from upstream. \<open>dn_eof\<close> tells the errors that are \<open>io.EOF\<close> or
  \<open>io.ErrUnexpectedEOF\<close>; \<open>dn_room\<close> is how many bytes the client takes before it goes away; the content is read and written on in pieces of the
  given sizes, each with what the file in the cache takes of it.\<close>

record down_env =
  dn_open_ok :: bool
  dn_drop :: drop_env
  dn_touch :: jio
  dn_now :: gotime
  dn_client :: client
  dn_download :: download_env
  dn_disambiguator :: disambiguator
  dn_eof :: "go_error \<Rightarrow> bool"
  dn_room :: "nat option"
  dn_pieces :: "(nat \<times> nat) list"
  dn_rest :: nat \<comment> \<open>what is taken of the last piece\<close>
  dn_tmp :: "string option"
  dn_done :: gotime
  dn_commit :: commit_env
  dn_evict :: "string \<Rightarrow> drop_env"
  dn_md5 :: "string \<Rightarrow> string"

definition header_name :: "string \<Rightarrow> string" where
  "header_name n = filter (\<lambda>ch. ch \<noteq> dquote) n"

definition serve_from_cache ::
  "(string \<Rightarrow> string) \<Rightarrow> down_env \<Rightarrow> string \<Rightarrow> string \<Rightarrow> datacache option \<Rightarrow> download_answer option \<times> datacache option" where
  "serve_from_cache cname dn remote name dc =
     (case dc of
        None \<Rightarrow> (None, None)
      | Some c \<Rightarrow>
          case dc_get cname (dn_now dn) (dn_open_ok dn) (dn_drop dn) (dn_touch dn) remote c of
            (Inl _, c1) \<Rightarrow> (None, Some c1)
          | (Inr (ob, content), c1) \<Rightarrow>
              (Some \<lparr>da_cache = Some ''HIT'', da_name = header_name name, da_length = Some (obj_size ob), da_body = content\<rparr>, Some c1))"

text \<open>The bytes in the pieces they are written in.\<close>

fun in_pieces :: "(nat \<times> nat) list \<Rightarrow> nat \<Rightarrow> string \<Rightarrow> (string \<times> nat) list" where
  "in_pieces [] rest bs = [(bs, rest)]"
| "in_pieces ((n, k) # ps) rest bs = (take n bs, k) # in_pieces ps rest (drop n bs)"

text \<open>\<open>fillingWriter\<close>: the cache gives up at the first failed write.\<close>

definition filling_write :: "string \<Rightarrow> nat \<Rightarrow> bool \<Rightarrow> dc_writer \<Rightarrow> datacache \<Rightarrow> bool \<times> dc_writer \<times> datacache" where
  "filling_write bs k broken w c =
     (if bs = [] \<or> broken then (broken, w, c)
      else case writer_write bs k w c of
        ((_, Some _), w1, c1) \<Rightarrow> (case writer_abort w1 c1 of (w2, c2) \<Rightarrow> (True, w2, c2))
      | ((_, None), w1, c1) \<Rightarrow> (False, w1, c1))"

fun filling_copy :: "(string \<times> nat) list \<Rightarrow> bool \<Rightarrow> dc_writer \<Rightarrow> datacache \<Rightarrow> bool \<times> dc_writer \<times> datacache" where
  "filling_copy [] broken w c = (broken, w, c)"
| "filling_copy ((bs, k) # rest) broken w c = (case filling_write bs k broken w c of (b1, w1, c1) \<Rightarrow> filling_copy rest b1 w1 c1)"

definition fill_cache_with :: "(string \<Rightarrow> string) \<Rightarrow> down_env \<Rightarrow> string \<Rightarrow> string \<Rightarrow> bool \<Rightarrow> datacache \<Rightarrow> datacache" where
  "fill_cache_with cname dn remote got whole c =
     (case fill remote (dn_tmp dn) c of
        (Inl _, c1) \<Rightarrow> c1
      | (Inr w, c1) \<Rightarrow>
          case filling_copy (in_pieces (dn_pieces dn) (dn_rest dn) got) False w c1 of
            (broken, w2, c2) \<Rightarrow>
              if broken \<or> \<not> whole then snd (writer_abort w2 c2)
              else snd (snd (commit_clean (dn_md5 dn) cname (dn_done dn) (dn_commit dn) (dn_evict dn) [] w2 c2)))"

definition arrived_whole :: "download_result option \<Rightarrow> bool" where
  "arrived_whole res \<longleftrightarrow> (case res of None \<Rightarrow> False | Some r \<Rightarrow> dr_total r \<le> 0 \<or> dr_written r = dr_total r)"

definition folder_download :: "string \<Rightarrow> request_error" where
  "folder_download remote = bad_request (remote @ '' is a folder. Use the archive download for a whole folder.'')"

text \<open>The pipe between the download and the answer: what went into it and how it was closed. Nothing is answered before this much is there, or
  all of it.\<close>

definition head_size :: nat where "head_size = 32 * 1024"

definition piped :: "down_env \<Rightarrow> target \<Rightarrow> download_result option \<times> go_error option \<times> sink" where
  "piped dn t =
     download (dn_client dn) (dn_md5 dn) (dn_download dn)
       \<lparr>dl_file = tg_id t, dl_offset = 0, dl_size = en_size (tg_entry t), dl_hash = [], dl_sharing = [], dl_inline = False, dl_probe = None\<rparr>
       \<lparr>sk_bytes = [], sk_room = None\<rparr> (dn_disambiguator dn)"

definition failed_early :: "down_env \<Rightarrow> go_error option \<Rightarrow> string \<Rightarrow> bool" where
  "failed_early dn err bytes \<longleftrightarrow> length bytes < head_size \<and> (case err of None \<Rightarrow> False | Some e \<Rightarrow> \<not> dn_eof dn e)"

definition taken_by_client :: "down_env \<Rightarrow> string \<Rightarrow> string" where
  "taken_by_client dn bytes = (case dn_room dn of None \<Rightarrow> bytes | Some n \<Rightarrow> take n bytes)"

definition stream_answer_of :: "'u bridge_env \<Rightarrow> down_env \<Rightarrow> string \<Rightarrow> target \<Rightarrow> ('u, download_answer) step" where
  "stream_answer_of env dn remote t s =
     (case piped dn t of
        (res, err, snk) \<Rightarrow>
          if failed_early dn err (sk_bytes snk) then (Inl (Failed (the err)), s)
          else
            let got = taken_by_client dn (sk_bytes snk);
                whole = (got = sk_bytes snk \<and> err = None \<and> arrived_whole res)
            in (Inr \<lparr>da_cache = map_option (\<lambda>_. ''MISS'') (br_cache s), da_name = header_name (tg_name t), da_length = None, da_body = got\<rparr>,
                s\<lparr>br_cache := map_option (fill_cache_with (be_cname env) dn remote got whole) (br_cache s)\<rparr>))"

definition handle_download_stream :: "'u bridge_env \<Rightarrow> down_env \<Rightarrow> string \<Rightarrow> ('u, download_answer) step" where
  "handle_download_stream env dn path =
     and_then (check (server_normalise_path path)) (\<lambda>remote s.
       case serve_from_cache (be_cname env) dn remote (base_name remote) (br_cache s) of
         (Some a, dc) \<Rightarrow> (Inr a, s\<lparr>br_cache := dc\<rparr>)
       | (None, dc) \<Rightarrow>
           and_then (resolve_target env remote) (\<lambda>t.
             if \<not> tg_folder t then stream_answer_of env dn remote t else refuse (folder_download remote)) (s\<lparr>br_cache := dc\<rparr>))"

text \<open>\<open>handleArchive\<close>: only folders, and nothing is kept.\<close>

definition handle_archive :: "'u bridge_env \<Rightarrow> down_env \<Rightarrow> string \<Rightarrow> ('u, download_answer) step" where
  "handle_archive env dn path =
     and_then (check (server_normalise_path path)) (\<lambda>remote.
     and_then (require_folder env remote) (\<lambda>t s.
       case archive (dn_client dn) (dn_download dn) [tg_id t] \<lparr>sk_bytes = [], sk_room = None\<rparr> (dn_disambiguator dn) of
         (_, err, snk) \<Rightarrow>
           if failed_early dn err (sk_bytes snk) then (Inl (Failed (the err)), s)
           else (Inr \<lparr>da_cache = None, da_name = tg_name t @ ''.zip'', da_length = None, da_body = taken_by_client dn (sk_bytes snk)\<rparr>, s)))"

section \<open>Looking after the cache\<close>

definition status_without_cache :: cache_status where
  "status_without_cache =
     \<lparr>st_write_back = False, st_bytes = 0, st_max_bytes = 0, st_objects = 0, st_dirty_bytes = 0, st_dirty_objects = 0, st_max_dirty_bytes = 0,
      st_oldest_age = None, st_safe = True, st_hits = 0, st_misses = 0\<rparr>"

text \<open>The first member is \<open>Enabled\<close>.\<close>

definition handle_cache_status :: "gotime \<Rightarrow> datacache option \<Rightarrow> bool \<times> cache_status" where
  "handle_cache_status now dc = (case dc of None \<Rightarrow> (False, status_without_cache) | Some c \<Rightarrow> (True, status now c))"

definition handle_cache_objects :: "datacache option \<Rightarrow> object list" where
  "handle_cache_objects dc = (case dc of None \<Rightarrow> [] | Some c \<Rightarrow> objects_list c)"

definition with_cache_of :: "(datacache \<Rightarrow> cache_error option \<times> datacache) \<Rightarrow> (datacache \<Rightarrow> 'a) \<Rightarrow> ('u, 'a) step" where
  "with_cache_of op answer s =
     (case br_cache s of
        None \<Rightarrow> (Inl cache_unavailable, s)
      | Some c \<Rightarrow>
          case op c of
            (Some e, c1) \<Rightarrow> (Inl (cache_refusal e), s\<lparr>br_cache := Some c1\<rparr>)
          | (None, c1) \<Rightarrow> (Inr (answer c1), s\<lparr>br_cache := Some c1\<rparr>))"

definition optional_path :: "string \<Rightarrow> request_error + string" where
  "optional_path p = (if p = [] then Inr [] else server_normalise_path p)"

text \<open>\<open>None\<close>: the request waits for ever.\<close>

definition handle_cache_flush ::
  "nat \<Rightarrow> (datacache \<Rightarrow> datacache option) \<Rightarrow> gotime \<Rightarrow> string \<Rightarrow> bool \<Rightarrow> 'u bridge \<Rightarrow> ((bridge_error + cache_status) \<times> 'u bridge) option" where
  "handle_cache_flush n world now path wait s =
     (case br_cache s of
        None \<Rightarrow> Some (Inl cache_unavailable, s)
      | Some c \<Rightarrow>
          case optional_path path of
            Inl e \<Rightarrow> Some (Inl (Refused e), s)
          | Inr p \<Rightarrow>
              case flush_wait n world p wait c of
                None \<Rightarrow> None
              | Some out \<Rightarrow> Some (with_cache_of (\<lambda>_. out) (status now) s))"

definition handle_cache_refresh :: "(string \<Rightarrow> string) \<Rightarrow> drop_env \<Rightarrow> string \<Rightarrow> ('u, string) step" where
  "handle_cache_refresh cname d path s =
     (if br_cache s = None then (Inl cache_unavailable, s)
      else and_then (check (server_normalise_path path)) (\<lambda>p. with_cache_of (refresh cname d p) (\<lambda>_. p)) s)"

definition handle_cache_clear :: "(string \<Rightarrow> string) \<Rightarrow> (string \<Rightarrow> drop_env) \<Rightarrow> gotime \<Rightarrow> ('u, cache_status) step" where
  "handle_cache_clear cname env now = with_cache_of (clear cname env) (status now)"

end
