(* ===== verification/Bridge_Jobs.thy ===== *)
theory Bridge_Jobs
  imports Bridge_Transfers Job_Engine
begin

text \<open>
  The endpoints that hand a transfer to the job engine and report on it, and those for share links (\<open>transfers.go\<close>). The engine may be missing.
  Cancelling runs to its end here; its steps between those of the workers are the subject of \<open>Job_Runs\<close>.
\<close>

section \<open>Starting a transfer\<close>

record 's job_side =
  jb_ops :: "'s store_ops"
  jb_cfg :: engine_cfg
  jb_id :: string \<comment> \<open>the fresh id\<close>
  jb_now :: gotime

type_synonym ('u, 's, 'a) job_step = "'u bridge \<times> 's engine option \<Rightarrow> (bridge_error + 'a) \<times> 'u bridge \<times> 's engine option"

definition with_engine :: "('u bridge \<Rightarrow> 's engine \<Rightarrow> (bridge_error + 'a) \<times> 'u bridge \<times> 's engine) \<Rightarrow> ('u, 's, 'a) job_step" where
  "with_engine f se =
     (case snd se of
        None \<Rightarrow> (Inl transfers_unavailable, se)
      | Some e \<Rightarrow> (case f (fst se) e of (r, s1, e1) \<Rightarrow> (r, s1, Some e1)))"

definition submitted ::
  "'s job_side \<Rightarrow> job_spec \<Rightarrow> ('u bridge \<Rightarrow> 'u bridge) \<Rightarrow> 'u bridge \<Rightarrow> 's engine \<Rightarrow> (bridge_error + job) \<times> 'u bridge \<times> 's engine" where
  "submitted js sp after s e =
     (case submit (jb_ops js) (jb_cfg js) (jb_id js) (jb_now js) sp e of
        (Inl msg, e1) \<Rightarrow> (Inl (Failed (Plain msg)), s, e1)
      | (Inr j, e1) \<Rightarrow> (Inr j, after s, e1))"

definition upload_spec :: "string \<Rightarrow> string \<Rightarrow> string \<Rightarrow> string \<Rightarrow> int \<Rightarrow> bool \<Rightarrow> job_spec" where
  "upload_spec local folder name remote n overwrite =
     \<lparr>sp_kind = JobUpload, sp_local = local, sp_folder = folder, sp_name = name, sp_file_id = [], sp_remote = remote, sp_size = n,
      sp_hash = [], sp_overwrite = overwrite\<rparr>"

definition local_size :: "string \<Rightarrow> local_stat \<Rightarrow> request_error + int" where
  "local_size local st =
     (if local = [] then Inl (bad_request '''local_path' must name the file on this machine to upload.'')
      else case st of
        StatFails \<Rightarrow> Inl (bad_request (''There is no readable file at '' @ path_base local @ '' on the machine running the bridge.''))
      | StatDir \<Rightarrow> Inl (bad_request (path_base local @ '' is a folder. Upload files one at a time.''))
      | StatFile n \<Rightarrow> Inr n)"

definition handle_upload ::
  "'u bridge_env \<Rightarrow> 's job_side \<Rightarrow> local_stat \<Rightarrow> string \<Rightarrow> string \<Rightarrow> bool \<Rightarrow> ('u, 's, job) job_step" where
  "handle_upload env js st local path overwrite =
     with_engine (\<lambda>s e.
       case and_then (check (server_normalise_path path)) (\<lambda>remote.
            and_then (check (local_size local st)) (\<lambda>n.
            and_then (upload_target_or_defer env remote overwrite) (\<lambda>(folder, name) s. (Inr (remote, n, folder, name), s)))) s of
         (Inl err, s1) \<Rightarrow> (Inl err, s1, e)
       | (Inr (remote, n, folder, name), s1) \<Rightarrow>
           submitted js (upload_spec local folder name remote n overwrite) (invalidate_subtree [remote, fst (split_path remote)]) s1 e)"

definition download_spec :: "string \<Rightarrow> string \<Rightarrow> string \<Rightarrow> int \<Rightarrow> job_spec" where
  "download_spec local remote fid n =
     \<lparr>sp_kind = JobDownload, sp_local = local, sp_folder = [], sp_name = [], sp_file_id = fid, sp_remote = remote, sp_size = n,
      sp_hash = [], sp_overwrite = False\<rparr>"

definition held_by_cache :: "datacache option \<Rightarrow> string \<Rightarrow> bool" where
  "held_by_cache dc remote \<longleftrightarrow> (case dc of None \<Rightarrow> False | Some c \<Rightarrow> dc_has remote c)"

definition download_source :: "'u bridge_env \<Rightarrow> string \<Rightarrow> ('u, string \<times> int) step" where
  "download_source env remote s =
     (if held_by_cache (br_cache s) remote then (Inr ([], 0), s)
      else and_then (resolve_target env remote) (\<lambda>t s.
        if tg_folder t then refuse (folder_download remote) s else (Inr (tg_id t, en_size (tg_entry t)), s)) s)"

definition handle_download :: "'u bridge_env \<Rightarrow> 's job_side \<Rightarrow> string \<Rightarrow> string \<Rightarrow> ('u, 's, job) job_step" where
  "handle_download env js path local =
     with_engine (\<lambda>s e.
       case and_then (check (server_normalise_path path)) (\<lambda>remote.
            if local = [] then refuse (bad_request '''local_path' must say where to save the file on the machine running the bridge.'')
            else and_then (download_source env remote) (\<lambda>(fid, n) s. (Inr (remote, fid, n), s))) s of
         (Inl err, s1) \<Rightarrow> (Inl err, s1, e)
       | (Inr (remote, fid, n), s1) \<Rightarrow> submitted js (download_spec local remote fid n) (\<lambda>s. s) s1 e)"

section \<open>Reporting on transfers\<close>

definition readable_job :: "job \<Rightarrow> job" where
  "readable_job j =
     (case j_error j of
        None \<Rightarrow> j
      | Some e \<Rightarrow>
          if je_message e = [] then j
          else let w = user_wording_for (je_code e) (je_message e)
               in if w = [] then j else j\<lparr>j_error := Some (e\<lparr>je_message := w\<rparr>)\<rparr>)"

definition job_not_found :: bridge_error where
  "job_not_found = Refused (RequestError (kind_name KindNotFound) 404 ''There is no transfer with that id. It may have finished and been cleared.'')"

definition handle_job_list :: "('u, 's, job list) job_step" where
  "handle_job_list = with_engine (\<lambda>s e. (Inr (map readable_job (list_jobs e)), s, e))"

definition shown_job :: "string \<Rightarrow> 's engine \<Rightarrow> bridge_error + job" where
  "shown_job i e = (case get_job i e of None \<Rightarrow> Inl job_not_found | Some j \<Rightarrow> Inr (readable_job j))"

definition handle_job_get :: "string \<Rightarrow> ('u, 's, job) job_step" where
  "handle_job_get i = with_engine (\<lambda>s e. (shown_job i e, s, e))"

text \<open>\<open>Engine.Cancel\<close> to its end; \<open>persist\<close> saves the job as it stands in the table. The answer is whether it returned without an error.\<close>

definition persist :: "'s store_ops \<Rightarrow> string \<Rightarrow> 's engine \<Rightarrow> bool \<times> 's engine" where
  "persist ops i e =
     (case get_job i e of
        None \<Rightarrow> (True, e)
      | Some j \<Rightarrow> (case st_save ops j (en_store e) of (ok, st) \<Rightarrow> (ok, e\<lparr>en_store := st\<rparr>)))"

definition cancel_job ::
  "'s store_ops \<Rightarrow> (go_error + record_info) \<Rightarrow> string \<Rightarrow> gotime \<Rightarrow> 's engine \<Rightarrow> bridge_error option \<times> 's engine" where
  "cancel_job ops info i now e =
     (case cancel_mark i now e of
        (CancelNotFound, e1) \<Rightarrow> (Some job_not_found, e1)
      | (CancelDone, e1) \<Rightarrow> (None, e1)
      | (CancelSignalled, e1) \<Rightarrow> (None, e1)
      | (CancelMarked j, e1) \<Rightarrow>
          case persist ops i (request_delete info (Some j) (e1\<lparr>en_cancelling := AList.delete i (en_cancelling e1)\<rparr>)) of
            (ok, e2) \<Rightarrow> (if ok then None else Some (Failed (Plain ''cannot persist the job'')), e2))"

definition handle_job_cancel :: "'s job_side \<Rightarrow> (go_error + record_info) \<Rightarrow> string \<Rightarrow> ('u, 's, job) job_step" where
  "handle_job_cancel js info i =
     with_engine (\<lambda>s e.
       case cancel_job (jb_ops js) info i (jb_now js) e of
         (Some err, e1) \<Rightarrow> (Inl err, s, e1)
       | (None, e1) \<Rightarrow> (shown_job i e1, s, e1))"

section \<open>Share links\<close>

text \<open>A date as upstream takes it; \<open>is_date\<close> is whether \<open>time.Parse\<close> accepts it.\<close>

definition link_call :: "target \<Rightarrow> string \<Rightarrow> int \<Rightarrow> bool \<Rightarrow> api_error + call" where
  "link_call t date uses limited = (if tg_folder t then folder_expiring_link (tg_id t) date uses limited else file_expiring_link (tg_id t) date uses limited)"

record share_answer =
  sh_path :: string
  sh_url :: string
  sh_expires :: string
  sh_max_uses :: int

definition handle_share_create :: "'u bridge_env \<Rightarrow> (string \<Rightarrow> bool) \<Rightarrow> string \<Rightarrow> string \<Rightarrow> string \<Rightarrow> int \<Rightarrow> ('u, share_answer) step" where
  "handle_share_create env is_date next_week path expires_at max_uses =
     and_then (check (server_normalise_path path)) (\<lambda>p.
       let expires = (if expires_at = [] then next_week else expires_at) in
       if expires_at \<noteq> [] \<and> \<not> is_date expires_at then refuse (bad_request '''expires_at' must be a date such as 2026-12-31.'')
       else and_then (resolve_target env p) (\<lambda>t.
            and_then (perform env (link_call t expires max_uses (max_uses > 0))) (\<lambda>url s.
              (Inr \<lparr>sh_path = p, sh_url = url, sh_expires = expires, sh_max_uses = max_uses\<rparr>, s))))"

text \<open>The links of an item: address, date, limit, uses.\<close>

definition handle_share_list ::
  "'u bridge_env \<Rightarrow> (request \<Rightarrow> 'u \<Rightarrow> (go_error + (string \<times> string \<times> int \<times> int)) \<times> 'u) \<Rightarrow> string
    \<Rightarrow> ('u, string \<times> (string \<times> string \<times> int \<times> int) list) step" where
  "handle_share_list env links path =
     and_then (check (server_normalise_path path)) (\<lambda>p.
     and_then (resolve_target env p) (\<lambda>t s.
       case (if tg_folder t then folder_expiring_links (tg_id t) else file_expiring_links (tg_id t)) of
         Inl e \<Rightarrow> (Inl (Failed (Api e)), s)
       | Inr cl \<Rightarrow> and_then (ask_up (links (ca_request cl))) (\<lambda>l s. (Inr (p, if fst l = [] then [] else [l]), s)) s))"

definition handle_share_revoke :: "'u bridge_env \<Rightarrow> string \<Rightarrow> string \<Rightarrow> ('u, string) step" where
  "handle_share_revoke env yesterday path =
     and_then (check (server_normalise_path path)) (\<lambda>p.
     and_then (resolve_target env p) (\<lambda>t.
     and_then (perform env (link_call t yesterday 0 False)) (\<lambda>_ s. (Inr p, s))))"

end
