(* ===== verification/Bridge_Files_Props.thy ===== *)
theory Bridge_Files_Props
  imports Bridge_Files
begin

text \<open>What the handlers of \<open>Bridge_Files\<close> promise.\<close>

section \<open>Paths the server accepts\<close>

lemma server_path_canonical:
  assumes "server_normalise_path p = Inr q"
  shows "canonical q"
proof -
  obtain s where s: "p = slash # s" "''..'' \<notin> set (trimmed_segments s)" "q = slash # join_with slash (kept_segments s)"
    using assms by (auto simp: server_normalise_path_def split_trim_segments clean_trim_segments Let_def prefix_def split: if_splits)
  then show ?thesis using kept_segments_good [OF s(2)] by (auto simp: canonical_iff)
qed

lemma cache_key_root: "cache_normalise_path ''/'' = ''/''"
  by code_simp

lemma cache_key_canonical: "canonical p \<Longrightarrow> cache_normalise_path p = p"
  by (erule canonical_cases) (simp_all add: cache_key_root cache_key_child)

section \<open>Making a folder comes to an end\<close>

lemma folder_id_for_root [simp]: "folder_id_for env ''/'' s = (Inr root_folder_id, s)"
  by (simp add: folder_id_for_def)

lemma mkdir_ends:
  assumes "\<forall>w \<in> set ws. good_segment w"
  shows "mkdir env (slash # join_with slash ws) access parents s \<noteq> None"
  using assms
proof (induction ws arbitrary: parents s rule: rev_induct)
  case Nil
  have "split_path ''/'' = (''/'', [])" by (simp add: split_path_def)
  then show ?case by (simp add: mkdir.simps)
next
  case (snoc w ws)
  let ?parent = "slash # join_with slash ws"
  have split: "split_path (slash # join_with slash (ws @ [w])) = (?parent, w)" using split_path_child [OF snoc.prems] .
  obtain r s1 where f: "folder_id_for env ?parent s = (r, s1)" by fastforce
  have "mkdir env ?parent access True s1 \<noteq> None" using snoc.IH snoc.prems by simp
  then show ?case by (subst mkdir.simps) (auto simp: split f split: sum.split)
qed

text \<open>C22: Making a folder with its missing parents always comes to an end: for every request, path and upstream, the recursion over the
  parents reaches a folder that is there, at the latest the top.\<close>
theorem mkdir_always_answers: "handle_mkdir env path access parents s \<noteq> None"
proof (cases "server_normalise_path path")
  case (Inr p)
  then obtain ws where "p = slash # join_with slash ws" "\<forall>w \<in> set ws. good_segment w"
    using server_path_canonical canonical_iff by blast
  then have "mkdir env p a parents s \<noteq> None" for a using mkdir_ends by blast
  then show ?thesis by (auto simp: handle_mkdir_def Inr split: sum.split)
qed (simp add: handle_mkdir_def)

section \<open>Removing\<close>

definition below :: "string \<Rightarrow> string \<Rightarrow> bool" where
  "below d q \<longleftrightarrow> q = d \<or> prefix (tree_prefix d) q"

text \<open>What others do to the cache while a removal waits: they add nothing.\<close>

definition only_shrinks :: "(nat \<Rightarrow> datacache \<Rightarrow> datacache option) \<Rightarrow> bool" where
  "only_shrinks world \<longleftrightarrow> (\<forall>k c c'. world k c = Some c' \<longrightarrow> keys (objs c') \<subseteq> keys (objs c))"

lemma only_shrinksD: "only_shrinks world \<Longrightarrow> world k c = Some c' \<Longrightarrow> keys (objs c') \<subseteq> keys (objs c)"
  unfolding only_shrinks_def by (elim allE impE)

lemma remove_attempt_keys:
  "remove_attempt cname e p c = (RemoveAbsent, c') \<Longrightarrow> c' = c \<and> p \<notin> keys (objs c)"
  "remove_attempt cname e p c = (RemoveDropped u, c') \<Longrightarrow> keys (objs c') = keys (objs c) - {p}"
  "remove_attempt cname e p c = (RemoveWaits ch, c') \<Longrightarrow> keys (objs c') = keys (objs c)"
proof -
  show "remove_attempt cname e p c = (RemoveAbsent, c') \<Longrightarrow> c' = c \<and> p \<notin> keys (objs c)"
    by (simp add: remove_attempt_def waiter_locked_def Let_def lookup_None_iff split: option.splits)
  show "remove_attempt cname e p c = (RemoveDropped u, c') \<Longrightarrow> keys (objs c') = keys (objs c) - {p}"
    by (clarsimp simp add: remove_attempt_def waiter_locked_def Let_def forget_effect keys_delete split: option.splits)
  show "remove_attempt cname e p c = (RemoveWaits ch, c') \<Longrightarrow> keys (objs c') = keys (objs c)"
    by (clarsimp simp add: remove_attempt_def waiter_locked_def Let_def split: option.splits)
qed

lemma remove_loop_keys:
  "only_shrinks world \<Longrightarrow> remove_loop n world cname e p c = Some ((f, u, None), c') \<Longrightarrow> keys (objs c') \<subseteq> keys (objs c) - {p}"
proof (induction n world cname e p c rule: remove_loop.induct)
  case (2 n world cname e p c)
  obtain r c1 where r: "remove_attempt cname e p c = (r, c1)" by fastforce
  show ?case
  proof (cases r)
    case RemoveAbsent
    then have "c1 = c" "p \<notin> keys (objs c)" using remove_attempt_keys(1) r by simp_all
    moreover have "c' = c1" using 2(3) r RemoveAbsent by simp
    ultimately show ?thesis by blast
  next
    case (RemoveDropped v)
    then have "keys (objs c1) = keys (objs c) - {p}" using remove_attempt_keys(2) r by blast
    moreover have "c' = c1" using 2(3) r RemoveDropped by simp
    ultimately show ?thesis by blast
  next
    case (RemoveWaits ch)
    then obtain c2 where w: "world ch c1 = Some c2" "remove_loop n world cname e p c2 = Some ((f, u, None), c')"
      using 2(3) r by (auto split: option.splits)
    from 2(1) [OF r [symmetric] RemoveWaits w(1) 2(2) w(2)] have "keys (objs c') \<subseteq> keys (objs c2) - {p}" .
    also have "\<dots> \<subseteq> keys (objs c) - {p}"
    proof -
      have "keys (objs c2) \<subseteq> keys (objs c1)" using only_shrinksD [OF 2(2) w(1)] .
      also have "\<dots> = keys (objs c)" using remove_attempt_keys(3) r RemoveWaits by blast
      finally show ?thesis by blast
    qed
    finally show ?thesis .
  qed
qed simp

lemma less_and_less: "A \<subseteq> C - {x} \<Longrightarrow> B \<subseteq> A - S \<Longrightarrow> B \<subseteq> C - insert x S"
  by blast

lemma remove_each_keys:
  "only_shrinks world \<Longrightarrow> remove_each n world cname env ps k c = Some ((m, None), c') \<Longrightarrow>
    keys (objs c') \<subseteq> keys (objs c) - cache_normalise_path ` set ps"
proof (induction n world cname env ps k c rule: remove_each.induct)
  case (2 n world cname env p ps k c)
  then obtain f u c1 where r: "remove_object n world cname (env p) p c = Some ((f, u, None), c1)"
    and rest: "remove_each n world cname env ps (if f then Suc k else k) c1 = Some ((m, None), c')"
    using 2(3) by (auto split: option.splits)
  have "keys (objs c1) \<subseteq> keys (objs c) - {cache_normalise_path p}"
    using remove_loop_keys [OF 2(2) r [unfolded remove_object_def]] .
  moreover have "keys (objs c') \<subseteq> keys (objs c1) - cache_normalise_path ` set ps"
    using 2(1) [OF r refl refl refl refl 2(2) rest] .
  ultimately have "keys (objs c') \<subseteq> keys (objs c) - insert (cache_normalise_path p) (cache_normalise_path ` set ps)"
    by (rule less_and_less)
  then show ?case by simp
qed simp

definition canonical_keys :: "datacache \<Rightarrow> bool" where
  "canonical_keys c \<longleftrightarrow> (\<forall>q \<in> keys (objs c). canonical q)"

lemma remove_tree_clears:
  assumes "only_shrinks world" "canonical_keys c" "canonical p"
    and "remove_tree n world cname env p c = Some ((m, None), c')" "q \<in> keys (objs c')"
  shows "\<not> below p q"
proof
  assume b: "below p q"
  have sub: "keys (objs c') \<subseteq> keys (objs c) - cache_normalise_path ` set (tree_paths p c)"
    using remove_each_keys [OF assms(1)] assms(4) cache_key_canonical [OF assms(3)] unfolding remove_tree_def by metis
  have "q \<in> set (tree_paths p c)" using b sub assms(5) by (auto simp: tree_paths_def below_def)
  moreover have "cache_normalise_path q = q" using sub assms(2,5) cache_key_canonical unfolding canonical_keys_def by blast
  ultimately show False using sub assms(5) by (metis Diff_iff image_eqI subsetD)
qed

text \<open>The steps after the removal leave the data cache alone.\<close>

definition keeps_cache :: "('u, 'a) step \<Rightarrow> bool" where
  "keeps_cache f \<longleftrightarrow> (\<forall>s. br_cache (snd (f s)) = br_cache s)"

named_theorems cache_kept

lemma and_then_keeps [cache_kept]: "keeps_cache f \<Longrightarrow> (\<And>x. keeps_cache (g x)) \<Longrightarrow> keeps_cache (and_then f g)"
  unfolding keeps_cache_def and_then_def by (simp split: prod.split sum.split) (metis snd_conv)

lemma steps_keep [cache_kept]:
  "keeps_cache (check r)" "keeps_cache (refuse e)" "keeps_cache (ask_up h)" "keeps_cache (perform env op)"
  "keeps_cache (folder_id_for env p)" "keeps_cache (list_dir env fid opts)"
  by (auto simp: keeps_cache_def check_def refuse_def ask_up_def perform_def folder_id_for_def list_dir_def split: sum.split prod.split)

lemma if_keeps [cache_kept]: "keeps_cache f \<Longrightarrow> keeps_cache g \<Longrightarrow> keeps_cache (if b then f else g)"
  by simp

lemma pure_keeps [cache_kept]: "keeps_cache (\<lambda>s. (r, s))" "keeps_cache (\<lambda>s. (r, invalidate_subtree ps s))"
  by (simp_all add: keeps_cache_def invalidate_subtree_def)

lemma missing_keeps [cache_kept]: "keeps_cache f \<Longrightarrow> keeps_cache (missing_as p f)"
  unfolding keeps_cache_def missing_as_def by (simp split: prod.split sum.split bridge_error.split) (metis snd_conv)

lemma resolve_keeps [cache_kept]: "keeps_cache (resolve_target env p)"
proof -
  have found: "keeps_cache (\<lambda>s. case target_of p pid name li of Some t \<Rightarrow> (Inr t, s) | None \<Rightarrow> (Inl e, s))" for pid name li e
    by (cases "target_of p pid name li") (simp_all add: keeps_cache_def)
  show ?thesis unfolding resolve_target_def Let_def by (cases "split_path p") (auto intro!: cache_kept found)
qed

lemma by_path_forget_path: "set (by_path (cc_cache (forget_path p c))) \<subseteq> set (by_path (cc_cache c))"
  using drop_subtree_sub by (simp add: forget_path_def pc_invalidate_path_def)

lemma by_path_forget_with_parent: "set (by_path (cc_cache (forget_with_parent p c))) \<subseteq> set (by_path (cc_cache c))"
  unfolding forget_with_parent_def Let_def using by_path_forget_path by (simp split: if_split) (meson order_trans)

lemma by_path_forget_all: "set (by_path (cc_cache (fold forget_with_parent ps c))) \<subseteq> set (by_path (cc_cache c))"
proof (induction ps arbitrary: c)
  case (Cons p ps)
  show ?case using Cons [of "forget_with_parent p c"] by_path_forget_with_parent [of p c] by simp
qed simp

lemma forget_path_gone: "p \<noteq> [] \<Longrightarrow> gone p (cc_cache (forget_path p c))"
  by (auto simp: gone_def forget_path_def pc_invalidate_path_def by_path_drop_subtree)

lemma forgotten_gone:
  assumes "p \<noteq> []" "p \<in> set ps"
  shows "gone p (cc_cache (fold forget_with_parent ps c))"
  using assms(2)
proof (induction ps arbitrary: c)
  case (Cons q ps)
  have "gone p (cc_cache (fold forget_with_parent ps (forget_with_parent p c)))"
  proof -
    have "gone p (cc_cache (forget_with_parent p c))"
      using gone_subset [OF forget_path_gone by_path_forget_path] forget_path_gone assms(1)
      by (simp add: forget_with_parent_def Let_def)
    then show ?thesis using gone_subset by_path_forget_all by blast
  qed
  then show ?case using Cons by (cases "q = p") auto
qed simp

lemma invalidated_gone: "br_index (invalidate_subtree ps s) = Some ix \<Longrightarrow> p \<in> set ps \<Longrightarrow> p \<noteq> [] \<Longrightarrow> gone p (cc_cache ix)"
  unfolding invalidate_subtree_def by (auto simp del: fold.simps intro: forgotten_gone)

lemma invalidate_frame [simp]: "br_cache (invalidate_subtree ps s) = br_cache s" "br_up (invalidate_subtree ps s) = br_up s"
  by (simp_all add: invalidate_subtree_def)

lemma drop_target_keeps [cache_kept]: "keeps_cache (drop_target env permanent t)"
  unfolding drop_target_def
  by (rule and_then_keeps) (auto intro!: cache_kept simp: keeps_cache_def perform_def split: sum.split prod.split)

lemma drop_targetE:
  assumes "drop_target env permanent t s = (Inr x, s')"
  obtains cl y u where "destructive [tg_id t] cl" "be_send env cl (br_up s) = (Inr y, u)"
proof -
  let ?op = "if tg_folder t then trash_folders [tg_id t] [] else trash_files [tg_id t] []"
  obtain y s1 where "perform env ?op s = (Inr y, s1)"
    using assms by (auto simp: drop_target_def and_then_def split: sum.splits prod.splits)
  then obtain cl u where cl: "?op = Inr cl" "be_send env cl (br_up s) = (Inr y, u)"
    by (auto simp: perform_def split: sum.splits prod.splits)
  from cl(1) have "destructive [tg_id t] cl" by (auto intro: destructive.intros split: if_splits)
  with cl(2) that show ?thesis by blast
qed

lemma remove_upstreamE:
  assumes "remove_upstream env p permanent n s = (Inr g, s')"
  obtains s2 t cl y u s3 where "resolve_target env p s = (Inr t, s2)" "destructive [tg_id t] cl" "be_send env cl (br_up s2) = (Inr y, u)"
      "br_cache s3 = br_cache s" "s' = invalidate_subtree [p, fst (split_path p)] s3"
  | e s2 where "resolve_target env p s = (Inl e, s2)" "is_not_found e" "n > 0" "br_cache s2 = br_cache s"
      "s' = invalidate_subtree [p, fst (split_path p)] s2"
proof (cases "resolve_target env p s")
  case (Pair r s2)
  have k: "br_cache s2 = br_cache s" using resolve_keeps [of env p] Pair unfolding keeps_cache_def by (metis snd_conv)
  show ?thesis
  proof (cases r)
    case (Inl e)
    then show ?thesis using that(2) [of e s2] assms Pair k by (auto simp: remove_upstream_def split: if_splits)
  next
    case (Inr t)
    obtain x s3 where d: "drop_target env permanent t s2 = (Inr x, s3)" "s' = invalidate_subtree [p, fst (split_path p)] s3"
      using assms Pair Inr by (auto simp: remove_upstream_def and_then_def split: sum.splits prod.splits)
    have "br_cache s3 = br_cache s2" using drop_target_keeps [of env permanent t] d(1) unfolding keeps_cache_def by (metis snd_conv)
    then show ?thesis using drop_targetE [OF d(1)] that(1) [of t s2] Pair Inr d(2) k by metis
  qed
qed

text \<open>C15: What was removed stays removed: when a removal is answered with success, the data cache holds nothing at or below the path, so nothing
  unsent can be uploaded back and no old copy is served; the path cache knows nothing at or below it; and upstream has either accepted a call
  that names exactly this item or does not have it, the bridge having held it. Others may finish uploads while the removal waits, but add nothing.\<close>
theorem removed_is_gone:
  assumes "server_normalise_path path = Inr p" "handle_remove env path permanent s = Some (Inr g, s')"
    and "only_shrinks (be_world env)" "\<And>c. br_cache s = Some c \<Longrightarrow> canonical_keys c"
  shows "(\<forall>c q. br_cache s' = Some c \<and> q \<in> keys (objs c) \<longrightarrow> \<not> below p q)
    \<and> (\<forall>ix. br_index s' = Some ix \<longrightarrow> gone p (cc_cache ix))
    \<and> (\<exists>n s1 s2. remove_held env p s = Some (Inr n, s1) \<and>
         ((\<exists>t cl x u. resolve_target env p s1 = (Inr t, s2) \<and> destructive [tg_id t] cl \<and> be_send env cl (br_up s2) = (Inr x, u))
          \<or> (\<exists>e. resolve_target env p s1 = (Inl e, s2) \<and> is_not_found e \<and> n > 0)))"
proof -
  obtain n s1 where held: "remove_held env p s = Some (Inr n, s1)" and up: "remove_upstream env p permanent n s1 = (Inr g, s')"
    using assms(1,2) by (auto simp: handle_remove_def refuse_def split: if_splits option.splits sum.splits prod.splits)
  have canon: "canonical p" by (rule server_path_canonical [OF assms(1)])
  have nonempty: "p \<noteq> []" using canon by (auto simp: canonical_def)
  have clear: "\<not> below p q" if "br_cache s1 = Some c" "q \<in> keys (objs c)" for c q
  proof (cases "br_cache s")
    case None
    then show ?thesis using held that by (simp add: remove_held_def)
  next
    case (Some c0)
    then obtain c1 where "remove_tree (be_fuel env) (be_world env) (be_cname env) (be_drop env) p c0 = Some ((n, None), c1)" "s1 = s\<lparr>br_cache := Some c1\<rparr>"
      using held by (auto simp: remove_held_def split: option.splits prod.splits)
    then show ?thesis using remove_tree_clears [OF assms(3) assms(4) [OF Some] canon] that by auto
  qed
  from up show ?thesis
  proof (cases rule: remove_upstreamE)
    case (1 s2 t cl y u s3)
    have "\<forall>ix. br_index s' = Some ix \<longrightarrow> gone p (cc_cache ix)"
      using invalidated_gone [of "[p, fst (split_path p)]" s3 _ p] nonempty 1(5) by auto
    then show ?thesis using held clear 1 by auto
  next
    case (2 e s2)
    have "\<forall>ix. br_index s' = Some ix \<longrightarrow> gone p (cc_cache ix)"
      using invalidated_gone [of "[p, fst (split_path p)]" s2 _ p] nonempty 2(5) by auto
    then show ?thesis using held clear 2 by auto
  qed
qed

text \<open>The bridge's own copy goes first: a removal that then fails, because upstream cannot be reached, has dropped the unsent data.\<close>

lemma failed_removal_drops_unsent:
  assumes "server_normalise_path path = Inr p" "p \<noteq> ''/''" "remove_held env p s = Some (Inr n, s1)" "resolve_target env p s1 = (Inl e, s2)"
    and "\<not> is_not_found e"
  shows "handle_remove env path permanent s = Some (Inl e, s2) \<and> br_cache s2 = br_cache s1"
proof -
  have "br_cache s2 = br_cache s1" using resolve_keeps [of env p] assms(4) unfolding keeps_cache_def by (metis snd_conv)
  then show ?thesis using assms by (simp add: handle_remove_def remove_upstream_def)
qed

text \<open>One listing of the parent decides what is there; an item on a later page is reported as missing.\<close>

lemma only_first_page_is_searched:
  assumes "p \<noteq> ''/''" "split_path p = (parent, name)" "folder_id_for env parent s = (Inr pid, s1)" "list_dir env pid no_options s1 = (Inr li, s2)"
    and "name \<notin> de_name ` (set (ls_folders li) \<union> set (ls_files li))"
  shows "resolve_target env p s = (Inl (Refused (path_not_found p)), s2)"
proof -
  have "find (\<lambda>f. de_name f = name) (ls_folders li) = None" "find (\<lambda>f. de_name f = name) (ls_files li) = None"
    using assms(5) by (auto simp: find_None_iff)
  then show ?thesis using assms(1-4) by (simp add: resolve_target_def and_then_def missing_as_def target_of_def)
qed

text \<open>Moving, copying and renaming leave the data cache as it is, with what it holds under the old path.\<close>

lemma destination_keeps [cache_kept]: "keeps_cache (destination env dst name)"
proof -
  have chosen: "keeps_cache (\<lambda>s. case validate_name n of Some e \<Rightarrow> (Inl (Failed (Api e)), s) | None \<Rightarrow> (Inr (t, n), s))" for n and t :: target
    by (cases "validate_name n") (simp_all add: keeps_cache_def)
  have folder: "keeps_cache (require_folder env p)" for p
  proof -
    have "keeps_cache (\<lambda>s. if tg_folder t then (Inr t, s) else refuse e s)" for t e
      by (cases "tg_folder t") (simp_all add: keeps_cache_def refuse_def)
    then show ?thesis unfolding require_folder_def by (auto intro!: cache_kept)
  qed
  note into = missing_keeps [OF folder, THEN and_then_keeps, OF chosen, unfolded keeps_cache_def, rule_format]
  have "br_cache (snd (destination env dst name s)) = br_cache s" for s
  proof (cases "resolve_target env dst s")
    case (Pair r s1)
    have k: "br_cache s1 = br_cache s" using resolve_keeps [of env dst] Pair unfolding keeps_cache_def by (metis snd_conv)
    obtain parent n where "split_path dst = (parent, n)" by fastforce
    then show ?thesis using k into by (cases r) (simp_all add: destination_def Pair Let_def)
  qed
  then show ?thesis by (simp add: keeps_cache_def)
qed

lemma moves_leave_the_cache: "keeps_cache (move_or_copy env move src dst overwrite)"
  unfolding move_or_copy_def by (auto intro!: cache_kept simp: split_def)

text \<open>A bridge with one file at the top and an older version of it on the way.\<close>

definition one_file :: dir_listing where
  "one_file =
     \<lparr>ls_updated = Some 5, ls_folders = [],
      ls_files = [\<lparr>de_name = ''a'', de_id = ''7'', de_size = 3, de_modified = None, de_access = 0, de_children = 0, de_link = []\<rparr>]\<rparr>"

definition no_folders :: "unit tree_ops" where
  "no_folders = \<lparr>up_idbypath = \<lambda>_ u. (Inl (Api (blank_error KindNotFound)), u), up_create = \<lambda>_ _ u. (Inl (Plain []), u),
     up_list = \<lambda>_ u. (Inl (Plain []), u)\<rparr>"

definition small_env :: "unit bridge_env" where
  "small_env =
     \<lparr>be_tree = no_folders, be_list = \<lambda>_ u. (Inr one_file, u), be_send = \<lambda>_ u. (Inr [], u), be_versions = \<lambda>_ u. (Inl (Plain []), u),
      be_fuel = 2, be_world = \<lambda>_ _. None, be_cname = keep_cname, be_drop = drop_ok\<rparr>"

definition small_bridge :: "unit bridge" where
  "small_bridge =
     \<lparr>br_up = (), br_index = None, br_cache = Some ((empty_cache small_config)\<lparr>objs := [(''/a'', small_object ''/a'' 4 StateDirty 1)], dirty := 4, dc_bytes := 4\<rparr>)\<rparr>"

lemma small_query: "list_query no_options = Inr []"
  by code_simp
lemma small_list: "list_dir small_env fid no_options s = (Inr one_file, s\<lparr>br_up := ()\<rparr>)"
  by (simp add: list_dir_def list_folder_def small_query ask_up_def small_env_def)


lemma small_target: "case resolve_target small_env ''/a'' s of (Inr t, s1) \<Rightarrow> \<not> tg_folder t \<and> tg_id t = ''7'' \<and> s1 = s\<lparr>br_up := ()\<rparr> | _ \<Rightarrow> False"
proof -
  have "split_path ''/a'' = (''/'', ''a'')" by code_simp
  then show ?thesis by (simp add: resolve_target_def and_then_def missing_as_def folder_id_for_def small_list target_of_def one_file_def)
qed

lemma small_held: "case remove_held small_env ''/a'' small_bridge of Some (Inr (Suc 0), _) \<Rightarrow> True | _ \<Rightarrow> False"
  by code_simp

lemma small_path: "server_normalise_path ''/a'' = Inr ''/a''" "canonical ''/a''"
  by code_simp+

lemma small_ids: "join_ids [''7''] = Inr ''7''"
  by code_simp

lemma small_drop: "\<not> tg_folder t \<Longrightarrow> tg_id t = ''7'' \<Longrightarrow> \<exists>s1. drop_target small_env False t s = (Inr [], s1)"
  by (simp add: drop_target_def and_then_def perform_def trash_files_def on_files_def small_ids small_env_def)

lemma small_remove: "\<exists>s'. handle_remove small_env ''/a'' False small_bridge = Some (Inr False, s')"
proof -
  obtain s1 where held: "remove_held small_env ''/a'' small_bridge = Some (Inr (Suc 0), s1)"
    using small_held by (auto split: option.splits prod.splits sum.splits nat.splits)
  obtain t where t: "resolve_target small_env ''/a'' s1 = (Inr t, s1\<lparr>br_up := ()\<rparr>)" "\<not> tg_folder t" "tg_id t = ''7''"
    using small_target [of s1] by (auto split: prod.splits sum.splits)
  show ?thesis using small_drop [OF t(2,3), of "s1\<lparr>br_up := ()\<rparr>"]
    by (auto simp: handle_remove_def small_path held remove_upstream_def t and_then_def)
qed

lemma removed_is_gone_witness:
  "\<exists>s'. handle_remove small_env ''/a'' False small_bridge = Some (Inr False, s') \<and> (\<forall>c. br_cache s' = Some c \<longrightarrow> ''/a'' \<notin> keys (objs c))"
proof -
  obtain s' where s': "handle_remove small_env ''/a'' False small_bridge = Some (Inr False, s')"
    using small_remove by blast
  have "only_shrinks (be_world small_env)" by (simp add: only_shrinks_def small_env_def)
  moreover have "canonical_keys c" if "br_cache small_bridge = Some c" for c
    using that small_path(2) by (auto simp: small_bridge_def canonical_keys_def)
  ultimately have "\<not> below ''/a'' ''/a''" if "br_cache s' = Some c" "''/a'' \<in> keys (objs c)" for c
    using removed_is_gone [OF small_path(1) s'] that by blast
  then show ?thesis using s' by (auto simp: below_def)
qed

section \<open>Listing what is pending\<close>

definition leaf :: "object \<Rightarrow> string" where
  "leaf ob = snd (split_path (remote_path ob))"

lemma pending_file_simps [simp]:
  "en_name (pending_file ob) = leaf ob" "en_path (pending_file ob) = remote_path ob" "en_pending (pending_file ob)"
  "en_size (pending_file ob) = obj_size ob"
  by (simp_all add: pending_file_def plain_entry_def leaf_def)

lemma children_files:
  "fst (children_loop pre obs files folders) =
     files @ filter (\<lambda>ob. case under pre ob of None \<Rightarrow> False | Some rest \<Rightarrow> index_of slash rest = None) obs"
  by (induction obs arbitrary: files folders) (auto split: option.splits)

lemma find_Some_member: "find P xs = Some x \<Longrightarrow> x \<in> set xs \<and> P x"
  by (induction xs) (auto split: if_splits)

lemma position_of_Some:
  assumes "position_of es n = Some i"
  shows "i < length es" "en_name (es ! i) = n"
proof -
  obtain e where "find (\<lambda>(_, e). en_name e = n) (rev (enumerate 0 es)) = Some (i, e)" using assms by (auto simp: position_of_def)
  from find_Some_member [OF this] have "(i, e) \<in> set (enumerate 0 es)" "en_name e = n" by auto
  then show "i < length es" "en_name (es ! i) = n" by (auto simp: in_set_enumerate_eq)
qed

lemma position_of_None: "position_of es n = None \<longleftrightarrow> n \<notin> en_name ` set es"
proof -
  have "position_of es n = None \<longleftrightarrow> n \<notin> (\<lambda>x. en_name (snd x)) ` set (enumerate 0 es)"
    unfolding position_of_def option.map_disc_iff find_None_iff set_rev image_iff Bex_def by (auto simp only: split_def not_ex de_Morgan_conj)
  also have "(\<lambda>x. en_name (snd x)) ` set (enumerate 0 es) = en_name ` set (map snd (enumerate 0 es))"
    by (simp only: set_map image_image)
  finally show ?thesis by simp
qed

lemma find_append: "find P (xs @ ys) = (case find P xs of None \<Rightarrow> find P ys | Some x \<Rightarrow> Some x)"
  by (induction xs) auto

text \<open>Putting the pending files in: an entry whose position the map gives for the name of one is replaced, by the last such file; the others come
  at the end.\<close>

definition overridden :: "(string \<Rightarrow> nat option) \<Rightarrow> object list \<Rightarrow> nat \<Rightarrow> entry \<Rightarrow> entry" where
  "overridden index files i e = (case find (\<lambda>ob. index (leaf ob) = Some i) (rev files) of None \<Rightarrow> e | Some ob \<Rightarrow> pending_file ob)"

lemma pending_files_fold:
  assumes "\<And>n i. index n = Some i \<Longrightarrow> i < length xs"
  shows "fold (add_pending_file index) files (xs @ ys)
    = map (\<lambda>i. overridden index files i (xs ! i)) [0..<length xs] @ ys @ map pending_file (filter (\<lambda>ob. index (leaf ob) = None) files)"
  using assms
proof (induction files arbitrary: xs ys)
  case Nil
  then show ?case by (simp add: overridden_def map_nth)
next
  case (Cons ob files)
  show ?case
  proof (cases "index (leaf ob)")
    case None
    have "overridden index (ob # files) = overridden index files"
      by (intro ext) (simp add: overridden_def find_append None split: option.split)
    then show ?thesis using Cons.IH [of xs "ys @ [pending_file ob]"] Cons.prems None
      by (simp add: add_pending_file_def leaf_def [symmetric])
  next
    case (Some j)
    then have "j < length xs" using Cons.prems by blast
    moreover have "overridden index files i (xs[j := pending_file ob] ! i) = overridden index (ob # files) i (xs ! i)" if "i < length xs" for i
      using that Some by (simp add: overridden_def find_append nth_list_update split: option.split)
    ultimately show ?thesis using Cons.IH [of "xs[j := pending_file ob]" ys] Cons.prems Some
      by (simp add: add_pending_file_def leaf_def [symmetric] list_update_append cong: map_cong)
  qed
qed

text \<open>A path directly in a folder ends in its leaf.\<close>

lemma last_part: "slash \<notin> set x \<Longrightarrow> slash \<notin> set y \<Longrightarrow> a @ slash # x = b @ slash # y \<Longrightarrow> x = y"
proof -
  assume a: "slash \<notin> set x" "slash \<notin> set y" "a @ slash # x = b @ slash # y"
  have "takeWhile (\<lambda>c. c \<noteq> slash) (rev (a @ slash # x)) = rev x" "takeWhile (\<lambda>c. c \<noteq> slash) (rev (b @ slash # y)) = rev y"
    using a(1,2) by (simp_all add: takeWhile_append set_rev)
  then show "x = y" using a(3) by simp
qed

lemma leaf_in_folder:
  assumes "canonical (remote_path ob)" "under (tree_prefix p) ob = Some rest" "slash \<notin> set rest"
  shows "leaf ob = rest" "remote_path ob = tree_prefix p @ rest"
proof -
  have q: "remote_path ob = tree_prefix p @ rest" using assms(2) by (auto simp: under_def prefix_def split: if_splits)
  obtain a where a: "tree_prefix p = a @ [slash]" by (cases "p = [slash]") (auto simp: tree_prefix_def)
  show "leaf ob = rest"
  proof (cases rule: canonical_cases [OF assms(1)])
    case 1
    then have "rest = []" using q by (cases "p = [slash]") (cases p, auto simp: tree_prefix_def)+
    then show ?thesis using 1 by (simp add: leaf_def split_path_def)
  next
    case (2 ws w)
    then obtain b where b: "remote_path ob = b @ slash # w"
      by (cases "ws = []") (auto simp: join_with_snoc intro: append_Cons [symmetric])
    have "slash \<notin> set w" using 2(2) by (simp add: good_segment_def)
    then have "w = rest" using last_part [of w rest b a] assms(3) b q a by simp
    then show ?thesis using split_path_child [OF 2(2)] 2(1) by (simp add: leaf_def)
  qed
  show "remote_path ob = tree_prefix p @ rest" by (rule q)
qed

definition directly_in :: "string \<Rightarrow> object \<Rightarrow> bool" where
  "directly_in p ob \<longleftrightarrow> (\<exists>rest. under (tree_prefix p) ob = Some rest \<and> slash \<notin> set rest)"

definition well_named :: "object list \<Rightarrow> bool" where
  "well_named obs \<longleftrightarrow> distinct (map remote_path obs) \<and> (\<forall>ob \<in> set obs. canonical (remote_path ob))"

lemma children_direct: "fst (children_of obs p) = filter (directly_in p) obs"
  unfolding children_of_def children_files by (rule trans [OF append_Nil], rule filter_cong [OF refl])
    (auto simp: directly_in_def index_of_None split: option.split)

lemma same_leaf:
  assumes "well_named obs" "ob \<in> set obs" "ob' \<in> set obs" "directly_in p ob" "directly_in p ob'" "leaf ob' = leaf ob"
  shows "ob' = ob"
proof -
  have "remote_path ob' = remote_path ob"
    using assms leaf_in_folder unfolding well_named_def directly_in_def by metis
  then show ?thesis using assms(1-3) by (auto simp: well_named_def distinct_map inj_on_def)
qed

lemma merged:
  assumes "children_of (unsent_list c) p = (files, folders)"
  shows "merge_pending (Some c) p es
    = map (\<lambda>i. overridden (position_of es) files i (es ! i)) [0..<length es]
      @ map (\<lambda>name. (plain_entry name (join_path p name) True)\<lparr>en_pending := True\<rparr>) (filter (\<lambda>name. position_of es name = None) folders)
      @ map pending_file (filter (\<lambda>ob. position_of es (leaf ob) = None) files)"
  unfolding merge_pending_def assms Let_def option.case prod.case by (rule pending_files_fold) (rule position_of_Some(1))

lemma find_unique: "x \<in> set xs \<Longrightarrow> P x \<Longrightarrow> (\<And>y. y \<in> set xs \<Longrightarrow> P y \<Longrightarrow> y = x) \<Longrightarrow> find P xs = Some x"
  by (metis find_Some_member find_None_iff not_Some_eq)

definition chosen :: "entry \<Rightarrow> object option \<Rightarrow> entry" where
  "chosen e f = (case f of None \<Rightarrow> e | Some ob \<Rightarrow> pending_file ob)"

lemma chosen_simps [simp]: "chosen e None = e" "chosen e (Some ob) = pending_file ob"
  by (simp_all add: chosen_def)

lemma at_position:
  assumes "i < length es" "find (\<lambda>ob. position_of es (leaf ob) = Some i) (rev files) = f" "chosen (es ! i) f = e"
  shows "e \<in> set (map (\<lambda>i. overridden (position_of es) files i (es ! i)) [0..<length es])"
proof -
  have "overridden (position_of es) files i (es ! i) = e" unfolding overridden_def assms(2) using assms(3) by (simp add: chosen_def)
  then show ?thesis using assms(1) unfolding set_map by (intro image_eqI [where x = i]) simp_all
qed

lemma merged_has:
  assumes "well_named (unsent_list c)" "ob \<in> set (unsent_list c)" "directly_in p ob"
  shows "pending_file ob \<in> set (merge_pending (Some c) p es)"
proof -
  obtain files folders where ch: "children_of (unsent_list c) p = (files, folders)" by fastforce
  have files: "files = filter (directly_in p) (unsent_list c)" using children_direct ch by (metis fst_conv)
  have mem: "ob \<in> set files" using assms files by simp
  show ?thesis
  proof (cases "position_of es (leaf ob)")
    case None
    then have "pending_file ob \<in> pending_file ` set (filter (\<lambda>ob. position_of es (leaf ob) = None) files)" using mem by simp
    then show ?thesis unfolding merged [OF ch] by simp
  next
    case (Some i)
    have u: "ob' = ob" if "ob' \<in> set (rev files)" "position_of es (leaf ob') = Some i" for ob'
    proof -
      have "leaf ob' = leaf ob" using position_of_Some(2) [OF that(2)] position_of_Some(2) [OF Some] by simp
      then show ?thesis using same_leaf assms that(1) files by auto
    qed
    then have "find (\<lambda>ob. position_of es (leaf ob) = Some i) (rev files) = Some ob"
      by (intro find_unique [OF _ _ u]) (simp_all only: set_rev mem Some)
    then have "pending_file ob \<in> set (map (\<lambda>i. overridden (position_of es) files i (es ! i)) [0..<length es])"
      by (rule at_position [OF position_of_Some(1) [OF Some]]) simp
    then show ?thesis unfolding merged [OF ch] by simp
  qed
qed

lemma merged_keeps:
  assumes "e \<in> set es" "\<forall>ob \<in> set (unsent_list c). directly_in p ob \<longrightarrow> leaf ob \<noteq> en_name e"
  shows "e \<in> set (merge_pending (Some c) p es)"
proof -
  obtain files folders where ch: "children_of (unsent_list c) p = (files, folders)" by fastforce
  have files: "files = filter (directly_in p) (unsent_list c)" using children_direct ch by (metis fst_conv)
  obtain i where i: "i < length es" "es ! i = e" using assms(1) by (auto simp: in_set_conv_nth)
  have "position_of es (leaf ob) \<noteq> Some i" if "ob \<in> set files" for ob
    using assms(2) position_of_Some(2) [of es "leaf ob" i] i(2) that files by auto
  then have "find (\<lambda>ob. position_of es (leaf ob) = Some i) (rev files) = None" by (simp add: find_None_iff)
  then have "e \<in> set (map (\<lambda>i. overridden (position_of es) files i (es ! i)) [0..<length es])"
    by (rule at_position [OF i(1)]) (simp add: i(2))
  then show ?thesis unfolding merged [OF ch] by simp
qed

lemma pending_listing_merge: "pending_listing dc p = Some r \<Longrightarrow> lr_entries r = merge_pending dc p []"
  by (auto simp: pending_listing_def Let_def split: if_splits)

lemma listE:
  assumes "server_normalise_path path = Inr p" "handle_list env path search [] dir_time s = (Inr r, s')"
  obtains es where "lr_entries r = merge_pending (br_cache s) p es"
    and "\<And>fid s1 li s2. folder_id_for env p s = (Inr fid, s1) \<Longrightarrow> list_dir env fid (no_options\<lparr>lo_search := search\<rparr>) s1 = (Inr li, s2) \<Longrightarrow>
      es = map (\<lambda>f. folder_entry f (join_path p (de_name f))) (ls_folders li) @ map (\<lambda>f. file_entry f (join_path p (de_name f))) (ls_files li)"
proof (cases "folder_id_for env p s")
  case (Pair x s1)
  have k: "br_cache s1 = br_cache s" using steps_keep(5) [of env p] Pair unfolding keeps_cache_def by (metis snd_conv)
  show thesis
  proof (cases x)
    case (Inl e)
    have "pending_listing (br_cache s1) p = Some r"
    proof (cases "pending_listing (br_cache s1) p")
      case None
      then show ?thesis using assms Pair Inl
        by (auto simp: handle_list_def and_then_def check_def missing_as_def split: bridge_error.splits)
    next
      case (Some r')
      then show ?thesis using assms Pair Inl
        by (auto simp: handle_list_def and_then_def check_def missing_as_def split: bridge_error.splits if_splits)
    qed
    then show thesis using that [of "[]"] pending_listing_merge k Pair Inl by simp
  next
    case (Inr fid)
    have page: "no_options\<lparr>lo_page := lo_page no_options, lo_search := search\<rparr> = no_options\<lparr>lo_search := search\<rparr>" by (simp add: no_options_def)
    obtain li s2 where li: "list_dir env fid (no_options\<lparr>lo_search := search\<rparr>) s1 = (Inr li, s2)" "r = list_page (br_cache s2) p 0 li"
      using assms Pair Inr page
      by (auto simp: handle_list_def and_then_def check_def paging_def no_options_def split: sum.splits prod.splits)
    have "br_cache s2 = br_cache s1" using steps_keep(6) [of env fid] li(1) unfolding keeps_cache_def by (metis snd_conv)
    then have "lr_entries r = merge_pending (br_cache s) p (map (\<lambda>f. folder_entry f (join_path p (de_name f))) (ls_folders li)
      @ map (\<lambda>f. file_entry f (join_path p (de_name f))) (ls_files li))"
      using li(2) k by (simp add: list_page_def Let_def)
    then show thesis by (rule that) (use li(1) Pair Inr in simp)
  qed
qed

text \<open>C16: A listing never hides a pending write: the first page of a folder holds every file waiting in the data cache directly in that folder,
  with its own size and marked as pending, in place of an older version of the same name, and keeps every other item upstream has there; when
  upstream cannot be reached, or does not have the folder yet, the waiting files are still listed.\<close>
theorem pending_writes_are_listed:
  assumes "server_normalise_path path = Inr p" "br_cache s = Some c" "well_named (unsent_list c)"
  shows "(\<forall>r s' ob. handle_list env path search [] dir_time s = (Inr r, s') \<and> ob \<in> set (unsent_list c) \<and> directly_in p ob \<longrightarrow>
      (\<exists>e \<in> set (lr_entries r). en_name e = leaf ob \<and> en_path e = remote_path ob \<and> en_size e = obj_size ob \<and> en_pending e))
    \<and> (\<forall>r s' fid s1 li s2 f. handle_list env path search [] dir_time s = (Inr r, s') \<and> folder_id_for env p s = (Inr fid, s1)
        \<and> list_dir env fid (no_options\<lparr>lo_search := search\<rparr>) s1 = (Inr li, s2) \<and> (\<forall>ob \<in> set (unsent_list c). directly_in p ob \<longrightarrow> leaf ob \<noteq> de_name f) \<longrightarrow>
        (f \<in> set (ls_folders li) \<longrightarrow> folder_entry f (join_path p (de_name f)) \<in> set (lr_entries r))
        \<and> (f \<in> set (ls_files li) \<longrightarrow> file_entry f (join_path p (de_name f)) \<in> set (lr_entries r)))
    \<and> (\<forall>e s1. folder_id_for env p s = (Inl e, s1) \<and> (is_not_found e \<or> bridge_temporary e) \<and> (\<exists>ob \<in> set (unsent_list c). directly_in p ob) \<longrightarrow>
        (\<exists>r. handle_list env path search [] dir_time s = (Inr r, s1)))"
proof (intro conjI allI impI)
  fix r s' ob
  assume a: "handle_list env path search [] dir_time s = (Inr r, s') \<and> ob \<in> set (unsent_list c) \<and> directly_in p ob"
  obtain es where "lr_entries r = merge_pending (br_cache s) p es" using listE assms(1) a by metis
  then have "pending_file ob \<in> set (lr_entries r)" using merged_has assms a by metis
  then show "\<exists>e \<in> set (lr_entries r). en_name e = leaf ob \<and> en_path e = remote_path ob \<and> en_size e = obj_size ob \<and> en_pending e"
    by (rule rev_bexI) simp
next
  fix r s' fid s1 li s2 and f :: dir_entry
  assume a: "handle_list env path search [] dir_time s = (Inr r, s') \<and> folder_id_for env p s = (Inr fid, s1)
    \<and> list_dir env fid (no_options\<lparr>lo_search := search\<rparr>) s1 = (Inr li, s2) \<and> (\<forall>ob \<in> set (unsent_list c). directly_in p ob \<longrightarrow> leaf ob \<noteq> de_name f)"
  from a have h: "handle_list env path search [] dir_time s = (Inr r, s')" by blast
  obtain es where entries: "lr_entries r = merge_pending (br_cache s) p es"
    and es: "\<And>fid s1 li s2. folder_id_for env p s = (Inr fid, s1) \<Longrightarrow> list_dir env fid (no_options\<lparr>lo_search := search\<rparr>) s1 = (Inr li, s2) \<Longrightarrow>
      es = map (\<lambda>f. folder_entry f (join_path p (de_name f))) (ls_folders li) @ map (\<lambda>f. file_entry f (join_path p (de_name f))) (ls_files li)"
    by (rule listE [OF assms(1) h], rule that)
  have "es = map (\<lambda>f. folder_entry f (join_path p (de_name f))) (ls_folders li) @ map (\<lambda>f. file_entry f (join_path p (de_name f))) (ls_files li)"
    by (rule es [of fid s1 li s2]) (use a in blast)+
  with entries show "f \<in> set (ls_folders li) \<Longrightarrow> folder_entry f (join_path p (de_name f)) \<in> set (lr_entries r)"
    "f \<in> set (ls_files li) \<Longrightarrow> file_entry f (join_path p (de_name f)) \<in> set (lr_entries r)"
    using a by (simp_all add: assms(2) merged_keeps folder_entry_def file_entry_def)
next
  fix e s1
  assume a: "folder_id_for env p s = (Inl e, s1) \<and> (is_not_found e \<or> bridge_temporary e) \<and> (\<exists>ob \<in> set (unsent_list c). directly_in p ob)"
  have "br_cache s1 = br_cache s" using steps_keep(5) [of env p] a unfolding keeps_cache_def by (metis snd_conv)
  moreover have "merge_pending (Some c) p [] \<noteq> []"
  proof -
    obtain ob where "ob \<in> set (unsent_list c)" "directly_in p ob" using a by blast
    from merged_has [OF assms(3) this, of "[]"] show ?thesis by (cases "merge_pending (Some c) p []") simp_all
  qed
  ultimately have "pending_listing (br_cache s1) p \<noteq> None" using assms(2) by (simp add: pending_listing_def Let_def)
  then obtain r where r: "pending_listing (br_cache s1) p = Some r" by blast
  have "folder_id_for env p s = (Inl e, s1)" "is_not_found e \<or> bridge_temporary e" using a by blast+
  then have "handle_list env path search [] dir_time s = (Inr r, s1)"
    using r assms(1) by (simp add: handle_list_def and_then_def check_def)
  then show "\<exists>r. handle_list env path search [] dir_time s = (Inr r, s1)" ..
qed

lemma small_list_answer: "\<exists>r. handle_list small_env ''/'' [] [] [] small_bridge = (Inr r, small_bridge)"
proof -
  have "server_normalise_path ''/'' = Inr ''/''" by code_simp
  moreover have "no_options\<lparr>lo_page := lo_page no_options, lo_search := []\<rparr> = no_options" by (simp add: no_options_def)
  moreover have "small_bridge\<lparr>br_up := ()\<rparr> = small_bridge" by (simp add: small_bridge_def)
  ultimately show ?thesis by (simp add: handle_list_def and_then_def check_def paging_def small_list)
qed

lemma pending_writes_are_listed_witness:
  "\<exists>r. handle_list small_env ''/'' [] [] [] small_bridge = (Inr r, small_bridge)
    \<and> (\<exists>e \<in> set (lr_entries r). en_name e = ''a'' \<and> en_size e = 4 \<and> en_pending e)"
proof -
  obtain r where r: "handle_list small_env ''/'' [] [] [] small_bridge = (Inr r, small_bridge)" using small_list_answer by blast
  let ?ob = "small_object ''/a'' 4 StateDirty 1"
  let ?c = "(empty_cache small_config)\<lparr>objs := [(''/a'', ?ob)], dirty := 4, dc_bytes := 4\<rparr>"
  have unsent: "unsent_list ?c = [?ob]"
    by (simp add: unsent_list_def snapshot_def small_object_def)
  have path: "remote_path ?ob = ''/a''" "obj_size ?ob = 4" by (simp_all add: small_object_def)
  have "server_normalise_path ''/'' = Inr ''/''" by code_simp
  moreover have "br_cache small_bridge = Some ?c" by (simp add: small_bridge_def)
  moreover have "well_named (unsent_list ?c)" by (simp add: unsent well_named_def path small_path(2))
  moreover have "directly_in ''/'' ?ob" "leaf ?ob = ''a''"
    unfolding directly_in_def leaf_def by (simp add: under_def path tree_prefix_def) (simp add: path, code_simp)
  ultimately show ?thesis
    using pending_writes_are_listed [of "''/''" "''/''" small_bridge ?c small_env "[]" "[]"] r unsent path by auto
qed

end
