(* ===== verification/Bridge_Transfers_Props.thy ===== *)
theory Bridge_Transfers_Props
  imports Bridge_Files_Props Bridge_Transfers
begin

text \<open>What the endpoints of \<open>Bridge_Transfers\<close> promise.\<close>

section \<open>An accepted upload\<close>

definition as_put_env :: "body_env \<Rightarrow> int \<Rightarrow> put_env" where
  "as_put_env b n =
     \<lparr>pe_stat = StatFile n, pe_tmp = bd_tmp b, pe_open_ok = True, pe_chunks = bd_chunks b, pe_read_ok = True, pe_ctx_done = False,
      pe_now = bd_now b, pe_commit = bd_commit b, pe_evict = bd_evict b\<rparr>"

text \<open>A body is kept the way a local file is.\<close>

lemma store_body_as_file:
  assumes "store_body cname b req c = (Inr ob, c')"
  shows "put_local_file (bd_md5 b) cname (as_put_env b (pr_size req)) req c = (Inr ob, c')"
proof -
  obtain w req' c1 w2 c2 w3 where p: "put req (bd_tmp b) c = (Inr (w, req'), c1)" "copy_chunks (bd_chunks b) w c1 = (None, w2, c2)"
      "put_commit (bd_md5 b) cname (bd_now b) (bd_commit b) (bd_evict b) req' w2 c2 = (Inr ob, w3, c')"
    using assms by (auto simp: store_body_def map_sum_def split: sum.splits prod.splits option.splits if_splits)
  moreover have "write_back (dc_cfg c)" using p(1) by (auto simp: put_def split: if_splits)
  ultimately show ?thesis by (simp add: put_local_file_def as_put_env_def)
qed

lemma refuse_existing_keeps [cache_kept]: "keeps_cache (refuse_existing env remote overwrite x)"
proof -
  have path: "keeps_cache (path_exists env p)" for p
    using resolve_keeps [of env p] unfolding keeps_cache_def path_exists_def by (simp split: prod.split sum.split) (metis snd_conv)
  have "keeps_cache (\<lambda>s. if there then refuse (conflict_at remote) s else (Inr x, s))" for there
    by (cases there) (simp_all add: keeps_cache_def refuse_def)
  then show ?thesis unfolding refuse_existing_def by (auto intro!: cache_kept path)
qed

lemma require_keeps [cache_kept]: "keeps_cache (require_folder env p)"
proof -
  have "keeps_cache (\<lambda>s. if tg_folder t then (Inr t, s) else refuse e s)" for t e
    by (cases "tg_folder t") (simp_all add: keeps_cache_def refuse_def)
  then show ?thesis unfolding require_folder_def by (auto intro!: cache_kept)
qed

lemma target_keeps [cache_kept]: "keeps_cache (upload_target env remote overwrite)"
proof -
  have "keeps_cache (and_then (missing_as p (require_folder env p)) (\<lambda>t. refuse_existing env remote overwrite (tg_id t, name)))" for p name
    by (auto intro!: cache_kept)
  note k = this [unfolded keeps_cache_def, rule_format]
  show ?thesis unfolding keeps_cache_def upload_target_def Let_def by (simp add: refuse_def k split: prod.split option.split)
qed

lemma defer_keeps [cache_kept]: "keeps_cache (upload_target_or_defer env remote overwrite)"
proof -
  have "br_cache (snd (upload_target_or_defer env remote overwrite s)) = br_cache s" for s
  proof (cases "upload_target env remote overwrite s")
    case (Pair r s1)
    moreover have "br_cache s1 = br_cache s" using target_keeps [of env remote overwrite] Pair unfolding keeps_cache_def by (metis snd_conv)
    ultimately show ?thesis by (cases r) (simp_all add: upload_target_or_defer_def refuse_def)
  qed
  then show ?thesis by (simp add: keeps_cache_def)
qed

lemma upload_cachedE:
  assumes "server_normalise_path path = Inr p" "br_cache s = Some c" "upload_cached env b path overwrite s = (Inr a, s')"
  obtains folder name ob c' s1 where "upload_target_or_defer env p overwrite s = (Inr (folder, name), s1)"
    "store_body (be_cname env) b \<lparr>pr_path = p, pr_folder = folder, pr_name = name, pr_size = bd_length b\<rparr> c = (Inr ob, c')"
    "a = accepted ob" "br_cache s' = Some c'"
proof -
  obtain folder name s1 where t: "upload_target_or_defer env p overwrite s = (Inr (folder, name), s1)"
    using assms(1,3) by (auto simp: upload_cached_def and_then_def check_def split: sum.splits prod.splits)
  have "br_cache s1 = Some c" using defer_keeps [of env p overwrite] t assms(2) unfolding keeps_cache_def by (metis snd_conv)
  then show thesis using that t assms(1,3)
    by (auto simp: upload_cached_def and_then_def check_def split: sum.splits prod.splits)
qed

lemma held_is_served:
  assumes "lookup (objs c) p = Some ob" "lookup (live (dc_disk c)) (cname p) = Some f" "cache_normalise_path p = p" "open_ok"
  shows "\<exists>c'. dc_get cname now open_ok d tio p c = (Inr (ob\<lparr>last_access := now\<rparr>, fcontent f), c')"
  using assms by (simp add: dc_get_def get_index_def Let_def)

lemma served_from_cache:
  assumes "server_normalise_path path = Inr p" "br_cache s = Some c" "lookup (objs c) p = Some ob"
    and "lookup (live (dc_disk c)) (be_cname env p) = Some f" "dn_open_ok dn"
  shows "\<exists>s'. handle_download_stream env dn path s
    = (Inr \<lparr>da_cache = Some ''HIT'', da_name = header_name (base_name p), da_length = Some (obj_size ob), da_body = fcontent f\<rparr>, s')"
proof -
  have "cache_normalise_path p = p" using cache_key_canonical server_path_canonical [OF assms(1)] .
  then obtain c' where "dc_get (be_cname env) (dn_now dn) (dn_open_ok dn) (dn_drop dn) (dn_touch dn) p c
      = (Inr (ob\<lparr>last_access := dn_now dn\<rparr>, fcontent f), c')"
    using held_is_served assms(3-5) by metis
  then show ?thesis using assms(1,2) by (simp add: handle_download_stream_def and_then_def check_def serve_from_cache_def)
qed

text \<open>C13: An upload answered with 202 is held and read back: the object is in the data cache as unsent under the path, its content file holds
  exactly the bytes of the body, flushed, also after a power cut, and the answer gives their number and hash; and a download of any spelling of
  that path, while upstream still has nothing there, is answered from the cache with exactly these bytes.\<close>
theorem accepted_upload_is_read_back:
  assumes "server_normalise_path path = Inr p" "server_normalise_path path' = Inr p"
    and "br_cache s = Some c" "acct c" "inj (be_cname env)" "write_back (dc_cfg c)"
    and "handle_upload_stream env ue b path overwrite s = (Inr a, s')" "dn_open_ok dn"
  shows "a = \<lparr>ua_path = p, ua_size = int (length (body_bytes b)), ua_md5 = bd_md5 b (body_bytes b), ua_dedup = False, ua_status = 202\<rparr>
    \<and> (\<exists>c' ob. br_cache s' = Some c' \<and> lookup (objs c') p = Some ob \<and> ostate ob = StateDirty \<and> obj_size ob = int (length (body_bytes b))
        \<and> lookup (durable (dc_disk c')) (be_cname env p) = Some \<lparr>fcontent = body_bytes b, fsynced = True\<rparr>
        \<and> dirty c' \<le> max_dirty_bytes (dc_cfg c))
    \<and> (\<exists>d s2. handle_download_stream env dn path' s' = (Inr d, s2) \<and> da_cache d = Some ''HIT'' \<and> da_body d = body_bytes b
        \<and> da_length d = Some (int (length (body_bytes b))))"
proof -
  have "upload_cached env b path overwrite s = (Inr a, s')"
    using assms(3,6,7) by (simp add: handle_upload_stream_def write_back_enabled_def status_def)
  then obtain folder name ob c' s1 where st:
      "store_body (be_cname env) b \<lparr>pr_path = p, pr_folder = folder, pr_name = name, pr_size = bd_length b\<rparr> c = (Inr ob, c')"
      and a: "a = accepted ob" and s': "br_cache s' = Some c'"
    using upload_cachedE assms(1,3) by metis
  have key: "cache_normalise_path p = p" using cache_key_canonical server_path_canonical [OF assms(1)] .
  note stored = put_local_file_stores [OF assms(4,5) store_body_as_file [OF st]]
  have ob: "remote_path ob = p" "ostate ob = StateDirty" "obj_size ob = int (length (body_bytes b))" "obj_hash ob = bd_md5 b (body_bytes b)"
    "lookup (objs c') p = Some ob" "lookup (live (dc_disk c')) (be_cname env p) = Some \<lparr>fcontent = body_bytes b, fsynced = True\<rparr>"
    "lookup (durable (dc_disk c')) (be_cname env p) = Some \<lparr>fcontent = body_bytes b, fsynced = True\<rparr>"
    "dirty c' \<le> max_dirty_bytes (dc_cfg c)"
    using stored by (auto simp: key body_bytes_def as_put_env_def)
  have "\<exists>s2. handle_download_stream env dn path' s' = (Inr \<lparr>da_cache = Some ''HIT'', da_name = header_name (base_name p),
      da_length = Some (obj_size ob), da_body = body_bytes b\<rparr>, s2)"
    using served_from_cache [OF assms(2) s' ob(5,6) assms(8)] by simp
  then show ?thesis using ob s' a by (auto simp: accepted_def)
qed

section \<open>What a download leaves in the cache\<close>

lemma pieces_are_all: "concat (map fst (in_pieces ps k bs)) = bs"
  by (induction ps k bs rule: in_pieces.induct) simp_all

definition same_index :: "datacache \<Rightarrow> datacache \<Rightarrow> bool" where
  "same_index c c' \<longleftrightarrow> objs c' = objs c"

lemma same_index_trans: "same_index a b \<Longrightarrow> same_index b c \<Longrightarrow> same_index a c"
  by (simp add: same_index_def)

lemma fill_index: "same_index c (snd (fill remote tmp c))"
  by (simp add: same_index_def fill_def new_writer_def start_writer_def Let_def on_disk_def split: option.split)

lemma abort_index: "same_index c (snd (writer_abort w c))"
  by (simp add: same_index_def writer_abort_def on_disk_def)

lemma write_index: "same_index c (snd (snd (writer_write bs k w c)))"
  by (simp add: same_index_def writer_write_def writer_abort_def Let_def on_disk_def)

lemma filling_write_cases:
  assumes "filling_write bs k False w c = (broken, w', c')"
  obtains (idle) "bs = []" "\<not> broken" "w' = w" "c' = c"
  | (gone) "broken" "same_index c c'"
  | (took) n where "\<not> broken" "writer_write bs k w c = ((n, None), w', c')"
proof (cases "bs = []")
  case False
  obtain n e w1 c1 where wr: "writer_write bs k w c = ((n, e), w1, c1)" by (metis prod.collapse)
  have i: "same_index c c1" using write_index [of c bs k w] wr by simp
  show ?thesis
  proof (cases e)
    case None
    then show ?thesis using took [of n] assms wr False by (simp add: filling_write_def)
  next
    case (Some err)
    obtain w2 c2 where ab: "writer_abort w1 c1 = (w2, c2)" by fastforce
    have "same_index c1 c2" using abort_index [of c1 w1] ab by simp
    then show ?thesis using gone assms wr ab False Some same_index_trans [OF i] by (simp add: filling_write_def)
  qed
qed (use assms in \<open>simp add: filling_write_def\<close>)

lemma filling_broken: "filling_copy chunks True w c = (True, w, c)"
  by (induction chunks) (auto simp: filling_write_def)

lemma filling_index: "filling_copy chunks broken w c = (b, w', c') \<Longrightarrow> same_index c c'"
proof (induction chunks arbitrary: broken w c)
  case Nil
  then show ?case by (simp add: same_index_def)
next
  case (Cons ch chunks)
  obtain bs k where ch: "ch = (bs, k)" by fastforce
  obtain b1 w1 c1 where wr: "filling_write bs k broken w c = (b1, w1, c1)" by (metis prod_cases3)
  have "same_index c c1"
  proof (cases broken)
    case True
    then show ?thesis using wr by (simp add: filling_write_def same_index_def)
  next
    case False
    then have "filling_write bs k False w c = (b1, w1, c1)" using wr by simp
    then show ?thesis
    proof (cases rule: filling_write_cases)
      case (took n)
      then show ?thesis using write_index [of c bs k w] by simp
    qed (simp_all add: same_index_def)
  qed
  moreover have "same_index c1 c'" using Cons.IH [of b1 w1 c1] Cons.prems ch wr by simp
  ultimately show ?case by (rule same_index_trans)
qed

lemma filling_content:
  "filling_copy chunks False w c = (False, w', c') \<Longrightarrow> holds w c \<Longrightarrow> acct c \<Longrightarrow> writer_ok w \<Longrightarrow>
    w_buf w' = w_buf w @ concat (map fst chunks) \<and> holds w' c' \<and> acct c' \<and> writer_ok w' \<and> w_path w' = w_path w"
proof (induction chunks arbitrary: w c)
  case (Cons ch chunks)
  obtain bs k where ch: "ch = (bs, k)" by fastforce
  obtain b1 w1 c1 where wr: "filling_write bs k False w c = (b1, w1, c1)" by (metis prod_cases3)
  have nb: "\<not> b1" using Cons.prems(1) ch wr filling_broken by (cases b1) auto
  then have rest: "filling_copy chunks False w1 c1 = (False, w', c')" using Cons.prems(1) ch wr by simp
  from wr show ?case
  proof (cases rule: filling_write_cases)
    case idle
    then show ?thesis using Cons.IH [OF _ Cons.prems(2-4)] rest ch by simp
  next
    case gone
    then show ?thesis using nb by simp
  next
    case (took n)
    have one: "copy_chunks [(bs, k)] w c = (None, w1, c1)" using took by simp
    have "w_buf w1 = w_buf w @ bs" using copy_chunks_content [OF one] by simp
    moreover have "holds w1 c1" "acct c1" "writer_ok w1"
      using copy_chunks_holds [OF Cons.prems(2) one] copy_chunks_acct [OF Cons.prems(3,4) one] by simp_all
    moreover have "w_path w1 = w_path w" using writer_write_frame [of bs k w c] took by simp
    ultimately show ?thesis using Cons.IH [OF rest] ch by simp
  qed
qed simp

text \<open>What a commit of a filled file leaves under its path, if anything is left.\<close>

lemma commit_clean_stored:
  assumes "commit_clean md5 cname now e env [] w c = (r, w', c')" "holds w c" "acct c" "writer_ok w" "inj cname"
    and "lookup (objs c) (w_path w) = None" "lookup (objs c') (w_path w) = Some ob"
  shows "ob = clean_object md5 now w \<and> lookup (live (dc_disk c')) (cname (w_path w)) = Some \<lparr>fcontent = w_buf w, fsynced = True\<rparr>"
proof -
  let ?o = "clean_object md5 now w"
  obtain r1 w1 c1 where cm: "commit cname e ?o w c = (r1, w1, c1)" by (metis prod_cases3)
  show ?thesis
  proof (cases r1)
    case (Inl err)
    then have c': "c' = c1" using assms(1) cm by (simp add: commit_clean_def)
    have "objs c1 = objs c" using cm [unfolded Inl] by (cases rule: commit_cases) auto
    then show ?thesis using assms(6,7) c' by simp
  next
    case (Inr ob1)
    note st = commit_stored_file [OF cm [unfolded Inr] assms(2)]
    have c': "c' = evict_if_needed cname env c1" using assms(1) cm Inr by (simp add: commit_clean_def)
    have left: "w_path w \<notin> set (evict_plan c1)" "lookup (objs c1) (w_path w) = Some ob"
      using assms(7) by (auto simp: c' evict_if_needed_def forget_all_effect split: if_splits)
    then have "cname (w_path w) \<notin> cname ` set (evict_plan c1)" using assms(5) by (auto simp: inj_def)
    then show ?thesis using st left by (simp add: c' evict_if_needed_def live_forget_all map_simps)
  qed
qed

lemma fill_holds:
  assumes "fill remote tmp c = (Inr w, c1)" "acct c"
  shows "holds w c1" "acct c1" "writer_ok w" "w_path w = cache_normalise_path remote" "w_buf w = []"
proof -
  note n = assms(1) [unfolded fill_def]
  show "holds w c1" "w_buf w = []" using new_writer_holds [OF n] by simp_all
  show "acct c1" using acct_new_writer [OF assms(2), of "cache_normalise_path remote" 0 False tmp] n by simp
  show "writer_ok w" by (rule new_writer_ok [OF n cache_normalise_nonempty])
  show "w_path w = cache_normalise_path remote" using n
    by (auto simp: new_writer_def start_writer_def split: if_splits option.splits)
qed

lemma fill_leaves:
  assumes "acct c" "inj cname" "cache_normalise_path p = p" "lookup (objs c) p = None"
    and "c' = fill_cache_with cname dn p got whole c" "lookup (objs c') p = Some ob"
  shows "whole \<and> ob = clean_object (dn_md5 dn) (dn_done dn) \<lparr>w_path = p, w_tmp = [], w_buf = got, w_n = int (length got), w_limit = 0, w_closed = False\<rparr>
    \<and> lookup (live (dc_disk c')) (cname p) = Some \<lparr>fcontent = got, fsynced = True\<rparr>"
proof -
  obtain x c1 where f: "fill p (dn_tmp dn) c = (x, c1)" by fastforce
  have i1: "objs c1 = objs c" using fill_index [of c p "dn_tmp dn"] f by (simp add: same_index_def)
  show ?thesis
  proof (cases x)
    case (Inl e)
    then show ?thesis using assms(4-6) f i1 by (simp add: fill_cache_with_def)
  next
    case (Inr w)
    note fh = fill_holds [OF f [unfolded Inr] assms(1)]
    obtain b w2 c2 where fc: "filling_copy (in_pieces (dn_pieces dn) (dn_rest dn) got) False w c1 = (b, w2, c2)" by (metis prod_cases3)
    have i2: "objs c2 = objs c" using filling_index [OF fc] i1 by (simp add: same_index_def)
    show ?thesis
    proof (cases "b \<or> \<not> whole")
      case True
      then have "c' = snd (writer_abort w2 c2)" using assms(5) f Inr fc by (simp add: fill_cache_with_def)
      then show ?thesis using abort_index [of c2 w2] i2 assms(4,6) by (simp add: same_index_def)
    next
      case False
      have w2: "w_buf w2 = got" "holds w2 c2" "acct c2" "writer_ok w2" "w_path w2 = p"
        using filling_content [of _ w c1 w2 c2] fc False fh assms(3) by (simp_all add: pieces_are_all)
      obtain r w3 c3 where cc: "commit_clean (dn_md5 dn) cname (dn_done dn) (dn_commit dn) (dn_evict dn) [] w2 c2 = (r, w3, c3)"
        by (metis prod_cases3)
      have "c' = c3" using assms(5) f Inr fc cc False by (simp add: fill_cache_with_def)
      then have "ob = clean_object (dn_md5 dn) (dn_done dn) w2"
          "lookup (live (dc_disk c')) (cname p) = Some \<lparr>fcontent = got, fsynced = True\<rparr>"
        using commit_clean_stored [OF cc w2(2-4) assms(2)] i2 assms(4,6) w2(1,5) by simp_all
      moreover have "w_n w2 = int (length got)" using w2(1,4) by (simp add: writer_ok_def)
      ultimately show ?thesis using False w2(1,5) by (simp add: clean_object_def)
    qed
  qed
qed

lemma missed:
  assumes "dc_get cname now open_ok d tio p c = (Inl e, c')" "cache_normalise_path p = p" "acct c"
  shows "lookup (objs c') p = None \<and> acct c'"
  using acct_get [OF assms(3), of cname now open_ok d tio p] assms(1,2)
  by (auto simp: dc_get_def get_index_def Let_def forget_effect map_simps split: option.splits if_splits)

lemma stream_answerE:
  assumes "stream_answer_of env dn p t s = (Inr a, s')"
  obtains res err bytes snk where "piped dn t = (res, err, snk)" "bytes = sk_bytes snk" "da_body a = taken_by_client dn bytes"
    "s' = s\<lparr>br_cache := map_option (fill_cache_with (be_cname env) dn p (da_body a)
       (da_body a = bytes \<and> err = None \<and> arrived_whole res)) (br_cache s)\<rparr>"
  using assms by (auto simp: stream_answer_of_def Let_def split: prod.splits if_splits)

lemma streamedE:
  assumes "server_normalise_path path = Inr p" "br_cache s = Some c" "acct c"
    and "handle_download_stream env dn path s = (Inr a, s')" "da_cache a \<noteq> Some ''HIT''"
  obtains c1 t s1 s2 where "lookup (objs c1) p = None" "acct c1" "br_cache s2 = Some c1" "resolve_target env p s1 = (Inr t, s2)"
    "stream_answer_of env dn p t s2 = (Inr a, s')"
proof -
  have key: "cache_normalise_path p = p" using cache_key_canonical server_path_canonical [OF assms(1)] .
  obtain r c1 where g: "dc_get (be_cname env) (dn_now dn) (dn_open_ok dn) (dn_drop dn) (dn_touch dn) p c = (r, c1)" by fastforce
  show thesis
  proof (cases r)
    case (Inr x)
    then show ?thesis using assms(1,2,4,5) g
      by (auto simp: handle_download_stream_def and_then_def check_def serve_from_cache_def split: prod.splits)
  next
    case (Inl e)
    obtain y s2 where res: "resolve_target env p (s\<lparr>br_cache := Some c1\<rparr>) = (y, s2)" by fastforce
    obtain t where t: "y = Inr t" "\<not> tg_folder t" "stream_answer_of env dn p t s2 = (Inr a, s')"
      using assms(1,2,4) g Inl res
      by (auto simp: handle_download_stream_def and_then_def check_def serve_from_cache_def refuse_def split: sum.splits if_splits)
    have "br_cache s2 = Some c1" using resolve_keeps [of env p] res unfolding keeps_cache_def
      by (metis snd_conv bridge.select_convs(3) bridge.surjective bridge.update_convs(3))
    then show ?thesis using that missed [OF g [unfolded Inl] key assms(3)] res t by blast
  qed
qed

text \<open>C14: Only a whole file is kept: when a download was passed on from upstream and the data cache holds something at the path afterwards, then
  the download ended without an error, as many bytes came as upstream announced, if it did, the client took them all, and the cache holds
  exactly these bytes, with their number and hash; and the next download of the path is answered from the cache with them.\<close>
theorem only_whole_downloads_are_kept:
  assumes "server_normalise_path path = Inr p" "br_cache s = Some c" "acct c" "inj (be_cname env)"
    and "handle_download_stream env dn path s = (Inr a, s')" "da_cache a \<noteq> Some ''HIT''"
    and "br_cache s' = Some c'" "lookup (objs c') p = Some ob"
  shows "(\<exists>t res snk. piped dn t = (Some res, None, snk) \<and> da_body a = sk_bytes snk \<and> (0 < dr_total res \<longrightarrow> dr_written res = dr_total res))
    \<and> ostate ob = StateClean \<and> obj_size ob = int (length (da_body a)) \<and> obj_hash ob = dn_md5 dn (da_body a)
    \<and> (\<forall>dn2. dn_open_ok dn2 \<longrightarrow>
        (\<exists>a2 s2. handle_download_stream env dn2 path s' = (Inr a2, s2) \<and> da_cache a2 = Some ''HIT'' \<and> da_body a2 = da_body a))"
proof -
  have key: "cache_normalise_path p = p" using cache_key_canonical server_path_canonical [OF assms(1)] .
  obtain c1 t s1 s2 where m: "lookup (objs c1) p = None" "acct c1" "br_cache s2 = Some c1"
      and ans: "stream_answer_of env dn p t s2 = (Inr a, s')"
    using streamedE [OF assms(1-3,5,6)] by metis
  from ans obtain res err bytes snk where d: "piped dn t = (res, err, snk)" "bytes = sk_bytes snk"
    and s': "s' = s2\<lparr>br_cache := map_option (fill_cache_with (be_cname env) dn p (da_body a)
       (da_body a = bytes \<and> err = None \<and> arrived_whole res)) (br_cache s2)\<rparr>"
    by (rule stream_answerE)
  then have c': "c' = fill_cache_with (be_cname env) dn p (da_body a) (da_body a = bytes \<and> err = None \<and> arrived_whole res) c1"
    using assms(7) m(3) by simp
  note left = fill_leaves [OF m(2) assms(4) key m(1) c' assms(8)]
  then obtain r where "res = Some r" "0 < dr_total r \<longrightarrow> dr_written r = dr_total r" by (cases res) (auto simp: arrived_whole_def)
  moreover have "\<exists>a2 s3. handle_download_stream env dn2 path s' = (Inr a2, s3) \<and> da_cache a2 = Some ''HIT'' \<and> da_body a2 = da_body a"
    if "dn_open_ok dn2" for dn2
    using served_from_cache [OF assms(1,7,8) _ that, of env] left by fastforce
  ultimately show ?thesis using d left by (auto simp: clean_object_def)
qed

section \<open>Replacing what is there\<close>

lemma refuse_existing_Inr:
  "refuse_existing env remote False x s = (Inr y, s') \<Longrightarrow> y = x \<and> path_exists env remote s = (Inr False, s')"
  by (auto simp: refuse_existing_def and_then_def refuse_def split: sum.splits prod.splits if_splits)

lemma upload_target_Inr:
  assumes "upload_target env p overwrite s = (Inr (folder, name), s')"
  shows "validate_name name = None \<and> name = snd (split_path p) \<and> name \<noteq> [] \<and>
    (\<exists>t s1. missing_as (fst (split_path p)) (require_folder env (fst (split_path p))) s = (Inr t, s1) \<and> folder = tg_id t
      \<and> (overwrite \<or> path_exists env p s1 = (Inr False, s')))"
proof -
  obtain parent nm where sp: "split_path p = (parent, nm)" by fastforce
  from assms obtain t s1 where "nm \<noteq> []" "validate_name nm = None" "missing_as parent (require_folder env parent) s = (Inr t, s1)"
    "refuse_existing env p overwrite (tg_id t, nm) s1 = (Inr (folder, name), s')"
    by (auto simp: upload_target_def sp refuse_def and_then_def split: if_splits option.splits sum.splits prod.splits)
  then show ?thesis using refuse_existing_Inr [of env p "(tg_id t, nm)" s1] sp
    by (cases overwrite) (auto simp: refuse_existing_def)
qed

lemma defer_Inr:
  assumes "upload_target_or_defer env p False s = (Inr x, s')"
  shows "upload_target env p False s = (Inr x, s')"
  using assms by (auto simp: upload_target_or_defer_def refuse_def split: sum.splits prod.splits if_splits)

lemma upload_streamE:
  assumes "server_normalise_path path = Inr p" "handle_upload_stream env ue b path False s = (Inr a, s')"
  obtains folder name s1 where "upload_target env p False s = (Inr (folder, name), s1)"
  using assms defer_Inr
  by (fastforce simp: handle_upload_stream_def upload_cached_def upload_direct_def and_then_def check_def split: if_splits sum.splits prod.splits)


section \<open>Where the cache and upstream part\<close>

text \<open>An upload past the cache leaves an older copy in the cache, and downloads keep being answered with it.\<close>

lemma direct_upload_leaves_old_copy:
  assumes "server_normalise_path path = Inr p" "br_cache s = Some c" "\<not> write_back (dc_cfg c)" "lookup (objs c) p = Some ob"
    and "lookup (live (dc_disk c)) (be_cname env p) = Some f" "handle_upload_stream env ue b path overwrite s = (r, s')" "dn_open_ok dn"
  shows "\<exists>a s2. handle_download_stream env dn path s' = (Inr a, s2) \<and> da_body a = fcontent f"
proof -
  have "keeps_cache (upload_direct env ue b path overwrite)"
  proof -
    have "keeps_cache (\<lambda>s. if bd_length b < 0 then refuse e s
        else case upload ue ps x y (br_up s) of
          ((Inl e, _), u) \<Rightarrow> (Inl (Failed e), s\<lparr>br_up := u\<rparr>)
        | ((Inr r, _), u) \<Rightarrow> (Inr (g r), invalidate_subtree qs (s\<lparr>br_up := u\<rparr>)))" for e ps x y g qs
      unfolding keeps_cache_def by (simp add: refuse_def split: prod.split sum.split)
    then show ?thesis unfolding upload_direct_def by (auto intro!: cache_kept simp: split_def)
  qed
  then have "br_cache s' = br_cache s"
    using assms(2,3,6) unfolding keeps_cache_def by (auto simp: handle_upload_stream_def write_back_enabled_def status_def) (metis snd_conv)
  then show ?thesis using served_from_cache [OF assms(1) _ assms(4,5,7)] assms(2) by fastforce
qed

section \<open>Examples\<close>

definition no_files :: dir_listing where
  "no_files = \<lparr>ls_updated = None, ls_folders = [], ls_files = []\<rparr>"

definition bare_env :: "unit bridge_env" where
  "bare_env = small_env\<lparr>be_list := \<lambda>_ u. (Inr no_files, u)\<rparr>"

definition no_upload :: "unit upload_env" where
  "no_upload = \<lparr>ue_create = \<lambda>_. Inl (Plain []), ue_open = \<lambda>_. Inl (Plain []), ue_server = \<lambda>_ _ s _ _. (Inl (Plain []), s), ue_zip = Some, ue_md5 = rev,
     ue_close = \<lambda>_. None\<rparr>"

definition sample_body :: body_env where
  "sample_body = \<lparr>bd_chunks = [(''xy'', 2), (''z'', 1)], bd_ok = True, bd_length = 3, bd_tmp = Some ''writing-1.tmp'', bd_now = 20,
     bd_commit = all_ok, bd_evict = drop_ok, bd_md5 = rev\<rparr>"

definition sample_down :: "string \<Rightarrow> sentinel option \<Rightarrow> down_env" where
  "sample_down content broken =
     \<lparr>dn_open_ok = True, dn_drop = drop_ok [], dn_touch = JOk, dn_now = 30, dn_client = plain_client, dn_download = served content broken,
      dn_disambiguator = new_disambiguator False 0, dn_eof = is_sentinel OtherCause, dn_room = None, dn_pieces = [(2, 2)], dn_rest = 1,
      dn_tmp = Some ''w'', dn_done = 31, dn_commit = all_ok, dn_evict = drop_ok, dn_md5 = rev\<rparr>"

lemma bare_list: "list_dir bare_env fid no_options s = (Inr no_files, s\<lparr>br_up := ()\<rparr>)"
  by (simp add: list_dir_def list_folder_def small_query ask_up_def bare_env_def)

lemma split_small: "split_path ''/a'' = (''/'', ''a'')"
  by code_simp

lemma bare_root: "\<exists>t. require_folder bare_env ''/'' s = (Inr t, s\<lparr>br_up := ()\<rparr>) \<and> tg_id t = root_folder_id"
  by (simp add: require_folder_def and_then_def resolve_target_def bare_list root_target_def)

lemma bare_exists: "path_exists bare_env ''/a'' s = (Inr False, s\<lparr>br_up := ()\<rparr>)"
  by (simp add: path_exists_def resolve_target_def split_small and_then_def missing_as_def folder_id_for_def bare_list target_of_def no_files_def
      path_not_found_def)

lemma bare_target: "upload_target bare_env ''/a'' False s = (Inr (root_folder_id, ''a''), s\<lparr>br_up := ()\<rparr>)"
proof -
  obtain t where t: "require_folder bare_env ''/'' s = (Inr t, s\<lparr>br_up := ()\<rparr>)" "tg_id t = root_folder_id" using bare_root by blast
  have "validate_name ''a'' = None" by code_simp
  then show ?thesis
    by (simp add: upload_target_def split_small and_then_def missing_as_def t refuse_existing_def bare_exists)
qed

lemma small_stored:
  "\<exists>ob c'. store_body keep_cname sample_body \<lparr>pr_path = ''/a'', pr_folder = root_folder_id, pr_name = ''a'', pr_size = 3\<rparr> (the (br_cache small_bridge)) = (Inr ob, c')"
proof -
  have "cache_normalise_path ''/a'' = ''/a''" using small_path(2) cache_key_canonical by blast
  then show ?thesis
    by (simp add: store_body_def small_bridge_def put_def empty_cache_def small_config_def new_writer_def write_room_def small_object_def
        start_writer_def sample_body_def writer_write_def put_commit_def commit_def all_ok_def dc_append_def jnl_append_def on_disk_def Let_def
        map_sum_def split: prod.split)
qed

text \<open>Unsent data of four bytes is waiting at the path, and an upload without \<open>overwrite\<close> is accepted over it: only upstream is asked.\<close>

lemma unsent_version_replaced:
  "\<exists>a s'. handle_upload_stream bare_env no_upload sample_body ''/a'' False small_bridge = (Inr a, s')"
proof -
  have wb: "write_back_enabled (br_cache small_bridge)"
    by (simp add: write_back_enabled_def small_bridge_def status_def empty_cache_def small_config_def)
  have "small_bridge\<lparr>br_up := ()\<rparr> = small_bridge" by (simp add: small_bridge_def)
  then have "upload_target_or_defer bare_env ''/a'' False small_bridge = (Inr (root_folder_id, ''a''), small_bridge)"
    using bare_target [of small_bridge] by (simp add: upload_target_or_defer_def)
  moreover obtain c where c: "br_cache small_bridge = Some c" by (simp add: small_bridge_def)
  moreover obtain ob c' where
    "store_body keep_cname sample_body \<lparr>pr_path = ''/a'', pr_folder = root_folder_id, pr_name = ''a'', pr_size = 3\<rparr> c = (Inr ob, c')"
    using small_stored c by auto
  moreover have "be_cname bare_env = keep_cname" "bd_length sample_body = 3" by (simp_all add: bare_env_def small_env_def sample_body_def)
  ultimately show ?thesis using wb small_path(1)
    by (simp add: handle_upload_stream_def upload_cached_def and_then_def check_def)
qed

lemma acct_small: "acct (the (br_cache small_bridge))"
  by (auto simp: acct_def small_bridge_def empty_cache_def small_object_def unsent_size_def split: if_splits)

lemma accepted_upload_is_read_back_witness:
  "\<exists>a s' d s2. handle_upload_stream bare_env no_upload sample_body ''/a'' False small_bridge = (Inr a, s') \<and> ua_status a = 202
    \<and> handle_download_stream bare_env (sample_down [] None) ''/a'' s' = (Inr d, s2) \<and> da_body d = ''xyz''"
proof -
  obtain a s' where u: "handle_upload_stream bare_env no_upload sample_body ''/a'' False small_bridge = (Inr a, s')"
    using unsent_version_replaced by blast
  obtain c where c: "br_cache small_bridge = Some c" "acct c" "write_back (dc_cfg c)"
    using acct_small by (simp add: small_bridge_def empty_cache_def small_config_def)
  have "inj (be_cname bare_env)" "dn_open_ok (sample_down [] None)" "body_bytes sample_body = ''xyz''"
    using inj_keep_cname by (simp_all add: bare_env_def small_env_def sample_down_def body_bytes_def sample_body_def)
  with accepted_upload_is_read_back [OF small_path(1) small_path(1) c(1,2) _ c(3) u] u show ?thesis by fastforce
qed


definition the_file :: target where
  "the_file = \<lparr>tg_path = ''/a'', tg_folder = False, tg_id = ''7'', tg_parent = root_folder_id, tg_name = ''a'',
     tg_entry = file_entry \<lparr>de_name = ''a'', de_id = ''7'', de_size = 3, de_modified = None, de_access = 0, de_children = 0, de_link = []\<rparr> ''/a''\<rparr>"

lemma small_file: "resolve_target small_env ''/a'' s = (Inr the_file, s\<lparr>br_up := ()\<rparr>)"
  by (simp add: resolve_target_def split_small and_then_def missing_as_def folder_id_for_def small_list target_of_def one_file_def the_file_def)

definition piped_file :: "string \<Rightarrow> sentinel option \<Rightarrow> download_result option \<times> go_error option \<times> sink" where
  "piped_file content broken = download plain_client rev (served content broken)
     \<lparr>dl_file = ''7'', dl_offset = 0, dl_size = 3, dl_hash = [], dl_sharing = [], dl_inline = False, dl_probe = None\<rparr>
     \<lparr>sk_bytes = [], sk_room = None\<rparr> (new_disambiguator False 0)"

lemma sample_down_simps:
  "dn_tmp (sample_down x y) = Some ''w''" "dn_pieces (sample_down x y) = [(2, 2)]" "dn_rest (sample_down x y) = 1"
  "dn_md5 (sample_down x y) = rev" "dn_done (sample_down x y) = 31" "dn_commit (sample_down x y) = all_ok" "dn_evict (sample_down x y) = drop_ok"
  "dn_room (sample_down x y) = None" "dn_eof (sample_down x y) = is_sentinel OtherCause"
  by (simp_all add: sample_down_def)

lemma piped_file: "piped (sample_down content broken) the_file = piped_file content broken"
  by (simp add: piped_def piped_file_def sample_down_def the_file_def file_entry_def)

lemma piped_whole: "sk_bytes (snd (snd (piped_file ''new'' None))) = ''new''" "fst (snd (piped_file ''new'' None)) = None"
    "arrived_whole (fst (piped_file ''new'' None))"
  and piped_broken: "sk_bytes (snd (snd (piped_file ''ne'' (Some OtherCause)))) = ''ne''"
    "case fst (snd (piped_file ''ne'' (Some OtherCause))) of None \<Rightarrow> False | Some e \<Rightarrow> is_sentinel OtherCause e"
  by code_simp+

definition idle_bridge :: "unit bridge" where
  "idle_bridge = \<lparr>br_up = (), br_index = None, br_cache = Some (empty_cache small_config)\<rparr>"

abbreviation missed_once :: datacache where
  "missed_once \<equiv> (empty_cache small_config)\<lparr>dc_misses := 1\<rparr>"

lemma idle_misses:
  "\<exists>c1. dc_get keep_cname 30 True (drop_ok []) JOk ''/a'' (empty_cache small_config) = (Inl ErrNotCached, c1) \<and> c1 = missed_once"
  by (simp add: dc_get_def get_index_def empty_cache_def Let_def)

definition sample_writer :: "int \<Rightarrow> string \<Rightarrow> dc_writer" where
  "sample_writer n b = \<lparr>w_path = ''/a'', w_tmp = ''w'', w_buf = b, w_n = n, w_limit = 0, w_closed = False\<rparr>"

lemma fill_steps:
  "fill ''/a'' (Some ''w'') missed_once = (Inr (sample_writer 0 []), on_disk (write_file ''w'' []) missed_once)"
  "filling_copy (in_pieces [(2, 2)] 1 ''new'') False (sample_writer 0 []) c
    = (False, sample_writer 3 ''new'', on_disk (write_file ''w'' ''new'') (on_disk (write_file ''w'' ''ne'') c))"
proof -
  have "cache_normalise_path ''/a'' = ''/a''" using small_path(2) cache_key_canonical by blast
  then show "fill ''/a'' (Some ''w'') missed_once = (Inr (sample_writer 0 []), on_disk (write_file ''w'' []) missed_once)"
    by (simp add: fill_def new_writer_def start_writer_def sample_writer_def empty_cache_def)
  show "filling_copy (in_pieces [(2, 2)] 1 ''new'') False (sample_writer 0 []) c
      = (False, sample_writer 3 ''new'', on_disk (write_file ''w'' ''new'') (on_disk (write_file ''w'' ''ne'') c))"
    by (simp add: filling_write_def writer_write_def sample_writer_def Let_def)
qed

lemma fill_committed:
  "lookup (objs (snd (snd (commit_clean rev keep_cname 31 all_ok drop_ok [] (sample_writer 3 ''new'')
     (on_disk (write_file ''w'' ''new'') (on_disk (write_file ''w'' ''ne'') (on_disk (write_file ''w'' []) missed_once))))))) ''/a'' \<noteq> None"
  by code_simp

lemma idle_filled: "lookup (objs (fill_cache_with keep_cname (sample_down ''new'' None) ''/a'' ''new'' True missed_once)) ''/a'' \<noteq> None"
  using fill_committed by (simp only: fill_cache_with_def sample_down_simps fill_steps sum.case prod.case simp_thms if_False)

lemma whole_answer:
  "\<exists>a c'. handle_download_stream small_env (sample_down ''new'' None) ''/a'' idle_bridge = (Inr a, idle_bridge\<lparr>br_cache := Some c'\<rparr>)
    \<and> da_cache a = Some ''MISS'' \<and> lookup (objs c') ''/a'' \<noteq> None"
proof -
  let ?c1 = "(empty_cache small_config)\<lparr>dc_misses := 1\<rparr>"
  obtain res snk where p: "piped (sample_down ''new'' None) the_file = (res, None, snk)" "sk_bytes snk = ''new''" "arrived_whole res"
    using piped_whole unfolding piped_file by (metis prod.collapse)
  have "\<not> tg_folder the_file" "be_cname small_env = keep_cname" "dn_room (sample_down ''new'' None) = None"
    by (simp_all add: the_file_def small_env_def sample_down_def)
  moreover have "serve_from_cache keep_cname (sample_down ''new'' None) ''/a'' n (br_cache idle_bridge) = (None, Some ?c1)" for n
    using idle_misses by (simp add: serve_from_cache_def idle_bridge_def sample_down_def)
  ultimately show ?thesis using idle_filled p small_path(1)
    by (simp add: handle_download_stream_def and_then_def check_def small_file stream_answer_of_def failed_early_def taken_by_client_def
        idle_bridge_def Let_def)
qed

lemma only_whole_downloads_are_kept_witness:
  "\<exists>a s' ob c'. handle_download_stream small_env (sample_down ''new'' None) ''/a'' idle_bridge = (Inr a, s') \<and> da_cache a = Some ''MISS''
    \<and> br_cache s' = Some c' \<and> lookup (objs c') ''/a'' = Some ob \<and> obj_size ob = int (length (da_body a))"
proof -
  obtain a c' ob where w: "handle_download_stream small_env (sample_down ''new'' None) ''/a'' idle_bridge = (Inr a, idle_bridge\<lparr>br_cache := Some c'\<rparr>)"
      "da_cache a = Some ''MISS''" "lookup (objs c') ''/a'' = Some ob"
    using whole_answer by auto
  have "br_cache idle_bridge = Some (empty_cache small_config)" "inj (be_cname small_env)"
    using inj_keep_cname by (simp_all add: idle_bridge_def small_env_def)
  with only_whole_downloads_are_kept [OF small_path(1) _ acct_empty_cache _ w(1)] w show ?thesis by fastforce
qed

text \<open>A connection that breaks within the first 32 KB with \<open>io.ErrUnexpectedEOF\<close>: the client gets what came as a complete answer.\<close>

lemma broken_download_answered:
  "\<exists>a s'. handle_download_stream small_env (sample_down ''ne'' (Some OtherCause)) ''/a'' idle_bridge = (Inr a, s') \<and> da_body a = ''ne''"
proof -
  let ?x = "piped_file ''ne'' (Some OtherCause)"
  obtain res err snk where x: "?x = (res, err, snk)" by (metis prod_cases3)
  then have e: "case err of None \<Rightarrow> False | Some e \<Rightarrow> is_sentinel OtherCause e" "sk_bytes snk = ''ne''" using piped_broken by simp_all
  then obtain e where "err = Some e" "is_sentinel OtherCause e" by (cases err) simp_all
  with x e(2) have p: "piped (sample_down ''ne'' (Some OtherCause)) the_file = (res, Some e, snk)" "sk_bytes snk = ''ne''" "is_sentinel OtherCause e"
    by (simp_all add: piped_file)
  have "\<not> tg_folder the_file" "be_cname small_env = keep_cname" "dn_room (sample_down ''ne'' (Some OtherCause)) = None"
      "dn_eof (sample_down ''ne'' (Some OtherCause)) = is_sentinel OtherCause"
    by (simp_all add: the_file_def small_env_def sample_down_def)
  moreover have "\<exists>c1. serve_from_cache keep_cname (sample_down ''ne'' (Some OtherCause)) ''/a'' n (br_cache idle_bridge) = (None, Some c1)" for n
    using idle_misses by (simp add: serve_from_cache_def idle_bridge_def sample_down_def)
  then obtain c1 where "serve_from_cache keep_cname (sample_down ''ne'' (Some OtherCause)) ''/a'' (base_name ''/a'') (br_cache idle_bridge) = (None, Some c1)"
    by blast
  ultimately show ?thesis using p small_path(1)
    by (simp add: handle_download_stream_def and_then_def check_def small_file stream_answer_of_def failed_early_def taken_by_client_def
        Let_def)
qed

end
