(* ===== verification/Bridge_Jobs_Props.thy ===== *)
theory Bridge_Jobs_Props
  imports Bridge_Jobs Bridge_Transfers_Props
begin

text \<open>What the endpoints of \<open>Bridge_Jobs\<close> promise.\<close>

section \<open>Accepted transfers\<close>

definition queued_in :: "job \<Rightarrow> 's store_ops \<Rightarrow> 's engine \<Rightarrow> 's engine \<Rightarrow> bool" where
  "queued_in j ops e e' \<longleftrightarrow>
     j_state j = JQueued \<and> get_job (job_id j) e' = Some j \<and> en_queue e' = en_queue e @ [job_id j] \<and> length (en_queue e') \<le> queue_cap
     \<and> st_save ops j (en_store e) = (True, en_store e')"

lemma submitted_queued:
  assumes "submitted js sp after s e = (Inr j, s', e')"
  obtains sp' where "validate_spec sp = Inr sp'" "j_spec j = sp'" "queued_in j (jb_ops js) e e'" "s' = after s" "job_id j = jb_id js"
  using assms that
  by (auto simp: submitted_def submit_def queued_in_def new_job_def get_job_def Let_def map_simps split: sum.splits prod.splits if_splits)

lemma target_named: "upload_target env p overwrite s = (Inr (folder, name), s') \<Longrightarrow> name \<noteq> []"
  using upload_target_Inr by blast

lemma defer_cases:
  assumes "upload_target_or_defer env p overwrite s = (Inr (folder, name), s')"
  obtains "upload_target env p overwrite s = (Inr (folder, name), s')"
  | e where "upload_target env p overwrite s = (Inl e, s')" "bridge_temporary e" "overwrite" "folder = []" "name = snd (split_path p)"
  using assms that by (auto simp: upload_target_or_defer_def refuse_def split: sum.splits prod.splits if_splits)

lemma temporary_named:
  assumes "upload_target env p overwrite s = (Inl e, s')" "bridge_temporary e"
  shows "snd (split_path p) \<noteq> []"
  using assms by (auto simp: upload_target_def refuse_def split: prod.splits if_splits)

text \<open>C18: A transfer that was accepted with a job will be run, also after a restart: the job the answer shows is in the table, waiting, at
  the end of the queue, which is not over its bound, and saved; an upload job names the folder and the valid name under which the target was found
  free or may be replaced, or no folder when that is left to the time of delivery; a download job of a file the data cache holds asks upstream
  nothing.\<close>
theorem accepted_transfers_are_queued:
  shows "(\<forall>j s' e'. handle_upload env js st local path overwrite (s, Some e) = (Inr j, s', e') \<longrightarrow>
      (\<exists>e1 p n folder name s1. e' = Some e1 \<and> queued_in j (jb_ops js) e e1 \<and> server_normalise_path path = Inr p \<and> st = StatFile n
        \<and> upload_target_or_defer env p overwrite s = (Inr (folder, name), s1) \<and> j_spec j = upload_spec local folder name p n overwrite))
    \<and> (\<forall>j s' e'. handle_download env js path local (s, Some e) = (Inr j, s', e') \<longrightarrow>
      (\<exists>e1 p. e' = Some e1 \<and> queued_in j (jb_ops js) e e1 \<and> server_normalise_path path = Inr p
        \<and> sp_remote (j_spec j) = p \<and> (held_by_cache (br_cache s) p \<longrightarrow> s' = s)))"
proof (intro conjI allI impI)
  fix j s' e'
  assume "handle_upload env js st local path overwrite (s, Some e) = (Inr j, s', e')"
  then obtain p n folder name s1 e1 where ok: "server_normalise_path path = Inr p" "local_size local st = Inr n"
      "upload_target_or_defer env p overwrite s = (Inr (folder, name), s1)"
      and sub: "submitted js (upload_spec local folder name p n overwrite) (invalidate_subtree [p, fst (split_path p)]) s1 e = (Inr j, s', e1)" "e' = Some e1"
    by (auto simp: handle_upload_def with_engine_def and_then_def check_def split: sum.splits prod.splits)
  obtain sp' where sp: "validate_spec (upload_spec local folder name p n overwrite) = Inr sp'" "j_spec j = sp'" "queued_in j (jb_ops js) e e1"
    using submitted_queued [OF sub(1)] by metis
  have "name \<noteq> []"
  proof (cases rule: defer_cases [OF ok(3)])
    case 1
    then show ?thesis by (rule target_named)
  next
    case (2 e2)
    then show ?thesis using temporary_named [OF 2(1,2)] by simp
  qed
  then have "sp' = upload_spec local folder name p n overwrite" using sp(1) by (auto simp: validate_spec_def upload_spec_def split: if_splits)
  moreover have "st = StatFile n" using ok(2) by (auto simp: local_size_def split: if_splits local_stat.splits)
  ultimately show "\<exists>e1 p n folder name s1. e' = Some e1 \<and> queued_in j (jb_ops js) e e1 \<and> server_normalise_path path = Inr p \<and> st = StatFile n
      \<and> upload_target_or_defer env p overwrite s = (Inr (folder, name), s1) \<and> j_spec j = upload_spec local folder name p n overwrite"
    using ok sp sub(2) by blast
next
  fix j s' e'
  assume "handle_download env js path local (s, Some e) = (Inr j, s', e')"
  then obtain p fid n s1 e1 where ok: "server_normalise_path path = Inr p" "download_source env p s = (Inr (fid, n), s1)"
      and sub: "submitted js (download_spec local p fid n) (\<lambda>s. s) s1 e = (Inr j, s', e1)" "e' = Some e1"
    by (auto simp: handle_download_def with_engine_def and_then_def check_def refuse_def split: sum.splits prod.splits if_splits)
  obtain sp' where sp: "validate_spec (download_spec local p fid n) = Inr sp'" "j_spec j = sp'" "queued_in j (jb_ops js) e e1" "s' = s1"
    using submitted_queued [OF sub(1)] by metis
  have "sp' = download_spec local p fid n" using sp(1) by (auto simp: validate_spec_def download_spec_def split: if_splits)
  moreover have "s1 = s" if "held_by_cache (br_cache s) p" using ok(2) that by (simp add: download_source_def)
  ultimately show "\<exists>e1 p. e' = Some e1 \<and> queued_in j (jb_ops js) e e1 \<and> server_normalise_path path = Inr p
      \<and> sp_remote (j_spec j) = p \<and> (held_by_cache (br_cache s) p \<longrightarrow> s' = s)"
    using ok(1) sp sub(2) by (auto simp: download_spec_def)
qed

section \<open>Cancelling\<close>

text \<open>What a cancellation that is answered with a job means for it.\<close>

lemma get_job_request_delete [simp]: "get_job i (request_delete info jo e) = get_job i e"
  by (simp add: request_delete_def get_job_def split: option.split sum.split)

lemma get_job_persist [simp]: "get_job i (snd (persist ops k e)) = get_job i e"
  by (simp add: persist_def get_job_def split: option.split prod.split)

lemma cancel_leaves:
  assumes "cancel_job ops info i now e = (None, e')"
  obtains j where "get_job i e' = Some j" "terminal (j_state j) \<or> j_state j = JRunning"
proof (cases "get_job i e")
  case None
  then show ?thesis using assms by (simp add: cancel_job_def cancel_mark_def get_job_def)
next
  case (Some j)
  show ?thesis
  proof (cases "terminal (j_state j) \<or> j_state j = JRunning")
    case True
    then have "get_job i e' = Some j" using assms Some by (auto simp: cancel_job_def cancel_mark_def get_job_def Let_def split: if_splits)
    then show ?thesis using that True by blast
  next
    case False
    let ?j = "j\<lparr>j_state := JCancelled, updated_at := now, j_speed := 0\<rparr>"
    obtain e1 where m: "cancel_mark i now e = (CancelMarked ?j, e1)" "get_job i e1 = Some ?j"
      using False Some by (auto simp: cancel_mark_def get_job_def Let_def map_simps)
    obtain ok e2 where p: "persist ops i (request_delete info (Some ?j) (e1\<lparr>en_cancelling := AList.delete i (en_cancelling e1)\<rparr>)) = (ok, e2)"
      by fastforce
    have "e' = e2" using assms m(1) p by (auto simp: cancel_job_def)
    moreover have "get_job i e2 = Some ?j"
      using get_job_persist [of i ops i "request_delete info (Some ?j) (e1\<lparr>en_cancelling := AList.delete i (en_cancelling e1)\<rparr>)"] p m(2)
      by (simp add: get_job_def del: get_job_persist)
    ultimately show ?thesis using that by simp
  qed
qed

lemma cancelled_job:
  assumes "handle_job_cancel js info i (s, Some e) = (Inr shown, s', Some e')"
  obtains j where "get_job i e' = Some j" "shown = readable_job j" "terminal (j_state j) \<or> j_state j = JRunning"
proof -
  obtain e1 where c: "cancel_job (jb_ops js) info i (jb_now js) e = (None, e1)" "shown_job i e1 = Inr shown" "e1 = e'"
    using assms by (auto simp: handle_job_cancel_def with_engine_def split: option.splits prod.splits)
  from c(1) obtain j where "get_job i e1 = Some j" "terminal (j_state j) \<or> j_state j = JRunning" by (rule cancel_leaves)
  then show thesis using that c(2,3) by (auto simp: shown_job_def)
qed

section \<open>What the jobs and links say\<close>

text \<open>Only the errors of one kind are put into words for the user; every other error of a job is shown with the text of the Go error.\<close>

lemma job_errors_pass_raw: "j_error j = Some je \<Longrightarrow> je_code je \<noteq> kind_name KindUpstreamError \<Longrightarrow> readable_job j = j"
  by (simp add: readable_job_def user_wording_for_def Let_def)

text \<open>A share link without a limit of uses is asked for with the same switch as the one that revokes a link.\<close>

lemma unlimited_link_is_switched_off:
  "handle_share_create env is_date next_week path [] 0 s = (Inr a, s') \<Longrightarrow>
    \<exists>p s1. handle_share_revoke env next_week path s = (Inr p, s1) \<and> s1 = s' \<and> p = sh_path a"
  by (auto simp: handle_share_create_def handle_share_revoke_def and_then_def Let_def refuse_def split: sum.splits prod.splits)

text \<open>A full queue of the bridge is answered as a refusal of OpenDrive.\<close>

lemma full_queue_blames_upstream:
  "submitted js sp after s e = (Inl err, s', e') \<Longrightarrow> ea_message (build_error (Some err)) = message_for KindUpstreamError"
  by (auto simp: submitted_def build_error_def error_kind_def split: sum.splits prod.splits)

section \<open>An example\<close>

definition memory_side :: "memory_store job_side" where
  "memory_side = \<lparr>jb_ops = mem_ops, jb_cfg = default_engine, jb_id = ''j1'', jb_now = 5\<rparr>"

lemma accepted_transfers_are_queued_witness:
  "\<exists>j s' e'. handle_upload bare_env memory_side (StatFile 9) ''/tmp/f'' ''/a'' False (idle_bridge, Some (new_engine [])) = (Inr j, s', Some e')
    \<and> get_job (job_id j) e' = Some j \<and> sp_name (j_spec j) = ''a''"
proof -
  have "upload_target_or_defer bare_env ''/a'' False idle_bridge = (Inr (root_folder_id, ''a''), idle_bridge)"
    using bare_target [of idle_bridge] by (simp add: upload_target_or_defer_def idle_bridge_def)
  then have "\<exists>j s' e'. handle_upload bare_env memory_side (StatFile 9) ''/tmp/f'' ''/a'' False (idle_bridge, Some (new_engine [])) = (Inr j, s', Some e')"
    by (simp add: handle_upload_def with_engine_def and_then_def check_def small_path(1) local_size_def submitted_def submit_def validate_spec_def
        upload_spec_def memory_side_def mem_ops_def mem_save_def new_engine_def queue_cap_def Let_def)
  then obtain j s' e' where u: "handle_upload bare_env memory_side (StatFile 9) ''/tmp/f'' ''/a'' False (idle_bridge, Some (new_engine [])) = (Inr j, s', Some e')"
    by blast
  with accepted_transfers_are_queued [of bare_env memory_side "StatFile 9" "''/tmp/f''" "''/a''" False idle_bridge "new_engine []"]
  obtain e1 p n folder name s1 where "Some e' = Some e1" "queued_in j (jb_ops memory_side) (new_engine []) e1" "server_normalise_path ''/a'' = Inr p"
      "upload_target_or_defer bare_env p False idle_bridge = (Inr (folder, name), s1)" "j_spec j = upload_spec ''/tmp/f'' folder name p n False"
    by metis
  then have "get_job (job_id j) e' = Some j" "sp_name (j_spec j) = ''a''"
    using \<open>upload_target_or_defer bare_env ''/a'' False idle_bridge = (Inr (root_folder_id, ''a''), idle_bridge)\<close>
    by (simp_all add: queued_in_def small_path(1) upload_spec_def)
  with u show ?thesis by blast
qed

end
