(* ===== verification/Wire_Types.thy ===== *)
theory Wire_Types
  imports Go_Time Redact
begin

text \<open>
  The loose types of \<open>pkg/opendrive/types.go\<close>: how an upstream value that may come quoted, bare, empty or null is read as a flag, a number,
  an identifier, a time or the outcome of a call, and how each is written. A value is the JSON token \<open>UnmarshalJSON\<close> is handed, with string
  literals already decoded. A time is its second since the epoch, none for the zero time.
\<close>

section \<open>Values\<close>

datatype wire =
    WNull
  | WBool bool
  | WNumber string
  | WText string
  | WArray string "wire list"
  | WObject string "(string \<times> wire) list"

text \<open>The bytes of a token that is not a string.\<close>

fun bare :: "wire \<Rightarrow> string" where
  "bare WNull = ''null''"
| "bare (WBool b) = (if b then ''true'' else ''false'')"
| "bare (WNumber t) = t"
| "bare (WText t) = t"
| "bare (WArray t _) = t"
| "bare (WObject t _) = t"

section \<open>Numbers as \<open>strconv\<close> reads them\<close>

text \<open>\<open>ParseInt\<close> in base 10 and 64 bits is \<open>atoi\<close>.\<close>

text \<open>\<open>ParseFloat\<close>: sign, magnitude as \<open>m * 2 ^ k\<close>, or one of the values that are not finite.\<close>

datatype float64 = Finite bool int int | Infinite bool | NotANumber

function bit_length :: "int \<Rightarrow> int" where
  "bit_length n = (if n \<le> 0 then 0 else 1 + bit_length (n div 2))"
  by pat_completeness auto
termination
  by (relation "measure nat") auto

declare bit_length.simps [simp del]

definition half_even :: "int \<Rightarrow> int \<Rightarrow> int" where
  "half_even n d =
     (let q = n div d; r = n mod d in if 2 * r < d \<or> 2 * r = d \<and> even q then q else q + 1)"

text \<open>The double nearest to \<open>n / d\<close>; none when it is out of range.\<close>

definition nearest_float :: "bool \<Rightarrow> int \<Rightarrow> int \<Rightarrow> float64 option" where
  "nearest_float neg n d =
     (let b = bit_length n - bit_length d;
          up = (if b \<ge> 0 then d * 2 ^ nat b \<le> n else d \<le> n * 2 ^ nat (- b));
          k = max (if up then b - 52 else b - 53) (- 1074);
          q = (if k \<ge> 0 then half_even n (d * 2 ^ nat k) else half_even (n * 2 ^ nat (- k)) d)
      in if bit_length q + k > 1024 then None else Some (Finite neg q k))"

definition exponent_of :: "string \<Rightarrow> int option" where
  "exponent_of s =
     (case s of
        [] \<Rightarrow> Some 0
      | c # r \<Rightarrow>
          if c \<noteq> CHR ''e'' \<and> c \<noteq> CHR ''E'' then None
          else let neg = has_prefix r ''-''; ds = (if neg \<or> has_prefix r ''+'' then tl r else r)
               in if ds \<noteq> [] \<and> list_all is_digit ds then Some (if neg then - digits_value ds else digits_value ds) else None)"

text \<open>Decimal spellings. What else \<open>ParseFloat\<close> takes (hexadecimal, digits set apart, infinities, \<open>nan\<close>) is \<open>other\<close>.\<close>

definition parse_decimal :: "string \<Rightarrow> float64 option option" where
  "parse_decimal s =
     (let neg = has_prefix s ''-'';
          t = (if neg \<or> has_prefix s ''+'' then tl s else s);
          whole = takeWhile is_digit t;
          r = dropWhile is_digit t;
          dot = has_prefix r ''.'';
          frac = (if dot then takeWhile is_digit (tl r) else []);
          rest = (if dot then dropWhile is_digit (tl r) else r)
      in if whole = [] \<and> frac = [] then None
         else case exponent_of rest of
           None \<Rightarrow> None
         | Some e \<Rightarrow>
             let m = digits_value (whole @ frac); e1 = e - int (length frac)
             in Some (if e1 \<ge> 0 then nearest_float neg (m * 10 ^ nat e1) 1 else nearest_float neg m (10 ^ nat (- e1))))"

definition parse_float :: "(string \<Rightarrow> float64 option) \<Rightarrow> string \<Rightarrow> float64 option" where
  "parse_float other s = (case parse_decimal s of Some r \<Rightarrow> r | None \<Rightarrow> other s)"

text \<open>Conversion to \<open>int64\<close> drops the fraction; for what does not fit the language leaves the result to the platform, \<open>wide\<close>.\<close>

definition int_of_float :: "(float64 \<Rightarrow> int) \<Rightarrow> float64 \<Rightarrow> int" where
  "int_of_float wide f =
     (case f of
        Finite neg q k \<Rightarrow>
          let m = (if k \<ge> 0 then q * 2 ^ nat k else q div 2 ^ nat (- k)); v = (if neg then - m else m)
          in if in_int64 v then v else wide f
      | _ \<Rightarrow> wide f)"

definition float_is_zero :: "float64 \<Rightarrow> bool" where
  "float_is_zero f = (case f of Finite _ q _ \<Rightarrow> q = 0 | _ \<Rightarrow> False)"

section \<open>Flags\<close>

definition loose_bool :: "(string \<Rightarrow> float64 option) \<Rightarrow> string \<Rightarrow> bool option" where
  "loose_bool other s =
     (let t = to_lower (trim_space s) in
      if t \<in> {[], ''0'', ''false'', ''no'', ''off'', ''null''} then Some False
      else if t \<in> {''1'', ''true'', ''yes'', ''on''} then Some True
      else map_option (\<lambda>f. \<not> float_is_zero f) (parse_float other (trim_space s)))"

fun flex_bool :: "(string \<Rightarrow> float64 option) \<Rightarrow> wire \<Rightarrow> bool option" where
  "flex_bool other WNull = Some False"
| "flex_bool other (WText t) = loose_bool other t"
| "flex_bool other w = loose_bool other (bare w)"

definition flex_bool_json :: "bool \<Rightarrow> wire" where
  "flex_bool_json b = WBool b"

text \<open>\<open>StringBool\<close>: a string on the wire.\<close>

definition string_bool_json :: "bool \<Rightarrow> wire" where
  "string_bool_json b = WText (if b then ''true'' else ''false'')"

definition string_bool :: "(string \<Rightarrow> float64 option) \<Rightarrow> wire \<Rightarrow> bool option" where
  "string_bool other w = flex_bool other w"

section \<open>Whole numbers\<close>

definition loose_int :: "(string \<Rightarrow> float64 option) \<Rightarrow> (float64 \<Rightarrow> int) \<Rightarrow> string \<Rightarrow> int option" where
  "loose_int other wide s =
     (case atoi s of
        Some n \<Rightarrow> Some n
      | None \<Rightarrow> map_option (int_of_float wide) (parse_float other s))"

fun flex_int :: "(string \<Rightarrow> float64 option) \<Rightarrow> (float64 \<Rightarrow> int) \<Rightarrow> wire \<Rightarrow> int option" where
  "flex_int other wide WNull = Some 0"
| "flex_int other wide (WText t) = (if trim_space t = [] then Some 0 else loose_int other wide (trim_space t))"
| "flex_int other wide w = loose_int other wide (bare w)"

definition flex_int_json :: "int \<Rightarrow> wire" where
  "flex_int_json n = WNumber (show_int n)"

section \<open>Identifiers\<close>

fun flex_string :: "wire \<Rightarrow> string option" where
  "flex_string WNull = Some []"
| "flex_string (WText t) = Some t"
| "flex_string (WArray _ _) = None"
| "flex_string (WObject _ _) = None"
| "flex_string w = Some (bare w)"

definition flex_string_json :: "string \<Rightarrow> wire" where
  "flex_string_json s = WText s"

section \<open>Times\<close>

definition unset_time :: int where
  "unset_time = - 62135596800"

definition unix_time :: "(string \<Rightarrow> float64 option) \<Rightarrow> (float64 \<Rightarrow> int) \<Rightarrow> wire \<Rightarrow> int option" where
  "unix_time other wide w = map_option (\<lambda>n. if n = 0 then unset_time else n) (flex_int other wide w)"

definition unix_time_json :: "int \<Rightarrow> wire" where
  "unix_time_json t = (if t = unset_time then WNumber ''0'' else flex_int_json t)"

section \<open>Outcomes\<close>

text \<open>\<open>encoding/json\<close> gives a member to the field whose name it is but for letter case; the last one counts, and null unsets a pointer.\<close>

definition is_field :: "string \<Rightarrow> string \<Rightarrow> bool" where
  "is_field name key \<longleftrightarrow> fold_name name key = Some []"

fun flag_member :: "(string \<Rightarrow> float64 option) \<Rightarrow> string \<Rightarrow> (string \<times> wire) list \<Rightarrow> bool option \<Rightarrow> bool option option" where
  "flag_member other name [] got = Some got"
| "flag_member other name ((k, v) # ms) got =
     (if \<not> is_field name k then flag_member other name ms got
      else if v = WNull then flag_member other name ms None
      else case flex_bool other v of None \<Rightarrow> None | Some b \<Rightarrow> flag_member other name ms (Some b))"

fun outcome :: "(string \<Rightarrow> float64 option) \<Rightarrow> wire \<Rightarrow> bool option" where
  "outcome other WNull = Some False"
| "outcome other (WObject _ ms) =
     (case (flag_member other ''result'' ms None, flag_member other ''status'' ms None) of
        (Some r, Some s) \<Rightarrow>
          Some (case r of Some b \<Rightarrow> b | None \<Rightarrow> (case s of Some b \<Rightarrow> b | None \<Rightarrow> True))
      | _ \<Rightarrow> None)"
| "outcome other w = flex_bool other w"

section \<open>What is written is read back\<close>

lemma parse_show_int:
  assumes "in_int64 n"
  shows "atoi (show_int n) = Some n"
proof -
  have first: "\<not> has_prefix (show_nat k) ''-'' \<and> \<not> has_prefix (show_nat k) ''+''" for k
    using show_nat_digits [of k] by (cases "show_nat k") (auto simp: is_digit_def less_eq_char_def)
  have ds: "list_all is_digit (show_nat k)" "show_nat k \<noteq> []" for k using show_nat_digits [of k] by simp_all
  show ?thesis
  proof (cases "n < 0")
    case True
    then show ?thesis using assms ds [of "nat (- n)"]
      by (simp add: atoi_def show_int_def digits_value_show Let_def)
  next
    case False
    then show ?thesis using assms ds [of "nat n"] first [of "nat n"]
      by (simp add: atoi_def show_int_def digits_value_show Let_def)
  qed
qed

text \<open>Numbers written as digits, bare or quoted, are read as what they are, in every digit: no rounding through a double.\<close>

lemma digits_are_exact: "in_int64 n \<Longrightarrow> flex_int other wide (WNumber (show_int n)) = Some n"
  by (simp add: loose_int_def parse_show_int)

definition number_char :: "char \<Rightarrow> bool" where
  "number_char c \<longleftrightarrow> is_digit c \<or> c = CHR ''-''"

lemma show_int_ends: "show_int n \<noteq> [] \<and> list_all number_char (show_int n)"
  using show_nat_digits [of "nat n"] show_nat_digits [of "nat (- n)"] by (auto simp: show_int_def list_all_iff number_char_def)

lemma spaces_are_not_numbers: "filter number_char (map hd space_seqs @ map last space_seqs) = []"
  by code_simp

lemma show_int_trimmed [simp]: "trim_space (show_int n) = show_int n"
proof (rule trim_space_id, rule trimmed_ends)
  have "number_char (hd (show_int n))" "number_char (last (show_int n))"
    using show_int_ends [of n] hd_in_set [of "show_int n"] last_in_set [of "show_int n"] by (auto simp: list_all_iff)
  then show "\<forall>w \<in> set space_seqs. hd w \<noteq> hd (show_int n)" "\<forall>w \<in> set space_seqs. last w \<noteq> last (show_int n)"
    using spaces_are_not_numbers by (auto simp: filter_empty_conv)
qed (use show_int_ends in simp)

lemma quoted_digits_are_exact: "in_int64 n \<Longrightarrow> flex_int other wide (WText (show_int n)) = Some n"
  using show_int_ends [of n] by (simp add: loose_int_def parse_show_int)

text \<open>An identifier is the same whether upstream quotes it or not.\<close>

lemma ids_quoted_or_not: "flex_string (WText (show_int n)) = flex_string (WNumber (show_int n))"
  by simp

lemma flex_int_round_trip: "in_int64 n \<Longrightarrow> flex_int other wide (flex_int_json n) = Some n"
  by (simp add: flex_int_json_def loose_int_def parse_show_int)

text \<open>A time comes back unless it is the first second of 1970, which is written as 0 and read as the zero time.\<close>

lemma unix_time_round_trip:
  assumes "in_int64 t"
  shows "unix_time other wide (unix_time_json t) = Some (if t = 0 then unset_time else t)"
proof (cases "t = unset_time")
  case True
  have "atoi ''0'' = Some 0" by code_simp
  then show ?thesis using True by (simp add: unix_time_json_def unix_time_def loose_int_def unset_time_def)
next
  case False
  then show ?thesis using assms using flex_int_round_trip [of t] by (simp add: unix_time_json_def unix_time_def)
qed

text \<open>A text with a fraction or an exponent is read through a double, and its fraction dropped.\<close>

lemma fractions_are_dropped:
  "flex_int other wide (WNumber ''1e3'') = Some 1000"
  "flex_int other wide (WText ''-2.75'') = Some (- 2)"
  "flex_int other wide (WNumber ''9007199254740993.0'') = Some 9007199254740992"
  by code_simp+

text \<open>A number that does not fit is not refused: it becomes whatever the platform makes of it.\<close>

lemma wide_numbers_pass: "flex_int other wide (WNumber ''9223372036854775808'') = Some (wide (Finite False (2 ^ 52) 11))"
  by code_simp

text \<open>A call that answers with an empty object has worked; one that answers \<open>null\<close> has not.\<close>

lemma empty_outcome: "outcome other (WObject t []) = Some True" "outcome other WNull = Some False"
  by simp_all

lemma outcome_result_counts:
  "outcome other (WObject t [(''status'', WBool True), (''result'', WText ''0'')]) = Some False"
  by code_simp

lemma flags_come_back: "flex_bool other (flex_bool_json b) = Some b" "string_bool other (string_bool_json b) = Some b"
proof -
  have "flex_bool other (flex_bool_json True) = Some True" "flex_bool other (flex_bool_json False) = Some False"
    "string_bool other (string_bool_json True) = Some True" "string_bool other (string_bool_json False) = Some False"
    by code_simp+
  then show "flex_bool other (flex_bool_json b) = Some b" "string_bool other (string_bool_json b) = Some b"
    by (cases b; simp)+
qed

lemma ids_come_back: "flex_string (flex_string_json s) = Some s"
  by (simp add: flex_string_json_def)

end
