(* ===== verification/Sharing.thy ===== *)
theory Sharing
  imports Folders Wire_Types "HOL-Library.Char_ord" "HOL-Library.List_Lexorder"
begin

text \<open>
  \<open>pkg/opendrive/sharing.go\<close> and \<open>users.go\<close>: sharing folders with other accounts, the account and its activity log. A method is the call it
  sends, as in \<open>Folders\<close>; where the code reads an answer itself (the list of shared users, whose shape varies) the reading is modelled too.
\<close>

section \<open>Sharing a folder\<close>

datatype share_mode = ShareViewOnly | ShareFullAccess | ShareOther int

fun mode_int :: "share_mode \<Rightarrow> int" where
  "mode_int ShareViewOnly = 0"
| "mode_int ShareFullAccess = 1"
| "mode_int (ShareOther n) = n"

definition mode_text :: "share_mode \<Rightarrow> string" where
  "mode_text m = show_int (mode_int m)"

definition share_folder :: "string \<Rightarrow> string \<Rightarrow> share_mode \<Rightarrow> api_error + call" where
  "share_folder fid user m =
     (if fid = [] then Inl (invalid_request ''share needs a folder id'')
      else if user = [] then Inl (invalid_request ''share needs a username or email address'')
      else Inr (forgetting [fid] (send_body ''POST'' ''/sharing.json''
        [(''folder_id'', fid), (''username'', user), (''sharemode'', mode_text m)])))"

definition set_share_mode :: "string \<Rightarrow> share_mode \<Rightarrow> api_error + call" where
  "set_share_mode sid m =
     (if sid = [] then Inl (invalid_request ''set share mode needs a sharing id'')
      else Inr (just (send_body ''PUT'' ''/sharing/setmode.json'' [(''sharing_id'', sid), (''sharemode'', mode_text m)])))"

definition revoke_share :: "string \<Rightarrow> api_error + call" where
  "revoke_share sid =
     (if sid = [] then Inl (invalid_request ''revoking a share needs a sharing id'')
      else Inr (just (get_in_path ''DELETE'' ''/sharing.json'' [sid] [])))"

definition list_shared_folders :: "string \<Rightarrow> api_error + call" where
  "list_shared_folders sid =
     (if sid = [] then Inl (invalid_request ''listing shared folders needs a sharing id'')
      else Inr (just (get_in_path ''GET'' ''/sharing/listsharedfolders.json'' [sid] [])))"

definition list_shared_users :: "api_error + call" where
  "list_shared_users = Inr (just (get_in_path ''GET'' ''/sharing/listsharedusers.json'' [] []))"

definition list_folder_users :: "string \<Rightarrow> api_error + call" where
  "list_folder_users fid =
     (if fid = [] then Inl (invalid_request ''listing a folder's users needs a folder id'')
      else Inr (just (get_in_path ''GET'' ''/sharing/listusers.json'' [fid] [])))"

definition check_account_users_access :: "api_error + call" where
  "check_account_users_access =
     Inr (just ((get_in_path ''GET'' ''/sharing/checkaccountusersaccess.json'' [] [])\<lparr>rq_placement := SessionInQuery\<rparr>))"

record users_access =
  ua_access :: bool
  ua_allowed :: bool
  ua_result :: bool

definition access_ok :: "users_access \<Rightarrow> bool" where
  "access_ok a \<longleftrightarrow> ua_access a \<or> ua_allowed a \<or> ua_result a"

section \<open>Reading the shared users\<close>

record shared_user =
  su_user_id :: string
  su_sharing_id :: string
  su_user_name :: string
  su_first_name :: string
  su_last_name :: string
  su_email :: string
  su_mode :: int
  su_shared :: int
  su_folder_id :: string
  su_folder_name :: string

definition blank_user :: shared_user where
  "blank_user = \<lparr>su_user_id = [], su_sharing_id = [], su_user_name = [], su_first_name = [], su_last_name = [], su_email = [],
     su_mode = 0, su_shared = unset_time, su_folder_id = [], su_folder_name = []\<rparr>"

text \<open>A plain Go string: null leaves it, anything but a string is an error.\<close>

fun plain_text :: "wire \<Rightarrow> string \<Rightarrow> string option" where
  "plain_text WNull was = Some was"
| "plain_text (WText t) was = Some t"
| "plain_text _ was = None"

text \<open>How numbers beyond the decimal spellings are read, and what the platform makes of those that do not fit.\<close>

record numerals =
  nu_other :: "string \<Rightarrow> float64 option"
  nu_wide :: "float64 \<Rightarrow> int"

definition user_member :: "numerals \<Rightarrow> string \<times> wire \<Rightarrow> shared_user \<Rightarrow> shared_user option" where
  "user_member nu kv u =
     (case kv of (k, v) \<Rightarrow>
        if is_field ''UserID'' k then map_option (\<lambda>x. u\<lparr>su_user_id := x\<rparr>) (flex_string v)
        else if is_field ''SharingID'' k then map_option (\<lambda>x. u\<lparr>su_sharing_id := x\<rparr>) (flex_string v)
        else if is_field ''UserName'' k then map_option (\<lambda>x. u\<lparr>su_user_name := x\<rparr>) (plain_text v (su_user_name u))
        else if is_field ''FirstName'' k then map_option (\<lambda>x. u\<lparr>su_first_name := x\<rparr>) (plain_text v (su_first_name u))
        else if is_field ''LastName'' k then map_option (\<lambda>x. u\<lparr>su_last_name := x\<rparr>) (plain_text v (su_last_name u))
        else if is_field ''Email'' k then map_option (\<lambda>x. u\<lparr>su_email := x\<rparr>) (plain_text v (su_email u))
        else if is_field ''ShareMode'' k then map_option (\<lambda>x. u\<lparr>su_mode := x\<rparr>) (flex_int (nu_other nu) (nu_wide nu) v)
        else if is_field ''DateShared'' k then map_option (\<lambda>x. u\<lparr>su_shared := x\<rparr>) (unix_time (nu_other nu) (nu_wide nu) v)
        else if is_field ''FolderID'' k then map_option (\<lambda>x. u\<lparr>su_folder_id := x\<rparr>) (flex_string v)
        else if is_field ''FolderName'' k then map_option (\<lambda>x. u\<lparr>su_folder_name := x\<rparr>) (plain_text v (su_folder_name u))
        else Some u)"

fun user_members :: "numerals \<Rightarrow> (string \<times> wire) list \<Rightarrow> shared_user \<Rightarrow> shared_user option" where
  "user_members nu [] u = Some u"
| "user_members nu (m # ms) u = (case user_member nu m u of None \<Rightarrow> None | Some u1 \<Rightarrow> user_members nu ms u1)"

fun decode_user :: "numerals \<Rightarrow> wire \<Rightarrow> shared_user option" where
  "decode_user nu WNull = Some blank_user"
| "decode_user nu (WObject _ ms) = user_members nu ms blank_user"
| "decode_user nu _ = None"

fun decode_users :: "numerals \<Rightarrow> wire list \<Rightarrow> shared_user list option" where
  "decode_users nu [] = Some []"
| "decode_users nu (w # ws) =
     (case decode_user nu w of None \<Rightarrow> None | Some u \<Rightarrow> map_option (Cons u) (decode_users nu ws))"

definition shared_users_op :: string where
  "shared_users_op = ''GET /sharing/listsharedusers.json''"

definition unreadable_users :: api_error where
  "unreadable_users = (blank_error KindInvalidResponse)\<lparr>err_op := shared_users_op\<rparr>"

definition empty_listing_keys :: "string list" where
  "empty_listing_keys = [''DirUpdateTime'', ''ResponseType'']"

fun comma_list :: "string list \<Rightarrow> string" where
  "comma_list [] = []"
| "comma_list [k] = k"
| "comma_list (k # k' # ks) = k @ '', '' @ comma_list (k' # ks)"

definition unrecorded_shape :: "string list \<Rightarrow> api_error" where
  "unrecorded_shape ks =
     unreadable_users\<lparr>upstream_msg := ''an object with keys '' @ comma_list ks @
       '' where a list of shared users was expected; this shape is unrecorded (docs/discrepancies.md D48)''\<rparr>"

text \<open>The argument is the body of the answer, none when it is empty.\<close>

fun decode_shared_users :: "numerals \<Rightarrow> wire option \<Rightarrow> api_error + shared_user list" where
  "decode_shared_users nu None = Inr []"
| "decode_shared_users nu (Some WNull) = Inr []"
| "decode_shared_users nu (Some (WArray _ ws)) =
     (case decode_users nu ws of None \<Rightarrow> Inl unreadable_users | Some us \<Rightarrow> Inr us)"
| "decode_shared_users nu (Some (WObject _ ms)) =
     (if set (map fst ms) \<subseteq> set empty_listing_keys then Inr []
      else Inl (unrecorded_shape (sort (remdups (map fst ms)))))"
| "decode_shared_users nu (Some _) = Inl unreadable_users"

section \<open>The account\<close>

record account =
  ac_user_id :: string
  ac_access_user_id :: string
  ac_plan :: string
  ac_storage_used :: int
  ac_max_storage :: int

definition is_account_user :: "account \<Rightarrow> bool" where
  "is_account_user a \<longleftrightarrow>
     ac_access_user_id a \<noteq> [] \<and> ac_access_user_id a \<noteq> ''0'' \<and> ac_access_user_id a \<noteq> ac_user_id a"

definition account_text :: "account \<Rightarrow> string" where
  "account_text a = ''AccountInfo(user='' @ redacted @ '', plan='' @ ac_plan a @ '', storage='' @
     show_int (ac_storage_used a) @ ''/'' @ show_int (ac_max_storage a) @ '')''"

definition users_info :: "(bool \<times> bool) list \<Rightarrow> api_error + call" where
  "users_info opts =
     Inr (just (get_in_path ''GET'' ''/users/info.json'' []
       (case opts of
          [] \<Rightarrow> []
        | (apply_bw, branding) # _ \<Rightarrow>
            (if apply_bw then [(''apply_bw'', ''1'')] else []) @ (if branding then [(''branding'', ''1'')] else []))))"

section \<open>The activity log\<close>

record log_filter =
  lf_user :: string
  lf_start :: int
  lf_end :: int
  lf_type :: "int option"

definition filter_query :: "log_filter \<Rightarrow> (string \<times> string) list" where
  "filter_query f =
     optional ''access_user_id'' (lf_user f)
     @ (if lf_start f \<noteq> unset_time then [(''start_date'', show_int (lf_start f))] else [])
     @ (if lf_end f \<noteq> unset_time then [(''end_date'', show_int (lf_end f))] else [])
     @ (case lf_type f of Some n \<Rightarrow> [(''log_type'', show_int n)] | None \<Rightarrow> [])"

definition activity_logs :: "int \<Rightarrow> log_filter \<Rightarrow> api_error + call" where
  "activity_logs page f =
     (if page < 0 then Inl (invalid_request ''a log page number must not be negative'')
      else Inr (just (get_in_path ''GET'' ''/users/userlogs.json'' []
        ((if page > 0 then [(''page'', show_int page)] else []) @ filter_query f))))"

definition activity_logs_cursor :: "string \<Rightarrow> log_filter \<Rightarrow> api_error + call" where
  "activity_logs_cursor cursor f =
     Inr (just (get_in_path ''GET'' ''/users/userlogscursor.json'' [] (optional ''cursor'' cursor @ filter_query f)))"

section \<open>What holds of them\<close>

text \<open>A share that upstream confirmed leaves nothing of the folder in the path cache; one that failed leaves the cache alone.\<close>

lemma shared_folder_is_forgotten:
  assumes run: "run_call c pol env d bridge_index (share_folder fid user m) cache = (None, cache')"
    and known: "path \<noteq> []" "lookup (by_id (cc_cache cache)) fid = Some path"
  shows "gone path (cc_cache cache')"
proof -
  obtain cl where cl: "share_folder fid user m = Inr cl" "ca_forgets cl = [fid]" "\<not> ca_resets cl" "fid \<noteq> []"
    using run by (auto simp: run_call_def share_folder_def forgetting_def split: if_splits)
  then have "cache' = invalidate_ids bridge_index [fid] cache"
    using run by (auto simp: run_call_def split: prod.splits option.splits)
  with invalidate_ids_gone [of fid "[fid]" path cache] cl(4) known show ?thesis by simp
qed

text \<open>No empty identifier is ever sent: the call would address the collection instead of the member.\<close>

lemma empty_ids_are_refused:
  "\<not> is_ok (share_folder [] u m)" "\<not> is_ok (share_folder f [] m)" "\<not> is_ok (set_share_mode [] m)" "\<not> is_ok (revoke_share [])"
  "\<not> is_ok (list_shared_folders [])" "\<not> is_ok (list_folder_users [])"
  by (simp_all add: share_folder_def set_share_mode_def revoke_share_def list_shared_folders_def list_folder_users_def)

text \<open>Whatever upstream answers, the shared users are a list or an error of its own kind that names the call: nothing is guessed.\<close>

lemma decode_shared_users_kind:
  "decode_shared_users nu w = Inl e \<Longrightarrow> kind e = KindInvalidResponse \<and> err_op e = shared_users_op"
  by (cases "(nu, w)" rule: decode_shared_users.cases)
     (auto simp: unreadable_users_def unrecorded_shape_def blank_error_def split: if_splits option.splits)

lemma nothing_shared:
  "decode_shared_users nu (Some (WObject t [(''DirUpdateTime'', WNumber ''1752000000''), (''ResponseType'', WNumber ''1'')])) = Inr []"
  "decode_shared_users nu (Some (WArray t [])) = Inr []"
  by (simp_all add: empty_listing_keys_def)

definition standard_numerals :: numerals where
  "standard_numerals = \<lparr>nu_other = (\<lambda>_. None), nu_wide = (\<lambda>_. - (2 ^ 63))\<rparr>"

lemma a_shared_user:
  "decode_shared_users standard_numerals (Some (WArray [] [WObject []
     [(''UserID'', WNumber ''17''), (''UserName'', WText ''kim''), (''ShareMode'', WText ''1''), (''DateShared'', WText [])]]))
   = Inr [blank_user\<lparr>su_user_id := ''17'', su_user_name := ''kim'', su_mode := 1\<rparr>]"
  by code_simp

lemma unrecorded_keys_are_named:
  "decode_shared_users standard_numerals (Some (WObject [] [(''Users'', WNull), (''Count'', WNumber ''3'')]))
   = Inl (unrecorded_shape [''Count'', ''Users''])"
  by code_simp

lemma access_any: "access_ok a \<longleftrightarrow> a \<noteq> \<lparr>ua_access = False, ua_allowed = False, ua_result = False\<rparr>"
  by (cases a) (auto simp: access_ok_def)

text \<open>The text of an account shows neither who it is nor its mail address: it depends on the plan and the quota only.\<close>

lemma account_text_is_anonymous:
  "ac_plan a = ac_plan b \<Longrightarrow> ac_storage_used a = ac_storage_used b \<Longrightarrow> ac_max_storage a = ac_max_storage b
    \<Longrightarrow> account_text a = account_text b"
  by (simp add: account_text_def)

lemma owners_are_not_account_users: "ac_access_user_id a = ''0'' \<or> ac_access_user_id a = ac_user_id a \<Longrightarrow> \<not> is_account_user a"
  by (auto simp: is_account_user_def)

end
