(* ===== verification/Durability.thy ===== *)
theory Durability
  imports Cache_Object Paths
begin

text \<open>
  \<open>internal/datacache/durability.go\<close> and \<open>lock.go\<close>: whether the directory of the data cache will outlive its container, decided from the
  table of mounts, and who may open the directory. What the system says (marker files, \<open>cgroup\<close>, \<open>mountinfo\<close>, the kernel's lock) is the input.
\<close>

section \<open>The table of mounts\<close>

abbreviation esc :: char where "esc \<equiv> CHR 0x5C"

definition escapes :: "(string \<times> char) list" where
  "escapes = [(esc # ''011'', CHR 0x09), (esc # ''012'', CHR 0x0A), (esc # ''040'', CHR '' ''), (esc # ''134'', esc)]"

definition unescape_mount_path :: "string \<Rightarrow> string" where
  "unescape_mount_path p =
     (if \<not> contains p [esc] then p else fold (\<lambda>(from, to) p. replace_all from [to] p) escapes p)"

text \<open>\<open>strings.Fields\<close>.\<close>

fun take_word :: "string \<Rightarrow> string" where
  "take_word [] = []"
| "take_word (c # s) = (if strip_one space_seqs (c # s) \<noteq> None then [] else c # take_word s)"

function fields :: "string \<Rightarrow> string list" where
  "fields s =
     (let t = trim_left s in
      if t = [] \<or> take_word t = [] then [] else take_word t # fields (drop (length (take_word t)) t))"
  by pat_completeness auto
termination
proof (relation "measure length", goal_cases)
  case (2 s t)
  then have "length t \<le> length s" using trim_left_suffix [of s] by (auto dest: suffix_length_le)
  moreover have "0 < length (take_word t)" "0 < length t" using 2 by simp_all
  ultimately have "length t - length (take_word t) < length s" by linarith
  then show ?case by simp
qed simp

declare fields.simps [simp del]

text \<open>A line that fills the scanner's buffer stops it; a carriage return before the line break is dropped.\<close>

definition max_line :: int where
  "max_line = 1048576"

definition scan_lines :: "string \<Rightarrow> string list" where
  "scan_lines s = (let ls = split_on CHR 0x0A s in if last ls = [] then butlast ls else ls)"

definition drop_cr :: "string \<Rightarrow> string" where
  "drop_cr l = trim_suffix l [CHR 0x0D]"

definition mount_point :: "string \<Rightarrow> string option" where
  "mount_point l = (let fs = fields (drop_cr l) in if length fs < 5 then None else Some (unescape_mount_path (fs ! 4)))"

definition read_mount_points :: "string \<Rightarrow> string list option" where
  "read_mount_points s =
     (let ls = scan_lines s in
      if list_ex (\<lambda>l. max_line \<le> int (length l)) ls then None else Some (List.map_filter mount_point ls))"

text \<open>The directories above a path, itself included and the root left out. A path has no more directories above it than bytes.\<close>

fun mount_ancestors :: "nat \<Rightarrow> string \<Rightarrow> string list" where
  "mount_ancestors 0 p = []"
| "mount_ancestors (Suc n) p =
     (if p = ''/'' \<or> p = ''.'' \<or> p = path_dir p then [] else p # mount_ancestors n (path_dir p))"

definition under_a_mount :: "string \<Rightarrow> string list \<Rightarrow> bool option" where
  "under_a_mount dir points =
     (let above = mount_ancestors (length dir) (path_clean dir) in
      if above = [] then None else Some (list_ex (\<lambda>p. p \<in> set above) points))"

section \<open>Advice\<close>

record machine =
  mc_dockerenv :: bool
  mc_containerenv :: bool
  mc_cgroup :: "string option"
  mc_mountinfo :: "string option"

definition in_container :: "machine \<Rightarrow> bool" where
  "in_container m \<longleftrightarrow>
     mc_dockerenv m \<or> mc_containerenv m
     \<or> (case mc_cgroup m of None \<Rightarrow> False | Some t \<Rightarrow> contains_any t [''docker'', ''containerd'', ''kubepods'', ''libpod'', ''lxc''])"

definition is_mount_point :: "machine \<Rightarrow> string \<Rightarrow> bool option" where
  "is_mount_point m dir =
     (case mc_mountinfo m of
        None \<Rightarrow> None
      | Some t \<Rightarrow> case read_mount_points t of None \<Rightarrow> None | Some ps \<Rightarrow> under_a_mount dir ps)"

datatype advice = Silent | Unsure string | WillBeLost string

fun advice_durable :: "advice \<Rightarrow> bool" where
  "advice_durable (WillBeLost _) \<longleftrightarrow> False"
| "advice_durable _ \<longleftrightarrow> True"

definition durability :: "config \<Rightarrow> machine \<Rightarrow> advice" where
  "durability cfg m =
     (if \<not> write_back cfg \<or> \<not> in_container m then Silent
      else case is_mount_point m (cfg_dir cfg) of
        None \<Rightarrow> Unsure (cfg_dir cfg)
      | Some True \<Rightarrow> Silent
      | Some False \<Rightarrow> WillBeLost (cfg_dir cfg))"

datatype log_level = LogWarn | LogError

definition warn_if_not_durable :: "advice \<Rightarrow> log_level option" where
  "warn_if_not_durable a = (case a of Silent \<Rightarrow> None | Unsure _ \<Rightarrow> Some LogWarn | WillBeLost _ \<Rightarrow> Some LogError)"

section \<open>Undoing the kernel's escapes\<close>

text \<open>What the kernel writes for a path, with the escapes of \<open>cs\<close>.\<close>

definition escape_of :: "char \<Rightarrow> string" where
  "escape_of c =
     (if c = CHR 0x09 then esc # ''011'' else if c = CHR 0x0A then esc # ''012''
      else if c = CHR '' '' then esc # ''040'' else if c = esc then esc # ''134'' else [c])"

definition escaped :: "char set \<Rightarrow> string \<Rightarrow> string" where
  "escaped cs p = concat (map (\<lambda>c. if c \<in> cs then escape_of c else [c]) p)"

abbreviation kernel_escapes :: "char set" where
  "kernel_escapes \<equiv> {CHR 0x09, CHR 0x0A, CHR '' '', esc}"

lemma escaped_simps [simp]:
  "escaped cs [] = []" "c \<in> cs \<Longrightarrow> escaped cs (c # p) = escape_of c @ escaped cs p" "c \<notin> cs \<Longrightarrow> escaped cs (c # p) = c # escaped cs p"
  by (simp_all add: escaped_def)

text \<open>Replacing one escape undoes it alone, as long as every backslash of the path is still escaped.\<close>

lemma replace_escape:
  assumes c: "c \<in> cs" "cs \<subseteq> kernel_escapes" and esc: "esc \<in> cs"
  shows "replace_all (escape_of c) [c] (escaped cs p) = escaped (cs - {c}) p"
proof (induction p)
  case Nil
  then show ?case by simp
next
  case (Cons d p)
  let ?r = "escaped cs p"
  have ne: "escape_of c \<noteq> []" by (simp add: escape_of_def)
  have start: "\<exists>t. escape_of c = esc # t \<and> esc \<notin> set t \<and> length t = 3"
    using c by (auto simp: escape_of_def)
  have skip: "x \<noteq> esc \<Longrightarrow> replace_all (escape_of c) [c] (x # s) = x # replace_all (escape_of c) [c] s" for x s
    using start by (intro replace_all_miss) auto
  show ?case
  proof (cases "d = c")
    case True
    then show ?thesis using c(1) Cons.IH replace_all_hit [OF ne, of "[c]" ?r] by simp
  next
    case dc: False
    show ?thesis
    proof (cases "d \<in> cs")
      case False
      then have "d \<noteq> esc" using esc by auto
      then show ?thesis using False dc Cons.IH skip by simp
    next
      case True
      have cases: "c \<in> kernel_escapes" "d \<in> kernel_escapes" using c True by auto
      obtain x y z where d: "escape_of d = [esc, x, y, z]" "x \<noteq> esc" "y \<noteq> esc" "z \<noteq> esc"
        using cases(2) by (auto simp: escape_of_def)
      have differ: "escape_of c \<noteq> escape_of d" using cases dc by (auto simp: escape_of_def)
      have other: "\<not> prefix (escape_of c) (esc # [x, y, z] @ ?r)"
      proof
        assume "prefix (escape_of c) (esc # [x, y, z] @ ?r)"
        then obtain zs where "escape_of d @ ?r = escape_of c @ zs" by (auto simp: prefix_def d(1))
        moreover have "length (escape_of d) = length (escape_of c)" using start d(1) by auto
        ultimately have "escape_of d = escape_of c" by (simp add: append_eq_append_conv)
        then show False using differ by simp
      qed
      have "replace_all (escape_of c) [c] (esc # x # y # z # ?r) = escape_of d @ replace_all (escape_of c) [c] ?r"
        using d other by (simp add: replace_all_miss skip)
      then show ?thesis using d True dc Cons.IH by simp
    qed
  qed
qed

lemma escaped_nothing: "escaped {} p = p"
  by (induction p) simp_all

lemma no_escape_needed: "\<not> contains (escaped kernel_escapes p) [esc] \<Longrightarrow> escaped kernel_escapes p = p"
proof (induction p)
  case (Cons c p)
  have "c \<notin> kernel_escapes"
  proof
    assume c: "c \<in> kernel_escapes"
    then obtain t where "escape_of c = esc # t" by (auto simp: escape_of_def)
    then have "escaped kernel_escapes (c # p) = esc # t @ escaped kernel_escapes p" using c by simp
    then show False using Cons.prems by simp
  qed
  then show ?case using Cons by simp
qed simp

text \<open>The mount point that comes out is the one the kernel escaped, whatever bytes are in it: the backslash is undone last.\<close>

lemma unescape_escaped: "unescape_mount_path (escaped kernel_escapes p) = p"
proof (cases "contains (escaped kernel_escapes p) [esc]")
  case False
  then show ?thesis using no_escape_needed by (simp add: unescape_mount_path_def)
next
  case True
  have ch: "escape_of (CHR 0x09) = esc # ''011''" "escape_of (CHR 0x0A) = esc # ''012''" "escape_of (CHR '' '') = esc # ''040''"
    "escape_of esc = esc # ''134''"
    by (simp_all add: escape_of_def)
  have "replace_all (esc # ''011'') [CHR 0x09] (escaped kernel_escapes p) = escaped {CHR 0x0A, CHR '' '', esc} p"
    using replace_escape [of "CHR 0x09" kernel_escapes p] ch by (simp add: insert_Diff_if)
  moreover have "replace_all (esc # ''012'') [CHR 0x0A] (escaped {CHR 0x0A, CHR '' '', esc} p) = escaped {CHR '' '', esc} p"
    using replace_escape [of "CHR 0x0A" "{CHR 0x0A, CHR '' '', esc}" p] ch by (simp add: insert_Diff_if)
  moreover have "replace_all (esc # ''040'') [CHR '' ''] (escaped {CHR '' '', esc} p) = escaped {esc} p"
    using replace_escape [of "CHR '' ''" "{CHR '' '', esc}" p] ch by (simp add: insert_Diff_if)
  moreover have "replace_all (esc # ''134'') [esc] (escaped {esc} p) = p"
    using replace_escape [of esc "{esc}" p] ch by (simp add: escaped_nothing)
  ultimately show ?thesis using True by (simp add: unescape_mount_path_def escapes_def)
qed

section \<open>What the advice means\<close>

lemma mount_ancestors_canonical:
  assumes "\<forall>w \<in> set ws. good_segment w" "length ws \<le> n"
  shows "set (mount_ancestors n (slash # join_with slash ws)) = {slash # join_with slash (take k ws) | k. 0 < k \<and> k \<le> length ws}"
  using assms
proof (induction ws arbitrary: n rule: rev_induct)
  case Nil
  then show ?case by (cases n) auto
next
  case (snoc w ws)
  obtain m where n: "n = Suc m" using snoc.prems(2) by (cases n) auto
  let ?p = "slash # join_with slash (ws @ [w])"
  have dir: "path_dir ?p = slash # join_with slash ws" using snoc.prems(1) by (rule path_dir_child)
  have w: "w \<noteq> []" "slash \<notin> set w" using snoc.prems(1) by (auto simp: good_segment_def)
  have longer: "length (slash # join_with slash ws) < length ?p" using w by (cases "ws = []") (simp_all add: canonical_snoc)
  then have "?p \<noteq> path_dir ?p" "?p \<noteq> ''/''" "?p \<noteq> ''.''" using dir by (auto simp: Cons_eq_append_conv)
  moreover have "set (mount_ancestors m (slash # join_with slash ws)) = {slash # join_with slash (take k ws) | k. 0 < k \<and> k \<le> length ws}"
    using snoc by (simp add: n)
  moreover have "{slash # join_with slash (take k (ws @ [w])) | k. 0 < k \<and> k \<le> length (ws @ [w])}
      = insert ?p {slash # join_with slash (take k ws) | k. 0 < k \<and> k \<le> length ws}" (is "?A = ?B")
  proof
    show "?A \<subseteq> ?B" by (auto simp: le_Suc_eq)
    show "?B \<subseteq> ?A"
    proof
      fix x assume "x \<in> ?B"
      then consider "x = ?p" | k where "0 < k" "k \<le> length ws" "x = slash # join_with slash (take k ws)" by auto
      then show "x \<in> ?A"
      proof cases
        case 1
        then have "0 < Suc (length ws) \<and> Suc (length ws) \<le> length (ws @ [w]) \<and> x = slash # join_with slash (take (Suc (length ws)) (ws @ [w]))" by simp
        then show ?thesis by blast
      next
        case 2
        then have "0 < k \<and> k \<le> length (ws @ [w]) \<and> x = slash # join_with slash (take k (ws @ [w]))" by simp
        then show ?thesis by blast
      qed
    qed
  qed
  ultimately show ?case using dir by (simp add: n)
qed

lemma segments_fit: "length ws \<le> length (slash # join_with slash ws)"
  by (induction slash ws rule: join_with.induct) auto

text \<open>The verdict that data will be lost is given for a write-back cache in a container whose directory, and every directory above it but
  the root, is no mount point of the table; and only then.\<close>

lemma lost_means_unmounted:
  assumes dir: "cfg_dir cfg = slash # join_with slash ws" "\<forall>w \<in> set ws. good_segment w" "ws \<noteq> []"
    and table: "mc_mountinfo m = Some t" "read_mount_points t = Some points"
  shows "\<not> advice_durable (durability cfg m) \<longleftrightarrow>
      write_back cfg \<and> in_container m \<and> (\<forall>k. 0 < k \<and> k \<le> length ws \<longrightarrow> slash # join_with slash (take k ws) \<notin> set points)"
proof -
  let ?a = "mount_ancestors (length (cfg_dir cfg)) (path_clean (cfg_dir cfg))"
  have a: "set ?a = {slash # join_with slash (take k ws) | k. 0 < k \<and> k \<le> length ws}"
    using mount_ancestors_canonical [OF dir(2) segments_fit] path_clean_canonical(1) [OF dir(2)] dir(1) by simp
  moreover have "cfg_dir cfg \<in> set ?a"
    using dir(3) unfolding a by (auto simp: dir(1) intro!: exI [of _ "length ws"])
  ultimately have "under_a_mount (cfg_dir cfg) points
      = Some (\<exists>k. 0 < k \<and> k \<le> length ws \<and> slash # join_with slash (take k ws) \<in> set points)"
    by (auto simp: under_a_mount_def Let_def list_ex_iff)
  then show ?thesis using table
    by (auto simp: durability_def is_mount_point_def split: option.splits bool.splits)
qed

lemma read_cache_never_warned: "\<not> write_back cfg \<Longrightarrow> warn_if_not_durable (durability cfg m) = None"
  by (simp add: durability_def warn_if_not_durable_def)

definition docker_table :: string where
  "docker_table = ''30 1 0:26 / / rw - overlay overlay rw'' @ [CHR 0x0A] @ ''41 30 8:1 /v /var/my'' @ [esc] @ ''040data rw - ext4 /dev/sda1 rw'' @ [CHR 0x0A]"

lemma docker_table_read: "read_mount_points docker_table = Some [''/'', ''/var/my data'']"
  by code_simp

lemma below_a_volume: "under_a_mount ''/var/my data/cache'' [''/'', ''/var/my data''] = Some True"
  "under_a_mount ''/var/cache'' [''/'', ''/var/my data''] = Some False"
  by code_simp+

text \<open>A blank outside ASCII is not escaped by the kernel but ends a field, so a volume mounted under such a name is not found.\<close>

lemma wide_blank_ends_the_path:
  "mount_point (''41 30 8:1 /v /my'' @ [CHR 0xC2, CHR 0xA0] @ ''data rw'') = Some ''/my''"
  by code_simp

section \<open>One gateway per directory\<close>

text \<open>The lock of the kernel: who holds it, and what the holder wrote into the file.\<close>

record dir_state =
  dl_holder :: "nat option"
  dl_text :: string

datatype lock_error = CannotOpen | Locked string | CannotLock

datatype lock_outcome = LockWorks | OpenFails | FlockFails

text \<open>\<open>readHolder\<close>: the first line of the first 256 bytes. \<open>strconv.QuoteToASCII\<close> is \<open>quoted\<close>.\<close>

definition read_holder :: "(string \<Rightarrow> string) \<Rightarrow> string \<Rightarrow> string" where
  "read_holder quoted file =
     (let text = trim_space (take 256 file) in
      if text = [] then ''another process'' else quoted (takeWhile (\<lambda>c. c \<noteq> CHR 0x0A) text))"

definition lock_dir :: "(string \<Rightarrow> string) \<Rightarrow> lock_outcome \<Rightarrow> nat \<Rightarrow> string \<Rightarrow> dir_state \<Rightarrow> (lock_error + nat) \<times> dir_state" where
  "lock_dir quoted out pid info s =
     (case out of
        OpenFails \<Rightarrow> (Inl CannotOpen, s)
      | FlockFails \<Rightarrow> (Inl CannotLock, s)
      | LockWorks \<Rightarrow>
          case dl_holder s of
            Some _ \<Rightarrow> (Inl (Locked (read_holder quoted (dl_text s))), s)
          | None \<Rightarrow> (Inr pid, \<lparr>dl_holder = Some pid, dl_text = info\<rparr>))"

definition release_dir :: "nat \<Rightarrow> dir_state \<Rightarrow> dir_state" where
  "release_dir pid s = (if dl_holder s = Some pid then s\<lparr>dl_holder := None\<rparr> else s)"

datatype lock_event = TryLock lock_outcome nat string | Release nat | Dies nat

definition lock_step :: "(string \<Rightarrow> string) \<Rightarrow> lock_event \<Rightarrow> nat set \<times> dir_state \<Rightarrow> nat set \<times> dir_state" where
  "lock_step quoted e us =
     (case us of (open_now, s) \<Rightarrow>
        case e of
          TryLock out pid info \<Rightarrow>
            (case lock_dir quoted out pid info s of (Inr p, s1) \<Rightarrow> (insert p open_now, s1) | (Inl _, s1) \<Rightarrow> (open_now, s1))
        | Release pid \<Rightarrow> (open_now - {pid}, release_dir pid s)
        | Dies pid \<Rightarrow> (open_now - {pid}, release_dir pid s))"

definition one_owner :: "nat set \<times> dir_state \<Rightarrow> bool" where
  "one_owner us \<longleftrightarrow> fst us = set_option (dl_holder (snd us))"

lemma one_owner_step: "one_owner us \<Longrightarrow> one_owner (lock_step quoted e us)"
  by (cases us; cases e)
     (auto simp: one_owner_def lock_step_def lock_dir_def release_dir_def split: lock_outcome.splits option.splits)

text \<open>Whatever processes try, release and die, at most one of them has the directory open, and after its death the next one gets it.\<close>

lemma one_gateway_per_directory:
  assumes "one_owner us"
  shows "card (fst (fold (lock_step quoted) es us)) \<le> 1"
proof -
  have "one_owner (fold (lock_step quoted) es us)" using fold_invariant [where I = one_owner and f = "lock_step quoted", OF assms] one_owner_step by blast
  then show ?thesis by (cases "dl_holder (snd (fold (lock_step quoted) es us))") (simp_all add: one_owner_def)
qed

lemma freed_by_death:
  "dl_holder s = Some pid \<Longrightarrow> fst (lock_dir quoted LockWorks p2 info (release_dir pid s)) = Inr p2"
  by (simp add: lock_dir_def release_dir_def)

end
