(* ===== verification/Cli_Client.thy ===== *)
theory Cli_Client
  imports Bridge_Jobs Wire_Types
begin

text \<open>
  How \<open>odctl\<close> talks to the bridge: \<open>internal/cli/client.go\<close> (a request, the error envelope, exit codes), the reporting of \<open>root.go\<close>, watching a
  transfer to its end (\<open>transfers.go\<close>) and the wording for a service manager (\<open>daemon.go\<close>). An answer of the bridge is its status and its
  body as JSON; which requests get none is the input.
\<close>

section \<open>Errors and exit codes\<close>

record bridge_fault =
  bf_code :: string
  bf_http :: int
  bf_message :: string
  bf_retryable :: "bool option"
  bf_upstream :: "(int \<times> string) option"

datatype cli_error = Reported bridge_fault | Unreachable string | Unreadable | Interrupted

definition exit_ok :: int where "exit_ok = 0"
definition exit_usage :: int where "exit_usage = 2"
definition exit_auth :: int where "exit_auth = 3"
definition exit_upstream :: int where "exit_upstream = 4"
definition exit_not_found :: int where "exit_not_found = 5"
definition exit_unavailable :: int where "exit_unavailable = 6"
definition exit_refused :: int where "exit_refused = 7"

lemmas exit_codes = exit_ok_def exit_usage_def exit_auth_def exit_upstream_def exit_not_found_def exit_unavailable_def exit_refused_def

definition fault_exit :: "bridge_fault \<Rightarrow> int" where
  "fault_exit f =
     (if bf_code f = ''not_found'' then exit_not_found
      else if bf_code f \<in> {''invalid_request'', ''invalid_name'', ''conflict''} then exit_usage
      else if bf_code f \<in> {''reauth_required'', ''captcha_required'', ''keystore_unavailable'', ''unauthorized''} then exit_auth
      else if bf_retryable f = Some False then exit_refused
      else exit_upstream)"

text \<open>\<open>report\<close>: an error that knows no code of its own exits as a mistake in the command.\<close>

fun exit_code :: "cli_error \<Rightarrow> int" where
  "exit_code (Reported f) = fault_exit f"
| "exit_code (Unreachable _) = exit_unavailable"
| "exit_code Unreadable = exit_usage"
| "exit_code Interrupted = exit_usage"

definition usage_fault :: "string \<Rightarrow> bridge_fault" where
  "usage_fault msg = \<lparr>bf_code = ''invalid_request'', bf_http = 400, bf_message = msg, bf_retryable = None, bf_upstream = None\<rparr>"

definition unreachable_text :: "string \<Rightarrow> string" where
  "unreachable_text addr = ''No bridge is answering at '' @ addr @ ''.'' @ [CHR 0x0A]
     @ ''Start one with 'odctl daemon start', or point at another with --addr.''"

text \<open>What \<open>report\<close> prints; the texts of the last two errors come from the libraries.\<close>

definition error_text :: "cli_error \<Rightarrow> string" where
  "error_text e =
     (case e of
        Reported f \<Rightarrow> bf_message f
      | Unreachable addr \<Rightarrow> unreachable_text addr
      | Unreadable \<Rightarrow> ''the bridge sent something odctl could not read''
      | Interrupted \<Rightarrow> ''context canceled'')"

definition report :: "bool \<Rightarrow> cli_error \<Rightarrow> string list \<times> int" where
  "report verbose e =
     ([error_text e] @ (case e of
          Reported f \<Rightarrow> (case bf_upstream f of
              Some (_, msg) \<Rightarrow> if verbose \<and> msg \<noteq> [] then [''(what OpenDrive said, for a bug report: '' @ msg @ '')''] else []
            | None \<Rightarrow> [])
        | _ \<Rightarrow> []), exit_code e)"

section \<open>The error envelope\<close>

text \<open>Members of the wrong type make the envelope unreadable. A second object for the same member goes into the first.\<close>

fun wire_text :: "wire \<Rightarrow> string \<Rightarrow> string option" where
  "wire_text WNull was = Some was"
| "wire_text (WText t) was = Some t"
| "wire_text _ was = None"

fun wire_int :: "wire \<Rightarrow> int \<Rightarrow> int option" where
  "wire_int WNull was = Some was"
| "wire_int (WNumber t) was = atoi t"
| "wire_int _ was = None"

fun upstream_members :: "(string \<times> wire) list \<Rightarrow> int \<times> string \<Rightarrow> (int \<times> string) option" where
  "upstream_members [] u = Some u"
| "upstream_members ((k, v) # ms) (c, t) =
     (if is_field ''code'' k then (case wire_int v c of None \<Rightarrow> None | Some c1 \<Rightarrow> upstream_members ms (c1, t))
      else if is_field ''message'' k then (case wire_text v t of None \<Rightarrow> None | Some t1 \<Rightarrow> upstream_members ms (c, t1))
      else upstream_members ms (c, t))"

definition fault_member :: "string \<times> wire \<Rightarrow> bridge_fault \<Rightarrow> bridge_fault option" where
  "fault_member kv f =
     (case kv of (k, v) \<Rightarrow>
        if is_field ''code'' k then map_option (\<lambda>x. f\<lparr>bf_code := x\<rparr>) (wire_text v (bf_code f))
        else if is_field ''http'' k then map_option (\<lambda>x. f\<lparr>bf_http := x\<rparr>) (wire_int v (bf_http f))
        else if is_field ''message'' k then map_option (\<lambda>x. f\<lparr>bf_message := x\<rparr>) (wire_text v (bf_message f))
        else if is_field ''retryable'' k then
          (case v of WNull \<Rightarrow> Some (f\<lparr>bf_retryable := None\<rparr>) | WBool b \<Rightarrow> Some (f\<lparr>bf_retryable := Some b\<rparr>) | _ \<Rightarrow> None)
        else if is_field ''upstream'' k then
          (case v of
             WNull \<Rightarrow> Some (f\<lparr>bf_upstream := None\<rparr>)
           | WObject _ ms \<Rightarrow>
               map_option (\<lambda>u. f\<lparr>bf_upstream := Some u\<rparr>)
                 (upstream_members ms (case bf_upstream f of Some u \<Rightarrow> u | None \<Rightarrow> (0, [])))
           | _ \<Rightarrow> None)
        else Some f)"

fun fault_members :: "(string \<times> wire) list \<Rightarrow> bridge_fault \<Rightarrow> bridge_fault option" where
  "fault_members [] f = Some f"
| "fault_members (m # ms) f = (case fault_member m f of None \<Rightarrow> None | Some f1 \<Rightarrow> fault_members ms f1)"

definition blank_fault :: bridge_fault where
  "blank_fault = \<lparr>bf_code = [], bf_http = 0, bf_message = [], bf_retryable = None, bf_upstream = None\<rparr>"

fun envelope_error :: "(string \<times> wire) list \<Rightarrow> bridge_fault option \<Rightarrow> bridge_fault option option" where
  "envelope_error [] f = Some f"
| "envelope_error ((k, v) # ms) f =
     (if \<not> is_field ''error'' k then envelope_error ms f
      else case v of
        WNull \<Rightarrow> envelope_error ms None
      | WObject _ fs \<Rightarrow>
          (case fault_members fs (case f of Some f0 \<Rightarrow> f0 | None \<Rightarrow> blank_fault) of
             None \<Rightarrow> None
           | Some f1 \<Rightarrow> envelope_error ms (Some f1))
      | _ \<Rightarrow> None)"

datatype reply_body = Blank | Json wire | Garbage

definition decode_api_error :: "reply_body \<Rightarrow> int \<Rightarrow> bridge_fault" where
  "decode_api_error b stc =
     (case (case b of Json (WObject _ ms) \<Rightarrow> envelope_error ms None | _ \<Rightarrow> None) of
        Some (Some f) \<Rightarrow>
          if bf_message f \<noteq> [] then (if bf_http f = 0 then f\<lparr>bf_http := stc\<rparr> else f)
          else blank_fault\<lparr>bf_code := ''upstream_error'', bf_http := stc,
            bf_message := ''The bridge answered '' @ show_int stc @ '' with something odctl could not read.''\<rparr>
      | _ \<Rightarrow> blank_fault\<lparr>bf_code := ''upstream_error'', bf_http := stc,
            bf_message := ''The bridge answered '' @ show_int stc @ '' with something odctl could not read.''\<rparr>)"

section \<open>A request\<close>

definition client_base :: "string \<Rightarrow> string" where
  "client_base addr = trim_right_slash (if contains addr ''://'' then addr else ''http://'' @ addr)"

datatype reply = NoReply | Reply int reply_body

text \<open>\<open>Do\<close>: \<open>zero\<close> is the value before decoding, which an empty body leaves; \<open>decode\<close> reads the answer.\<close>

definition do_bridge :: "string \<Rightarrow> 'a \<Rightarrow> (wire \<Rightarrow> 'a option) \<Rightarrow> reply \<Rightarrow> cli_error + 'a" where
  "do_bridge base zero decode r =
     (case r of
        NoReply \<Rightarrow> Inl (Unreachable base)
      | Reply stc b \<Rightarrow>
          if stc \<ge> 400 then Inl (Reported (decode_api_error b stc))
          else case b of
            Blank \<Rightarrow> Inr zero
          | Garbage \<Rightarrow> Inl Unreadable
          | Json w \<Rightarrow> (case decode w of None \<Rightarrow> Inl Unreadable | Some a \<Rightarrow> Inr a))"

text \<open>\<open>url.QueryEscape\<close>, and the way back that the server's parser takes.\<close>

definition unreserved :: "char \<Rightarrow> bool" where
  "unreserved c \<longleftrightarrow> is_digit c \<or> CHR ''a'' \<le> lower_char c \<and> lower_char c \<le> CHR ''z'' \<or> c \<in> set ''-_.~''"

definition hex_upper :: "nat \<Rightarrow> char" where
  "hex_upper n = ''0123456789ABCDEF'' ! n"

definition query_escape_char :: "char \<Rightarrow> string" where
  "query_escape_char c =
     (if unreserved c then [c] else if c = CHR '' '' then ''+''
      else [CHR ''%'', hex_upper (of_char c div 16), hex_upper (of_char c mod 16)])"

definition query_escape :: "string \<Rightarrow> string" where
  "query_escape s = concat (map query_escape_char s)"

fun hex_value :: "char \<Rightarrow> nat option" where
  "hex_value c =
     (if is_digit c then Some (of_char c - 48)
      else if CHR ''A'' \<le> c \<and> c \<le> CHR ''F'' then Some (of_char c - 55)
      else if CHR ''a'' \<le> c \<and> c \<le> CHR ''f'' then Some (of_char c - 87) else None)"

fun query_unescape :: "string \<Rightarrow> string option" where
  "query_unescape [] = Some []"
| "query_unescape (c # s) =
     (if c = CHR ''+'' then map_option (Cons (CHR '' '')) (query_unescape s)
      else if c \<noteq> CHR ''%'' then map_option (Cons c) (query_unescape s)
      else case s of
        a # b # t \<Rightarrow>
          (case (hex_value a, hex_value b) of
             (Some x, Some y) \<Rightarrow> map_option (Cons (char_of (16 * x + y))) (query_unescape t)
           | _ \<Rightarrow> None)
      | _ \<Rightarrow> None)"

text \<open>\<open>query\<close> with one pair, the only way it is called.\<close>

definition query_path :: "string \<Rightarrow> string \<Rightarrow> string \<Rightarrow> string" where
  "query_path path k v = (if v = [] then path else path @ ''?'' @ query_escape k @ ''='' @ query_escape v)"

section \<open>Watching a transfer\<close>

record job_view =
  jv_id :: string
  jv_kind :: string
  jv_state :: string
  jv_phase :: string
  jv_remote :: string
  jv_done :: int
  jv_total :: int
  jv_error :: "(string \<times> string \<times> bool) option"

definition view_terminal :: "job_view \<Rightarrow> bool" where
  "view_terminal j \<longleftrightarrow> jv_state j \<in> {''succeeded'', ''failed'', ''cancelled''}"

definition job_fault :: "string \<Rightarrow> int \<Rightarrow> string \<Rightarrow> bool option \<Rightarrow> bridge_fault" where
  "job_fault code http msg again = \<lparr>bf_code = code, bf_http = http, bf_message = msg, bf_retryable = again, bf_upstream = None\<rparr>"

definition job_outcome :: "job_view \<Rightarrow> cli_error + unit" where
  "job_outcome j =
     (if jv_state j = ''succeeded'' then Inr ()
      else if jv_state j = ''cancelled''
      then Inl (Reported (job_fault ''invalid_request'' 499 ''The transfer was stopped before it finished.'' None))
      else case jv_error j of
        Some (code, msg, again) \<Rightarrow> Inl (Reported (job_fault code 502 msg (Some again)))
      | None \<Rightarrow> Inl (Reported (job_fault ''upstream_error'' 502 ''The transfer failed and the bridge gave no reason.'' None)))"

text \<open>\<open>follow\<close>: the answers to its polls, \<open>None\<close> where the command was interrupted instead. No outcome yet while they are all of a transfer
  that is still under way.\<close>

fun follow :: "(cli_error + job_view) option list \<Rightarrow> (cli_error + unit) option" where
  "follow [] = None"
| "follow (None # _) = Some (Inl Interrupted)"
| "follow (Some (Inl e) # _) = Some (Inl e)"
| "follow (Some (Inr j) # ps) = (if view_terminal j then Some (job_outcome j) else follow ps)"

definition shell_status :: "cli_error + 'a \<Rightarrow> int" where
  "shell_status r = (case r of Inl e \<Rightarrow> exit_code e | Inr _ \<Rightarrow> exit_ok)"

section \<open>The service manager\<close>

definition service_error :: "string \<Rightarrow> bridge_fault" where
  "service_error msg =
     (if contains (to_lower msg) ''permission denied'' \<or> contains (to_lower msg) ''access is denied''
      then job_fault ''invalid_request'' 403 ''This machine will not let you change its services from here. Try again with administrator rights.'' None
      else if contains msg ''already exists''
      then job_fault ''conflict'' 409 ''The bridge is already installed. Use 'odctl daemon start' to run it, or 'odctl daemon uninstall' first if you want to reinstall.'' None
      else if contains (to_lower msg) ''not installed'' \<or> contains (to_lower msg) ''does not exist''
      then job_fault ''not_found'' 404 ''The bridge is not installed on this machine yet. Run 'odctl daemon install' first.'' None
      else job_fault ''upstream_error'' 500 (''This machine's service manager refused: '' @ msg) None)"

text \<open>\<open>resolveDaemonPath\<close>: what is there, and where the programs are.\<close>

record program_env =
  pg_abs :: "string \<Rightarrow> string"
  pg_exists :: "string \<Rightarrow> bool"
  pg_self :: "string option"
  pg_on_path :: "string option"

definition resolve_daemon_path :: "program_env \<Rightarrow> string \<Rightarrow> bridge_fault + string" where
  "resolve_daemon_path e override =
     (if override \<noteq> [] then
        (if pg_exists e (pg_abs e override) then Inr (pg_abs e override)
         else Inl (usage_fault (''There is no opendrived at '' @ pg_abs e override @ ''.'')))
      else
        let beside = (case pg_self e of
            None \<Rightarrow> None
          | Some self \<Rightarrow> let p = path_clean (path_dir self @ ''/opendrived'') in if pg_exists e p then Some p else None)
        in case beside of
             Some p \<Rightarrow> Inr p
           | None \<Rightarrow>
               case pg_on_path e of
                 Some p \<Rightarrow> Inr (pg_abs e p)
               | None \<Rightarrow> Inl (usage_fault (''Cannot find 'opendrived'. It should be in the same folder as odctl '' @ em_dash
                    @ '' if you moved one of them, point at it with --exec.'')))"

section \<open>The way of a message from the bridge to the shell\<close>

text \<open>What \<open>WriteError\<close> sends; the two members of \<open>upstream\<close> are left out when they are zero or empty.\<close>

definition error_body :: "error_answer \<Rightarrow> wire" where
  "error_body a =
     WObject [] [(''error'', WObject []
       ([(''code'', WText (ea_code a)), (''http'', WNumber (show_int (int (ea_http a)))), (''message'', WText (ea_message a))]
        @ (case ea_upstream a of
             None \<Rightarrow> []
           | Some (c, t) \<Rightarrow> [(''upstream'', WObject []
               ((if c \<noteq> 0 then [(''code'', WNumber (show_int c))] else []) @ (if t \<noteq> [] then [(''message'', WText t)] else [])))])))]"

definition written_reply :: "error_answer \<Rightarrow> reply" where
  "written_reply a = Reply (int (ea_http a)) (Json (error_body a))"

lemma field_names [simp]:
  "is_field ''error'' ''error''" "is_field ''code'' ''code''" "is_field ''http'' ''http''" "is_field ''message'' ''message''"
  "is_field ''upstream'' ''upstream''" "\<not> is_field ''code'' ''http''" "\<not> is_field ''code'' ''message''" "\<not> is_field ''http'' ''message''"
  "\<not> is_field ''code'' ''upstream''" "\<not> is_field ''http'' ''upstream''" "\<not> is_field ''message'' ''upstream''"
  "\<not> is_field ''retryable'' ''upstream''"
  by code_simp+

lemma decoded_envelope:
  assumes "ea_message a \<noteq> []" "ea_http a < 1000" "ea_http a \<noteq> 0" "\<And>c t. ea_upstream a = Some (c, t) \<Longrightarrow> in_int64 c"
  shows "decode_api_error (Json (error_body a)) stc =
    \<lparr>bf_code = ea_code a, bf_http = int (ea_http a), bf_message = ea_message a, bf_retryable = None, bf_upstream = ea_upstream a\<rparr>"
proof -
  have http: "atoi (show_int (int (ea_http a))) = Some (int (ea_http a))"
    using assms(2) by (intro parse_show_int) (simp add: in_int64_def)
  have up: "upstream_members ((if c \<noteq> 0 then [(''code'', WNumber (show_int c))] else [])
      @ (if t \<noteq> [] then [(''message'', WText t)] else [])) (0, []) = Some (c, t)" if "in_int64 c" for c t
    using parse_show_int [OF that] by auto
  show ?thesis
  proof (cases "ea_upstream a")
    case None
    then show ?thesis using assms(1,3) http
      by (simp add: decode_api_error_def error_body_def fault_member_def blank_fault_def)
  next
    case (Some u)
    obtain c t where u: "u = (c, t)" by (cases u)
    then have "in_int64 c" using assms(4) Some by blast
    from up [OF this] Some u show ?thesis using assms(1,3) http
      by (simp add: decode_api_error_def error_body_def fault_member_def blank_fault_def)
  qed
qed

lemma api_answer_facts: "ea_message (api_answer k ao) \<noteq> []" "400 \<le> ea_http (api_answer k ao)" "ea_http (api_answer k ao) < 1000"
proof -
  have ne: "message_for k \<noteq> []" for k by (cases k) (simp_all add: sign_in_expired_def)
  have "wording_credential \<noteq> []" by (simp add: wording_credential_def)
  then have "[] \<notin> catalogue"
    using ne [THEN not_sym] wording_texts(1,2) [THEN not_sym] by (simp add: catalogue_def image_iff)
  then show "ea_message (api_answer k ao) \<noteq> []" using api_answer_message [of k ao] by metis
  show "400 \<le> ea_http (api_answer k ao)" "ea_http (api_answer k ao) < 1000" by (cases k; simp)+
qed

definition failure_kind :: "go_error \<Rightarrow> kind" where
  "failure_kind e = (case error_kind e of Some k \<Rightarrow> k | None \<Rightarrow> KindUpstreamError)"

definition kind_exit :: "kind \<Rightarrow> int" where
  "kind_exit k =
     (if k = KindNotFound then 5
      else if k \<in> {KindInvalidRequest, KindInvalidName, KindConflict} then 2
      else if k \<in> {KindReauthRequired, KindCaptchaRequired, KindKeystoreUnavailable, KindUnauthorized} then 3
      else 4)"

lemma fault_exit_kind: "bf_code f = kind_name k \<Longrightarrow> bf_retryable f = None \<Longrightarrow> fault_exit f = kind_exit k"
  by (cases k) (simp_all add: fault_exit_def kind_exit_def exit_codes)

lemma upstream_code_fits:
  "ea_upstream (api_answer k (as_api e)) = Some (c, t) \<Longrightarrow> (\<And>ae. as_api e = Some ae \<Longrightarrow> in_int64 (http_code ae)) \<Longrightarrow> in_int64 c"
  by (cases "as_api e") (auto simp: Let_def split: if_splits)



text \<open>The envelope has no member that says whether trying again could help, so the exit code for refusals that will stay is never used for
  the answer to a request: a full account and a forbidden folder exit as something that passes.\<close>

lemma refusals_exit_as_passing:
  "kind_exit (failure_kind e) \<noteq> exit_refused" "kind_exit KindQuotaExceeded = exit_upstream"
  by (simp_all add: kind_exit_def exit_codes)

section \<open>What a script learns from a transfer\<close>

text \<open>The job as the bridge shows it.\<close>

fun state_name :: "job_state \<Rightarrow> string" where
  "state_name JQueued = ''queued''"
| "state_name JRunning = ''running''"
| "state_name JSucceeded = ''succeeded''"
| "state_name JFailed = ''failed''"
| "state_name JCancelled = ''cancelled''"

fun kind_text :: "job_kind \<Rightarrow> string" where
  "kind_text JobUpload = ''upload''"
| "kind_text JobDownload = ''download''"
| "kind_text (JobUnknown s) = s"

fun phase_name :: "phase \<Rightarrow> string" where
  "phase_name PhaseCaching = ''caching''"
| "phase_name PhaseUploading = ''uploading''"
| "phase_name PhaseDownloading = ''downloading''"

definition view_of :: "job \<Rightarrow> job_view" where
  "view_of j =
     \<lparr>jv_id = job_id j, jv_kind = kind_text (j_kind j), jv_state = state_name (j_state j), jv_phase = phase_name (j_phase j),
      jv_remote = j_remote j, jv_done = bytes_done j, jv_total = bytes_total j,
      jv_error = map_option (\<lambda>e. (je_code e, je_message e, je_retryable e)) (j_error j)\<rparr>"

lemma view_terminal_iff: "view_terminal (view_of j) \<longleftrightarrow> terminal (j_state j)"
  by (cases "j_state j") (simp_all add: view_terminal_def view_of_def)

lemma readable_job_state [simp]: "j_state (readable_job j) = j_state j"
  by (auto simp: readable_job_def Let_def split: option.splits)

text \<open>Waiting succeeds exactly when the bridge last said that the job succeeded, after saying nothing but that it is under way.\<close>

lemma follow_success:
  "follow (map (\<lambda>j. Some (Inr (view_of (readable_job j)))) js) = Some (Inr ())
   \<longleftrightarrow> (\<exists>i < length js. j_state (js ! i) = JSucceeded \<and> (\<forall>k < i. \<not> terminal (j_state (js ! k))))"
proof (induction js)
  case Nil
  then show ?case by simp
next
  case (Cons j js)
  have outcome: "job_outcome (view_of (readable_job j)) = Inr () \<longleftrightarrow> j_state j = JSucceeded" if "terminal (j_state j)"
    using that by (cases "j_state j") (simp_all add: job_outcome_def view_of_def split: option.splits prod.splits)
  show ?case
  proof (cases "terminal (j_state j)")
    case True
    have "(\<exists>i < length (j # js). j_state ((j # js) ! i) = JSucceeded \<and> (\<forall>k < i. \<not> terminal (j_state ((j # js) ! k))))
        \<longleftrightarrow> j_state j = JSucceeded"
    proof
      assume "\<exists>i < length (j # js). j_state ((j # js) ! i) = JSucceeded \<and> (\<forall>k < i. \<not> terminal (j_state ((j # js) ! k)))"
      then obtain i where i: "j_state ((j # js) ! i) = JSucceeded" "\<forall>k < i. \<not> terminal (j_state ((j # js) ! k))" by blast
      then have "i = 0" using True by (cases i) auto
      then show "j_state j = JSucceeded" using i(1) by simp
    qed (auto intro!: exI [of _ 0])
    then show ?thesis using True outcome view_terminal_iff [of "readable_job j"] by simp
  next
    case False
    have "(\<exists>i < length (j # js). j_state ((j # js) ! i) = JSucceeded \<and> (\<forall>k < i. \<not> terminal (j_state ((j # js) ! k))))
        \<longleftrightarrow> (\<exists>i < length js. j_state (js ! i) = JSucceeded \<and> (\<forall>k < i. \<not> terminal (j_state (js ! k))))" (is "?L = ?R")
    proof
      assume ?L
      then obtain i where i: "i < length (j # js)" "j_state ((j # js) ! i) = JSucceeded" "\<forall>k < i. \<not> terminal (j_state ((j # js) ! k))" by blast
      then obtain n where n: "i = Suc n" using False by (cases i) auto
      have "\<not> terminal (j_state (js ! k))" if "k < n" for k using i(3) that n by force
      then show ?R using i(1,2) n by auto
    next
      assume ?R
      then obtain n where n: "n < length js" "j_state (js ! n) = JSucceeded" "\<forall>k < n. \<not> terminal (j_state (js ! k))" by blast
      have "\<not> terminal (j_state ((j # js) ! k))" if "k < Suc n" for k using that n(3) False by (cases k) simp_all
      then show ?L using n(1,2) by (intro exI [of _ "Suc n"]) simp
    qed
    then show ?thesis using False Cons.IH view_terminal_iff [of "readable_job j"] by simp
  qed
qed

text \<open>A failed job carries the verdict of the engine into the exit code, which a failed request does not.\<close>

lemma failed_job_exit:
  assumes "j_state j = JFailed" "j_error j = Some e" "je_code e = kind_name k"
  shows "shell_status (job_outcome (view_of (readable_job j)))
    = (if kind_exit k = 4 \<and> \<not> je_retryable e then exit_refused else kind_exit k)"
proof -
  have err: "\<exists>m. j_error (readable_job j) = Some (e\<lparr>je_message := m\<rparr>)"
    using assms(2) by (auto simp: readable_job_def Let_def intro: exI [of _ "je_message e"])
  then obtain m where "j_error (readable_job j) = Some (e\<lparr>je_message := m\<rparr>)" by blast
  then have "job_outcome (view_of (readable_job j)) = Inl (Reported (job_fault (kind_name k) 502 m (Some (je_retryable e))))"
    using assms(1,3) by (simp add: job_outcome_def view_of_def)
  then show ?thesis
    by (cases k) (simp_all add: shell_status_def fault_exit_def job_fault_def kind_exit_def exit_codes)
qed

section \<open>Paths in the query\<close>

lemma hex_round_trip: "n < 16 \<Longrightarrow> hex_value (hex_upper n) = Some n"
proof -
  have "list_all (\<lambda>n. hex_value (hex_upper n) = Some n) [0..<16]" by code_simp
  then show "n < 16 \<Longrightarrow> ?thesis" by (simp add: list_all_iff)
qed

lemma unreserved_plain: "unreserved c \<Longrightarrow> c \<noteq> CHR ''+'' \<and> c \<noteq> CHR ''%''"
  by (auto simp: unreserved_def is_digit_def less_eq_char_def lower_char_def)

text \<open>A path reaches the bridge as it was typed, whatever bytes are in it.\<close>

lemma query_round_trip: "query_unescape (query_escape s) = Some s"
proof (induction s)
  case Nil
  then show ?case by (simp add: query_escape_def)
next
  case (Cons c s)
  have step: "query_escape (c # s) = query_escape_char c @ query_escape s" by (simp add: query_escape_def)
  consider "unreserved c" | "\<not> unreserved c" "c = CHR '' ''" | "\<not> unreserved c" "c \<noteq> CHR '' ''" by blast
  then show ?case
  proof cases
    case 1
    then show ?thesis using Cons.IH unreserved_plain [OF 1] by (simp add: step query_escape_char_def)
  next
    case 2
    then have "query_escape (c # s) = CHR ''+'' # query_escape s" unfolding step by (simp add: query_escape_char_def)
    then show ?thesis using Cons.IH 2(2) by simp
  next
    case 3
    have n: "(of_char c :: nat) < 256" by simp
    have "of_char c div 16 < (16 :: nat)" using n by linarith
    then have "hex_value (hex_upper (of_char c div 16)) = Some (of_char c div 16)" by (rule hex_round_trip)
    moreover have "hex_value (hex_upper (of_char c mod 16)) = Some (of_char c mod 16)" by (rule hex_round_trip) simp
    ultimately show ?thesis using Cons.IH 3
      by (simp add: step query_escape_char_def del: hex_value.simps)
  qed
qed

end
