(* ===== verification/Shell_Profile.thy ===== *)
theory Shell_Profile
  imports Go_Time
begin

text \<open>
  \<open>internal/cli/shellprofile.go\<close>: the marked block that \<open>odctl daemon install --modify-shell-profile\<close> writes into the user's shell profile and
  \<open>uninstall\<close> takes out again. The state is the profile and the backup that was made of it; which of the system calls fail, and what a
  failing write leaves behind, is the input.
\<close>

section \<open>Text\<close>

text \<open>\<open>strings.Index\<close>.\<close>

fun find_sub :: "string \<Rightarrow> string \<Rightarrow> nat option" where
  "find_sub n [] = (if n = [] then Some 0 else None)"
| "find_sub n (c # s) = (if prefix n (c # s) then Some 0 else map_option Suc (find_sub n s))"

abbreviation nl :: char where "nl \<equiv> CHR 0x0A"

definition trim_right_nl :: "string \<Rightarrow> string" where
  "trim_right_nl s = rev (dropWhile (\<lambda>c. c = nl) (rev s))"

definition hex_char :: "nat \<Rightarrow> char" where
  "hex_char n = ''0123456789abcdef'' ! n"

text \<open>\<open>%q\<close> for text that is printable or ASCII.\<close>

definition go_quote_char :: "char \<Rightarrow> string" where
  "go_quote_char c =
     (if c = CHR 0x22 then [CHR 0x5C, CHR 0x22] else if c = CHR 0x5C then [CHR 0x5C, CHR 0x5C]
      else if c = CHR 0x07 then CHR 0x5C # ''a'' else if c = CHR 0x08 then CHR 0x5C # ''b'' else if c = CHR 0x0C then CHR 0x5C # ''f''
      else if c = CHR 0x0A then CHR 0x5C # ''n'' else if c = CHR 0x0D then CHR 0x5C # ''r'' else if c = CHR 0x09 then CHR 0x5C # ''t''
      else if c = CHR 0x0B then CHR 0x5C # ''v''
      else if of_char c < (0x20 :: nat) \<or> c = CHR 0x7F
      then CHR 0x5C # ''x'' @ [hex_char (of_char c div 16), hex_char (of_char c mod 16)]
      else [c])"

definition go_quote :: "string \<Rightarrow> string" where
  "go_quote s = CHR 0x22 # concat (map go_quote_char s) @ [CHR 0x22]"

section \<open>The profile\<close>

definition profile_begin :: string where
  "profile_begin = ''# >>> opendrive-bridge >>>''"

definition profile_end :: string where
  "profile_end = ''# <<< opendrive-bridge <<<''"

text \<open>A write works, or fails and leaves something in the file: \<open>os.WriteFile\<close> truncates first.\<close>

datatype write_outcome = Written | Broken "string option"

record profile_env =
  pe_home :: "string option"
  pe_shell :: string
  pe_darwin :: bool
  pe_unreadable :: bool
  pe_backup :: write_outcome
  pe_no_dir :: bool
  pe_write :: write_outcome

definition shell_profile_path :: "profile_env \<Rightarrow> string" where
  "shell_profile_path e =
     (case pe_home e of
        None \<Rightarrow> []
      | Some home \<Rightarrow>
          let file = (\<lambda>name. path_clean (home @ ''/'' @ name)); shell = path_base (pe_shell e) in
          if shell = ''zsh'' then file ''.zshrc''
          else if shell = ''bash'' then (if pe_darwin e then file ''.bash_profile'' else file ''.bashrc'')
          else if shell = ''fish'' then file ''.config/fish/config.fish''
          else if pe_darwin e then file ''.zshrc'' else file ''.bashrc'')"

definition path_line :: "profile_env \<Rightarrow> string \<Rightarrow> string" where
  "path_line e dir =
     (if path_base (shell_profile_path e) = ''config.fish'' then ''fish_add_path '' @ go_quote dir
      else ''export PATH='' @ go_quote dir @ '':$PATH'')"

definition profile_block :: "string \<Rightarrow> string" where
  "profile_block line =
     nl # profile_begin @ [nl] @ ''# Added by 'odctl daemon install --modify-shell-profile'.'' @ [nl]
     @ ''# 'odctl daemon uninstall' removes this block and nothing else.'' @ [nl] @ line @ [nl] @ profile_end @ [nl]"

record profile_state =
  ps_profile :: "string option"
  ps_backup :: "string option"

datatype profile_error = NoProfile | Unreadable | NoBackup | NoDirectory | NotWritten | EditedByHand

definition write_profile :: "write_outcome \<Rightarrow> string \<Rightarrow> bool \<times> string option" where
  "write_profile out text = (case out of Written \<Rightarrow> (True, Some text) | Broken left \<Rightarrow> (False, left))"

text \<open>The error, or whether anything changed.\<close>

definition add_to_profile :: "profile_env \<Rightarrow> string \<Rightarrow> profile_state \<Rightarrow> (profile_error + bool) \<times> profile_state" where
  "add_to_profile e dir s =
     (if shell_profile_path e = [] then (Inl NoProfile, s)
      else if pe_unreadable e then (Inl Unreadable, s)
      else
        let existing = (case ps_profile s of None \<Rightarrow> [] | Some t \<Rightarrow> t) in
        if contains existing profile_begin then (Inr False, s)
        else
          case (if existing = [] then (True, ps_backup s) else write_profile (pe_backup e) existing) of
            (False, b) \<Rightarrow> (Inl NoBackup, s\<lparr>ps_backup := b\<rparr>)
          | (True, b) \<Rightarrow>
              let s1 = s\<lparr>ps_backup := b\<rparr> in
              if pe_no_dir e then (Inl NoDirectory, s1)
              else case write_profile (pe_write e) (existing @ profile_block (path_line e dir)) of
                (ok, t) \<Rightarrow> (if ok then Inr True else Inl NotWritten, s1\<lparr>ps_profile := t\<rparr>))"

definition without_block :: "string \<Rightarrow> nat \<Rightarrow> nat \<Rightarrow> string" where
  "without_block content start stop =
     (let after = (if stop < length content \<and> content ! stop = nl then stop + 1 else stop)
      in trim_right_nl (take start content @ drop after content) @ [nl])"

definition remove_from_profile :: "profile_env \<Rightarrow> profile_state \<Rightarrow> (profile_error + bool) \<times> profile_state" where
  "remove_from_profile e s =
     (if shell_profile_path e = [] then (Inr False, s)
      else if pe_unreadable e then (Inl Unreadable, s)
      else case ps_profile s of
        None \<Rightarrow> (Inr False, s)
      | Some content \<Rightarrow>
          case find_sub profile_begin content of
            None \<Rightarrow> (Inr False, s)
          | Some start \<Rightarrow>
              case find_sub profile_end (drop start content) of
                None \<Rightarrow> (Inl EditedByHand, s)
              | Some len \<Rightarrow>
                  case write_profile (pe_write e) (without_block content start (start + len + length profile_end)) of
                    (ok, t) \<Rightarrow> (if ok then Inr True else Inl NotWritten, s\<lparr>ps_profile := t\<rparr>))"

section \<open>Finding the block\<close>

lemma prefix_stops: "prefix n (u @ d # t) \<Longrightarrow> d \<notin> set n \<Longrightarrow> prefix n u"
  by (auto simp: prefix_append prefix_Cons)

lemma find_sub_skip:
  "d \<notin> set n \<Longrightarrow> n \<noteq> [] \<Longrightarrow> \<not> contains s n \<Longrightarrow>
    find_sub n (s @ d # t) = map_option (\<lambda>k. k + Suc (length s)) (find_sub n t)"
proof (induction s)
  case Nil
  then have "\<not> prefix n (d # t)" by (auto simp: prefix_Cons)
  then show ?case by simp
next
  case (Cons c s)
  then have "\<not> prefix n (c # s @ d # t)" using prefix_stops [of n "c # s" d t] by auto
  then show ?case using Cons by (simp add: option.map_comp comp_def)
qed

lemma find_sub_here: "find_sub n (n @ t) = Some 0"
  by (cases n; cases t) auto

lemma markers: "nl \<notin> set profile_begin" "profile_begin \<noteq> []" "nl \<notin> set profile_end" "profile_end \<noteq> []"
  "\<not> contains profile_begin profile_end"
  "\<not> contains ''# Added by 'odctl daemon install --modify-shell-profile'.'' profile_end"
  "\<not> contains ''# 'odctl daemon uninstall' removes this block and nothing else.'' profile_end"
  by code_simp+

lemma contains_append: "contains s n \<Longrightarrow> contains (s @ t) n"
  by (simp add: contains_iff sublist_append)

lemma block_found:
  assumes "\<not> contains s profile_begin"
  shows "find_sub profile_begin (s @ profile_block line) = Some (Suc (length s))"
  using find_sub_skip [OF markers(1,2) assms] by (simp add: profile_block_def find_sub_here)

lemma block_contained: "contains (s @ profile_block line) profile_begin"
proof -
  have "sublist profile_begin (nl # profile_begin @ u)" for u by (metis append_Cons append_Nil sublist_appendI)
  then have "sublist profile_begin (profile_block line)" by (simp add: profile_block_def)
  then show ?thesis by (simp add: contains_iff sublist_append)
qed

lemma block_end_found:
  assumes "\<not> contains line profile_end"
  shows "find_sub profile_end (tl (profile_block line)) = Some (length (profile_block line) - 2 - length profile_end)"
  using find_sub_skip [OF markers(3,4,5)] find_sub_skip [OF markers(3,4,6)] find_sub_skip [OF markers(3,4,7)]
    find_sub_skip [OF markers(3,4) assms]
  by (simp add: profile_block_def find_sub_here)

section \<open>What the edits keep\<close>

text \<open>Uninstalling takes out what installing put in, up to the line breaks at the end of the profile: these become exactly one.\<close>

lemma removed_block:
  assumes e: "shell_profile_path e \<noteq> []" "\<not> pe_unreadable e" "pe_write e = Written" "\<not> pe_no_dir e" "pe_backup e = Written"
    and s: "ps_profile s = Some text" "\<not> contains text profile_begin" and line: "\<not> contains (path_line e dir) profile_end"
  shows "ps_profile (snd (remove_from_profile e (snd (add_to_profile e dir s)))) = Some (trim_right_nl text @ [nl])"
proof -
  let ?b = "profile_block (path_line e dir)"
  have added: "ps_profile (snd (add_to_profile e dir s)) = Some (text @ ?b)"
    using e s by (auto simp: add_to_profile_def write_profile_def Let_def)
  have b: "?b = nl # tl ?b" "length ?b \<ge> 2 + length profile_end" by (simp_all add: profile_block_def)
  have dropped: "drop (Suc (length text)) (text @ ?b) = tl ?b" by (simp add: drop_Suc)
  have len: "find_sub profile_end (drop (Suc (length text)) (text @ ?b)) = Some (length ?b - 2 - length profile_end)"
    unfolding dropped by (rule block_end_found [OF line])
  have stop: "Suc (length text) + (length ?b - 2 - length profile_end) + length profile_end = length (text @ ?b) - 1"
    using b(2) by simp
  have last_nl: "(text @ ?b) ! (length (text @ ?b) - 1) = nl"
  proof -
    have "last (text @ ?b) = nl" by (simp add: profile_block_def)
    moreover have "text @ ?b \<noteq> []" using b by auto
    ultimately show ?thesis by (simp add: last_conv_nth)
  qed
  have "without_block (text @ ?b) (Suc (length text)) (length (text @ ?b) - 1) = trim_right_nl (text @ [nl]) @ [nl]"
  proof -
    have "length (text @ ?b) - 1 < length (text @ ?b)" "Suc (length (text @ ?b) - 1) = length (text @ ?b)" using b(2) by simp_all
    moreover have "take (Suc (length text)) (text @ ?b) = text @ [nl]" by (subst b(1)) simp
    ultimately show ?thesis using last_nl unfolding without_block_def Let_def by simp
  qed
  moreover have "trim_right_nl (text @ [nl]) = trim_right_nl text" by (simp add: trim_right_nl_def)
  ultimately show ?thesis
    using e added block_found [OF s(2), of "path_line e dir"] len stop
    by (simp add: remove_from_profile_def write_profile_def del: drop_append take_append length_append)
qed

text \<open>A profile that ends with exactly one line break is back as it was; any other is not.\<close>

lemma restored_iff: "trim_right_nl text @ [nl] = text \<longleftrightarrow> (\<exists>t. text = t @ [nl] \<and> (t = [] \<or> last t \<noteq> nl))"
proof
  assume "trim_right_nl text @ [nl] = text"
  moreover have "trim_right_nl text = [] \<or> last (trim_right_nl text) \<noteq> nl"
    using hd_dropWhile [of "\<lambda>c. c = nl" "rev text"] by (auto simp: trim_right_nl_def last_rev)
  ultimately show "\<exists>t. text = t @ [nl] \<and> (t = [] \<or> last t \<noteq> nl)" by metis
next
  assume "\<exists>t. text = t @ [nl] \<and> (t = [] \<or> last t \<noteq> nl)"
  then obtain t where t: "text = t @ [nl]" "t = [] \<or> last t \<noteq> nl" by blast
  then have "dropWhile (\<lambda>c. c = nl) (rev t) = rev t" by (cases t rule: rev_cases) auto
  then show "trim_right_nl text @ [nl] = text" using t by (simp add: trim_right_nl_def)
qed

lemma install_twice:
  assumes "add_to_profile e dir s = (Inr True, s1)" "shell_profile_path e2 \<noteq> []" "\<not> pe_unreadable e2"
  shows "add_to_profile e2 dir2 s1 = (Inr False, s1)"
proof -
  obtain t where "ps_profile s1 = Some (t @ profile_block (path_line e dir))"
    using assms(1) by (auto simp: add_to_profile_def write_profile_def Let_def split: if_splits prod.splits bool.splits write_outcome.splits)
  then show ?thesis using assms(2,3) block_contained by (simp add: add_to_profile_def)
qed

text \<open>Whatever fails while installing, the text the profile had is still in the profile or in the backup.\<close>

lemma profile_is_never_lost:
  assumes "add_to_profile e dir s = (r, s1)" "ps_profile s = Some text" "text \<noteq> []"
  shows "ps_profile s1 = Some text \<or> ps_backup s1 = Some text"
  using assms by (auto simp: add_to_profile_def write_profile_def Let_def split: if_splits prod.splits bool.splits write_outcome.splits)

lemma open_block_is_left_alone:
  assumes "ps_profile s = Some content" "find_sub profile_begin content = Some i" "find_sub profile_end (drop i content) = None"
  shows "snd (remove_from_profile e s) = s"
  using assms by (simp add: remove_from_profile_def)

definition zsh :: profile_env where
  "zsh = \<lparr>pe_home = Some ''/home/kim'', pe_shell = ''/bin/zsh'', pe_darwin = False, pe_unreadable = False, pe_backup = Written,
     pe_no_dir = False, pe_write = Written\<rparr>"

lemma zsh_paths: "shell_profile_path zsh = ''/home/kim/.zshrc''"
  "path_line zsh ''/opt/od'' = ''export PATH='' @ [CHR 0x22] @ ''/opt/od'' @ [CHR 0x22] @ '':$PATH''"
  by code_simp+

text \<open>Uninstalling writes over the profile without a backup: a write that breaks off takes it along.\<close>

lemma uninstall_can_lose_the_profile:
  "ps_profile (snd (remove_from_profile (zsh\<lparr>pe_write := Broken (Some [])\<rparr>)
      (snd (add_to_profile zsh ''/opt/od'' \<lparr>ps_profile = None, ps_backup = None\<rparr>)))) = Some []"
  by code_simp

text \<open>Quoting as Go does leaves \<open>$\<close> and backquotes to the shell.\<close>

lemma dollar_is_left_to_the_shell: "path_line zsh ''/opt/$x'' = ''export PATH='' @ [CHR 0x22] @ ''/opt/$x'' @ [CHR 0x22] @ '':$PATH''"
  by code_simp

end
