(* ===== verification/Cli_Commands.thy ===== *)
theory Cli_Commands
  imports Cli_Client Shell_Profile
begin

text \<open>
  The commands of \<open>odctl\<close> (\<open>internal/cli/commands.go\<close>, \<open>transfers.go\<close>, \<open>cache.go\<close>, \<open>daemon.go\<close>): what each checks before anything is sent, the
  request it makes of the bridge, and what it prints of the answer. Arguments have been counted and flags read; a table is its rows, before
  columns are lined up. How an answer is decoded into the struct a command declares is the argument \<open>read\<close>.
\<close>

section \<open>A command\<close>

record bridge_call =
  bc_method :: string
  bc_path :: string
  bc_body :: "wire option"

datatype printout = AsJson | Printed "string list" | Table "string list list" "string list"

record cli =
  cl_base :: string
  cl_json :: bool
  cl_send :: "bridge_call \<Rightarrow> reply"

definition bridge_get :: "string \<Rightarrow> bridge_call" where
  "bridge_get path = \<lparr>bc_method = ''GET'', bc_path = path, bc_body = None\<rparr>"

definition bridge_post :: "string \<Rightarrow> (string \<times> wire) list \<Rightarrow> bridge_call" where
  "bridge_post path body = \<lparr>bc_method = ''POST'', bc_path = path, bc_body = Some (WObject [] body)\<rparr>"

definition bridge_ask :: "cli \<Rightarrow> 'a \<Rightarrow> (wire \<Rightarrow> 'a option) \<Rightarrow> bridge_call \<Rightarrow> cli_error + 'a" where
  "bridge_ask c zero read call = do_bridge (cl_base c) zero read (cl_send c call)"

definition show_answer :: "cli \<Rightarrow> 'a \<Rightarrow> (wire \<Rightarrow> 'a option) \<Rightarrow> ('a \<Rightarrow> printout) \<Rightarrow> bridge_call \<Rightarrow> cli_error + printout" where
  "show_answer c zero read print call =
     map_sum id (\<lambda>a. if cl_json c then AsJson else print a) (bridge_ask c zero read call)"

definition print_answer :: "cli \<Rightarrow> 'a \<Rightarrow> (wire \<Rightarrow> 'a option) \<Rightarrow> ('a \<Rightarrow> printout) \<Rightarrow> bridge_call \<Rightarrow> cli_error + printout" where
  "print_answer c zero read print call = map_sum id print (bridge_ask c zero read call)"

fun usage_text :: "usage_error \<Rightarrow> string" where
  "usage_text PathNeeded = ''A path is needed here, for example /Documents/report.pdf.''"
| "usage_text (NotTilde p) = ''Paths in your OpenDrive account start with a slash, not with ~, for example /Documents/report.pdf. Got '' @ p @ ''.''"
| "usage_text (NoLeadingSlash p) =
     ''Paths in your OpenDrive account start at the top, with a slash, for example /Documents/report.pdf. Got '' @ p @ ''.''"

definition with_paths :: "string list \<Rightarrow> (cli_error + printout) \<Rightarrow> cli_error + printout" where
  "with_paths ps run =
     (case check_positions ps [0..int (length ps) - 1] of
        Some e \<Rightarrow> Inl (Reported (usage_fault (usage_text e)))
      | None \<Rightarrow> run)"

text \<open>An answer decoded into \<open>map[string]any\<close>: its members, the last of a name counting; \<open>%v\<close> of one.\<close>

definition any_member :: "(string \<times> wire) list \<Rightarrow> string \<Rightarrow> wire option" where
  "any_member ms k = map_of (rev ms) k"

definition show_any :: "(string \<times> wire) list \<Rightarrow> string \<Rightarrow> string" where
  "show_any ms k = (case any_member ms k of None \<Rightarrow> ''<nil>'' | Some WNull \<Rightarrow> ''<nil>'' | Some w \<Rightarrow> bare w)"

definition detail_of :: "(string \<times> wire) list \<Rightarrow> string \<Rightarrow> string" where
  "detail_of ms fallback = (case any_member ms ''detail'' of Some (WText d) \<Rightarrow> if d \<noteq> [] then d else fallback | _ \<Rightarrow> fallback)"

fun read_any :: "wire \<Rightarrow> (string \<times> wire) list option" where
  "read_any (WObject _ ms) = Some ms"
| "read_any WNull = Some []"
| "read_any _ = None"

section \<open>Sizes and names\<close>

text \<open>A size in the largest unit that leaves at least one, to one decimal of the double nearest to it.\<close>

fun scale_bytes :: "nat \<Rightarrow> int \<Rightarrow> int \<Rightarrow> nat \<Rightarrow> int \<times> nat" where
  "scale_bytes 0 v d e = (d, e)"
| "scale_bytes (Suc k) v d e = (if v \<ge> 1024 then scale_bytes k (v div 1024) (d * 1024) (Suc e) else (d, e))"

definition tenths :: "int \<Rightarrow> int \<Rightarrow> int" where
  "tenths n d =
     (case nearest_float False n 1 of
        Some (Finite _ q k) \<Rightarrow> (if k \<ge> 0 then half_even (10 * q * 2 ^ nat k) d else half_even (10 * q) (d * 2 ^ nat (- k)))
      | _ \<Rightarrow> 0)"

definition human_bytes :: "int \<Rightarrow> string" where
  "human_bytes n =
     (if n < 1024 then show_int n @ '' B''
      else case scale_bytes 4 (n div 1024) 1024 0 of
        (d, e) \<Rightarrow> show_int (tenths n d div 10) @ ''.'' @ show_int (tenths n d mod 10) @ '' '' @ [''KMGTP'' ! e] @ ''B'')"

definition local_name :: "string \<Rightarrow> string" where
  "local_name remote = path_base (trim_suffix remote ''/'')"

datatype disk_file = NoFile | Folder | File int

definition file_size :: "string \<Rightarrow> disk_file \<Rightarrow> cli_error + int" where
  "file_size p f =
     (case f of
        NoFile \<Rightarrow> Inl (Reported (usage_fault (''There is no readable file at '' @ p @ ''.'')))
      | Folder \<Rightarrow> Inl (Reported (usage_fault (p @ '' is a folder. Upload files one at a time.'')))
      | File n \<Rightarrow> Inr n)"

section \<open>Signing in\<close>

text \<open>What stands at the prompt: a line, a terminal that cannot be read, or no input at all.\<close>

datatype typed = Line string | ReadFails string | NoInput

definition read_password :: "typed \<Rightarrow> cli_error + string" where
  "read_password t =
     (case t of
        Line s \<Rightarrow> Inr (trim_space s)
      | ReadFails why \<Rightarrow> Inl (Reported (usage_fault (''Could not read the password: '' @ why)))
      | NoInput \<Rightarrow> Inl (Reported (usage_fault
          ''No password was given. Run 'odctl login <username>' from a terminal, or pass --password.'')))"

record cli_status =
  cs_account :: "string option"
  cs_state :: string
  cs_seamless :: bool
  cs_quota :: "(int \<times> int) option"

definition account_name :: "cli_status \<Rightarrow> string" where
  "account_name s = (case cs_account s of Some u \<Rightarrow> if u \<noteq> [] then u else ''your account'' | None \<Rightarrow> ''your account'')"

definition login_command :: "cli \<Rightarrow> cli_status \<Rightarrow> (wire \<Rightarrow> cli_status option) \<Rightarrow> string \<Rightarrow> typed \<Rightarrow> string \<Rightarrow> cli_error + printout" where
  "login_command c zero read flag prompt user =
     (case (if flag = [] then read_password prompt else Inr flag) of
        Inl e \<Rightarrow> Inl e
      | Inr pw \<Rightarrow>
          if pw = [] then Inl (Reported (usage_fault ''A password is needed to sign in.''))
          else show_answer c zero read
            (\<lambda>s. Printed [''Signed in as '' @ user @ ''.'',
               if cs_seamless s then ''The bridge will keep itself signed in from now on.''
               else ''Note: your password was not stored, so you will need to sign in again after a restart.''])
            (bridge_post ''/v1/auth/login'' [(''username'', WText user), (''password'', WText pw)]))"

definition logout_command :: "cli \<Rightarrow> cli_error + printout" where
  "logout_command c = show_answer c [] read_any (\<lambda>ms. Printed [detail_of ms ''Signed out.''])
     \<lparr>bc_method = ''POST'', bc_path = ''/v1/auth/logout'', bc_body = None\<rparr>"

definition status_lines :: "cli_status \<Rightarrow> string list" where
  "status_lines s =
     (if cs_state s = ''not_configured''
      then [''Not signed in yet. Run 'odctl login <username>', or sign in on the bridge's web page (http://127.0.0.1:9750/ui).'']
      else
        [if cs_state s = ''authenticated'' then ''Signed in as '' @ account_name s @ ''.''
         else if cs_state s = ''refreshing'' then ''Signed in as '' @ account_name s @ ''; the bridge is renewing its session.''
         else if cs_state s = ''reauth_required'' then ''Your saved password is no longer accepted. Run 'odctl login '' @ account_name s
           @ '' ' with your current password, or sign in again on the web page.''
         else if cs_state s = ''captcha_required''
         then ''OpenDrive is asking for a captcha the bridge cannot answer. Sign in once at opendrive.com, then try again.''
         else if cs_state s = ''keystore_unavailable''
         then ''The bridge cannot read its saved sign-in (credentials.key). Sign in again with 'odctl login <username>' to replace it.''
         else ''State: '' @ cs_state s]
        @ (if \<not> cs_seamless s \<and> cs_state s = ''authenticated''
           then [''Your password is not stored, so a restart will need you to sign in again.''] else [])
        @ (case cs_quota s of
             Some (used, limit) \<Rightarrow> if limit > 0 then [''Storage: '' @ human_bytes used @ '' of '' @ human_bytes limit @ '' used.''] else []
           | None \<Rightarrow> []))"

definition status_command :: "cli \<Rightarrow> cli_status \<Rightarrow> (wire \<Rightarrow> cli_status option) \<Rightarrow> cli_error + printout" where
  "status_command c zero read = show_answer c zero read (\<lambda>s. Printed (status_lines s)) (bridge_get ''/v1/auth/status'')"

section \<open>Files and folders\<close>

record cli_entry =
  ce_name :: string
  ce_path :: string
  ce_kind :: string
  ce_size :: int
  ce_modified :: "string option"
  ce_public :: bool

record cli_listing =
  cg_path :: string
  cg_entries :: "cli_entry list"
  cg_dir_time :: int
  cg_next :: "int option"

definition kind_label :: "cli_entry \<Rightarrow> string" where
  "kind_label e = (if ce_kind e = ''folder'' then ''folder'' else if ce_public e then ''file (public)'' else ''file'')"

text \<open>\<open>local\<close> reads a time and writes it in the zone of this machine.\<close>

definition modified_text :: "(string \<Rightarrow> string option) \<Rightarrow> cli_entry \<Rightarrow> string" where
  "modified_text local_time e = (case ce_modified e of None \<Rightarrow> ''-'' | Some t \<Rightarrow> (case local_time t of Some s \<Rightarrow> s | None \<Rightarrow> t))"

text \<open>Folders first, by name within each kind; an entry is one or the other.\<close>

definition sorted_entries :: "cli_entry list \<Rightarrow> cli_entry list" where
  "sorted_entries es =
     (let by_name = sort_key ce_name es in
      filter (\<lambda>e. ce_kind e = ''folder'') by_name @ filter (\<lambda>e. ce_kind e \<noteq> ''folder'') by_name)"

definition entry_row :: "(string \<Rightarrow> string option) \<Rightarrow> bool \<Rightarrow> cli_entry \<Rightarrow> string list" where
  "entry_row local_time long e =
     (let name = (if ce_kind e = ''folder'' then ce_name e @ ''/'' else ce_name e) in
      if long then [name, kind_label e, human_bytes (ce_size e), modified_text local_time e] else [name, human_bytes (ce_size e)])"

definition list_output :: "(string \<Rightarrow> string option) \<Rightarrow> bool \<Rightarrow> cli_listing \<Rightarrow> printout" where
  "list_output local_time long l =
     (if cg_entries l = [] then Printed [cg_path l @ '' is empty.'']
      else Table (map (entry_row local_time long) (sorted_entries (cg_entries l)))
        (case cg_next l of
           None \<Rightarrow> []
         | Some n \<Rightarrow> [[], ''There is more. For the next page:'', ''  odctl ls '' @ cg_path l @ '' --json  # then use offset='' @ show_int n
             @ '' and dir_update_time='' @ show_int (cg_dir_time l)]))"

definition list_command ::
  "cli \<Rightarrow> (string \<Rightarrow> string option) \<Rightarrow> cli_listing \<Rightarrow> (wire \<Rightarrow> cli_listing option) \<Rightarrow> bool \<Rightarrow> string list \<Rightarrow> cli_error + printout" where
  "list_command c local_time zero read long args =
     with_paths (take 1 args) (show_answer c zero read (list_output local_time long)
       (bridge_get (query_path ''/v1/ls'' ''path'' (case args of [p] \<Rightarrow> p | _ \<Rightarrow> ''/''))))"

definition stat_command :: "cli \<Rightarrow> (string \<Rightarrow> string option) \<Rightarrow> cli_entry \<Rightarrow> (wire \<Rightarrow> cli_entry option) \<Rightarrow> string \<Rightarrow> cli_error + printout" where
  "stat_command c local_time zero read p =
     with_paths [p] (show_answer c zero read
       (\<lambda>e. Table [[''path'', ce_path e], [''kind'', kind_label e], [''size'', human_bytes (ce_size e)], [''modified'', modified_text local_time e]] [])
       (bridge_get (query_path ''/v1/stat'' ''path'' p)))"

definition mkdir_command :: "cli \<Rightarrow> cli_entry \<Rightarrow> (wire \<Rightarrow> cli_entry option) \<Rightarrow> bool \<Rightarrow> string \<Rightarrow> string \<Rightarrow> cli_error + printout" where
  "mkdir_command c zero read parents access p =
     with_paths [p] (show_answer c zero read (\<lambda>e. Printed [''Created '' @ ce_path e])
       (bridge_post ''/v1/mkdir'' ([(''path'', WText p), (''parents'', WBool parents)]
          @ (if access \<noteq> [] then [(''access'', WText access)] else []))))"

definition src_dst_command :: "cli \<Rightarrow> string \<Rightarrow> string \<Rightarrow> bool \<Rightarrow> string \<Rightarrow> string \<Rightarrow> cli_error + printout" where
  "src_dst_command c path verb overwrite src dst =
     with_paths [src, dst] (show_answer c [] read_any
       (\<lambda>ms. Printed [verb @ '' '' @ show_any ms ''src'' @ '' to '' @ show_any ms ''dst''])
       (bridge_post path [(''src'', WText src), (''dst'', WText dst), (''overwrite'', WBool overwrite)]))"

definition move_command :: "cli \<Rightarrow> bool \<Rightarrow> string \<Rightarrow> string \<Rightarrow> cli_error + printout" where
  "move_command c = src_dst_command c ''/v1/mv'' ''Moved''"

definition copy_command :: "cli \<Rightarrow> bool \<Rightarrow> string \<Rightarrow> string \<Rightarrow> cli_error + printout" where
  "copy_command c = src_dst_command c ''/v1/cp'' ''Copied''"

definition rename_command :: "cli \<Rightarrow> string \<Rightarrow> string \<Rightarrow> cli_error + printout" where
  "rename_command c p name =
     with_paths [p] (show_answer c [] read_any (\<lambda>ms. Printed [''Renamed to '' @ show_any ms ''path''])
       (bridge_post ''/v1/rename'' [(''path'', WText p), (''new_name'', WText name)]))"

definition remove_command :: "cli \<Rightarrow> bool \<Rightarrow> string \<Rightarrow> cli_error + printout" where
  "remove_command c permanent p =
     with_paths [p] (show_answer c [] read_any (\<lambda>ms. Printed [detail_of ms ''Removed.''])
       (bridge_post ''/v1/rm'' [(''path'', WText p), (''permanent'', WBool permanent)]))"

definition trash_command :: "cli \<Rightarrow> (wire \<Rightarrow> cli_entry list option) \<Rightarrow> cli_error + printout" where
  "trash_command c read =
     show_answer c [] read
       (\<lambda>es. if es = [] then Printed [''The trash is empty.''] else Printed (map (\<lambda>e. ce_name e @ [CHR 0x09] @ human_bytes (ce_size e)) es))
       (bridge_get ''/v1/trash'')"

definition empty_trash_command :: "cli \<Rightarrow> cli_error + printout" where
  "empty_trash_command c = print_answer c [] read_any (\<lambda>ms. Printed [detail_of ms ''The trash is empty.''])
     \<lparr>bc_method = ''POST'', bc_path = ''/v1/trash/empty'', bc_body = None\<rparr>"

definition versions_command ::
  "cli \<Rightarrow> (wire \<Rightarrow> (string \<times> (string \<times> wire) list list) option) \<Rightarrow> string \<Rightarrow> cli_error + printout" where
  "versions_command c read p =
     with_paths [p] (show_answer c ([], []) read
       (\<lambda>(path, vs). if vs = [] then Printed [path @ '' has no earlier versions.'']
          else Table (map (\<lambda>v. [show_any v ''version'', show_any v ''name'']) vs) [])
       (bridge_get (query_path ''/v1/versions'' ''path'' p)))"

section \<open>Links\<close>

definition share_link_command :: "cli \<Rightarrow> string \<Rightarrow> int \<Rightarrow> string \<Rightarrow> cli_error + printout" where
  "share_link_command c expires max_uses p =
     with_paths [p] (show_answer c [] read_any
       (\<lambda>ms. Printed [show_any ms ''url'', ''Anyone with this link can open '' @ show_any ms ''path'' @ '' until '' @ show_any ms ''expires_at'' @ ''.''])
       (bridge_post ''/v1/share/link'' ([(''path'', WText p)] @ (if expires \<noteq> [] then [(''expires_at'', WText expires)] else [])
          @ (if max_uses > 0 then [(''max_uses'', WNumber (show_int max_uses))] else []))))"

definition share_list_command ::
  "cli \<Rightarrow> (wire \<Rightarrow> (string \<times> (string \<times> wire) list list) option) \<Rightarrow> string \<Rightarrow> cli_error + printout" where
  "share_list_command c read p =
     with_paths [p] (show_answer c ([], []) read
       (\<lambda>(path, ls). if ls = [] then Printed [path @ '' is not shared.'']
          else Printed (map (\<lambda>l. show_any l ''url'' @ '' (until '' @ show_any l ''expires_at'' @ '')'') ls))
       (bridge_get (query_path ''/v1/share/list'' ''path'' p)))"

definition share_revoke_command :: "cli \<Rightarrow> string \<Rightarrow> cli_error + printout" where
  "share_revoke_command c p =
     with_paths [p] (print_answer c [] read_any (\<lambda>ms. Printed [detail_of ms ''The link no longer works.''])
       \<lparr>bc_method = ''DELETE'', bc_path = query_path ''/v1/share'' ''path'' p, bc_body = None\<rparr>)"

end
