(* ===== verification/Cli_Transfers.thy ===== *)
theory Cli_Transfers
  imports Cli_Commands
begin

text \<open>
  The commands of \<open>odctl\<close> that start and watch transfers (\<open>transfers.go\<close>), those for the cache (\<open>cache.go\<close>), and registering the bridge as a
  service (\<open>daemon.go\<close>), over the service manager's answers.
\<close>

section \<open>Transfers\<close>

definition blank_view :: job_view where
  "blank_view = \<lparr>jv_id = [], jv_kind = [], jv_state = [], jv_phase = [], jv_remote = [], jv_done = 0, jv_total = 0, jv_error = None\<rparr>"

text \<open>The polls of \<open>follow\<close>: the reply to each, none where the command was interrupted while it waited.\<close>

definition watch :: "cli \<Rightarrow> (wire \<Rightarrow> job_view option) \<Rightarrow> reply option list \<Rightarrow> (cli_error + unit) option" where
  "watch c read polls = follow (map (map_option (do_bridge (cl_base c) blank_view read)) polls)"

definition after_watch :: "cli \<Rightarrow> (wire \<Rightarrow> job_view option) \<Rightarrow> bool \<Rightarrow> reply option list \<Rightarrow> string list \<Rightarrow> string list \<Rightarrow> (cli_error + printout) option" where
  "after_watch c read wait polls started finished =
     (if cl_json c then Some (Inr AsJson)
      else if \<not> wait then Some (Inr (Printed started))
      else map_option (map_sum id (\<lambda>_. Printed finished)) (watch c read polls))"

definition upload_command ::
  "cli \<Rightarrow> (wire \<Rightarrow> job_view option) \<Rightarrow> (string \<Rightarrow> string) \<Rightarrow> (string \<Rightarrow> disk_file) \<Rightarrow> reply option list \<Rightarrow> bool \<Rightarrow> bool \<Rightarrow> string \<Rightarrow> string
    \<Rightarrow> (cli_error + printout) option" where
  "upload_command c read absolute disk polls overwrite wait local remote =
     (case check_remote_path remote of
        Some e \<Rightarrow> Some (Inl (Reported (usage_fault (usage_text e))))
      | None \<Rightarrow>
          case file_size (absolute local) (disk (absolute local)) of
            Inl e \<Rightarrow> Some (Inl e)
          | Inr n \<Rightarrow>
              case bridge_ask c blank_view read (bridge_post ''/v1/upload''
                  [(''local_path'', WText (absolute local)), (''remote_path'', WText remote), (''overwrite'', WBool overwrite)]) of
                Inl e \<Rightarrow> Some (Inl e)
              | Inr j \<Rightarrow> after_watch c read wait polls
                  [''Uploading '' @ remote @ '' ('' @ human_bytes n @ ''). Follow it with: odctl jobs '' @ jv_id j]
                  [''Uploaded to '' @ remote @ ''. It is on OpenDrive.''])"

definition download_command ::
  "cli \<Rightarrow> (wire \<Rightarrow> job_view option) \<Rightarrow> (string \<Rightarrow> string) \<Rightarrow> reply option list \<Rightarrow> bool \<Rightarrow> string \<Rightarrow> string option
    \<Rightarrow> (cli_error + printout) option" where
  "download_command c read absolute polls wait remote target =
     (case check_remote_path remote of
        Some e \<Rightarrow> Some (Inl (Reported (usage_fault (usage_text e))))
      | None \<Rightarrow>
          let local = absolute (case target of Some t \<Rightarrow> t | None \<Rightarrow> local_name remote) in
          case bridge_ask c blank_view read (bridge_post ''/v1/download'' [(''remote_path'', WText remote), (''local_path'', WText local)]) of
            Inl e \<Rightarrow> Some (Inl e)
          | Inr j \<Rightarrow> after_watch c read wait polls
              [''Downloading to '' @ local @ ''. Follow it with: odctl jobs '' @ jv_id j] [''Saved to '' @ local])"

definition describe :: "job_view \<Rightarrow> string" where
  "describe j =
     (let what = jv_kind j @ '' '' @ jv_remote j @ '' '' @ em_dash @ '' '' in
      if jv_state j = ''succeeded'' then what @ ''done ('' @ human_bytes (jv_total j) @ '')''
      else if jv_state j = ''failed'' then what @ ''failed''
      else if jv_state j = ''cancelled'' then what @ ''stopped''
      else if jv_state j = ''queued'' then what @ ''waiting to start''
      else what @ human_bytes (jv_done j) @ '' of '' @ human_bytes (jv_total j)
        @ (if jv_phase j = ''caching'' then '' (copying to the bridge)'' else []))"

definition job_command :: "cli \<Rightarrow> (wire \<Rightarrow> job_view option) \<Rightarrow> string \<Rightarrow> cli_error + printout" where
  "job_command c read i = show_answer c blank_view read
     (\<lambda>j. Printed (describe j # (case jv_error j of Some (_, msg, _) \<Rightarrow> [msg] | None \<Rightarrow> []))) (bridge_get (''/v1/jobs/'' @ i))"

definition jobs_command :: "cli \<Rightarrow> (wire \<Rightarrow> job_view list option) \<Rightarrow> cli_error + printout" where
  "jobs_command c read = show_answer c [] read
     (\<lambda>js. if js = [] then Printed [''No transfers.''] else Printed (map (\<lambda>j. jv_id j @ ''  '' @ describe j) js)) (bridge_get ''/v1/jobs'')"

definition cancel_command :: "cli \<Rightarrow> (wire \<Rightarrow> job_view option) \<Rightarrow> string \<Rightarrow> cli_error + printout" where
  "cancel_command c read i = print_answer c blank_view read
     (\<lambda>_. Printed [''Stopped. Nothing was left behind in your OpenDrive account.''])
     \<lparr>bc_method = ''DELETE'', bc_path = ''/v1/jobs/'' @ i, bc_body = None\<rparr>"

section \<open>The cache\<close>

record cache_view =
  cw_enabled :: bool
  cw_write_back :: bool
  cw_dir :: string
  cw_bytes :: int
  cw_max :: int
  cw_objects :: int
  cw_dirty_bytes :: int
  cw_dirty_objects :: int
  cw_max_dirty :: int
  cw_oldest :: int \<comment> \<open>whole seconds\<close>
  cw_safe :: bool
  cw_hits :: int
  cw_misses :: int
  cw_durable :: bool
  cw_note :: string

text \<open>The share of local reads in percent and the wait are written by \<open>fmt\<close>: \<open>percent\<close> and \<open>seconds\<close>.\<close>

definition cache_status_lines :: "(cache_view \<Rightarrow> string) \<Rightarrow> (int \<Rightarrow> string) \<Rightarrow> cache_view \<Rightarrow> string list" where
  "cache_status_lines percent seconds v =
     (if \<not> cw_enabled v then [''The cache is switched off on this bridge.'']
      else
        [''Cache:     '' @ cw_dir v,
         ''Holding:   '' @ human_bytes (cw_bytes v) @ '' of '' @ human_bytes (cw_max v) @ '' in '' @ show_int (cw_objects v) @ '' file(s)'']
        @ (if cw_hits v + cw_misses v > 0
           then [''Reads:     '' @ show_int (cw_hits v) @ '' served locally, '' @ show_int (cw_misses v) @ '' fetched ('' @ percent v @ ''% local)''] else [])
        @ (if \<not> cw_write_back v then [[], ''Writes go straight to OpenDrive, so nothing here is waiting to be uploaded.'']
           else
             [[], ''Not yet on OpenDrive: '' @ human_bytes (cw_dirty_bytes v) @ '' in '' @ show_int (cw_dirty_objects v) @ '' file(s), limit ''
                @ human_bytes (cw_max_dirty v)]
             @ (if cw_dirty_objects v > 0 \<and> cw_oldest v > 0 then [''Longest wait:         '' @ seconds (cw_oldest v)] else [])
             @ [[]]
             @ (if cw_safe v then [''Everything has reached OpenDrive. It is safe to stop the bridge.'']
                else [''NOT safe to stop the bridge yet: '' @ human_bytes (cw_dirty_bytes v) @ '' has not reached OpenDrive.'',
                      ''Run `odctl cache flush --wait` to send it now.''])
             @ (if \<not> cw_durable v \<and> cw_note v \<noteq> [] then [[], ''Warning: '' @ cw_note v] else [])))"

definition cache_status_command ::
  "cli \<Rightarrow> (cache_view \<Rightarrow> string) \<Rightarrow> (int \<Rightarrow> string) \<Rightarrow> cache_view \<Rightarrow> (wire \<Rightarrow> cache_view option) \<Rightarrow> cli_error + printout" where
  "cache_status_command c percent seconds zero read =
     show_answer c zero read (\<lambda>v. Printed (cache_status_lines percent seconds v)) (bridge_get ''/v1/cache/status'')"

record object_view =
  ow_path :: string
  ow_size :: int
  ow_state :: string
  ow_error :: string

definition unsent_view :: "object_view \<Rightarrow> bool" where
  "unsent_view ob \<longleftrightarrow> ow_state ob = ''dirty'' \<or> ow_state ob = ''uploading''"

text \<open>A row of the list: size, state and path, lined up when printed; and the last error under it.\<close>

definition object_rows :: "object_view \<Rightarrow> string list list" where
  "object_rows ob =
     [human_bytes (ow_size ob), if unsent_view ob then ''NOT uploaded yet'' else ''on OpenDrive'', ow_path ob]
     # (if ow_error ob \<noteq> [] then [[''            last attempt failed: '' @ ow_error ob]] else [])"

definition cache_objects_command :: "cli \<Rightarrow> (wire \<Rightarrow> object_view list option) \<Rightarrow> bool \<Rightarrow> cli_error + printout" where
  "cache_objects_command c read unsent_only =
     show_answer c [] read
       (\<lambda>obs. let shown = filter (\<lambda>ob. unsent_only \<longrightarrow> unsent_view ob) obs in
          if shown \<noteq> [] then Table (concat (map object_rows shown)) []
          else Printed [if unsent_only then ''Nothing is waiting to be uploaded.'' else ''The cache is empty.''])
       (bridge_get ''/v1/cache/objects'')"

definition flush_lines :: "bool \<Rightarrow> cache_view \<Rightarrow> string list" where
  "flush_lines wait v =
     (if cw_dirty_objects v = 0 then [''Everything has reached OpenDrive. It is safe to stop the bridge.'']
      else if wait then [''The flush returned but '' @ human_bytes (cw_dirty_bytes v) @ '' is still not on OpenDrive. Check `odctl cache objects --unsent`.'']
      else [''Uploading: '' @ human_bytes (cw_dirty_bytes v) @ '' in '' @ show_int (cw_dirty_objects v) @ '' file(s). Add --wait to block until it is done.''])"

definition cache_flush_command :: "cli \<Rightarrow> cache_view \<Rightarrow> (wire \<Rightarrow> cache_view option) \<Rightarrow> bool \<Rightarrow> string \<Rightarrow> cli_error + printout" where
  "cache_flush_command c zero read wait path =
     show_answer c zero read (\<lambda>v. Printed (flush_lines wait v))
       (bridge_post ''/v1/cache/flush'' ([(''wait'', WBool wait)] @ (if path \<noteq> [] then [(''path'', WText path)] else [])))"

definition cache_refresh_command :: "cli \<Rightarrow> string \<Rightarrow> cli_error + printout" where
  "cache_refresh_command c p =
     with_paths [p] (print_answer c () (\<lambda>_. Some ())
       (\<lambda>_. Printed [''Forgotten. The next read of '' @ p @ '' will fetch it from OpenDrive.''])
       (bridge_post ''/v1/cache/refresh'' [(''path'', WText p)]))"

definition cache_clear_command :: "cli \<Rightarrow> cache_view \<Rightarrow> (wire \<Rightarrow> cache_view option) \<Rightarrow> cli_error + printout" where
  "cache_clear_command c zero read =
     show_answer c zero read (\<lambda>v. Printed [''Cleared. The cache now holds '' @ human_bytes (cw_bytes v) @ ''.''])
       \<lparr>bc_method = ''DELETE'', bc_path = ''/v1/cache'', bc_body = None\<rparr>"

section \<open>The service\<close>

text \<open>What the service manager answers: an error's text, or none. The first is for building the service description.\<close>

record service_env =
  sv_new :: "string option"
  sv_action :: "string option"

definition on_service :: "service_env \<Rightarrow> cli_error + unit" where
  "on_service sv =
     (case sv_new sv of
        Some msg \<Rightarrow> Inl (Reported (service_error msg))
      | None \<Rightarrow> case sv_action sv of Some msg \<Rightarrow> Inl (Reported (service_error msg)) | None \<Rightarrow> Inr ())"

definition control_command :: "service_env \<Rightarrow> string \<Rightarrow> cli_error + string list" where
  "control_command sv done_text = map_sum id (\<lambda>_. [done_text]) (on_service sv)"

text \<open>The arguments the service is registered with.\<close>

definition service_args :: "string \<Rightarrow> string list" where
  "service_args addr = (if addr \<noteq> [] then [''--addr'', addr] else [])"

definition install_command ::
  "program_env \<Rightarrow> service_env \<Rightarrow> profile_env \<Rightarrow> (profile_error \<Rightarrow> string) \<Rightarrow> string \<Rightarrow> bool \<Rightarrow> profile_state
    \<Rightarrow> (cli_error + string list) \<times> profile_state" where
  "install_command pg sv pe why exec_path modify s =
     (case resolve_daemon_path pg exec_path of
        Inl f \<Rightarrow> (Inl (Reported f), s)
      | Inr path \<Rightarrow>
          case on_service sv of
            Inl e \<Rightarrow> (Inl e, s)
          | Inr _ \<Rightarrow>
              let dir = path_dir path;
                  head = [''The bridge is installed and will start when you log in.'',
                    ''It runs from '' @ dir @ '', where your credentials.key lives.'', ''Start it now with: odctl daemon start'']
              in if \<not> modify then
                   (Inr (head @ [[], ''To run odctl from anywhere, add this to your shell profile:'', ''  '' @ path_line pe dir,
                      ''Or re-run with --modify-shell-profile and it will be added for you,'', ''in a marked block that uninstall removes again.'']), s)
                 else case add_to_profile pe dir s of
                   (Inl e, s1) \<Rightarrow> (Inr (head @ [[], ''The bridge is installed, but your shell profile was not changed: '' @ why e]), s1)
                 | (Inr True, s1) \<Rightarrow> (Inr (head @ [[], ''Added '' @ dir @ '' to '' @ shell_profile_path pe
                      @ ''. Open a new terminal for it to take effect.'']), s1)
                 | (Inr False, s1) \<Rightarrow> (Inr (head @ [[], shell_profile_path pe @ '' already has the block; nothing to change.'']), s1))"

definition uninstall_command ::
  "service_env \<Rightarrow> profile_env \<Rightarrow> (profile_error \<Rightarrow> string) \<Rightarrow> profile_state \<Rightarrow> (cli_error + string list) \<times> profile_state" where
  "uninstall_command sv pe why s =
     (case on_service sv of
        Inl e \<Rightarrow> (Inl e, s)
      | Inr _ \<Rightarrow>
          case remove_from_profile pe s of
            (r, s1) \<Rightarrow>
              (Inr ([''The bridge will no longer start on its own.'']
                @ (case r of
                     Inl e \<Rightarrow> [''Your shell profile was left alone: '' @ why e]
                   | Inr True \<Rightarrow> [''Removed the PATH block from '' @ shell_profile_path pe @ ''.'']
                   | Inr False \<Rightarrow> [])
                @ [''Your credentials.key is untouched, so reinstalling will not ask you to'', ''sign in again. Delete the folder if you want it gone.'']), s1))"

section \<open>What holds of the commands\<close>

lemma bad_path_positions:
  "p \<in> set ps \<Longrightarrow> check_remote_path p \<noteq> None \<Longrightarrow> check_positions ps [0..int (length ps) - 1] \<noteq> None"
proof -
  assume p: "p \<in> set ps" "check_remote_path p \<noteq> None"
  then obtain n where n: "n < length ps" "ps ! n = p" by (auto simp: in_set_conv_nth)
  have "check_positions ps is \<noteq> None" if "int n \<in> set is" for "is"
    using that
  proof (induction "is")
    case (Cons i "is")
    then show ?case using n p(2) by (cases "i = int n") (auto split: option.splits)
  qed simp
  then show ?thesis using n(1) by simp
qed

text \<open>A path that cannot be one of the account is refused before anything is sent: the result does not depend on the bridge.\<close>

lemma bad_paths_send_nothing:
  assumes "check_remote_path p = Some err"
  shows "with_paths [p] run = Inl (Reported (usage_fault (usage_text err)))"
    and "\<exists>e. with_paths [p, q] run = Inl (Reported (usage_fault e))" "\<exists>e. with_paths [q, p] run = Inl (Reported (usage_fault e))"
    and "upload_command c read absolute disk polls overwrite wait local p = Some (Inl (Reported (usage_fault (usage_text err))))"
    and "download_command c read absolute polls wait p target = Some (Inl (Reported (usage_fault (usage_text err))))"
  using assms bad_path_positions [of p "[p, q]"] bad_path_positions [of p "[q, p]"]
  by (auto simp: with_paths_def upload_command_def download_command_def upto.simps split: option.splits)

text \<open>An error of the bridge goes to the shell as \<open>shell_hears_the_bridge\<close> says, whatever the command.\<close>

lemma commands_pass_errors_on:
  "cl_send c call = written_reply a \<Longrightarrow> 400 \<le> ea_http a \<Longrightarrow>
    show_answer c zero read print call = Inl (Reported (decode_api_error (Json (error_body a)) (int (ea_http a))))"
  by (simp add: show_answer_def bridge_ask_def do_bridge_def written_reply_def)

lemma no_empty_password_is_sent: "login_command c zero read [] (Line s) user = login_command c' zero read [] (Line s) user" if "trim_space s = []"
  using that by (simp add: login_command_def read_password_def)

text \<open>Blanks around a password typed at the prompt are dropped; the flag keeps them. An account whose password has them cannot sign in at the prompt.\<close>

lemma typed_password_is_trimmed: "read_password (Line '' secret '') = Inr ''secret''"
  by code_simp

text \<open>The sentence that it is safe to stop is the daemon's verdict and nothing else.\<close>

lemma safe_sentence_is_the_verdict:
  assumes "cw_enabled v" "cw_write_back v"
  shows "''Run `odctl cache flush --wait` to send it now.'' \<in> set (cache_status_lines percent seconds v) \<longleftrightarrow> \<not> cw_safe v"
  using assms by (auto simp: cache_status_lines_def)

lemma sorted_entries_set: "set (sorted_entries es) = set es"
  by (auto simp: sorted_entries_def Let_def)

lemma folders_come_first: "sorted_wrt (\<lambda>a b. ce_kind a = ''folder'' \<or> ce_kind b \<noteq> ''folder'') (sorted_entries es)"
proof -
  have any: "(\<And>a b. a \<in> set xs \<Longrightarrow> b \<in> set xs \<Longrightarrow> R a b) \<Longrightarrow> sorted_wrt R xs" for R and xs :: "cli_entry list"
    by (induction xs) auto
  show ?thesis by (auto simp: sorted_entries_def Let_def sorted_wrt_append intro!: any)
qed

lemma sizes:
  "human_bytes 1023 = ''1023 B''" "human_bytes 1536 = ''1.5 KB''" "human_bytes 1073741824 = ''1.0 GB''" "human_bytes 1048575 = ''1024.0 KB''"
  by code_simp+

text \<open>Installing and then uninstalling leaves a profile that ends with one line break as it was.\<close>

lemma install_uninstall:
  assumes run: "on_service sv = Inr ()" "resolve_daemon_path pg exec_path = Inr path"
    and e: "shell_profile_path pe \<noteq> []" "\<not> pe_unreadable pe" "pe_write pe = Written" "\<not> pe_no_dir pe" "pe_backup pe = Written"
    and s: "ps_profile s = Some was" "\<not> contains was profile_begin" "was = t @ [nl]" "t = [] \<or> last t \<noteq> nl"
    and line: "\<not> contains (path_line pe (path_dir path)) profile_end"
  shows "ps_profile (snd (uninstall_command sv pe why (snd (install_command pg sv pe why exec_path True s)))) = ps_profile s"
proof -
  have "snd (install_command pg sv pe why exec_path True s) = snd (add_to_profile pe (path_dir path) s)"
    using run by (auto simp: install_command_def Let_def split: prod.splits sum.splits bool.splits)
  moreover have "snd (uninstall_command sv pe why s2) = snd (remove_from_profile pe s2)" for s2
    using run by (auto simp: uninstall_command_def split: prod.splits)
  ultimately show ?thesis
    using removed_block [OF e s(1,2) line] restored_iff [of was] s by auto
qed

end
