(* ===== verification/Daemon.thy ===== *)
theory Daemon
  imports Go_Time "HOL-Library.Sublist"
begin

text \<open>
  The program \<open>cmd/opendrived/main.go\<close>: the settings it takes from the environment, the order in which it starts its parts and what makes it
  give up, and the order in which it stops. A part is a step of a trace; which of them fail is the input.
\<close>

section \<open>Settings\<close>

text \<open>The environment: a variable that is unset reads as empty.\<close>

type_synonym environ = "string \<Rightarrow> string"

definition env_or :: "environ \<Rightarrow> string \<Rightarrow> string \<Rightarrow> string" where
  "env_or env name fallback = (if env name \<noteq> [] then env name else fallback)"

definition env_int64 :: "environ \<Rightarrow> string \<Rightarrow> int \<Rightarrow> int" where
  "env_int64 env name fallback =
     (if env name = [] then fallback else case atoi (env name) of Some n \<Rightarrow> n | None \<Rightarrow> fallback)"

text \<open>\<open>strconv.ParseBool\<close>.\<close>

definition parse_bool :: "string \<Rightarrow> bool option" where
  "parse_bool s =
     (if s \<in> {''1'', ''t'', ''T'', ''TRUE'', ''true'', ''True''} then Some True
      else if s \<in> {''0'', ''f'', ''F'', ''FALSE'', ''false'', ''False''} then Some False else None)"

definition env_bool :: "environ \<Rightarrow> string \<Rightarrow> bool \<Rightarrow> bool" where
  "env_bool env name fallback =
     (if env name = [] then fallback else case parse_bool (env name) of Some b \<Rightarrow> b | None \<Rightarrow> fallback)"

record daemon_options =
  do_addr :: string
  do_api_key :: string
  do_backend :: string
  do_state_path :: string
  do_state_dir :: string
  do_log_level :: string
  do_cache_dir :: string
  do_cache_max :: int
  do_cache_max_dirty :: int
  do_write_back :: bool

text \<open>The values the flags have when none is given.\<close>

definition default_options :: "environ \<Rightarrow> daemon_options" where
  "default_options env =
     \<lparr>do_addr = env_or env ''ODB_LISTEN'' ''127.0.0.1:9750'', do_api_key = env ''ODB_API_KEY'',
      do_backend = env_or env ''ODB_KEYSTORE'' ''auto'', do_state_path = env ''ODB_KEYSTORE_FILE'', do_state_dir = env ''ODB_STATE_DIR'',
      do_log_level = env_or env ''ODB_LOG_LEVEL'' ''info'', do_cache_dir = env ''ODB_CACHE_DIR'',
      do_cache_max = env_int64 env ''ODB_CACHE_MAX_BYTES'' 0, do_cache_max_dirty = env_int64 env ''ODB_CACHE_MAX_DIRTY_BYTES'' 0,
      do_write_back = env_bool env ''ODB_CACHE_WRITE_BACK'' True\<rparr>"

text \<open>Where jobs are kept: \<open>self\<close> is the program with its links resolved, the second argument the user's directory for settings.\<close>

definition default_state_dir :: "string option \<Rightarrow> string \<Rightarrow> string" where
  "default_state_dir self config_dir =
     (case self of
        Some exe \<Rightarrow> path_clean (path_dir exe @ ''/jobs'')
      | None \<Rightarrow> path_clean (config_dir @ ''/opendrive-bridge/jobs''))"

definition state_dir :: "daemon_options \<Rightarrow> string option \<Rightarrow> string \<Rightarrow> string" where
  "state_dir op self config_dir = (if do_state_dir op = [] then default_state_dir self config_dir else do_state_dir op)"

section \<open>Starting and stopping\<close>

datatype daemon_step =
    OpenKeystore
  | BuildClient
  | ResumeSession
  | OpenCache
  | BuildEngine
  | BuildServer
  | StartEngine
  | RecoverJobs
  | Serve
  | DrainCache
  | CloseCache
  | GiveUp
  | Exit

text \<open>What fails. Resuming the session, recovering jobs, draining and closing are only logged.\<close>

record daemon_env =
  de_keystore_fails :: bool
  de_client_fails :: bool
  de_cache_on :: bool
  de_cache_fails :: bool
  de_engine_fails :: bool
  de_server_fails :: bool
  de_serve_fails :: bool

definition shutdown_steps :: "daemon_env \<Rightarrow> daemon_step list" where
  "shutdown_steps e = (if de_cache_on e then [DrainCache, CloseCache] else [])"

definition serve_steps :: "daemon_env \<Rightarrow> daemon_step list" where
  "serve_steps e = [StartEngine, RecoverJobs, Serve] @ (if de_serve_fails e then [GiveUp] else shutdown_steps e @ [Exit])"

definition main_steps :: "daemon_env \<Rightarrow> daemon_step list" where
  "main_steps e =
     (if de_keystore_fails e then [OpenKeystore, GiveUp]
      else if de_client_fails e then [OpenKeystore, BuildClient, GiveUp]
      else [OpenKeystore, BuildClient, ResumeSession]
        @ (if de_cache_on e \<and> de_cache_fails e then [OpenCache, GiveUp]
           else (if de_cache_on e then [OpenCache] else [])
             @ (if de_engine_fails e then [BuildEngine, GiveUp]
                else if de_server_fails e then [BuildEngine, BuildServer, GiveUp]
                else [BuildEngine, BuildServer] @ serve_steps e)))"

text \<open>No \<open>b\<close> without an \<open>a\<close> before it.\<close>

fun before :: "'a \<Rightarrow> 'a \<Rightarrow> 'a list \<Rightarrow> bool" where
  "before a b [] \<longleftrightarrow> True"
| "before a b (x # xs) \<longleftrightarrow> x \<noteq> b \<and> (x = a \<or> before a b xs)"

text \<open>The goroutine that stops the engine when the signal comes runs beside \<open>Serve\<close> and what follows, and nobody waits for it.\<close>

datatype event = Main daemon_step | StopBegins | StopEnds

definition ends_process :: "event \<Rightarrow> bool" where
  "ends_process ev \<longleftrightarrow> ev = Main Exit \<or> ev = Main GiveUp"

fun until_exit :: "event list \<Rightarrow> event list" where
  "until_exit [] = []"
| "until_exit (ev # evs) = (if ends_process ev then [ev] else ev # until_exit evs)"

definition daemon_trace :: "daemon_env \<Rightarrow> event list \<Rightarrow> bool" where
  "daemon_trace e tr \<longleftrightarrow>
     (\<exists>w. w \<in> shuffles (map Main (main_steps e)) [StopBegins, StopEnds] \<and> before (Main RecoverJobs) StopBegins w
        \<and> tr = until_exit w)"

section \<open>What the order is good for\<close>

text \<open>The drain comes after the listener has stopped, closing after the drain, and both before the process ends; the credentials are open
  before anything else and jobs are recovered before anybody can ask about them.\<close>

lemma ordered_stop:
  "before Serve DrainCache (main_steps e)" "before DrainCache CloseCache (main_steps e)"
  "de_cache_on e \<Longrightarrow> before CloseCache Exit (main_steps e)" "before RecoverJobs Serve (main_steps e)"
  "before OpenCache StartEngine (main_steps e) \<or> \<not> de_cache_on e"
  by (simp_all add: main_steps_def serve_steps_def shutdown_steps_def)

lemma one_end: "last (main_steps e) \<in> {Exit, GiveUp} \<and> main_steps e \<noteq> []
    \<and> Exit \<notin> set (butlast (main_steps e)) \<and> GiveUp \<notin> set (butlast (main_steps e))"
  by (simp add: main_steps_def serve_steps_def shutdown_steps_def)

text \<open>A cache directory that was asked for and cannot be used stops the start: the bridge never serves without it.\<close>

lemma unusable_cache_never_serves: "de_cache_on e \<Longrightarrow> de_cache_fails e \<Longrightarrow> Serve \<notin> set (main_steps e)"
  by (simp add: main_steps_def)

text \<open>Nothing makes the process wait for the engine to stop: it can end while cancelled transfers are still reclaiming what they created.\<close>

definition all_well :: daemon_env where
  "all_well = \<lparr>de_keystore_fails = False, de_client_fails = False, de_cache_on = False, de_cache_fails = False, de_engine_fails = False,
     de_server_fails = False, de_serve_fails = False\<rparr>"

lemma engine_stop_is_not_awaited:
  "\<exists>tr. daemon_trace all_well tr \<and> StopBegins \<in> set tr \<and> Main Exit \<in> set tr \<and> StopEnds \<notin> set tr"
proof -
  let ?w = "map Main [OpenKeystore, BuildClient, ResumeSession, BuildEngine, BuildServer, StartEngine, RecoverJobs, Serve]
    @ [StopBegins, Main Exit, StopEnds]"
  have m: "main_steps all_well = [OpenKeystore, BuildClient, ResumeSession, BuildEngine, BuildServer, StartEngine, RecoverJobs, Serve, Exit]"
    by code_simp
  have "?w \<in> shuffles (map Main (main_steps all_well)) [StopBegins, StopEnds]" by (simp add: m Cons_in_shuffles_iff)
  then have "daemon_trace all_well (until_exit ?w)" unfolding daemon_trace_def by (intro exI [of _ ?w]) simp
  moreover have "until_exit ?w = butlast ?w" by (simp add: ends_process_def)
  ultimately show ?thesis by (intro exI [of _ "butlast ?w"]) simp
qed

text \<open>A malformed number or flag in the environment is as good as none.\<close>

lemma malformed_settings_are_ignored:
  "atoi (env name) = None \<Longrightarrow> env_int64 env name d = d" "parse_bool (env name) = None \<Longrightarrow> env_bool env name b = b"
  by (simp_all add: env_int64_def env_bool_def)

lemma write_back_switches:
  "do_write_back (default_options (\<lambda>n. if n = ''ODB_CACHE_WRITE_BACK'' then ''off'' else []))"
  "\<not> do_write_back (default_options (\<lambda>n. if n = ''ODB_CACHE_WRITE_BACK'' then ''false'' else []))"
  by code_simp+

end
