(* ===== verification/Spec2Isabelle.thy ===== *)
theory Spec2Isabelle
  imports Path_Cache Recovery Job_Props Upload Session_Auth Keystore_Props Bridge_Auth Bridge_Jobs_Props Sharing Durability Cli_Transfers Daemon
begin

text \<open>
  A verification development for the OpenDrive bridge: a Go library for the OpenDrive service (\<open>pkg/opendrive\<close>, the SDK), a local server over it
  (\<open>internal/server\<close>) with a job engine (\<open>internal/jobs\<close>), a cache of file contents that takes writes before upstream has them
  (\<open>internal/datacache\<close>), a cache of paths (\<open>internal/cache\<close>), a credential file (\<open>internal/keystore\<close>), and the command line
  (\<open>internal/cli\<close>). Every definition of the model is a HOL function of the same shape as the Go function it stands for; theorems that
  are claims about the program are marked C1 to C40, the other lemmas carry them.

  How the parts interact. A command of \<open>odctl\<close> is one request of the server. A handler resolves the path through the SDK (which asks the
  path cache), reads or writes the data cache, or submits a job. The engine runs jobs through the SDK or the data cache; the flusher of the
  data cache sends unsent objects through the SDK. The SDK client signs every request with what the authenticator gives it, and the
  classifier turns every refusal into a kind that decides on retries, on renewing, and in the end on the words of the server and the exit
  code of the command.

  \<^bold>\<open>Foundations\<close>
  \<^item> \<open>Bridge_Prelude\<close>: Go maps as association lists (\<open>map_simps\<close>), sums over them, results as sums. \<open>Go_Strings\<close>, \<open>Go_Time\<close>: what the code
    uses of \<open>strings\<close>, \<open>path\<close>, \<open>utf8\<close>, \<open>strconv\<close>, \<open>time\<close>, byte for byte. Strings are byte strings.
  \<^item> \<open>Api_Errors\<close> (\<open>errors.go\<close>): kinds, the error record, wrapped errors, \<open>Retry-After\<close> with the overflow of \<open>int64\<close> written out.
  \<^item> \<open>Paths\<close> (\<open>types.go\<close>, \<open>path.go\<close>, \<open>server/paths.go\<close>, \<open>cli/remotepath.go\<close>): the path rules of the three layers and that they agree (C40).

  \<^bold>\<open>Caches\<close>
  \<^item> \<open>Path_Cache\<close> (\<open>pathcache.go\<close>): a lookup answers what was stored last and not invalidated since (C39).
  \<^item> \<open>Cache_Object\<close>, \<open>Cache_Journal\<close>, \<open>Data_Cache\<close>, \<open>Cache_Flush\<close>, \<open>Cache_Jobs\<close>: the objects, the journal, the store and the flusher over a
    disk with a live and a durable view; a power cut keeps the durable one and any part of what was not yet flushed. \<open>Cache_Rules\<close> and
    \<open>Cache_Eviction\<close> are the lemmas of single operations. \<open>Gateway\<close> is the cache as a machine: every public operation and every locked part of
    a worker is a step, in any order, and C3 to C5 hold in every run. \<open>Recovery\<close> opens the directory after a power cut (C1, C2, C12).
  \<^item> \<open>Durability\<close> (\<open>durability.go\<close>, \<open>lock.go\<close>): the advice about containers is read from the mount table as the kernel escapes it, and is given
    exactly when no directory above the cache but the root is a mount; the directory has one owner at a time.

  \<^bold>\<open>Jobs\<close>
  \<^item> \<open>Job_Store\<close> (\<open>store.go\<close>): the interface as the locale \<open>job_store\<close>, interpreted by the memory store and by the file store, whose save is
    atomic under a crash after any step (C11). \<open>Job_Engine\<close>: the operations of \<open>engine.go\<close>; \<open>Job_Runs\<close>: workers, cancels and crashes as a step
    relation; \<open>Job_Props\<close>: C6 to C10.

  \<^bold>\<open>The SDK\<close>
  \<^item> \<open>Classify\<close> (\<open>classify.go\<close>), \<open>Client\<close> (\<open>client.go\<close>), \<open>Upload\<close>, \<open>Download\<close>, \<open>Resolver\<close> (\<open>path.go\<close>), \<open>Folders\<close>, \<open>Files\<close>, \<open>Sharing\<close>
    (\<open>sharing.go\<close>, \<open>users.go\<close>), \<open>Wire_Types\<close> (the loose values of \<open>types.go\<close>), \<open>Redact\<close> (\<open>redact.go\<close>). What upstream answers is the input: an
    arbitrary function, or, where a theorem says so, a server that keeps to the documented protocol.
  \<^item> \<open>Auth\<close>, \<open>Oauth2\<close> (\<open>auth.go\<close>, \<open>session.go\<close>, \<open>oauth2.go\<close>) and \<open>Oauth2_Runs\<close>: the authenticators and their gate in every run (C26, C27);
    \<open>Session_Auth\<close> the session mode.
  \<^item> \<open>Env_Format\<close>, \<open>Envelope\<close>, \<open>Keystore\<close>, \<open>Keystore_Props\<close>: the text inside the credential file, its encryption over an abstract cipher, and
    the store (C28 to C30).

  \<^bold>\<open>The local server\<close>
  \<^item> \<open>Bridge_Errors\<close> (\<open>errors.go\<close>, \<open>middleware.go\<close>), \<open>Bridge_Auth\<close> (\<open>auth.go\<close>), \<open>Bridge_Files\<close> (\<open>files.go\<close>), \<open>Bridge_Transfers\<close> (\<open>transfers.go\<close>,
    \<open>cache_transfers.go\<close>, \<open>cache.go\<close>) and \<open>Bridge_Jobs\<close>: one function per handler over the state of the bridge, which holds the path cache, the
    data cache and upstream; the theories ending in \<open>_Props\<close> prove C13 to C22 of them, over the models of the parts they call.

  \<^bold>\<open>The command line and the program\<close>
  \<^item> \<open>Cli_Client\<close>, \<open>Cli_Commands\<close>, \<open>Cli_Transfers\<close>: the client of the server with its exit codes, every command with what it checks, asks and
    prints. C31 composes the server's side with this one: what the server decided is what the shell hears. \<open>Shell_Profile\<close>: the block in the
    user's profile, and that taking it out undoes putting it in. \<open>Daemon\<close> (\<open>opendrived/main.go\<close>): settings, and the order of starting and
    stopping.

  \<^bold>\<open>Interfaces.\<close> Where one part relies on another, the contract is a locale: \<open>job_store\<close> (what the engine needs of a store), \<open>path_index\<close> (what
  the resolver needs of a path cache), \<open>cred_store\<close> and \<open>sound_store\<close> (what the authenticators need of a credential store), and
  \<open>auth_invariant\<close> (what every operation of an authenticator keeps). Each is interpreted on the model's own definitions: the memory store and
  the file store, the path cache of the bridge and its absence, the memory store and the encrypted file of the credentials.

  \<^bold>\<open>Bounds and fuel.\<close> Loops over data are structural, or have a measure that is proved. The retry loop of the client is bounded by its
  policy (five attempts by default); the stream loop renews once; the engine's queue holds 1024 jobs, the flusher's 4096 paths.
  \<open>read_pages\<close> takes the number of pages a caller is prepared to read and the
  lemma about it says how many are enough. \<open>mkdir\<close> is a partial function, since nothing in the code bounds the climb to the root, and C22
  proves that it always returns. Waiting for an upload (\<open>wait_until_sent\<close>) and removing from the cache (\<open>remove_loop\<close>) end when other workers
  let them; the number they take is how often they look, \<open>None\<close> stands for a run that still waits, and the theorems about results ask for a
  result. \<open>mount_ancestors\<close> gets the length of the path, which is more than its directories.
  The 600000 rounds of the key derivation are a number in the model that no proof evaluates.

  \<^bold>\<open>Parameters.\<close> Ciphers, hashes, compression, JSON decoding into a given struct, and the answers of upstream, the network, the disk and the
  service manager are arguments. A hypothesis on one of them states what its documentation says, and a witness instantiates it.

  \<^bold>\<open>Not modelled.\<close> Logging and the access log; the web console, which serves embedded files (\<open>internal/ui\<close>); flag parsing, the progress bar, the
  service templates and the in-process transport of \<open>--direct\<close> in the command line; the routing table, which is a list for a third-party
  router, and the deadlines of the HTTP server; \<open>RedactURL\<close> and the IP parsing behind the warning about an open port; the generator of the
  endpoint list and the test double under \<open>tools\<close>. Doubles are exact where they decide something (numbers on the wire, sizes) and rationals
  where they are settings (watermarks, speeds). Locks are not objects of the model: a section under a lock is one step, and what happens
  between two of them is any sequence of other steps.
\<close>

end
